(* ===== verification/Siox_Prelude.thy ===== *)
theory Siox_Prelude
  imports Main "HOL-Library.Word" "HOL-Library.Multiset"
begin

text \<open>
  The shared layer of the development: names for the machine types of the source, the result
  type of fallible operations, C and C++ library functions used by several components (decimal
  rendering, C strings, little-endian byte copies, C++ integer division), and generic lemmas on
  vectors and keyed containers. Three fact collections drive the component proofs:
  \<^item> \<open>siox_defs\<close>: definitions that are always unfolded;
  \<^item> \<open>siox_frame\<close>: what an operation leaves unchanged;
  \<^item> \<open>siox_inv\<close>: invariants that operations keep.
\<close>

named_theorems siox_defs
named_theorems siox_frame
named_theorems siox_inv

section \<open>Machine types and failures\<close>

type_synonym u8 = "8 word"
type_synonym u16 = "16 word"
type_synonym u32 = "32 word"
type_synonym u64 = "64 word"
type_synonym buffer = "u8 list"

text \<open>
  Ways an operation ends without a value: an assertion or an explicit \<open>abort()\<close> stops the
  process, and an operation the C++ standard leaves undefined.
\<close>

datatype failure = Abort string | Undefined string

type_synonym 'a outcome = "failure + 'a"

definition bindr :: "'e + 'a \<Rightarrow> ('a \<Rightarrow> 'e + 'b) \<Rightarrow> 'e + 'b" where
  "bindr m f = (case m of Inl e \<Rightarrow> Inl e | Inr x \<Rightarrow> f x)"

lemma bindr_simps [simp]:
  "bindr (Inl e) f = Inl e"
  "bindr (Inr x) f = f x"
  by (simp_all add: bindr_def)

lemma bindr_Inr_iff: "bindr m f = Inr y \<longleftrightarrow> (\<exists>x. m = Inr x \<and> f x = Inr y)"
  by (cases m) auto

text \<open>Integer division of C++, which truncates towards zero, and the range of a signed type.\<close>

definition c_div :: "int \<Rightarrow> int \<Rightarrow> int" where
  "c_div a b = sgn a * sgn b * (\<bar>a\<bar> div \<bar>b\<bar>)"

lemma sint_eq_iff [simp]: "sint (a :: 'a::len word) = sint b \<longleftrightarrow> a = b"
  by (auto intro: signed_word_eqI)

lemma unat_eq_iff [simp]: "unat (a :: 'a::len word) = unat b \<longleftrightarrow> a = b"
  by (auto intro: unsigned_word_eqI)

definition fits_signed :: "nat \<Rightarrow> int \<Rightarrow> bool" where
  "fits_signed n i \<longleftrightarrow> - (2 ^ (n - 1)) \<le> i \<and> i < 2 ^ (n - 1)"

section \<open>Decimal rendering\<close>

text \<open>\<open>std::to_string\<close> and stream output of an unsigned or signed integer.\<close>

definition digit_char :: "nat \<Rightarrow> char" where
  "digit_char d = char_of (48 + d)"

fun dec_nat :: "nat \<Rightarrow> string" where
  "dec_nat n = (if n < 10 then [digit_char n] else dec_nat (n div 10) @ [digit_char (n mod 10)])"

declare dec_nat.simps [simp del]

definition dec_int :: "int \<Rightarrow> string" where
  "dec_int i = (if i < 0 then CHR ''-'' # dec_nat (nat (- i)) else dec_nat (nat i))"

definition digit_value :: "char \<Rightarrow> nat" where
  "digit_value c = of_char c - 48"

definition is_digit_char :: "char \<Rightarrow> bool" where
  "is_digit_char c \<longleftrightarrow> 48 \<le> (of_char c :: nat) \<and> (of_char c :: nat) \<le> 57"

definition undec :: "string \<Rightarrow> nat" where
  "undec s = foldl (\<lambda>a c. 10 * a + digit_value c) 0 s"

lemma digit_char_digit [simp]:
  "d < 10 \<Longrightarrow> digit_value (digit_char d) = d"
  "d < 10 \<Longrightarrow> is_digit_char (digit_char d)"
  by (simp_all add: digit_value_def digit_char_def is_digit_char_def)

lemma dec_nat_digits: "c \<in> set (dec_nat n) \<Longrightarrow> is_digit_char c"
proof (induction n rule: dec_nat.induct)
  case (1 n)
  then show ?case
    by (cases "n < 10") (auto simp: dec_nat.simps [of n])
qed

lemma dec_nat_nonempty [simp]: "dec_nat n \<noteq> []"
  by (subst dec_nat.simps) simp

lemma undec_dec_nat [simp]: "undec (dec_nat n) = n"
proof (induction n rule: dec_nat.induct)
  case (1 n)
  show ?case
  proof (cases "n < 10")
    case True
    then show ?thesis by (simp add: dec_nat.simps [of n] undec_def)
  next
    case False
    with 1 have "undec (dec_nat (n div 10)) = n div 10" by simp
    with False show ?thesis by (simp add: dec_nat.simps [of n] undec_def)
  qed
qed

lemma dec_nat_inject [simp]: "dec_nat m = dec_nat n \<longleftrightarrow> m = n"
  by (metis undec_dec_nat)

lemma dec_nat_no_sep: "\<not> is_digit_char c \<Longrightarrow> c \<notin> set (dec_nat n)"
  using dec_nat_digits by blast

text \<open>
  A number followed by a separator can be read back: this makes composite keys such as
  \<open>"(1,23,4)"\<close> unambiguous.
\<close>

lemma append_sep_cancel:
  assumes "c \<notin> set xs" and "c \<notin> set ys"
  shows "xs @ c # r = ys @ c # s \<longleftrightarrow> xs = ys \<and> r = s"
  using assms
proof (induction xs arbitrary: ys)
  case Nil
  then show ?case by (cases ys) auto
next
  case (Cons x xs)
  then show ?case by (cases ys) auto
qed

lemma dec_nat_sep_inject:
  "\<not> is_digit_char c \<Longrightarrow> dec_nat m @ c # r = dec_nat n @ c # s \<longleftrightarrow> m = n \<and> r = s"
  by (simp add: append_sep_cancel dec_nat_no_sep)

lemma dec_int_inject [simp]: "dec_int i = dec_int j \<longleftrightarrow> i = j"
proof -
  have "\<not> is_digit_char (CHR ''-'')" by (simp add: is_digit_char_def)
  then have neq: "CHR ''-'' # xs \<noteq> dec_nat n" for xs n
    by (metis dec_nat_digits list.set_intros(1))
  show ?thesis
    using neq by (auto simp: dec_int_def neq [THEN not_sym])
qed

section \<open>C strings and byte copies\<close>

text \<open>A \<open>char *\<close> ends at the first NUL: what \<open>c_str()\<close> followed by \<open>strdup\<close> keeps.\<close>

definition c_str :: "string \<Rightarrow> string" where
  "c_str s = takeWhile (\<lambda>c. c \<noteq> CHR 0x00) s"

definition no_nul :: "string \<Rightarrow> bool" where
  "no_nul s \<longleftrightarrow> CHR 0x00 \<notin> set s"

lemma c_str_id [simp]: "no_nul s \<Longrightarrow> c_str s = s"
  by (auto simp: c_str_def no_nul_def takeWhile_eq_all_conv)

lemma no_nul_c_str [simp]: "no_nul (c_str s)"
  by (auto simp: c_str_def no_nul_def dest: set_takeWhileD)

text \<open>Copying an \<open>n\<close>-byte integer with \<open>memcpy\<close> on a little-endian machine.\<close>

fun le_bytes :: "nat \<Rightarrow> nat \<Rightarrow> buffer" where
  "le_bytes 0 v = []"
| "le_bytes (Suc n) v = of_nat (v mod 256) # le_bytes n (v div 256)"

fun le_value :: "buffer \<Rightarrow> nat" where
  "le_value [] = 0"
| "le_value (b # bs) = unat b + 256 * le_value bs"

lemma length_le_bytes [simp]: "length (le_bytes n v) = n"
  by (induction n arbitrary: v) auto

lemma unat_of_nat_byte [simp]: "unat (of_nat (v mod 256) :: u8) = v mod 256"
  by (simp add: unat_of_nat)

lemma le_value_le_bytes: "v < 256 ^ n \<Longrightarrow> le_value (le_bytes n v) = v"
proof (induction n arbitrary: v)
  case 0
  then show ?case by simp
next
  case (Suc n)
  then have "v div 256 < 256 ^ n"
    by (simp add: less_mult_imp_div_less mult.commute)
  then show ?case using Suc.IH by simp
qed

lemma le_value_bound: "le_value bs < 256 ^ length bs"
proof (induction bs)
  case Nil
  then show ?case by simp
next
  case (Cons b bs)
  have "unat b < 256" using unsigned_less [of b] by simp
  with Cons show ?case by simp
qed

lemma le_bytes_le_value: "length bs = n \<Longrightarrow> le_bytes n (le_value bs) = bs"
proof (induction n arbitrary: bs)
  case 0
  then show ?case by simp
next
  case (Suc n)
  then obtain b bs' where bs: "bs = b # bs'" "length bs' = n"
    by (cases bs) auto
  have "unat b < 256" using unsigned_less [of b] by simp
  then show ?case using Suc.IH [of bs'] bs by simp
qed

text \<open>Position of an id in a vector, the \<open>int\<close> that is negative when it is missing as an option.\<close>

fun index_of :: "'a \<Rightarrow> 'a list \<Rightarrow> nat option" where
  "index_of x [] = None"
| "index_of x (y # ys) = (if y = x then Some 0 else map_option Suc (index_of x ys))"

lemma index_of_Some: "index_of x xs = Some i \<Longrightarrow> i < length xs \<and> xs ! i = x"
  by (induction xs arbitrary: i) (auto split: if_splits)

lemma index_of_None: "index_of x xs = None \<longleftrightarrow> x \<notin> set xs"
  by (induction xs) auto

lemma index_of_append1:
  "index_of x (xs @ [y]) =
     (if x \<in> set xs then index_of x xs else if x = y then Some (length xs) else None)"
  by (induction xs) auto

text \<open>Loops whose body can fail.\<close>

fun fold_outcome :: "('b \<Rightarrow> 'a \<Rightarrow> 'a outcome) \<Rightarrow> 'b list \<Rightarrow> 'a \<Rightarrow> 'a outcome" where
  "fold_outcome f [] r = Inr r"
| "fold_outcome f (x # xs) r = bindr (f x r) (fold_outcome f xs)"

fun map_outcome :: "('a \<Rightarrow> 'b outcome) \<Rightarrow> 'a list \<Rightarrow> 'b list outcome" where
  "map_outcome f [] = Inr []"
| "map_outcome f (x # xs) = bindr (f x) (\<lambda>y. bindr (map_outcome f xs) (\<lambda>ys. Inr (y # ys)))"

lemma fold_outcome_inv:
  assumes "fold_outcome f xs c = Inr c'" and "P c" and "\<And>x c c'. P c \<Longrightarrow> f x c = Inr c' \<Longrightarrow> P c'"
  shows "P c'"
  using assms(1,2) by (induction xs arbitrary: c) (auto simp: bindr_Inr_iff intro: assms(3))

lemma fold_outcome_append: "fold_outcome f (xs @ ys) r = bindr (fold_outcome f xs r) (fold_outcome f ys)"
  by (induction xs arbitrary: r) (simp_all add: bindr_def split: sum.splits)

end
