(* ===== verification/Ieee_Float.thy ===== *)
theory Ieee_Float
  imports Siox_Prelude
begin

text \<open>
  The C++ types \<open>float\<close> and \<open>double\<close> as IEEE-754 bit patterns. A format is given by its
  precision \<open>p\<close> (hidden bit included) and exponent width \<open>w\<close>. Patterns are decoded to an exact
  dyadic value; arithmetic is exact arithmetic on these values followed by rounding to nearest,
  ties to even, with gradual underflow and overflow to infinity. Every NaN result is the
  canonical quiet NaN. The comparison of two patterns is the comparison of their values scaled
  to integers, so that its order laws follow from those of \<open>int\<close>.
\<close>

section \<open>Decoding\<close>

datatype fval = FNaN | FInf bool | FFin bool nat int

definition fp_qmin :: "nat \<Rightarrow> nat \<Rightarrow> int" where
  "fp_qmin p w = 3 - 2 ^ (w - 1) - int p"

definition fp_decode :: "nat \<Rightarrow> nat \<Rightarrow> nat \<Rightarrow> fval" where
  "fp_decode p w b =
     (let s = odd (b div 2 ^ (w + p - 1));
          e = (b div 2 ^ (p - 1)) mod 2 ^ w;
          m = b mod 2 ^ (p - 1)
      in if e = 2 ^ w - 1 then (if m = 0 then FInf s else FNaN)
         else if e = 0 then FFin s m (fp_qmin p w)
         else FFin s (m + 2 ^ (p - 1)) (fp_qmin p w + int e - 1))"

section \<open>Rounding\<close>

definition round_half_even :: "nat \<Rightarrow> nat \<Rightarrow> nat" where
  "round_half_even n d =
     (let q = n div d; r = n mod d in if 2 * r > d \<or> 2 * r = d \<and> odd q then q + 1 else q)"

fun bitlen :: "nat \<Rightarrow> nat" where
  "bitlen n = (if n = 0 then 0 else Suc (bitlen (n div 2)))"

declare bitlen.simps [simp del]

lemma bitlen_numerals [simp]:
  "bitlen 0 = 0"
  "bitlen (Suc 0) = 1"
  "bitlen (numeral Num.One) = 1"
  "bitlen (numeral (Num.Bit0 n)) = Suc (bitlen (numeral n))"
  "bitlen (numeral (Num.Bit1 n)) = Suc (bitlen (numeral n))"
  by (simp_all add: bitlen.simps [of 0] bitlen.simps [of 1] bitlen.simps [of "Suc 0"]
        bitlen.simps [of "numeral (Num.Bit0 n)"] bitlen.simps [of "numeral (Num.Bit1 n)"])

definition fp_inf_bits :: "nat \<Rightarrow> nat \<Rightarrow> nat" where
  "fp_inf_bits p w = (2 ^ w - 1) * 2 ^ (p - 1)"

definition fp_nan_bits :: "nat \<Rightarrow> nat \<Rightarrow> nat" where
  "fp_nan_bits p w = fp_inf_bits p w + 2 ^ (p - 2)"

definition fp_sign_bits :: "nat \<Rightarrow> nat \<Rightarrow> bool \<Rightarrow> nat" where
  "fp_sign_bits p w s = (if s then 2 ^ (w + p - 1) else 0)"

text \<open>The pattern nearest to \<open>(n / d) * 2 ^ e\<close> with sign \<open>s\<close>, for \<open>d > 0\<close>.\<close>

definition fp_round :: "nat \<Rightarrow> nat \<Rightarrow> bool \<Rightarrow> nat \<Rightarrow> nat \<Rightarrow> int \<Rightarrow> nat" where
  "fp_round p w s n d e =
     fp_sign_bits p w s +
     (if n = 0 then 0
      else
        let n' = (if 0 \<le> e then n * 2 ^ nat e else n);
            d' = (if 0 \<le> e then d else d * 2 ^ nat (- e));
            k = int (bitlen n') - int (bitlen d');
            ge = (if 0 \<le> k then d' * 2 ^ nat k \<le> n' else d' \<le> n' * 2 ^ nat (- k));
            E = (if ge then k else k - 1);
            q = max (E - int (p - 1)) (fp_qmin p w);
            m = (if 0 \<le> q then round_half_even n' (d' * 2 ^ nat q)
                 else round_half_even (n' * 2 ^ nat (- q)) d')
        in min (fp_inf_bits p w) (nat (q - fp_qmin p w) * 2 ^ (p - 1) + m))"

section \<open>Arithmetic\<close>

definition fp_of_int :: "nat \<Rightarrow> nat \<Rightarrow> int \<Rightarrow> nat" where
  "fp_of_int p w i = fp_round p w (i < 0) (nat \<bar>i\<bar>) 1 0"

definition fp_convert :: "nat \<Rightarrow> nat \<Rightarrow> fval \<Rightarrow> nat" where
  "fp_convert p w v =
     (case v of FNaN \<Rightarrow> fp_nan_bits p w
      | FInf s \<Rightarrow> fp_sign_bits p w s + fp_inf_bits p w
      | FFin s m e \<Rightarrow> fp_round p w s m 1 e)"

definition signed_mag :: "bool \<Rightarrow> nat \<Rightarrow> int" where
  "signed_mag s m = (if s then - int m else int m)"

definition fp_add :: "nat \<Rightarrow> nat \<Rightarrow> nat \<Rightarrow> nat \<Rightarrow> nat" where
  "fp_add p w a b =
     (case (fp_decode p w a, fp_decode p w b) of
        (FInf s, FInf t) \<Rightarrow> if s = t then fp_convert p w (FInf s) else fp_nan_bits p w
      | (FInf s, FFin _ _ _) \<Rightarrow> fp_convert p w (FInf s)
      | (FFin _ _ _, FInf t) \<Rightarrow> fp_convert p w (FInf t)
      | (FFin s m e, FFin t n f) \<Rightarrow>
          (let g = min e f;
               v = signed_mag s (m * 2 ^ nat (e - g)) + signed_mag t (n * 2 ^ nat (f - g))
           in fp_round p w (if v = 0 then s \<and> t else v < 0) (nat \<bar>v\<bar>) 1 g)
      | _ \<Rightarrow> fp_nan_bits p w)"

definition fp_div :: "nat \<Rightarrow> nat \<Rightarrow> nat \<Rightarrow> nat \<Rightarrow> nat" where
  "fp_div p w a b =
     (case (fp_decode p w a, fp_decode p w b) of
        (FInf s, FFin t _ _) \<Rightarrow> fp_convert p w (FInf (s \<noteq> t))
      | (FFin s _ _, FInf t) \<Rightarrow> fp_sign_bits p w (s \<noteq> t)
      | (FFin s m e, FFin t n f) \<Rightarrow>
          (if n = 0 then (if m = 0 then fp_nan_bits p w else fp_convert p w (FInf (s \<noteq> t)))
           else fp_round p w (s \<noteq> t) m n (e - f))
      | _ \<Rightarrow> fp_nan_bits p w)"

definition fp_mul :: "nat \<Rightarrow> nat \<Rightarrow> nat \<Rightarrow> nat \<Rightarrow> nat" where
  "fp_mul p w a b =
     (case (fp_decode p w a, fp_decode p w b) of
        (FInf s, FInf t) \<Rightarrow> fp_convert p w (FInf (s \<noteq> t))
      | (FInf s, FFin t n _) \<Rightarrow> if n = 0 then fp_nan_bits p w else fp_convert p w (FInf (s \<noteq> t))
      | (FFin s m _, FInf t) \<Rightarrow> if m = 0 then fp_nan_bits p w else fp_convert p w (FInf (s \<noteq> t))
      | (FFin s m e, FFin t n f) \<Rightarrow> fp_round p w (s \<noteq> t) (m * n) 1 (e + f)
      | _ \<Rightarrow> fp_nan_bits p w)"

text \<open>Truncation to an integer, undefined for NaN and infinities.\<close>

definition fp_trunc :: "nat \<Rightarrow> nat \<Rightarrow> nat \<Rightarrow> int option" where
  "fp_trunc p w b =
     (case fp_decode p w b of
        FFin s m e \<Rightarrow>
          Some (signed_mag s (if 0 \<le> e then m * 2 ^ nat e else m div 2 ^ nat (- e)))
      | _ \<Rightarrow> None)"

section \<open>Comparison\<close>

definition fp_key :: "nat \<Rightarrow> nat \<Rightarrow> nat \<Rightarrow> int option" where
  "fp_key p w b =
     (case fp_decode p w b of
        FNaN \<Rightarrow> None
      | FInf s \<Rightarrow> Some (signed_mag s (2 ^ (2 ^ w + p)))
      | FFin s m e \<Rightarrow> Some (signed_mag s (m * 2 ^ nat (e - fp_qmin p w))))"

definition fp_lt :: "nat \<Rightarrow> nat \<Rightarrow> nat \<Rightarrow> nat \<Rightarrow> bool" where
  "fp_lt p w a b =
     (case (fp_key p w a, fp_key p w b) of (Some x, Some y) \<Rightarrow> x < y | _ \<Rightarrow> False)"

definition fp_eq :: "nat \<Rightarrow> nat \<Rightarrow> nat \<Rightarrow> nat \<Rightarrow> bool" where
  "fp_eq p w a b =
     (case (fp_key p w a, fp_key p w b) of (Some x, Some y) \<Rightarrow> x = y | _ \<Rightarrow> False)"

definition fp_is_nan :: "nat \<Rightarrow> nat \<Rightarrow> nat \<Rightarrow> bool" where
  "fp_is_nan p w b \<longleftrightarrow> fp_key p w b = None"

lemma fp_lt_irrefl [simp]: "\<not> fp_lt p w a a"
  by (simp add: fp_lt_def split: option.splits)

lemma fp_lt_trans: "fp_lt p w a b \<Longrightarrow> fp_lt p w b c \<Longrightarrow> fp_lt p w a c"
  by (auto simp: fp_lt_def split: option.splits)

lemma fp_lt_asym: "fp_lt p w a b \<Longrightarrow> \<not> fp_lt p w b a"
  by (auto simp: fp_lt_def split: option.splits)

lemma fp_eq_refl [simp]: "fp_eq p w a a \<longleftrightarrow> \<not> fp_is_nan p w a"
  by (simp add: fp_eq_def fp_is_nan_def split: option.splits)

lemma fp_eq_sym: "fp_eq p w a b = fp_eq p w b a"
  by (auto simp: fp_eq_def split: option.splits)

lemma fp_eq_trans: "fp_eq p w a b \<Longrightarrow> fp_eq p w b c \<Longrightarrow> fp_eq p w a c"
  by (auto simp: fp_eq_def split: option.splits)

lemma fp_trichotomy:
  "\<not> fp_is_nan p w a \<Longrightarrow> \<not> fp_is_nan p w b \<Longrightarrow> fp_lt p w a b \<or> fp_eq p w a b \<or> fp_lt p w b a"
  by (auto simp: fp_lt_def fp_eq_def fp_is_nan_def split: option.splits)

lemma fp_nan_lt: "fp_is_nan p w a \<Longrightarrow> \<not> fp_lt p w a b \<and> \<not> fp_lt p w b a"
  by (auto simp: fp_lt_def fp_is_nan_def split: option.splits)

lemma fp_lt_eq_excl: "fp_lt p w a b \<Longrightarrow> \<not> fp_eq p w a b"
  by (auto simp: fp_lt_def fp_eq_def split: option.splits)

text \<open>The infinities bound every other value.\<close>

lemma fp_decode_Fin_bounds:
  assumes "fp_decode p w b = FFin s m e"
  shows "m < 2 ^ (p - 1) + 2 ^ (p - 1)" and "nat (e - fp_qmin p w) < 2 ^ w"
proof -
  have r: "b mod 2 ^ (p - 1) < 2 ^ (p - 1)" by simp
  then have r2: "b mod 2 ^ (p - 1) < 2 ^ (p - 1) + 2 ^ (p - 1)" by (rule trans_less_add1)
  have f: "(b div 2 ^ (p - 1)) mod 2 ^ w < 2 ^ w" by simp
  then have "int ((b div 2 ^ (p - 1)) mod 2 ^ w) < int (2 ^ w)" by (simp only: of_nat_less_iff)
  then have f': "int ((b div 2 ^ (p - 1)) mod 2 ^ w) - 1 < 2 ^ w"
    unfolding of_nat_power of_nat_numeral by linarith
  from assms r r2 show "m < 2 ^ (p - 1) + 2 ^ (p - 1)"
    by (auto simp: fp_decode_def Let_def split: if_splits)
  from assms f f' show "nat (e - fp_qmin p w) < 2 ^ w"
    by (auto simp: fp_decode_def Let_def split: if_splits)
qed

lemma signed_mag_abs [simp]: "\<bar>signed_mag s m\<bar> = int m"
  by (simp add: signed_mag_def)

lemma fp_key_bound:
  assumes "fp_key p w b = Some k" and "0 < p"
  shows "\<bar>k\<bar> \<le> 2 ^ (2 ^ w + p)"
proof (cases "fp_decode p w b")
  case FNaN
  with assms show ?thesis by (simp add: fp_key_def)
next
  case (FInf s)
  with assms show ?thesis by (auto simp: fp_key_def)
next
  case (FFin s m e)
  from fp_decode_Fin_bounds(1) [OF FFin] \<open>0 < p\<close> have m: "m < 2 ^ p"
    by (cases p) auto
  from fp_decode_Fin_bounds(2) [OF FFin]
  have "(2::nat) ^ nat (e - fp_qmin p w) \<le> 2 ^ (2 ^ w)"
    by (intro power_increasing) auto
  with m have "m * 2 ^ nat (e - fp_qmin p w) \<le> 2 ^ p * 2 ^ (2 ^ w)"
    by (intro mult_mono) auto
  then have "int (m * 2 ^ nat (e - fp_qmin p w)) \<le> int (2 ^ p * 2 ^ (2 ^ w))"
    by (simp only: of_nat_le_iff)
  with FFin assms show ?thesis
    by (auto simp: fp_key_def power_add mult.commute)
qed

lemma fp_key_inf:
  assumes "0 < p" and "0 < w"
  shows "fp_key p w (fp_sign_bits p w s + fp_inf_bits p w) = Some (signed_mag s (2 ^ (2 ^ w + p)))"
proof -
  obtain q where q: "p = Suc q" using assms by (cases p) auto
  let ?b = "fp_sign_bits p w s + fp_inf_bits p w"
  have w1: "(1::nat) < 2 ^ w" using assms by (metis one_less_numeral_iff one_less_power semiring_norm(76))
  obtain n where n: "(2::nat) ^ w = Suc n" using w1 by (cases "(2::nat) ^ w") auto
  have b: "?b = ((if s then 2 ^ w else 0) + (2 ^ w - 1)) * 2 ^ q"
    by (simp add: fp_sign_bits_def fp_inf_bits_def q power_add n algebra_simps)
  have hi: "?b div 2 ^ q = (if s then 2 ^ w else 0) + (2 ^ w - 1)"
    unfolding b by simp
  have sgn: "?b div 2 ^ (w + q) = (if s then 1 else 0)"
  proof -
    have "?b div 2 ^ (w + q) = (?b div 2 ^ q) div 2 ^ w"
      by (simp add: power_add div_mult2_eq mult.commute)
    also have "\<dots> = (if s then 1 else 0)"
      unfolding hi using div_nat_eqI [of "Suc n" 1 "Suc (n + n)"] by (simp add: n)
    finally show ?thesis .
  qed
  have lo: "?b mod 2 ^ q = 0" unfolding b by simp
  have ex: "(?b div 2 ^ q) mod 2 ^ w = 2 ^ w - 1"
    unfolding hi using mod_add_self1 [of "Suc n" n] by (simp add: n del: mod_add_self1)
  have "fp_decode p w ?b = FInf s"
    using sgn lo ex by (simp add: fp_decode_def Let_def q)
  then show ?thesis by (simp add: fp_key_def)
qed

lemma fp_inf_max:
  assumes "0 < p" and "0 < w"
  shows "\<not> fp_lt p w (fp_inf_bits p w) b"
proof -
  have "fp_key p w (fp_inf_bits p w) = Some (2 ^ (2 ^ w + p))"
    using fp_key_inf [OF assms, of False] by (simp add: fp_sign_bits_def signed_mag_def)
  then show ?thesis
    using fp_key_bound [OF _ \<open>0 < p\<close>, of w b] by (force simp: fp_lt_def split: option.splits)
qed

lemma fp_inf_min:
  assumes "0 < p" and "0 < w"
  shows "\<not> fp_lt p w b (fp_sign_bits p w True + fp_inf_bits p w)"
proof -
  have "fp_key p w (fp_sign_bits p w True + fp_inf_bits p w) = Some (- (2 ^ (2 ^ w + p)))"
    using fp_key_inf [OF assms, of True] by (simp add: signed_mag_def)
  then show ?thesis
    using fp_key_bound [OF _ \<open>0 < p\<close>, of w b] by (force simp: fp_lt_def split: option.splits)
qed

section \<open>The two formats of the source\<close>

type_synonym float32 = u32
type_synonym float64 = u64

definition f32_lt :: "float32 \<Rightarrow> float32 \<Rightarrow> bool" where
  "f32_lt a b = fp_lt 24 8 (unat a) (unat b)"

definition f32_eq :: "float32 \<Rightarrow> float32 \<Rightarrow> bool" where
  "f32_eq a b = fp_eq 24 8 (unat a) (unat b)"

definition f32_nan :: "float32 \<Rightarrow> bool" where
  "f32_nan a = fp_is_nan 24 8 (unat a)"

definition f64_lt :: "float64 \<Rightarrow> float64 \<Rightarrow> bool" where
  "f64_lt a b = fp_lt 53 11 (unat a) (unat b)"

definition f64_eq :: "float64 \<Rightarrow> float64 \<Rightarrow> bool" where
  "f64_eq a b = fp_eq 53 11 (unat a) (unat b)"

definition f64_nan :: "float64 \<Rightarrow> bool" where
  "f64_nan a = fp_is_nan 53 11 (unat a)"

definition f32_add :: "float32 \<Rightarrow> float32 \<Rightarrow> float32" where
  "f32_add a b = of_nat (fp_add 24 8 (unat a) (unat b))"

definition f64_add :: "float64 \<Rightarrow> float64 \<Rightarrow> float64" where
  "f64_add a b = of_nat (fp_add 53 11 (unat a) (unat b))"

definition f32_div :: "float32 \<Rightarrow> float32 \<Rightarrow> float32" where
  "f32_div a b = of_nat (fp_div 24 8 (unat a) (unat b))"

definition f64_div :: "float64 \<Rightarrow> float64 \<Rightarrow> float64" where
  "f64_div a b = of_nat (fp_div 53 11 (unat a) (unat b))"

definition f32_mul :: "float32 \<Rightarrow> float32 \<Rightarrow> float32" where
  "f32_mul a b = of_nat (fp_mul 24 8 (unat a) (unat b))"

definition f32_of_int :: "int \<Rightarrow> float32" where
  "f32_of_int i = of_nat (fp_of_int 24 8 i)"

definition f64_of_int :: "int \<Rightarrow> float64" where
  "f64_of_int i = of_nat (fp_of_int 53 11 i)"

definition f64_of_f32 :: "float32 \<Rightarrow> float64" where
  "f64_of_f32 a = of_nat (fp_convert 53 11 (fp_decode 24 8 (unat a)))"

definition f32_of_f64 :: "float64 \<Rightarrow> float32" where
  "f32_of_f64 a = of_nat (fp_convert 24 8 (fp_decode 53 11 (unat a)))"

lemma f32_inf_extreme:
  "\<not> f32_lt 0x7f800000 b" "\<not> f32_lt b 0xff800000"
  using fp_inf_max [of 24 8 "unat b"] fp_inf_min [of 24 8 "unat b"]
  by (simp_all add: f32_lt_def fp_inf_bits_def fp_sign_bits_def)

lemma f64_inf_extreme:
  "\<not> f64_lt 0x7ff0000000000000 b" "\<not> f64_lt b 0xfff0000000000000"
  using fp_inf_max [of 53 11 "unat b"] fp_inf_min [of 53 11 "unat b"]
  by (simp_all add: f64_lt_def fp_inf_bits_def fp_sign_bits_def)

lemmas float_cmp_defs = f32_lt_def f32_eq_def f32_nan_def f64_lt_def f64_eq_def f64_nan_def

end
