(* ===== verification/Variable_Datatype.thy ===== *)
theory Variable_Datatype
  imports Ieee_Float
begin

text \<open>
  \<open>class VariableDatatype\<close> (\<open>core/datatypes/VariableDatatype.hpp\<close>): the tagged union in which
  SIOX keeps every attribute, ontology and statistics value. The tag and the active union member
  are one datatype; a string member is the C string the object owns, so copies are values. Every
  comparison, arithmetic and conversion operator of the class is a function here, with its
  aborts and undefined cases as \<open>failure\<close> values.
\<close>

section \<open>The class\<close>

datatype Type = INT64 | UINT64 | INT32 | UINT32 | FLOAT | DOUBLE | STRING | INVALID

datatype VariableDatatype =
    VInt64 u64
  | VUint64 u64
  | VInt32 u32
  | VUint32 u32
  | VFloat float32
  | VDouble float64
  | VString string
  | VInvalid

fun vd_type :: "VariableDatatype \<Rightarrow> Type" where
  "vd_type (VInt64 _) = INT64"
| "vd_type (VUint64 _) = UINT64"
| "vd_type (VInt32 _) = INT32"
| "vd_type (VUint32 _) = UINT32"
| "vd_type (VFloat _) = FLOAT"
| "vd_type (VDouble _) = DOUBLE"
| "vd_type (VString _) = STRING"
| "vd_type VInvalid = INVALID"

text \<open>The underlying value of the enumeration, \<open>(int8_t) type\<close>.\<close>

fun type_code :: "Type \<Rightarrow> nat" where
  "type_code INT64 = 0"
| "type_code UINT64 = 1"
| "type_code INT32 = 2"
| "type_code UINT32 = 3"
| "type_code FLOAT = 4"
| "type_code DOUBLE = 5"
| "type_code STRING = 6"
| "type_code INVALID = 7"

definition type_of_code :: "nat \<Rightarrow> Type option" where
  "type_of_code n =
     (if n = 0 then Some INT64 else if n = 1 then Some UINT64 else if n = 2 then Some INT32
      else if n = 3 then Some UINT32 else if n = 4 then Some FLOAT else if n = 5 then Some DOUBLE
      else if n = 6 then Some STRING else if n = 7 then Some INVALID else None)"

lemma type_of_code_type_code [simp]: "type_of_code (type_code t) = Some t"
  by (cases t) (simp_all add: type_of_code_def)

lemma type_code_inject [simp]: "type_code s = type_code t \<longleftrightarrow> s = t"
  by (metis option.inject type_of_code_type_code)

lemma type_code_less: "type_code t < 8"
  by (cases t) simp_all

text \<open>Constructor from a \<open>std::string\<close> or a \<open>char *\<close>; the move constructor with what it leaves.\<close>

definition vd_of_string :: "string \<Rightarrow> VariableDatatype" where
  "vd_of_string s = VString (c_str s)"

definition vd_move :: "VariableDatatype \<Rightarrow> VariableDatatype \<times> VariableDatatype" where
  "vd_move d = (d, if vd_type d = STRING then VInvalid else d)"

text \<open>What every constructed object satisfies: its string member is a C string.\<close>

fun vd_wf :: "VariableDatatype \<Rightarrow> bool" where
  "vd_wf (VString s) = no_nul s"
| "vd_wf _ = True"

lemma vd_wf_of_string [siox_inv, simp]: "vd_wf (vd_of_string s)"
  by (simp add: vd_of_string_def)

section \<open>Accessors\<close>

fun vd_int32 :: "VariableDatatype \<Rightarrow> u32 outcome" where
  "vd_int32 (VInt32 i) = Inr i"
| "vd_int32 _ = Inl (Abort ''type_ == Type::INT32'')"

fun vd_int64 :: "VariableDatatype \<Rightarrow> u64 outcome" where
  "vd_int64 (VInt64 i) = Inr i"
| "vd_int64 _ = Inl (Abort ''type_ == Type::INT64'')"

fun vd_uint32 :: "VariableDatatype \<Rightarrow> u32 outcome" where
  "vd_uint32 (VUint32 i) = Inr i"
| "vd_uint32 _ = Inl (Abort ''type_ == Type::UINT32'')"

fun vd_uint64 :: "VariableDatatype \<Rightarrow> u64 outcome" where
  "vd_uint64 (VUint64 i) = Inr i"
| "vd_uint64 _ = Inl (Abort ''type_ == Type::UINT64'')"

fun vd_str :: "VariableDatatype \<Rightarrow> string outcome" where
  "vd_str (VString s) = Inr s"
| "vd_str _ = Inl (Abort ''type_ == Type::STRING'')"

fun vd_flt :: "VariableDatatype \<Rightarrow> float32 outcome" where
  "vd_flt (VFloat f) = Inr f"
| "vd_flt _ = Inl (Abort ''type_ == Type::FLOAT'')"

fun vd_dbl :: "VariableDatatype \<Rightarrow> float64 outcome" where
  "vd_dbl (VDouble d) = Inr d"
| "vd_dbl _ = Inl (Abort ''type_ == Type::DOUBLE'')"

fun vd_isNumeric :: "VariableDatatype \<Rightarrow> bool" where
  "vd_isNumeric (VString _) = False"
| "vd_isNumeric VInvalid = False"
| "vd_isNumeric _ = True"

definition vd_getTypeAsString :: "VariableDatatype \<Rightarrow> string" where
  "vd_getTypeAsString v =
     (case vd_type v of INT32 \<Rightarrow> ''int32'' | UINT32 \<Rightarrow> ''uint32'' | INT64 \<Rightarrow> ''int64''
      | UINT64 \<Rightarrow> ''uint64'' | FLOAT \<Rightarrow> ''float'' | DOUBLE \<Rightarrow> ''double'' | STRING \<Rightarrow> ''string''
      | INVALID \<Rightarrow> ''(invalid)'')"

section \<open>Conversions\<close>

text \<open>\<open>std::to_string(double)\<close>: the \<open>%f\<close> rendering with six decimals.\<close>

definition pad_left :: "nat \<Rightarrow> string \<Rightarrow> string" where
  "pad_left n s = replicate (n - length s) (CHR ''0'') @ s"

definition fp_to_string :: "fval \<Rightarrow> string" where
  "fp_to_string v =
     (case v of FNaN \<Rightarrow> ''nan''
      | FInf s \<Rightarrow> (if s then ''-inf'' else ''inf'')
      | FFin s m e \<Rightarrow>
          (let r = (if 0 \<le> e then m * 2 ^ nat e * 1000000
                    else round_half_even (m * 1000000) (2 ^ nat (- e)))
           in (if s then ''-'' else '''') @ dec_nat (r div 1000000) @ ''.'' @
              pad_left 6 (dec_nat (r mod 1000000))))"

fun vd_toStr :: "VariableDatatype \<Rightarrow> string outcome" where
  "vd_toStr (VInt32 i) = Inr (dec_int (sint i))"
| "vd_toStr (VInt64 i) = Inr (dec_int (sint i))"
| "vd_toStr (VUint32 i) = Inr (dec_nat (unat i))"
| "vd_toStr (VUint64 i) = Inr (dec_nat (unat i))"
| "vd_toStr (VFloat f) = Inr (fp_to_string (fp_decode 24 8 (unat f)))"
| "vd_toStr (VDouble d) = Inr (fp_to_string (fp_decode 53 11 (unat d)))"
| "vd_toStr (VString s) = Inr s"
| "vd_toStr VInvalid = Inl (Abort ''tried to stringify a VariableDatatypes of invalid type'')"

text \<open>Stream output.\<close>

definition vd_print :: "VariableDatatype \<Rightarrow> string outcome" where
  "vd_print v = (if vd_type v = INVALID then Inr ''(INVALID TYPE!)'' else vd_toStr v)"

fun vd_toDouble :: "VariableDatatype \<Rightarrow> float64 outcome" where
  "vd_toDouble (VInt32 i) = Inr (f64_of_int (sint i))"
| "vd_toDouble (VUint32 i) = Inr (f64_of_int (uint i))"
| "vd_toDouble (VInt64 i) = Inr (f64_of_int (sint i))"
| "vd_toDouble (VUint64 i) = Inr (f64_of_int (uint i))"
| "vd_toDouble (VFloat f) = Inr (f64_of_f32 f)"
| "vd_toDouble (VDouble d) = Inr d"
| "vd_toDouble (VString _) = Inl (Abort ''tried to convert VariableDatatype of string type'')"
| "vd_toDouble VInvalid = Inl (Abort ''tried to convert VariableDatatype of invalid type'')"

text \<open>\<open>toFloat\<close> rounds to \<open>float\<close>, then its return type widens to \<open>double\<close>.\<close>

fun vd_toFloat :: "VariableDatatype \<Rightarrow> float64 outcome" where
  "vd_toFloat (VInt32 i) = Inr (f64_of_f32 (f32_of_int (sint i)))"
| "vd_toFloat (VUint32 i) = Inr (f64_of_f32 (f32_of_int (uint i)))"
| "vd_toFloat (VInt64 i) = Inr (f64_of_f32 (f32_of_int (sint i)))"
| "vd_toFloat (VUint64 i) = Inr (f64_of_f32 (f32_of_int (uint i)))"
| "vd_toFloat (VFloat f) = Inr (f64_of_f32 f)"
| "vd_toFloat (VDouble d) = Inr (f64_of_f32 (f32_of_f64 d))"
| "vd_toFloat (VString _) = Inl (Abort ''tried to convert VariableDatatype of string type'')"
| "vd_toFloat VInvalid = Inl (Abort ''tried to convert VariableDatatype of invalid type'')"

text \<open>
  \<open>toUint64\<close> casts to \<open>uint64_t\<close>, then its declared return type \<open>double\<close> converts again. A
  floating value outside the range of \<open>uint64_t\<close> makes the cast undefined.
\<close>

definition u64_of_trunc :: "int option \<Rightarrow> u64 outcome" where
  "u64_of_trunc t =
     (case t of Some i \<Rightarrow> if 0 \<le> i \<and> i < 2 ^ 64 then Inr (of_int i)
                          else Inl (Undefined ''float to uint64_t'')
      | None \<Rightarrow> Inl (Undefined ''float to uint64_t''))"

fun vd_toUint64 :: "VariableDatatype \<Rightarrow> float64 outcome" where
  "vd_toUint64 (VInt32 i) = Inr (f64_of_int (uint (of_int (sint i) :: u64)))"
| "vd_toUint64 (VUint32 i) = Inr (f64_of_int (uint i))"
| "vd_toUint64 (VInt64 i) = Inr (f64_of_int (uint i))"
| "vd_toUint64 (VUint64 i) = Inr (f64_of_int (uint i))"
| "vd_toUint64 (VFloat f) =
     bindr (u64_of_trunc (fp_trunc 24 8 (unat f))) (\<lambda>u. Inr (f64_of_int (uint u)))"
| "vd_toUint64 (VDouble d) =
     bindr (u64_of_trunc (fp_trunc 53 11 (unat d))) (\<lambda>u. Inr (f64_of_int (uint u)))"
| "vd_toUint64 (VString _) = Inl (Abort ''tried to convert VariableDatatype of string type'')"
| "vd_toUint64 VInvalid = Inl (Abort ''tried to convert VariableDatatype of invalid type'')"

text \<open>\<open>atoi\<close> and \<open>atoll\<close>: leading white space, an optional sign, digits.\<close>

definition is_space :: "char \<Rightarrow> bool" where
  "is_space c \<longleftrightarrow> c \<in> set '' '' \<or> 9 \<le> (of_char c :: nat) \<and> (of_char c :: nat) \<le> 13"

definition c_ato :: "nat \<Rightarrow> string \<Rightarrow> int outcome" where
  "c_ato n str =
     (let s = dropWhile is_space (c_str str);
          neg = (case s of c # _ \<Rightarrow> c = CHR ''-'' | [] \<Rightarrow> False);
          rest = (case s of c # r \<Rightarrow> if c = CHR ''-'' \<or> c = CHR ''+'' then r else s | [] \<Rightarrow> []);
          v = int (undec (takeWhile is_digit_char rest));
          i = (if neg then - v else v)
      in if fits_signed n i then Inr i else Inl (Undefined ''atoi out of range''))"

definition vd_from_string :: "(string \<Rightarrow> float64) \<Rightarrow> Type \<Rightarrow> string \<Rightarrow> VariableDatatype outcome" where
  "vd_from_string atof t str =
     (case t of
        INT32 \<Rightarrow> bindr (c_ato 32 str) (\<lambda>i. Inr (VInt32 (of_int i)))
      | UINT32 \<Rightarrow> bindr (c_ato 64 str) (\<lambda>i. Inr (VUint32 (of_int i)))
      | INT64 \<Rightarrow> bindr (c_ato 64 str) (\<lambda>i. Inr (VInt64 (of_int i)))
      | UINT64 \<Rightarrow> bindr (c_ato 64 str) (\<lambda>i. Inr (VUint64 (of_int i)))
      | FLOAT \<Rightarrow> Inr (VFloat (f32_of_f64 (atof (c_str str))))
      | DOUBLE \<Rightarrow> Inr (VDouble (atof (c_str str)))
      | STRING \<Rightarrow> Inr (VString (c_str str))
      | INVALID \<Rightarrow> Inr VInvalid)"

section \<open>Arithmetic\<close>

definition add_signed :: "nat \<Rightarrow> int \<Rightarrow> int \<Rightarrow> int outcome" where
  "add_signed n a b =
     (if fits_signed n (a + b) then Inr (a + b) else Inl (Undefined ''signed overflow''))"

text \<open>\<open>operator+=\<close>.\<close>

definition vd_add :: "VariableDatatype \<Rightarrow> VariableDatatype \<Rightarrow> VariableDatatype outcome" where
  "vd_add x y =
     (if vd_type y \<noteq> vd_type x then Inl (Abort ''tried to add VariableDatatypes of unequal types'')
      else case (x, y) of
        (VInt32 a, VInt32 b) \<Rightarrow> bindr (add_signed 32 (sint a) (sint b)) (\<lambda>i. Inr (VInt32 (of_int i)))
      | (VUint32 a, VUint32 b) \<Rightarrow> Inr (VUint32 (a + b))
      | (VInt64 a, VInt64 b) \<Rightarrow> bindr (add_signed 64 (sint a) (sint b)) (\<lambda>i. Inr (VInt64 (of_int i)))
      | (VUint64 a, VUint64 b) \<Rightarrow> Inr (VUint64 (a + b))
      | (VFloat a, VFloat b) \<Rightarrow> Inr (VFloat (f32_add a b))
      | (VDouble a, VDouble b) \<Rightarrow> Inr (VDouble (f64_add a b))
      | (VString a, VString b) \<Rightarrow> Inr (VString (a @ b))
      | _ \<Rightarrow> Inl (Abort ''tried to add VariableDatatype of invalid type''))"

text \<open>
  \<open>operator/=\<close> with an \<open>int64_t\<close> divisor. The usual arithmetic conversions compute the 32-bit
  cases in \<open>int64_t\<close> and store the low 32 bits, and turn the divisor of an \<open>uint64_t\<close> into an
  unsigned number.
\<close>

definition div_signed :: "int \<Rightarrow> int \<Rightarrow> int outcome" where
  "div_signed a b =
     (if b = 0 then Inl (Undefined ''division by zero'')
      else if fits_signed 64 (c_div a b) then Inr (c_div a b)
      else Inl (Undefined ''signed overflow''))"

fun vd_div :: "VariableDatatype \<Rightarrow> u64 \<Rightarrow> VariableDatatype outcome" where
  "vd_div (VInt32 a) d = bindr (div_signed (sint a) (sint d)) (\<lambda>i. Inr (VInt32 (of_int i)))"
| "vd_div (VUint32 a) d = bindr (div_signed (uint a) (sint d)) (\<lambda>i. Inr (VUint32 (of_int i)))"
| "vd_div (VInt64 a) d = bindr (div_signed (sint a) (sint d)) (\<lambda>i. Inr (VInt64 (of_int i)))"
| "vd_div (VUint64 a) d =
     (if d = 0 then Inl (Undefined ''division by zero'') else Inr (VUint64 (a div d)))"
| "vd_div (VFloat a) d = Inr (VFloat (f32_div a (f32_of_int (sint d))))"
| "vd_div (VDouble a) d = Inr (VDouble (f64_div a (f64_of_int (sint d))))"
| "vd_div (VString _) d = Inl (Abort ''tried to divide a VariableDatatype of string type'')"
| "vd_div VInvalid d = Inl (Abort ''tried to divide a VariableDatatype of invalid type'')"

fun vd_setMax :: "VariableDatatype \<Rightarrow> VariableDatatype outcome" where
  "vd_setMax (VInt32 _) = Inr (VInt32 0x7fffffff)"
| "vd_setMax (VUint32 _) = Inr (VUint32 (- 1))"
| "vd_setMax (VInt64 _) = Inr (VInt64 0x7fffffffffffffff)"
| "vd_setMax (VUint64 _) = Inr (VUint64 (- 1))"
| "vd_setMax (VFloat _) = Inr (VFloat 0x7f800000)"
| "vd_setMax (VDouble _) = Inr (VDouble 0x7ff0000000000000)"
| "vd_setMax (VString _) =
     Inl (Abort ''tried to set a string to a maximal value, which is not possible'')"
| "vd_setMax VInvalid =
     Inl (Abort ''tried to set the value of a VariableDatatype of invalid type'')"

fun vd_setMin :: "VariableDatatype \<Rightarrow> VariableDatatype outcome" where
  "vd_setMin (VInt32 _) = Inr (VInt32 0x80000000)"
| "vd_setMin (VUint32 _) = Inr (VUint32 0)"
| "vd_setMin (VInt64 _) = Inr (VInt64 0x8000000000000000)"
| "vd_setMin (VUint64 _) = Inr (VUint64 0)"
| "vd_setMin (VFloat _) = Inr (VFloat 0xff800000)"
| "vd_setMin (VDouble _) = Inr (VDouble 0xfff0000000000000)"
| "vd_setMin (VString _) = Inr (VString '''')"
| "vd_setMin VInvalid =
     Inl (Abort ''tried to set the value of a VariableDatatype of invalid type'')"

fun vd_setZero :: "VariableDatatype \<Rightarrow> VariableDatatype outcome" where
  "vd_setZero (VInt32 _) = Inr (VInt32 0)"
| "vd_setZero (VUint32 _) = Inr (VUint32 0)"
| "vd_setZero (VInt64 _) = Inr (VInt64 0)"
| "vd_setZero (VUint64 _) = Inr (VUint64 0)"
| "vd_setZero (VFloat _) = Inr (VFloat 0)"
| "vd_setZero (VDouble _) = Inr (VDouble 0)"
| "vd_setZero (VString _) = Inr (VString '''')"
| "vd_setZero VInvalid =
     Inl (Abort ''tried to set the value of a VariableDatatype of invalid type'')"

section \<open>Comparison\<close>

text \<open>\<open>strcmp(a, b) < 0\<close>: lexicographic on unsigned bytes.\<close>

fun strcmp_lt :: "string \<Rightarrow> string \<Rightarrow> bool" where
  "strcmp_lt [] [] = False"
| "strcmp_lt [] (_ # _) = True"
| "strcmp_lt (_ # _) [] = False"
| "strcmp_lt (a # as) (b # bs) =
     ((of_char a :: nat) < of_char b \<or> a = b \<and> strcmp_lt as bs)"

definition vd_lt :: "VariableDatatype \<Rightarrow> VariableDatatype \<Rightarrow> bool outcome" where
  "vd_lt x y =
     (if vd_type y \<noteq> vd_type x then Inl (Abort ''tried to compare VariableDatatypes of unequal types'')
      else case (x, y) of
        (VInt32 a, VInt32 b) \<Rightarrow> Inr (sint a < sint b)
      | (VUint32 a, VUint32 b) \<Rightarrow> Inr (a < b)
      | (VInt64 a, VInt64 b) \<Rightarrow> Inr (sint a < sint b)
      | (VUint64 a, VUint64 b) \<Rightarrow> Inr (a < b)
      | (VFloat a, VFloat b) \<Rightarrow> Inr (f32_lt a b)
      | (VDouble a, VDouble b) \<Rightarrow> Inr (f64_lt a b)
      | (VString a, VString b) \<Rightarrow> Inr (strcmp_lt a b)
      | _ \<Rightarrow> Inl (Abort ''tried to compare VariableDatatype of invalid type''))"

definition vd_gt :: "VariableDatatype \<Rightarrow> VariableDatatype \<Rightarrow> bool outcome" where
  "vd_gt a b = vd_lt b a"

definition vd_eq :: "VariableDatatype \<Rightarrow> VariableDatatype \<Rightarrow> bool" where
  "vd_eq x y =
     (if vd_type y \<noteq> vd_type x then False
      else case (x, y) of
        (VInt32 a, VInt32 b) \<Rightarrow> (a = b)
      | (VUint32 a, VUint32 b) \<Rightarrow> (a = b)
      | (VInt64 a, VInt64 b) \<Rightarrow> (a = b)
      | (VUint64 a, VUint64 b) \<Rightarrow> (a = b)
      | (VFloat a, VFloat b) \<Rightarrow> f32_eq a b
      | (VDouble a, VDouble b) \<Rightarrow> f64_eq a b
      | (VString a, VString b) \<Rightarrow> (a = b)
      | _ \<Rightarrow> False)"

definition vd_ne :: "VariableDatatype \<Rightarrow> VariableDatatype \<Rightarrow> bool" where
  "vd_ne a b \<longleftrightarrow> \<not> vd_eq b a"

text \<open>The two disjunctions evaluate their left operand, and abort with it, first.\<close>

definition vd_ge :: "VariableDatatype \<Rightarrow> VariableDatatype \<Rightarrow> bool outcome" where
  "vd_ge a b = bindr (vd_gt a b) (\<lambda>g. Inr (g \<or> vd_eq a b))"

definition vd_le :: "VariableDatatype \<Rightarrow> VariableDatatype \<Rightarrow> bool outcome" where
  "vd_le a b = bindr (vd_lt a b) (\<lambda>l. Inr (l \<or> vd_eq a b))"

text \<open>Not-a-number values: the only ones \<open>operator==\<close> tells apart from themselves.\<close>

fun vd_nan :: "VariableDatatype \<Rightarrow> bool" where
  "vd_nan (VFloat f) = f32_nan f"
| "vd_nan (VDouble d) = f64_nan d"
| "vd_nan _ = False"

section \<open>Laws of the comparison operators\<close>

lemmas vd_op_defs = vd_lt_def vd_eq_def vd_gt_def vd_ne_def vd_ge_def vd_le_def

lemma strcmp_lt_irrefl [simp]: "\<not> strcmp_lt s s"
  by (induction s) auto

lemma strcmp_lt_trans: "strcmp_lt a b \<Longrightarrow> strcmp_lt b c \<Longrightarrow> strcmp_lt a c"
proof (induction a b arbitrary: c rule: strcmp_lt.induct)
  case (4 x xs y ys)
  then show ?case by (cases c) auto
qed (auto elim: strcmp_lt.elims)

lemma strcmp_trichotomy: "strcmp_lt a b \<or> a = b \<or> strcmp_lt b a"
proof (induction a b rule: strcmp_lt.induct)
  case (4 x xs y ys)
  have "(of_char x :: nat) = of_char y \<longleftrightarrow> x = y"
    by (simp add: of_char_eq_iff)
  then show ?case using 4 by auto
qed auto

lemma vd_lt_defined:
  "(\<exists>b. vd_lt x y = Inr b) \<longleftrightarrow> vd_type x = vd_type y \<and> vd_type x \<noteq> INVALID"
  by (cases x; cases y) (simp_all add: vd_op_defs)

lemma vd_lt_irrefl: "vd_lt x x \<noteq> Inr True"
  by (cases x) (simp_all add: vd_op_defs float_cmp_defs)

lemma vd_lt_trans: "vd_lt x y = Inr True \<Longrightarrow> vd_lt y z = Inr True \<Longrightarrow> vd_lt x z = Inr True"
  by (cases x; cases y; cases z)
    (auto simp: vd_op_defs float_cmp_defs intro: fp_lt_trans strcmp_lt_trans)

lemma vd_eq_type: "vd_eq x y \<Longrightarrow> vd_type x = vd_type y \<and> vd_type x \<noteq> INVALID"
  by (cases x; cases y) (simp_all add: vd_op_defs)

lemma vd_eq_refl [simp]: "vd_eq x x \<longleftrightarrow> vd_type x \<noteq> INVALID \<and> \<not> vd_nan x"
  by (cases x) (simp_all add: vd_op_defs float_cmp_defs)

lemma vd_eq_sym: "vd_eq x y = vd_eq y x"
  by (cases x; cases y) (auto simp: vd_op_defs float_cmp_defs fp_eq_sym)

lemma vd_eq_trans: "vd_eq x y \<Longrightarrow> vd_eq y z \<Longrightarrow> vd_eq x z"
  by (cases x; cases y; cases z) (auto simp: vd_op_defs float_cmp_defs intro: fp_eq_trans)

lemma vd_trichotomy:
  assumes "vd_type x = vd_type y" and "vd_type x \<noteq> INVALID" and "\<not> vd_nan x" and "\<not> vd_nan y"
  shows "vd_lt x y = Inr True \<or> vd_eq x y \<or> vd_lt y x = Inr True"
  using assms fp_trichotomy strcmp_trichotomy
  by (cases x; cases y) (auto simp: vd_op_defs float_cmp_defs not_less)

lemma vd_lt_not_eq: "vd_lt x y = Inr True \<Longrightarrow> \<not> vd_eq x y"
  by (cases x; cases y) (auto simp: vd_op_defs float_cmp_defs dest: fp_lt_eq_excl)

lemma vd_eq_exact: "vd_eq x y \<Longrightarrow> vd_type x \<notin> {FLOAT, DOUBLE} \<Longrightarrow> x = y"
  by (cases x; cases y) (auto simp: vd_op_defs)

section \<open>Extreme values, arithmetic and text\<close>

lemma sint_bounds32: "- (2 ^ 31) \<le> sint (a :: u32)" "sint (a :: u32) \<le> 2147483647"
  using sint_greater_eq [of a] sint_less [of a] by simp_all

lemma sint_bounds64: "- (2 ^ 63) \<le> sint (a :: u64)" "sint (a :: u64) \<le> 9223372036854775807"
  using sint_greater_eq [of a] sint_less [of a] by simp_all

lemma vd_setMax_upper:
  assumes "vd_setMax x = Inr m" and "vd_type y = vd_type x"
  shows "vd_lt m y = Inr False"
  using assms sint_bounds32(2) sint_bounds64(2)
  by (cases x; cases y)
    (auto simp: vd_op_defs f32_inf_extreme f64_inf_extreme not_less)

lemma vd_setMin_lower:
  assumes "vd_setMin x = Inr m" and "vd_type y = vd_type x"
  shows "vd_lt y m = Inr False"
  using assms sint_bounds32(1) sint_bounds64(1)
  by (cases x; cases y)
    (auto simp: vd_op_defs f32_inf_extreme f64_inf_extreme not_less elim: strcmp_lt.elims)

lemma vd_set_type:
  "vd_setMax x = Inr m \<Longrightarrow> vd_type m = vd_type x"
  "vd_setMin x = Inr m \<Longrightarrow> vd_type m = vd_type x"
  "vd_setZero x = Inr m \<Longrightarrow> vd_type m = vd_type x"
  by (cases x; auto)+

lemma vd_add_type: "vd_add x y = Inr z \<Longrightarrow> vd_type z = vd_type x \<and> vd_type y = vd_type x"
  by (cases x; cases y) (auto simp: vd_add_def add_signed_def split: if_splits)

lemma vd_div_type: "vd_div x d = Inr z \<Longrightarrow> vd_type z = vd_type x"
  by (cases x) (auto simp: div_signed_def split: if_splits)

lemma vd_add_wf [siox_inv]: "vd_add x y = Inr z \<Longrightarrow> vd_wf x \<Longrightarrow> vd_wf y \<Longrightarrow> vd_wf z"
  by (cases x; cases y) (auto simp: vd_add_def add_signed_def no_nul_def split: if_splits)

text \<open>Reading back what \<open>toStr\<close> printed.\<close>

lemma digit_not_special:
  assumes "is_digit_char c"
  shows "\<not> is_space c" and "c \<noteq> CHR ''-''" and "c \<noteq> CHR ''+''" and "c \<noteq> CHR 0x00"
  using assms by (auto simp: is_digit_char_def is_space_def)

lemma dec_nat_Cons:
  obtains c cs where "dec_nat n = c # cs" and "is_digit_char c"
  by (metis dec_nat_digits dec_nat_nonempty list.exhaust list.set_intros(1))

lemma no_nul_dec_nat [simp]: "no_nul (dec_nat n)"
  by (auto simp: no_nul_def dest: dec_nat_digits digit_not_special(4))

lemma no_nul_dec_int [simp]: "no_nul (dec_int i)"
  using no_nul_dec_nat by (auto simp: dec_int_def no_nul_def)

lemma takeWhile_dec_nat [simp]: "takeWhile is_digit_char (dec_nat n) = dec_nat n"
  by (auto simp: takeWhile_eq_all_conv intro: dec_nat_digits)

lemma c_ato_dec_nat: "c_ato n (dec_nat k) = (if fits_signed n (int k) then Inr (int k)
    else Inl (Undefined ''atoi out of range''))"
proof (rule dec_nat_Cons [of k])
  fix c cs
  assume k: "dec_nat k = c # cs" and c: "is_digit_char c"
  have "c_str (dec_nat k) = dec_nat k" by simp
  then have "c_str (c # cs) = c # cs" by (simp only: k)
  then have "dropWhile is_space (c_str (dec_nat k)) = dec_nat k"
    using digit_not_special(1) [OF c] by (simp add: k)
  then show ?thesis
    using digit_not_special [OF c] takeWhile_dec_nat [of k] undec_dec_nat [of k]
    by (simp add: c_ato_def Let_def k del: takeWhile_dec_nat undec_dec_nat)
qed

lemma c_ato_dec_int: "fits_signed n i \<Longrightarrow> c_ato n (dec_int i) = Inr i"
proof (cases "i < 0")
  case True
  moreover have "no_nul (CHR ''-'' # dec_nat m)" for m
    using no_nul_dec_nat [of m] by (simp add: no_nul_def)
  ultimately show "fits_signed n i \<Longrightarrow> c_ato n (dec_int i) = Inr i"
    by (simp add: c_ato_def dec_int_def is_space_def)
next
  case False
  then show "fits_signed n i \<Longrightarrow> c_ato n (dec_int i) = Inr i"
    by (simp add: dec_int_def c_ato_dec_nat)
qed

lemma fits_signed_sint:
  "fits_signed 32 (sint (a :: u32))" "fits_signed 64 (sint (b :: u64))"
  using sint_bounds32 [of a] sint_bounds64 [of b] by (simp_all add: fits_signed_def)

lemma fits_signed_nat: "k < 2 ^ 63 \<Longrightarrow> fits_signed 64 (int k)"
  by (simp add: fits_signed_def)

lemma vd_text_roundtrip:
  assumes "vd_toStr v = Inr s" and "vd_wf v" and "vd_type v \<notin> {FLOAT, DOUBLE}"
    and "\<And>u. v = VUint64 u \<Longrightarrow> unat u < 2 ^ 63"
  shows "vd_from_string atof (vd_type v) s = Inr v"
proof (cases v)
  case (VUint64 u)
  with assms have "fits_signed 64 (int (unat u))" by (simp only: fits_signed_nat)
  then show ?thesis using VUint64 assms
    by (auto simp: vd_from_string_def c_ato_dec_nat)
next
  case (VUint32 u)
  have "unat u < 2 ^ LENGTH(32)" by (rule unsigned_less)
  then have "unat u < 2 ^ 63" by simp
  then have "fits_signed 64 (int (unat u))" by (simp only: fits_signed_nat)
  then show ?thesis using VUint32 assms
    by (auto simp: vd_from_string_def c_ato_dec_nat)
qed (use assms in \<open>auto simp: vd_from_string_def c_ato_dec_int fits_signed_sint\<close>)

section \<open>Properties\<close>

text \<open>
  The comparison operators of \<open>VariableDatatype\<close> form a linear order on the
  values of each type. Two values of one type, neither of them a NaN, are related by exactly one
  of \<open><\<close>, \<open>==\<close> and \<open>>\<close>, no comparison aborts, and \<open><\<close> is transitive.
\<close>

theorem vd_linear_order:
  assumes "vd_type x = vd_type y" and "vd_type x \<noteq> INVALID" and "\<not> vd_nan x" and "\<not> vd_nan y"
  shows "(vd_lt x y, vd_eq x y, vd_gt x y) \<in>
      {(Inr True, False, Inr False), (Inr False, True, Inr False), (Inr False, False, Inr True)} \<and>
    (vd_lt x y = Inr True \<longrightarrow> vd_lt y z = Inr True \<longrightarrow> vd_lt x z = Inr True)"
proof -
  obtain a b where ab: "vd_lt x y = Inr a" "vd_lt y x = Inr b"
    using vd_lt_defined [of x y] vd_lt_defined [of y x] assms by auto
  have gt: "vd_gt x y = Inr b" using ab by (simp add: vd_gt_def)
  have "a \<Longrightarrow> \<not> vd_eq x y" "b \<Longrightarrow> \<not> vd_eq x y"
    using ab vd_lt_not_eq [of x y] vd_lt_not_eq [of y x] vd_eq_sym [of x y] by auto
  moreover have "a \<or> vd_eq x y \<or> b" using vd_trichotomy [OF assms] ab by auto
  moreover have "\<not> (a \<and> b)" using ab vd_lt_trans [of x y x] vd_lt_irrefl [of x] by auto
  ultimately show ?thesis using ab gt vd_lt_trans by auto
qed

theorem vd_linear_order_witness:
  "(vd_lt (VInt32 (- 1)) (VInt32 2), vd_eq (VInt32 (- 1)) (VInt32 2), vd_gt (VInt32 (- 1)) (VInt32 2)) =
     (Inr True, False, Inr False)"
  using vd_linear_order [of "VInt32 (- 1)" "VInt32 2" "VInt32 3"] by (simp add: vd_op_defs)

text \<open>
  \<open>setMax\<close> and \<open>setMin\<close> keep the type and produce the greatest and the least value
  of it: no value of the type compares greater than the one or less than the other.
\<close>

theorem vd_extreme_values:
  assumes "vd_setMax x = Inr hi" and "vd_setMin x = Inr lo" and "vd_type y = vd_type x"
  shows "vd_type hi = vd_type x \<and> vd_type lo = vd_type x \<and> vd_lt hi y = Inr False \<and> vd_lt y lo = Inr False"
  using vd_setMax_upper [OF assms(1,3)] vd_setMin_lower [OF assms(2,3)] vd_set_type assms by auto

theorem vd_extreme_values_witness:
  "vd_lt (VInt64 0x7fffffffffffffff) (VInt64 5) = Inr False \<and>
   vd_lt (VInt64 5) (VInt64 0x8000000000000000) = Inr False"
  using vd_extreme_values [of "VInt64 0" "VInt64 0x7fffffffffffffff" "VInt64 0x8000000000000000" "VInt64 5"]
  by simp

text \<open>
  A value that is not a floating point number, printed by \<open>toStr\<close> and read by
  the constructor from text, is the value again, for an \<open>UINT64\<close> below \<open>2 ^ 63\<close>; greater ones are
  outside the range of \<open>atoll\<close> that the constructor calls.
\<close>

theorem vd_print_parse:
  assumes "vd_toStr v = Inr s" and "vd_wf v" and "vd_type v \<notin> {FLOAT, DOUBLE}"
    and "\<forall>u. v = VUint64 u \<longrightarrow> unat u < 2 ^ 63"
  shows "vd_from_string atof (vd_type v) s = Inr v"
  using vd_text_roundtrip [OF assms(1-3)] assms(4) by blast

theorem vd_print_parse_witness: "vd_from_string (\<lambda>_. 0) INT32 ''-42'' = Inr (VInt32 (- 42))"
proof -
  have "vd_toStr (VInt32 (- 42)) = Inr ''-42''"
    by code_simp
  from vd_print_parse [OF this, of "\<lambda>_. 0"] show ?thesis by simp
qed

end
