(* ===== verification/Binary_Serializer.thy ===== *)
theory Binary_Serializer
  imports Variable_Datatype
begin

text \<open>
  The \<open>j_serialization\<close> layer: \<open>core/container/container-binary-serializer.hpp\<close> and
  \<open>core/datatypes/VariableDatatypeJBinarySerialization.hpp\<close>. A serializer copies bytes into a
  caller-allocated buffer at a position it advances; writing past the end of the buffer is
  undefined, since the code does not check it. A deserializer is told the length of the buffer
  and asserts before every read that enough bytes are left. Positions and lengths are natural
  numbers (the code has 64-bit ones).

  The locale \<open>codec\<close> is the contract every serializable type has with the messages it is part
  of: the announced length is the written length, reading gives back what was written, and a
  truncated buffer is rejected. It is interpreted for each type at the place where the type's
  functions are.
\<close>

section \<open>Raw copies\<close>

definition put_bytes :: "buffer \<Rightarrow> buffer \<Rightarrow> nat \<Rightarrow> (buffer \<times> nat) outcome" where
  "put_bytes bs buf pos =
     (if pos + length bs \<le> length buf
      then Inr (take pos buf @ bs @ drop (pos + length bs) buf, pos + length bs)
      else Inl (Undefined ''write past the end of the buffer''))"

text \<open>The macro \<open>CHECK_LENGTH\<close> followed by a copy out of the buffer.\<close>

definition get_bytes :: "nat \<Rightarrow> buffer \<Rightarrow> nat \<Rightarrow> nat \<Rightarrow> (buffer \<times> nat) outcome" where
  "get_bytes n buf pos len =
     (if pos + n \<le> len
      then (if pos + n \<le> length buf then Inr (take n (drop pos buf), pos + n)
            else Inl (Undefined ''read past the end of the buffer''))
      else Inl (Abort ''pos + COUNT <= length''))"

lemma put_bytes_append:
  "bindr (put_bytes as buf pos) (\<lambda>(b, p). put_bytes bs b p) = put_bytes (as @ bs) buf pos"
  by (cases as) (auto simp: put_bytes_def min_def ac_simps)

section \<open>Primitive types\<close>

definition serialize_bool :: "bool \<Rightarrow> buffer \<Rightarrow> nat \<Rightarrow> (buffer \<times> nat) outcome" where
  "serialize_bool obj buf pos = put_bytes [if obj then 1 else 0] buf pos"

definition deserialize_bool :: "buffer \<Rightarrow> nat \<Rightarrow> nat \<Rightarrow> (bool \<times> nat) outcome" where
  "deserialize_bool buf pos len =
     bindr (get_bytes 1 buf pos len) (\<lambda>(bs, p). Inr (hd bs \<noteq> 0, p))"

definition serializeLen_bool :: "bool \<Rightarrow> nat" where
  "serializeLen_bool obj = 1"

text \<open>
  The overloads for 8, 16, 32 and 64 bit integers and for \<open>float\<close> and \<open>double\<close> copy the bytes
  of the value; they are one function, polymorphic in the word length.
\<close>

definition serialize_word :: "'a::len word \<Rightarrow> buffer \<Rightarrow> nat \<Rightarrow> (buffer \<times> nat) outcome" where
  "serialize_word obj buf pos = put_bytes (le_bytes (LENGTH('a) div 8) (unat obj)) buf pos"

definition deserialize_word :: "buffer \<Rightarrow> nat \<Rightarrow> nat \<Rightarrow> ('a::len word \<times> nat) outcome" where
  "deserialize_word buf pos len =
     bindr (get_bytes (LENGTH('a) div 8) buf pos len)
       (\<lambda>(bs, p). Inr (of_nat (le_value bs), p))"

definition serializeLen_word :: "'a::len word \<Rightarrow> nat" where
  "serializeLen_word obj = LENGTH('a) div 8"

section \<open>Strings\<close>

definition char_byte :: "char \<Rightarrow> u8" where
  "char_byte c = of_nat (of_char c)"

definition byte_char :: "u8 \<Rightarrow> char" where
  "byte_char b = char_of (unat b)"

lemma byte_char_char_byte [simp]: "byte_char (char_byte c) = c"
proof -
  have "unat (of_nat (of_char c) :: u8) = of_char c" by (simp add: unat_of_nat)
  then show ?thesis by (simp add: byte_char_def char_byte_def)
qed

lemma map_byte_char [simp]: "map (byte_char \<circ> char_byte) s = s"
  by (induction s) auto

text \<open>\<open>uint32_t len = strlen(obj)\<close> keeps the low 32 bits of the length.\<close>

definition str_len32 :: "string \<Rightarrow> u32" where
  "str_len32 s = of_nat (length s)"

definition serialize_string :: "string \<Rightarrow> buffer \<Rightarrow> nat \<Rightarrow> (buffer \<times> nat) outcome" where
  "serialize_string obj buf pos =
     (let len = str_len32 obj in
      bindr (serialize_word len buf pos)
        (\<lambda>(b, p). put_bytes (map char_byte (take (unat len) obj)) b p))"

definition serializeLen_string :: "string \<Rightarrow> nat" where
  "serializeLen_string obj = 4 + length obj"

definition deserialize_string :: "buffer \<Rightarrow> nat \<Rightarrow> nat \<Rightarrow> (string \<times> nat) outcome" where
  "deserialize_string buf pos len =
     bindr (deserialize_word buf pos len)
       (\<lambda>(l :: u32, p). bindr (get_bytes (unat l) buf p len)
         (\<lambda>(bs, q). Inr (map byte_char bs, q)))"

text \<open>The \<open>char *\<close> overloads: \<open>strlen\<close> on the way in, \<open>strndup\<close> on the way out.\<close>

definition serialize_cstr :: "string \<Rightarrow> buffer \<Rightarrow> nat \<Rightarrow> (buffer \<times> nat) outcome" where
  "serialize_cstr obj buf pos = serialize_string (c_str obj) buf pos"

definition serializeLen_cstr :: "string \<Rightarrow> nat" where
  "serializeLen_cstr str = length (c_str str) + 4"

definition deserialize_cstr :: "buffer \<Rightarrow> nat \<Rightarrow> nat \<Rightarrow> (string \<times> nat) outcome" where
  "deserialize_cstr buf pos len =
     bindr (deserialize_word buf pos len)
       (\<lambda>(l :: u32, p). bindr (get_bytes (unat l) buf p len)
         (\<lambda>(bs, q). Inr (c_str (map byte_char bs), q)))"

section \<open>Values of class VariableDatatype\<close>

definition serializeLen_vd :: "VariableDatatype \<Rightarrow> nat" where
  "serializeLen_vd obj =
     serializeLen_word (of_nat (type_code (vd_type obj)) :: u8) +
     (case obj of
        VInt64 i \<Rightarrow> serializeLen_word i
      | VInt32 i \<Rightarrow> serializeLen_word i
      | VUint64 i \<Rightarrow> serializeLen_word i
      | VUint32 i \<Rightarrow> serializeLen_word i
      | VString s \<Rightarrow> serializeLen_cstr s
      | VInvalid \<Rightarrow> 0
      | VDouble d \<Rightarrow> serializeLen_word d
      | VFloat f \<Rightarrow> serializeLen_word f)"

definition serialize_vd :: "VariableDatatype \<Rightarrow> buffer \<Rightarrow> nat \<Rightarrow> (buffer \<times> nat) outcome" where
  "serialize_vd obj buf pos =
     bindr (serialize_word (of_nat (type_code (vd_type obj)) :: u8) buf pos)
       (\<lambda>(b, p). case obj of
          VInt64 i \<Rightarrow> serialize_word i b p
        | VInt32 i \<Rightarrow> serialize_word i b p
        | VUint64 i \<Rightarrow> serialize_word i b p
        | VUint32 i \<Rightarrow> serialize_word i b p
        | VString s \<Rightarrow> serialize_cstr s b p
        | VInvalid \<Rightarrow> Inr (b, p)
        | VDouble d \<Rightarrow> serialize_word d b p
        | VFloat f \<Rightarrow> serialize_word f b p)"

text \<open>A tag that names no member of the enumeration leaves a value no operation accepts.\<close>

definition deserialize_vd :: "buffer \<Rightarrow> nat \<Rightarrow> nat \<Rightarrow> (VariableDatatype \<times> nat) outcome" where
  "deserialize_vd buf pos len =
     bindr (deserialize_word buf pos len)
       (\<lambda>(t :: u8, p). case type_of_code (unat t) of
          Some INT64 \<Rightarrow> bindr (deserialize_word buf p len) (\<lambda>(x, q). Inr (VInt64 x, q))
        | Some INT32 \<Rightarrow> bindr (deserialize_word buf p len) (\<lambda>(x, q). Inr (VInt32 x, q))
        | Some UINT64 \<Rightarrow> bindr (deserialize_word buf p len) (\<lambda>(x, q). Inr (VUint64 x, q))
        | Some UINT32 \<Rightarrow> bindr (deserialize_word buf p len) (\<lambda>(x, q). Inr (VUint32 x, q))
        | Some STRING \<Rightarrow> bindr (deserialize_cstr buf p len) (\<lambda>(x, q). Inr (VString x, q))
        | Some INVALID \<Rightarrow> Inr (VInvalid, p)
        | Some DOUBLE \<Rightarrow> bindr (deserialize_word buf p len) (\<lambda>(x, q). Inr (VDouble x, q))
        | Some FLOAT \<Rightarrow> bindr (deserialize_word buf p len) (\<lambda>(x, q). Inr (VFloat x, q))
        | None \<Rightarrow> Inl (Undefined ''unknown type tag''))"

section \<open>The contract\<close>

locale codec =
  fixes slen :: "'a \<Rightarrow> nat"
    and enc :: "'a \<Rightarrow> buffer"
    and ser :: "'a \<Rightarrow> buffer \<Rightarrow> nat \<Rightarrow> (buffer \<times> nat) outcome"
    and deser :: "buffer \<Rightarrow> nat \<Rightarrow> nat \<Rightarrow> ('a \<times> nat) outcome"
    and valid :: "'a \<Rightarrow> bool"
  assumes enc_length: "valid x \<Longrightarrow> length (enc x) = slen x"
    and ser_enc: "valid x \<Longrightarrow> ser x buf pos = put_bytes (enc x) buf pos"
    and deser_enc: "valid x \<Longrightarrow> take (slen x) (drop pos buf) = enc x \<Longrightarrow>
      pos + slen x \<le> len \<Longrightarrow> len \<le> length buf \<Longrightarrow> deser buf pos len = Inr (x, pos + slen x)"
    and deser_short: "valid x \<Longrightarrow> pos \<le> len \<Longrightarrow> len < pos + slen x \<Longrightarrow> len \<le> length buf \<Longrightarrow>
      take (len - pos) (drop pos buf) = take (len - pos) (enc x) \<Longrightarrow>
      \<exists>m. deser buf pos len = Inl (Abort m)"
begin

lemma ser_fits:
  assumes "valid x" and "pos + slen x \<le> length buf"
  shows "ser x buf pos = Inr (take pos buf @ enc x @ drop (pos + slen x) buf, pos + slen x)"
  using assms by (simp add: ser_enc put_bytes_def enc_length)

lemma ser_overflow:
  assumes "valid x" and "length buf < pos + slen x"
  shows "ser x buf pos = Inl (Undefined ''write past the end of the buffer'')"
  using assms by (simp add: ser_enc put_bytes_def enc_length)

lemma ser_deser:
  assumes v: "valid x" and fit: "pos + slen x \<le> length buf"
  shows "\<exists>buf'. ser x buf pos = Inr (buf', pos + slen x) \<and> length buf' = length buf \<and>
    take pos buf' = take pos buf \<and> drop (pos + slen x) buf' = drop (pos + slen x) buf \<and>
    deser buf' pos (length buf') = Inr (x, pos + slen x)"
proof -
  define buf' where "buf' = take pos buf @ enc x @ drop (pos + slen x) buf"
  have len: "length buf' = length buf"
    using fit by (simp add: buf'_def enc_length [OF v])
  have enc: "take (slen x) (drop pos buf') = enc x"
    using fit by (simp add: buf'_def enc_length [OF v])
  have pre: "take pos buf' = take pos buf"
    using fit by (simp add: buf'_def)
  have post: "drop (pos + slen x) buf' = drop (pos + slen x) buf"
    using fit by (simp add: buf'_def enc_length [OF v])
  have "deser buf' pos (length buf') = Inr (x, pos + slen x)"
    using deser_enc [OF v enc, of "length buf'"] fit len by simp
  then show ?thesis
    using ser_fits [OF v fit] len pre post by (auto simp: buf'_def)
qed

lemma deser_truncated:
  assumes v: "valid x" and fit: "pos + slen x \<le> length buf" and ser: "ser x buf pos = Inr (buf', p)"
    and cut: "pos \<le> len" "len < p"
  shows "\<exists>m. deser (take len buf') pos len = Inl (Abort m)"
proof -
  from ser_fits [OF v fit] ser have b: "buf' = take pos buf @ enc x @ drop (pos + slen x) buf"
    and p: "p = pos + slen x" by auto
  have "take (len - pos) (drop pos (take len buf')) = take (len - pos) (enc x)"
    using cut p fit by (simp add: b enc_length [OF v] drop_take)
  then show ?thesis
    using deser_short [OF v cut(1), of "take len buf'"] cut p fit
    by (simp add: b enc_length [OF v])
qed

end

section \<open>The types satisfy it\<close>

lemma get_bytes_ok:
  "pos + n \<le> len \<Longrightarrow> len \<le> length buf \<Longrightarrow> get_bytes n buf pos len = Inr (take n (drop pos buf), pos + n)"
  by (simp add: get_bytes_def)

lemma get_bytes_short: "len < pos + n \<Longrightarrow> get_bytes n buf pos len = Inl (Abort ''pos + COUNT <= length'')"
  by (simp add: get_bytes_def)

lemma word_roundtrip:
  "8 dvd LENGTH('a) \<Longrightarrow> of_nat (le_value (le_bytes (LENGTH('a) div 8) (unat w))) = (w :: 'a::len word)"
proof -
  assume d: "8 dvd LENGTH('a)"
  have "unat w < 2 ^ LENGTH('a)" by (rule unsigned_less)
  also have "(2::nat) ^ LENGTH('a) = 256 ^ (LENGTH('a) div 8)"
    using d by (auto elim!: dvdE simp: power_mult)
  finally show ?thesis by (simp add: le_value_le_bytes)
qed

interpretation bool_codec: codec serializeLen_bool "\<lambda>b. [if b then 1 else 0]" serialize_bool
  deserialize_bool "\<lambda>_. True"
proof (unfold_locales, goal_cases)
  case (3 x pos buf len)
  then show ?case
    by (cases x) (auto simp: deserialize_bool_def serializeLen_bool_def get_bytes_ok)
next
  case (4 x pos len buf)
  then show ?case
    by (auto simp: deserialize_bool_def serializeLen_bool_def get_bytes_short)
qed (simp_all add: serializeLen_bool_def serialize_bool_def)

definition word_enc :: "'a::len word \<Rightarrow> buffer" where
  "word_enc w = le_bytes (LENGTH('a) div 8) (unat w)"

lemma word_codec:
  assumes "8 dvd LENGTH('a)"
  shows "codec (serializeLen_word :: 'a::len word \<Rightarrow> nat) word_enc serialize_word deserialize_word
    (\<lambda>_. True)"
proof (unfold_locales, goal_cases)
  case (3 x pos buf len)
  then show ?case using word_roundtrip [OF assms, of x]
    by (simp add: deserialize_word_def serializeLen_word_def get_bytes_ok word_enc_def)
next
  case (4 x pos len buf)
  then show ?case
    by (simp add: deserialize_word_def serializeLen_word_def get_bytes_short)
qed (simp_all add: serializeLen_word_def serialize_word_def word_enc_def)

interpretation u8_codec: codec "serializeLen_word :: u8 \<Rightarrow> nat" word_enc serialize_word
  deserialize_word "\<lambda>_. True"
  by (rule word_codec) simp

interpretation u16_codec: codec "serializeLen_word :: u16 \<Rightarrow> nat" word_enc serialize_word
  deserialize_word "\<lambda>_. True"
  by (rule word_codec) simp

interpretation u32_codec: codec "serializeLen_word :: u32 \<Rightarrow> nat" word_enc serialize_word
  deserialize_word "\<lambda>_. True"
  by (rule word_codec) simp

interpretation u64_codec: codec "serializeLen_word :: u64 \<Rightarrow> nat" word_enc serialize_word
  deserialize_word "\<lambda>_. True"
  by (rule word_codec) simp

text \<open>
  A 32-bit length followed by that many bytes. Both string overloads have this shape; they
  differ in what they make of the bytes.
\<close>

definition blob_enc :: "string \<Rightarrow> buffer" where
  "blob_enc s = word_enc (str_len32 s) @ map char_byte s"

definition fits32 :: "string \<Rightarrow> bool" where
  "fits32 s \<longleftrightarrow> length s < 2 ^ 32"

lemma unat_str_len32 [simp]: "fits32 s \<Longrightarrow> unat (str_len32 s) = length s"
  by (simp add: fits32_def str_len32_def unat_of_nat)

lemma blob_enc_length [simp]: "length (blob_enc s) = 4 + length s"
  by (simp add: blob_enc_def word_enc_def)

lemma serialize_string_enc: "fits32 s \<Longrightarrow> serialize_string s buf pos = put_bytes (blob_enc s) buf pos"
  using put_bytes_append [of "word_enc (str_len32 s)" buf pos "map char_byte s"]
  by (simp add: serialize_string_def Let_def serialize_word_def blob_enc_def word_enc_def)

lemma take_append_split:
  assumes "take (n + m) (drop pos buf) = as @ bs" and "length as = n"
  shows "take n (drop pos buf) = as" and "take m (drop (pos + n) buf) = bs"
proof -
  have "take n (take (n + m) (drop pos buf)) = as" using assms by simp
  then show "take n (drop pos buf) = as" by (simp add: min_def)
  have "drop n (take (n + m) (drop pos buf)) = bs" using assms by simp
  then show "take m (drop (pos + n) buf) = bs" by (simp add: drop_take add.commute)
qed

lemma deserialize_blob:
  assumes s: "fits32 s" and enc: "take (4 + length s) (drop pos buf) = blob_enc s"
    and len: "pos + (4 + length s) \<le> len" "len \<le> length buf"
  shows "deserialize_word buf pos len = Inr (str_len32 s, pos + 4)"
    and "get_bytes (length s) buf (pos + 4) len = Inr (map char_byte s, pos + (4 + length s))"
proof -
  note split = take_append_split [OF enc [unfolded blob_enc_def], unfolded word_enc_def, simplified]
  show "deserialize_word buf pos len = Inr (str_len32 s, pos + 4)"
    using u32_codec.deser_enc [of "str_len32 s" pos buf len] split(1) len
    by (simp add: serializeLen_word_def word_enc_def)
  show "get_bytes (length s) buf (pos + 4) len = Inr (map char_byte s, pos + (4 + length s))"
    using split(2) len by (simp add: get_bytes_def add.assoc)
qed

lemma deserialize_blob_short:
  assumes s: "fits32 s" and pos: "pos \<le> len" "len < pos + (4 + length s)" "len \<le> length buf"
    and enc: "take (len - pos) (drop pos buf) = take (len - pos) (blob_enc s)"
  shows "(\<exists>m. deserialize_word buf pos len = (Inl (Abort m) :: (u32 \<times> nat) outcome)) \<or>
    deserialize_word buf pos len = Inr (str_len32 s, pos + 4) \<and>
    (\<exists>m. get_bytes (length s) buf (pos + 4) len = Inl (Abort m))"
proof (cases "len < pos + 4")
  case True
  have "\<exists>m. deserialize_word buf pos len = (Inl (Abort m) :: (u32 \<times> nat) outcome)"
    using True by (simp add: deserialize_word_def get_bytes_short)
  then show ?thesis ..
next
  case False
  then have "take 4 (take (len - pos) (drop pos buf)) = take 4 (take (len - pos) (blob_enc s))"
    using enc by simp
  moreover have "4 \<le> len - pos" using False by simp
  ultimately have "take 4 (drop pos buf) = word_enc (str_len32 s)"
    by (simp add: min_absorb1 blob_enc_def word_enc_def)
  then have "deserialize_word buf pos len = Inr (str_len32 s, pos + 4)"
    using u32_codec.deser_enc [of "str_len32 s" pos buf len] False pos
    by (simp add: serializeLen_word_def)
  moreover have "\<exists>m. get_bytes (length s) buf (pos + 4) len = Inl (Abort m)"
    using pos by (simp add: get_bytes_short)
  ultimately show ?thesis by blast
qed

interpretation string_codec: codec serializeLen_string blob_enc serialize_string
  deserialize_string fits32
proof (unfold_locales, goal_cases)
  case (3 x pos buf len)
  then show ?case using deserialize_blob [of x pos buf len]
    by (simp add: deserialize_string_def serializeLen_string_def)
next
  case (4 x pos len buf)
  then show ?case using deserialize_blob_short [of x pos len buf]
    by (auto simp: deserialize_string_def serializeLen_string_def)
qed (simp_all add: serializeLen_string_def serialize_string_enc)

definition cstr_ok :: "string \<Rightarrow> bool" where
  "cstr_ok s \<longleftrightarrow> no_nul s \<and> fits32 s"

interpretation cstr_codec: codec serializeLen_cstr blob_enc serialize_cstr deserialize_cstr cstr_ok
proof (unfold_locales, goal_cases)
  case (3 x pos buf len)
  then show ?case using deserialize_blob [of x pos buf len]
    by (simp add: deserialize_cstr_def serializeLen_cstr_def cstr_ok_def add.commute add.left_commute)
next
  case (4 x pos len buf)
  then show ?case using deserialize_blob_short [of x pos len buf]
    by (auto simp: deserialize_cstr_def serializeLen_cstr_def cstr_ok_def add.commute add.left_commute)
qed (simp_all add: serializeLen_cstr_def serialize_cstr_def serialize_string_enc cstr_ok_def)

text \<open>A value of class \<open>VariableDatatype\<close> is its type tag followed by the encoding of the member in use.\<close>

definition vd_payload :: "VariableDatatype \<Rightarrow> buffer" where
  "vd_payload obj = (case obj of
     VInt64 i \<Rightarrow> word_enc i | VInt32 i \<Rightarrow> word_enc i | VUint64 i \<Rightarrow> word_enc i | VUint32 i \<Rightarrow> word_enc i
   | VString s \<Rightarrow> blob_enc s | VInvalid \<Rightarrow> [] | VDouble d \<Rightarrow> word_enc d | VFloat f \<Rightarrow> word_enc f)"

definition vd_enc :: "VariableDatatype \<Rightarrow> buffer" where
  "vd_enc obj = of_nat (type_code (vd_type obj)) # vd_payload obj"

definition vd_serializable :: "VariableDatatype \<Rightarrow> bool" where
  "vd_serializable obj = (case obj of VString s \<Rightarrow> cstr_ok s | _ \<Rightarrow> True)"

lemma word_enc_u8: "word_enc (w :: u8) = [w]"
proof -
  have "unat w < 2 ^ LENGTH(8)" by (rule unsigned_less)
  then have "unat w < 256" by simp
  then have "unat w mod 256 = unat w" by (rule mod_less)
  then have "le_bytes (Suc 0) (unat w) = [w]" by (simp only: le_bytes.simps) simp
  then show ?thesis by (simp add: word_enc_def)
qed

lemma tag_read:
  assumes "take (1 + n) (drop pos buf) = t # bs" and "length bs = n"
    and "pos + (1 + n) \<le> len" and "len \<le> length buf"
  shows "deserialize_word buf pos len = Inr (t :: u8, pos + 1)"
    and "take n (drop (pos + 1) buf) = bs"
proof -
  have split: "take 1 (drop pos buf) = [t]" "take n (drop (pos + 1) buf) = bs"
    using take_append_split [of 1 n pos buf "[t]" bs] assms by simp_all
  then show "take n (drop (pos + 1) buf) = bs" by simp
  show "deserialize_word buf pos len = Inr (t, pos + 1)"
    using u8_codec.deser_enc [of t pos buf len] assms split(1)
    by (simp add: serializeLen_word_def word_enc_u8)
qed

lemma tag_read_short:
  assumes "pos \<le> len" and "len \<le> length buf"
    and "take (len - pos) (drop pos buf) = take (len - pos) (t # bs)"
  shows "(\<exists>m. deserialize_word buf pos len = (Inl (Abort m) :: (u8 \<times> nat) outcome)) \<or>
    deserialize_word buf pos len = Inr (t, pos + 1) \<and> pos + 1 \<le> len \<and>
    take (len - (pos + 1)) (drop (pos + 1) buf) = take (len - (pos + 1)) bs"
proof (cases "len = pos")
  case True
  then have "deserialize_word buf pos len = (Inl (Abort ''pos + COUNT <= length'') :: (u8 \<times> nat) outcome)"
    by (simp add: deserialize_word_def get_bytes_short)
  then show ?thesis by blast
next
  case False
  with assms have p: "pos + 1 \<le> len" by simp
  then have "take (1 + (len - (pos + 1))) (drop pos buf) = [t] @ take (len - (pos + 1)) bs"
    using assms(3) by (simp add: take_Cons' Suc_diff_Suc)
  from take_append_split [OF this] have split: "take 1 (drop pos buf) = [t]"
    "take (len - (pos + 1)) (drop (pos + 1) buf) = take (len - (pos + 1)) bs" by simp_all
  have "deserialize_word buf pos len = Inr (t, pos + 1)"
    using u8_codec.deser_enc [of t pos buf len] assms(2) split(1) p
    by (simp add: serializeLen_word_def word_enc_u8)
  with split p show ?thesis by blast
qed

lemma vd_payload_length: "vd_serializable x \<Longrightarrow> serializeLen_vd x = 1 + length (vd_payload x)"
  by (cases x) (auto simp: serializeLen_vd_def vd_payload_def vd_serializable_def cstr_ok_def
      serializeLen_word_def serializeLen_cstr_def word_enc_def)

lemma serialize_vd_enc: "vd_serializable x \<Longrightarrow> serialize_vd x buf pos = put_bytes (vd_enc x) buf pos"
  using put_bytes_append [of "[of_nat (type_code (vd_type x))]" buf pos "vd_payload x"]
  by (cases x) (auto simp: serialize_vd_def vd_payload_def vd_enc_def vd_serializable_def
      u8_codec.ser_enc u32_codec.ser_enc u64_codec.ser_enc cstr_codec.ser_enc word_enc_u8
      put_bytes_def bindr_def)

lemma vd_tag: "type_of_code (unat (of_nat (type_code t) :: u8)) = Some t"
  by (cases t) (simp_all add: type_of_code_def)

text \<open>What the deserializer does once it has read the tag, and that each branch is a codec's reader.\<close>

definition vd_read :: "Type \<Rightarrow> buffer \<Rightarrow> nat \<Rightarrow> nat \<Rightarrow> (VariableDatatype \<times> nat) outcome" where
  "vd_read t buf p len = (case t of
     INT64 \<Rightarrow> bindr (deserialize_word buf p len) (\<lambda>(x, q). Inr (VInt64 x, q))
   | INT32 \<Rightarrow> bindr (deserialize_word buf p len) (\<lambda>(x, q). Inr (VInt32 x, q))
   | UINT64 \<Rightarrow> bindr (deserialize_word buf p len) (\<lambda>(x, q). Inr (VUint64 x, q))
   | UINT32 \<Rightarrow> bindr (deserialize_word buf p len) (\<lambda>(x, q). Inr (VUint32 x, q))
   | STRING \<Rightarrow> bindr (deserialize_cstr buf p len) (\<lambda>(x, q). Inr (VString x, q))
   | INVALID \<Rightarrow> Inr (VInvalid, p)
   | DOUBLE \<Rightarrow> bindr (deserialize_word buf p len) (\<lambda>(x, q). Inr (VDouble x, q))
   | FLOAT \<Rightarrow> bindr (deserialize_word buf p len) (\<lambda>(x, q). Inr (VFloat x, q)))"

lemma deserialize_vd_tag:
  assumes "deserialize_word buf pos len = Inr (of_nat (type_code t) :: u8, p)"
  shows "deserialize_vd buf pos len = vd_read t buf p len"
  using vd_tag [of t] by (simp add: deserialize_vd_def vd_read_def assms split: Type.split)

lemma vd_read_word:
  assumes "length (word_enc x) = n" and "take n (drop p buf) = word_enc x"
    and "p + n \<le> len" and "len \<le> length buf" and "8 dvd LENGTH('a)"
  shows "deserialize_word buf p len = Inr (x :: 'a::len word, p + n)"
  using codec.deser_enc [OF word_codec [OF assms(5)], of x p buf len] assms
  by (simp add: serializeLen_word_def word_enc_def)

lemma vd_read_cstr:
  assumes "take (length (blob_enc s)) (drop p buf) = blob_enc s" and "cstr_ok s"
    and "p + length (blob_enc s) \<le> len" and "len \<le> length buf"
  shows "deserialize_cstr buf p len = Inr (s, p + length (blob_enc s))"
  using cstr_codec.deser_enc [of s p buf len] cstr_codec.enc_length [of s] assms by simp

lemma vd_read_payload:
  assumes "take (length (vd_payload x)) (drop p buf) = vd_payload x" and "vd_serializable x"
    and "p + length (vd_payload x) \<le> len" and "len \<le> length buf"
  shows "vd_read (vd_type x) buf p len = Inr (x, p + length (vd_payload x))"
proof (cases x)
  case (VString s)
  with assms vd_read_cstr [of s p buf len] show ?thesis
    by (simp add: vd_read_def vd_payload_def vd_serializable_def)
qed (use assms in \<open>simp_all add: vd_read_def vd_payload_def vd_read_word [OF refl]\<close>)

lemma vd_read_short:
  assumes "vd_serializable x" and "p \<le> len" and "len < p + length (vd_payload x)"
    and "len \<le> length buf" and "take (len - p) (drop p buf) = take (len - p) (vd_payload x)"
  shows "\<exists>m. vd_read (vd_type x) buf p len = Inl (Abort m)"
proof (cases x)
  case (VString s)
  with assms cstr_codec.deser_short [of s p len buf] cstr_codec.enc_length [of s] show ?thesis
    by (auto simp: vd_read_def vd_payload_def vd_serializable_def)
qed (use assms in \<open>simp_all add: vd_read_def vd_payload_def word_enc_def deserialize_word_def
    get_bytes_short\<close>)

interpretation vd_codec: codec serializeLen_vd vd_enc serialize_vd deserialize_vd vd_serializable
proof (unfold_locales, goal_cases)
  case (3 x pos buf len)
  then have enc: "take (1 + length (vd_payload x)) (drop pos buf)
      = of_nat (type_code (vd_type x)) # vd_payload x"
    and len: "pos + (1 + length (vd_payload x)) \<le> len" "len \<le> length buf"
    by (simp_all add: vd_enc_def vd_payload_length)
  note tag = tag_read [OF enc refl len]
  show ?case
    using vd_read_payload [OF tag(2)] 3 len by (simp add: deserialize_vd_tag [OF tag(1)] vd_payload_length)
next
  case (4 x pos len buf)
  then have enc: "take (len - pos) (drop pos buf)
      = take (len - pos) (of_nat (type_code (vd_type x)) # vd_payload x)"
    and len: "len < pos + 1 + length (vd_payload x)"
    by (simp_all add: vd_enc_def vd_payload_length)
  from tag_read_short [OF 4(2,4) enc] show ?case
  proof
    assume "\<exists>m. deserialize_word buf pos len = (Inl (Abort m) :: (u8 \<times> nat) outcome)"
    then show ?thesis by (auto simp: deserialize_vd_def)
  next
    assume "deserialize_word buf pos len = Inr (of_nat (type_code (vd_type x)) :: u8, pos + 1) \<and>
      pos + 1 \<le> len \<and> take (len - (pos + 1)) (drop (pos + 1) buf) = take (len - (pos + 1)) (vd_payload x)"
    then show ?thesis
      using vd_read_short [of x "pos + 1" len buf] 4 len by (simp add: deserialize_vd_tag)
  qed
qed (simp_all add: vd_payload_length serialize_vd_enc vd_enc_def)

section \<open>Properties\<close>

text \<open>
  C31 (roundtrip): serializing a \<open>VariableDatatype\<close> into a buffer that is long enough writes
  exactly \<open>serializeLen\<close> bytes at the given position and nothing else, and deserializing from that
  position gives the value back and leaves the position behind it.
\<close>

theorem vd_serialize_deserialize:
  assumes "vd_serializable v" and "pos + serializeLen_vd v \<le> length buf"
  shows "\<exists>buf'. serialize_vd v buf pos = Inr (buf', pos + serializeLen_vd v) \<and> length buf' = length buf \<and>
    take pos buf' = take pos buf \<and> drop (pos + serializeLen_vd v) buf' = drop (pos + serializeLen_vd v) buf \<and>
    deserialize_vd buf' pos (length buf') = Inr (v, pos + serializeLen_vd v)"
  using assms by (rule vd_codec.ser_deser)

theorem vd_serialize_deserialize_witness:
  "\<exists>buf'. serialize_vd (VString ''ab'') [9, 9, 9, 9, 9, 9, 9, 9] 1 = Inr (buf', 8) \<and>
    deserialize_vd buf' 1 (length buf') = Inr (VString ''ab'', 8)"
  using vd_serialize_deserialize [of "VString ''ab''" 1 "[9, 9, 9, 9, 9, 9, 9, 9]"]
  by (auto simp: vd_serializable_def cstr_ok_def no_nul_def fits32_def serializeLen_vd_def
      serializeLen_cstr_def serializeLen_word_def)

text \<open>
  A message that was cut off is rejected. If the buffer ends anywhere inside the bytes
  of a serialized value, \<open>deserialize\<close> runs into its length assertion; it neither reads behind
  the buffer nor returns a value.
\<close>

theorem vd_truncated_rejected:
  assumes "vd_serializable v" and "pos + serializeLen_vd v \<le> length buf"
    and "serialize_vd v buf pos = Inr (buf', p)" and "pos \<le> len" and "len < p"
  shows "\<exists>m. deserialize_vd (take len buf') pos len = Inl (Abort m)"
  using assms by (rule vd_codec.deser_truncated)

theorem vd_truncated_rejected_witness:
  "\<exists>buf' p m. serialize_vd (VUint32 7) [0, 0, 0, 0, 0] 0 = Inr (buf', p) \<and>
     deserialize_vd (take 3 buf') 0 3 = Inl (Abort m)"
proof -
  have fit: "0 + serializeLen_vd (VUint32 7) \<le> length ([0, 0, 0, 0, 0] :: buffer)"
    by (simp add: serializeLen_vd_def serializeLen_word_def)
  have ser: "serialize_vd (VUint32 7) [0, 0, 0, 0, 0] 0 = Inr ([3, 7, 0, 0, 0], 5)"
    by code_simp
  show ?thesis
    using vd_truncated_rejected [OF _ fit ser, of 3] ser by (auto simp: vd_serializable_def)
qed

end
