(* ===== verification/Ids.thy ===== *)
theory Ids
  imports Variable_Datatype
begin

text \<open>
  Identifiers of nodes, processes, components, activities and remote calls:
  \<open>include/monitoring/datatypes/ids.hpp\<close>. The structs are datatypes with the source's fields in
  the source's order, so that the comparison operators of the source become the instances of
  the library's \<^verbatim>\<open>linorder\<close>. They are keys of ordered and of hashed containers and their stream
  output is used as a key of the system information tables, so the properties are that
  \<open>operator<\<close> is a linear order, that the rendering is injective, and what the hashes tell apart.
\<close>

type_synonym NodeID = u32
type_synonym DeviceID = u32
type_synonym FilesystemID = u32
type_synonym OntologyAttributeID = u32
type_synonym UniqueComponentActivityID = u32
type_synonym AssociateID = u32
type_synonym UniqueInterfaceID = u32
type_synonym AttributeValue = VariableDatatype
type_synonym ActivityError = u32

section \<open>The structures\<close>

datatype Attribute = Attribute (attr_id: OntologyAttributeID) (attr_value: AttributeValue)

datatype ProcessID = ProcessID (pid_nid: NodeID) (pid_pid: u32) (pid_time: u32)

datatype ComponentID = ComponentID (cid_pid: ProcessID) (cid_id: u16)

datatype RemoteCallIdentifier =
  RemoteCallIdentifier (rc_nid: NodeID) (rc_uuid: UniqueInterfaceID) (rc_instance: AssociateID)

datatype ActivityID = ActivityID (aid_cid: ComponentID) (aid_id: u32) (aid_thread: u32)

text \<open>\<open>operator==\<close>: field by field; the value of an attribute is compared with \<open>operator!=\<close> of its class.\<close>

definition attribute_eq :: "Attribute \<Rightarrow> Attribute \<Rightarrow> bool" where
  "attribute_eq a b =
     (if attr_id a \<noteq> attr_id b then False
      else if vd_ne (attr_value a) (attr_value b) then False
      else True)"

definition attribute_ne :: "Attribute \<Rightarrow> Attribute \<Rightarrow> bool" where
  "attribute_ne a b \<longleftrightarrow> \<not> attribute_eq a b"

definition process_eq :: "ProcessID \<Rightarrow> ProcessID \<Rightarrow> bool" where
  "process_eq a b \<longleftrightarrow> pid_nid a = pid_nid b \<and> pid_pid a = pid_pid b \<and> pid_time a = pid_time b"

definition component_eq :: "ComponentID \<Rightarrow> ComponentID \<Rightarrow> bool" where
  "component_eq a b \<longleftrightarrow> cid_id a = cid_id b \<and> process_eq (cid_pid a) (cid_pid b)"

definition remotecall_eq :: "RemoteCallIdentifier \<Rightarrow> RemoteCallIdentifier \<Rightarrow> bool" where
  "remotecall_eq a b =
     (if rc_nid a \<noteq> rc_nid b then False
      else if rc_uuid a \<noteq> rc_uuid b then False
      else if rc_instance a \<noteq> rc_instance b then False
      else True)"

definition activityid_eq :: "ActivityID \<Rightarrow> ActivityID \<Rightarrow> bool" where
  "activityid_eq a b =
     (if aid_id a \<noteq> aid_id b then False
      else if aid_thread a \<noteq> aid_thread b then False
      else component_eq (aid_cid a) (aid_cid b))"

section \<open>operator<\<close>

definition process_less :: "ProcessID \<Rightarrow> ProcessID \<Rightarrow> bool" where
  "process_less a b =
     (if pid_nid a < pid_nid b then True
      else if pid_nid a > pid_nid b then False
      else if pid_pid a < pid_pid b then True
      else if pid_pid a > pid_pid b then False
      else pid_time a < pid_time b)"

definition component_less :: "ComponentID \<Rightarrow> ComponentID \<Rightarrow> bool" where
  "component_less a b =
     (if cid_id a < cid_id b then True
      else if cid_id a > cid_id b then False
      else process_less (cid_pid a) (cid_pid b))"

definition activityid_less :: "ActivityID \<Rightarrow> ActivityID \<Rightarrow> bool" where
  "activityid_less a b =
     (if aid_id a \<noteq> aid_id b then aid_id a < aid_id b
      else if aid_thread a \<noteq> aid_thread b then aid_thread a < aid_thread b
      else component_less (aid_cid a) (aid_cid b))"

instantiation ProcessID :: linorder
begin

definition less_ProcessID :: "ProcessID \<Rightarrow> ProcessID \<Rightarrow> bool" where
  "less_ProcessID = process_less"

definition less_eq_ProcessID :: "ProcessID \<Rightarrow> ProcessID \<Rightarrow> bool" where
  "less_eq_ProcessID a b \<longleftrightarrow> process_less a b \<or> a = b"

instance
  by standard (auto simp: less_ProcessID_def less_eq_ProcessID_def process_less_def
      split: if_splits intro: ProcessID.expand)

end

instantiation ComponentID :: linorder
begin

definition less_ComponentID :: "ComponentID \<Rightarrow> ComponentID \<Rightarrow> bool" where
  "less_ComponentID = component_less"

definition less_eq_ComponentID :: "ComponentID \<Rightarrow> ComponentID \<Rightarrow> bool" where
  "less_eq_ComponentID a b \<longleftrightarrow> component_less a b \<or> a = b"

instance
  by standard (auto simp: less_ComponentID_def less_eq_ComponentID_def component_less_def
      less_ProcessID_def [symmetric] split: if_splits intro: ComponentID.expand)

end

instantiation ActivityID :: linorder
begin

definition less_ActivityID :: "ActivityID \<Rightarrow> ActivityID \<Rightarrow> bool" where
  "less_ActivityID = activityid_less"

definition less_eq_ActivityID :: "ActivityID \<Rightarrow> ActivityID \<Rightarrow> bool" where
  "less_eq_ActivityID a b \<longleftrightarrow> activityid_less a b \<or> a = b"

instance
  by standard (auto simp: less_ActivityID_def less_eq_ActivityID_def activityid_less_def
      less_ComponentID_def [symmetric] split: if_splits intro: ActivityID.expand)

end

section \<open>Rendering and validity\<close>

definition show_ProcessID :: "ProcessID \<Rightarrow> string" where
  "show_ProcessID v =
     ''('' @ dec_nat (unat (pid_nid v)) @ '','' @ dec_nat (unat (pid_pid v)) @ '','' @
     dec_nat (unat (pid_time v)) @ '')''"

definition show_ComponentID :: "ComponentID \<Rightarrow> string" where
  "show_ComponentID v =
     ''('' @ show_ProcessID (cid_pid v) @ '','' @ dec_nat (unat (cid_id v)) @ '')''"

definition show_ActivityID :: "ActivityID \<Rightarrow> string" where
  "show_ActivityID v =
     ''('' @ show_ComponentID (aid_cid v) @ '','' @ dec_nat (unat (aid_id v)) @ '','' @
     dec_nat (unat (aid_thread v)) @ '')''"

definition is_valid_id :: "u32 \<Rightarrow> bool" where
  "is_valid_id i \<longleftrightarrow> i \<noteq> 0"

definition is_valid_ProcessID :: "ProcessID \<Rightarrow> bool" where
  "is_valid_ProcessID i \<longleftrightarrow> is_valid_id (pid_nid i)"

definition is_valid_ComponentID :: "ComponentID \<Rightarrow> bool" where
  "is_valid_ComponentID i \<longleftrightarrow> is_valid_ProcessID (cid_pid i)"

definition is_valid_ActivityID :: "ActivityID \<Rightarrow> bool" where
  "is_valid_ActivityID i \<longleftrightarrow> is_valid_ComponentID (aid_cid i)"

section \<open>Hashes\<close>

text \<open>
  \<open>nid * (31 * 31)\<close> is a product of 32-bit operands and wraps there before it is widened; the
  other products are 64-bit ones.
\<close>

unbundle bit_operations_syntax

definition hash_fold :: "u64 \<Rightarrow> u64" where
  "hash_fold temp = temp XOR drop_bit 32 temp"

definition process_hash_temp :: "ProcessID \<Rightarrow> u64" where
  "process_hash_temp me = ucast (pid_nid me * (31 * 31)) + 31 * ucast (pid_pid me) + ucast (pid_time me)"

definition hash_ProcessID :: "ProcessID \<Rightarrow> u64" where
  "hash_ProcessID me = hash_fold (process_hash_temp me)"

definition hash_ComponentID :: "ComponentID \<Rightarrow> u64" where
  "hash_ComponentID me = hash_fold (31 * hash_ProcessID (cid_pid me) + ucast (cid_id me))"

definition hash_ActivityID :: "ActivityID \<Rightarrow> u64" where
  "hash_ActivityID me =
     hash_fold (hash_ComponentID (aid_cid me) * (31 * 31) + 31 * ucast (aid_id me) + ucast (aid_thread me))"

section \<open>Properties\<close>

lemma process_eq_iff [simp]: "process_eq a b \<longleftrightarrow> a = b"
  by (auto simp: process_eq_def intro: ProcessID.expand)

lemma component_eq_iff [simp]: "component_eq a b \<longleftrightarrow> a = b"
  by (auto simp: component_eq_def intro: ComponentID.expand)

lemma remotecall_eq_iff [simp]: "remotecall_eq a b \<longleftrightarrow> a = b"
  by (auto simp: remotecall_eq_def intro: RemoteCallIdentifier.expand)

lemma activityid_eq_iff [simp]: "activityid_eq a b \<longleftrightarrow> a = b"
  by (auto simp: activityid_eq_def intro: ActivityID.expand)

lemma attribute_eq_exact:
  "attribute_eq a b \<Longrightarrow> vd_type (attr_value a) \<notin> {FLOAT, DOUBLE} \<Longrightarrow> a = b"
  using vd_eq_exact [of "attr_value a" "attr_value b"]
  by (auto simp: attribute_eq_def vd_ne_def vd_eq_sym [of "attr_value b"] split: if_splits
      intro!: Attribute.expand)

text \<open>C++ containers take two keys for the same one when neither is less than the other.\<close>

lemma equivalent_keys_equal:
  fixes a b :: "'a::linorder"
  shows "\<not> a < b \<and> \<not> b < a \<longleftrightarrow> a = b"
  by auto

lemma not_digit_punct [simp]: "\<not> is_digit_char CHR '',''" "\<not> is_digit_char CHR '')''"
  "\<not> is_digit_char CHR ''(''"
  by (simp_all add: is_digit_char_def)

lemma show_ProcessID_sep_inject:
  "show_ProcessID a @ r = show_ProcessID b @ s \<longleftrightarrow> a = b \<and> r = s"
  by (auto simp: show_ProcessID_def dec_nat_sep_inject intro!: ProcessID.expand)

lemma show_ComponentID_sep_inject:
  "show_ComponentID a @ r = show_ComponentID b @ s \<longleftrightarrow> a = b \<and> r = s"
  by (auto simp: show_ComponentID_def show_ProcessID_sep_inject dec_nat_sep_inject
      intro!: ComponentID.expand)

lemma show_ProcessID_inject: "show_ProcessID a = show_ProcessID b \<longleftrightarrow> a = b"
  using show_ProcessID_sep_inject [of a "[]" b "[]"] by simp

lemma show_ActivityID_inject: "show_ActivityID a = show_ActivityID b \<longleftrightarrow> a = b"
  by (auto simp: show_ActivityID_def show_ComponentID_sep_inject dec_nat_sep_inject
      intro!: ActivityID.expand)

text \<open>The fold of the two halves loses nothing: the upper half survives and undoes the lower one.\<close>

lemma hash_fold_inject [simp]: "hash_fold a = hash_fold b \<longleftrightarrow> a = b"
proof
  assume eq: "hash_fold a = hash_fold b"
  have bits: "(bit a n \<noteq> bit a (32 + n)) = (bit b n \<noteq> bit b (32 + n))" for n
  proof -
    have "bit (hash_fold a) n = bit (hash_fold b) n" by (simp add: eq)
    then show ?thesis
      by (cases "n < 64") (auto simp: hash_fold_def bit_simps dest: bit_imp_le_length)
  qed
  have high: "bit a n = bit b n" if "32 \<le> n" for n
    using bits [of n] that by (auto dest: bit_imp_le_length)
  have "bit a n = bit b n" for n
    using bits [of n] high [of "32 + n"] by auto
  then show "a = b" by (simp add: bit_eq_iff)
qed simp

lemma unat_ucast32 [simp]: "unat (ucast (w :: u32) :: u64) = unat w"
  by (simp add: unsigned_ucast_eq take_bit_nat_eq_self order_less_trans [OF unsigned_less])

lemma hash_ProcessID_pid:
  assumes "pid_nid a = pid_nid b" and "pid_time a = pid_time b"
  shows "hash_ProcessID a = hash_ProcessID b \<longleftrightarrow> a = b"
proof
  assume "hash_ProcessID a = hash_ProcessID b"
  then have "31 * (ucast (pid_pid a) :: u64) = 31 * ucast (pid_pid b)"
    using assms by (simp add: hash_ProcessID_def process_hash_temp_def)
  then have "unat (31 * (ucast (pid_pid a) :: u64)) = unat (31 * (ucast (pid_pid b) :: u64))"
    by simp
  moreover have "unat (31 * (ucast w :: u64)) = 31 * unat w" for w :: u32
  proof -
    have "unat w < 2 ^ LENGTH(32)" by (rule unsigned_less)
    then show ?thesis by (simp add: unat_mult_lem [THEN iffD1])
  qed
  ultimately have "pid_pid a = pid_pid b" by simp
  with assms show "a = b" by (auto intro: ProcessID.expand)
qed simp

text \<open>
  \<open>operator<\<close> of the process, component and activity identifiers is a strict
  linear order whose equivalence is \<open>operator==\<close>: of two different identifiers exactly one is
  less, none is less than itself, and the relation is transitive. Containers ordered by it keep
  one entry per identifier.
\<close>

theorem id_orders:
  "(activityid_less a b \<longleftrightarrow> \<not> activityid_eq a b \<and> \<not> activityid_less b a) \<and>
   (activityid_less a b \<and> activityid_less b c \<longrightarrow> activityid_less a c) \<and>
   (component_less p q \<longleftrightarrow> \<not> component_eq p q \<and> \<not> component_less q p) \<and>
   (component_less p q \<and> component_less q r \<longrightarrow> component_less p r) \<and>
   (process_less x y \<longleftrightarrow> \<not> process_eq x y \<and> \<not> process_less y x) \<and>
   (process_less x y \<and> process_less y z \<longrightarrow> process_less x z)"
proof -
  have a: "activityid_less = (<)" "component_less = (<)" "process_less = (<)"
    by (simp_all add: less_ActivityID_def less_ComponentID_def less_ProcessID_def)
  show ?thesis unfolding a by auto
qed

theorem id_orders_witness:
  "activityid_less (ActivityID (ComponentID (ProcessID 1 2 3) 4) 5 6) (ActivityID (ComponentID (ProcessID 0 0 0) 0) 6 0)"
  using id_orders [of "ActivityID (ComponentID (ProcessID 1 2 3) 4) 5 6"
      "ActivityID (ComponentID (ProcessID 0 0 0) 0) 6 0"]
  by (simp add: activityid_less_def)

text \<open>
  The text \<open>operator<<\<close> prints for a process or an activity identifies it: two
  identifiers with the same text are equal.
\<close>

theorem id_rendering_injective:
  "(show_ProcessID p = show_ProcessID q \<longleftrightarrow> p = q) \<and> (show_ActivityID a = show_ActivityID b \<longleftrightarrow> a = b)"
  by (simp add: show_ProcessID_inject show_ActivityID_inject)

text \<open>
  The hash of process identifiers never collides for processes that were started
  on one node at the same second, although the multiplication of the node id wraps at 32 bits.
\<close>

theorem process_hash_collision_free:
  assumes "pid_nid a = pid_nid b" and "pid_time a = pid_time b"
  shows "hash_ProcessID a = hash_ProcessID b \<longleftrightarrow> a = b"
  using assms by (rule hash_ProcessID_pid)

theorem process_hash_collision_free_witness:
  "hash_ProcessID (ProcessID 0xffffffff 10 77) \<noteq> hash_ProcessID (ProcessID 0xffffffff 11 77)"
  using process_hash_collision_free [of "ProcessID 0xffffffff 10 77" "ProcessID 0xffffffff 11 77"] by simp

end
