(* ===== verification/Ontology_Interface.thy ===== *)
theory Ontology_Interface
  imports Ids
begin

text \<open>
  The ontology interface: the data of \<open>monitoring/ontology/OntologyDatatypes.hpp\<close> and the contract
  of the abstract class \<open>Ontology\<close> as a locale. An operation that can throw returns a sum; a
  member function that changes the object returns the new state next to the sum, since the
  changes made before an exception stay.
\<close>

datatype siox_error = IllegalStateError string | NotFoundError string | Fatal failure

type_synonym 'a result = "siox_error + 'a"
type_synonym OntologyValue = VariableDatatype

record OntologyAttribute =
  oa_aID :: OntologyAttributeID
  oa_storage_type :: Type

record OntologyAttributeFull = OntologyAttribute +
  oa_domain :: string
  oa_name :: string

text \<open>\<open>operator==\<close> compares the ids only.\<close>

definition oa_eq :: "OntologyAttribute \<Rightarrow> OntologyAttribute \<Rightarrow> bool" where
  "oa_eq a b \<longleftrightarrow> oa_aID a = oa_aID b"

definition oa_slice :: "OntologyAttributeFull \<Rightarrow> OntologyAttribute" where
  "oa_slice f = \<lparr>oa_aID = oa_aID f, oa_storage_type = oa_storage_type f\<rparr>"

lemma oa_slice_sel [simp]:
  "oa_aID (oa_slice f) = oa_aID f" "oa_storage_type (oa_slice f) = oa_storage_type f"
  by (simp_all add: oa_slice_def)

text \<open>
  Registering is idempotent and never renames or retypes an attribute; names and ids lead to the
  same attribute; a meta attribute is written once and then only confirmed. \<open>name_ok\<close> are the
  pairs of names an implementation keeps apart, \<open>free\<close> counts the ids it has left.
\<close>

locale ontology =
  fixes register_attribute :: "'s \<Rightarrow> string \<Rightarrow> string \<Rightarrow> Type \<Rightarrow> OntologyAttribute result \<times> 's"
    and lookup_by_name :: "'s \<Rightarrow> string \<Rightarrow> string \<Rightarrow> OntologyAttribute result"
    and lookup_by_ID :: "'s \<Rightarrow> OntologyAttributeID \<Rightarrow> OntologyAttributeFull result"
    and set_meta :: "'s \<Rightarrow> OntologyAttribute \<Rightarrow> OntologyAttribute \<Rightarrow> OntologyValue \<Rightarrow> unit result \<times> 's"
    and lookup_meta :: "'s \<Rightarrow> OntologyAttribute \<Rightarrow> OntologyAttribute \<Rightarrow> OntologyValue result"
    and enumerate_meta :: "'s \<Rightarrow> OntologyAttribute \<Rightarrow> OntologyAttributeID list result"
    and valid :: "'s \<Rightarrow> bool"
    and free :: "'s \<Rightarrow> nat"
    and name_ok :: "string \<Rightarrow> string \<Rightarrow> bool"
  assumes register_known: "valid s \<Longrightarrow> lookup_by_name s d n = Inr a \<Longrightarrow> st \<noteq> INVALID \<Longrightarrow>
      (if oa_storage_type a = st then register_attribute s d n st = (Inr a, s)
       else \<exists>m. register_attribute s d n st = (Inl (IllegalStateError m), s))"
    and register_new: "valid s \<Longrightarrow> 0 < free s \<Longrightarrow> lookup_by_name s d n = Inl e \<Longrightarrow> st \<noteq> INVALID \<Longrightarrow>
      \<exists>a s'. register_attribute s d n st = (Inr a, s') \<and> valid s' \<and> free s \<le> Suc (free s') \<and>
        oa_storage_type a = st \<and> lookup_by_name s' d n = Inr a \<and>
        lookup_by_ID s' (oa_aID a) = Inr \<lparr>oa_aID = oa_aID a, oa_storage_type = st, oa_domain = d, oa_name = n\<rparr> \<and>
        (\<forall>d' n' a'. lookup_by_name s d' n' = Inr a' \<longrightarrow> lookup_by_name s' d' n' = Inr a' \<and> oa_aID a' \<noteq> oa_aID a) \<and>
        (\<forall>i f. lookup_by_ID s i = Inr f \<longrightarrow> lookup_by_ID s' i = Inr f) \<and>
        (\<forall>b c v. lookup_meta s b c = Inr v \<longrightarrow> lookup_meta s' b c = Inr v)"
    and name_and_ID: "valid s \<Longrightarrow> name_ok d n \<Longrightarrow> name_ok (oa_domain f) (oa_name f) \<Longrightarrow>
      lookup_by_ID s (oa_aID f) = Inr f \<Longrightarrow> lookup_by_name s d n = Inr a \<Longrightarrow>
      oa_aID a = oa_aID f \<longleftrightarrow> d = oa_domain f \<and> n = oa_name f"
    and by_name_ID: "valid s \<Longrightarrow> lookup_by_name s d n = Inr a \<Longrightarrow>
      \<exists>f. lookup_by_ID s (oa_aID a) = Inr f \<and> oa_slice f = a"
    and by_ID_name: "valid s \<Longrightarrow> lookup_by_ID s i = Inr f \<Longrightarrow>
      oa_aID f = i \<and> lookup_by_name s (oa_domain f) (oa_name f) = Inr (oa_slice f)"
    and set_meta_spec: "valid s \<Longrightarrow> lookup_by_ID s (oa_aID b) = Inr f \<Longrightarrow> oa_storage_type c = vd_type v \<Longrightarrow>
      set_meta s b c v = (ru, s') \<Longrightarrow> valid s' \<and> free s' = free s \<and>
        lookup_by_name s' = lookup_by_name s \<and> lookup_by_ID s' = lookup_by_ID s \<and>
        (case lookup_meta s b c of
           Inr w \<Rightarrow> s' = s \<and> (if vd_eq w v then ru = Inr () else \<exists>m. ru = Inl (IllegalStateError m))
         | Inl e \<Rightarrow> ru = Inr () \<and> lookup_meta s' b c = Inr v)"
    and set_meta_frame: "valid s \<Longrightarrow> lookup_by_ID s (oa_aID b) = Inr f \<Longrightarrow> oa_storage_type c = vd_type v \<Longrightarrow>
      set_meta s b c v = (ru, s') \<Longrightarrow> (oa_aID b', oa_aID c') \<noteq> (oa_aID b, oa_aID c) \<Longrightarrow>
      lookup_meta s b' c' = Inr w \<Longrightarrow> lookup_meta s' b' c' = Inr w"
    and enumerate_spec: "valid s \<Longrightarrow> lookup_by_ID s (oa_aID b) = Inr f \<Longrightarrow>
      \<exists>is. enumerate_meta s b = Inr is \<and> distinct is \<and>
        (oa_aID c \<in> set is \<longleftrightarrow> (\<exists>v. lookup_meta s b c = Inr v))"
begin

text \<open>After a successful registration the attribute is found by name, with the requested type.\<close>

lemma register_lookup:
  assumes "valid s" and "0 < free s" and "st \<noteq> INVALID" and "register_attribute s d n st = (Inr a, s')"
  shows "valid s' \<and> lookup_by_name s' d n = Inr a \<and> oa_storage_type a = st"
proof (cases "lookup_by_name s d n")
  case (Inl e)
  then show ?thesis using register_new [OF assms(1,2) Inl assms(3)] assms(4) by auto
next
  case (Inr b)
  then show ?thesis using register_known [OF assms(1) Inr assms(3)] assms(1,4)
    by (auto split: if_splits)
qed

text \<open>A successful registration forgets nothing.\<close>

lemma register_extends:
  assumes "valid s" and "0 < free s" and "st \<noteq> INVALID" and "register_attribute s d n st = (Inr a, s')"
  shows "valid s' \<and> free s \<le> Suc (free s') \<and> lookup_by_name s' d n = Inr a \<and>
    (\<forall>d' n' a'. lookup_by_name s d' n' = Inr a' \<longrightarrow> lookup_by_name s' d' n' = Inr a')"
proof (cases "lookup_by_name s d n")
  case (Inl e)
  then show ?thesis using register_new [OF assms(1,2) Inl assms(3)] assms(4) by auto
next
  case (Inr b)
  then show ?thesis using register_known [OF assms(1) Inr assms(3)] assms(1,4)
    by (auto split: if_splits)
qed

text \<open>A second registration under the same name gives the same attribute or is refused.\<close>

lemma register_twice:
  assumes "valid s" and "0 < free s" and "st \<noteq> INVALID" and "st' \<noteq> INVALID"
    and "register_attribute s d n st = (Inr a, s')"
  shows "if st' = st then register_attribute s' d n st' = (Inr a, s')
    else \<exists>m. register_attribute s' d n st' = (Inl (IllegalStateError m), s')"
  using register_lookup [OF assms(1-3,5)] register_known [of s' d n a st'] assms(4) by auto

text \<open>Distinct names of the kind the implementation keeps apart get distinct ids.\<close>

lemma register_distinct:
  assumes "valid s" and "name_ok d n" and "name_ok d' n'" and "lookup_by_name s d n = Inr a"
    and "lookup_by_name s d' n' = Inr a'" and "name_ok (oa_domain f) (oa_name f)"
    and "lookup_by_ID s (oa_aID a) = Inr f"
  shows "oa_aID a = oa_aID a' \<longleftrightarrow> d = d' \<and> n = n'"
proof -
  have f: "oa_aID f = oa_aID a" using by_ID_name assms(1,7) by blast
  then have "d = oa_domain f \<and> n = oa_name f"
    using name_and_ID [OF assms(1,2,6) _ assms(4)] assms(7) by simp
  moreover have "oa_aID a' = oa_aID f \<longleftrightarrow> d' = oa_domain f \<and> n' = oa_name f"
    using name_and_ID [OF assms(1,3,6) _ assms(5)] assms(7) f by simp
  ultimately show ?thesis using f by auto
qed

end

text \<open>
  The part of the contract that clients use who keep attribute ids in their own tables, where 0
  stands for no attribute.
\<close>

locale attribute_names =
  fixes reg :: "'o \<Rightarrow> string \<Rightarrow> string \<Rightarrow> Type \<Rightarrow> OntologyAttribute result \<times> 'o"
    and look :: "'o \<Rightarrow> string \<Rightarrow> string \<Rightarrow> OntologyAttribute result"
    and ovalid :: "'o \<Rightarrow> bool"
    and ofree :: "'o \<Rightarrow> nat"
  assumes reg_spec: "ovalid s \<Longrightarrow> 0 < ofree s \<Longrightarrow> st \<noteq> INVALID \<Longrightarrow> reg s d n st = (Inr a, s') \<Longrightarrow>
      ovalid s' \<and> ofree s \<le> Suc (ofree s') \<and> look s' d n = Inr a \<and>
      (\<forall>d' n' a'. look s d' n' = Inr a' \<longrightarrow> look s' d' n' = Inr a')"
    and look_positive: "ovalid s \<Longrightarrow> look s d n = Inr a \<Longrightarrow> oa_aID a \<noteq> 0"

end
