(* ===== verification/Id_Table.thy ===== *)
theory Id_Table
  imports Siox_Prelude
begin

text \<open>
  A pattern several components share: a vector of entries indexed by a 32-bit id, with a dummy
  at index 0, next to a map from keys to the entries. The id of a new entry is the size of the
  vector, cut to 32 bits, so ids stay unique while the vector has at most \<open>2 ^ 32\<close> elements.
\<close>

lemma unat_lt_2p32 [simp]: "unat (w :: u32) < 4294967296"
proof -
  have "unat w < 2 ^ LENGTH(32)" by (rule unsigned_less)
  then show ?thesis by simp
qed

lemma of_nat_eq_iff_unat: "n < 4294967296 \<Longrightarrow> (w :: u32) = of_nat n \<longleftrightarrow> unat w = n"
  by (auto simp: unat_of_nat)

lemma unat_of_nat32 [simp]: "n < 4294967296 \<Longrightarrow> unat (of_nat n :: u32) = n"
  by (simp add: unat_of_nat)

lemma unat_eq_0_iff [simp]: "unat (w :: 'a::len word) = 0 \<longleftrightarrow> w = 0"
  using unat_eq_iff [of w 0] by simp

lemma unat_ge_1_iff [simp]: "Suc 0 \<le> unat (w :: 'a::len word) \<longleftrightarrow> w \<noteq> 0"
  using unat_eq_0_iff [of w] by linarith

definition vec_get :: "'a option list \<Rightarrow> u32 \<Rightarrow> 'a option" where
  "vec_get vec i = (if unat i < length vec then vec ! unat i else None)"

lemma vec_get_append:
  "length vec < 4294967296 \<Longrightarrow>
   vec_get (vec @ [x]) i = (if unat i = length vec then x else vec_get vec i)"
  by (auto simp: vec_get_def nth_append)

lemma vec_get_update:
  "unat j < length vec \<Longrightarrow> vec_get (vec[unat j := x]) i = (if i = j then x else vec_get vec i)"
  by (auto simp: vec_get_def nth_list_update)

lemma vec_get_outside: "length vec \<le> unat i \<Longrightarrow> vec_get vec i = None"
  by (simp add: vec_get_def)

definition id_table :: "('a \<Rightarrow> u32) \<Rightarrow> ('a \<Rightarrow> 'k) \<Rightarrow> 'a option list \<Rightarrow> ('k \<rightharpoonup> 'a) \<Rightarrow> bool" where
  "id_table idf keyf vec m \<longleftrightarrow>
     0 < length vec \<and> length vec \<le> 4294967296 \<and> vec_get vec 0 = None \<and>
     (\<forall>i. vec_get vec i = None \<longrightarrow> i = 0 \<or> length vec \<le> unat i) \<and>
     (\<forall>i x. vec_get vec i = Some x \<longrightarrow> idf x = i \<and> m (keyf x) = Some x) \<and>
     (\<forall>k x. m k = Some x \<longrightarrow> keyf x = k \<and> vec_get vec (idf x) = Some x)"

lemma id_table_empty [simp]: "id_table idf keyf [None] Map.empty"
  by (auto simp: id_table_def vec_get_def)

lemma id_table_add:
  assumes t: "id_table idf keyf vec m" and room: "length vec < 4294967296" and new: "m k = None"
    and x: "keyf x = k" "idf x = of_nat (length vec)"
  shows "id_table idf keyf (vec @ [Some x]) (m(k \<mapsto> x))"
proof -
  have "i = 0 \<or> length (vec @ [Some x]) \<le> unat i" if "vec_get (vec @ [Some x]) i = None" for i
  proof -
    from that room have "unat i \<noteq> length vec" "vec_get vec i = None"
      by (auto simp: vec_get_append split: if_splits)
    moreover have "i = 0 \<or> length vec \<le> unat i"
      using t \<open>vec_get vec i = None\<close> unfolding id_table_def by blast
    ultimately show ?thesis by auto
  qed
  moreover have "vec_get (vec @ [Some x]) 0 = None"
    using t room by (auto simp: vec_get_append id_table_def)
  moreover have "idf y = i \<and> (m(k \<mapsto> x)) (keyf y) = Some y" if "vec_get (vec @ [Some x]) i = Some y" for i y
  proof (cases "unat i = length vec")
    case True
    then have "i = of_nat (length vec)" using room by (simp add: of_nat_eq_iff_unat)
    then show ?thesis using that True room x by (auto simp: vec_get_append)
  next
    case False
    then have "vec_get vec i = Some y" using that room by (simp add: vec_get_append)
    with t have "idf y = i" "m (keyf y) = Some y" by (auto simp: id_table_def)
    then show ?thesis using new by auto
  qed
  moreover have "keyf y = j \<and> vec_get (vec @ [Some x]) (idf y) = Some y" if "(m(k \<mapsto> x)) j = Some y" for j y
  proof (cases "j = k")
    case True
    then show ?thesis using that room x by (auto simp: vec_get_append)
  next
    case False
    then have y: "keyf y = j" "vec_get vec (idf y) = Some y"
      using that t unfolding id_table_def by auto
    then have "unat (idf y) \<noteq> length vec" by (auto simp: vec_get_def)
    then show ?thesis using y room by (simp add: vec_get_append)
  qed
  ultimately show ?thesis using room by (simp add: id_table_def)
qed

lemma id_tableD:
  assumes "id_table idf keyf vec m"
  shows "m k = Some x \<Longrightarrow> keyf x = k" and "m k = Some x \<Longrightarrow> vec_get vec (idf x) = Some x"
    and "m k = Some x \<Longrightarrow> idf x \<noteq> 0"
    and "vec_get vec i = Some x \<Longrightarrow> idf x = i" and "vec_get vec i = Some x \<Longrightarrow> m (keyf x) = Some x"
    and "vec_get vec 0 = None" and "0 < length vec" and "length vec \<le> 4294967296"
  using assms unfolding id_table_def by (metis option.distinct(1))+

lemma id_table_key_inject:
  "id_table idf keyf vec m \<Longrightarrow> m k = Some x \<Longrightarrow> m l = Some y \<Longrightarrow> idf x = idf y \<longleftrightarrow> k = l"
  by (metis id_tableD(1,2) option.inject)

end
