(* ===== verification/Association_Mapper.thy ===== *)
theory Association_Mapper
  imports Ontology_Interface Id_Table "HOL-Library.AList"
begin

text \<open>
  The association mapper: the contract of the abstract class \<open>AssociationMapper\<close> as a locale, and
  the implementation kept in a file,
  \<open>monitoring/association_mapper/modules/FileAssociationMapper/FileAssociationMapper.cpp\<close>. The
  mapper attaches attribute values to processes and components, each value once, and numbers the
  strings that name remote instances.
\<close>

section \<open>The contract\<close>

text \<open>
  A value that was set once is never changed: setting an equal value is accepted, any other is
  refused. A string has one number, a number names one string. \<open>owned\<close> holds for the pairs of key
  and attribute the mapper itself has entered; \<open>free\<close> counts what is left of the ids.
\<close>

locale association_mapper =
  fixes set_attr :: "'s \<Rightarrow> 'k \<Rightarrow> OntologyAttribute \<Rightarrow> OntologyValue \<Rightarrow> unit result \<times> 's"
    and look_attr :: "'s \<Rightarrow> 'k \<Rightarrow> OntologyAttribute \<Rightarrow> OntologyValue result"
    and create :: "'s \<Rightarrow> string \<Rightarrow> AssociateID result \<times> 's"
    and look_inst :: "'s \<Rightarrow> AssociateID \<Rightarrow> string result"
    and valid :: "'s \<Rightarrow> bool"
    and free :: "'s \<Rightarrow> nat"
    and att_ok :: "OntologyAttribute \<Rightarrow> bool"
    and owned :: "'s \<Rightarrow> 'k \<Rightarrow> OntologyAttribute \<Rightarrow> bool"
  assumes set_step: "valid s \<Longrightarrow> 6 \<le> free s \<Longrightarrow> att_ok a \<Longrightarrow> set_attr s k a v = (ru, s') \<Longrightarrow>
      valid s' \<and> free s \<le> free s' + 6 \<and>
      (\<forall>k' a' w. att_ok a' \<longrightarrow> look_attr s k' a' = Inr w \<longrightarrow> look_attr s' k' a' = Inr w) \<and>
      (\<forall>k' a'. owned s k' a' \<longrightarrow> owned s' k' a') \<and>
      (\<forall>i w. look_inst s i = Inr w \<longrightarrow> look_inst s' i = Inr w)"
    and set_done: "valid s \<Longrightarrow> 6 \<le> free s \<Longrightarrow> att_ok a \<Longrightarrow> set_attr s k a v = (Inr (), s') \<Longrightarrow>
      owned s' k a \<and> (\<exists>w. look_attr s' k a = Inr w \<and> (w = v \<or> vd_eq v w))"
    and set_known: "valid s \<Longrightarrow> att_ok a \<Longrightarrow> owned s k a \<Longrightarrow> look_attr s k a = Inr w \<Longrightarrow>
      if vd_eq v w then set_attr s k a v = (Inr (), s)
      else \<exists>m. set_attr s k a v = (Inl (IllegalStateError m), s)"
    and create_step: "valid s \<Longrightarrow> 6 \<le> free s \<Longrightarrow> x \<noteq> [] \<Longrightarrow>
      \<exists>i s'. create s x = (Inr i, s') \<and> valid s' \<and> free s \<le> free s' + 6 \<and> i \<noteq> 0 \<and> look_inst s' i = Inr x \<and>
        (\<forall>k' a' w. att_ok a' \<longrightarrow> look_attr s k' a' = Inr w \<longrightarrow> look_attr s' k' a' = Inr w) \<and>
        (\<forall>k' a'. owned s k' a' \<longrightarrow> owned s' k' a') \<and>
        (\<forall>j w. look_inst s j = Inr w \<longrightarrow> look_inst s' j = Inr w)"
    and create_known: "valid s \<Longrightarrow> x \<noteq> [] \<Longrightarrow> look_inst s i = Inr x \<Longrightarrow> create s x = (Inr i, s)"
begin

text \<open>A sequence of calls and what they return: \<open>Inl\<close> for a set, \<open>Inr\<close> for a creation.\<close>

fun am_run :: "'s \<Rightarrow> ('k \<times> OntologyAttribute \<times> OntologyValue + string) list \<Rightarrow>
    (unit result + AssociateID result) list \<times> 's" where
  "am_run s [] = ([], s)"
| "am_run s (Inl (k, a, v) # ops) =
     (case set_attr s k a v of (r, s1) \<Rightarrow> case am_run s1 ops of (rs, s2) \<Rightarrow> (Inl r # rs, s2))"
| "am_run s (Inr x # ops) =
     (case create s x of (r, s1) \<Rightarrow> case am_run s1 ops of (rs, s2) \<Rightarrow> (Inr r # rs, s2))"

definition op_ok :: "('k \<times> OntologyAttribute \<times> OntologyValue + string) \<Rightarrow> bool" where
  "op_ok q = (case q of Inl (k, a, v) \<Rightarrow> att_ok a | Inr x \<Rightarrow> x \<noteq> [])"

lemma am_run_step:
  assumes "valid s" and "6 \<le> free s" and "op_ok q"
  obtains r s1 where "\<And>ops. am_run s (q # ops) = (case am_run s1 ops of (rs, s2) \<Rightarrow> (r # rs, s2))"
    "valid s1" "free s \<le> free s1 + 6"
    "\<And>k a w. att_ok a \<Longrightarrow> look_attr s k a = Inr w \<Longrightarrow> look_attr s1 k a = Inr w"
    "\<And>k a. owned s k a \<Longrightarrow> owned s1 k a" "\<And>i w. look_inst s i = Inr w \<Longrightarrow> look_inst s1 i = Inr w"
    "\<And>k a v. q = Inl (k, a, v) \<Longrightarrow> r = Inl (fst (set_attr s k a v))"
    "\<And>x. q = Inr x \<Longrightarrow> \<exists>i. r = Inr (Inr i) \<and> i \<noteq> 0 \<and> look_inst s1 i = Inr x"
proof (cases q)
  case (Inl q')
  obtain k a v where q: "q = Inl (k, a, v)" using Inl by (cases q') simp
  obtain ru s1 where e: "set_attr s k a v = (ru, s1)" by fastforce
  have "att_ok a" using assms(3) q by (simp add: op_ok_def)
  note st = set_step [OF assms(1,2) this e]
  show thesis by (rule that [of "Inl ru" s1]) (use st e q in auto)
next
  case (Inr x)
  then have "x \<noteq> []" using assms(3) by (simp add: op_ok_def)
  from create_step [OF assms(1,2) this] obtain i s1 where e: "create s x = (Inr i, s1)" and st: "valid s1"
      "free s \<le> free s1 + 6" "i \<noteq> 0" "look_inst s1 i = Inr x"
      "\<forall>k' a' w. att_ok a' \<longrightarrow> look_attr s k' a' = Inr w \<longrightarrow> look_attr s1 k' a' = Inr w"
      "\<forall>k' a'. owned s k' a' \<longrightarrow> owned s1 k' a'" "\<forall>j w. look_inst s j = Inr w \<longrightarrow> look_inst s1 j = Inr w"
    by blast
  show thesis by (rule that [of "Inr (Inr i)" s1]) (use st e Inr in auto)
qed

text \<open>Once set, a value and its key are stable, and every later set of the key is answered by comparison.\<close>

lemma am_run_stable:
  assumes "valid s" and "6 * length ops \<le> free s" and "list_all op_ok ops" and "att_ok a"
    and "owned s k a" and "look_attr s k a = Inr w" and "am_run s ops = (rs, s')"
  shows "look_attr s' k a = Inr w \<and>
    (\<forall>j v. j < length ops \<and> ops ! j = Inl (k, a, v) \<longrightarrow> 
       (if vd_eq v w then rs ! j = Inl (Inr ()) else \<exists>m. rs ! j = Inl (Inl (IllegalStateError m))))"
  using assms
proof (induction ops arbitrary: s rs)
  case Nil
  then show ?case by simp
next
  case (Cons q ops)
  have "valid s" "6 \<le> free s" "op_ok q" using Cons.prems by simp_all
  then obtain r s1 where r: "\<And>ops. am_run s (q # ops) = (case am_run s1 ops of (rs, s2) \<Rightarrow> (r # rs, s2))"
    and s1: "valid s1" "free s \<le> free s1 + 6"
    and kept: "\<And>k a w. att_ok a \<Longrightarrow> look_attr s k a = Inr w \<Longrightarrow> look_attr s1 k a = Inr w"
      "\<And>k a. owned s k a \<Longrightarrow> owned s1 k a"
    and res: "\<And>k a v. q = Inl (k, a, v) \<Longrightarrow> r = Inl (fst (set_attr s k a v))"
    by (rule am_run_step) blast
  obtain rs1 where rs1: "am_run s1 ops = (rs1, s')" and rs: "rs = r # rs1"
    using Cons.prems(7) r [of ops] by (auto split: prod.splits)
  have IH: "look_attr s' k a = Inr w \<and>
    (\<forall>j v. j < length ops \<and> ops ! j = Inl (k, a, v) \<longrightarrow> 
       (if vd_eq v w then rs1 ! j = Inl (Inr ()) else \<exists>m. rs1 ! j = Inl (Inl (IllegalStateError m))))"
    by (rule Cons.IH [OF s1(1) _ _ Cons.prems(4) kept(2) [OF Cons.prems(5)]
          kept(1) [OF Cons.prems(4,6)] rs1]) (use Cons.prems s1 in auto)
  have "if vd_eq v w then r = Inl (Inr ()) else \<exists>m. r = Inl (Inl (IllegalStateError m))" if "q = Inl (k, a, v)" for v
    using set_known [OF Cons.prems(1,4,5,6), of v] res [OF that] by (auto split: if_splits)
  then show ?case using IH unfolding rs
    by (auto simp: nth_Cons split: nat.splits)
qed

text \<open>Numbers of instances: they stay, and they are in bijection with the strings.\<close>

lemma am_run_instances:
  assumes "valid s" and "6 * length ops \<le> free s" and "list_all op_ok ops" and "am_run s ops = (rs, s')"
  shows "valid s' \<and> length rs = length ops \<and> (\<forall>i w. look_inst s i = Inr w \<longrightarrow> look_inst s' i = Inr w) \<and>
    (\<forall>j x. j < length ops \<and> ops ! j = Inr x \<longrightarrow>
       (\<exists>i. rs ! j = Inr (Inr i) \<and> i \<noteq> 0 \<and> look_inst s' i = Inr x))"
  using assms
proof (induction ops arbitrary: s rs)
  case Nil
  then show ?case by simp
next
  case (Cons q ops)
  have "valid s" "6 \<le> free s" "op_ok q" using Cons.prems by simp_all
  then obtain r s1 where r: "\<And>ops. am_run s (q # ops) = (case am_run s1 ops of (rs, s2) \<Rightarrow> (r # rs, s2))"
    and s1: "valid s1" "free s \<le> free s1 + 6"
    and kept: "\<And>i w. look_inst s i = Inr w \<Longrightarrow> look_inst s1 i = Inr w"
    and res: "\<And>x. q = Inr x \<Longrightarrow> \<exists>i. r = Inr (Inr i) \<and> i \<noteq> 0 \<and> look_inst s1 i = Inr x"
    by (rule am_run_step) blast
  obtain rs1 where rs1: "am_run s1 ops = (rs1, s')" and rs: "rs = r # rs1"
    using Cons.prems(4) r [of ops] by (auto split: prod.splits)
  have IH: "valid s' \<and> length rs1 = length ops \<and> (\<forall>i w. look_inst s1 i = Inr w \<longrightarrow> look_inst s' i = Inr w) \<and>
    (\<forall>j x. j < length ops \<and> ops ! j = Inr x \<longrightarrow>
       (\<exists>i. rs1 ! j = Inr (Inr i) \<and> i \<noteq> 0 \<and> look_inst s' i = Inr x))"
    by (rule Cons.IH [OF s1(1) _ _ rs1]) (use Cons.prems s1 in auto)
  then show ?case using kept res unfolding rs by (auto simp: nth_Cons split: nat.splits)
qed

lemma am_run_numbering:
  assumes "valid s" and "6 * length ops \<le> free s" and "list_all op_ok ops" and "am_run s ops = (rs, s')"
    and "p < length ops" "ops ! p = Inr x" and "q < length ops" "ops ! q = Inr y"
  shows "rs ! p = rs ! q \<longleftrightarrow> x = y"
proof -
  note inst = am_run_instances [OF assms(1-4)]
  obtain i where i: "rs ! p = Inr (Inr i)" "look_inst s' i = Inr x" using inst assms(5,6) by blast
  obtain j where j: "rs ! q = Inr (Inr j)" "look_inst s' j = Inr y" using inst assms(7,8) by blast
  have "x \<noteq> []" using assms(3,5,6) by (auto simp: list_all_length op_ok_def)
  then have "create s' x = (Inr i, s')" using create_known inst i by blast
  moreover have "x = y \<Longrightarrow> create s' x = (Inr j, s')" using create_known inst j \<open>x \<noteq> []\<close> by blast
  ultimately show ?thesis using i j by auto
qed

end

section \<open>The file association mapper\<close>

record AttributeIDsAndValues =
  iv_ids :: "OntologyAttributeID list"
  iv_values :: "OntologyValue list"

type_synonym 'k attribute_map = "('k \<times> AttributeIDsAndValues) list"

record FileAssociationMapper =
  fm_lastID :: AssociateID
  fm_map_processAttributes :: "ProcessID attribute_map"
  fm_map_componentAttributes :: "ComponentID attribute_map"
  fm_map_str_aid :: "string \<rightharpoonup> AssociateID"
  fm_vector_aid_str :: "string list"

definition FileAssociationMapper_new :: FileAssociationMapper where
  "FileAssociationMapper_new =
     \<lparr>fm_lastID = 1, fm_map_processAttributes = [], fm_map_componentAttributes = [],
      fm_map_str_aid = Map.empty, fm_vector_aid_str = []\<rparr>"

text \<open>
  The archive presents the four members in the order they are written. A member that cannot be
  read to its end is \<open>Broken\<close>, with what the object holds when the exception is thrown.
\<close>

datatype 'a field = Read 'a | Broken 'a

datatype association_file =
  NoAssociations
| Associations "AssociateID field" "string list field" "ProcessID attribute_map field" "ComponentID attribute_map field"

text \<open>The \<open>serialize\<close> function of an entry throws when its vectors differ in length.\<close>

definition iv_sizes_agree :: "'k \<times> AttributeIDsAndValues \<Rightarrow> bool" where
  "iv_sizes_agree e \<longleftrightarrow> length (iv_ids (snd e)) = length (iv_values (snd e))"

definition archive_map :: "'k attribute_map \<Rightarrow> 'k attribute_map field" where
  "archive_map m = (if list_all iv_sizes_agree m then Read m else Broken (takeWhile iv_sizes_agree m))"

definition unarchive_map :: "'k attribute_map field \<Rightarrow> 'k attribute_map field" where
  "unarchive_map f = (case f of Broken m \<Rightarrow> Broken (takeWhile iv_sizes_agree m) | Read m \<Rightarrow> archive_map m)"

text \<open>The maps of the source are ordered by key.\<close>

definition fm_save :: "FileAssociationMapper \<Rightarrow> association_file" where
  "fm_save fm =
     Associations (Read (fm_lastID fm)) (Read (fm_vector_aid_str fm))
       (archive_map (sort_key fst (fm_map_processAttributes fm)))
       (if list_all iv_sizes_agree (fm_map_processAttributes fm)
        then archive_map (sort_key fst (fm_map_componentAttributes fm)) else Broken [])"

fun number_strings :: "string list \<Rightarrow> AssociateID \<Rightarrow> (string \<rightharpoonup> AssociateID) \<Rightarrow> (string \<rightharpoonup> AssociateID)" where
  "number_strings [] i m = m"
| "number_strings (x # xs) i m = number_strings xs (i + 1) (m(x \<mapsto> i + 1))"

text \<open>An exception of the archive leaves \<open>load\<close> before the loop and is caught by \<open>init\<close>.\<close>

definition fm_load :: "FileAssociationMapper \<Rightarrow> association_file \<Rightarrow> FileAssociationMapper" where
  "fm_load fm file =
     (case file of
        NoAssociations \<Rightarrow> fm
      | Associations (Broken i) strs ps cs \<Rightarrow> fm \<lparr>fm_lastID := i\<rparr>
      | Associations (Read i) (Broken strs) ps cs \<Rightarrow> fm \<lparr>fm_lastID := i, fm_vector_aid_str := strs\<rparr>
      | Associations (Read i) (Read strs) ps cs \<Rightarrow>
          let fm1 = fm \<lparr>fm_lastID := i, fm_vector_aid_str := strs\<rparr>
          in (case unarchive_map ps of
                Broken m \<Rightarrow> fm1 \<lparr>fm_map_processAttributes := m\<rparr>
              | Read m \<Rightarrow>
                  let fm2 = fm1 \<lparr>fm_map_processAttributes := m\<rparr>
                  in (case unarchive_map cs of
                        Broken m' \<Rightarrow> fm2 \<lparr>fm_map_componentAttributes := m'\<rparr>
                      | Read m' \<Rightarrow> fm2 \<lparr>fm_map_componentAttributes := m',
                                       fm_map_str_aid := number_strings strs 0 (fm_map_str_aid fm2)\<rparr>)))"

subsection \<open>Attributes\<close>

text \<open>The loops over the ids; \<open>values[which]\<close> outside of the vector is undefined.\<close>

definition value_at :: "OntologyValue list \<Rightarrow> nat \<Rightarrow> OntologyValue outcome" where
  "value_at vs i = (if i < length vs then Inr (vs ! i) else Inl (Undefined ''values[which]''))"

definition fm_set_attribute ::
  "AttributeIDsAndValues \<Rightarrow> OntologyAttribute \<Rightarrow> OntologyValue \<Rightarrow> (bool \<times> AttributeIDsAndValues) outcome" where
  "fm_set_attribute av att value =
     (case index_of (oa_aID att) (iv_ids av) of
        Some which \<Rightarrow> bindr (value_at (iv_values av) which) (\<lambda>old. Inr (vd_eq value old, av))
      | None \<Rightarrow> Inr (True, av \<lparr>iv_ids := iv_ids av @ [oa_aID att], iv_values := iv_values av @ [value]\<rparr>))"

definition fm_lookup_attribute :: "AttributeIDsAndValues \<Rightarrow> OntologyAttribute \<Rightarrow> OntologyValue option outcome" where
  "fm_lookup_attribute av att =
     (case index_of (oa_aID att) (iv_ids av) of
        Some which \<Rightarrow> bindr (value_at (iv_values av) which) (\<lambda>v. Inr (Some v))
      | None \<Rightarrow> Inr None)"

definition lookup_in_map :: "'k attribute_map \<Rightarrow> 'k \<Rightarrow> OntologyAttribute \<Rightarrow> OntologyValue result" where
  "lookup_in_map m key att =
     (case map_of m key of
        None \<Rightarrow> Inl (NotFoundError '''')
      | Some av \<Rightarrow>
          (case fm_lookup_attribute av att of
             Inl f \<Rightarrow> Inl (Fatal f)
           | Inr None \<Rightarrow> Inl (NotFoundError '''')
           | Inr (Some v) \<Rightarrow> Inr v))"

definition set_in_map ::
  "'k attribute_map \<Rightarrow> 'k \<Rightarrow> OntologyAttribute \<Rightarrow> OntologyValue \<Rightarrow> unit result \<times> 'k attribute_map" where
  "set_in_map m key att value =
     (let av = (case map_of m key of Some av \<Rightarrow> av | None \<Rightarrow> \<lparr>iv_ids = [], iv_values = []\<rparr>)
      in case fm_set_attribute av att value of
           Inl f \<Rightarrow> (Inl (Fatal f), m)
         | Inr (ret, av') \<Rightarrow>
             (if ret then Inr () else Inl (IllegalStateError ''Value exists already!''), AList.update key av' m))"

definition fm_lookup_process_attribute :: "FileAssociationMapper \<Rightarrow> ProcessID \<Rightarrow> OntologyAttribute \<Rightarrow> OntologyValue result" where
  "fm_lookup_process_attribute fm pid att = lookup_in_map (fm_map_processAttributes fm) pid att"

definition fm_set_process_attribute ::
  "FileAssociationMapper \<Rightarrow> ProcessID \<Rightarrow> OntologyAttribute \<Rightarrow> OntologyValue \<Rightarrow> unit result \<times> FileAssociationMapper" where
  "fm_set_process_attribute fm pid att value =
     (case set_in_map (fm_map_processAttributes fm) pid att value of
        (r, m) \<Rightarrow> (r, fm \<lparr>fm_map_processAttributes := m\<rparr>))"

definition fm_set_component_attribute ::
  "FileAssociationMapper \<Rightarrow> ComponentID \<Rightarrow> OntologyAttribute \<Rightarrow> OntologyValue \<Rightarrow> unit result \<times> FileAssociationMapper" where
  "fm_set_component_attribute fm cid att value =
     (case set_in_map (fm_map_componentAttributes fm) cid att value of
        (r, m) \<Rightarrow> (r, fm \<lparr>fm_map_componentAttributes := m\<rparr>))"

definition fm_lookup_component_attribute ::
  "FileAssociationMapper \<Rightarrow> ComponentID \<Rightarrow> OntologyAttribute \<Rightarrow> OntologyValue result" where
  "fm_lookup_component_attribute fm cid att = lookup_in_map (fm_map_componentAttributes fm) cid att"

subsection \<open>Instances\<close>

text \<open>\<open>map_str_aid[value]\<close> is 0 for a string that is not in the map.\<close>

definition fm_create_instance_mapping ::
  "FileAssociationMapper \<Rightarrow> string \<Rightarrow> AssociateID result \<times> FileAssociationMapper" where
  "fm_create_instance_mapping fm value =
     (if value = [] then (Inl (Fatal (Abort ''value.size() > 0'')), fm)
      else
        let known = (case fm_map_str_aid fm value of Some i \<Rightarrow> i | None \<Rightarrow> 0)
        in if known \<noteq> 0 then (Inr known, fm)
           else (Inr (fm_lastID fm),
                 fm \<lparr>fm_lastID := fm_lastID fm + 1, fm_map_str_aid := (fm_map_str_aid fm)(value \<mapsto> fm_lastID fm),
                     fm_vector_aid_str := fm_vector_aid_str fm @ [value]\<rparr>))"

text \<open>The index \<open>id - 1\<close> is computed in 32 bits and the vector is read without a check.\<close>

definition fm_lookup_instance_mapping :: "FileAssociationMapper \<Rightarrow> AssociateID \<Rightarrow> string result" where
  "fm_lookup_instance_mapping fm aid =
     (if length (fm_vector_aid_str fm) < unat aid then Inl (NotFoundError '''')
      else if unat (aid - 1) < length (fm_vector_aid_str fm) then Inr (fm_vector_aid_str fm ! unat (aid - 1))
      else Inl (Fatal (Undefined ''vector_aid_str[id - 1]'')))"

subsection \<open>The invariant\<close>

definition iv_ok :: "AttributeIDsAndValues \<Rightarrow> bool" where
  "iv_ok av \<longleftrightarrow> length (iv_values av) = length (iv_ids av) \<and> distinct (iv_ids av)"

definition amap_ok :: "'k attribute_map \<Rightarrow> bool" where
  "amap_ok m \<longleftrightarrow> distinct (map fst m) \<and> (\<forall>e\<in>set m. iv_ok (snd e))"

definition instances_ok :: "FileAssociationMapper \<Rightarrow> bool" where
  "instances_ok fm \<longleftrightarrow> distinct (fm_vector_aid_str fm) \<and> [] \<notin> set (fm_vector_aid_str fm) \<and>
     unat (fm_lastID fm) = Suc (length (fm_vector_aid_str fm)) \<and>
     (\<forall>x i. fm_map_str_aid fm x = Some i \<longleftrightarrow>
        (\<exists>j < length (fm_vector_aid_str fm). fm_vector_aid_str fm ! j = x \<and> i = of_nat (Suc j)))"

definition fm_inv :: "FileAssociationMapper \<Rightarrow> bool" where
  "fm_inv fm \<longleftrightarrow> amap_ok (fm_map_processAttributes fm) \<and> amap_ok (fm_map_componentAttributes fm) \<and> instances_ok fm"

definition fm_free :: "FileAssociationMapper \<Rightarrow> nat" where
  "fm_free fm = 4294967295 - unat (fm_lastID fm)"

lemma fm_inv_new [siox_inv]: "fm_inv FileAssociationMapper_new"
  by (simp add: fm_inv_def amap_ok_def instances_ok_def FileAssociationMapper_new_def)

lemma amap_okD: "amap_ok m \<Longrightarrow> map_of m k = Some av \<Longrightarrow> iv_ok av"
  by (auto simp: amap_ok_def dest: map_of_SomeD)

lemma amap_ok_update: "amap_ok m \<Longrightarrow> iv_ok av \<Longrightarrow> amap_ok (AList.update k av m)"
  unfolding amap_ok_def by (metis (no_types, lifting) AList.distinct_update AList.update_conv'
      distinct_update map_of_eq_Some_iff fun_upd_apply prod.collapse snd_conv option.inject)

lemma fm_lookup_attribute_spec:
  assumes "iv_ok av"
  shows "fm_lookup_attribute av a = Inr (map_option ((!) (iv_values av)) (index_of (oa_aID a) (iv_ids av)))"
  using assms index_of_Some [of "oa_aID a" "iv_ids av"]
  by (auto simp: fm_lookup_attribute_def value_at_def iv_ok_def split: option.splits)

lemma fm_set_attribute_spec:
  assumes "iv_ok av" and "fm_set_attribute av a v = Inr (ret, av')"
  shows "iv_ok av'"
    and "fm_lookup_attribute av a = Inr (Some w) \<Longrightarrow> av' = av \<and> ret = vd_eq v w"
    and "fm_lookup_attribute av a = Inr None \<Longrightarrow> ret \<and> fm_lookup_attribute av' a = Inr (Some v)"
    and "oa_aID b \<noteq> oa_aID a \<Longrightarrow> fm_lookup_attribute av' b = fm_lookup_attribute av b"
proof -
  show ok: "iv_ok av'" using assms
    by (auto simp: fm_set_attribute_def value_at_def iv_ok_def index_of_None split: option.splits if_splits)
  show "fm_lookup_attribute av a = Inr (Some w) \<Longrightarrow> av' = av \<and> ret = vd_eq v w"
    using assms by (auto simp: fm_set_attribute_def fm_lookup_attribute_def value_at_def split: option.splits if_splits)
  show "fm_lookup_attribute av a = Inr None \<Longrightarrow> ret \<and> fm_lookup_attribute av' a = Inr (Some v)"
    using assms unfolding fm_lookup_attribute_spec [OF assms(1)] fm_lookup_attribute_spec [OF ok]
    by (auto simp: fm_set_attribute_def iv_ok_def index_of_append1 index_of_None [symmetric] nth_append)
  show "oa_aID b \<noteq> oa_aID a \<Longrightarrow> fm_lookup_attribute av' b = fm_lookup_attribute av b"
    using assms index_of_Some [of "oa_aID b" "iv_ids av"] index_of_None [of "oa_aID b" "iv_ids av"]
    unfolding fm_lookup_attribute_spec [OF assms(1)] fm_lookup_attribute_spec [OF ok]
    by (auto simp: fm_set_attribute_def value_at_def iv_ok_def index_of_append1 nth_append
        split: option.splits if_splits)
qed

lemma fm_set_attribute_total: "iv_ok av \<Longrightarrow> \<exists>ret av'. fm_set_attribute av a v = Inr (ret, av')"
  using index_of_Some [of "oa_aID a" "iv_ids av"]
  by (auto simp: fm_set_attribute_def value_at_def iv_ok_def split: option.splits)

text \<open>One map: every branch of a set and its effect on all lookups.\<close>

lemma lookup_in_map_simp:
  "amap_ok m \<Longrightarrow> lookup_in_map m k a =
     (case map_of m k of None \<Rightarrow> Inl (NotFoundError '''') | Some av \<Rightarrow>
        (case index_of (oa_aID a) (iv_ids av) of None \<Rightarrow> Inl (NotFoundError '''') | Some i \<Rightarrow> Inr (iv_values av ! i)))"
  using amap_okD [of m k]
  by (auto simp: lookup_in_map_def fm_lookup_attribute_spec split: option.splits)

lemma set_in_map_spec:
  assumes "amap_ok m" and "set_in_map m k a v = (r, m')"
  shows "amap_ok m'"
    and "lookup_in_map m k a = Inr w \<Longrightarrow>
      m' = m \<and> r = (if vd_eq v w then Inr () else Inl (IllegalStateError ''Value exists already!''))"
    and "lookup_in_map m k a = Inl e \<Longrightarrow> r = Inr () \<and> lookup_in_map m' k a = Inr v"
    and "(k', oa_aID b) \<noteq> (k, oa_aID a) \<Longrightarrow> lookup_in_map m' k' b = lookup_in_map m k' b"
proof -
  let ?av = "case map_of m k of Some av \<Rightarrow> av | None \<Rightarrow> \<lparr>iv_ids = [], iv_values = []\<rparr>"
  have av: "iv_ok ?av" using amap_okD [OF assms(1)] by (auto simp: iv_ok_def split: option.splits)
  then obtain ret av' where set: "fm_set_attribute ?av a v = Inr (ret, av')"
    using fm_set_attribute_total by blast
  have r: "r = (if ret then Inr () else Inl (IllegalStateError ''Value exists already!''))"
    and m': "m' = AList.update k av' m"
    using assms(2) set by (auto simp: set_in_map_def split: option.splits)
  note spec = fm_set_attribute_spec [OF av set]
  show ok: "amap_ok m'" unfolding m' by (rule amap_ok_update [OF assms(1) spec(1)])
  have none: "map_of m k = None \<Longrightarrow> fm_lookup_attribute ?av b = Inr None" for b
    by (simp add: fm_lookup_attribute_def)
  show "m' = m \<and> r = (if vd_eq v w then Inr () else Inl (IllegalStateError ''Value exists already!''))"
    if "lookup_in_map m k a = Inr w"
    using that spec(2) [of w] r by (auto simp: lookup_in_map_def m' AList.update_triv split: option.splits sum.splits)
  show "r = Inr () \<and> lookup_in_map m' k a = Inr v" if "lookup_in_map m k a = Inl e"
    using that spec(3) r fm_lookup_attribute_spec [OF av, of a] none [of a]
    by (auto simp: lookup_in_map_def m' AList.update_conv' split: option.splits sum.splits)
  show "lookup_in_map m' k' b = lookup_in_map m k' b" if "(k', oa_aID b) \<noteq> (k, oa_aID a)"
    using that spec(4) [of b] none [of b]
    by (auto simp: lookup_in_map_def m' AList.update_conv' split: option.splits sum.splits)
qed

text \<open>Keys of either kind, so that sets of both maps can be mixed.\<close>

definition fm_set :: "FileAssociationMapper \<Rightarrow> ProcessID + ComponentID \<Rightarrow> OntologyAttribute \<Rightarrow> OntologyValue \<Rightarrow>
    unit result \<times> FileAssociationMapper" where
  "fm_set fm k a v = (case k of Inl pid \<Rightarrow> fm_set_process_attribute fm pid a v
     | Inr cid \<Rightarrow> fm_set_component_attribute fm cid a v)"

definition fm_look :: "FileAssociationMapper \<Rightarrow> ProcessID + ComponentID \<Rightarrow> OntologyAttribute \<Rightarrow> OntologyValue result" where
  "fm_look fm k a = (case k of Inl pid \<Rightarrow> fm_lookup_process_attribute fm pid a
     | Inr cid \<Rightarrow> fm_lookup_component_attribute fm cid a)"

lemmas fm_ops_defs = fm_set_def fm_look_def fm_set_process_attribute_def fm_set_component_attribute_def
  fm_lookup_process_attribute_def fm_lookup_component_attribute_def

lemma fm_set_law:
  assumes "fm_inv s" and "fm_set s k a v = (r, s')"
  shows "fm_inv s'" and "fm_free s' = fm_free s" and "fm_lookup_instance_mapping s' = fm_lookup_instance_mapping s"
    and "fm_look s k a = Inr w \<Longrightarrow>
      s' = s \<and> r = (if vd_eq v w then Inr () else Inl (IllegalStateError ''Value exists already!''))"
    and "fm_look s k a = Inl e \<Longrightarrow> r = Inr () \<and> fm_look s' k a = Inr v"
    and "(k', oa_aID b) \<noteq> (k, oa_aID a) \<Longrightarrow> fm_look s' k' b = fm_look s k' b"
proof -
  have inv: "amap_ok (fm_map_processAttributes s)" "amap_ok (fm_map_componentAttributes s)" "instances_ok s"
    using assms(1) by (simp_all add: fm_inv_def)
  have "fm_inv s' \<and> fm_free s' = fm_free s \<and> fm_lookup_instance_mapping s' = fm_lookup_instance_mapping s \<and>
    (\<forall>w. fm_look s k a = Inr w \<longrightarrow>
      s' = s \<and> r = (if vd_eq v w then Inr () else Inl (IllegalStateError ''Value exists already!''))) \<and>
    (\<forall>e. fm_look s k a = Inl e \<longrightarrow> r = Inr () \<and> fm_look s' k a = Inr v) \<and>
    (\<forall>k' b. (k', oa_aID b) \<noteq> (k, oa_aID a) \<longrightarrow> fm_look s' k' b = fm_look s k' b)"
  proof (cases k)
    case (Inl pid)
    obtain m' where "set_in_map (fm_map_processAttributes s) pid a v = (r, m')"
      and s': "s' = s \<lparr>fm_map_processAttributes := m'\<rparr>"
      using assms(2) Inl by (auto simp: fm_ops_defs split: prod.splits)
    note spec = set_in_map_spec [OF inv(1) this(1)]
    show ?thesis using inv spec unfolding s'
      by (auto simp: Inl fm_inv_def instances_ok_def fm_free_def fm_lookup_instance_mapping_def fm_ops_defs
          fun_eq_iff split: sum.splits)
  next
    case (Inr cid)
    obtain m' where "set_in_map (fm_map_componentAttributes s) cid a v = (r, m')"
      and s': "s' = s \<lparr>fm_map_componentAttributes := m'\<rparr>"
      using assms(2) Inr by (auto simp: fm_ops_defs split: prod.splits)
    note spec = set_in_map_spec [OF inv(2) this(1)]
    show ?thesis using inv spec unfolding s'
      by (auto simp: Inr fm_inv_def instances_ok_def fm_free_def fm_lookup_instance_mapping_def fm_ops_defs
          fun_eq_iff split: sum.splits)
  qed
  then show "fm_inv s'" "fm_free s' = fm_free s" "fm_lookup_instance_mapping s' = fm_lookup_instance_mapping s"
    "fm_look s k a = Inr w \<Longrightarrow>
      s' = s \<and> r = (if vd_eq v w then Inr () else Inl (IllegalStateError ''Value exists already!''))"
    "fm_look s k a = Inl e \<Longrightarrow> r = Inr () \<and> fm_look s' k a = Inr v"
    "(k', oa_aID b) \<noteq> (k, oa_aID a) \<Longrightarrow> fm_look s' k' b = fm_look s k' b" by blast+
qed

lemma fm_lookup_instance_Inr:
  assumes "instances_ok fm"
  shows "fm_lookup_instance_mapping fm i = Inr x \<longleftrightarrow>
    (\<exists>j < length (fm_vector_aid_str fm). fm_vector_aid_str fm ! j = x \<and> i = of_nat (Suc j))"
proof -
  let ?n = "length (fm_vector_aid_str fm)"
  have n: "Suc ?n < 4294967296"
    using assms unat_lt_2p32 [of "fm_lastID fm"] by (simp add: instances_ok_def)
  have pred: "unat (i - 1) = unat i - 1" if "i \<noteq> 0" using that
    by (metis unat_minus_one)
  have zero: "unat ((0 :: u32) - 1) = 4294967295" by (simp add: unsigned_minus_1_eq_mask mask_eq_exp_minus_1)
  have "(\<exists>j < ?n. fm_vector_aid_str fm ! j = x \<and> i = of_nat (Suc j)) \<longleftrightarrow>
      i \<noteq> 0 \<and> unat i \<le> ?n \<and> fm_vector_aid_str fm ! (unat i - 1) = x"
  proof
    assume "\<exists>j < ?n. fm_vector_aid_str fm ! j = x \<and> i = of_nat (Suc j)"
    then obtain j where j: "j < ?n" "fm_vector_aid_str fm ! j = x" "i = of_nat (Suc j)" by blast
    then have "unat i = Suc j" using n by (simp only: unat_of_nat32)
    then show "i \<noteq> 0 \<and> unat i \<le> ?n \<and> fm_vector_aid_str fm ! (unat i - 1) = x" using j by auto
  next
    assume r: "i \<noteq> 0 \<and> unat i \<le> ?n \<and> fm_vector_aid_str fm ! (unat i - 1) = x"
    then have p: "0 < unat i" by (metis unat_eq_0_iff neq0_conv)
    show "\<exists>j < ?n. fm_vector_aid_str fm ! j = x \<and> i = of_nat (Suc j)"
      by (rule exI [of _ "unat i - 1"]) (use r p in auto)
  qed
  then show ?thesis using pred zero n unfolding fm_lookup_instance_mapping_def
    by (cases "i = 0") auto
qed

lemma fm_map_str_aid_Inr:
  "instances_ok fm \<Longrightarrow> fm_map_str_aid fm x = Some i \<longleftrightarrow> fm_lookup_instance_mapping fm i = Inr x"
  by (simp add: fm_lookup_instance_Inr) (simp add: instances_ok_def)

lemma fm_lookup_instance_nonzero:
  assumes "instances_ok fm" and "fm_lookup_instance_mapping fm i = Inr x"
  shows "i \<noteq> 0"
proof -
  have "Suc (length (fm_vector_aid_str fm)) < 4294967296"
    using assms(1) unat_lt_2p32 [of "fm_lastID fm"] by (simp add: instances_ok_def)
  moreover obtain l where "l < length (fm_vector_aid_str fm)" "i = of_nat (Suc l)"
    using assms fm_lookup_instance_Inr by blast
  ultimately have "unat i = Suc l" by (simp only: unat_of_nat32)
  then show ?thesis by auto
qed

lemma fm_create_law:
  assumes "fm_inv s" and "0 < fm_free s" and "x \<noteq> []"
  shows "fm_lookup_instance_mapping s i = Inr x \<Longrightarrow> fm_create_instance_mapping s x = (Inr i, s)"
    and "\<exists>i s'. fm_create_instance_mapping s x = (Inr i, s') \<and> fm_inv s' \<and> fm_free s \<le> Suc (fm_free s') \<and>
      i \<noteq> 0 \<and> fm_lookup_instance_mapping s' i = Inr x \<and> fm_look s' = fm_look s \<and>
      (\<forall>j w. fm_lookup_instance_mapping s j = Inr w \<longrightarrow> fm_lookup_instance_mapping s' j = Inr w)"
proof -
  have ok: "instances_ok s" using assms(1) by (simp add: fm_inv_def)
  let ?n = "length (fm_vector_aid_str s)"
  have n: "unat (fm_lastID s) = Suc ?n" "Suc ?n < 4294967295" using ok assms(2) by (auto simp: instances_ok_def fm_free_def)
  note nz = fm_lookup_instance_nonzero [OF ok]
  show known: "fm_create_instance_mapping s x = (Inr i, s)" if "fm_lookup_instance_mapping s i = Inr x" for i
    using that nz [OF that] assms(3) fm_map_str_aid_Inr [OF ok, of x i] by (simp add: fm_create_instance_mapping_def)
  show "\<exists>i s'. fm_create_instance_mapping s x = (Inr i, s') \<and> fm_inv s' \<and> fm_free s \<le> Suc (fm_free s') \<and>
      i \<noteq> 0 \<and> fm_lookup_instance_mapping s' i = Inr x \<and> fm_look s' = fm_look s \<and>
      (\<forall>j w. fm_lookup_instance_mapping s j = Inr w \<longrightarrow> fm_lookup_instance_mapping s' j = Inr w)"
  proof (cases "fm_map_str_aid s x")
    case (Some i)
    then have i: "fm_lookup_instance_mapping s i = Inr x" using fm_map_str_aid_Inr [OF ok] by blast
    show ?thesis
      by (rule exI [of _ i], rule exI [of _ s]) (use known [OF i] nz [OF i] i assms in simp)
  next
    case None
    let ?s = "s \<lparr>fm_lastID := fm_lastID s + 1, fm_map_str_aid := (fm_map_str_aid s)(x \<mapsto> fm_lastID s),
        fm_vector_aid_str := fm_vector_aid_str s @ [x]\<rparr>"
    have new: "x \<notin> set (fm_vector_aid_str s)" using None ok unfolding instances_ok_def in_set_conv_nth
      by (metis option.distinct(1))
    have last: "fm_lastID s = of_nat (Suc ?n)" using n by (metis word_unat_eq_iff unat_of_nat32 unat_lt_2p32)
    have inc: "unat (fm_lastID s + 1) = Suc (Suc ?n)" using n by (simp add: unat_word_ariths)
    have ok': "instances_ok ?s" using ok new last inc assms(3)
      by (auto simp: instances_ok_def nth_append less_Suc_eq)
    then have "fm_inv ?s" using assms(1) by (simp add: fm_inv_def)
    moreover have "fm_lookup_instance_mapping ?s (fm_lastID s) = Inr x"
      unfolding fm_lookup_instance_Inr [OF ok'] by (rule exI [of _ ?n]) (use last in simp)
    moreover have "fm_lookup_instance_mapping ?s j = Inr w" if "fm_lookup_instance_mapping s j = Inr w" for j w
      using that unfolding fm_lookup_instance_Inr [OF ok'] fm_lookup_instance_Inr [OF ok]
      by (auto simp: nth_append intro: less_SucI)
    moreover have "fm_lastID s \<noteq> 0" using n by auto
    moreover have "fm_free s \<le> Suc (fm_free ?s)" using inc n by (simp add: fm_free_def)
    moreover have "fm_create_instance_mapping s x = (Inr (fm_lastID s), ?s)"
      using None assms(3) by (simp add: fm_create_instance_mapping_def)
    moreover have "fm_look ?s = fm_look s" by (simp add: fm_ops_defs fun_eq_iff split: sum.splits)
    ultimately show ?thesis by blast
  qed
qed

lemma fm_look_id: "oa_aID a = oa_aID b \<Longrightarrow> fm_look fm k a = fm_look fm k b"
  by (cases k) (simp_all add: fm_ops_defs lookup_in_map_def fm_lookup_attribute_def split: option.split)

interpretation fm: association_mapper fm_set fm_look fm_create_instance_mapping fm_lookup_instance_mapping
  fm_inv fm_free "\<lambda>a. True" "\<lambda>fm k a. True"
proof (unfold_locales, goal_cases)
  case (1 s a k v ru s')
  note law = fm_set_law [OF 1(1,4)]
  have "fm_look s' k' b = Inr w" if "fm_look s k' b = Inr w" for k' b w
    using law(4) [of w] law(6) [of k' b] that
      fm_look_id [of a b]
    by (cases "(k', oa_aID b) = (k, oa_aID a)") auto
  then show ?case using law(1-3) by simp
next
  case (2 s a k v s')
  note law = fm_set_law [OF 2(1,4)]
  show ?case
  proof (cases "fm_look s k a")
    case (Inl e)
    then show ?thesis using law(5) by simp
  next
    case (Inr w)
    then show ?thesis using law(4) [OF Inr] by (auto split: if_splits)
  qed
next
  case (3 s a k w v)
  obtain r s' where e: "fm_set s k a v = (r, s')" by fastforce
  then show ?case using fm_set_law(4) [OF 3(1) e 3(4)] by simp
next
  case (4 s x)
  then show ?case using fm_create_law(2) [of s x] by fastforce
next
  case (5 s x i)
  have "instances_ok s" using 5(1) by (simp add: fm_inv_def)
  then show ?case using 5 fm_map_str_aid_Inr [of s x i] fm_lookup_instance_nonzero by (auto simp: fm_create_instance_mapping_def)
qed

subsection \<open>Saving and loading\<close>

lemma option_eq_by_Some: "(\<And>x. a = Some x \<longleftrightarrow> b = Some x) \<Longrightarrow> a = b"
  by (cases a; cases b) auto

lemma map_of_sort_key: "distinct (map fst m) \<Longrightarrow> map_of (sort_key fst m) = map_of m"
  by (rule map_of_inject_set [THEN iffD2]) (simp_all add: distinct_map inj_on_def)

lemma amap_ok_sort: "amap_ok m \<Longrightarrow> amap_ok (sort_key fst m)"
  by (simp add: amap_ok_def distinct_map)

lemma archive_map_ok: "amap_ok m \<Longrightarrow> archive_map m = Read m \<and> unarchive_map (Read m) = Read m"
  by (auto simp: archive_map_def unarchive_map_def amap_ok_def iv_ok_def iv_sizes_agree_def list_all_iff)

lemma number_strings_spec:
  "distinct xs \<Longrightarrow> number_strings xs i m x = Some j \<longleftrightarrow>
     (\<exists>l < length xs. xs ! l = x \<and> j = i + of_nat (Suc l)) \<or> x \<notin> set xs \<and> m x = Some j"
proof (induction xs arbitrary: i m)
  case Nil
  then show ?case by simp
next
  case (Cons y ys)
  have split: "(\<exists>l < length (y # ys). (y # ys) ! l = x \<and> j = i + of_nat (Suc l)) \<longleftrightarrow>
      y = x \<and> j = i + 1 \<or> (\<exists>l < length ys. ys ! l = x \<and> j = i + 1 + of_nat (Suc l))"
    by (auto simp: Ex_less_Suc2 add_ac)
  show ?case unfolding split using Cons by (auto simp: in_set_conv_nth)
qed

lemma fm_load_save:
  assumes "fm_inv fm"
  shows "fm_load FileAssociationMapper_new (fm_save fm) =
    fm \<lparr>fm_map_processAttributes := sort_key fst (fm_map_processAttributes fm),
        fm_map_componentAttributes := sort_key fst (fm_map_componentAttributes fm)\<rparr>"
proof -
  have inv: "amap_ok (fm_map_processAttributes fm)" "amap_ok (fm_map_componentAttributes fm)" "instances_ok fm"
    using assms by (simp_all add: fm_inv_def)
  have sizes: "list_all iv_sizes_agree (fm_map_processAttributes fm)"
    using inv(1) by (auto simp: amap_ok_def iv_ok_def iv_sizes_agree_def list_all_iff)
  have "number_strings (fm_vector_aid_str fm) 0 Map.empty x = fm_map_str_aid fm x" for x
  proof -
    have "number_strings (fm_vector_aid_str fm) 0 Map.empty x = Some i \<longleftrightarrow> fm_map_str_aid fm x = Some i" for i
      using inv(3) number_strings_spec [of "fm_vector_aid_str fm" 0 Map.empty x i]
      by (simp add: instances_ok_def)
    then show ?thesis by (rule option_eq_by_Some)
  qed
  then have "number_strings (fm_vector_aid_str fm) 0 Map.empty = fm_map_str_aid fm" by auto
  then show ?thesis using sizes archive_map_ok [OF amap_ok_sort [OF inv(1)]] archive_map_ok [OF amap_ok_sort [OF inv(2)]]
    by (simp add: fm_save_def fm_load_def FileAssociationMapper_new_def Let_def)
qed

lemma fm_roundtrip:
  assumes "fm_inv fm"
  shows "fm_inv (fm_load FileAssociationMapper_new (fm_save fm))"
    and "fm_look (fm_load FileAssociationMapper_new (fm_save fm)) = fm_look fm"
proof -
  have inv: "amap_ok (fm_map_processAttributes fm)" "amap_ok (fm_map_componentAttributes fm)" "instances_ok fm"
    using assms by (simp_all add: fm_inv_def)
  show "fm_inv (fm_load FileAssociationMapper_new (fm_save fm))"
    using inv(3) amap_ok_sort [OF inv(1)] amap_ok_sort [OF inv(2)]
    by (simp add: fm_load_save [OF assms] fm_inv_def instances_ok_def)
  have "map_of (sort_key fst (fm_map_processAttributes fm)) = map_of (fm_map_processAttributes fm)"
    "map_of (sort_key fst (fm_map_componentAttributes fm)) = map_of (fm_map_componentAttributes fm)"
    using inv(1,2) by (simp_all add: amap_ok_def map_of_sort_key)
  then show "fm_look (fm_load FileAssociationMapper_new (fm_save fm)) = fm_look fm"
    by (simp add: fm_load_save [OF assms] fm_ops_defs lookup_in_map_def fun_eq_iff split: sum.split)
qed

section \<open>Properties\<close>

text \<open>
  C9 (invariant): the file association mapper keeps what it was told. Start from any consistent
  mapper, set an attribute of a process or a component with success, and let any sequence of
  further sets and instance creations follow: the attribute still has the value of that first
  set (or the equal one it had before), every later set of it is accepted exactly if its value
  is equal to that value, and in that sequence equal strings get equal numbers, different strings
  different ones.
\<close>

theorem fm_write_once:
  assumes "fm_inv s" and "fm_set s k a v = (Inr (), s1)" and "6 * length ops + 6 \<le> fm_free s"
    and "\<forall>x. Inr x \<in> set ops \<longrightarrow> x \<noteq> []" and "fm.am_run s1 ops = (rs, s2)"
  shows "fm_inv s2 \<and> (\<exists>w. (w = v \<or> vd_eq v w) \<and> fm_look s2 k a = Inr w \<and>
      (\<forall>j u. j < length ops \<and> ops ! j = Inl (k, a, u) \<longrightarrow>
         (if vd_eq u w then rs ! j = Inl (Inr ()) else \<exists>m. rs ! j = Inl (Inl (IllegalStateError m))))) \<and>
    (\<forall>p q x y. p < length ops \<and> ops ! p = Inr x \<and> q < length ops \<and> ops ! q = Inr y \<longrightarrow>
      (rs ! p = rs ! q \<longleftrightarrow> x = y))"
proof -
  have ok: "list_all fm.op_ok ops" using assms(4)
    by (auto simp: fm.op_ok_def list_all_iff split: sum.splits)
  have s1: "fm_inv s1" "6 * length ops \<le> fm_free s1"
    using fm_set_law(1,2) [OF assms(1,2)] assms(3) by simp_all
  obtain w where w: "fm_look s1 k a = Inr w" "w = v \<or> vd_eq v w"
    using fm.set_done [OF assms(1) _ _ assms(2)] assms(3) by auto
  show ?thesis
    using fm.am_run_stable [OF s1 ok _ _ w(1) assms(5)] w(2) fm.am_run_instances [OF s1 ok assms(5)]
      fm.am_run_numbering [OF s1 ok assms(5)] by blast
qed

definition demo_att :: OntologyAttribute where
  "demo_att = \<lparr>oa_aID = 7, oa_storage_type = UINT64\<rparr>"

definition demo_pid :: ProcessID where
  "demo_pid = ProcessID 1 4 9"

theorem fm_write_once_witness:
  "\<exists>s1 rs s2. fm_set FileAssociationMapper_new (Inl demo_pid) demo_att (VUint64 5) = (Inr (), s1) \<and>
    fm.am_run s1 [Inr ''/dev/a'', Inl (Inl demo_pid, demo_att, VUint64 6), Inr ''/dev/b'', Inr ''/dev/a''] = (rs, s2) \<and>
    fm_look s2 (Inl demo_pid) demo_att = Inr (VUint64 5) \<and> rs ! 0 = rs ! 3 \<and> rs ! 0 \<noteq> rs ! 2 \<and>
    (\<exists>m. rs ! 1 = Inl (Inl (IllegalStateError m)))"
proof -
  let ?ops = "[Inr ''/dev/a'', Inl (Inl demo_pid, demo_att, VUint64 6), Inr ''/dev/b'', Inr ''/dev/a'']
    :: ((ProcessID + ComponentID) \<times> OntologyAttribute \<times> OntologyValue + string) list"
  have "fst (fm_set FileAssociationMapper_new (Inl demo_pid) demo_att (VUint64 5)) = Inr ()" by code_simp
  then obtain s1 where s1: "fm_set FileAssociationMapper_new (Inl demo_pid) demo_att (VUint64 5) = (Inr (), s1)"
    by (metis prod.collapse)
  obtain rs s2 where run: "fm.am_run s1 ?ops = (rs, s2)" by fastforce
  have eq: "vd_eq (VUint64 5) w \<Longrightarrow> w = VUint64 5" for w
    using vd_eq_exact [of "VUint64 5" w] by auto
  have room: "6 * length ?ops + 6 \<le> fm_free FileAssociationMapper_new"
    by (simp add: fm_free_def FileAssociationMapper_new_def)
  have names: "\<forall>x. Inr x \<in> set ?ops \<longrightarrow> x \<noteq> []" by auto
  note H = fm_write_once [OF fm_inv_new s1 room names run]
  note all = H [THEN conjunct2, THEN conjunct1] and num = H [THEN conjunct2, THEN conjunct2, rule_format]
  have ne: "\<not> vd_eq (VUint64 6) (VUint64 5)" by code_simp
  from all obtain w where w: "w = VUint64 5 \<or> vd_eq (VUint64 5) w" "fm_look s2 (Inl demo_pid) demo_att = Inr w"
      "\<forall>j u. j < length ?ops \<and> ?ops ! j = Inl (Inl demo_pid, demo_att, u) \<longrightarrow>
        (if vd_eq u w then rs ! j = Inl (Inr ()) else \<exists>m. rs ! j = Inl (Inl (IllegalStateError m)))"
    by (elim exE conjE)
  have v: "w = VUint64 5" using w(1) eq by blast
  have refused: "\<exists>m. rs ! 1 = Inl (Inl (IllegalStateError m))"
    using w(3) [rule_format, of 1 "VUint64 6"] ne v by simp
  show ?thesis
    using s1 run w(2) v refused num [of 0 "''/dev/a''" 3 "''/dev/a''"] num [of 0 "''/dev/a''" 2 "''/dev/b''"] by simp
qed

text \<open>
  C33 (roundtrip): a mapper that is saved by its destructor and loaded by the next process answers
  every lookup of a process or component attribute and of an instance as the old one, numbers
  every string as the old one would have, and is consistent.
\<close>

theorem fm_save_load_roundtrip:
  assumes "fm_inv fm" and "fm' = fm_load FileAssociationMapper_new (fm_save fm)"
  shows "fm_inv fm' \<and>
    (\<forall>pid a. fm_lookup_process_attribute fm' pid a = fm_lookup_process_attribute fm pid a) \<and>
    (\<forall>cid a. fm_lookup_component_attribute fm' cid a = fm_lookup_component_attribute fm cid a) \<and>
    (\<forall>i. fm_lookup_instance_mapping fm' i = fm_lookup_instance_mapping fm i) \<and>
    (\<forall>x. fst (fm_create_instance_mapping fm' x) = fst (fm_create_instance_mapping fm x))"
proof -
  have look: "fm_look fm' k a = fm_look fm k a" for k a using fm_roundtrip [OF assms(1)] assms(2) by simp
  have "fm_lookup_process_attribute fm' pid a = fm_lookup_process_attribute fm pid a" for pid a
    using look [of "Inl pid" a] by (simp add: fm_look_def)
  moreover have "fm_lookup_component_attribute fm' cid a = fm_lookup_component_attribute fm cid a" for cid a
    using look [of "Inr cid" a] by (simp add: fm_look_def)
  moreover have "fm_lookup_instance_mapping fm' i = fm_lookup_instance_mapping fm i"
      "fst (fm_create_instance_mapping fm' x) = fst (fm_create_instance_mapping fm x)" for i x
    using assms by (simp_all add: fm_load_save fm_lookup_instance_mapping_def fm_create_instance_mapping_def Let_def)
  ultimately show ?thesis using fm_roundtrip(1) [OF assms(1)] assms(2) by simp
qed

definition fm_demo :: FileAssociationMapper where
  "fm_demo = snd (fm_create_instance_mapping
     (snd (fm_set_process_attribute FileAssociationMapper_new demo_pid demo_att (VUint64 5))) ''/dev/a'')"

theorem fm_save_load_roundtrip_witness:
  "fm_lookup_process_attribute (fm_load FileAssociationMapper_new (fm_save fm_demo)) demo_pid demo_att = Inr (VUint64 5) \<and>
   fst (fm_create_instance_mapping (fm_load FileAssociationMapper_new (fm_save fm_demo)) ''/dev/a'') = Inr 1"
proof -
  let ?s = "snd (fm_set_process_attribute FileAssociationMapper_new demo_pid demo_att (VUint64 5))"
  obtain r where set: "fm_set FileAssociationMapper_new (Inl demo_pid) demo_att (VUint64 5) = (r, ?s)"
    by (simp add: fm_set_def) (metis prod.collapse)
  have s: "fm_inv ?s" by (rule fm_set_law(1) [OF fm_inv_new set])
  have "0 < fm_free ?s" unfolding fm_set_law(2) [OF fm_inv_new set]
    by (simp add: fm_free_def FileAssociationMapper_new_def)
  then have "fm_inv fm_demo" using fm_create_law(2) [OF s, of "''/dev/a''"] by (auto simp: fm_demo_def)
  moreover have "fm_lookup_process_attribute fm_demo demo_pid demo_att = Inr (VUint64 5)"
    "fst (fm_create_instance_mapping fm_demo ''/dev/a'') = Inr 1" by code_simp+
  ultimately show ?thesis using fm_save_load_roundtrip [OF _ refl, of fm_demo] by simp
qed

text \<open>
  \<open>lookup_instance_mapping\<close> on a consistent mapper returns the string for a number
  that was given out, throws \<open>NotFoundError\<close> for a number above them, and reads outside of the
  vector for the number 0, which is the value an unset \<open>AssociateID\<close> has.
\<close>

theorem fm_lookup_instance_branches:
  assumes "fm_inv fm"
  shows "fm_lookup_instance_mapping fm 0 = Inl (Fatal (Undefined ''vector_aid_str[id - 1]'')) \<and>
    (\<forall>i. i \<noteq> 0 \<longrightarrow> fm_lookup_instance_mapping fm i =
      (if i < fm_lastID fm then Inr (fm_vector_aid_str fm ! (unat i - 1)) else Inl (NotFoundError '''')))"
proof -
  have n: "unat (fm_lastID fm) = Suc (length (fm_vector_aid_str fm))"
    using assms by (simp add: fm_inv_def instances_ok_def)
  have "unat ((0 :: u32) - 1) = 4294967295" by (simp add: unsigned_minus_1_eq_mask mask_eq_exp_minus_1)
  then have "\<not> unat ((0 :: u32) - 1) < length (fm_vector_aid_str fm)"
    using n unat_lt_2p32 [of "fm_lastID fm"] by linarith
  moreover have "fm_lookup_instance_mapping fm i =
      (if i < fm_lastID fm then Inr (fm_vector_aid_str fm ! (unat i - 1)) else Inl (NotFoundError ''''))"
    if "i \<noteq> 0" for i
    using n that unat_minus_one [OF that] unfolding fm_lookup_instance_mapping_def word_less_nat_alt by auto
  ultimately show ?thesis unfolding fm_lookup_instance_mapping_def by simp
qed

theorem fm_lookup_instance_branches_witness:
  "fm_lookup_instance_mapping FileAssociationMapper_new 0 = Inl (Fatal (Undefined ''vector_aid_str[id - 1]'')) \<and>
   fm_lookup_instance_mapping FileAssociationMapper_new 1 = Inl (NotFoundError '''')"
  using fm_lookup_instance_branches [OF fm_inv_new] by (simp add: FileAssociationMapper_new_def)

end
