(* ===== verification/Topology_Types.thy ===== *)
theory Topology_Types
  imports Variable_Datatype
begin

text \<open>
  The topology interface: the value classes of \<open>include/monitoring/datatypes/Topology.hpp\<close>, the
  pure virtual functions of \<open>include/monitoring/topology/Topology.hpp\<close> as a record of functions
  on an implementation's state, and the contract of those functions as the locale \<open>topology\<close>.
  A handle class such as \<open>TopologyObject\<close> is a reference that may be null: an \<open>option\<close> of the
  implementation record. Ids are 32 bit; \<open>free\<close> counts the ids an implementation has left.
\<close>

type_synonym TopologyTypeId = u32
type_synonym TopologyObjectId = u32
type_synonym TopologyAttributeId = u32
type_synonym TopologyVariable = VariableDatatype

record TopologyType =
  tt_name :: string
  tt_id :: TopologyTypeId

record TopologyObject =
  to_id :: TopologyObjectId
  to_type :: TopologyTypeId

record TopologyRelation =
  tr_childName :: string
  tr_parent :: TopologyObjectId
  tr_child :: TopologyObjectId
  tr_type :: TopologyTypeId

record TopologyAttribute =
  ta_name :: string
  ta_id :: TopologyAttributeId
  ta_domain :: TopologyTypeId
  ta_dataType :: Type

record TopologyValue =
  tv_value :: TopologyVariable
  tv_object :: TopologyObjectId
  tv_attribute :: TopologyAttributeId

section \<open>The virtual functions\<close>

record 's topology_ops =
  top_registerType :: "'s \<Rightarrow> string \<Rightarrow> TopologyType option \<times> 's"
  top_lookupTypeByName :: "'s \<Rightarrow> string \<Rightarrow> TopologyType option"
  top_lookupTypeById :: "'s \<Rightarrow> TopologyTypeId \<Rightarrow> TopologyType option"
  top_registerObject :: "'s \<Rightarrow> TopologyObjectId \<Rightarrow> TopologyTypeId \<Rightarrow> string \<Rightarrow> TopologyTypeId \<Rightarrow>
    (TopologyObject option \<times> 's) outcome"
  top_lookupObjectById :: "'s \<Rightarrow> TopologyObjectId \<Rightarrow> TopologyObject option"
  top_registerRelation :: "'s \<Rightarrow> TopologyObjectId \<Rightarrow> TopologyTypeId \<Rightarrow> string \<Rightarrow> TopologyObjectId \<Rightarrow>
    TopologyRelation option \<times> 's"
  top_lookupRelation :: "'s \<Rightarrow> TopologyObjectId \<Rightarrow> TopologyTypeId \<Rightarrow> string \<Rightarrow> TopologyRelation option"
  top_enumerateChildren :: "'s \<Rightarrow> TopologyObjectId \<Rightarrow> TopologyTypeId \<Rightarrow> TopologyRelation list"
  top_enumerateParents :: "'s \<Rightarrow> TopologyObjectId \<Rightarrow> TopologyTypeId \<Rightarrow> TopologyRelation list"
  top_registerAttribute :: "'s \<Rightarrow> TopologyTypeId \<Rightarrow> string \<Rightarrow> Type \<Rightarrow> TopologyAttribute option \<times> 's"
  top_lookupAttributeByName :: "'s \<Rightarrow> TopologyTypeId \<Rightarrow> string \<Rightarrow> TopologyAttribute option"
  top_lookupAttributeById :: "'s \<Rightarrow> TopologyAttributeId \<Rightarrow> TopologyAttribute option"
  top_setAttribute :: "'s \<Rightarrow> TopologyObjectId \<Rightarrow> TopologyAttributeId \<Rightarrow> TopologyVariable \<Rightarrow> bool \<times> 's"
  top_getAttribute :: "'s \<Rightarrow> TopologyObjectId \<Rightarrow> TopologyAttributeId \<Rightarrow> TopologyValue option"
  top_enumerateAttributes :: "'s \<Rightarrow> TopologyObjectId \<Rightarrow> TopologyValue list"

section \<open>The contract\<close>

text \<open>
  Nothing that was registered is ever lost or renumbered: what a lookup returned once, it
  returns for ever. Values are the exception: \<open>setAttribute\<close> may overwrite them.
\<close>

definition topo_ext :: "'s topology_ops \<Rightarrow> 's \<Rightarrow> 's \<Rightarrow> bool" where
  "topo_ext V s s' \<longleftrightarrow>
     (\<forall>n t. top_lookupTypeByName V s n = Some t \<longrightarrow> top_lookupTypeByName V s' n = Some t) \<and>
     (\<forall>i t. top_lookupTypeById V s i = Some t \<longrightarrow> top_lookupTypeById V s' i = Some t) \<and>
     (\<forall>i x. top_lookupObjectById V s i = Some x \<longrightarrow> top_lookupObjectById V s' i = Some x) \<and>
     (\<forall>p t n r. top_lookupRelation V s p t n = Some r \<longrightarrow> top_lookupRelation V s' p t n = Some r) \<and>
     (\<forall>d n a. top_lookupAttributeByName V s d n = Some a \<longrightarrow> top_lookupAttributeByName V s' d n = Some a) \<and>
     (\<forall>i a. top_lookupAttributeById V s i = Some a \<longrightarrow> top_lookupAttributeById V s' i = Some a)"

lemma topo_ext_refl [simp, intro]: "topo_ext V s s"
  by (simp add: topo_ext_def)

lemma topo_ext_trans [trans]: "topo_ext V s s' \<Longrightarrow> topo_ext V s' s'' \<Longrightarrow> topo_ext V s s''"
  by (simp add: topo_ext_def)

lemma topo_extD:
  assumes "topo_ext V s s'"
  shows "top_lookupTypeByName V s n = Some t \<Longrightarrow> top_lookupTypeByName V s' n = Some t"
    and "top_lookupTypeById V s i = Some t \<Longrightarrow> top_lookupTypeById V s' i = Some t"
    and "top_lookupObjectById V s j = Some x \<Longrightarrow> top_lookupObjectById V s' j = Some x"
    and "top_lookupRelation V s p u n = Some r \<Longrightarrow> top_lookupRelation V s' p u n = Some r"
    and "top_lookupAttributeByName V s d n = Some a \<Longrightarrow> top_lookupAttributeByName V s' d n = Some a"
    and "top_lookupAttributeById V s k = Some a \<Longrightarrow> top_lookupAttributeById V s' k = Some a"
  using assms by (simp_all add: topo_ext_def)

text \<open>
  What every registration does: it keeps the invariant, uses at most one id, forgets nothing and
  leaves all attribute values alone.
\<close>

definition topo_step :: "'s topology_ops \<Rightarrow> ('s \<Rightarrow> bool) \<Rightarrow> ('s \<Rightarrow> nat) \<Rightarrow> 's \<Rightarrow> 's \<Rightarrow> bool" where
  "topo_step V valid free s s' \<longleftrightarrow>
     valid s' \<and> free s \<le> Suc (free s') \<and> topo_ext V s s' \<and>
     top_getAttribute V s' = top_getAttribute V s"

locale topology =
  fixes V :: "'s topology_ops"
    and valid :: "'s \<Rightarrow> bool"
    and free :: "'s \<Rightarrow> nat"
  assumes registerType_spec: "valid s \<Longrightarrow> 0 < free s \<Longrightarrow> top_registerType V s n = (rty, s') \<Longrightarrow>
      topo_step V valid free s s' \<and> (\<exists>ty. rty = Some ty \<and> top_lookupTypeByName V s' n = Some ty)"
    and registerType_again: "valid s \<Longrightarrow> top_lookupTypeByName V s n = Some ty \<Longrightarrow>
      top_registerType V s n = (Some ty, s)"
    and typeByName: "valid s \<Longrightarrow> top_lookupTypeByName V s n = Some ty \<Longrightarrow>
      tt_name ty = n \<and> tt_id ty \<noteq> 0 \<and> top_lookupTypeById V s (tt_id ty) = Some ty"
    and registerObject_spec: "valid s \<Longrightarrow> 0 < free s \<Longrightarrow>
      \<exists>r s'. top_registerObject V s p t n ot = Inr (r, s') \<and> topo_step V valid free s s' \<and>
        (case r of Some x \<Rightarrow> to_type x = ot \<and> top_lookupObjectById V s' (to_id x) = Some x \<and>
           (\<exists>rel. top_lookupRelation V s' p t n = Some rel \<and> tr_child rel = to_id x)
         | None \<Rightarrow> s' = s \<and> (p \<noteq> 0 \<and> top_lookupObjectById V s p = None \<or>
           (\<exists>rel x. top_lookupRelation V s p t n = Some rel \<and>
              top_lookupObjectById V s (tr_child rel) = Some x \<and> to_type x \<noteq> ot)))"
    and registerObject_again: "valid s \<Longrightarrow> top_lookupRelation V s p t n = Some rel \<Longrightarrow>
      top_lookupObjectById V s (tr_child rel) = Some x \<Longrightarrow>
      top_registerObject V s p t n ot = Inr (if to_type x = ot then Some x else None, s)"
    and objectById: "valid s \<Longrightarrow> top_lookupObjectById V s i = Some x \<Longrightarrow> i \<noteq> 0 \<and> to_id x = i"
    and registerRelation_spec: "valid s \<Longrightarrow> top_registerRelation V s p t n c = (rrel, s') \<Longrightarrow>
      topo_step V valid free s s' \<and> free s' = free s \<and>
      (\<forall>rel. rrel = Some rel \<longrightarrow> top_lookupRelation V s' p t n = Some rel \<and> tr_child rel = c)"
    and relation: "valid s \<Longrightarrow> top_lookupRelation V s p t n = Some rel \<Longrightarrow>
      tr_childName rel = n \<and> tr_parent rel = p \<and> tr_type rel = t \<and>
      (\<exists>x. top_lookupObjectById V s (tr_child rel) = Some x)"
    and children: "valid s \<Longrightarrow> rel \<in> set (top_enumerateChildren V s p t) \<longleftrightarrow>
      (t = 0 \<or> tr_type rel = t) \<and>
      (\<exists>u n. top_lookupRelation V s p u n = Some rel)"
    and children_distinct: "valid s \<Longrightarrow> distinct (top_enumerateChildren V s p t)"
    and parents: "valid s \<Longrightarrow> rel \<in> set (top_enumerateParents V s c t) \<longleftrightarrow>
      tr_child rel = c \<and> (t = 0 \<or> tr_type rel = t) \<and>
      top_lookupRelation V s (tr_parent rel) (tr_type rel) (tr_childName rel) = Some rel"
    and registerAttribute_spec: "valid s \<Longrightarrow> 0 < free s \<Longrightarrow>
      top_registerAttribute V s d n dt = (ra, s') \<Longrightarrow>
      topo_step V valid free s s' \<and>
      (case ra of Some a \<Rightarrow> ta_dataType a = dt \<and> top_lookupAttributeByName V s' d n = Some a
       | None \<Rightarrow> s' = s \<and> (\<exists>a. top_lookupAttributeByName V s d n = Some a \<and> ta_dataType a \<noteq> dt))"
    and registerAttribute_again: "valid s \<Longrightarrow> top_lookupAttributeByName V s d n = Some a \<Longrightarrow>
      top_registerAttribute V s d n dt = (if ta_dataType a = dt then Some a else None, s)"
    and attributeByName: "valid s \<Longrightarrow> top_lookupAttributeByName V s d n = Some a \<Longrightarrow>
      ta_domain a = d \<and> ta_name a = n \<and> ta_id a \<noteq> 0 \<and> top_lookupAttributeById V s (ta_id a) = Some a"
    and attributeById: "valid s \<Longrightarrow> top_lookupAttributeById V s i = Some a \<Longrightarrow>
      ta_id a = i \<and> top_lookupAttributeByName V s (ta_domain a) (ta_name a) = Some a"
    and setAttribute_spec: "valid s \<Longrightarrow> top_setAttribute V s i k v = (b, s') \<Longrightarrow>
      valid s' \<and> free s' = free s \<and> topo_ext V s s' \<and> (b \<longleftrightarrow> top_lookupObjectById V s i \<noteq> None) \<and>
      (\<forall>j l. (j, l) \<noteq> (i, k) \<or> \<not> b \<longrightarrow> top_getAttribute V s' j l = top_getAttribute V s j l) \<and>
      (b \<longrightarrow> (\<exists>tv. top_getAttribute V s' i k = Some tv \<and> (tv_value tv = v \<or> vd_eq (tv_value tv) v)))"
    and attributes: "valid s \<Longrightarrow> tv \<in> set (top_enumerateAttributes V s i) \<longleftrightarrow>
      (\<exists>k. top_getAttribute V s i k = Some tv)"
    and attribute_value: "valid s \<Longrightarrow> top_getAttribute V s i k = Some tv \<Longrightarrow>
      tv_object tv = i \<and> tv_attribute tv = k \<and> top_lookupObjectById V s i \<noteq> None"
    and typeById: "valid s \<Longrightarrow> top_lookupTypeById V s i = Some ty \<Longrightarrow>
      tt_id ty = i \<and> top_lookupTypeByName V s (tt_name ty) = Some ty"
begin

lemma typeByName_inject:
  "valid s \<Longrightarrow> top_lookupTypeByName V s n = Some t \<Longrightarrow> top_lookupTypeByName V s m = Some u \<Longrightarrow>
   tt_id t = tt_id u \<Longrightarrow> n = m \<and> t = u"
  by (metis option.inject typeByName)

lemma attributeByName_inject:
  "valid s \<Longrightarrow> top_lookupAttributeByName V s d n = Some a \<Longrightarrow>
   top_lookupAttributeByName V s e m = Some b \<Longrightarrow> ta_id a = ta_id b \<Longrightarrow> d = e \<and> n = m \<and> a = b"
  by (metis option.inject attributeByName)

end

end
