(* ===== verification/Topology_Paths.thy ===== *)
theory Topology_Paths
  imports Topology_Types
begin

text \<open>
  The path functions and the aliases of the topology base class: \<open>monitoring/topology/Topology.cpp\<close>.
  They are written against the virtual functions, so each takes the record of them. The loop
  that substitutes aliases may in principle run for ever (an alias could lead back to itself),
  so it is a partial function whose value \<^const>\<open>None\<close> means that it does not return; the invariant
  of the alias table that \<open>setAlias\<close> keeps excludes it.

  A \<open>PathComponentDescription\<close> is allocated with \<open>new[]\<close>: its strings are empty and its flag has
  no value until \<open>parsePathComponent\<close> writes it, so the flag is an \<open>option\<close> and reading
  \<^const>\<open>None\<close> is undefined.
\<close>

type_synonym aliases = "string \<rightharpoonup> string"

record PathComponentDescription =
  pcd_relationName :: string
  pcd_childName :: string
  pcd_childTypeName :: string
  pcd_haveChildType :: "bool option"

definition pcd_fresh :: PathComponentDescription where
  "pcd_fresh = \<lparr>pcd_relationName = [], pcd_childName = [], pcd_childTypeName = [], pcd_haveChildType = None\<rparr>"

record ObjectPathElement =
  ope_relationName :: string
  ope_name :: string

record CreateObjectPathElement =
  cope_objectType :: string
  cope_relationName :: string
  cope_name :: string

section \<open>Paths given as vectors\<close>

fun registerObjectByPath_from ::
  "'s topology_ops \<Rightarrow> 's \<Rightarrow> CreateObjectPathElement list \<Rightarrow> TopologyObjectId \<Rightarrow> TopologyObject option \<Rightarrow>
   (TopologyObject option \<times> 's) outcome" where
  "registerObjectByPath_from V s [] resultId result = Inr (result, s)"
| "registerObjectByPath_from V s (cur # path) resultId result =
     (case top_registerType V s (cope_relationName cur) of
        (None, s1) \<Rightarrow> Inl (Abort ''relationType'')
      | (Some relationType, s1) \<Rightarrow>
        (case top_registerType V s1 (cope_objectType cur) of
           (None, s2) \<Rightarrow> Inl (Abort ''childType'')
         | (Some childType, s2) \<Rightarrow>
           bindr (top_registerObject V s2 resultId (tt_id relationType) (cope_name cur) (tt_id childType))
             (\<lambda>(r, s3). case r of
                None \<Rightarrow> Inr (None, s3)
              | Some x \<Rightarrow> registerObjectByPath_from V s3 path (to_id x) (Some x))))"

definition registerObjectByPath_vec ::
  "'s topology_ops \<Rightarrow> 's \<Rightarrow> CreateObjectPathElement list \<Rightarrow> TopologyObjectId \<Rightarrow>
   (TopologyObject option \<times> 's) outcome" where
  "registerObjectByPath_vec V s path parent = registerObjectByPath_from V s path parent None"

fun lookupObjectByPath_vec ::
  "'s topology_ops \<Rightarrow> 's \<Rightarrow> ObjectPathElement list \<Rightarrow> TopologyObjectId \<Rightarrow> TopologyObject option" where
  "lookupObjectByPath_vec V s [] resultId = top_lookupObjectById V s resultId"
| "lookupObjectByPath_vec V s (cur # path) resultId =
     (case top_lookupTypeByName V s (ope_relationName cur) of
        None \<Rightarrow> None
      | Some relationType \<Rightarrow>
        (case top_lookupRelation V s resultId (tt_id relationType) (ope_name cur) of
           None \<Rightarrow> None
         | Some relation \<Rightarrow> lookupObjectByPath_vec V s path (tr_child relation)))"

section \<open>Aliases and path components\<close>

partial_function (option) alias_chase :: "aliases \<Rightarrow> string option \<Rightarrow> string option option" where
  "alias_chase al component =
     (case component of
        None \<Rightarrow> Some None
      | Some c \<Rightarrow> if c \<noteq> [] \<and> hd c = CHR ''@'' then alias_chase al (al c) else Some (Some c))"

definition colon_position :: "string \<Rightarrow> nat" where
  "colon_position s = length (takeWhile (\<lambda>c. c \<noteq> CHR '':'') s)"

text \<open>What follows the substitution: the checks and the split at the colons.\<close>

definition split_component :: "string \<Rightarrow> PathComponentDescription option" where
  "split_component component =
     (let colonCount = count_list component CHR '':'';
          componentSize = length component
      in if CHR ''/'' \<in> set component then None
      else if colonCount = 0 \<or> colonCount > 2 then None
      else if colonCount = 1 then
        let colonPosition = colon_position component
        in if colonPosition = 0 \<or> colonPosition = componentSize - 1 then None
           else Some (pcd_fresh \<lparr>pcd_relationName := take colonPosition component,
                  pcd_childName := drop (colonPosition + 1) component,
                  pcd_haveChildType := Some False\<rparr>)
      else
        let colon1 = colon_position component;
            colon2 = colon1 + 1 + colon_position (drop (colon1 + 1) component)
        in if colon1 = 0 \<or> colon1 = colon2 - 1 \<or> colon2 = componentSize - 1 then None
           else Some (pcd_fresh \<lparr>pcd_relationName := take colon1 component,
                  pcd_childName := take (colon2 - colon1 - 1) (drop (colon1 + 1) component),
                  pcd_childTypeName := drop (colon2 + 1) component,
                  pcd_haveChildType := Some True\<rparr>))"

definition parsePathComponent :: "aliases \<Rightarrow> string \<Rightarrow> PathComponentDescription option option" where
  "parsePathComponent al aliasedComponent =
     (case alias_chase al (Some aliasedComponent) of
        None \<Rightarrow> None
      | Some None \<Rightarrow> Some None
      | Some (Some component) \<Rightarrow> Some (split_component component))"

definition setAlias :: "aliases \<Rightarrow> string \<Rightarrow> string \<Rightarrow> (bool \<times> aliases) option" where
  "setAlias al name value =
     (if length name < 2 then Some (False, al)
      else if hd name \<noteq> CHR ''@'' then Some (False, al)
      else if CHR ''/'' \<in> set name then Some (False, al)
      else case parsePathComponent al value of
        None \<Rightarrow> None
      | Some None \<Rightarrow> Some (False, al)
      | Some (Some trash) \<Rightarrow>
        (case al name of
           None \<Rightarrow> Some (True, al(name \<mapsto> value))
         | Some oldValue \<Rightarrow> if oldValue = value then Some (True, al(name \<mapsto> value)) else Some (False, al)))"

section \<open>Paths given as strings\<close>

text \<open>The second loop of \<open>parsePath\<close>: it ends when the rest of the path is empty.\<close>

function (sequential) parse_components ::
  "aliases \<Rightarrow> string \<Rightarrow> PathComponentDescription list option option" where
  "parse_components al [] = Some (Some [])"
| "parse_components al (c # cs) =
     (let componentString = takeWhile (\<lambda>c. c \<noteq> CHR ''/'') (c # cs)
      in case parsePathComponent al componentString of
           None \<Rightarrow> None
         | Some None \<Rightarrow> Some None
         | Some (Some d) \<Rightarrow>
           (case parse_components al (drop (length componentString + 1) (c # cs)) of
              None \<Rightarrow> None
            | Some None \<Rightarrow> Some None
            | Some (Some ds) \<Rightarrow> Some (Some (d # ds))))"
  by pat_completeness auto

termination by (relation "measure (\<lambda>(al, s). length s)") auto

definition component_count :: "string \<Rightarrow> nat" where
  "component_count path = 1 + count_list path CHR ''/''"

definition parsePath :: "aliases \<Rightarrow> string \<Rightarrow> PathComponentDescription list option option" where
  "parsePath al path =
     (if path = [] then Some None
      else case parse_components al path of
        None \<Rightarrow> None
      | Some None \<Rightarrow> Some None
      | Some (Some ds) \<Rightarrow> Some (Some (ds @ replicate (component_count path - length ds) pcd_fresh)))"

fun register_components ::
  "'s topology_ops \<Rightarrow> 's \<Rightarrow> PathComponentDescription list \<Rightarrow> TopologyObjectId \<Rightarrow>
   (TopologyObject option \<times> 's) outcome" where
  "register_components V s [] resultId = Inr (None, s)"
| "register_components V s (cur # rest) resultId =
     (case top_registerType V s (pcd_relationName cur) of
        (None, s1) \<Rightarrow> Inl (Abort ''relationType'')
      | (Some relationType, s1) \<Rightarrow>
        (case pcd_haveChildType cur of
           None \<Rightarrow> Inl (Undefined ''haveChildType is not initialized'')
         | Some have \<Rightarrow>
           (case top_registerType V s1 (if have then pcd_childTypeName cur else pcd_relationName cur) of
              (None, s2) \<Rightarrow> Inl (Abort ''childType'')
            | (Some childType, s2) \<Rightarrow>
              bindr (top_registerObject V s2 resultId (tt_id relationType) (pcd_childName cur) (tt_id childType))
                (\<lambda>(r, s3). case r of
                   None \<Rightarrow> Inr (None, s3)
                 | Some child \<Rightarrow>
                   if rest = [] then Inr (Some child, s3)
                   else register_components V s3 rest (to_id child)))))"

definition registerObjectByPath ::
  "'s topology_ops \<Rightarrow> aliases \<Rightarrow> 's \<Rightarrow> string \<Rightarrow> TopologyObjectId \<Rightarrow>
   (TopologyObject option \<times> 's) outcome option" where
  "registerObjectByPath V al s path parent =
     (case parsePath al path of
        None \<Rightarrow> None
      | Some None \<Rightarrow> Some (Inr (None, s))
      | Some (Some components) \<Rightarrow> Some (register_components V s components parent))"

fun lookup_components ::
  "'s topology_ops \<Rightarrow> 's \<Rightarrow> PathComponentDescription list \<Rightarrow> TopologyObjectId \<Rightarrow>
   TopologyObject option outcome" where
  "lookup_components V s [] resultId = Inr None"
| "lookup_components V s (cur # rest) resultId =
     (case top_lookupTypeByName V s (pcd_relationName cur) of
        None \<Rightarrow> Inr None
      | Some relationType \<Rightarrow>
        (case top_lookupRelation V s resultId (tt_id relationType) (pcd_childName cur) of
           None \<Rightarrow> Inr None
         | Some relation \<Rightarrow>
           (case pcd_haveChildType cur of
              None \<Rightarrow> Inl (Undefined ''haveChildType is not initialized'')
            | Some True \<Rightarrow>
              (case (top_lookupObjectById V s (tr_child relation),
                     top_lookupTypeByName V s (pcd_childTypeName cur)) of
                 (Some child, Some expectedType) \<Rightarrow>
                   if to_type child \<noteq> tt_id expectedType then Inr None
                   else if rest = [] then Inr (Some child)
                   else lookup_components V s rest (tr_child relation)
               | _ \<Rightarrow> Inr None)
            | Some False \<Rightarrow>
              if rest = [] then Inr (top_lookupObjectById V s (tr_child relation))
              else lookup_components V s rest (tr_child relation))))"

definition lookupObjectByPath ::
  "'s topology_ops \<Rightarrow> aliases \<Rightarrow> 's \<Rightarrow> string \<Rightarrow> TopologyObjectId \<Rightarrow> TopologyObject option outcome option" where
  "lookupObjectByPath V al s path parent =
     (case parsePath al path of
        None \<Rightarrow> None
      | Some None \<Rightarrow> Some (Inr None)
      | Some (Some components) \<Rightarrow> Some (lookup_components V s components parent))"

section \<open>Aliases end\<close>

definition alias_name_ok :: "string \<Rightarrow> bool" where
  "alias_name_ok n \<longleftrightarrow> 2 \<le> length n \<and> hd n = CHR ''@'' \<and> CHR ''/'' \<notin> set n"

definition alias_inv :: "aliases \<Rightarrow> bool" where
  "alias_inv al \<longleftrightarrow>
     (\<forall>n v. al n = Some v \<longrightarrow> alias_name_ok n \<and> (\<exists>d. parsePathComponent al v = Some (Some d)))"

lemma alias_chase_simps [simp]:
  "alias_chase al None = Some None"
  "c = [] \<or> hd c \<noteq> CHR ''@'' \<Longrightarrow> alias_chase al (Some c) = Some (Some c)"
  "c \<noteq> [] \<Longrightarrow> hd c = CHR ''@'' \<Longrightarrow> alias_chase al (Some c) = alias_chase al (al c)"
  by (auto simp: alias_chase.simps)

text \<open>A component that is resolved without looking at an unset alias stays so when that alias is set.\<close>

lemma alias_chase_grow:
  assumes "alias_chase al x = Some (Some t)" and "al n = None"
  shows "alias_chase (al(n \<mapsto> v)) x = Some (Some t)"
proof -
  define P where "P al x r \<longleftrightarrow> (x = None \<longrightarrow> r = None) \<and>
    (al n = None \<longrightarrow> r = Some t \<longrightarrow> alias_chase (al(n \<mapsto> v)) x = Some (Some t))"
    for al :: aliases and x r :: "string option"
  have "P al x r" if "alias_chase al x = Some r" for al x r
    using that
  proof (rule alias_chase.raw_induct [rotated])
    fix f :: "aliases \<Rightarrow> string option \<Rightarrow> string option option" and al x r
    assume IH: "\<And>al x r. f al x = Some r \<Longrightarrow> P al x r"
      and step: "(case x of None \<Rightarrow> Some None
        | Some c \<Rightarrow> if c \<noteq> [] \<and> hd c = CHR ''@'' then f al (al c) else Some (Some c)) = Some r"
    show "P al x r"
    proof (cases x)
      case None
      then show ?thesis using step by (simp add: P_def)
    next
      case (Some c)
      show ?thesis
      proof (cases "c \<noteq> [] \<and> hd c = CHR ''@''")
        case True
        then have "P al (al c) r" using step Some IH by simp
        then show ?thesis using True Some by (cases "c = n") (auto simp: P_def)
      qed (use step Some in \<open>auto simp: P_def\<close>)
    qed
  qed
  then show ?thesis using assms P_def by blast
qed

lemma parsePathComponent_grow:
  "parsePathComponent al c = Some (Some d) \<Longrightarrow> al n = None \<Longrightarrow>
   parsePathComponent (al(n \<mapsto> v)) c = Some (Some d)"
  by (auto simp: parsePathComponent_def alias_chase_grow split: option.splits)

lemma alias_inv_empty [simp]: "alias_inv Map.empty"
  by (simp add: alias_inv_def)

lemma parsePathComponent_returns:
  assumes "alias_inv al"
  shows "\<exists>r. parsePathComponent al c = Some r"
proof (cases "c \<noteq> [] \<and> hd c = CHR ''@''")
  case True
  then have step: "alias_chase al (Some c) = alias_chase al (al c)" by simp
  show ?thesis
  proof (cases "al c")
    case None
    then show ?thesis using step by (simp add: parsePathComponent_def)
  next
    case (Some v)
    with assms obtain d where "parsePathComponent al v = Some (Some d)"
      by (auto simp: alias_inv_def)
    then show ?thesis using step Some by (simp add: parsePathComponent_def)
  qed
next
  case False
  then have "alias_chase al (Some c) = Some (Some c)" by simp
  then show ?thesis by (simp add: parsePathComponent_def)
qed

lemma setAlias_returns: "alias_inv al \<Longrightarrow> \<exists>b al'. setAlias al n v = Some (b, al')"
  using parsePathComponent_returns [of al v]
  by (auto simp: setAlias_def split: option.splits)

lemma setAlias_success:
  "setAlias al n v = Some (True, al') \<longleftrightarrow>
     alias_name_ok n \<and> (\<exists>d. parsePathComponent al v = Some (Some d)) \<and> al n \<in> {None, Some v} \<and>
     al' = al(n \<mapsto> v)"
  by (auto simp: setAlias_def alias_name_ok_def not_less split: option.splits if_splits)

lemma setAlias_failure: "setAlias al n v = Some (False, al') \<Longrightarrow> al' = al"
  by (auto simp: setAlias_def split: option.splits if_splits)

lemma setAlias_inv:
  assumes inv: "alias_inv al" and set: "setAlias al n v = Some (b, al')"
  shows "alias_inv al'"
proof (cases b)
  case False
  then show ?thesis using assms setAlias_failure by auto
next
  case True
  with set obtain d where name: "alias_name_ok n" and d: "parsePathComponent al v = Some (Some d)"
    and old: "al n \<in> {None, Some v}" and al': "al' = al(n \<mapsto> v)"
    by (auto simp: setAlias_success)
  show ?thesis
  proof (cases "al n")
    case None
    have "alias_name_ok m \<and> (\<exists>d. parsePathComponent al' w = Some (Some d))" if "al' m = Some w" for m w
      using that inv name d parsePathComponent_grow [where n = n and v = v and al = al] None
      unfolding al' alias_inv_def by (metis fun_upd_apply option.inject)
    then show ?thesis by (simp add: alias_inv_def)
  next
    case (Some w)
    with old have "al' = al" by (auto simp: al')
    with inv show ?thesis by simp
  qed
qed

lemma parse_components_returns: "alias_inv al \<Longrightarrow> \<exists>r. parse_components al path = Some r"
proof (induction al path rule: parse_components.induct)
  case (2 al c cs)
  define comp where "comp = takeWhile (\<lambda>c. c \<noteq> CHR ''/'') (c # cs)"
  obtain r where r: "parsePathComponent al comp = Some r"
    using parsePathComponent_returns [OF 2(2)] by blast
  show ?case
  proof (cases r)
    case None
    then show ?thesis using r by (simp add: comp_def Let_def del: takeWhile.simps)
  next
    case (Some d)
    then obtain r' where "parse_components al (drop (length comp + 1) (c # cs)) = Some r'"
      using 2 r comp_def by fastforce
    then show ?thesis using r Some
      by (auto simp: comp_def Let_def simp del: takeWhile.simps drop_Suc_Cons split: option.splits)
  qed
qed simp

lemma parsePath_returns: "alias_inv al \<Longrightarrow> \<exists>r. parsePath al path = Some r"
  using parse_components_returns [of al path] by (auto simp: parsePath_def split: option.splits)

section \<open>The grammar of paths\<close>

text \<open>
  The grammar the class comment of \<open>Topology.hpp\<close> gives: components separated by slashes, each
  \<open>relationType:childName\<close> or \<open>relationType:childName:objectType\<close>. Printing a sequence of
  descriptions and parsing the text gives the descriptions back.
\<close>

definition path_name :: "string \<Rightarrow> bool" where
  "path_name s \<longleftrightarrow> s \<noteq> [] \<and> CHR '':'' \<notin> set s \<and> CHR ''/'' \<notin> set s"

definition component_ok :: "PathComponentDescription \<Rightarrow> bool" where
  "component_ok d \<longleftrightarrow>
     path_name (pcd_relationName d) \<and> hd (pcd_relationName d) \<noteq> CHR ''@'' \<and>
     path_name (pcd_childName d) \<and>
     (pcd_haveChildType d = Some True \<and> path_name (pcd_childTypeName d) \<or>
      pcd_haveChildType d = Some False \<and> pcd_childTypeName d = [])"

definition show_component :: "PathComponentDescription \<Rightarrow> string" where
  "show_component d = pcd_relationName d @ '':'' @ pcd_childName d @
     (if pcd_haveChildType d = Some True then '':'' @ pcd_childTypeName d else [])"

fun show_path :: "PathComponentDescription list \<Rightarrow> string" where
  "show_path [] = []"
| "show_path [d] = show_component d"
| "show_path (d # ds) = show_component d @ ''/'' @ show_path ds"

lemma colon_position_append [simp]:
  "CHR '':'' \<notin> set s \<Longrightarrow> colon_position (s @ CHR '':'' # t) = length s"
  by (induction s) (auto simp: colon_position_def)

lemma split_show_component:
  assumes "component_ok d"
  shows "split_component (show_component d) = Some d"
proof -
  have names: "CHR '':'' \<notin> set (pcd_relationName d)" "CHR '':'' \<notin> set (pcd_childName d)"
    "pcd_relationName d \<noteq> []" "pcd_childName d \<noteq> []"
    "CHR ''/'' \<notin> set (pcd_relationName d)" "CHR ''/'' \<notin> set (pcd_childName d)"
    using assms by (auto simp: component_ok_def path_name_def)
  show ?thesis
  proof (cases "pcd_haveChildType d = Some True")
    case True
    then have "CHR '':'' \<notin> set (pcd_childTypeName d)" "pcd_childTypeName d \<noteq> []"
      "CHR ''/'' \<notin> set (pcd_childTypeName d)"
      using assms by (auto simp: component_ok_def path_name_def)
    then show ?thesis using True names
      by (simp add: split_component_def show_component_def Let_def pcd_fresh_def)
  next
    case False
    then have "pcd_haveChildType d = Some False" "pcd_childTypeName d = []"
      using assms by (auto simp: component_ok_def)
    then show ?thesis using names
      by (simp add: split_component_def show_component_def Let_def pcd_fresh_def)
  qed
qed

lemma show_component_props:
  assumes "component_ok d"
  shows "show_component d \<noteq> []" and "hd (show_component d) \<noteq> CHR ''@''"
    and "CHR ''/'' \<notin> set (show_component d)"
  using assms by (auto simp: component_ok_def path_name_def show_component_def hd_append)

lemma parse_show_component:
  "component_ok d \<Longrightarrow> parsePathComponent al (show_component d) = Some (Some d)"
  by (simp add: parsePathComponent_def show_component_props split_show_component)

lemma parse_components_step:
  assumes "s \<noteq> []" and "CHR ''/'' \<notin> set s" and "parsePathComponent al s = Some (Some d)"
  shows "parse_components al s = Some (Some [d])"
    and "parse_components al (s @ CHR ''/'' # r) =
      (case parse_components al r of None \<Rightarrow> None | Some None \<Rightarrow> Some None | Some (Some ds) \<Rightarrow> Some (Some (d # ds)))"
proof -
  obtain c cs where s: "s = c # cs" using assms(1) by (cases s) auto
  have "takeWhile (\<lambda>c. c \<noteq> CHR ''/'') (s @ CHR ''/'' # r) = s"
    using assms(2) by (subst takeWhile_append2) auto
  moreover have "takeWhile (\<lambda>c. c \<noteq> CHR ''/'') cs = cs" "c \<noteq> CHR ''/''"
    using assms(2) s by (auto simp: takeWhile_eq_all_conv)
  ultimately show "parse_components al s = Some (Some [d])"
    "parse_components al (s @ CHR ''/'' # r) =
      (case parse_components al r of None \<Rightarrow> None | Some None \<Rightarrow> Some None | Some (Some ds) \<Rightarrow> Some (Some (d # ds)))"
    using assms(3) s by (simp_all add: Let_def takeWhile_eq_all_conv [THEN iffD2])
qed

lemma parse_components_show:
  "\<forall>d\<in>set ds. component_ok d \<Longrightarrow> parse_components al (show_path ds) = Some (Some ds)"
proof (induction ds rule: show_path.induct)
  case (2 d)
  then show ?case by (simp add: parse_components_step parse_show_component show_component_props)
next
  case (3 d e ds)
  then show ?case by (simp add: parse_components_step parse_show_component show_component_props)
qed simp

lemma component_count_show:
  "\<forall>d\<in>set ds. component_ok d \<Longrightarrow> ds \<noteq> [] \<Longrightarrow> component_count (show_path ds) = length ds"
  by (induction ds rule: show_path.induct)
    (auto simp: component_count_def show_component_props count_notin)

lemma show_path_empty: "\<forall>d\<in>set ds. component_ok d \<Longrightarrow> show_path ds = [] \<longleftrightarrow> ds = []"
  by (cases ds rule: show_path.cases) (auto simp: show_component_props)

lemma parsePath_show:
  assumes "\<forall>d\<in>set ds. component_ok d" and "ds \<noteq> []"
  shows "parsePath al (show_path ds) = Some (Some ds)"
  using assms
  by (simp add: parsePath_def parse_components_show component_count_show show_path_empty)

text \<open>
  A path that ends with a slash has one description more than it has components: the last one
  is never written.
\<close>

lemma parsePath_trailing:
  assumes "\<forall>d\<in>set ds. component_ok d" and "ds \<noteq> []"
  shows "parsePath al (show_path ds @ ''/'') = Some (Some (ds @ [pcd_fresh]))"
proof -
  have "parse_components al (show_path ds @ ''/'') = Some (Some ds)"
    using assms
  proof (induction ds rule: show_path.induct)
    case (2 d)
    then show ?case
      using parse_components_step(2) [of "show_component d" al d "[]"]
      by (simp add: parse_show_component show_component_props)
  next
    case (3 d e ds)
    then show ?case
      by (simp add: parse_components_step parse_show_component show_component_props)
  qed simp
  moreover have "component_count (show_path ds @ ''/'') = Suc (length ds)"
    using component_count_show [OF assms] by (simp add: component_count_def)
  ultimately show ?thesis by (simp add: parsePath_def)
qed

section \<open>Registering and looking up by path\<close>

definition lookup_element :: "CreateObjectPathElement \<Rightarrow> ObjectPathElement" where
  "lookup_element e = \<lparr>ope_relationName = cope_relationName e, ope_name = cope_name e\<rparr>"

definition component_type :: "PathComponentDescription \<Rightarrow> string" where
  "component_type d = (if pcd_haveChildType d = Some True then pcd_childTypeName d else pcd_relationName d)"

text \<open>When the lookups find something.\<close>

lemma lookupObjectByPath_vec_Cons:
  "lookupObjectByPath_vec V s (cur # path) p = Some x \<longleftrightarrow>
     (\<exists>t rel. top_lookupTypeByName V s (ope_relationName cur) = Some t \<and>
        top_lookupRelation V s p (tt_id t) (ope_name cur) = Some rel \<and>
        lookupObjectByPath_vec V s path (tr_child rel) = Some x)"
  by (auto split: option.splits)

lemma lookup_components_Cons:
  "lookup_components V s (cur # rest) p = Inr (Some x) \<longleftrightarrow>
     (\<exists>t rel have. top_lookupTypeByName V s (pcd_relationName cur) = Some t \<and>
        top_lookupRelation V s p (tt_id t) (pcd_childName cur) = Some rel \<and>
        pcd_haveChildType cur = Some have \<and>
        (have \<longrightarrow> (\<exists>y u. top_lookupObjectById V s (tr_child rel) = Some y \<and>
           top_lookupTypeByName V s (pcd_childTypeName cur) = Some u \<and> to_type y = tt_id u)) \<and>
        (if rest = [] then top_lookupObjectById V s (tr_child rel) = Some x
         else lookup_components V s rest (tr_child rel) = Inr (Some x)))"
  by (auto split: option.splits bool.splits)

lemma lookupObjectByPath_vec_ext:
  assumes "lookupObjectByPath_vec V s path p = Some x" and "topo_ext V s s'"
  shows "lookupObjectByPath_vec V s' path p = Some x"
  using assms(1)
proof (induction path arbitrary: p)
  case Nil
  then show ?case using topo_extD(3) [OF assms(2)] by simp
next
  case (Cons e path)
  then show ?case
    using topo_extD(1,4) [OF assms(2)] unfolding lookupObjectByPath_vec_Cons by blast
qed

lemma lookup_components_ext:
  assumes "lookup_components V s ds p = Inr (Some x)" and "topo_ext V s s'"
  shows "lookup_components V s' ds p = Inr (Some x)"
  using assms(1)
proof (induction ds arbitrary: p)
  case Nil
  then show ?case by simp
next
  case (Cons d ds)
  then show ?case
    using topo_extD(1,3,4) [OF assms(2)] unfolding lookup_components_Cons
    by (cases "ds = []") (simp_all, blast+)
qed

context topology
begin

text \<open>One round of either loop: two types and an object are registered.\<close>

definition registered :: "'s \<Rightarrow> TopologyObjectId \<Rightarrow> string \<Rightarrow> string \<Rightarrow> string \<Rightarrow> TopologyObject \<Rightarrow> bool" where
  "registered s p a n b x \<longleftrightarrow>
     (\<exists>t1 t2 rel. top_lookupTypeByName V s a = Some t1 \<and> top_lookupTypeByName V s b = Some t2 \<and>
        top_lookupRelation V s p (tt_id t1) n = Some rel \<and> tr_child rel = to_id x \<and>
        top_lookupObjectById V s (to_id x) = Some x \<and> to_type x = tt_id t2)"

lemma registered_ext: "registered s p a n b x \<Longrightarrow> topo_ext V s s' \<Longrightarrow> registered s' p a n b x"
  unfolding registered_def by (blast dest: topo_extD)

lemma register_one:
  assumes "valid s" and "3 \<le> free s"
  obtains t1 s1 t2 s2 r s3 where
    "top_registerType V s a = (Some t1, s1)" "top_registerType V s1 b = (Some t2, s2)"
    "top_registerObject V s2 p (tt_id t1) n (tt_id t2) = Inr (r, s3)"
    "valid s3" "free s \<le> free s3 + 3" "topo_ext V s s3"
    "\<forall>x. r = Some x \<longrightarrow> registered s3 p a n b x" "top_getAttribute V s3 = top_getAttribute V s"
proof -
  obtain r1 s1 where e1: "top_registerType V s a = (r1, s1)" by fastforce
  with registerType_spec [OF assms(1) _ e1] assms obtain t1
    where 1: "topo_step V valid free s s1" "r1 = Some t1" "top_lookupTypeByName V s1 a = Some t1" by auto
  then have v1: "valid s1" "2 \<le> free s1" using assms by (auto simp: topo_step_def)
  obtain r2 s2 where e2: "top_registerType V s1 b = (r2, s2)" by fastforce
  with registerType_spec [OF v1(1) _ e2] v1 obtain t2
    where 2: "topo_step V valid free s1 s2" "r2 = Some t2" "top_lookupTypeByName V s2 b = Some t2" by auto
  then have v2: "valid s2" "1 \<le> free s2" using v1 by (auto simp: topo_step_def)
  from registerObject_spec [OF v2(1), of p "tt_id t1" n "tt_id t2"] v2 obtain r s3
    where 3: "top_registerObject V s2 p (tt_id t1) n (tt_id t2) = Inr (r, s3)"
      "topo_step V valid free s2 s3"
      "\<And>x. r = Some x \<Longrightarrow> to_type x = tt_id t2 \<and> top_lookupObjectById V s3 (to_id x) = Some x \<and>
         (\<exists>rel. top_lookupRelation V s3 p (tt_id t1) n = Some rel \<and> tr_child rel = to_id x)"
    by (force split: option.splits)
  have x1: "topo_ext V s s1" and x2: "topo_ext V s1 s2" and x3: "topo_ext V s2 s3"
    using 1 2 3 by (simp_all add: topo_step_def)
  show ?thesis
  proof (rule that)
    show "top_registerType V s a = (Some t1, s1)" "top_registerType V s1 b = (Some t2, s2)"
      using e1 e2 1 2 by simp_all
    show "top_registerObject V s2 p (tt_id t1) n (tt_id t2) = Inr (r, s3)" by (rule 3)
    show "valid s3" "free s \<le> free s3 + 3" using 1 2 3 by (auto simp: topo_step_def)
    show "topo_ext V s s3" by (rule topo_ext_trans [OF x1 topo_ext_trans [OF x2 x3]])
    show "\<forall>x. r = Some x \<longrightarrow> registered s3 p a n b x"
      unfolding registered_def
      using 3(3) topo_extD(1) [OF x3 topo_extD(1) [OF x2 1(3)]] topo_extD(1) [OF x3 2(3)] by blast
    show "top_getAttribute V s3 = top_getAttribute V s" using 1 2 3 by (simp add: topo_step_def)
  qed
qed

lemma registered_again:
  assumes "valid s" and "registered s p a n b x"
  obtains t1 t2 where
    "top_registerType V s a = (Some t1, s)" "top_registerType V s b = (Some t2, s)"
    "top_registerObject V s p (tt_id t1) n (tt_id t2) = Inr (Some x, s)"
  using assms registerType_again [OF assms(1)] registerObject_again [OF assms(1)]
  unfolding registered_def by (smt (verit, best))

theorem registerObjectByPath_from_spec:
  assumes "valid s" and "3 * length path \<le> free s"
  shows "\<exists>r s'. registerObjectByPath_from V s path p res = Inr (r, s') \<and> valid s' \<and> topo_ext V s s' \<and>
    top_getAttribute V s' = top_getAttribute V s \<and>
    (\<forall>x. path \<noteq> [] \<and> r = Some x \<longrightarrow>
      lookupObjectByPath_vec V s' (map lookup_element path) p = Some x \<and>
      registerObjectByPath_from V s' path p res = Inr (Some x, s')) \<and>
    free s \<le> free s' + 3 * length path"
  using assms
proof (induction path arbitrary: s p res)
  case Nil
  then show ?case by simp
next
  case (Cons e path)
  from Cons.prems have "valid s" "3 \<le> free s" by auto
  then obtain t1 s1 t2 s2 r s3 where r:
    "top_registerType V s (cope_relationName e) = (Some t1, s1)"
    "top_registerType V s1 (cope_objectType e) = (Some t2, s2)"
    "top_registerObject V s2 p (tt_id t1) (cope_name e) (tt_id t2) = Inr (r, s3)"
    "valid s3" "free s \<le> free s3 + 3" "topo_ext V s s3"
    "\<forall>x. r = Some x \<longrightarrow> registered s3 p (cope_relationName e) (cope_name e) (cope_objectType e) x"
    "top_getAttribute V s3 = top_getAttribute V s"
    by (rule register_one [where a = "cope_relationName e" and b = "cope_objectType e"
          and p = p and n = "cope_name e"])
  show ?case
  proof (cases r)
    case None
    then show ?thesis using r by simp
  next
    case (Some y)
    from Cons.IH [OF r(4), of "to_id y" "Some y"] Cons.prems r(5) obtain r' s' where IH:
      "registerObjectByPath_from V s3 path (to_id y) (Some y) = Inr (r', s')" "valid s'" "topo_ext V s3 s'"
      "top_getAttribute V s' = top_getAttribute V s3"
      "\<And>x. path \<noteq> [] \<Longrightarrow> r' = Some x \<Longrightarrow>
        lookupObjectByPath_vec V s' (map lookup_element path) (to_id y) = Some x \<and>
        registerObjectByPath_from V s' path (to_id y) (Some y) = Inr (Some x, s')"
      "free s3 \<le> free s' + 3 * length path"
      by auto
    have reg: "registered s' p (cope_relationName e) (cope_name e) (cope_objectType e) y"
      using r(7) Some IH(3) registered_ext by blast
    have found: "top_lookupObjectById V s' (to_id y) = Some y"
      using reg unfolding registered_def by blast
    have nil: "r' = Some y" "s' = s3" if "path = []" using IH(1) that by auto
    have "lookupObjectByPath_vec V s' (map lookup_element (e # path)) p = Some x \<and>
        registerObjectByPath_from V s' (e # path) p res = Inr (Some x, s')" if "r' = Some x" for x
    proof -
      have rest: "lookupObjectByPath_vec V s' (map lookup_element path) (to_id y) = Some x"
        "registerObjectByPath_from V s' path (to_id y) (Some y) = Inr (Some x, s')"
        using found IH(5) [OF _ that] nil that by (cases "path = []"; simp)+
      obtain u1 u2 where "top_registerType V s' (cope_relationName e) = (Some u1, s')"
        "top_registerType V s' (cope_objectType e) = (Some u2, s')"
        "top_registerObject V s' p (tt_id u1) (cope_name e) (tt_id u2) = Inr (Some y, s')"
        using registered_again [OF IH(2) reg] by metis
      with rest(2) have "registerObjectByPath_from V s' (e # path) p res = Inr (Some x, s')" by simp
      moreover have "lookupObjectByPath_vec V s' (map lookup_element (e # path)) p = Some x"
        using reg rest(1) unfolding registered_def list.map lookupObjectByPath_vec_Cons
        by (auto simp: lookup_element_def)
      ultimately show ?thesis by simp
    qed
    moreover have "registerObjectByPath_from V s (e # path) p res = Inr (r', s')"
      using r Some IH(1) by simp
    ultimately show ?thesis using IH(2,4,6) r(5,8) topo_ext_trans [OF r(6) IH(3)] by auto
  qed
qed

lemma register_components_spec:
  assumes "valid s" and "3 * length ds \<le> free s" and "\<forall>d\<in>set ds. pcd_haveChildType d \<noteq> None"
  shows "\<exists>r s'. register_components V s ds p = Inr (r, s') \<and> valid s' \<and> topo_ext V s s' \<and>
    free s \<le> free s' + 3 * length ds \<and>
    (\<forall>x. r = Some x \<longrightarrow> lookup_components V s' ds p = Inr (Some x))"
  using assms
proof (induction ds arbitrary: s p)
  case Nil
  then show ?case by simp
next
  case (Cons d ds)
  then obtain hv where hv: "pcd_haveChildType d = Some hv" by auto
  from Cons.prems have "valid s" "3 \<le> free s" by auto
  then obtain t1 s1 t2 s2 r s3 where r:
    "top_registerType V s (pcd_relationName d) = (Some t1, s1)"
    "top_registerType V s1 (component_type d) = (Some t2, s2)"
    "top_registerObject V s2 p (tt_id t1) (pcd_childName d) (tt_id t2) = Inr (r, s3)"
    "valid s3" "free s \<le> free s3 + 3" "topo_ext V s s3"
    "\<forall>x. r = Some x \<longrightarrow> registered s3 p (pcd_relationName d) (pcd_childName d) (component_type d) x"
    "top_getAttribute V s3 = top_getAttribute V s"
    by (rule register_one [where a = "pcd_relationName d" and b = "component_type d"
          and p = p and n = "pcd_childName d"])
  have type: "(if hv then pcd_childTypeName d else pcd_relationName d) = component_type d"
    by (simp add: component_type_def hv)
  show ?case
  proof (cases r)
    case None
    then show ?thesis using r hv type by simp
  next
    case (Some y)
    then have y: "registered s3 p (pcd_relationName d) (pcd_childName d) (component_type d) y"
      using r(7) by simp
    have last: "lookup_components V s' (d # ds) p = Inr (Some x)"
      if "topo_ext V s3 s'" and "if ds = [] then x = y else lookup_components V s' ds (to_id y) = Inr (Some x)"
      for s' x
      using registered_ext [OF y that(1)] that(2) hv
      unfolding registered_def lookup_components_Cons component_type_def
      by (auto split: if_splits)
    show ?thesis
    proof (cases "ds = []")
      case True
      then show ?thesis using r hv type Some last [of s3] by simp
    next
      case False
      from Cons.IH [OF r(4), of "to_id y"] Cons.prems r(5) obtain r' s' where IH:
        "register_components V s3 ds (to_id y) = Inr (r', s')" "valid s'" "topo_ext V s3 s'"
        "free s3 \<le> free s' + 3 * length ds"
        "\<And>x. r' = Some x \<Longrightarrow> lookup_components V s' ds (to_id y) = Inr (Some x)"
        by auto
      then show ?thesis
        using r hv type Some False last [OF IH(3)] topo_ext_trans [OF r(6) IH(3)] by simp
    qed
  qed
qed

lemma registerObjectByPath_spec:
  assumes "valid s" and "3 * length ds \<le> free s" and "\<forall>d\<in>set ds. component_ok d" and "ds \<noteq> []"
  shows "\<exists>r s'. registerObjectByPath V al s (show_path ds) p = Some (Inr (r, s')) \<and> valid s' \<and>
    topo_ext V s s' \<and>
    (\<forall>x. r = Some x \<longrightarrow> lookupObjectByPath V al s' (show_path ds) p = Some (Inr (Some x)))"
proof -
  have "\<forall>d\<in>set ds. pcd_haveChildType d \<noteq> None" using assms(3) by (auto simp: component_ok_def)
  from register_components_spec [OF assms(1,2) this, of p] show ?thesis
    by (auto simp: registerObjectByPath_def lookupObjectByPath_def parsePath_show [OF assms(3,4)])
qed

end

section \<open>Properties\<close>

text \<open>
  The path parser inverts the grammar of the class comment. A non-empty sequence
  of well-formed components, printed with colons and slashes, is parsed into exactly these
  components, whatever aliases are set.
\<close>

theorem parsePath_inverts_show:
  assumes "\<forall>d\<in>set ds. component_ok d" and "ds \<noteq> []"
  shows "parsePath al (show_path ds) = Some (Some ds)"
  using assms by (rule parsePath_show)

definition demo_path :: "PathComponentDescription list" where
  "demo_path =
     [\<lparr>pcd_relationName = ''Node'', pcd_childName = ''west1'', pcd_childTypeName = [], pcd_haveChildType = Some False\<rparr>,
      \<lparr>pcd_relationName = ''Device'', pcd_childName = ''sda'', pcd_childTypeName = ''Disk'', pcd_haveChildType = Some True\<rparr>]"

lemma demo_path_ok: "\<forall>d\<in>set demo_path. component_ok d" "demo_path \<noteq> []"
  by (simp_all add: demo_path_def component_ok_def path_name_def)

theorem parsePath_inverts_show_witness:
  "parsePath Map.empty ''Node:west1/Device:sda:Disk'' = Some (Some demo_path)"
proof -
  have "show_path demo_path = ''Node:west1/Device:sda:Disk''"
    by (simp add: demo_path_def show_component_def)
  then show ?thesis using parsePath_inverts_show [OF demo_path_ok, of Map.empty] by simp
qed

text \<open>
  C36 (termination): substituting aliases always ends. The alias table that starts empty and is
  changed by \<open>setAlias\<close> only satisfies an invariant under which \<open>parsePathComponent\<close> returns for
  every text, \<open>setAlias\<close> itself returns, and an alias that is set keeps its value for ever.
\<close>

theorem aliases_terminate:
  assumes "alias_inv al"
  shows "alias_inv Map.empty \<and> (\<exists>r. parsePathComponent al c = Some r) \<and>
    (\<exists>b al'. setAlias al n v = Some (b, al') \<and> alias_inv al' \<and>
      (\<forall>m w. al m = Some w \<longrightarrow> al' m = Some w) \<and> (b \<longrightarrow> al' n = Some v) \<and> (\<not> b \<longrightarrow> al' = al))"
proof -
  obtain b al' where set: "setAlias al n v = Some (b, al')" using setAlias_returns [OF assms] by blast
  have "(\<forall>m w. al m = Some w \<longrightarrow> al' m = Some w) \<and> (b \<longrightarrow> al' n = Some v) \<and> (\<not> b \<longrightarrow> al' = al)"
    using set setAlias_success [of al n v al'] setAlias_failure [of al n v al'] by (cases b) auto
  then show ?thesis using set setAlias_inv [OF assms set] parsePathComponent_returns [OF assms] by auto
qed

theorem aliases_terminate_witness:
  "\<exists>r. parsePathComponent Map.empty ''@home'' = Some r"
  using aliases_terminate [of Map.empty "''@home''"] by simp

text \<open>
  A path that ends with a slash. \<open>parsePath\<close> counts one component more than it
  parses, so the description array ends with one that was never filled in: its flag
  \<open>haveChildType\<close> has no value, and its names are empty.
\<close>

theorem parsePath_trailing_slash:
  assumes "\<forall>d\<in>set ds. component_ok d" and "ds \<noteq> []"
  shows "parsePath al (show_path ds @ ''/'') = Some (Some (ds @ [pcd_fresh])) \<and>
    pcd_haveChildType pcd_fresh = None"
  using parsePath_trailing [OF assms] by (simp add: pcd_fresh_def)

theorem parsePath_trailing_slash_witness:
  "parsePath Map.empty (show_path demo_path @ ''/'') = Some (Some (demo_path @ [pcd_fresh]))"
  using parsePath_trailing_slash [OF demo_path_ok] by blast

end
