(* ===== verification/Registration.thy ===== *)
theory Registration
  imports Siox_Prelude
begin

text \<open>
  The registration protocol several components use from many threads: look the key up under a
  shared lock; when it is missing, prepare a new entry without any lock, take the exclusive
  lock, look the key up again, and add the new entry only if it is still missing. A locked
  section is one atomic step here; between the two sections of one thread any other thread may
  run. \<open>find\<close> is the lookup and \<open>add\<close> the insertion of the component that uses the protocol.
\<close>

datatype ('k, 'a, 'v) thread = Enter 'k 'a | Missed 'k 'a | Returned 'k 'v

inductive reg_step ::
  "('s \<Rightarrow> 'k \<Rightarrow> 'v option) \<Rightarrow> ('s \<Rightarrow> 'k \<Rightarrow> 'a \<Rightarrow> 's) \<Rightarrow>
   's \<times> ('k, 'a, 'v) thread list \<Rightarrow> 's \<times> ('k, 'a, 'v) thread list \<Rightarrow> bool"
  for find :: "'s \<Rightarrow> 'k \<Rightarrow> 'v option" and add :: "'s \<Rightarrow> 'k \<Rightarrow> 'a \<Rightarrow> 's" where
  hit: "i < length ts \<Longrightarrow> ts ! i = Enter k a \<Longrightarrow> find s k = Some v \<Longrightarrow>
    reg_step find add (s, ts) (s, ts[i := Returned k v])"
| miss: "i < length ts \<Longrightarrow> ts ! i = Enter k a \<Longrightarrow> find s k = None \<Longrightarrow>
    reg_step find add (s, ts) (s, ts[i := Missed k a])"
| late: "i < length ts \<Longrightarrow> ts ! i = Missed k a \<Longrightarrow> find s k = Some v \<Longrightarrow>
    reg_step find add (s, ts) (s, ts[i := Returned k v])"
| create: "i < length ts \<Longrightarrow> ts ! i = Missed k a \<Longrightarrow> find s k = None \<Longrightarrow> find (add s k a) k = Some v \<Longrightarrow>
    reg_step find add (s, ts) (add s k a, ts[i := Returned k v])"

inductive_cases reg_stepE: "reg_step look ins (s, ts) (s', ts')"

inductive reg_steps ::
  "('s \<Rightarrow> 'k \<Rightarrow> 'v option) \<Rightarrow> ('s \<Rightarrow> 'k \<Rightarrow> 'a \<Rightarrow> 's) \<Rightarrow>
   's \<times> ('k, 'a, 'v) thread list \<Rightarrow> 's \<times> ('k, 'a, 'v) thread list \<Rightarrow> bool"
  for find :: "'s \<Rightarrow> 'k \<Rightarrow> 'v option" and add :: "'s \<Rightarrow> 'k \<Rightarrow> 'a \<Rightarrow> 's" where
  stop: "reg_steps find add c c"
| more: "reg_steps find add c d \<Longrightarrow> reg_step find add d e \<Longrightarrow> reg_steps find add c e"

text \<open>How far a thread has come, and how many steps a pool of threads may still make.\<close>

fun thread_work :: "('k, 'a, 'v) thread \<Rightarrow> nat" where
  "thread_work (Enter k a) = 2"
| "thread_work (Missed k a) = 1"
| "thread_work (Returned k v) = 0"

definition pool_work :: "('k, 'a, 'v) thread list \<Rightarrow> nat" where
  "pool_work ts = sum_list (map thread_work ts)"

fun entered :: "('k, 'a, 'v) thread \<Rightarrow> bool" where
  "entered (Enter k a) = True"
| "entered _ = False"

lemma sum_list_update_less:
  fixes xs :: "nat list"
  shows "i < length xs \<Longrightarrow> x < xs ! i \<Longrightarrow> sum_list (xs[i := x]) < sum_list xs"
proof (induction xs arbitrary: i)
  case (Cons y ys)
  then show ?case by (cases i) auto
qed simp

lemma reg_step_work:
  "reg_step look ins (s, ts) (s', ts') \<Longrightarrow> pool_work ts' < pool_work ts"
  by (erule reg_stepE) (auto simp: pool_work_def map_update intro!: sum_list_update_less)

locale registry =
  fixes find :: "'s \<Rightarrow> 'k \<Rightarrow> 'v option"
    and add :: "'s \<Rightarrow> 'k \<Rightarrow> 'a \<Rightarrow> 's"
  assumes find_added: "find s k = None \<Longrightarrow> \<exists>v. find (add s k a) k = Some v"
    and find_kept: "find s k = None \<Longrightarrow> find s l = Some v \<Longrightarrow> find (add s k a) l = Some v"
begin

lemma reg_step_kept:
  "reg_step find add c d \<Longrightarrow> find (fst c) k = Some v \<Longrightarrow> find (fst d) k = Some v"
  by (induction rule: reg_step.induct) (auto intro: find_kept)

definition answered :: "'s \<times> ('k, 'a, 'v) thread list \<Rightarrow> bool" where
  "answered c \<longleftrightarrow> (\<forall>k v. Returned k v \<in> set (snd c) \<longrightarrow> find (fst c) k = Some v)"

lemma reg_step_answered:
  assumes "reg_step find add c d" and "answered c"
  shows "answered d"
  using assms
proof (induction rule: reg_step.induct)
  case (create i ts k a s v)
  then have "find (add s k a) l = Some w" if "Returned l w \<in> set ts" for l w
    using that find_kept [of s k l w] by (auto simp: answered_def)
  then show ?case using create by (auto simp: answered_def dest!: set_update_subset_insert [THEN subsetD])
qed (auto simp: answered_def dest!: set_update_subset_insert [THEN subsetD])

lemma reg_steps_answered: "reg_steps find add c d \<Longrightarrow> answered c \<Longrightarrow> answered d"
  by (induction rule: reg_steps.induct) (auto intro: reg_step_answered)

lemma reg_steps_kept:
  "reg_steps find add c d \<Longrightarrow> find (fst c) k = Some v \<Longrightarrow> find (fst d) k = Some v"
  by (induction rule: reg_steps.induct) (auto intro: reg_step_kept)

lemma entered_answered: "list_all entered ts \<Longrightarrow> answered (s, ts)"
  by (auto simp: answered_def list_all_iff)

text \<open>
  Whatever the interleaving, every thread that has returned holds the entry that is registered
  for its key, so two threads with one key hold the same entry.
\<close>

lemma threads_agree:
  assumes "reg_steps find add (s, ts) (s', ts')" and "list_all entered ts"
    and "Returned k v \<in> set ts'" and "Returned k w \<in> set ts'"
  shows "v = w \<and> find s' k = Some v"
  using reg_steps_answered [OF assms(1) entered_answered [OF assms(2)]] assms(3,4)
  unfolding answered_def fst_conv snd_conv by (metis option.inject)

text \<open>No thread ever waits for a step another one does not make: while work is left, a step is possible.\<close>

lemma progress:
  assumes "pool_work ts \<noteq> 0"
  shows "\<exists>s' ts'. reg_step find add (s, ts) (s', ts')"
proof -
  from assms obtain t where t: "t \<in> set ts" "thread_work t \<noteq> 0"
    by (auto simp: pool_work_def)
  then obtain i where i: "i < length ts" "ts ! i = t" by (auto simp: in_set_conv_nth)
  show ?thesis
  proof (cases t)
    case (Enter k a)
    then show ?thesis using i by (cases "find s k") (auto intro: reg_step.intros)
  next
    case (Missed k a)
    then show ?thesis using i find_added [of s k a]
      by (cases "find s k") (auto intro: reg_step.intros)
  qed (use t in auto)
qed

end

end
