(* ===== verification/Ram_Topology.thy ===== *)
theory Ram_Topology
  imports Topology_Paths Registration Id_Table "HOL-Library.AList"
begin

text \<open>
  The topology kept in main memory: \<open>monitoring/topology/RamTopology.cpp\<close>. Vectors indexed by id
  hold a dummy at index 0, so that ids and indices agree; the hash maps of children and of
  attribute values are association lists (the order of an enumeration over them is not
  specified by the code and no property depends on it), the two maps by name are functions.
  A pointer to a child map, a parent vector or an attribute map is the index it is found under:
  the pointers are written once and never moved.

  An operation is the composition of its locked sections as one thread runs them. The sections
  of \<open>registerType\<close> and \<open>registerAttribute\<close> are also the steps of the protocol of theory
  \<open>Registration\<close>, interpreted at the end.
\<close>

type_synonym ChildMap = "((string \<times> TopologyTypeId) \<times> TopologyRelation) list"
type_synonym AttributeMap = "(TopologyAttributeId \<times> TopologyValue) list"

record RamTopology =
  typesByName :: "string \<rightharpoonup> TopologyType"
  typesById :: "TopologyType option list"
  objectsById :: "TopologyObject option list"
  childMapsById :: "ChildMap option list"
  parentVectorsById :: "TopologyRelation list option list"
  attributeMapsById :: "AttributeMap option list"
  attributesByName :: "TopologyTypeId \<times> string \<rightharpoonup> TopologyAttribute"
  attributesById :: "TopologyAttribute option list"

definition RamTopology_new :: RamTopology where
  "RamTopology_new =
     \<lparr>typesByName = Map.empty, typesById = [None], objectsById = [None], childMapsById = [Some []],
      parentVectorsById = [None], attributeMapsById = [None], attributesByName = Map.empty,
      attributesById = [None]\<rparr>"

section \<open>Types\<close>

text \<open>The insertion under the exclusive lock; the id is the size of the vector, cut to 32 bits.\<close>

definition add_type :: "RamTopology \<Rightarrow> string \<Rightarrow> TopologyType \<times> RamTopology" where
  "add_type rt name =
     (let newType = \<lparr>tt_name = name, tt_id = of_nat (length (typesById rt))\<rparr>
      in (newType, rt \<lparr>typesById := typesById rt @ [Some newType],
                       typesByName := (typesByName rt)(name \<mapsto> newType)\<rparr>))"

definition registerType :: "RamTopology \<Rightarrow> string \<Rightarrow> TopologyType option \<times> RamTopology" where
  "registerType rt name =
     (case typesByName rt name of
        Some result \<Rightarrow> (Some result, rt)
      | None \<Rightarrow> (case add_type rt name of (newType, rt') \<Rightarrow> (Some newType, rt')))"

definition lookupTypeByName :: "RamTopology \<Rightarrow> string \<Rightarrow> TopologyType option" where
  "lookupTypeByName rt name = typesByName rt name"

definition lookupTypeById :: "RamTopology \<Rightarrow> TopologyTypeId \<Rightarrow> TopologyType option" where
  "lookupTypeById rt anId =
     (if anId = 0 then None
      else if unat anId < length (typesById rt) then typesById rt ! unat anId else None)"

section \<open>Objects and relations\<close>

definition childMap_of :: "RamTopology \<Rightarrow> TopologyObjectId \<Rightarrow> ChildMap option" where
  "childMap_of rt parent =
     (if unat parent < length (objectsById rt) then childMapsById rt ! unat parent else None)"

definition parentVector_of :: "RamTopology \<Rightarrow> TopologyObjectId \<Rightarrow> TopologyRelation list option" where
  "parentVector_of rt child =
     (if unat child < length (objectsById rt) then parentVectorsById rt ! unat child else None)"

definition put_child :: "RamTopology \<Rightarrow> TopologyObjectId \<Rightarrow> ChildMap \<Rightarrow> TopologyRelation \<Rightarrow> RamTopology" where
  "put_child rt parent childMap rel =
     rt \<lparr>childMapsById := (childMapsById rt)
           [unat parent := Some (AList.update (tr_childName rel, tr_type rel) rel childMap)]\<rparr>"

definition add_object ::
  "RamTopology \<Rightarrow> TopologyObjectId \<Rightarrow> ChildMap \<Rightarrow> TopologyTypeId \<Rightarrow> string \<Rightarrow> TopologyTypeId \<Rightarrow>
   TopologyRelation \<times> TopologyObject \<times> RamTopology" where
  "add_object rt parentId childMap relationType childName objectType =
     (let newId = of_nat (length (objectsById rt));
          newObject = \<lparr>to_id = newId, to_type = objectType\<rparr>;
          newRelation = \<lparr>tr_childName = childName, tr_parent = parentId, tr_child = newId, tr_type = relationType\<rparr>;
          rt1 = rt \<lparr>objectsById := objectsById rt @ [Some newObject],
                    childMapsById := childMapsById rt @ [Some []],
                    parentVectorsById := parentVectorsById rt @ [Some [newRelation]],
                    attributeMapsById := attributeMapsById rt @ [Some []]\<rparr>
      in (newRelation, newObject, put_child rt1 parentId childMap newRelation))"

text \<open>
  The consistency check at the end of \<open>registerObject\<close>, for a relation that was found: the
  object it leads to must have the requested type. A null handle there would be dereferenced.
\<close>

definition check_found ::
  "RamTopology \<Rightarrow> TopologyTypeId \<Rightarrow> TopologyTypeId \<Rightarrow> TopologyRelation \<Rightarrow> TopologyObject option outcome" where
  "check_found rt relationType objectType rel =
     (if tr_type rel \<noteq> relationType then Inr None
      else if unat (tr_child rel) < length (objectsById rt)
      then (case objectsById rt ! unat (tr_child rel) of
              None \<Rightarrow> Inl (Undefined ''type of a null object'')
            | Some x \<Rightarrow> Inr (if to_type x \<noteq> objectType then None else Some x))
      else Inl (Undefined ''objectsById index out of range''))"

definition registerObject ::
  "RamTopology \<Rightarrow> TopologyObjectId \<Rightarrow> TopologyTypeId \<Rightarrow> string \<Rightarrow> TopologyTypeId \<Rightarrow>
   (TopologyObject option \<times> RamTopology) outcome" where
  "registerObject rt parentId relationType childName objectType =
     (case childMap_of rt parentId of
        None \<Rightarrow> Inr (None, rt)
      | Some childMap \<Rightarrow>
        (case map_of childMap (childName, relationType) of
           Some resultRelation \<Rightarrow>
             bindr (check_found rt relationType objectType resultRelation) (\<lambda>r. Inr (r, rt))
         | None \<Rightarrow>
             (case add_object rt parentId childMap relationType childName objectType of
                (newRelation, newObject, rt') \<Rightarrow> Inr (Some newObject, rt'))))"

definition lookupObjectById :: "RamTopology \<Rightarrow> TopologyObjectId \<Rightarrow> TopologyObject option" where
  "lookupObjectById rt anId =
     (if unat anId < length (objectsById rt) then objectsById rt ! unat anId else None)"

definition registerRelation ::
  "RamTopology \<Rightarrow> TopologyObjectId \<Rightarrow> TopologyTypeId \<Rightarrow> string \<Rightarrow> TopologyObjectId \<Rightarrow>
   TopologyRelation option \<times> RamTopology" where
  "registerRelation rt parent relationType childName child =
     (if child = 0 then (None, rt)
      else case childMap_of rt parent of
        None \<Rightarrow> (None, rt)
      | Some childMap \<Rightarrow>
        (case parentVector_of rt child of
           None \<Rightarrow> (None, rt)
         | Some parentVector \<Rightarrow>
           (case map_of childMap (childName, relationType) of
              Some result \<Rightarrow>
                (if tr_child result \<noteq> child \<or> tr_type result \<noteq> relationType then None else Some result, rt)
            | None \<Rightarrow>
                let newRelation = \<lparr>tr_childName = childName, tr_parent = parent, tr_child = child,
                                   tr_type = relationType\<rparr>;
                    rt1 = put_child rt parent childMap newRelation
                in (Some newRelation,
                    rt1 \<lparr>parentVectorsById := (parentVectorsById rt1)
                           [unat child := Some (parentVector @ [newRelation])]\<rparr>))))"

definition lookupRelation ::
  "RamTopology \<Rightarrow> TopologyObjectId \<Rightarrow> TopologyTypeId \<Rightarrow> string \<Rightarrow> TopologyRelation option" where
  "lookupRelation rt parent relationType childName =
     (case childMap_of rt parent of
        None \<Rightarrow> None
      | Some childMap \<Rightarrow> map_of childMap (childName, relationType))"

definition enumerateChildren ::
  "RamTopology \<Rightarrow> TopologyObjectId \<Rightarrow> TopologyTypeId \<Rightarrow> TopologyRelation list" where
  "enumerateChildren rt parent relationType =
     (case childMap_of rt parent of
        None \<Rightarrow> []
      | Some childMap \<Rightarrow>
        filter (\<lambda>rel. relationType = 0 \<or> tr_type rel = relationType) (map snd childMap))"

text \<open>The loop counts the index down: the last relation comes first.\<close>

definition enumerateParents ::
  "RamTopology \<Rightarrow> TopologyObjectId \<Rightarrow> TopologyTypeId \<Rightarrow> TopologyRelation list" where
  "enumerateParents rt child relationType =
     (case parentVector_of rt child of
        None \<Rightarrow> []
      | Some parentVector \<Rightarrow>
        filter (\<lambda>rel. relationType = 0 \<or> tr_type rel = relationType) (rev parentVector))"

section \<open>Attributes\<close>

definition add_attribute ::
  "RamTopology \<Rightarrow> TopologyTypeId \<times> string \<Rightarrow> Type \<Rightarrow> TopologyAttribute \<times> RamTopology" where
  "add_attribute rt key datatype =
     (let newAttribute = \<lparr>ta_name = snd key, ta_id = of_nat (length (attributesById rt)),
                          ta_domain = fst key, ta_dataType = datatype\<rparr>
      in (newAttribute, rt \<lparr>attributesById := attributesById rt @ [Some newAttribute],
                            attributesByName := (attributesByName rt)(key \<mapsto> newAttribute)\<rparr>))"

definition registerAttribute ::
  "RamTopology \<Rightarrow> TopologyTypeId \<Rightarrow> string \<Rightarrow> Type \<Rightarrow> TopologyAttribute option \<times> RamTopology" where
  "registerAttribute rt domain name datatype =
     (let (result, rt') =
        (case attributesByName rt (domain, name) of
           Some result \<Rightarrow> (result, rt)
         | None \<Rightarrow> add_attribute rt (domain, name) datatype)
      in (if ta_dataType result \<noteq> datatype then None else Some result, rt'))"

definition lookupAttributeByName :: "RamTopology \<Rightarrow> TopologyTypeId \<Rightarrow> string \<Rightarrow> TopologyAttribute option" where
  "lookupAttributeByName rt domain name = attributesByName rt (domain, name)"

definition lookupAttributeById :: "RamTopology \<Rightarrow> TopologyAttributeId \<Rightarrow> TopologyAttribute option" where
  "lookupAttributeById rt attributeId =
     (if attributeId = 0 then None
      else if unat attributeId < length (attributesById rt) then attributesById rt ! unat attributeId else None)"

definition attributeMap_of :: "RamTopology \<Rightarrow> TopologyObjectId \<Rightarrow> AttributeMap option" where
  "attributeMap_of rt i =
     (if unat i < length (objectsById rt) then attributeMapsById rt ! unat i else None)"

definition setAttribute ::
  "RamTopology \<Rightarrow> TopologyObjectId \<Rightarrow> TopologyAttributeId \<Rightarrow> TopologyVariable \<Rightarrow> bool \<times> RamTopology" where
  "setAttribute rt i attributeId value =
     (case attributeMap_of rt i of
        None \<Rightarrow> (False, rt)
      | Some attributeMap \<Rightarrow>
        (case map_of attributeMap attributeId of
           Some result \<Rightarrow> if vd_ne value (tv_value result)
             then (True, rt \<lparr>attributeMapsById := (attributeMapsById rt)[unat i := Some (AList.update attributeId
                    \<lparr>tv_value = value, tv_object = i, tv_attribute = attributeId\<rparr> attributeMap)]\<rparr>)
             else (True, rt)
         | None \<Rightarrow>
             (True, rt \<lparr>attributeMapsById := (attributeMapsById rt)[unat i := Some (AList.update attributeId
                \<lparr>tv_value = value, tv_object = i, tv_attribute = attributeId\<rparr> attributeMap)]\<rparr>)))"

definition getAttribute :: "RamTopology \<Rightarrow> TopologyObjectId \<Rightarrow> TopologyAttributeId \<Rightarrow> TopologyValue option" where
  "getAttribute rt i attribute =
     (case attributeMap_of rt i of
        None \<Rightarrow> None
      | Some attributeMap \<Rightarrow> map_of attributeMap attribute)"

definition enumerateAttributes :: "RamTopology \<Rightarrow> TopologyObjectId \<Rightarrow> TopologyValue list" where
  "enumerateAttributes rt i =
     (case attributeMap_of rt i of
        None \<Rightarrow> []
      | Some attributeMap \<Rightarrow> map snd attributeMap)"

definition ram_ops :: "RamTopology topology_ops" where
  "ram_ops =
     \<lparr>top_registerType = registerType, top_lookupTypeByName = lookupTypeByName,
      top_lookupTypeById = lookupTypeById, top_registerObject = registerObject,
      top_lookupObjectById = lookupObjectById, top_registerRelation = registerRelation,
      top_lookupRelation = lookupRelation, top_enumerateChildren = enumerateChildren,
      top_enumerateParents = enumerateParents, top_registerAttribute = registerAttribute,
      top_lookupAttributeByName = lookupAttributeByName, top_lookupAttributeById = lookupAttributeById,
      top_setAttribute = setAttribute, top_getAttribute = getAttribute,
      top_enumerateAttributes = enumerateAttributes\<rparr>"

section \<open>The graph of relations\<close>

text \<open>
  The child maps and the parent vectors store every relation twice. \<open>graph_ok\<close> says that the two
  agree: a relation stored under a parent is stored at its child, and the other way round.
\<close>

definition rel_key :: "TopologyRelation \<Rightarrow> string \<times> TopologyTypeId" where
  "rel_key r = (tr_childName r, tr_type r)"

definition graph_ok ::
  "(TopologyObjectId \<rightharpoonup> ChildMap) \<Rightarrow> (TopologyObjectId \<rightharpoonup> TopologyRelation list) \<Rightarrow> bool" where
  "graph_ok CM PV \<longleftrightarrow>
     (\<forall>p cm. CM p = Some cm \<longrightarrow> distinct (map fst cm) \<and>
        (\<forall>k r. map_of cm k = Some r \<longrightarrow> k = rel_key r \<and> tr_parent r = p \<and>
           (\<exists>pv. PV (tr_child r) = Some pv \<and> r \<in> set pv))) \<and>
     (\<forall>c pv r. PV c = Some pv \<longrightarrow> r \<in> set pv \<longrightarrow> tr_child r = c \<and>
        (\<exists>cm. CM (tr_parent r) = Some cm \<and> map_of cm (rel_key r) = Some r))"

lemma graph_ok_childD:
  assumes "graph_ok CM PV" and "CM p = Some cm"
  shows "distinct (map fst cm)" and "map_of cm k = Some r \<Longrightarrow> k = rel_key r"
    and "map_of cm k = Some r \<Longrightarrow> tr_parent r = p"
    and "map_of cm k = Some r \<Longrightarrow> \<exists>pv. PV (tr_child r) = Some pv \<and> r \<in> set pv"
  using assms unfolding graph_ok_def by metis+

lemma graph_ok_parentD:
  assumes "graph_ok CM PV" and "PV c = Some pv" and "r \<in> set pv"
  shows "tr_child r = c" and "\<exists>cm. CM (tr_parent r) = Some cm \<and> map_of cm (rel_key r) = Some r"
  using assms unfolding graph_ok_def by metis+

lemma graph_okI:
  assumes "\<And>p cm. CM p = Some cm \<Longrightarrow> distinct (map fst cm)"
    and "\<And>p cm k r. CM p = Some cm \<Longrightarrow> map_of cm k = Some r \<Longrightarrow> k = rel_key r \<and> tr_parent r = p \<and>
      (\<exists>pv. PV (tr_child r) = Some pv \<and> r \<in> set pv)"
    and "\<And>c pv r. PV c = Some pv \<Longrightarrow> r \<in> set pv \<Longrightarrow> tr_child r = c \<and>
      (\<exists>cm. CM (tr_parent r) = Some cm \<and> map_of cm (rel_key r) = Some r)"
  shows "graph_ok CM PV"
  using assms unfolding graph_ok_def by blast

lemma graph_ok_new:
  assumes g: "graph_ok CM PV" and n: "CM n = None" "PV n = None"
  shows "graph_ok (CM(n \<mapsto> [])) (PV(n \<mapsto> []))"
proof (rule graph_okI)
  fix p cm k r
  assume "(CM(n \<mapsto> [])) p = Some cm" "map_of cm k = Some r"
  moreover from this have "CM p = Some cm" by (auto split: if_splits)
  ultimately show "k = rel_key r \<and> tr_parent r = p \<and> (\<exists>pv. (PV(n \<mapsto> [])) (tr_child r) = Some pv \<and> r \<in> set pv)"
    using graph_ok_childD [OF g] n by (metis fun_upd_apply option.distinct(1))
next
  fix c pv r
  assume "(PV(n \<mapsto> [])) c = Some pv" "r \<in> set pv"
  moreover from this have "PV c = Some pv" by (auto split: if_splits)
  ultimately show "tr_child r = c \<and> (\<exists>cm. (CM(n \<mapsto> [])) (tr_parent r) = Some cm \<and> map_of cm (rel_key r) = Some r)"
    using graph_ok_parentD [OF g] n by (metis fun_upd_apply option.distinct(1))
qed (use graph_ok_childD(1) [OF g] in \<open>auto split: if_splits\<close>)

lemma graph_ok_add:
  assumes g: "graph_ok CM PV" and p: "CM (tr_parent r) = Some cm" "map_of cm (rel_key r) = None"
    and c: "PV (tr_child r) = Some pv"
  shows "graph_ok (CM(tr_parent r \<mapsto> AList.update (rel_key r) r cm)) (PV(tr_child r \<mapsto> pv @ [r]))"
    (is "graph_ok ?CM ?PV")
proof (rule graph_okI)
  fix q cm' assume "?CM q = Some cm'"
  then show "distinct (map fst cm')"
    using graph_ok_childD(1) [OF g] p by (auto split: if_splits intro: distinct_update)
next
  fix q cm' k r' assume q: "?CM q = Some cm'" "map_of cm' k = Some r'"
  have PV: "\<exists>pv. ?PV (tr_child r') = Some pv \<and> r' \<in> set pv"
    if "\<exists>pv. PV (tr_child r') = Some pv \<and> r' \<in> set pv"
    using that c by auto
  show "k = rel_key r' \<and> tr_parent r' = q \<and> (\<exists>pv. ?PV (tr_child r') = Some pv \<and> r' \<in> set pv)"
  proof (cases "q = tr_parent r \<and> k = rel_key r")
    case True
    then have "r' = r" using q by (auto simp: update_conv)
    then show ?thesis using True by auto
  next
    case False
    then obtain cm'' where old: "CM q = Some cm''" "map_of cm'' k = Some r'"
      using q p by (auto simp: update_conv split: if_splits)
    show ?thesis using graph_ok_childD [OF g old(1)] old(2) PV by metis
  qed
next
  fix d pv' r' assume d: "?PV d = Some pv'" "r' \<in> set pv'"
  show "tr_child r' = d \<and> (\<exists>cm. ?CM (tr_parent r') = Some cm \<and> map_of cm (rel_key r') = Some r')"
  proof (cases "r' = r \<and> d = tr_child r")
    case True
    then show ?thesis by (auto simp: update_conv)
  next
    case False
    then obtain pv'' where old: "PV d = Some pv''" "r' \<in> set pv''"
      using d c by (auto split: if_splits)
    from graph_ok_parentD [OF g old] obtain cm' where
      "tr_child r' = d" "CM (tr_parent r') = Some cm'" "map_of cm' (rel_key r') = Some r'" by blast
    then show ?thesis using p by (auto simp: update_conv)
  qed
qed

section \<open>The invariant\<close>

definition values_ok :: "TopologyObjectId \<Rightarrow> AttributeMap \<Rightarrow> bool" where
  "values_ok i am \<longleftrightarrow> distinct (map fst am) \<and>
     (\<forall>k v. map_of am k = Some v \<longrightarrow> tv_attribute v = k \<and> tv_object v = i)"

definition types_inv :: "RamTopology \<Rightarrow> bool" where
  "types_inv rt \<longleftrightarrow> id_table tt_id tt_name (typesById rt) (typesByName rt)"

definition attributes_inv :: "RamTopology \<Rightarrow> bool" where
  "attributes_inv rt \<longleftrightarrow>
     id_table ta_id (\<lambda>a. (ta_domain a, ta_name a)) (attributesById rt) (attributesByName rt)"

text \<open>The four vectors of objects have one size; beyond it and, but for the root's children, at 0 they are empty.\<close>

definition objects_shape :: "RamTopology \<Rightarrow> bool" where
  "objects_shape rt \<longleftrightarrow>
     0 < length (objectsById rt) \<and> length (objectsById rt) \<le> 4294967296 \<and>
     length (childMapsById rt) = length (objectsById rt) \<and>
     length (parentVectorsById rt) = length (objectsById rt) \<and>
     length (attributeMapsById rt) = length (objectsById rt) \<and>
     (\<forall>i. vec_get (objectsById rt) i = None \<longleftrightarrow> i = 0 \<or> length (objectsById rt) \<le> unat i) \<and>
     (\<forall>i. vec_get (childMapsById rt) i = None \<longleftrightarrow> length (objectsById rt) \<le> unat i) \<and>
     (\<forall>i. vec_get (parentVectorsById rt) i = None \<longleftrightarrow> i = 0 \<or> length (objectsById rt) \<le> unat i) \<and>
     (\<forall>i. vec_get (attributeMapsById rt) i = None \<longleftrightarrow> i = 0 \<or> length (objectsById rt) \<le> unat i)"

definition objects_inv :: "RamTopology \<Rightarrow> bool" where
  "objects_inv rt \<longleftrightarrow>
     objects_shape rt \<and>
     (\<forall>i x. vec_get (objectsById rt) i = Some x \<longrightarrow> to_id x = i) \<and>
     graph_ok (vec_get (childMapsById rt)) (vec_get (parentVectorsById rt)) \<and>
     (\<forall>i am. vec_get (attributeMapsById rt) i = Some am \<longrightarrow> values_ok i am)"

definition ram_inv :: "RamTopology \<Rightarrow> bool" where
  "ram_inv rt \<longleftrightarrow> types_inv rt \<and> attributes_inv rt \<and> objects_inv rt"

text \<open>How many more ids each of the three counters can give out.\<close>

definition ram_free :: "RamTopology \<Rightarrow> nat" where
  "ram_free rt =
     4294967296 - max (length (typesById rt)) (max (length (objectsById rt)) (length (attributesById rt)))"

lemma ram_inv_new [siox_inv]: "ram_inv RamTopology_new"
  by (auto simp: ram_inv_def types_inv_def attributes_inv_def objects_inv_def objects_shape_def
      RamTopology_new_def vec_get_def graph_ok_def)

lemma ram_lookups:
  assumes "ram_inv rt"
  shows "lookupTypeById rt = vec_get (typesById rt)"
    and "lookupAttributeById rt = vec_get (attributesById rt)"
    and "lookupObjectById rt = vec_get (objectsById rt)"
    and "childMap_of rt = vec_get (childMapsById rt)"
    and "parentVector_of rt = vec_get (parentVectorsById rt)"
    and "attributeMap_of rt = vec_get (attributeMapsById rt)"
proof -
  have z: "vec_get (typesById rt) 0 = None" "vec_get (attributesById rt) 0 = None"
    using assms id_tableD(6) by (auto simp: ram_inv_def types_inv_def attributes_inv_def)
  show "lookupTypeById rt = vec_get (typesById rt)"
    "lookupAttributeById rt = vec_get (attributesById rt)"
    using z by (auto simp: fun_eq_iff lookupTypeById_def lookupAttributeById_def vec_get_def)
qed (use assms in \<open>simp_all add: fun_eq_iff lookupObjectById_def childMap_of_def parentVector_of_def
      attributeMap_of_def vec_get_def ram_inv_def objects_inv_def objects_shape_def\<close>)

text \<open>What the three insertions do to the lookups.\<close>

lemma add_type_inv:
  assumes "ram_inv rt" and "typesByName rt n = None" and "length (typesById rt) < 4294967296"
  shows "ram_inv (snd (add_type rt n))"
  using assms id_table_add [of tt_id tt_name "typesById rt" "typesByName rt" n
      "\<lparr>tt_name = n, tt_id = of_nat (length (typesById rt))\<rparr>"]
  by (simp add: ram_inv_def types_inv_def attributes_inv_def objects_inv_def objects_shape_def
      add_type_def Let_def)

lemma add_attribute_inv:
  assumes "ram_inv rt" and "attributesByName rt k = None" and "length (attributesById rt) < 4294967296"
  shows "ram_inv (snd (add_attribute rt k dt))"
  using assms id_table_add [of ta_id "\<lambda>a. (ta_domain a, ta_name a)" "attributesById rt" "attributesByName rt" k
      "\<lparr>ta_name = snd k, ta_id = of_nat (length (attributesById rt)), ta_domain = fst k, ta_dataType = dt\<rparr>"]
  by (simp add: ram_inv_def types_inv_def attributes_inv_def objects_inv_def objects_shape_def
      add_attribute_def Let_def)

lemma vec_get_append_map:
  "length vec < 4294967296 \<Longrightarrow> vec_get (vec @ [Some x]) = (vec_get vec)(of_nat (length vec) \<mapsto> x)"
  by (auto simp: fun_eq_iff vec_get_append of_nat_eq_iff_unat)

lemma vec_get_update_map:
  "unat j < length vec \<Longrightarrow> vec_get (vec[unat j := Some x]) = (vec_get vec)(j \<mapsto> x)"
  by (auto simp: fun_eq_iff vec_get_update)

lemma objects_shapeD:
  assumes "ram_inv rt"
  shows "0 < length (objectsById rt)" and "length (objectsById rt) \<le> 4294967296"
    and "length (childMapsById rt) = length (objectsById rt)"
    and "length (parentVectorsById rt) = length (objectsById rt)"
    and "length (attributeMapsById rt) = length (objectsById rt)"
    and "vec_get (objectsById rt) i = None \<longleftrightarrow> i = 0 \<or> length (objectsById rt) \<le> unat i"
    and "vec_get (childMapsById rt) i = None \<longleftrightarrow> length (objectsById rt) \<le> unat i"
    and "vec_get (parentVectorsById rt) i = None \<longleftrightarrow> i = 0 \<or> length (objectsById rt) \<le> unat i"
    and "vec_get (attributeMapsById rt) i = None \<longleftrightarrow> i = 0 \<or> length (objectsById rt) \<le> unat i"
  using assms unfolding ram_inv_def objects_inv_def objects_shape_def by metis+

lemma ram_invD:
  assumes "ram_inv rt"
  shows "id_table tt_id tt_name (typesById rt) (typesByName rt)"
    and "id_table ta_id (\<lambda>a. (ta_domain a, ta_name a)) (attributesById rt) (attributesByName rt)"
    and "graph_ok (vec_get (childMapsById rt)) (vec_get (parentVectorsById rt))"
    and "vec_get (objectsById rt) i = Some x \<Longrightarrow> to_id x = i"
    and "vec_get (attributeMapsById rt) i = Some am \<Longrightarrow> values_ok i am"
  using assms by (auto simp: ram_inv_def types_inv_def attributes_inv_def objects_inv_def)

lemma vec_get_Some_less: "vec_get vec i = Some x \<Longrightarrow> unat i < length vec"
  by (auto simp: vec_get_def split: if_splits)

lemma add_object_state:
  assumes rt: "ram_inv rt" and room: "length (objectsById rt) < 4294967296"
    and cm: "vec_get (childMapsById rt) p = Some cm" and new: "new = of_nat (length (objectsById rt))"
    and add: "add_object rt p cm t n ot = (rel, x, rt')"
  shows "rel = \<lparr>tr_childName = n, tr_parent = p, tr_child = new, tr_type = t\<rparr>"
    and "x = \<lparr>to_id = new, to_type = ot\<rparr>"
    and "vec_get (objectsById rt') = (vec_get (objectsById rt))(new \<mapsto> x)"
    and "vec_get (childMapsById rt') = (vec_get (childMapsById rt))(new \<mapsto> [], p \<mapsto> AList.update (n, t) rel cm)"
    and "vec_get (parentVectorsById rt') = (vec_get (parentVectorsById rt))(new \<mapsto> [rel])"
    and "vec_get (attributeMapsById rt') = (vec_get (attributeMapsById rt))(new \<mapsto> [])"
    and "typesById rt' = typesById rt" "typesByName rt' = typesByName rt"
    and "attributesById rt' = attributesById rt" "attributesByName rt' = attributesByName rt"
    and "length (objectsById rt') = Suc (length (objectsById rt))"
    and "length (childMapsById rt') = length (objectsById rt')"
    and "length (parentVectorsById rt') = length (objectsById rt')"
    and "length (attributeMapsById rt') = length (objectsById rt')"
  using add room objects_shapeD(3-5) [OF rt] vec_get_Some_less [OF cm]
  by (auto simp: add_object_def Let_def put_child_def new vec_get_append_map vec_get_update_map)

lemma add_object_inv:
  assumes rt: "ram_inv rt" and room: "length (objectsById rt) < 4294967296"
    and cm: "vec_get (childMapsById rt) p = Some cm" and fresh: "map_of cm (n, t) = None"
    and add: "add_object rt p cm t n ot = (rel, x, rt')"
  shows "ram_inv rt'"
proof -
  define new :: u32 where "new = of_nat (length (objectsById rt))"
  note st = add_object_state [OF rt room cm new_def add]
  have un: "unat new = length (objectsById rt)" using room by (simp add: new_def)
  have out: "vec_get (childMapsById rt) new = None" "vec_get (parentVectorsById rt) new = None"
    "vec_get (attributeMapsById rt) new = None" "new \<noteq> 0"
    using objects_shapeD [OF rt] un by auto
  then have pn: "p \<noteq> new" using cm by auto
  have less: "Suc (length (objectsById rt)) \<le> unat i \<longleftrightarrow> i \<noteq> new \<and> length (objectsById rt) \<le> unat i" for i
    using un unat_eq_iff [of i new] by linarith
  have "objects_shape rt'"
    using objects_shapeD(1,2) [OF rt] room out(4) pn vec_get_Some_less [OF cm] objects_shapeD(3) [OF rt]
    unfolding objects_shape_def st(3-6) st(11-14)
    by (auto simp: less objects_shapeD(6-9) [OF rt])
  moreover have "graph_ok (vec_get (childMapsById rt')) (vec_get (parentVectorsById rt'))"
    using graph_ok_add [OF graph_ok_new [OF ram_invD(3) [OF rt] out(1,2)], of rel cm "[]"] cm fresh st(1) out pn
    unfolding st(4,5) by (simp add: rel_key_def)
  moreover have "\<forall>i x. vec_get (objectsById rt') i = Some x \<longrightarrow> to_id x = i"
    using ram_invD(4) [OF rt] st(2) unfolding st(3) by auto
  moreover have "\<forall>i am. vec_get (attributeMapsById rt') i = Some am \<longrightarrow> values_ok i am"
    using ram_invD(5) [OF rt] unfolding st(6) by (auto simp: values_ok_def)
  ultimately show ?thesis
    using rt st(7-10) by (simp add: ram_inv_def objects_inv_def types_inv_def attributes_inv_def)
qed

lemma registerRelation_new:
  assumes rt: "ram_inv rt" and cm: "vec_get (childMapsById rt) p = Some cm"
    and pv: "vec_get (parentVectorsById rt) c = Some pv" and fresh: "map_of cm (n, t) = None"
    and rel: "rel = \<lparr>tr_childName = n, tr_parent = p, tr_child = c, tr_type = t\<rparr>"
    and reg: "registerRelation rt p t n c = (r, rt')"
  shows "r = Some rel"
    and "vec_get (childMapsById rt') = (vec_get (childMapsById rt))(p \<mapsto> AList.update (n, t) rel cm)"
    and "vec_get (parentVectorsById rt') = (vec_get (parentVectorsById rt))(c \<mapsto> pv @ [rel])"
    and "rt' = rt \<lparr>childMapsById := childMapsById rt', parentVectorsById := parentVectorsById rt'\<rparr>"
    and "length (childMapsById rt') = length (childMapsById rt)"
    and "length (parentVectorsById rt') = length (parentVectorsById rt)"
proof -
  have "c \<noteq> 0" using pv objects_shapeD(8) [OF rt, of c] by auto
  then have "(r, rt') = (Some rel, (put_child rt p cm rel)
      \<lparr>parentVectorsById := (parentVectorsById rt)[unat c := Some (pv @ [rel])]\<rparr>)"
    using reg fresh cm pv
    by (simp add: registerRelation_def ram_lookups [OF rt] rel Let_def put_child_def)
  then show "r = Some rel"
    and "vec_get (childMapsById rt') = (vec_get (childMapsById rt))(p \<mapsto> AList.update (n, t) rel cm)"
    and "vec_get (parentVectorsById rt') = (vec_get (parentVectorsById rt))(c \<mapsto> pv @ [rel])"
    and "rt' = rt \<lparr>childMapsById := childMapsById rt', parentVectorsById := parentVectorsById rt'\<rparr>"
    and "length (childMapsById rt') = length (childMapsById rt)"
    and "length (parentVectorsById rt') = length (parentVectorsById rt)"
    using vec_get_Some_less [OF cm] vec_get_Some_less [OF pv]
    by (simp_all add: put_child_def vec_get_update_map rel)
qed

lemma registerRelation_new_inv:
  assumes rt: "ram_inv rt" and cm: "vec_get (childMapsById rt) p = Some cm"
    and pv: "vec_get (parentVectorsById rt) c = Some pv" and fresh: "map_of cm (n, t) = None"
    and reg: "registerRelation rt p t n c = (r, rt')"
  shows "ram_inv rt'"
proof -
  define rel where "rel = \<lparr>tr_childName = n, tr_parent = p, tr_child = c, tr_type = t\<rparr>"
  note st = registerRelation_new [OF rt cm pv fresh rel_def reg]
  have frame: "typesById rt' = typesById rt" "typesByName rt' = typesByName rt"
    "attributesById rt' = attributesById rt" "attributesByName rt' = attributesByName rt"
    "objectsById rt' = objectsById rt" "attributeMapsById rt' = attributeMapsById rt"
    by (subst st(4), simp)+
  have "objects_shape rt'"
    using objects_shapeD(1-5) [OF rt] objects_shapeD(7) [OF rt, of p] objects_shapeD(8) [OF rt, of c] cm pv
    unfolding objects_shape_def st(2,3,5,6) frame
    by (auto simp: objects_shapeD(6-9) [OF rt])
  moreover have "graph_ok (vec_get (childMapsById rt')) (vec_get (parentVectorsById rt'))"
    using graph_ok_add [OF ram_invD(3) [OF rt], of rel cm pv] cm pv fresh
    unfolding st(2,3) by (simp add: rel_key_def rel_def)
  ultimately show ?thesis
    using rt by (simp add: ram_inv_def objects_inv_def types_inv_def attributes_inv_def frame)
qed

lemma registerRelation_old:
  assumes rt: "ram_inv rt"
    and old: "vec_get (childMapsById rt) p = None \<or> vec_get (parentVectorsById rt) c = None \<or>
      (\<exists>cm rel. vec_get (childMapsById rt) p = Some cm \<and> map_of cm (n, t) = Some rel)"
  shows "registerRelation rt p t n c =
    ((case lookupRelation rt p t n of
        Some rel \<Rightarrow> if tr_child rel = c then Some rel else None
      | None \<Rightarrow> None), rt)"
proof -
  have child: "c \<noteq> 0 \<and> vec_get (parentVectorsById rt) c \<noteq> None \<and> tr_type rel = t"
    if "vec_get (childMapsById rt) p = Some cm" "map_of cm (n, t) = Some rel" "tr_child rel = c" for cm rel
  proof -
    from graph_ok_childD [OF ram_invD(3) [OF rt] that(1)] that
    obtain pv where "vec_get (parentVectorsById rt) c = Some pv" "(n, t) = rel_key rel" by blast
    moreover from this(1) have "c \<noteq> 0" using objects_shapeD(8) [OF rt, of c] by auto
    ultimately show ?thesis by (simp add: rel_key_def)
  qed
  show ?thesis
  proof (cases "vec_get (childMapsById rt) p")
    case None
    then show ?thesis by (simp add: registerRelation_def lookupRelation_def ram_lookups [OF rt])
  next
    case (Some cm)
    then show ?thesis
      using old child [OF Some]
      by (auto simp: registerRelation_def lookupRelation_def ram_lookups [OF rt] split: option.splits)
  qed
qed

section \<open>The operations meet the contract of a topology\<close>

lemma ram_ops_sel [simp]:
  "top_registerType ram_ops = registerType" "top_lookupTypeByName ram_ops = lookupTypeByName"
  "top_lookupTypeById ram_ops = lookupTypeById" "top_registerObject ram_ops = registerObject"
  "top_lookupObjectById ram_ops = lookupObjectById" "top_registerRelation ram_ops = registerRelation"
  "top_lookupRelation ram_ops = lookupRelation" "top_enumerateChildren ram_ops = enumerateChildren"
  "top_enumerateParents ram_ops = enumerateParents" "top_registerAttribute ram_ops = registerAttribute"
  "top_lookupAttributeByName ram_ops = lookupAttributeByName"
  "top_lookupAttributeById ram_ops = lookupAttributeById" "top_setAttribute ram_ops = setAttribute"
  "top_getAttribute ram_ops = getAttribute" "top_enumerateAttributes ram_ops = enumerateAttributes"
  by (simp_all add: ram_ops_def)

lemmas ram_get_defs = lookupTypeByName_def lookupAttributeByName_def lookupRelation_def getAttribute_def

lemma ram_free_length:
  "0 < ram_free rt \<Longrightarrow> length (typesById rt) < 4294967296"
  "0 < ram_free rt \<Longrightarrow> length (objectsById rt) < 4294967296"
  "0 < ram_free rt \<Longrightarrow> length (attributesById rt) < 4294967296"
  by (auto simp: ram_free_def)

abbreviation ram_step :: "RamTopology \<Rightarrow> RamTopology \<Rightarrow> bool" where
  "ram_step \<equiv> topo_step ram_ops ram_inv ram_free"

lemma ram_step_refl [simp]: "ram_inv rt \<Longrightarrow> ram_step rt rt"
  by (simp add: topo_step_def)

lemma vec_get_append_mono:
  assumes "length vec < 4294967296" and "vec_get vec i = Some x"
  shows "vec_get (vec @ [y]) i = Some x"
  using assms vec_get_Some_less [OF assms(2)] by (simp add: vec_get_append)

lemma add_type_step:
  assumes rt: "ram_inv rt" and new: "typesByName rt n = None" and room: "0 < ram_free rt"
  shows "ram_step rt (snd (add_type rt n))"
proof -
  let ?rt = "snd (add_type rt n)"
  have inv: "ram_inv ?rt" using add_type_inv [OF rt new] ram_free_length(1) [OF room] by simp
  have "topo_ext ram_ops rt ?rt" and "getAttribute ?rt = getAttribute rt"
    unfolding topo_ext_def ram_ops_sel ram_get_defs ram_lookups [OF rt] ram_lookups [OF inv]
    using new vec_get_append_mono [OF ram_free_length(1) [OF room]]
    by (auto simp: add_type_def Let_def)
  moreover have "ram_free rt \<le> Suc (ram_free ?rt)"
    by (auto simp: ram_free_def add_type_def Let_def)
  ultimately show ?thesis using inv by (simp add: topo_step_def)
qed

lemma add_attribute_step:
  assumes rt: "ram_inv rt" and new: "attributesByName rt k = None" and room: "0 < ram_free rt"
  shows "ram_step rt (snd (add_attribute rt k dt))"
proof -
  let ?rt = "snd (add_attribute rt k dt)"
  have inv: "ram_inv ?rt" using add_attribute_inv [OF rt new] ram_free_length(3) [OF room] by simp
  have "topo_ext ram_ops rt ?rt" and "getAttribute ?rt = getAttribute rt"
    unfolding topo_ext_def ram_ops_sel ram_get_defs ram_lookups [OF rt] ram_lookups [OF inv]
    using new vec_get_append_mono [OF ram_free_length(3) [OF room]]
    by (auto simp: add_attribute_def Let_def)
  moreover have "ram_free rt \<le> Suc (ram_free ?rt)"
    by (auto simp: ram_free_def add_attribute_def Let_def)
  ultimately show ?thesis using inv by (simp add: topo_step_def)
qed

lemma add_object_step:
  assumes rt: "ram_inv rt" and room: "0 < ram_free rt"
    and cm: "vec_get (childMapsById rt) p = Some cm" and fresh: "map_of cm (n, t) = None"
    and add: "add_object rt p cm t n ot = (rel, x, rt')"
  shows "ram_step rt rt'" and "to_type x = ot" and "lookupObjectById rt' (to_id x) = Some x"
    and "lookupRelation rt' p t n = Some rel" and "tr_child rel = to_id x"
proof -
  have len: "length (objectsById rt) < 4294967296" using ram_free_length(2) [OF room] .
  define new :: u32 where "new = of_nat (length (objectsById rt))"
  have un: "unat new = length (objectsById rt)" using len by (simp add: new_def)
  have out: "vec_get (objectsById rt) new = None" "vec_get (childMapsById rt) new = None"
    "vec_get (attributeMapsById rt) new = None"
    using objects_shapeD [OF rt] un by auto
  note st = add_object_state [OF rt len cm new_def add]
  have inv: "ram_inv rt'" by (rule add_object_inv [OF rt len cm fresh add])
  have "topo_ext ram_ops rt rt'"
    unfolding topo_ext_def ram_ops_sel ram_get_defs ram_lookups [OF rt] ram_lookups [OF inv] st(3-10)
    using out fresh cm by (auto simp: update_conv split: option.splits)
  moreover have "getAttribute rt' = getAttribute rt"
    unfolding ram_get_defs ram_lookups [OF rt] ram_lookups [OF inv] st(6)
    using out by (auto simp: fun_eq_iff)
  moreover have "ram_free rt \<le> Suc (ram_free rt')"
    by (auto simp: ram_free_def st)
  ultimately show "ram_step rt rt'" using inv by (simp add: topo_step_def)
  show "to_type x = ot" "tr_child rel = to_id x" using st(1,2) by simp_all
  show "lookupObjectById rt' (to_id x) = Some x"
    using st(2) unfolding ram_lookups [OF inv] st(3) by simp
  show "lookupRelation rt' p t n = Some rel"
    unfolding ram_get_defs ram_lookups [OF inv] st(4) by (simp add: update_conv)
qed

lemma add_relation_step:
  assumes rt: "ram_inv rt" and cm: "vec_get (childMapsById rt) p = Some cm"
    and pv: "vec_get (parentVectorsById rt) c = Some pv" and fresh: "map_of cm (n, t) = None"
    and reg: "registerRelation rt p t n c = (r, rt')"
  shows "ram_step rt rt'" and "ram_free rt' = ram_free rt"
    and "\<exists>rel. r = Some rel \<and> lookupRelation rt' p t n = Some rel \<and> tr_child rel = c"
proof -
  define rel where "rel = \<lparr>tr_childName = n, tr_parent = p, tr_child = c, tr_type = t\<rparr>"
  note st = registerRelation_new [OF rt cm pv fresh rel_def reg]
  have frame: "typesById rt' = typesById rt" "typesByName rt' = typesByName rt"
    "attributesById rt' = attributesById rt" "attributesByName rt' = attributesByName rt"
    "objectsById rt' = objectsById rt" "attributeMapsById rt' = attributeMapsById rt"
    by (subst st(4), simp)+
  have inv: "ram_inv rt'" by (rule registerRelation_new_inv [OF rt cm pv fresh reg])
  have "topo_ext ram_ops rt rt'"
    unfolding topo_ext_def ram_ops_sel ram_get_defs ram_lookups [OF rt] ram_lookups [OF inv] st(2) frame
    using fresh cm by (auto simp: update_conv split: option.splits)
  moreover have "getAttribute rt' = getAttribute rt"
    unfolding ram_get_defs ram_lookups [OF rt] ram_lookups [OF inv] frame ..
  moreover show free: "ram_free rt' = ram_free rt" by (simp add: ram_free_def frame)
  ultimately show "ram_step rt rt'" using inv by (simp add: topo_step_def)
  show "\<exists>rel. r = Some rel \<and> lookupRelation rt' p t n = Some rel \<and> tr_child rel = c"
    using st(1) unfolding ram_get_defs ram_lookups [OF inv] st(2) by (simp add: update_conv rel_def)
qed

text \<open>Writing a value.\<close>

lemma write_value:
  assumes rt: "ram_inv rt" and am: "vec_get (attributeMapsById rt) i = Some am"
    and rt': "rt' = rt \<lparr>attributeMapsById := (attributeMapsById rt)[unat i :=
      Some (AList.update k \<lparr>tv_value = v, tv_object = i, tv_attribute = k\<rparr> am)]\<rparr>"
  shows "ram_inv rt'" and "ram_free rt' = ram_free rt" and "topo_ext ram_ops rt rt'"
    and "getAttribute rt' j l =
      (if (j, l) = (i, k) then Some \<lparr>tv_value = v, tv_object = i, tv_attribute = k\<rparr> else getAttribute rt j l)"
proof -
  let ?v = "\<lparr>tv_value = v, tv_object = i, tv_attribute = k\<rparr>"
  have len: "unat i < length (attributeMapsById rt)" by (rule vec_get_Some_less [OF am])
  have upd: "vec_get (attributeMapsById rt') = (vec_get (attributeMapsById rt))(i \<mapsto> AList.update k ?v am)"
    using len by (simp add: rt' vec_get_update_map)
  have frame: "typesById rt' = typesById rt" "typesByName rt' = typesByName rt"
    "attributesById rt' = attributesById rt" "attributesByName rt' = attributesByName rt"
    "objectsById rt' = objectsById rt" "childMapsById rt' = childMapsById rt"
    "parentVectorsById rt' = parentVectorsById rt"
    "length (attributeMapsById rt') = length (attributeMapsById rt)"
    by (simp_all add: rt')
  have "objects_shape rt'"
    using objects_shapeD(1-5) [OF rt] objects_shapeD(9) [OF rt, of i] am
    unfolding objects_shape_def upd frame by (auto simp: objects_shapeD(6-9) [OF rt])
  moreover have "values_ok j am'" if "vec_get (attributeMapsById rt') j = Some am'" for j am'
    using that ram_invD(5) [OF rt] am unfolding upd
    by (auto simp: values_ok_def update_conv distinct_update split: if_splits)
  ultimately show inv: "ram_inv rt'"
    using rt by (simp add: ram_inv_def objects_inv_def types_inv_def attributes_inv_def frame)
  show "ram_free rt' = ram_free rt" by (simp add: ram_free_def frame)
  show "topo_ext ram_ops rt rt'"
    unfolding topo_ext_def ram_ops_sel ram_get_defs ram_lookups [OF rt] ram_lookups [OF inv] frame by simp
  show "getAttribute rt' j l = (if (j, l) = (i, k) then Some ?v else getAttribute rt j l)"
    unfolding ram_get_defs ram_lookups [OF rt] ram_lookups [OF inv] upd
    using am by (auto simp: update_conv)
qed

lemma setAttribute_cases:
  assumes rt: "ram_inv rt" and set: "setAttribute rt i k v = (b, rt')"
  obtains "\<not> b" "rt' = rt" "lookupObjectById rt i = None"
  | tv where "b" "rt' = rt" "lookupObjectById rt i \<noteq> None" "getAttribute rt i k = Some tv" "vd_eq (tv_value tv) v"
  | am where "b" "lookupObjectById rt i \<noteq> None" "vec_get (attributeMapsById rt) i = Some am"
      "rt' = rt \<lparr>attributeMapsById := (attributeMapsById rt)[unat i :=
        Some (AList.update k \<lparr>tv_value = v, tv_object = i, tv_attribute = k\<rparr> am)]\<rparr>"
proof (cases "vec_get (attributeMapsById rt) i")
  case None
  then have "lookupObjectById rt i = None"
    using objects_shapeD(6,9) [OF rt, of i] by (simp add: ram_lookups [OF rt])
  moreover from None have "\<not> b" "rt' = rt" using set by (simp_all add: setAttribute_def ram_lookups [OF rt])
  ultimately have "\<not> b" "rt' = rt" "lookupObjectById rt i = None" by simp_all
  then show thesis by (rule that(1))
next
  case (Some am)
  then have x: "lookupObjectById rt i \<noteq> None"
    using objects_shapeD(6,9) [OF rt, of i] by (auto simp: ram_lookups [OF rt])
  show thesis
  proof (cases "\<exists>tv. map_of am k = Some tv \<and> \<not> vd_ne v (tv_value tv)")
    case True
    then obtain tv where "map_of am k = Some tv" "\<not> vd_ne v (tv_value tv)" by blast
    then have "b" "rt' = rt" "getAttribute rt i k = Some tv" "vd_eq (tv_value tv) v"
      using set Some unfolding setAttribute_def getAttribute_def ram_lookups [OF rt]
      by (simp_all add: vd_ne_def)
    with x show thesis using that(2) by blast
  next
    case False
    then have "b" "rt' = rt \<lparr>attributeMapsById := (attributeMapsById rt)[unat i :=
        Some (AList.update k \<lparr>tv_value = v, tv_object = i, tv_attribute = k\<rparr> am)]\<rparr>"
      using set Some by (auto simp: setAttribute_def ram_lookups [OF rt] split: option.splits)
    with x Some show thesis using that(3) by blast
  qed
qed

lemma setAttribute_law:
  assumes rt: "ram_inv rt" and set: "setAttribute rt i k v = (b, rt')"
  shows "ram_inv rt' \<and> ram_free rt' = ram_free rt \<and> topo_ext ram_ops rt rt' \<and>
    (b \<longleftrightarrow> lookupObjectById rt i \<noteq> None) \<and>
    (\<forall>j l. (j, l) \<noteq> (i, k) \<or> \<not> b \<longrightarrow> getAttribute rt' j l = getAttribute rt j l) \<and>
    (b \<longrightarrow> (\<exists>tv. getAttribute rt' i k = Some tv \<and> (tv_value tv = v \<or> vd_eq (tv_value tv) v)))"
  using rt set
proof (cases rule: setAttribute_cases)
  case (3 am)
  note w = write_value [OF rt 3(3,4)]
  show ?thesis using w(1-3) 3(1,2) by (auto simp: w(4))
qed (use rt in auto)

lemma lookupRelation_graph:
  assumes rt: "ram_inv rt" and rel: "lookupRelation rt p t n = Some rel"
  shows "tr_childName rel = n" and "tr_parent rel = p" and "tr_type rel = t"
    and "\<exists>x. lookupObjectById rt (tr_child rel) = Some x"
proof -
  from rel obtain cm where cm: "vec_get (childMapsById rt) p = Some cm" "map_of cm (n, t) = Some rel"
    by (auto simp: lookupRelation_def ram_lookups [OF rt] split: option.splits)
  note g = graph_ok_childD [OF ram_invD(3) [OF rt] cm(1)]
  show "tr_childName rel = n" "tr_parent rel = p" "tr_type rel = t"
    using g(2,3) [OF cm(2)] by (simp_all add: rel_key_def)
  from g(4) [OF cm(2)] have "vec_get (parentVectorsById rt) (tr_child rel) \<noteq> None" by auto
  then show "\<exists>x. lookupObjectById rt (tr_child rel) = Some x"
    using objects_shapeD(6,8) [OF rt, of "tr_child rel"] by (auto simp: ram_lookups [OF rt])
qed

lemma registerObject_law:
  assumes rt: "ram_inv rt" and room: "0 < ram_free rt"
  shows "\<exists>r rt'. registerObject rt p t n ot = Inr (r, rt') \<and> ram_step rt rt' \<and>
    (case r of Some x \<Rightarrow> to_type x = ot \<and> lookupObjectById rt' (to_id x) = Some x \<and>
       (\<exists>rel. lookupRelation rt' p t n = Some rel \<and> tr_child rel = to_id x)
     | None \<Rightarrow> rt' = rt \<and> (p \<noteq> 0 \<and> lookupObjectById rt p = None \<or>
       (\<exists>rel x. lookupRelation rt p t n = Some rel \<and>
          lookupObjectById rt (tr_child rel) = Some x \<and> to_type x \<noteq> ot)))"
proof (cases "vec_get (childMapsById rt) p")
  case None
  then have "p \<noteq> 0" "lookupObjectById rt p = None"
    using objects_shapeD(1) [OF rt] objects_shapeD(6,7) [OF rt, of p] by (auto simp: ram_lookups [OF rt])
  with None show ?thesis using rt by (simp add: registerObject_def ram_lookups [OF rt])
next
  case (Some cm)
  show ?thesis
  proof (cases "map_of cm (n, t)")
    case None
    obtain rel x rt' where add: "add_object rt p cm t n ot = (rel, x, rt')" by (metis prod_cases3)
    then show ?thesis
      using add_object_step [OF rt room Some None add] None Some
      by (simp add: registerObject_def ram_lookups [OF rt])
  next
    case rel: (Some rel)
    then have look: "lookupRelation rt p t n = Some rel"
      using Some by (simp add: lookupRelation_def ram_lookups [OF rt])
    note g = lookupRelation_graph [OF rt look]
    then obtain x where x: "vec_get (objectsById rt) (tr_child rel) = Some x"
      by (auto simp: ram_lookups [OF rt])
    have id: "to_id x = tr_child rel" by (rule ram_invD(4) [OF rt x])
    have "check_found rt t ot rel = Inr (if to_type x \<noteq> ot then None else Some x)"
      using g(3) x vec_get_Some_less [OF x] by (simp add: check_found_def vec_get_def)
    then show ?thesis
      using rel Some x id look rt by (auto simp: registerObject_def ram_lookups [OF rt])
  qed
qed

lemma registerObject_again_law:
  assumes rt: "ram_inv rt" and rel: "lookupRelation rt p t n = Some rel"
    and x: "lookupObjectById rt (tr_child rel) = Some x"
  shows "registerObject rt p t n ot = Inr (if to_type x = ot then Some x else None, rt)"
proof -
  from rel obtain cm where cm: "vec_get (childMapsById rt) p = Some cm" "map_of cm (n, t) = Some rel"
    by (auto simp: lookupRelation_def ram_lookups [OF rt] split: option.splits)
  moreover have "check_found rt t ot rel = Inr (if to_type x \<noteq> ot then None else Some x)"
    using lookupRelation_graph(3) [OF rt rel] x
    by (auto simp: check_found_def lookupObjectById_def split: if_splits)
  ultimately show ?thesis by (simp add: registerObject_def ram_lookups [OF rt])
qed

lemma registerRelation_law:
  assumes rt: "ram_inv rt" and reg: "registerRelation rt p t n c = (r, rt')"
  shows "ram_step rt rt' \<and> ram_free rt' = ram_free rt \<and>
    (\<forall>rel. r = Some rel \<longrightarrow> lookupRelation rt' p t n = Some rel \<and> tr_child rel = c)"
proof (cases "\<exists>cm pv. vec_get (childMapsById rt) p = Some cm \<and> vec_get (parentVectorsById rt) c = Some pv \<and>
    map_of cm (n, t) = None")
  case True
  then obtain cm pv where "vec_get (childMapsById rt) p = Some cm"
    "vec_get (parentVectorsById rt) c = Some pv" "map_of cm (n, t) = None" by blast
  from add_relation_step [OF rt this reg] show ?thesis by auto
next
  case False
  then have "vec_get (childMapsById rt) p = None \<or> vec_get (parentVectorsById rt) c = None \<or>
      (\<exists>cm rel. vec_get (childMapsById rt) p = Some cm \<and> map_of cm (n, t) = Some rel)"
    by (meson not_None_eq)
  from registerRelation_old [OF rt this] reg rt show ?thesis
    by (auto split: option.splits if_splits)
qed

lemma children_law:
  assumes rt: "ram_inv rt"
  shows "rel \<in> set (enumerateChildren rt p t) \<longleftrightarrow>
      (t = 0 \<or> tr_type rel = t) \<and> (\<exists>u n. lookupRelation rt p u n = Some rel)"
    and "distinct (enumerateChildren rt p t)"
proof -
  have "rel \<in> snd ` set cm \<longleftrightarrow> (\<exists>u n. map_of cm (n, u) = Some rel)" and "distinct (map snd cm)"
    if cm: "vec_get (childMapsById rt) p = Some cm" for cm
  proof -
    note g = graph_ok_childD [OF ram_invD(3) [OF rt] cm]
    show "rel \<in> snd ` set cm \<longleftrightarrow> (\<exists>u n. map_of cm (n, u) = Some rel)"
      using g(1) by (force simp: map_of_eq_Some_iff image_iff)
    have "k = rel_key r" if "(k, r) \<in> set cm" for k r
      using g(1,2) that by (simp add: map_of_eq_Some_iff)
    then have "inj_on snd (set cm)" by (intro inj_onI) (metis prod.collapse)
    then show "distinct (map snd cm)" using g(1) by (simp add: distinct_map)
  qed
  then show "rel \<in> set (enumerateChildren rt p t) \<longleftrightarrow>
      (t = 0 \<or> tr_type rel = t) \<and> (\<exists>u n. lookupRelation rt p u n = Some rel)"
    and "distinct (enumerateChildren rt p t)"
    unfolding enumerateChildren_def lookupRelation_def ram_lookups [OF rt]
    by (cases "vec_get (childMapsById rt) p"; fastforce)+
qed

lemma parents_law:
  assumes rt: "ram_inv rt"
  shows "rel \<in> set (enumerateParents rt c t) \<longleftrightarrow> tr_child rel = c \<and> (t = 0 \<or> tr_type rel = t) \<and>
    lookupRelation rt (tr_parent rel) (tr_type rel) (tr_childName rel) = Some rel"
proof -
  have look: "lookupRelation rt (tr_parent rel) (tr_type rel) (tr_childName rel) = Some rel \<longleftrightarrow>
      (\<exists>cm. vec_get (childMapsById rt) (tr_parent rel) = Some cm \<and> map_of cm (rel_key rel) = Some rel)"
    by (simp add: lookupRelation_def ram_lookups [OF rt] rel_key_def split: option.splits)
  have "tr_child rel = c \<and> (\<exists>cm. vec_get (childMapsById rt) (tr_parent rel) = Some cm \<and>
      map_of cm (rel_key rel) = Some rel) \<longleftrightarrow>
    (\<exists>pv. vec_get (parentVectorsById rt) c = Some pv \<and> rel \<in> set pv)"
    using graph_ok_parentD [OF ram_invD(3) [OF rt]] graph_ok_childD(4) [OF ram_invD(3) [OF rt]] by metis
  then show ?thesis
    unfolding look by (auto simp: enumerateParents_def ram_lookups [OF rt] split: option.splits)
qed

lemma attributes_law:
  assumes rt: "ram_inv rt"
  shows "tv \<in> set (enumerateAttributes rt i) \<longleftrightarrow> (\<exists>k. getAttribute rt i k = Some tv)"
    and "getAttribute rt i k = Some tv \<Longrightarrow>
      tv_object tv = i \<and> tv_attribute tv = k \<and> lookupObjectById rt i \<noteq> None"
proof -
  show "tv \<in> set (enumerateAttributes rt i) \<longleftrightarrow> (\<exists>k. getAttribute rt i k = Some tv)"
  proof (cases "vec_get (attributeMapsById rt) i")
    case (Some am)
    then have "distinct (map fst am)" using ram_invD(5) [OF rt] by (auto simp: values_ok_def)
    then show ?thesis using Some
      by (force simp: enumerateAttributes_def getAttribute_def ram_lookups [OF rt] map_of_eq_Some_iff image_iff)
  qed (simp add: enumerateAttributes_def getAttribute_def ram_lookups [OF rt])
  assume "getAttribute rt i k = Some tv"
  then obtain am where am: "vec_get (attributeMapsById rt) i = Some am" "map_of am k = Some tv"
    by (auto simp: getAttribute_def ram_lookups [OF rt] split: option.splits)
  then have "tv_object tv = i" "tv_attribute tv = k"
    using ram_invD(5) [OF rt am(1)] by (auto simp: values_ok_def)
  moreover have "vec_get (attributeMapsById rt) i \<noteq> None" using am by simp
  then have "lookupObjectById rt i \<noteq> None"
    using objects_shapeD(6,9) [OF rt, of i] by (simp add: ram_lookups [OF rt])
  ultimately show "tv_object tv = i \<and> tv_attribute tv = k \<and> lookupObjectById rt i \<noteq> None" by simp
qed

lemma registerType_law:
  assumes rt: "ram_inv rt" and room: "0 < ram_free rt" and reg: "registerType rt n = (r, rt')"
  shows "ram_step rt rt' \<and> (\<exists>t. r = Some t \<and> lookupTypeByName rt' n = Some t)"
proof (cases "typesByName rt n")
  case None
  then have "rt' = snd (add_type rt n)" "r = Some (fst (add_type rt n))"
    using reg by (auto simp: registerType_def split: prod.splits)
  then show ?thesis using add_type_step [OF rt None room]
    by (simp add: lookupTypeByName_def add_type_def Let_def)
next
  case (Some t)
  then have "r = Some t" "rt' = rt" using reg by (auto simp: registerType_def)
  then show ?thesis using Some rt by (simp add: lookupTypeByName_def)
qed

lemma registerAttribute_law:
  assumes rt: "ram_inv rt" and room: "0 < ram_free rt" and reg: "registerAttribute rt d n dt = (r, rt')"
  shows "ram_step rt rt' \<and>
    (case r of Some a \<Rightarrow> ta_dataType a = dt \<and> lookupAttributeByName rt' d n = Some a
     | None \<Rightarrow> rt' = rt \<and> (\<exists>a. lookupAttributeByName rt d n = Some a \<and> ta_dataType a \<noteq> dt))"
proof (cases "attributesByName rt (d, n)")
  case None
  then have "rt' = snd (add_attribute rt (d, n) dt)" "r = Some (fst (add_attribute rt (d, n) dt))"
    using reg by (auto simp: registerAttribute_def add_attribute_def Let_def)
  then show ?thesis using add_attribute_step [OF rt None room]
    by (simp add: lookupAttributeByName_def add_attribute_def Let_def)
next
  case (Some a)
  then have "r = (if ta_dataType a = dt then Some a else None)" "rt' = rt"
    using reg by (auto simp: registerAttribute_def)
  then show ?thesis using Some rt by (simp add: lookupAttributeByName_def)
qed

interpretation ram: topology ram_ops ram_inv ram_free
proof (unfold_locales, unfold ram_ops_sel, goal_cases)
  case (1 s n r s') then show ?case by (rule registerType_law)
next
  case (2 s n t) then show ?case by (simp add: registerType_def lookupTypeByName_def)
next
  case (3 s n t) then show ?case
    using id_tableD(1-3) [OF ram_invD(1)] by (simp add: lookupTypeByName_def ram_lookups)
next
  case (4 s p t n ot) then show ?case by (rule registerObject_law)
next
  case (5 s p t n rel x ot) then show ?case by (rule registerObject_again_law)
next
  case (6 s i x) then show ?case
    using ram_invD(4) [OF 6(1)] objects_shapeD(6) [OF 6(1), of i] by (auto simp: ram_lookups)
next
  case (7 s p t n c r s') then show ?case by (rule registerRelation_law)
next
  case (8 s p t n rel) then show ?case using lookupRelation_graph [OF 8] by simp
next
  case (9 s rel p t) then show ?case by (rule children_law(1))
next
  case (10 s p t) then show ?case by (rule children_law(2))
next
  case (11 s rel c t) then show ?case by (rule parents_law)
next
  case (12 s d n dt r s') then show ?case by (rule registerAttribute_law)
next
  case (13 s d n a dt) then show ?case by (simp add: registerAttribute_def lookupAttributeByName_def)
next
  case (14 s d n a) then show ?case
    using id_tableD(1-3) [OF ram_invD(2)] by (fastforce simp: lookupAttributeByName_def ram_lookups)
next
  case (15 s i a) then show ?case
    using id_tableD(4,5) [OF ram_invD(2)] by (simp add: lookupAttributeByName_def ram_lookups)
next
  case (16 s i k v b s') then show ?case by (rule setAttribute_law)
next
  case (17 s tv i) then show ?case by (rule attributes_law(1))
next
  case (18 s i k tv) then show ?case by (rule attributes_law(2))
next
  case (19 s i ty) then show ?case
    using id_tableD(4,5) [OF ram_invD(1)] by (simp add: lookupTypeByName_def ram_lookups)
qed

interpretation type_registry: registry typesByName "\<lambda>rt n (u :: unit). snd (add_type rt n)"
  by unfold_locales (auto simp: add_type_def Let_def)

interpretation attribute_registry: registry attributesByName "\<lambda>rt k dt. snd (add_attribute rt k dt)"
  by unfold_locales (auto simp: add_attribute_def Let_def)

section \<open>Properties\<close>

text \<open>The operations that change a topology, as data, and a run of a sequence of them.\<close>

datatype ram_op =
  OpType string
| OpObject TopologyObjectId TopologyTypeId string TopologyTypeId
| OpRelation TopologyObjectId TopologyTypeId string TopologyObjectId
| OpAttribute TopologyTypeId string Type
| OpSet TopologyObjectId TopologyAttributeId TopologyVariable

fun ram_exec :: "RamTopology \<Rightarrow> ram_op \<Rightarrow> RamTopology outcome" where
  "ram_exec rt (OpType n) = Inr (snd (registerType rt n))"
| "ram_exec rt (OpObject p t n ot) = bindr (registerObject rt p t n ot) (\<lambda>(r, rt'). Inr rt')"
| "ram_exec rt (OpRelation p t n c) = Inr (snd (registerRelation rt p t n c))"
| "ram_exec rt (OpAttribute d n dt) = Inr (snd (registerAttribute rt d n dt))"
| "ram_exec rt (OpSet i k v) = Inr (snd (setAttribute rt i k v))"

fun ram_run :: "RamTopology \<Rightarrow> ram_op list \<Rightarrow> RamTopology outcome" where
  "ram_run rt [] = Inr rt"
| "ram_run rt (x # xs) = bindr (ram_exec rt x) (\<lambda>rt'. ram_run rt' xs)"

lemma ram_exec_ok:
  assumes "ram_inv rt" and "0 < ram_free rt"
  shows "\<exists>rt'. ram_exec rt x = Inr rt' \<and> ram_inv rt' \<and> ram_free rt \<le> Suc (ram_free rt') \<and> topo_ext ram_ops rt rt'"
proof (cases x)
  case (OpType n)
  then show ?thesis using registerType_law [OF assms, of n]
    by (cases "registerType rt n") (auto simp: topo_step_def)
next
  case (OpObject p t n ot)
  then show ?thesis using registerObject_law [OF assms, of p t n ot] by (auto simp: topo_step_def)
next
  case (OpRelation p t n c)
  then show ?thesis using registerRelation_law [OF assms(1), of p t n c]
    by (cases "registerRelation rt p t n c") (auto simp: topo_step_def)
next
  case (OpAttribute d n dt)
  then show ?thesis using registerAttribute_law [OF assms, of d n dt]
    by (cases "registerAttribute rt d n dt") (auto simp: topo_step_def)
next
  case (OpSet i k v)
  then show ?thesis using setAttribute_law [OF assms(1), of i k v]
    by (cases "setAttribute rt i k v") auto
qed

lemma ram_run_ok:
  assumes "ram_inv rt" and "length xs \<le> ram_free rt"
  shows "\<exists>rt'. ram_run rt xs = Inr rt' \<and> ram_inv rt' \<and> topo_ext ram_ops rt rt'"
  using assms
proof (induction xs arbitrary: rt)
  case (Cons x xs)
  then obtain rt1 where 1: "ram_exec rt x = Inr rt1" "ram_inv rt1" "ram_free rt \<le> Suc (ram_free rt1)"
    "topo_ext ram_ops rt rt1" using ram_exec_ok [of rt x] by auto
  then obtain rt2 where 2: "ram_run rt1 xs = Inr rt2" "ram_inv rt2" "topo_ext ram_ops rt1 rt2"
    using Cons by fastforce
  show ?case using 1 2 topo_ext_trans [OF 1(4) 2(3)] by simp
qed auto

text \<open>
  C1 (invariant): the RAM topology is consistent after every sequence of fewer than \<open>2 ^ 32\<close>
  operations on a new one, with whatever arguments. No operation dereferences a null handle or
  leaves a vector, the vectors by id and the maps by name agree, the child maps and the parent
  vectors hold the same relations, and ids are unique.
\<close>

theorem ram_reachable_consistent:
  assumes "length xs < 2 ^ 32"
  shows "\<exists>rt. ram_run RamTopology_new xs = Inr rt \<and> ram_inv rt"
proof -
  have "length xs \<le> ram_free RamTopology_new"
    using assms by (simp add: ram_free_def RamTopology_new_def)
  then show ?thesis using ram_run_ok [OF ram_inv_new] by blast
qed

theorem ram_reachable_consistent_witness:
  "\<exists>rt. ram_run RamTopology_new [OpType ''Node'', OpObject 0 1 ''west1'' 1, OpRelation 1 1 ''self'' 1] = Inr rt \<and>
     ram_inv rt"
  using ram_reachable_consistent [of "[OpType ''Node'', OpObject 0 1 ''west1'' 1, OpRelation 1 1 ''self'' 1]"]
  by (simp del: ram_run.simps)

text \<open>
  Nothing is ever forgotten. Whatever a lookup of a type, an object, a relation or
  an attribute returned in a consistent state, it returns after any further operations.
\<close>

theorem ram_lookups_stable:
  assumes "ram_inv rt" and "length xs \<le> ram_free rt" and "ram_run rt xs = Inr rt'"
  shows "(lookupTypeByName rt n = Some t \<longrightarrow> lookupTypeByName rt' n = Some t) \<and>
    (lookupObjectById rt i = Some x \<longrightarrow> lookupObjectById rt' i = Some x) \<and>
    (lookupRelation rt p u m = Some rel \<longrightarrow> lookupRelation rt' p u m = Some rel) \<and>
    (lookupAttributeByName rt d k = Some a \<longrightarrow> lookupAttributeByName rt' d k = Some a)"
proof -
  have "topo_ext ram_ops rt rt'" using ram_run_ok [OF assms(1,2)] assms(3) by auto
  from topo_extD(1,3-5) [OF this] show ?thesis by simp
qed

theorem ram_lookups_stable_witness:
  "\<exists>rt'. ram_run (snd (registerType RamTopology_new ''Node'')) [OpType ''Disk''] = Inr rt' \<and>
     lookupTypeByName rt' ''Node'' = Some \<lparr>tt_name = ''Node'', tt_id = 1\<rparr>"
proof -
  let ?rt = "snd (registerType RamTopology_new ''Node'')"
  have inv: "ram_inv ?rt"
    using registerType_law [OF ram_inv_new, of "''Node''"]
    by (cases "registerType RamTopology_new ''Node''") (simp add: topo_step_def ram_free_def RamTopology_new_def)
  have room: "length [OpType ''Disk''] \<le> ram_free ?rt"
    by (simp add: ram_free_def registerType_def add_type_def Let_def RamTopology_new_def)
  obtain rt' where run: "ram_run ?rt [OpType ''Disk''] = Inr rt'" by simp
  have "lookupTypeByName ?rt ''Node'' = Some \<lparr>tt_name = ''Node'', tt_id = 1\<rparr>"
    by (simp add: lookupTypeByName_def registerType_def add_type_def Let_def RamTopology_new_def)
  then show ?thesis using ram_lookups_stable [OF inv room run, of "''Node''"] run by blast
qed

text \<open>
  \<open>registerObject\<close> on every branch. With ids left it returns normally; the result
  is an object of the requested type that the relation leads to, or null with the topology
  unchanged, and the latter only when the parent does not exist or the name is taken by an
  object of another type.
\<close>

theorem registerObject_outcomes:
  assumes "ram_inv rt" and "0 < ram_free rt"
  shows "\<exists>r rt'. registerObject rt p t n ot = Inr (r, rt') \<and> ram_inv rt' \<and>
    (case r of
       Some x \<Rightarrow> to_type x = ot \<and> lookupObjectById rt' (to_id x) = Some x \<and>
         (\<exists>rel. lookupRelation rt' p t n = Some rel \<and> tr_child rel = to_id x)
     | None \<Rightarrow> rt' = rt \<and> (p \<noteq> 0 \<and> lookupObjectById rt p = None \<or>
         (\<exists>rel x. lookupRelation rt p t n = Some rel \<and> lookupObjectById rt (tr_child rel) = Some x \<and> to_type x \<noteq> ot)))"
  using registerObject_law [OF assms, of p t n ot] unfolding topo_step_def by blast

theorem registerObject_outcomes_witness:
  "\<exists>r rt'. registerObject RamTopology_new 0 1 ''west1'' 2 = Inr (r, rt') \<and> ram_inv rt'"
proof -
  have "0 < ram_free RamTopology_new" by (simp add: ram_free_def RamTopology_new_def)
  from registerObject_outcomes [OF ram_inv_new this, of 0 1 "''west1''" 2] show ?thesis by blast
qed

text \<open>
  The relations of the topology can be walked in both directions. In a
  consistent topology a relation is enumerated among the children of its parent exactly when it
  is enumerated among the parents of its child, and no child is enumerated twice.
\<close>

theorem ram_children_parents:
  assumes "ram_inv rt"
  shows "(rel \<in> set (enumerateChildren rt (tr_parent rel) 0) \<longleftrightarrow> rel \<in> set (enumerateParents rt (tr_child rel) 0)) \<and>
    distinct (enumerateChildren rt p t)"
proof -
  have "(\<exists>u n. lookupRelation rt (tr_parent rel) u n = Some rel) \<longleftrightarrow>
      lookupRelation rt (tr_parent rel) (tr_type rel) (tr_childName rel) = Some rel"
    using lookupRelation_graph [OF assms] by blast
  then show ?thesis using children_law [OF assms] parents_law [OF assms] by simp
qed

theorem ram_children_parents_witness:
  "\<exists>rt. ram_run RamTopology_new [OpType ''Node'', OpObject 0 1 ''west1'' 1] = Inr rt \<and>
     \<lparr>tr_childName = ''west1'', tr_parent = 0, tr_child = 1, tr_type = 1\<rparr> \<in> set (enumerateParents rt 1 0)"
proof -
  let ?ops = "[OpType ''Node'', OpObject 0 1 ''west1'' 1]"
  let ?r = "\<lparr>tr_childName = ''west1'', tr_parent = 0, tr_child = 1, tr_type = 1\<rparr>"
  have "length ?ops \<le> ram_free RamTopology_new" by (simp add: ram_free_def RamTopology_new_def)
  then obtain rt where rt: "ram_run RamTopology_new ?ops = Inr rt" "ram_inv rt"
    using ram_run_ok [OF ram_inv_new] by blast
  have "(case ram_run RamTopology_new ?ops of Inr t \<Rightarrow> ?r \<in> set (enumerateChildren t 0 0) | Inl _ \<Rightarrow> False)"
    by code_simp
  then have "?r \<in> set (enumerateChildren rt 0 0)" using rt(1) by (simp del: ram_run.simps)
  then show ?thesis using ram_children_parents [OF rt(2), of ?r] rt(1) by (auto simp del: ram_run.simps)
qed

text \<open>
  Attribute values. \<open>setAttribute\<close> succeeds exactly on existing objects; after a
  success \<open>getAttribute\<close> returns a value that is the given one or compares equal to it, and all
  other values are as before.
\<close>

theorem ram_set_get_attribute:
  assumes "ram_inv rt" and "setAttribute rt i k v = (b, rt')"
  shows "ram_inv rt' \<and> (b \<longleftrightarrow> lookupObjectById rt i \<noteq> None) \<and>
    (b \<longrightarrow> (\<exists>tv. getAttribute rt' i k = Some tv \<and> (tv_value tv = v \<or> vd_eq (tv_value tv) v))) \<and>
    (\<forall>j l. (j, l) \<noteq> (i, k) \<longrightarrow> getAttribute rt' j l = getAttribute rt j l)"
  using setAttribute_law [OF assms] by blast

theorem ram_set_get_attribute_witness:
  "\<not> fst (setAttribute RamTopology_new 1 1 (VInt32 5))"
proof -
  obtain b rt' where set: "setAttribute RamTopology_new 1 1 (VInt32 5) = (b, rt')" by (meson surj_pair)
  show ?thesis using ram_set_get_attribute [OF ram_inv_new set] set
    by (simp add: lookupObjectById_def RamTopology_new_def)
qed

text \<open>
  C32 (safety): concurrent registration of types. Let any number of threads call \<open>registerType\<close>,
  with their two locked sections interleaved in any order. Threads that have returned for the
  same name hold the same type, which is the one registered under the name; as long as a thread
  has not returned some thread can make a step, and the number of steps is bounded.
\<close>

theorem registerType_threads_agree:
  assumes "reg_steps typesByName (\<lambda>rt n (u :: unit). snd (add_type rt n)) (rt, ts) (rt', ts')"
    and "list_all entered ts"
  shows "(Returned n v \<in> set ts' \<and> Returned n w \<in> set ts' \<longrightarrow> v = w \<and> lookupTypeByName rt' n = Some v) \<and>
    (pool_work ts' \<noteq> 0 \<longrightarrow>
      (\<exists>c. reg_step typesByName (\<lambda>rt n (u :: unit). snd (add_type rt n)) (rt', ts') c)) \<and>
    (\<forall>rt'' ts''. reg_step typesByName (\<lambda>rt n (u :: unit). snd (add_type rt n)) (rt', ts') (rt'', ts'') \<longrightarrow>
      pool_work ts'' < pool_work ts')"
proof (intro conjI impI allI)
  assume "Returned n v \<in> set ts' \<and> Returned n w \<in> set ts'"
  then show "v = w" "lookupTypeByName rt' n = Some v"
    using type_registry.threads_agree [OF assms] by (auto simp: lookupTypeByName_def)
next
  assume "pool_work ts' \<noteq> 0"
  from type_registry.progress [OF this]
  show "\<exists>c. reg_step typesByName (\<lambda>rt n (u :: unit). snd (add_type rt n)) (rt', ts') c" by blast
qed (rule reg_step_work)

theorem registerType_threads_agree_witness:
  "\<exists>rt' t. reg_steps typesByName (\<lambda>rt n (u :: unit). snd (add_type rt n))
      (RamTopology_new, [Enter ''Node'' (), Enter ''Node'' ()]) (rt', [Returned ''Node'' t, Returned ''Node'' t]) \<and>
      lookupTypeByName rt' ''Node'' = Some t"
proof -
  let ?add = "\<lambda>rt n (u :: unit). snd (add_type rt n)"
  let ?t = "fst (add_type RamTopology_new ''Node'')" and ?rt = "snd (add_type RamTopology_new ''Node'')"
  have none: "typesByName RamTopology_new ''Node'' = None" by (simp add: RamTopology_new_def)
  have some: "typesByName ?rt ''Node'' = Some ?t" by (simp add: add_type_def Let_def)
  have 1: "reg_step typesByName ?add (RamTopology_new, [Enter ''Node'' (), Enter ''Node'' ()])
      (RamTopology_new, [Missed ''Node'' (), Enter ''Node'' ()])"
    using reg_step.miss [of 0 "[Enter ''Node'' (), Enter ''Node'' ()]" "''Node''" "()" typesByName RamTopology_new ?add] none
    by simp
  have 2: "reg_step typesByName ?add (RamTopology_new, [Missed ''Node'' (), Enter ''Node'' ()])
      (RamTopology_new, [Missed ''Node'' (), Missed ''Node'' ()])"
    using reg_step.miss [of 1 "[Missed ''Node'' (), Enter ''Node'' ()]" "''Node''" "()" typesByName RamTopology_new ?add] none
    by simp
  have 3: "reg_step typesByName ?add (RamTopology_new, [Missed ''Node'' (), Missed ''Node'' ()])
      (?rt, [Missed ''Node'' (), Returned ''Node'' ?t])"
    using reg_step.create [of 1 "[Missed ''Node'' (), Missed ''Node'' ()]" "''Node''" "()" typesByName RamTopology_new ?add ?t]
      none some by simp
  have 4: "reg_step typesByName ?add (?rt, [Missed ''Node'' (), Returned ''Node'' ?t])
      (?rt, [Returned ''Node'' ?t, Returned ''Node'' ?t])"
    using reg_step.late [of 0 "[Missed ''Node'' (), Returned ''Node'' ?t]" "''Node''" "()" typesByName ?rt ?t ?add] some
    by simp
  have run: "reg_steps typesByName ?add (RamTopology_new, [Enter ''Node'' (), Enter ''Node'' ()])
      (?rt, [Returned ''Node'' ?t, Returned ''Node'' ?t])"
    by (rule reg_steps.more [OF reg_steps.more [OF reg_steps.more [OF reg_steps.more [OF reg_steps.stop 1] 2] 3] 4])
  have "list_all entered [Enter ''Node'' () :: (string, unit, TopologyType) thread, Enter ''Node'' ()]" by simp
  from registerType_threads_agree [OF run this, of "''Node''" ?t ?t] run show ?thesis by auto
qed



end
