(* ===== verification/Topology_Ontology.thy ===== *)
theory Topology_Ontology
  imports Ontology_Interface Ram_Topology
begin

text \<open>
  The ontology stored in a topology:
  \<open>monitoring/ontology/modules/TopologyOntology/TopologyOntology.cpp\<close>. It is a client of the
  topology interface: an attribute is the object \<open>Ontology/domain/name\<close>, its domain, name and
  storage type are attribute values of that object, and its id is the object's id. Meta
  attributes are attribute values whose attribute id is the id of the meta attribute. The
  lemmas are proved in the locale \<open>topology\<close> and hold for every implementation of it.
\<close>

record 's TopologyOntology =
  tn_topology :: 's
  tn_pluginTopoObjectID :: TopologyObjectId
  tn_idTypeID :: TopologyTypeId
  tn_metaAttributeTypeID :: TopologyTypeId
  tn_typeID :: TopologyAttributeId
  tn_nameID :: TopologyAttributeId
  tn_domainID :: TopologyAttributeId
  tn_metaValueID :: "TopologyAttributeId list"

definition deref :: "string \<Rightarrow> 'a option \<Rightarrow> 'a outcome" where
  "deref what x = (case x of None \<Rightarrow> Inl (Undefined (what @ '' of a null handle'')) | Some y \<Rightarrow> Inr y)"

lemma deref_simps [simp]: "deref w (Some x) = Inr x" "deref w None = Inl (Undefined (w @ '' of a null handle''))"
  by (simp_all add: deref_def)

definition cope :: "string \<Rightarrow> string \<Rightarrow> string \<Rightarrow> CreateObjectPathElement" where
  "cope relationName name objectType =
     \<lparr>cope_objectType = objectType, cope_relationName = relationName, cope_name = name\<rparr>"

definition ope :: "string \<Rightarrow> string \<Rightarrow> ObjectPathElement" where
  "ope relationName name = \<lparr>ope_relationName = relationName, ope_name = name\<rparr>"

text \<open>The last loop of \<open>init\<close>: one attribute for each storage type.\<close>

fun register_meta_values ::
  "'s topology_ops \<Rightarrow> 's \<Rightarrow> TopologyTypeId \<Rightarrow> Type list \<Rightarrow> (TopologyAttributeId list \<times> 's) outcome" where
  "register_meta_values V s metaType [] = Inr ([], s)"
| "register_meta_values V s metaType (t # ts) =
     (case top_registerAttribute V s metaType (dec_nat (type_code t)) t of
        (r, s1) \<Rightarrow> bindr (deref ''id()'' r) (\<lambda>a.
          bindr (register_meta_values V s1 metaType ts) (\<lambda>(is, s2). Inr (ta_id a # is, s2))))"

definition tn_init :: "'s topology_ops \<Rightarrow> 's \<Rightarrow> 's TopologyOntology outcome" where
  "tn_init V s =
     bindr (registerObjectByPath_vec V s [cope ''ModuleName'' ''Ontology'' ''Module''] 0) (\<lambda>(r, s1).
     bindr (deref ''id()'' r) (\<lambda>obj.
     case top_registerType V s1 ''OntologyAttribute'' of (att, s2) \<Rightarrow>
     case top_registerType V s2 ''OntologyMetaAttribute'' of (metaAtt, s3) \<Rightarrow>
     bindr (deref ''id()'' metaAtt) (\<lambda>metaType.
     case top_registerType V s3 ''OntologyAttributeID'' of (idType, s4) \<Rightarrow>
     bindr (deref ''id()'' idType) (\<lambda>idT.
     bindr (deref ''id()'' att) (\<lambda>attType.
     case top_registerAttribute V s4 (tt_id attType) ''Type'' UINT32 of (a1, s5) \<Rightarrow>
     bindr (deref ''id()'' a1) (\<lambda>typeA.
     case top_registerAttribute V s5 (tt_id attType) ''Name'' STRING of (a2, s6) \<Rightarrow>
     bindr (deref ''id()'' a2) (\<lambda>nameA.
     case top_registerAttribute V s6 (tt_id attType) ''Domain'' STRING of (a3, s7) \<Rightarrow>
     bindr (deref ''id()'' a3) (\<lambda>domainA.
     bindr (register_meta_values V s7 (tt_id metaType) [INT64, UINT64, INT32, UINT32, FLOAT, DOUBLE, STRING])
       (\<lambda>(is, s8). Inr
         \<lparr>tn_topology = s8, tn_pluginTopoObjectID = to_id obj, tn_idTypeID = tt_id idT,
          tn_metaAttributeTypeID = tt_id metaType, tn_typeID = ta_id typeA, tn_nameID = ta_id nameA,
          tn_domainID = ta_id domainA, tn_metaValueID = is\<rparr>)))))))))"

section \<open>Operations\<close>

definition tn_register_attribute ::
  "'s topology_ops \<Rightarrow> 's TopologyOntology \<Rightarrow> string \<Rightarrow> string \<Rightarrow> Type \<Rightarrow>
   OntologyAttribute result \<times> 's TopologyOntology" where
  "tn_register_attribute V tn domain name storage_type =
     (case registerObjectByPath_vec V (tn_topology tn)
            [cope ''DomainName'' domain ''Domain'', cope ''AttributeName'' name ''Attribute'']
            (tn_pluginTopoObjectID tn) of
        Inl f \<Rightarrow> (Inl (Fatal f), tn)
      | Inr (None, s1) \<Rightarrow>
          (Inl (IllegalStateError (''Could not register attribute: '' @ domain @ ''/'' @ name)), tn \<lparr>tn_topology := s1\<rparr>)
      | Inr (Some obj, s1) \<Rightarrow>
          (case top_getAttribute V s1 (to_id obj) (tn_typeID tn) of
             Some existing \<Rightarrow>
               (case vd_uint32 (tv_value existing) of
                  Inl f \<Rightarrow> (Inl (Fatal f), tn \<lparr>tn_topology := s1\<rparr>)
                | Inr currentST \<Rightarrow>
                    (if unat currentST \<noteq> type_code storage_type
                     then Inl (IllegalStateError (''Existing storage type is not compatible in attribute '' @
                            domain @ ''/'' @ name))
                     else Inr \<lparr>oa_aID = to_id obj, oa_storage_type = storage_type\<rparr>, tn \<lparr>tn_topology := s1\<rparr>))
           | None \<Rightarrow>
               (let s2 = snd (top_setAttribute V s1 (to_id obj) (tn_domainID tn) (vd_of_string domain));
                    s3 = snd (top_setAttribute V s2 (to_id obj) (tn_nameID tn) (vd_of_string name));
                    s4 = snd (top_setAttribute V s3 (to_id obj) (tn_typeID tn)
                           (VUint32 (of_nat (type_code storage_type))))
                in (Inr \<lparr>oa_aID = to_id obj, oa_storage_type = storage_type\<rparr>, tn \<lparr>tn_topology := s4\<rparr>))))"

text \<open>The cast of a stored number to the enumeration; a number that names no member is undefined.\<close>

definition stored_type :: "TopologyValue \<Rightarrow> Type result" where
  "stored_type tv =
     (case vd_uint32 (tv_value tv) of
        Inl f \<Rightarrow> Inl (Fatal f)
      | Inr c \<Rightarrow> (case type_of_code (unat c) of
          None \<Rightarrow> Inl (Fatal (Undefined ''storage type out of range''))
        | Some t \<Rightarrow> Inr t))"

definition tn_lookup_attribute_by_name ::
  "'s topology_ops \<Rightarrow> 's TopologyOntology \<Rightarrow> string \<Rightarrow> string \<Rightarrow> OntologyAttribute result" where
  "tn_lookup_attribute_by_name V tn domain name =
     (case lookupObjectByPath_vec V (tn_topology tn) [ope ''DomainName'' domain, ope ''AttributeName'' name]
            (tn_pluginTopoObjectID tn) of
        None \<Rightarrow> Inl (NotFoundError '''')
      | Some obj \<Rightarrow>
          (case top_getAttribute V (tn_topology tn) (to_id obj) (tn_typeID tn) of
             None \<Rightarrow> Inl (Fatal (Abort ''existingStorageType''))
           | Some existing \<Rightarrow> bindr (stored_type existing) (\<lambda>t.
               Inr \<lparr>oa_aID = to_id obj, oa_storage_type = t\<rparr>)))"

definition stored_string :: "TopologyValue option \<Rightarrow> string result" where
  "stored_string r = (case r of
     None \<Rightarrow> Inl (Fatal (Undefined ''value() of a null handle''))
   | Some tv \<Rightarrow> (case vd_str (tv_value tv) of Inl f \<Rightarrow> Inl (Fatal f) | Inr s \<Rightarrow> Inr s))"

definition tn_lookup_attribute_by_ID ::
  "'s topology_ops \<Rightarrow> 's TopologyOntology \<Rightarrow> OntologyAttributeID \<Rightarrow> OntologyAttributeFull result" where
  "tn_lookup_attribute_by_ID V tn aID =
     (case top_getAttribute V (tn_topology tn) aID (tn_typeID tn) of
        None \<Rightarrow> Inl (NotFoundError '''')
      | Some existing \<Rightarrow>
          bindr (stored_string (top_getAttribute V (tn_topology tn) aID (tn_domainID tn))) (\<lambda>d.
          bindr (stored_string (top_getAttribute V (tn_topology tn) aID (tn_nameID tn))) (\<lambda>n.
          bindr (stored_type existing) (\<lambda>t.
            Inr \<lparr>oa_aID = aID, oa_storage_type = t, oa_domain = d, oa_name = n\<rparr>))))"

definition tn_attribute_set_meta_attribute ::
  "'s topology_ops \<Rightarrow> 's TopologyOntology \<Rightarrow> OntologyAttribute \<Rightarrow> OntologyAttribute \<Rightarrow> OntologyValue \<Rightarrow>
   unit result \<times> 's TopologyOntology" where
  "tn_attribute_set_meta_attribute V tn att meta value =
     (case top_getAttribute V (tn_topology tn) (oa_aID att) (oa_aID meta) of
        Some existing \<Rightarrow>
          (if vd_eq (tv_value existing) value then Inr ()
           else Inl (IllegalStateError ''Meta attribute has been set already to an incompatible value''), tn)
      | None \<Rightarrow>
          (case top_setAttribute V (tn_topology tn) (oa_aID att) (oa_aID meta) value of
             (b, s1) \<Rightarrow> (if b then Inr () else Inl (IllegalStateError ''Could not set the attribute''),
                         tn \<lparr>tn_topology := s1\<rparr>)))"

definition tn_enumerate_meta_attributes ::
  "'s topology_ops \<Rightarrow> 's TopologyOntology \<Rightarrow> OntologyAttribute \<Rightarrow> OntologyAttributeID list" where
  "tn_enumerate_meta_attributes V tn attribute =
     filter (\<lambda>i. i \<noteq> tn_domainID tn \<and> i \<noteq> tn_nameID tn \<and> i \<noteq> tn_typeID tn)
       (map tv_attribute (top_enumerateAttributes V (tn_topology tn) (oa_aID attribute)))"

definition tn_lookup_meta_attribute ::
  "'s topology_ops \<Rightarrow> 's TopologyOntology \<Rightarrow> OntologyAttribute \<Rightarrow> OntologyAttribute \<Rightarrow> OntologyValue result" where
  "tn_lookup_meta_attribute V tn att meta =
     (case top_getAttribute V (tn_topology tn) (oa_aID att) (oa_aID meta) of
        None \<Rightarrow> Inl (NotFoundError '''')
      | Some existing \<Rightarrow> Inr (tv_value existing))"

section \<open>Registering and finding attributes\<close>

context topology
begin

lemma setAttribute_exact:
  assumes "valid s" and "top_lookupObjectById V s i \<noteq> None" and "vd_type v \<notin> {FLOAT, DOUBLE}"
    and s': "s' = snd (top_setAttribute V s i k v)"
  shows "valid s'" and "topo_ext V s s'" and "free s' = free s"
    and "\<exists>tv. top_getAttribute V s' i k = Some tv \<and> tv_value tv = v"
    and "(j, l) \<noteq> (i, k) \<Longrightarrow> top_getAttribute V s' j l = top_getAttribute V s j l"
proof -
  obtain b where set: "top_setAttribute V s i k v = (b, s')" using s' by (metis prod.collapse)
  note spec = setAttribute_spec [OF assms(1) set]
  show "valid s'" "topo_ext V s s'" "free s' = free s" using spec by simp_all
  show "(j, l) \<noteq> (i, k) \<Longrightarrow> top_getAttribute V s' j l = top_getAttribute V s j l" using spec by blast
  from spec assms(2) obtain tv where tv: "top_getAttribute V s' i k = Some tv"
    "tv_value tv = v \<or> vd_eq (tv_value tv) v" by blast
  moreover have "vd_eq (tv_value tv) v \<Longrightarrow> tv_value tv = v"
    using vd_eq_exact [of "tv_value tv" v] vd_eq_type [of "tv_value tv" v] assms(3) by auto
  ultimately show "\<exists>tv. top_getAttribute V s' i k = Some tv \<and> tv_value tv = v" by blast
qed

lemma register_path_vec:
  assumes "valid s" and "3 * length path \<le> free s" and "path \<noteq> []"
  obtains r s1 where "registerObjectByPath_vec V s path p = Inr (r, s1)"
    "valid s1" "topo_ext V s s1" "top_getAttribute V s1 = top_getAttribute V s" "free s \<le> free s1 + 3 * length path"
    "\<forall>x. r = Some x \<longrightarrow> lookupObjectByPath_vec V s1 (map lookup_element path) p = Some x"
  using registerObjectByPath_from_spec [OF assms(1,2), of p None] assms(3) that
  unfolding registerObjectByPath_vec_def by blast

lemma lookup_element_cope [simp]: "lookup_element (cope r n t) = ope r n"
  by (simp add: lookup_element_def cope_def ope_def)

lemma path_vec_object:
  assumes "valid s" and "lookupObjectByPath_vec V s path p = Some x"
  shows "top_lookupObjectById V s (to_id x) = Some x"
proof -
  have "\<exists>i. top_lookupObjectById V s i = Some x"
    using assms(2) by (induction path arbitrary: p) (auto split: option.splits)
  then show ?thesis using objectById [OF assms(1)] by auto
qed

lemma tn_path:
  assumes "valid s" and "6 \<le> free s"
  obtains r s1 where
    "registerObjectByPath_vec V s [cope ''DomainName'' d ''Domain'', cope ''AttributeName'' n ''Attribute''] p = Inr (r, s1)"
    "valid s1" "topo_ext V s s1" "top_getAttribute V s1 = top_getAttribute V s"
    "\<forall>x. r = Some x \<longrightarrow> lookupObjectByPath_vec V s1 [ope ''DomainName'' d, ope ''AttributeName'' n] p = Some x"
  by (rule register_path_vec [OF assms(1),
        of "[cope ''DomainName'' d ''Domain'', cope ''AttributeName'' n ''Attribute'']" p])
     (use assms that in auto)

lemma tn_three_writes:
  assumes "valid s1" and found: "top_lookupObjectById V s1 i = Some x"
    and s2: "s2 = snd (top_setAttribute V s1 i k1 (vd_of_string d))"
    and s3: "s3 = snd (top_setAttribute V s2 i k2 (vd_of_string n))"
    and s4: "s4 = snd (top_setAttribute V s3 i k3 (VUint32 c))"
  shows "valid s4" and "topo_ext V s1 s4" and "map_option tv_value (top_getAttribute V s4 i k3) = Some (VUint32 c)"
    and "distinct [k1, k2, k3] \<Longrightarrow> map_option tv_value (top_getAttribute V s4 i k1) = Some (vd_of_string d)"
    and "distinct [k1, k2, k3] \<Longrightarrow> map_option tv_value (top_getAttribute V s4 i k2) = Some (vd_of_string n)"
    and "(j, l) \<notin> {(i, k1), (i, k2), (i, k3)} \<Longrightarrow> top_getAttribute V s4 j l = top_getAttribute V s1 j l"
proof -
  have str: "vd_type (vd_of_string z) \<notin> {FLOAT, DOUBLE}" for z by (simp add: vd_of_string_def)
  have f1: "top_lookupObjectById V s1 i \<noteq> None" using found by simp
  note w2 = setAttribute_exact [OF assms(1) f1 str s2]
  have f2: "top_lookupObjectById V s2 i \<noteq> None" using topo_extD(3) [OF w2(2) found] by simp
  note w3 = setAttribute_exact [OF w2(1) f2 str s3]
  have f3: "top_lookupObjectById V s3 i \<noteq> None"
    using topo_extD(3) [OF w3(2) topo_extD(3) [OF w2(2) found]] by simp
  have num: "vd_type (VUint32 c) \<notin> {FLOAT, DOUBLE}" by simp
  note w4 = setAttribute_exact [OF w3(1) f3 num s4]
  show "valid s4" by (rule w4(1))
  show "topo_ext V s1 s4" by (rule topo_ext_trans [OF w2(2) topo_ext_trans [OF w3(2) w4(2)]])
  show "map_option tv_value (top_getAttribute V s4 i k3) = Some (VUint32 c)" using w4(4) by auto
  show "map_option tv_value (top_getAttribute V s4 i k1) = Some (vd_of_string d)" if "distinct [k1, k2, k3]"
  proof -
    have "top_getAttribute V s4 i k1 = top_getAttribute V s2 i k1"
      using that w4(5) [of i k1] w3(5) [of i k1] by simp
    then show ?thesis using w2(4) by auto
  qed
  show "map_option tv_value (top_getAttribute V s4 i k2) = Some (vd_of_string n)" if "distinct [k1, k2, k3]"
  proof -
    have "top_getAttribute V s4 i k2 = top_getAttribute V s3 i k2" using that w4(5) [of i k2] by simp
    then show ?thesis using w3(4) by auto
  qed
  show "top_getAttribute V s4 j l = top_getAttribute V s1 j l" if "(j, l) \<notin> {(i, k1), (i, k2), (i, k3)}"
    using that w2(5) [of j l] w3(5) [of j l] w4(5) [of j l] by simp
qed

lemma tn_registered_object:
  assumes valid: "valid (tn_topology tn)" and room: "6 \<le> free (tn_topology tn)"
    and reg: "tn_register_attribute V tn d n st = (Inr a, tn')"
  obtains x s1 where "registerObjectByPath_vec V (tn_topology tn)
      [cope ''DomainName'' d ''Domain'', cope ''AttributeName'' n ''Attribute''] (tn_pluginTopoObjectID tn) = Inr (Some x, s1)"
    "valid s1" "top_lookupObjectById V s1 (to_id x) = Some x"
    "top_getAttribute V s1 = top_getAttribute V (tn_topology tn)"
    "lookupObjectByPath_vec V s1 [ope ''DomainName'' d, ope ''AttributeName'' n] (tn_pluginTopoObjectID tn) = Some x"
proof -
  obtain r s1 where p: "registerObjectByPath_vec V (tn_topology tn)
      [cope ''DomainName'' d ''Domain'', cope ''AttributeName'' n ''Attribute''] (tn_pluginTopoObjectID tn) = Inr (r, s1)"
    "valid s1" "topo_ext V (tn_topology tn) s1"
    "top_getAttribute V s1 = top_getAttribute V (tn_topology tn)" "\<forall>x. r = Some x \<longrightarrow>
      lookupObjectByPath_vec V s1 [ope ''DomainName'' d, ope ''AttributeName'' n] (tn_pluginTopoObjectID tn) = Some x"
    by (rule tn_path [OF valid room])
  from reg p(1) obtain x where r: "r = Some x"
    by (cases r) (auto simp: tn_register_attribute_def)
  have path: "lookupObjectByPath_vec V s1 [ope ''DomainName'' d, ope ''AttributeName'' n] (tn_pluginTopoObjectID tn) = Some x"
    using p(5) r by blast
  then have "top_lookupObjectById V s1 (to_id x) = Some x" by (rule path_vec_object [OF p(2)])
  then show thesis using that p r path by blast
qed

lemma tn_register_found:
  assumes valid: "valid (tn_topology tn)" and room: "6 \<le> free (tn_topology tn)"
    and reg: "tn_register_attribute V tn d n st = (Inr a, tn')"
  shows "valid (tn_topology tn')" and "oa_storage_type a = st"
    and "tn_lookup_attribute_by_name V tn' d n = Inr a"
    and "tn' = tn \<lparr>tn_topology := tn_topology tn'\<rparr>"
proof -
  obtain x s1 where p: "registerObjectByPath_vec V (tn_topology tn)
      [cope ''DomainName'' d ''Domain'', cope ''AttributeName'' n ''Attribute''] (tn_pluginTopoObjectID tn) = Inr (Some x, s1)"
    "valid s1" and found: "top_lookupObjectById V s1 (to_id x) = Some x"
    and vals: "top_getAttribute V s1 = top_getAttribute V (tn_topology tn)"
    and path: "lookupObjectByPath_vec V s1 [ope ''DomainName'' d, ope ''AttributeName'' n] (tn_pluginTopoObjectID tn) = Some x"
    by (rule tn_registered_object [OF valid room reg])
  have "valid (tn_topology tn') \<and> oa_storage_type a = st \<and> tn_lookup_attribute_by_name V tn' d n = Inr a \<and>
      tn' = tn \<lparr>tn_topology := tn_topology tn'\<rparr>"
  proof (cases "top_getAttribute V s1 (to_id x) (tn_typeID tn)")
    case (Some tv)
    then obtain c where c: "vd_uint32 (tv_value tv) = Inr c" "unat c = type_code st"
      "tn' = tn \<lparr>tn_topology := s1\<rparr>" "a = \<lparr>oa_aID = to_id x, oa_storage_type = st\<rparr>"
      using reg p(1) by (auto simp: tn_register_attribute_def split: sum.splits if_splits)
    then show ?thesis using p(2) path Some
      by (simp add: tn_lookup_attribute_by_name_def stored_type_def)
  next
    case None
    define s2 where "s2 = snd (top_setAttribute V s1 (to_id x) (tn_domainID tn) (vd_of_string d))"
    define s3 where "s3 = snd (top_setAttribute V s2 (to_id x) (tn_nameID tn) (vd_of_string n))"
    define s4 where "s4 = snd (top_setAttribute V s3 (to_id x) (tn_typeID tn) (VUint32 (of_nat (type_code st))))"
    have out: "tn' = tn \<lparr>tn_topology := s4\<rparr>" "a = \<lparr>oa_aID = to_id x, oa_storage_type = st\<rparr>"
      using reg p(1) None by (simp_all add: tn_register_attribute_def Let_def s2_def s3_def s4_def)
    note w = tn_three_writes [OF p(2) found s2_def s3_def s4_def]
    have 4: "valid s4"
      "\<exists>tv. top_getAttribute V s4 (to_id x) (tn_typeID tn) = Some tv \<and> tv_value tv = VUint32 (of_nat (type_code st))"
      using w(1,3) by auto
    have "topo_ext V s1 s4" by (rule w(2))
    then have "lookupObjectByPath_vec V s4 [ope ''DomainName'' d, ope ''AttributeName'' n] (tn_pluginTopoObjectID tn) = Some x"
      by (rule lookupObjectByPath_vec_ext [OF path])
    moreover have "unat (of_nat (type_code st) :: u32) = type_code st"
      using type_code_less [of st] by simp
    ultimately show ?thesis using 4 out
      by (auto simp: tn_lookup_attribute_by_name_def stored_type_def)
  qed
  then show "valid (tn_topology tn')" and "oa_storage_type a = st"
    and "tn_lookup_attribute_by_name V tn' d n = Inr a"
    and "tn' = tn \<lparr>tn_topology := tn_topology tn'\<rparr>" by simp_all
qed

text \<open>A new attribute is also found by its id, with its domain and name.\<close>

lemma tn_register_new_ID:
  assumes valid: "valid (tn_topology tn)" and room: "6 \<le> free (tn_topology tn)"
    and reg: "tn_register_attribute V tn d n st = (Inr a, tn')"
    and new: "top_getAttribute V (tn_topology tn) (oa_aID a) (tn_typeID tn) = None"
    and ids: "distinct [tn_domainID tn, tn_nameID tn, tn_typeID tn]" and nn: "no_nul d" "no_nul n"
  shows "tn_lookup_attribute_by_ID V tn' (oa_aID a) =
    Inr \<lparr>oa_aID = oa_aID a, oa_storage_type = st, oa_domain = d, oa_name = n\<rparr>"
proof -
  obtain x s1 where path: "registerObjectByPath_vec V (tn_topology tn)
      [cope ''DomainName'' d ''Domain'', cope ''AttributeName'' n ''Attribute''] (tn_pluginTopoObjectID tn) = Inr (Some x, s1)"
    and s1: "valid s1" "top_lookupObjectById V s1 (to_id x) = Some x"
    and vals: "top_getAttribute V s1 = top_getAttribute V (tn_topology tn)"
    by (rule tn_registered_object [OF valid room reg])
  have x: "oa_aID a = to_id x" using reg path
    by (auto simp: tn_register_attribute_def Let_def split: option.splits sum.splits if_splits)
  then have none: "top_getAttribute V s1 (to_id x) (tn_typeID tn) = None" using new vals by simp
  define s2 where "s2 = snd (top_setAttribute V s1 (to_id x) (tn_domainID tn) (vd_of_string d))"
  define s3 where "s3 = snd (top_setAttribute V s2 (to_id x) (tn_nameID tn) (vd_of_string n))"
  define s4 where "s4 = snd (top_setAttribute V s3 (to_id x) (tn_typeID tn) (VUint32 (of_nat (type_code st))))"
  have tn': "tn' = tn \<lparr>tn_topology := s4\<rparr>"
    using reg path none by (simp add: tn_register_attribute_def Let_def s2_def s3_def s4_def)
  note w = tn_three_writes [OF s1 s2_def s3_def s4_def]
  obtain t1 t2 t3 where
    "top_getAttribute V s4 (to_id x) (tn_typeID tn) = Some t1" "tv_value t1 = VUint32 (of_nat (type_code st))"
    "top_getAttribute V s4 (to_id x) (tn_domainID tn) = Some t2" "tv_value t2 = VString d"
    "top_getAttribute V s4 (to_id x) (tn_nameID tn) = Some t3" "tv_value t3 = VString n"
    using w(3) w(4,5) [OF ids] nn by (auto simp: vd_of_string_def)
  moreover have "unat (of_nat (type_code st) :: u32) = type_code st" using type_code_less [of st] by simp
  ultimately show ?thesis
    by (simp add: tn' x tn_lookup_attribute_by_ID_def stored_string_def stored_type_def)
qed

end

section \<open>Properties\<close>

text \<open>
  The ontology on top of the RAM topology. Whenever \<open>register_attribute\<close>
  succeeds, the attribute has the requested storage type and \<open>lookup_attribute_by_name\<close> finds it;
  the topology stays consistent. If the attribute is new, \<open>lookup_attribute_by_ID\<close> returns its
  domain, name and type.
\<close>

theorem tn_register_lookup:
  assumes "ram_inv (tn_topology tn)" and "6 \<le> ram_free (tn_topology tn)"
    and "tn_register_attribute ram_ops tn d n st = (Inr a, tn')"
    and "distinct [tn_domainID tn, tn_nameID tn, tn_typeID tn]" and "no_nul d" and "no_nul n"
  shows "ram_inv (tn_topology tn') \<and> oa_storage_type a = st \<and>
    tn_lookup_attribute_by_name ram_ops tn' d n = Inr a \<and>
    (getAttribute (tn_topology tn) (oa_aID a) (tn_typeID tn) = None \<longrightarrow>
      tn_lookup_attribute_by_ID ram_ops tn' (oa_aID a) =
        Inr \<lparr>oa_aID = oa_aID a, oa_storage_type = st, oa_domain = d, oa_name = n\<rparr>)"
  using ram.tn_register_found [OF assms(1-3)] ram.tn_register_new_ID [OF assms(1-3) _ assms(4-6)] by simp

definition tn_demo :: "RamTopology TopologyOntology" where
  "tn_demo = \<lparr>tn_topology = RamTopology_new, tn_pluginTopoObjectID = 0, tn_idTypeID = 3,
     tn_metaAttributeTypeID = 2, tn_typeID = 1, tn_nameID = 2, tn_domainID = 3, tn_metaValueID = []\<rparr>"

theorem tn_register_lookup_witness:
  "\<exists>tn'. tn_register_attribute ram_ops tn_demo ''posix'' ''size'' UINT64 =
      (Inr \<lparr>oa_aID = 2, oa_storage_type = UINT64\<rparr>, tn') \<and>
    tn_lookup_attribute_by_ID ram_ops tn' 2 =
      Inr \<lparr>oa_aID = 2, oa_storage_type = UINT64, oa_domain = ''posix'', oa_name = ''size''\<rparr>"
proof -
  have "fst (tn_register_attribute ram_ops tn_demo ''posix'' ''size'' UINT64) =
      Inr \<lparr>oa_aID = 2, oa_storage_type = UINT64\<rparr>" by code_simp
  then obtain tn' where reg: "tn_register_attribute ram_ops tn_demo ''posix'' ''size'' UINT64 =
      (Inr \<lparr>oa_aID = 2, oa_storage_type = UINT64\<rparr>, tn')" by (metis prod.collapse)
  have "getAttribute RamTopology_new 2 1 = None" by code_simp
  then show ?thesis
    using tn_register_lookup [OF _ _ reg] ram_inv_new reg
    by (simp add: tn_demo_def ram_free_def RamTopology_new_def no_nul_def)
qed

text \<open>
  The ids of meta attributes clash with the ids of the three reserved attributes.
  An ontology attribute's id is an object id, but as a meta attribute it is used as an attribute
  id. In a fresh topology the first registered attribute gets object id 3, which is the
  attribute id of \<open>Domain\<close>: setting it as a meta attribute of another attribute is refused as
  if it had been set before.
\<close>

definition tn_clash :: "(unit result \<times> OntologyAttributeID \<times> TopologyAttributeId) option" where
  "tn_clash =
     (case tn_init ram_ops RamTopology_new of
        Inl f \<Rightarrow> None
      | Inr tn \<Rightarrow>
        (case tn_register_attribute ram_ops tn ''unit'' ''bytes'' STRING of
           (Inl e, tn1) \<Rightarrow> None
         | (Inr unit_att, tn1) \<Rightarrow>
           (case tn_register_attribute ram_ops tn1 ''posix'' ''size'' UINT64 of
              (Inl e, tn2) \<Rightarrow> None
            | (Inr att, tn2) \<Rightarrow>
                Some (fst (tn_attribute_set_meta_attribute ram_ops tn2 att unit_att (VString ''B'')),
                      oa_aID unit_att, tn_domainID tn2))))"

theorem tn_meta_id_clash:
  "tn_clash = Some (Inl (IllegalStateError ''Meta attribute has been set already to an incompatible value''), 3, 3)"
  by code_simp

end
