(* ===== verification/Topology_Association.thy ===== *)
theory Topology_Association
  imports Association_Mapper Topology_Ontology
begin

text \<open>
  The association mapper stored in a topology:
  \<open>monitoring/association_mapper/modules/TopologyAssociationMapper/TopologyAssociationMapper.cpp\<close>. A
  value of a process is an attribute value of the object \<open>ProcessID/AttributeID\<close> below the
  object of the module, one topology attribute for each storage type; the number of an instance
  is the id of a topology type. The lemmas hold for every implementation of the topology; the
  contract of the association mapper is interpreted on the RAM topology.
\<close>

record 's TopologyAssociationMapper =
  tm_topology :: 's
  tm_metaValueID :: "TopologyAttributeId list"
  tm_metaAttributeTypeID :: TopologyTypeId
  tm_pluginTopoObjectID :: TopologyObjectId
  tm_processID :: TopologyTypeId
  tm_componentID :: TopologyTypeId
  tm_attrStringValue :: TopologyAttributeId

definition tm_init :: "'s topology_ops \<Rightarrow> 's \<Rightarrow> 's TopologyAssociationMapper outcome" where
  "tm_init V s =
     bindr (registerObjectByPath_vec V s [cope ''ModuleName'' ''AssociationMapper'' ''Module''] 0) (\<lambda>(r, s1).
     bindr (deref ''id()'' r) (\<lambda>asObject.
     case top_registerType V s1 ''ProcessID'' of (t1, s2) \<Rightarrow>
     bindr (deref ''id()'' t1) (\<lambda>processT.
     case top_registerType V s2 ''ComponentID'' of (t2, s3) \<Rightarrow>
     bindr (deref ''id()'' t2) (\<lambda>componentT.
     case top_registerType V s3 ''AssociationMapperMetaAttribute'' of (t3, s4) \<Rightarrow>
     bindr (deref ''id()'' t3) (\<lambda>metaAttribute.
     bindr (register_meta_values V s4 (tt_id metaAttribute) [INT64, UINT64, INT32, UINT32, FLOAT, DOUBLE, STRING])
       (\<lambda>(is, s5).
     case top_registerAttribute V s5 (tt_id metaAttribute) ''String'' STRING of (a, s6) \<Rightarrow>
     bindr (deref ''id()'' a) (\<lambda>str. Inr
       \<lparr>tm_topology = s6, tm_metaValueID = is, tm_metaAttributeTypeID = tt_id metaAttribute,
        tm_pluginTopoObjectID = to_id asObject, tm_processID = tt_id processT, tm_componentID = tt_id componentT,
        tm_attrStringValue = ta_id str\<rparr>)))))))"

section \<open>Attributes\<close>

text \<open>\<open>metaValueID[(int) att.storage_type]\<close>; the array has no element for \<open>INVALID\<close>.\<close>

definition meta_id :: "'s TopologyAssociationMapper \<Rightarrow> Type \<Rightarrow> TopologyAttributeId result" where
  "meta_id tm t = (if type_code t < length (tm_metaValueID tm) then Inr (tm_metaValueID tm ! type_code t)
     else Inl (Fatal (Undefined ''metaValueID[storage_type]'')))"

definition tm_set_path ::
  "'s topology_ops \<Rightarrow> 's TopologyAssociationMapper \<Rightarrow> CreateObjectPathElement list \<Rightarrow> string \<Rightarrow> string \<Rightarrow>
   OntologyAttribute \<Rightarrow> OntologyValue \<Rightarrow> unit result \<times> 's TopologyAssociationMapper" where
  "tm_set_path V tm path noObject already att value =
     (case registerObjectByPath_vec V (tm_topology tm) path (tm_pluginTopoObjectID tm) of
        Inl f \<Rightarrow> (Inl (Fatal f), tm)
      | Inr (None, s1) \<Rightarrow> (Inl (IllegalStateError noObject), tm \<lparr>tm_topology := s1\<rparr>)
      | Inr (Some obj, s1) \<Rightarrow>
          (case meta_id tm (oa_storage_type att) of
             Inl e \<Rightarrow> (Inl e, tm \<lparr>tm_topology := s1\<rparr>)
           | Inr mid \<Rightarrow>
               (case top_getAttribute V s1 (to_id obj) mid of
                  Some existing \<Rightarrow>
                    (if vd_eq value (tv_value existing) then Inr () else Inl (IllegalStateError already),
                     tm \<lparr>tm_topology := s1\<rparr>)
                | None \<Rightarrow>
                    (case top_setAttribute V s1 (to_id obj) mid value of
                       (b, s2) \<Rightarrow> (if b then Inr () else Inl (IllegalStateError ''Could not set the attribute''),
                                  tm \<lparr>tm_topology := s2\<rparr>)))))"

definition tm_lookup_path ::
  "'s topology_ops \<Rightarrow> 's TopologyAssociationMapper \<Rightarrow> ObjectPathElement list \<Rightarrow> OntologyAttribute \<Rightarrow> OntologyValue result" where
  "tm_lookup_path V tm path att =
     (case lookupObjectByPath_vec V (tm_topology tm) path (tm_pluginTopoObjectID tm) of
        None \<Rightarrow> Inl (NotFoundError '''')
      | Some obj \<Rightarrow> bindr (meta_id tm (oa_storage_type att)) (\<lambda>mid.
          case top_getAttribute V (tm_topology tm) (to_id obj) mid of
            None \<Rightarrow> Inl (NotFoundError '''')
          | Some existing \<Rightarrow> Inr (tv_value existing)))"

definition process_path :: "ProcessID \<Rightarrow> OntologyAttribute \<Rightarrow> CreateObjectPathElement list" where
  "process_path pid att = [cope ''ProcessID'' (show_ProcessID pid) ''Process'',
     cope ''AttributeID'' (dec_nat (unat (oa_aID att))) ''Attribute'']"

definition component_path :: "ComponentID \<Rightarrow> OntologyAttribute \<Rightarrow> CreateObjectPathElement list" where
  "component_path cid att = [cope ''ComponentID'' (show_ComponentID cid) ''Component'',
     cope ''AttributeID'' (dec_nat (unat (oa_aID att))) ''Attribute'']"

definition tm_set_process_attribute ::
  "'s topology_ops \<Rightarrow> 's TopologyAssociationMapper \<Rightarrow> ProcessID \<Rightarrow> OntologyAttribute \<Rightarrow> OntologyValue \<Rightarrow>
   unit result \<times> 's TopologyAssociationMapper" where
  "tm_set_process_attribute V tm pid att value =
     tm_set_path V tm (process_path pid att)
       (''Could not register attribute: '' @ show_ProcessID pid @ ''-'' @ dec_nat (unat (oa_aID att)))
       ''AssociationMapper: Value has been set already'' att value"

definition tm_lookup_process_attribute ::
  "'s topology_ops \<Rightarrow> 's TopologyAssociationMapper \<Rightarrow> ProcessID \<Rightarrow> OntologyAttribute \<Rightarrow> OntologyValue result" where
  "tm_lookup_process_attribute V tm pid att =
     tm_lookup_path V tm [ope ''ProcessID'' (show_ProcessID pid), ope ''AttributeID'' (dec_nat (unat (oa_aID att)))] att"

definition tm_set_component_attribute ::
  "'s topology_ops \<Rightarrow> 's TopologyAssociationMapper \<Rightarrow> ComponentID \<Rightarrow> OntologyAttribute \<Rightarrow> OntologyValue \<Rightarrow>
   unit result \<times> 's TopologyAssociationMapper" where
  "tm_set_component_attribute V tm cid att value =
     tm_set_path V tm (component_path cid att)
       (''Could not register attribute: '' @ show_ComponentID cid @ ''/'' @ dec_nat (unat (oa_aID att)))
       ''AssociationMapper Component attribute has been set already'' att value"

definition tm_lookup_component_attribute ::
  "'s topology_ops \<Rightarrow> 's TopologyAssociationMapper \<Rightarrow> ComponentID \<Rightarrow> OntologyAttribute \<Rightarrow> OntologyValue result" where
  "tm_lookup_component_attribute V tm cid att =
     tm_lookup_path V tm [ope ''ComponentID'' (show_ComponentID cid), ope ''AttributeID'' (dec_nat (unat (oa_aID att)))] att"

section \<open>Instances\<close>

definition tm_create_instance_mapping ::
  "'s topology_ops \<Rightarrow> 's TopologyAssociationMapper \<Rightarrow> string \<Rightarrow> AssociateID result \<times> 's TopologyAssociationMapper" where
  "tm_create_instance_mapping V tm value =
     (if value = [] then (Inl (Fatal (Abort ''value.size() > 0'')), tm)
      else case top_registerType V (tm_topology tm) value of
        (None, s1) \<Rightarrow> (Inl (IllegalStateError (''Could not register instance mapping: '' @ value)), tm \<lparr>tm_topology := s1\<rparr>)
      | (Some obj, s1) \<Rightarrow> (Inr (tt_id obj), tm \<lparr>tm_topology := s1\<rparr>))"

definition tm_lookup_instance_mapping ::
  "'s topology_ops \<Rightarrow> 's TopologyAssociationMapper \<Rightarrow> AssociateID \<Rightarrow> string result" where
  "tm_lookup_instance_mapping V tm aid =
     (case top_lookupTypeById V (tm_topology tm) aid of
        None \<Rightarrow> Inl (NotFoundError '''')
      | Some obj \<Rightarrow> Inr (tt_name obj))"

section \<open>The contract holds on every topology\<close>

text \<open>Keys of either kind.\<close>

definition tm_path :: "ProcessID + ComponentID \<Rightarrow> OntologyAttribute \<Rightarrow> CreateObjectPathElement list" where
  "tm_path k a = (case k of Inl pid \<Rightarrow> process_path pid a | Inr cid \<Rightarrow> component_path cid a)"

definition tm_set :: "'s topology_ops \<Rightarrow> 's TopologyAssociationMapper \<Rightarrow> ProcessID + ComponentID \<Rightarrow>
    OntologyAttribute \<Rightarrow> OntologyValue \<Rightarrow> unit result \<times> 's TopologyAssociationMapper" where
  "tm_set V tm k a v = (case k of Inl pid \<Rightarrow> tm_set_process_attribute V tm pid a v
     | Inr cid \<Rightarrow> tm_set_component_attribute V tm cid a v)"

definition tm_look :: "'s topology_ops \<Rightarrow> 's TopologyAssociationMapper \<Rightarrow> ProcessID + ComponentID \<Rightarrow>
    OntologyAttribute \<Rightarrow> OntologyValue result" where
  "tm_look V tm k a = (case k of Inl pid \<Rightarrow> tm_lookup_process_attribute V tm pid a
     | Inr cid \<Rightarrow> tm_lookup_component_attribute V tm cid a)"

lemma tm_path_length [simp]: "length (tm_path k a) = 2" "tm_path k a \<noteq> []"
  by (simp_all add: tm_path_def process_path_def component_path_def split: sum.splits)

lemma tm_set_conv: "\<exists>m1 m2. tm_set V tm k a v = tm_set_path V tm (tm_path k a) m1 m2 a v"
  by (cases k) (auto simp: tm_set_def tm_path_def tm_set_process_attribute_def tm_set_component_attribute_def)

lemma tm_look_conv: "tm_look V tm k a = tm_lookup_path V tm (map lookup_element (tm_path k a)) a"
  by (cases k) (simp_all add: tm_look_def tm_path_def process_path_def component_path_def
      tm_lookup_process_attribute_def tm_lookup_component_attribute_def lookup_element_def cope_def ope_def)

definition tm_att_ok :: "OntologyAttribute \<Rightarrow> bool" where
  "tm_att_ok a \<longleftrightarrow> oa_storage_type a \<noteq> INVALID"

lemma meta_id_ok:
  "tm_att_ok a \<Longrightarrow> length (tm_metaValueID tm) = 7 \<Longrightarrow>
   meta_id tm (oa_storage_type a) = Inr (tm_metaValueID tm ! type_code (oa_storage_type a))"
  using type_code_less [of "oa_storage_type a"] type_code_inject [of "oa_storage_type a" INVALID]
  by (auto simp: meta_id_def tm_att_ok_def less_Suc_eq numeral_eq_Suc)

lemma meta_id_topology [simp]: "meta_id (tm \<lparr>tm_topology := s\<rparr>) t = meta_id tm t"
  by (simp add: meta_id_def)

context topology
begin

text \<open>A path that was registered with exactly these types; registering it again changes nothing.\<close>

fun path_registered :: "'s \<Rightarrow> CreateObjectPathElement list \<Rightarrow> TopologyObjectId \<Rightarrow> TopologyObject \<Rightarrow> bool" where
  "path_registered s [] p x \<longleftrightarrow> top_lookupObjectById V s p = Some x"
| "path_registered s (e # path) p x \<longleftrightarrow>
     (\<exists>y. registered s p (cope_relationName e) (cope_name e) (cope_objectType e) y \<and>
        path_registered s path (to_id y) x)"

lemma path_registered_ext: "path_registered s path p x \<Longrightarrow> topo_ext V s s' \<Longrightarrow> path_registered s' path p x"
  by (induction path arbitrary: p) (auto dest: topo_extD(3) registered_ext)

lemma path_registered_again:
  assumes "valid s" and "path_registered s path p x" and "path = [] \<Longrightarrow> res = Some x"
  shows "registerObjectByPath_from V s path p res = Inr (Some x, s)"
  using assms(2,3)
proof (induction path arbitrary: p res)
  case Nil
  then show ?case by simp
next
  case (Cons e path)
  then obtain y where y: "registered s p (cope_relationName e) (cope_name e) (cope_objectType e) y"
    "path_registered s path (to_id y) x" by auto
  obtain t1 t2 where t: "top_registerType V s (cope_relationName e) = (Some t1, s)"
    "top_registerType V s (cope_objectType e) = (Some t2, s)"
    "top_registerObject V s p (tt_id t1) (cope_name e) (tt_id t2) = Inr (Some y, s)"
    by (rule registered_again [OF assms(1) y(1)])
  have "path = [] \<Longrightarrow> Some y = Some x" using y by (auto simp: registered_def)
  from Cons.IH [OF y(2) this] t show ?case by simp
qed

lemma path_registered_lookup:
  "path_registered s path p x \<Longrightarrow> lookupObjectByPath_vec V s (map lookup_element path) p = Some x"
proof (induction path arbitrary: p)
  case Nil
  then show ?case by simp
next
  case (Cons e path)
  then show ?case
    unfolding list.map lookupObjectByPath_vec_Cons by (fastforce simp: lookup_element_def registered_def)
qed

lemma path_registered_new:
  assumes "valid s" and "3 * length path \<le> free s" and "path \<noteq> []"
    and "registerObjectByPath_from V s path p res = Inr (Some x, s')"
  shows "path_registered s' path p x"
  using assms
proof (induction path arbitrary: s p res)
  case Nil
  then show ?case by simp
next
  case (Cons e path)
  from Cons.prems have "valid s" "3 \<le> free s" by auto
  then obtain t1 s1 t2 s2 r s3 where r:
    "top_registerType V s (cope_relationName e) = (Some t1, s1)"
    "top_registerType V s1 (cope_objectType e) = (Some t2, s2)"
    "top_registerObject V s2 p (tt_id t1) (cope_name e) (tt_id t2) = Inr (r, s3)"
    "valid s3" "free s \<le> free s3 + 3" "topo_ext V s s3"
    "\<forall>x. r = Some x \<longrightarrow> registered s3 p (cope_relationName e) (cope_name e) (cope_objectType e) x"
    by (rule register_one [where a = "cope_relationName e" and b = "cope_objectType e"
          and p = p and n = "cope_name e"])
  obtain y where y: "r = Some y" using Cons.prems(4) r(1-3) by (cases r) auto
  then have rest: "registerObjectByPath_from V s3 path (to_id y) (Some y) = Inr (Some x, s')"
    using Cons.prems(4) r(1-3) by simp
  have reg: "registered s3 p (cope_relationName e) (cope_name e) (cope_objectType e) y" using r(7) y by blast
  have room: "3 * length path \<le> free s3" using Cons.prems(2) r(5) by simp
  have ext: "topo_ext V s3 s'" using registerObjectByPath_from_spec [OF r(4) room, of "to_id y" "Some y"] rest by auto
  have "path_registered s' path (to_id y) x"
  proof (cases "path = []")
    case True
    then show ?thesis using rest reg by (auto simp: registered_def)
  next
    case False
    then show ?thesis using Cons.IH [OF r(4) room False rest] by blast
  qed
  then show ?case using registered_ext [OF reg ext] by auto
qed

definition tm_valid :: "'s TopologyAssociationMapper \<Rightarrow> bool" where
  "tm_valid tm \<longleftrightarrow> valid (tm_topology tm) \<and> length (tm_metaValueID tm) = 7"

definition tm_free :: "'s TopologyAssociationMapper \<Rightarrow> nat" where
  "tm_free tm = free (tm_topology tm)"

definition tm_owned :: "'s TopologyAssociationMapper \<Rightarrow> ProcessID + ComponentID \<Rightarrow> OntologyAttribute \<Rightarrow> bool" where
  "tm_owned tm k a \<longleftrightarrow> (\<exists>x. path_registered (tm_topology tm) (tm_path k a) (tm_pluginTopoObjectID tm) x)"

lemma tm_look_ext:
  assumes "topo_ext V (tm_topology tm) s" and "tm_look V tm k a = Inr w"
    and "\<And>i l tv. top_getAttribute V (tm_topology tm) i l = Some tv \<Longrightarrow> top_getAttribute V s i l = Some tv"
  shows "tm_look V (tm \<lparr>tm_topology := s\<rparr>) k a = Inr w"
proof -
  obtain x where x: "lookupObjectByPath_vec V (tm_topology tm) (map lookup_element (tm_path k a)) (tm_pluginTopoObjectID tm) = Some x"
    using assms(2) by (auto simp: tm_look_conv tm_lookup_path_def split: option.splits)
  note x' = lookupObjectByPath_vec_ext [OF x assms(1)]
  from assms(2) x obtain mid tv where m: "meta_id tm (oa_storage_type a) = Inr mid"
    and tv: "top_getAttribute V (tm_topology tm) (to_id x) mid = Some tv" "w = tv_value tv"
    by (cases "meta_id tm (oa_storage_type a)") (auto simp: tm_look_conv tm_lookup_path_def split: option.splits)
  show ?thesis using x' m assms(3) [OF tv(1)] tv(2) by (simp add: tm_look_conv tm_lookup_path_def)
qed

lemma tm_owned_ext: "tm_owned tm k a \<Longrightarrow> topo_ext V (tm_topology tm) s \<Longrightarrow> tm_owned (tm \<lparr>tm_topology := s\<rparr>) k a"
  using path_registered_ext by (fastforce simp: tm_owned_def)

lemma tm_instance_ext:
  "topo_ext V (tm_topology tm) s \<Longrightarrow> tm_lookup_instance_mapping V tm i = Inr w \<Longrightarrow>
   tm_lookup_instance_mapping V (tm \<lparr>tm_topology := s\<rparr>) i = Inr w"
  by (auto simp: tm_lookup_instance_mapping_def dest: topo_extD(2) split: option.splits)

text \<open>The two writing steps of a set: the path, then the value if there is none.\<close>

lemma tm_set_steps:
  assumes "tm_valid tm" and "6 \<le> tm_free tm" and "tm_att_ok a" and "tm_set V tm k a v = (ru, tm')"
  obtains (refused) s1 m where "valid s1" "topo_ext V (tm_topology tm) s1" "tm_free tm \<le> free s1 + 6"
      "top_getAttribute V s1 = top_getAttribute V (tm_topology tm)"
      "tm' = tm \<lparr>tm_topology := s1\<rparr>" "ru = Inl (IllegalStateError m)"
  | (known) s1 x tv where "valid s1" "topo_ext V (tm_topology tm) s1" "tm_free tm \<le> free s1 + 6"
      "top_getAttribute V s1 = top_getAttribute V (tm_topology tm)" "tm' = tm \<lparr>tm_topology := s1\<rparr>"
      "path_registered s1 (tm_path k a) (tm_pluginTopoObjectID tm) x"
      "top_getAttribute V s1 (to_id x) (tm_metaValueID tm ! type_code (oa_storage_type a)) = Some tv"
      "vd_eq v (tv_value tv)" "ru = Inr ()"
  | (written) s2 x tv where "valid s2" "topo_ext V (tm_topology tm) s2" "tm_free tm \<le> free s2 + 6"
      "tm' = tm \<lparr>tm_topology := s2\<rparr>" "ru = Inr ()"
      "path_registered s2 (tm_path k a) (tm_pluginTopoObjectID tm) x"
      "top_getAttribute V s2 (to_id x) (tm_metaValueID tm ! type_code (oa_storage_type a)) = Some tv"
      "tv_value tv = v \<or> vd_eq v (tv_value tv)"
      "\<forall>i l u. top_getAttribute V (tm_topology tm) i l = Some u \<longrightarrow> top_getAttribute V s2 i l = Some u"
proof -
  let ?mid = "tm_metaValueID tm ! type_code (oa_storage_type a)"
  have v: "valid (tm_topology tm)" "3 * length (tm_path k a) \<le> free (tm_topology tm)" "length (tm_metaValueID tm) = 7"
    using assms(1,2) by (simp_all add: tm_valid_def tm_free_def)
  obtain m1 m2 where set: "tm_set V tm k a v = tm_set_path V tm (tm_path k a) m1 m2 a v" using tm_set_conv by blast
  obtain r s1 where p: "registerObjectByPath_vec V (tm_topology tm) (tm_path k a) (tm_pluginTopoObjectID tm) = Inr (r, s1)"
    "valid s1" "topo_ext V (tm_topology tm) s1" "top_getAttribute V s1 = top_getAttribute V (tm_topology tm)"
    "free (tm_topology tm) \<le> free s1 + 3 * length (tm_path k a)"
    by (rule register_path_vec [OF v(1,2)]) auto
  have room: "tm_free tm \<le> free s1 + 6" using p(5) by (simp add: tm_free_def)
  note mid = meta_id_ok [OF assms(3) v(3)]
  show thesis
  proof (cases r)
    case None
    then have "ru = Inl (IllegalStateError m1)" "tm' = tm \<lparr>tm_topology := s1\<rparr>"
      using assms(4) p(1) set by (auto simp: tm_set_path_def)
    then show thesis using refused [OF p(2,3) room p(4)] by blast
  next
    case (Some x)
    have reg: "path_registered s1 (tm_path k a) (tm_pluginTopoObjectID tm) x"
      by (rule path_registered_new [OF v(1,2)]) (use p(1) Some in \<open>simp_all add: registerObjectByPath_vec_def\<close>)
    show thesis
    proof (cases "top_getAttribute V s1 (to_id x) ?mid")
      case (Some tv)
      then have "ru = (if vd_eq v (tv_value tv) then Inr () else Inl (IllegalStateError m2))" "tm' = tm \<lparr>tm_topology := s1\<rparr>"
        using assms(4) p(1) set \<open>r = Some x\<close> mid by (auto simp: tm_set_path_def)
      then show thesis
        using refused [OF p(2,3) room p(4)] known [OF p(2,3) room p(4) _ reg Some] by (cases "vd_eq v (tv_value tv)") auto
    next
      case None
      obtain b s2 where w: "top_setAttribute V s1 (to_id x) ?mid v = (b, s2)" by fastforce
      then have out: "ru = (if b then Inr () else Inl (IllegalStateError ''Could not set the attribute''))" "tm' = tm \<lparr>tm_topology := s2\<rparr>"
        using assms(4) p(1) set \<open>r = Some x\<close> mid None by (auto simp: tm_set_path_def)
      note spec = setAttribute_spec [OF p(2) w]
      have "top_lookupObjectById V s1 (to_id x) = Some x"
        by (rule path_vec_object [OF p(2) path_registered_lookup [OF reg]])
      then have b: "b" using spec by simp
      then obtain tv where tv: "top_getAttribute V s2 (to_id x) ?mid = Some tv" "tv_value tv = v \<or> vd_eq v (tv_value tv)"
        using spec vd_eq_sym by blast
      have ext: "topo_ext V (tm_topology tm) s2" using spec topo_ext_trans [OF p(3)] by blast
      have kept: "top_getAttribute V s2 i l = Some u" if "top_getAttribute V (tm_topology tm) i l = Some u" for i l u
        using spec that p(4) None by (metis option.distinct(1) prod.inject)
      have reg2: "path_registered s2 (tm_path k a) (tm_pluginTopoObjectID tm) x"
        using spec path_registered_ext [OF reg] by blast
      show thesis
        by (rule written [OF _ ext _ out(2) _ reg2 tv]) (use spec room out(1) b kept in simp_all)
    qed
  qed
qed

lemma tm_set_step:
  assumes "tm_valid tm" and "6 \<le> tm_free tm" and "tm_att_ok a" and "tm_set V tm k a v = (ru, tm')"
  shows "tm_valid tm' \<and> tm_free tm \<le> tm_free tm' + 6 \<and>
    (\<forall>k' a' w. tm_att_ok a' \<longrightarrow> tm_look V tm k' a' = Inr w \<longrightarrow> tm_look V tm' k' a' = Inr w) \<and>
    (\<forall>k' a'. tm_owned tm k' a' \<longrightarrow> tm_owned tm' k' a') \<and>
    (\<forall>i w. tm_lookup_instance_mapping V tm i = Inr w \<longrightarrow> tm_lookup_instance_mapping V tm' i = Inr w)"
proof -
  have "\<exists>s. valid s \<and> topo_ext V (tm_topology tm) s \<and> tm_free tm \<le> free s + 6 \<and> tm' = tm \<lparr>tm_topology := s\<rparr> \<and>
      (\<forall>i l u. top_getAttribute V (tm_topology tm) i l = Some u \<longrightarrow> top_getAttribute V s i l = Some u)"
  proof (rule tm_set_steps [OF assms], goal_cases)
    case (1 s1 m)
    then show ?case by (intro exI [of _ s1]) simp
  next
    case (2 s1 x tv)
    then show ?case by (intro exI [of _ s1]) simp
  next
    case (3 s2 x tv)
    then show ?case by (intro exI [of _ s2]) simp
  qed
  then obtain s where s: "valid s" "topo_ext V (tm_topology tm) s" "tm_free tm \<le> free s + 6" "tm' = tm \<lparr>tm_topology := s\<rparr>"
      "\<And>i l u. top_getAttribute V (tm_topology tm) i l = Some u \<Longrightarrow> top_getAttribute V s i l = Some u" by blast
  show ?thesis unfolding s(4)
    using assms(1) s(1,3) tm_look_ext [OF s(2) _ s(5)] tm_owned_ext [OF _ s(2)] tm_instance_ext [OF s(2)]
    by (auto simp: tm_valid_def tm_free_def)
qed

lemma tm_set_done:
  assumes "tm_valid tm" and "6 \<le> tm_free tm" and "tm_att_ok a" and "tm_set V tm k a v = (Inr (), tm')"
  shows "tm_owned tm' k a \<and> (\<exists>w. tm_look V tm' k a = Inr w \<and> (w = v \<or> vd_eq v w))"
proof -
  have m: "meta_id tm (oa_storage_type a) = Inr (tm_metaValueID tm ! type_code (oa_storage_type a))"
    using meta_id_ok assms(1,3) by (auto simp: tm_valid_def)
  have "\<exists>s x tv. tm' = tm \<lparr>tm_topology := s\<rparr> \<and> path_registered s (tm_path k a) (tm_pluginTopoObjectID tm) x \<and>
      top_getAttribute V s (to_id x) (tm_metaValueID tm ! type_code (oa_storage_type a)) = Some tv \<and>
      (tv_value tv = v \<or> vd_eq v (tv_value tv))"
  proof (rule tm_set_steps [OF assms], goal_cases)
    case (1 s1 m)
    then show ?case by simp
  next
    case (2 s1 x tv)
    then show ?case by (intro exI [of _ s1] exI [of _ x] exI [of _ tv]) simp
  next
    case (3 s2 x tv)
    then show ?case by (intro exI [of _ s2] exI [of _ x] exI [of _ tv]) simp
  qed
  then obtain s x tv where s: "tm' = tm \<lparr>tm_topology := s\<rparr>"
    "path_registered s (tm_path k a) (tm_pluginTopoObjectID tm) x"
    "top_getAttribute V s (to_id x) (tm_metaValueID tm ! type_code (oa_storage_type a)) = Some tv"
    "tv_value tv = v \<or> vd_eq v (tv_value tv)" by blast
  then show ?thesis using path_registered_lookup [OF s(2)] m
    by (auto simp: tm_owned_def tm_look_conv tm_lookup_path_def)
qed

lemma tm_set_known:
  assumes "tm_valid tm" and "tm_att_ok a" and "tm_owned tm k a" and "tm_look V tm k a = Inr w"
  shows "if vd_eq v w then tm_set V tm k a v = (Inr (), tm) else \<exists>m. tm_set V tm k a v = (Inl (IllegalStateError m), tm)"
proof -
  have v: "valid (tm_topology tm)" and m: "meta_id tm (oa_storage_type a) = Inr (tm_metaValueID tm ! type_code (oa_storage_type a))"
    using meta_id_ok assms(1,2) by (auto simp: tm_valid_def)
  obtain x where x: "path_registered (tm_topology tm) (tm_path k a) (tm_pluginTopoObjectID tm) x"
    using assms(3) by (auto simp: tm_owned_def)
  have reg: "registerObjectByPath_vec V (tm_topology tm) (tm_path k a) (tm_pluginTopoObjectID tm) = Inr (Some x, tm_topology tm)"
    unfolding registerObjectByPath_vec_def by (rule path_registered_again [OF v x]) simp
  obtain tv where "top_getAttribute V (tm_topology tm) (to_id x) (tm_metaValueID tm ! type_code (oa_storage_type a)) = Some tv"
    "w = tv_value tv"
    using assms(4) path_registered_lookup [OF x] m by (auto simp: tm_look_conv tm_lookup_path_def split: option.splits)
  moreover obtain m1 m2 where "tm_set V tm k a v = tm_set_path V tm (tm_path k a) m1 m2 a v" using tm_set_conv by blast
  ultimately show ?thesis using reg m by (simp add: tm_set_path_def)
qed

lemma tm_create_step:
  assumes "tm_valid tm" and "6 \<le> tm_free tm" and "x \<noteq> []"
  shows "\<exists>i tm'. tm_create_instance_mapping V tm x = (Inr i, tm') \<and> tm_valid tm' \<and> tm_free tm \<le> tm_free tm' + 6 \<and> i \<noteq> 0 \<and>
    tm_lookup_instance_mapping V tm' i = Inr x \<and>
    (\<forall>k' a' w. tm_att_ok a' \<longrightarrow> tm_look V tm k' a' = Inr w \<longrightarrow> tm_look V tm' k' a' = Inr w) \<and>
    (\<forall>k' a'. tm_owned tm k' a' \<longrightarrow> tm_owned tm' k' a') \<and>
    (\<forall>j w. tm_lookup_instance_mapping V tm j = Inr w \<longrightarrow> tm_lookup_instance_mapping V tm' j = Inr w)"
proof -
  have v: "valid (tm_topology tm)" "0 < free (tm_topology tm)" using assms by (simp_all add: tm_valid_def tm_free_def)
  obtain rt s where reg: "top_registerType V (tm_topology tm) x = (rt, s)" by fastforce
  from registerType_spec [OF v reg] obtain t where t: "rt = Some t" "top_lookupTypeByName V s x = Some t"
    and st: "valid s" "free (tm_topology tm) \<le> Suc (free s)" "topo_ext V (tm_topology tm) s"
      "top_getAttribute V s = top_getAttribute V (tm_topology tm)" by (auto simp: topo_step_def)
  have "tm_create_instance_mapping V tm x = (Inr (tt_id t), tm \<lparr>tm_topology := s\<rparr>)"
    using reg t assms(3) by (simp add: tm_create_instance_mapping_def)
  moreover have "tm_valid (tm \<lparr>tm_topology := s\<rparr>)" "tm_free tm \<le> tm_free (tm \<lparr>tm_topology := s\<rparr>) + 6"
    using assms(1) st by (simp_all add: tm_valid_def tm_free_def)
  moreover have "tt_id t \<noteq> 0" "tm_lookup_instance_mapping V (tm \<lparr>tm_topology := s\<rparr>) (tt_id t) = Inr x"
    using typeByName [OF st(1) t(2)] by (simp_all add: tm_lookup_instance_mapping_def)
  ultimately show ?thesis
    using tm_look_ext [OF st(3)] tm_owned_ext [OF _ st(3)] tm_instance_ext [OF st(3)] st(4) by fastforce
qed

lemma tm_create_known:
  assumes "tm_valid tm" and "x \<noteq> []" and "tm_lookup_instance_mapping V tm i = Inr x"
  shows "tm_create_instance_mapping V tm x = (Inr i, tm)"
proof -
  have v: "valid (tm_topology tm)" using assms(1) by (simp add: tm_valid_def)
  from assms(3) obtain t where t: "top_lookupTypeById V (tm_topology tm) i = Some t" "tt_name t = x"
    by (auto simp: tm_lookup_instance_mapping_def split: option.splits)
  then show ?thesis using typeById [OF v t(1)] registerType_again [OF v, of x t] assms(2)
    by (simp add: tm_create_instance_mapping_def)
qed

end

sublocale topology \<subseteq> assoc: association_mapper "tm_set V" "tm_look V" "tm_create_instance_mapping V"
  "tm_lookup_instance_mapping V" tm_valid tm_free tm_att_ok tm_owned
  by (unfold_locales; rule tm_set_step tm_set_done tm_set_known tm_create_step tm_create_known; assumption)

section \<open>Initialisation\<close>

context topology
begin

lemma register_meta_values_ok:
  assumes "valid s" and "length ts \<le> free s" and "register_meta_values V s m ts = Inr (is, s')"
  shows "valid s' \<and> length is = length ts \<and> free s \<le> free s' + length ts"
  using assms
proof (induction ts arbitrary: s "is")
  case Nil
  then show ?case by simp
next
  case (Cons t ts)
  obtain r s1 where reg: "top_registerAttribute V s m (dec_nat (type_code t)) t = (r, s1)" by fastforce
  have "0 < free s" using Cons.prems by simp
  from registerAttribute_spec [OF Cons.prems(1) this reg]
  have s1: "valid s1" "free s \<le> Suc (free s1)" by (simp_all add: topo_step_def)
  have "\<exists>i js. register_meta_values V s1 m ts = Inr (js, s') \<and> is = i # js"
    using Cons.prems(3) reg by (auto simp: bindr_Inr_iff deref_def split: option.splits)
  then obtain i js where "register_meta_values V s1 m ts = Inr (js, s')" "is = i # js" by blast
  moreover have "length ts \<le> free s1" using Cons.prems(2) s1(2) by simp
  ultimately show ?case using Cons.IH [OF s1(1)] s1(2) by fastforce
qed

lemma registerType_room:
  assumes "valid s" and "n < free s" and "top_registerType V s x = (r, s')"
  shows "valid s' \<and> n \<le> free s'"
proof -
  have "0 < free s" using assms(2) by simp
  from registerType_spec [OF assms(1) this assms(3)] assms(2) show ?thesis by (simp add: topo_step_def)
qed

lemma tm_init_valid:
  assumes "valid s" and "14 \<le> free s" and "tm_init V s = Inr tm"
  shows "tm_valid tm"
proof -
  obtain r s1 where p: "registerObjectByPath_vec V s [cope ''ModuleName'' ''AssociationMapper'' ''Module''] 0 = Inr (r, s1)"
    "valid s1" "free s \<le> free s1 + 3"
    by (rule register_path_vec [OF assms(1), of "[cope ''ModuleName'' ''AssociationMapper'' ''Module'']" 0])
       (use assms(2) in auto)
  obtain t1 s2 where t1: "top_registerType V s1 ''ProcessID'' = (t1, s2)" by fastforce
  have v2: "valid s2" "10 \<le> free s2" using registerType_room [OF p(2) _ t1, of 10] p(3) assms(2) by simp_all
  obtain t2 s3 where t2: "top_registerType V s2 ''ComponentID'' = (t2, s3)" by fastforce
  have v3: "valid s3" "9 \<le> free s3" using registerType_room [OF v2(1) _ t2, of 9] v2(2) by simp_all
  obtain t3 s4 where t3: "top_registerType V s3 ''AssociationMapperMetaAttribute'' = (t3, s4)" by fastforce
  have v4: "valid s4" "8 \<le> free s4" using registerType_room [OF v3(1) _ t3, of 8] v3(2) by simp_all
  have "\<exists>m is s5 a. register_meta_values V s4 m [INT64, UINT64, INT32, UINT32, FLOAT, DOUBLE, STRING] = Inr (is, s5) \<and>
      tm_metaValueID tm = is \<and> top_registerAttribute V s5 m ''String'' STRING = (a, tm_topology tm)"
    using assms(3) p(1) t1 t2 t3 unfolding tm_init_def deref_def
    by (auto simp: bindr_Inr_iff case_prod_beta prod_eq_iff simp del: register_meta_values.simps
        split: option.splits) blast
  then obtain m "is" s5 a where meta: "register_meta_values V s4 m [INT64, UINT64, INT32, UINT32, FLOAT, DOUBLE, STRING] = Inr (is, s5)"
    and len: "tm_metaValueID tm = is" and attr: "top_registerAttribute V s5 m ''String'' STRING = (a, tm_topology tm)"
    by blast
  have v5: "valid s5 \<and> length is = 7 \<and> free s4 \<le> free s5 + 7"
    using register_meta_values_ok [OF v4(1) _ meta] v4(2) by simp
  then have "0 < free s5" using v4(2) by simp
  then have "valid (tm_topology tm)" using v5 registerAttribute_spec [OF _ _ attr] by (simp add: topo_step_def)
  then show ?thesis using len v5 by (simp add: tm_valid_def)
qed

end

section \<open>Properties\<close>

text \<open>
  C24 (refinement): the association mapper on the RAM topology meets the same contract as the one
  on a file. After a set succeeded, whatever further sets and instance creations follow, the
  attribute keeps that value, later sets of it are accepted exactly if their value is equal,
  instance numbers are in bijection with the strings, and the topology stays consistent.
\<close>

theorem tm_write_once:
  assumes "ram_inv (tm_topology tm)" and "length (tm_metaValueID tm) = 7" and "oa_storage_type a \<noteq> INVALID"
    and "tm_set ram_ops tm k a v = (Inr (), tm1)" and "6 * length ops + 6 \<le> ram_free (tm_topology tm)"
    and "list_all ram.assoc.op_ok ops" and "ram.assoc.am_run tm1 ops = (rs, tm2)"
  shows "ram_inv (tm_topology tm2) \<and> (\<exists>w. (w = v \<or> vd_eq v w) \<and> tm_look ram_ops tm2 k a = Inr w \<and>
      (\<forall>j u. j < length ops \<and> ops ! j = Inl (k, a, u) \<longrightarrow>
         (if vd_eq u w then rs ! j = Inl (Inr ()) else \<exists>m. rs ! j = Inl (Inl (IllegalStateError m))))) \<and>
    (\<forall>p q x y. p < length ops \<and> ops ! p = Inr x \<and> q < length ops \<and> ops ! q = Inr y \<longrightarrow>
      (rs ! p = rs ! q \<longleftrightarrow> x = y))"
proof -
  have tm: "ram.tm_valid tm" "6 \<le> ram.tm_free tm" "tm_att_ok a"
    using assms(1-3,5) by (simp_all add: ram.tm_valid_def ram.tm_free_def tm_att_ok_def)
  have tm1: "ram.tm_valid tm1" "6 * length ops \<le> ram.tm_free tm1"
    using ram.tm_set_step [OF tm assms(4)] assms(5) by (simp_all add: ram.tm_free_def)
  obtain w where w: "tm_look ram_ops tm1 k a = Inr w" "w = v \<or> vd_eq v w" "ram.tm_owned tm1 k a"
    using ram.tm_set_done [OF tm assms(4)] by blast
  have "ram_inv (tm_topology tm2)"
    using ram.assoc.am_run_instances [OF tm1 assms(6,7)] by (simp add: ram.tm_valid_def)
  then show ?thesis
    using ram.assoc.am_run_stable [OF tm1 assms(6) tm(3) w(3,1) assms(7)] w(2)
      ram.assoc.am_run_numbering [OF tm1 assms(6,7)] by blast
qed

theorem tm_write_once_witness:
  "\<exists>tm tm1 rs tm2. tm_init ram_ops RamTopology_new = Inr tm \<and>
    tm_set ram_ops tm (Inl demo_pid) demo_att (VUint64 5) = (Inr (), tm1) \<and>
    ram.assoc.am_run tm1 [Inr ''/dev/a'', Inr ''/dev/b''] = (rs, tm2) \<and>
    tm_look ram_ops tm2 (Inl demo_pid) demo_att = Inr (VUint64 5) \<and> rs ! 0 \<noteq> rs ! 1"
proof -
  let ?ops = "[Inr ''/dev/a'', Inr ''/dev/b''] :: ((ProcessID + ComponentID) \<times> OntologyAttribute \<times> OntologyValue + string) list"
  have "case tm_init ram_ops RamTopology_new of Inl e \<Rightarrow> False
      | Inr tm \<Rightarrow> fst (tm_set ram_ops tm (Inl demo_pid) demo_att (VUint64 5)) = Inr () \<and>
          length (typesById (tm_topology tm)) < 20 \<and> length (objectsById (tm_topology tm)) < 20 \<and>
          length (attributesById (tm_topology tm)) < 20" by code_simp
  then obtain tm tm1 where tm: "tm_init ram_ops RamTopology_new = Inr tm"
    and tm1: "tm_set ram_ops tm (Inl demo_pid) demo_att (VUint64 5) = (Inr (), tm1)"
    and small: "length (typesById (tm_topology tm)) < 20" "length (objectsById (tm_topology tm)) < 20"
          "length (attributesById (tm_topology tm)) < 20"
    by (auto split: sum.splits) (metis prod.collapse)
  have "14 \<le> ram_free RamTopology_new" by (simp add: ram_free_def RamTopology_new_def)
  then have valid: "ram.tm_valid tm" using ram.tm_init_valid [OF ram_inv_new _ tm] by simp
  obtain rs tm2 where run: "ram.assoc.am_run tm1 ?ops = (rs, tm2)" by fastforce
  have room: "6 * length ?ops + 6 \<le> ram_free (tm_topology tm)" using small by (simp add: ram_free_def)
  have ok: "list_all ram.assoc.op_ok ?ops" by (simp add: ram.assoc.op_ok_def)
  have st: "oa_storage_type demo_att \<noteq> INVALID" by (simp add: demo_att_def)
  note H = tm_write_once [OF _ _ st tm1 room ok run]
  have inv: "ram_inv (tm_topology tm)" "length (tm_metaValueID tm) = 7" using valid by (simp_all add: ram.tm_valid_def)
  have eq: "vd_eq (VUint64 5) w \<Longrightarrow> w = VUint64 5" for w using vd_eq_exact [of "VUint64 5" w] by auto
  have "tm_look ram_ops tm2 (Inl demo_pid) demo_att = Inr (VUint64 5)"
    using H [OF inv, THEN conjunct2, THEN conjunct1] eq by blast
  moreover have "rs ! 0 \<noteq> rs ! 1"
    using H [OF inv, THEN conjunct2, THEN conjunct2, rule_format, of 0 "''/dev/a''" 1 "''/dev/b''"] by simp
  ultimately show ?thesis using tm tm1 run by blast
qed

end
