(* ===== verification/File_Ontology.thy ===== *)
theory File_Ontology
  imports Ontology_Interface Id_Table "HOL-Library.AList"
begin

text \<open>
  The ontology kept in a file: \<open>monitoring/ontology/modules/file-ontology/FileOntology.cpp\<close>. The
  two maps of the class hold pointers to shared \<open>AttributeWithValues\<close> objects; the model has an
  explicit store of these objects and the maps hold addresses. The archive that \<open>load\<close> reads and
  \<open>save\<close> writes is the value of the two serialized members; the XML text is the business of the
  serialization library.
\<close>

record AttributeWithValues =
  av_attribute :: OntologyAttributeFull
  av_meta_attributes :: "OntologyAttributeID list"
  av_values :: "OntologyValue list"

record FileOntology =
  fo_heap :: "AttributeWithValues list"
  fo_nextID :: OntologyAttributeID
  fo_loadedID :: OntologyAttributeID
  fo_attribute_map :: "(OntologyAttributeID \<times> nat) list"
  fo_domain_name_map :: "string \<rightharpoonup> nat"

text \<open>Content of the file as the archive presents it: the counter and the objects by id, in key order.\<close>

datatype ontology_file =
  NoFile | Damaged | Archive OntologyAttributeID "(OntologyAttributeID \<times> AttributeWithValues) list"

definition FileOntology_new :: FileOntology where
  "FileOntology_new =
     \<lparr>fo_heap = [], fo_nextID = 1, fo_loadedID = 1, fo_attribute_map = [], fo_domain_name_map = Map.empty\<rparr>"

definition fqn :: "string \<Rightarrow> string \<Rightarrow> string" where
  "fqn domain name = domain @ ''|'' @ name"

definition av_at :: "FileOntology \<Rightarrow> nat \<Rightarrow> AttributeWithValues" where
  "av_at fo p = fo_heap fo ! p"

section \<open>Loading and saving\<close>

text \<open>The loop that recreates the name map from the loaded attributes; later entries win.\<close>

fun name_map_of :: "AttributeWithValues list \<Rightarrow> nat list \<Rightarrow> (string \<rightharpoonup> nat) \<Rightarrow> (string \<rightharpoonup> nat)" where
  "name_map_of heap [] m = m"
| "name_map_of heap (p # ps) m =
     name_map_of heap ps (m(fqn (oa_domain (av_attribute (heap ! p))) (oa_name (av_attribute (heap ! p))) \<mapsto> p))"

definition fo_load :: "FileOntology \<Rightarrow> ontology_file \<Rightarrow> FileOntology" where
  "fo_load fo file =
     (let fo0 = fo \<lparr>fo_domain_name_map := Map.empty, fo_attribute_map := []\<rparr>
      in case file of
        NoFile \<Rightarrow> fo0
      | Damaged \<Rightarrow> fo0 \<lparr>fo_nextID := 1\<rparr>
      | Archive nextID avs \<Rightarrow>
          let base = length (fo_heap fo);
              heap = fo_heap fo @ map snd avs;
              ptrs = [base ..< base + length avs]
          in fo0 \<lparr>fo_heap := heap, fo_nextID := nextID, fo_loadedID := nextID,
                  fo_attribute_map := zip (map fst avs) ptrs,
                  fo_domain_name_map := name_map_of heap ptrs Map.empty\<rparr>)"

definition fo_save :: "FileOntology \<Rightarrow> ontology_file \<Rightarrow> ontology_file" where
  "fo_save fo file =
     (if fo_loadedID fo = fo_nextID fo then file
      else Archive (fo_nextID fo)
        (map (\<lambda>(i, p). (i, av_at fo p)) (sort_key (\<lambda>(i, p). unat i) (fo_attribute_map fo))))"

definition fo_init :: "FileOntology \<Rightarrow> ontology_file \<Rightarrow> ontology_file \<Rightarrow> FileOntology" where
  "fo_init fo etc_file option_file =
     (let fo1 = fo_load fo etc_file
      in if fo_attribute_map fo1 = [] then fo_load fo1 option_file else fo1)"

section \<open>Attributes\<close>

definition fo_register_attribute ::
  "FileOntology \<Rightarrow> string \<Rightarrow> string \<Rightarrow> Type \<Rightarrow> OntologyAttribute result \<times> FileOntology" where
  "fo_register_attribute fo domain name storage_type =
     (if storage_type = INVALID then (Inl (Fatal (Abort ''storage_type != INVALID'')), fo)
      else
        let key = fqn domain name;
            fo1 = (case fo_domain_name_map fo key of
              Some p \<Rightarrow> fo
            | None \<Rightarrow>
                let p = length (fo_heap fo);
                    av = \<lparr>av_attribute = \<lparr>oa_aID = fo_nextID fo, oa_storage_type = storage_type,
                             oa_domain = domain, oa_name = name\<rparr>,
                          av_meta_attributes = [], av_values = []\<rparr>
                in fo \<lparr>fo_heap := fo_heap fo @ [av], fo_nextID := fo_nextID fo + 1,
                       fo_domain_name_map := (fo_domain_name_map fo)(key \<mapsto> p),
                       fo_attribute_map := AList.update (fo_nextID fo) p (fo_attribute_map fo)\<rparr>);
            stored = av_attribute (av_at fo1 (the (fo_domain_name_map fo1 key)))
        in (if storage_type \<noteq> oa_storage_type stored then Inl (IllegalStateError ''Storage type does not match'')
            else Inr (oa_slice stored), fo1))"

definition fo_lookup_attribute_by_name :: "FileOntology \<Rightarrow> string \<Rightarrow> string \<Rightarrow> OntologyAttribute result" where
  "fo_lookup_attribute_by_name fo domain name =
     (case fo_domain_name_map fo (fqn domain name) of
        Some p \<Rightarrow> Inr (oa_slice (av_attribute (av_at fo p)))
      | None \<Rightarrow> Inl (NotFoundError ''''))"

definition fo_lookup_attribute_by_ID :: "FileOntology \<Rightarrow> OntologyAttributeID \<Rightarrow> OntologyAttributeFull result" where
  "fo_lookup_attribute_by_ID fo aID =
     (case map_of (fo_attribute_map fo) aID of
        Some p \<Rightarrow> Inr (av_attribute (av_at fo p))
      | None \<Rightarrow> Inl (NotFoundError ''''))"

section \<open>Meta attributes\<close>

definition lookupAttributeIndex :: "FileOntology \<Rightarrow> OntologyAttribute \<Rightarrow> OntologyAttribute \<Rightarrow> nat option result" where
  "lookupAttributeIndex fo attribute meta =
     (case map_of (fo_attribute_map fo) (oa_aID attribute) of
        None \<Rightarrow> Inl (Fatal (Undefined ''dereference of end()''))
      | Some p \<Rightarrow> Inr (index_of (oa_aID meta) (av_meta_attributes (av_at fo p))))"

definition fo_attribute_set_meta_attribute ::
  "FileOntology \<Rightarrow> OntologyAttribute \<Rightarrow> OntologyAttribute \<Rightarrow> OntologyValue \<Rightarrow> unit result \<times> FileOntology" where
  "fo_attribute_set_meta_attribute fo att meta value =
     (if oa_storage_type meta \<noteq> vd_type value then (Inl (Fatal (Abort ''meta.storage_type == value.type()'')), fo)
      else case lookupAttributeIndex fo att meta of
        Inl e \<Rightarrow> (Inl e, fo)
      | Inr prevIndex \<Rightarrow>
          let p = the (map_of (fo_attribute_map fo) (oa_aID att));
              stored = av_at fo p
          in (case prevIndex of
                Some i \<Rightarrow>
                  (if vd_eq (av_values stored ! i) value then Inr ()
                   else Inl (IllegalStateError ''Value is different!''), fo)
              | None \<Rightarrow>
                  (Inr (), fo \<lparr>fo_heap := (fo_heap fo)[p := stored
                     \<lparr>av_meta_attributes := av_meta_attributes stored @ [oa_aID meta],
                      av_values := av_values stored @ [value]\<rparr>]\<rparr>)))"

definition fo_enumerate_meta_attributes :: "FileOntology \<Rightarrow> OntologyAttribute \<Rightarrow> OntologyAttributeID list result" where
  "fo_enumerate_meta_attributes fo attribute =
     (case map_of (fo_attribute_map fo) (oa_aID attribute) of
        Some p \<Rightarrow> Inr (av_meta_attributes (av_at fo p))
      | None \<Rightarrow> Inl (NotFoundError ''''))"

definition fo_lookup_meta_attribute ::
  "FileOntology \<Rightarrow> OntologyAttribute \<Rightarrow> OntologyAttribute \<Rightarrow> OntologyValue result" where
  "fo_lookup_meta_attribute fo attribute meta =
     (case lookupAttributeIndex fo attribute meta of
        Inl e \<Rightarrow> Inl e
      | Inr (Some which) \<Rightarrow>
          Inr (av_values (av_at fo (the (map_of (fo_attribute_map fo) (oa_aID attribute)))) ! which)
      | Inr None \<Rightarrow> Inl (NotFoundError ''Datatype not found''))"

section \<open>The invariant\<close>

text \<open>
  Both maps lead to the same objects, each under its id and under its name; ids are below the
  counter, so a new one is fresh; metas and values of an attribute correspond.
\<close>

definition av_ok :: "AttributeWithValues \<Rightarrow> bool" where
  "av_ok av \<longleftrightarrow> length (av_values av) = length (av_meta_attributes av) \<and> distinct (av_meta_attributes av)"

definition av_key :: "AttributeWithValues \<Rightarrow> string" where
  "av_key av = fqn (oa_domain (av_attribute av)) (oa_name (av_attribute av))"

definition fo_inv :: "FileOntology \<Rightarrow> bool" where
  "fo_inv fo \<longleftrightarrow> distinct (map fst (fo_attribute_map fo)) \<and>
     (\<forall>i p. map_of (fo_attribute_map fo) i = Some p \<longrightarrow> p < length (fo_heap fo) \<and>
        oa_aID (av_attribute (av_at fo p)) = i \<and> i < fo_nextID fo \<and> av_ok (av_at fo p) \<and>
        fo_domain_name_map fo (av_key (av_at fo p)) = Some p) \<and>
     (\<forall>k p. fo_domain_name_map fo k = Some p \<longrightarrow> p < length (fo_heap fo) \<and> av_key (av_at fo p) = k \<and>
        map_of (fo_attribute_map fo) (oa_aID (av_attribute (av_at fo p))) = Some p)"

definition fo_free :: "FileOntology \<Rightarrow> nat" where
  "fo_free fo = 4294967295 - unat (fo_nextID fo)"

definition fo_name_ok :: "string \<Rightarrow> string \<Rightarrow> bool" where
  "fo_name_ok domain name \<longleftrightarrow> CHR ''|'' \<notin> set domain"

lemma fqn_inject:
  "fo_name_ok d n \<Longrightarrow> fo_name_ok d' n' \<Longrightarrow> fqn d n = fqn d' n' \<longleftrightarrow> d = d' \<and> n = n'"
  by (simp add: fqn_def fo_name_ok_def append_sep_cancel)

lemma fo_inv_idD:
  assumes "fo_inv fo" and "map_of (fo_attribute_map fo) i = Some p"
  shows "p < length (fo_heap fo)" "oa_aID (av_attribute (av_at fo p)) = i" "i < fo_nextID fo"
    "av_ok (av_at fo p)" "fo_domain_name_map fo (av_key (av_at fo p)) = Some p"
  using assms unfolding fo_inv_def by metis+

lemma fo_inv_nameD:
  assumes "fo_inv fo" and "fo_domain_name_map fo k = Some p"
  shows "p < length (fo_heap fo)" "av_key (av_at fo p) = k"
    "map_of (fo_attribute_map fo) (oa_aID (av_attribute (av_at fo p))) = Some p"
  using assms unfolding fo_inv_def by metis+

lemma fo_invI:
  assumes "\<And>i p. map_of (fo_attribute_map fo) i = Some p \<Longrightarrow> p < length (fo_heap fo) \<and>
      oa_aID (av_attribute (av_at fo p)) = i \<and> i < fo_nextID fo \<and> av_ok (av_at fo p) \<and>
      fo_domain_name_map fo (av_key (av_at fo p)) = Some p"
    and "\<And>k p. fo_domain_name_map fo k = Some p \<Longrightarrow> p < length (fo_heap fo) \<and> av_key (av_at fo p) = k \<and>
      map_of (fo_attribute_map fo) (oa_aID (av_attribute (av_at fo p))) = Some p"
    and "distinct (map fst (fo_attribute_map fo))"
  shows "fo_inv fo"
  using assms unfolding fo_inv_def by blast

lemma fo_lookup_meta_iff:
  "fo_lookup_meta_attribute fo b c = Inr v \<longleftrightarrow>
     (\<exists>p i. map_of (fo_attribute_map fo) (oa_aID b) = Some p \<and>
        index_of (oa_aID c) (av_meta_attributes (av_at fo p)) = Some i \<and> v = av_values (av_at fo p) ! i)"
  by (auto simp: fo_lookup_meta_attribute_def lookupAttributeIndex_def split: option.splits)

text \<open>The new object of a registration.\<close>

definition fo_new_av :: "FileOntology \<Rightarrow> string \<Rightarrow> string \<Rightarrow> Type \<Rightarrow> AttributeWithValues" where
  "fo_new_av fo d n st =
     \<lparr>av_attribute = \<lparr>oa_aID = fo_nextID fo, oa_storage_type = st, oa_domain = d, oa_name = n\<rparr>,
      av_meta_attributes = [], av_values = []\<rparr>"

definition fo_added :: "FileOntology \<Rightarrow> string \<Rightarrow> string \<Rightarrow> Type \<Rightarrow> FileOntology" where
  "fo_added fo d n st =
     fo \<lparr>fo_heap := fo_heap fo @ [fo_new_av fo d n st], fo_nextID := fo_nextID fo + 1,
         fo_domain_name_map := (fo_domain_name_map fo)(fqn d n \<mapsto> length (fo_heap fo)),
         fo_attribute_map := AList.update (fo_nextID fo) (length (fo_heap fo)) (fo_attribute_map fo)\<rparr>"

lemma fo_register_known:
  assumes "fo_domain_name_map fo (fqn d n) = Some p" and "st \<noteq> INVALID"
  shows "fo_register_attribute fo d n st =
    (if st = oa_storage_type (av_attribute (av_at fo p)) then Inr (oa_slice (av_attribute (av_at fo p)))
     else Inl (IllegalStateError ''Storage type does not match''), fo)"
  using assms by (simp add: fo_register_attribute_def Let_def)

lemma fo_register_new:
  assumes "fo_domain_name_map fo (fqn d n) = None" and "st \<noteq> INVALID"
  shows "fo_register_attribute fo d n st =
    (Inr \<lparr>oa_aID = fo_nextID fo, oa_storage_type = st\<rparr>, fo_added fo d n st)"
  using assms
  by (simp add: fo_register_attribute_def Let_def fo_added_def fo_new_av_def av_at_def oa_slice_def)

lemma nextID_less:
  assumes "0 < fo_free fo"
  shows "fo_nextID fo < fo_nextID fo + 1" and "unat (fo_nextID fo + 1) = Suc (unat (fo_nextID fo))"
proof -
  have "unat (fo_nextID fo) + 1 < 2 ^ LENGTH(32)" using assms by (simp add: fo_free_def)
  then show u: "unat (fo_nextID fo + 1) = Suc (unat (fo_nextID fo))"
    by (simp add: unat_word_ariths)
  then show "fo_nextID fo < fo_nextID fo + 1" by (simp add: word_less_nat_alt)
qed

lemma fo_added_at:
  "p < length (fo_heap fo) \<Longrightarrow> av_at (fo_added fo d n st) p = av_at fo p"
  "av_at (fo_added fo d n st) (length (fo_heap fo)) = fo_new_av fo d n st"
  by (simp_all add: av_at_def fo_added_def nth_append)

lemma fo_added_maps:
  assumes "fo_inv fo" and "fo_domain_name_map fo (fqn d n) = None"
  shows "map_of (fo_attribute_map (fo_added fo d n st)) i =
      (if i = fo_nextID fo then Some (length (fo_heap fo)) else map_of (fo_attribute_map fo) i)"
    and "fo_domain_name_map (fo_added fo d n st) k =
      (if k = fqn d n then Some (length (fo_heap fo)) else fo_domain_name_map fo k)"
  by (simp_all add: fo_added_def update_conv)

lemma fo_added_inv:
  assumes inv: "fo_inv fo" and new: "fo_domain_name_map fo (fqn d n) = None" and room: "0 < fo_free fo"
  shows "fo_inv (fo_added fo d n st)"
proof (rule fo_invI)
  fix i p assume ip: "map_of (fo_attribute_map (fo_added fo d n st)) i = Some p"
  show "p < length (fo_heap (fo_added fo d n st)) \<and>
      oa_aID (av_attribute (av_at (fo_added fo d n st) p)) = i \<and> i < fo_nextID (fo_added fo d n st) \<and>
      av_ok (av_at (fo_added fo d n st) p) \<and>
      fo_domain_name_map (fo_added fo d n st) (av_key (av_at (fo_added fo d n st) p)) = Some p"
  proof (cases "i = fo_nextID fo")
    case True
    then have "p = length (fo_heap fo)" using ip by (simp add: fo_added_maps [OF inv new])
    then show ?thesis using True nextID_less [OF room]
      by (simp add: fo_added_at fo_added_maps [OF inv new] fo_new_av_def av_key_def av_ok_def)
        (simp add: fo_added_def)
  next
    case False
    then have old: "map_of (fo_attribute_map fo) i = Some p"
      using ip by (simp add: fo_added_maps [OF inv new])
    note old_av = fo_inv_idD [OF inv old]
    have "av_key (av_at fo p) \<noteq> fqn d n" using old_av(5) new by auto
    moreover have "i < fo_nextID fo + 1" using old_av(3) nextID_less(1) [OF room] by (rule less_trans)
    ultimately show ?thesis using old_av
      by (simp add: fo_added_at fo_added_maps [OF inv new]) (simp add: fo_added_def)
  qed
next
  fix k p assume kp: "fo_domain_name_map (fo_added fo d n st) k = Some p"
  show "p < length (fo_heap (fo_added fo d n st)) \<and> av_key (av_at (fo_added fo d n st) p) = k \<and>
      map_of (fo_attribute_map (fo_added fo d n st)) (oa_aID (av_attribute (av_at (fo_added fo d n st) p))) = Some p"
  proof (cases "k = fqn d n")
    case True
    then have "p = length (fo_heap fo)" using kp by (simp add: fo_added_maps [OF inv new])
    then show ?thesis using True
      by (simp add: fo_added_at fo_added_maps [OF inv new] fo_new_av_def av_key_def) (simp add: fo_added_def)
  next
    case False
    then have old: "fo_domain_name_map fo k = Some p"
      using kp by (simp add: fo_added_maps [OF inv new])
    note old_av = fo_inv_nameD [OF inv old]
    have "oa_aID (av_attribute (av_at fo p)) < fo_nextID fo" by (rule fo_inv_idD(3) [OF inv old_av(3)])
    then show ?thesis using old_av
      by (simp add: fo_added_at fo_added_maps [OF inv new]) (simp add: fo_added_def)
  qed
next
  show "distinct (map fst (fo_attribute_map (fo_added fo d n st)))"
    using inv by (simp add: fo_added_def fo_inv_def distinct_update)
qed

text \<open>Setting a meta attribute of a registered attribute.\<close>

lemma fo_set_meta_cases:
  assumes inv: "fo_inv fo" and p: "map_of (fo_attribute_map fo) (oa_aID b) = Some p"
    and ty: "oa_storage_type c = vd_type v" and set: "fo_attribute_set_meta_attribute fo b c v = (r, fo')"
  obtains i where "index_of (oa_aID c) (av_meta_attributes (av_at fo p)) = Some i" "fo' = fo"
      "r = (if vd_eq (av_values (av_at fo p) ! i) v then Inr () else Inl (IllegalStateError ''Value is different!''))"
  | "oa_aID c \<notin> set (av_meta_attributes (av_at fo p))" "r = Inr ()"
      "fo' = fo \<lparr>fo_heap := (fo_heap fo)[p := (av_at fo p)
         \<lparr>av_meta_attributes := av_meta_attributes (av_at fo p) @ [oa_aID c],
          av_values := av_values (av_at fo p) @ [v]\<rparr>]\<rparr>"
proof (cases "index_of (oa_aID c) (av_meta_attributes (av_at fo p))")
  case None
  then have "oa_aID c \<notin> set (av_meta_attributes (av_at fo p))" by (simp add: index_of_None)
  then show thesis using that(2) set p ty None
    by (simp add: fo_attribute_set_meta_attribute_def lookupAttributeIndex_def Let_def)
next
  case (Some i)
  then have "(r, fo') = (if vd_eq (av_values (av_at fo p) ! i) v then Inr ()
      else Inl (IllegalStateError ''Value is different!''), fo)"
    unfolding set [symmetric] using p ty
    by (simp add: fo_attribute_set_meta_attribute_def lookupAttributeIndex_def Let_def)
  then show thesis using that(1) [OF Some] by simp
qed

lemma fo_meta_added:
  assumes inv: "fo_inv fo" and p: "map_of (fo_attribute_map fo) i = Some p"
    and new: "m \<notin> set (av_meta_attributes (av_at fo p))"
    and fo': "fo' = fo \<lparr>fo_heap := (fo_heap fo)[p := (av_at fo p)
         \<lparr>av_meta_attributes := av_meta_attributes (av_at fo p) @ [m],
          av_values := av_values (av_at fo p) @ [v]\<rparr>]\<rparr>"
  shows "fo_inv fo'" and "av_attribute (av_at fo' q) = av_attribute (av_at fo q)"
    and "av_at fo' q = (if q = p then (av_at fo p) \<lparr>av_meta_attributes := av_meta_attributes (av_at fo p) @ [m],
      av_values := av_values (av_at fo p) @ [v]\<rparr> else av_at fo q)"
    and "fo_attribute_map fo' = fo_attribute_map fo" and "fo_domain_name_map fo' = fo_domain_name_map fo"
    and "fo_nextID fo' = fo_nextID fo"
proof -
  have less: "p < length (fo_heap fo)" by (rule fo_inv_idD(1) [OF inv p])
  show maps: "fo_attribute_map fo' = fo_attribute_map fo" "fo_domain_name_map fo' = fo_domain_name_map fo"
    "fo_nextID fo' = fo_nextID fo" by (simp_all add: fo')
  show at: "av_at fo' q = (if q = p then (av_at fo p) \<lparr>av_meta_attributes := av_meta_attributes (av_at fo p) @ [m],
      av_values := av_values (av_at fo p) @ [v]\<rparr> else av_at fo q)" for q
    using less by (simp add: fo' av_at_def)
  show attr: "av_attribute (av_at fo' q) = av_attribute (av_at fo q)" for q by (simp add: at)
  have key: "av_key (av_at fo' q) = av_key (av_at fo q)" for q by (simp add: av_key_def attr)
  have "av_ok (av_at fo' q)" if "av_ok (av_at fo q)" for q
    using that new by (auto simp: at av_ok_def)
  moreover have len: "length (fo_heap fo') = length (fo_heap fo)" by (simp add: fo')
  ultimately show "fo_inv fo'"
    using inv unfolding fo_inv_def maps key attr len by blast
qed

interpretation fo: ontology fo_register_attribute fo_lookup_attribute_by_name fo_lookup_attribute_by_ID
  fo_attribute_set_meta_attribute fo_lookup_meta_attribute fo_enumerate_meta_attributes
  fo_inv fo_free fo_name_ok
proof (unfold_locales, goal_cases)
  case (1 s d n a st)
  then show ?case
    by (auto simp: fo_register_known fo_lookup_attribute_by_name_def split: option.splits)
next
  case (2 s d n e st)
  then have new: "fo_domain_name_map s (fqn d n) = None"
    by (auto simp: fo_lookup_attribute_by_name_def split: option.splits)
  note [simp] = fo_added_maps [OF 2(1) new] fo_added_at
  have ids: "i < fo_nextID s" "p < length (fo_heap s)" if "map_of (fo_attribute_map s) i = Some p" for i p
    using fo_inv_idD(1,3) [OF 2(1) that] by auto
  let ?s = "fo_added s d n st" and ?a = "\<lparr>oa_aID = fo_nextID s, oa_storage_type = st\<rparr>"
  have "fo_free s \<le> Suc (fo_free ?s)"
    using nextID_less(2) [OF 2(2)] by (simp add: fo_free_def fo_added_def)
  moreover have "fo_lookup_attribute_by_name ?s d n = Inr ?a"
    by (simp add: fo_lookup_attribute_by_name_def fo_new_av_def oa_slice_def)
  moreover have "fo_lookup_attribute_by_ID ?s (fo_nextID s) =
      Inr \<lparr>oa_aID = fo_nextID s, oa_storage_type = st, oa_domain = d, oa_name = n\<rparr>"
    by (simp add: fo_lookup_attribute_by_ID_def fo_new_av_def)
  moreover have "fo_lookup_attribute_by_name ?s d' n' = Inr a' \<and> oa_aID a' \<noteq> fo_nextID s"
    if "fo_lookup_attribute_by_name s d' n' = Inr a'" for d' n' a'
  proof -
    from that obtain p where p: "fo_domain_name_map s (fqn d' n') = Some p"
      "a' = oa_slice (av_attribute (av_at s p))"
      by (auto simp: fo_lookup_attribute_by_name_def split: option.splits)
    note old_av = fo_inv_nameD [OF 2(1) p(1)]
    have "fqn d' n' \<noteq> fqn d n" using p new by auto
    then show ?thesis using p old_av ids(1) [OF old_av(3)] by (auto simp: fo_lookup_attribute_by_name_def)
  qed
  moreover have "fo_lookup_attribute_by_ID ?s i = Inr f" if "fo_lookup_attribute_by_ID s i = Inr f" for i f
    using that ids by (fastforce simp: fo_lookup_attribute_by_ID_def split: option.splits)
  moreover have "fo_lookup_meta_attribute ?s b c = Inr v" if "fo_lookup_meta_attribute s b c = Inr v" for b c v
    using that ids unfolding fo_lookup_meta_iff by fastforce
  ultimately show ?case
    using fo_register_new [OF new 2(4)] fo_added_inv [OF 2(1) new 2(2)] by auto
next
  case (3 s d n f a)
  then obtain p q where p: "map_of (fo_attribute_map s) (oa_aID f) = Some p" "f = av_attribute (av_at s p)"
    and q: "fo_domain_name_map s (fqn d n) = Some q" "a = oa_slice (av_attribute (av_at s q))"
    by (auto simp: fo_lookup_attribute_by_ID_def fo_lookup_attribute_by_name_def split: option.splits)
  note P = fo_inv_idD [OF 3(1) p(1)] and Q = fo_inv_nameD [OF 3(1) q(1)]
  have "oa_aID a = oa_aID f \<longleftrightarrow> p = q"
    using p(1) q(2) P(2) Q(3) by (metis oa_slice_sel(1) option.inject)
  also have "\<dots> \<longleftrightarrow> fqn (oa_domain f) (oa_name f) = fqn d n"
    using P(5) Q(2) q(1) unfolding p(2) av_key_def by (metis option.inject)
  finally show ?case using fqn_inject 3(2,3) by auto
next
  case (4 s d n a)
  then show ?case
    using fo_inv_nameD [OF 4(1)]
    by (force simp: fo_lookup_attribute_by_name_def fo_lookup_attribute_by_ID_def split: option.splits)
next
  case (5 s i f)
  then show ?case
    using fo_inv_idD [OF 5(1)]
    by (force simp: fo_lookup_attribute_by_name_def fo_lookup_attribute_by_ID_def av_key_def split: option.splits)
next
  case (6 s b f c v r s')
  then obtain p where p: "map_of (fo_attribute_map s) (oa_aID b) = Some p"
    by (auto simp: fo_lookup_attribute_by_ID_def split: option.splits)
  show ?case
    using 6(1) p 6(3,4)
  proof (cases rule: fo_set_meta_cases)
    case (1 i)
    then show ?thesis using 6(1) p
      by (simp add: fo_lookup_meta_attribute_def lookupAttributeIndex_def)
  next
    case 2
    note m = fo_meta_added [OF 6(1) p 2(1,3)]
    have "fo_lookup_meta_attribute s' b c = Inr v"
      unfolding fo_lookup_meta_iff m(3,4) using p 2(1) fo_inv_idD(4) [OF 6(1) p]
      by (auto simp: index_of_append1 av_ok_def nth_append)
    moreover have "fo_lookup_meta_attribute s b c = Inl (NotFoundError ''Datatype not found'')"
      using 2(1) p
      by (simp add: fo_lookup_meta_attribute_def lookupAttributeIndex_def index_of_None [THEN iffD2])
    moreover have "fo_lookup_attribute_by_name s' = fo_lookup_attribute_by_name s"
      "fo_lookup_attribute_by_ID s' = fo_lookup_attribute_by_ID s" "fo_free s' = fo_free s"
      by (simp_all add: fun_eq_iff fo_lookup_attribute_by_name_def fo_lookup_attribute_by_ID_def fo_free_def m(2,4-6)
          split: option.split)
    ultimately show ?thesis using m(1) 2 by simp
  qed
next
  case (7 s b f c v r s' b' c' w)
  then obtain p where p: "map_of (fo_attribute_map s) (oa_aID b) = Some p"
    by (auto simp: fo_lookup_attribute_by_ID_def split: option.splits)
  show ?case
    using 7(1) p 7(3,4)
  proof (cases rule: fo_set_meta_cases)
    case (1 i)
    then show ?thesis using 7 by simp
  next
    case 2
    note m = fo_meta_added [OF 7(1) p 2(1,3)]
    from 7(6) obtain q i where q: "map_of (fo_attribute_map s) (oa_aID b') = Some q"
      "index_of (oa_aID c') (av_meta_attributes (av_at s q)) = Some i" "w = av_values (av_at s q) ! i"
      by (auto simp: fo_lookup_meta_iff)
    have "i < length (av_values (av_at s q))" "oa_aID c' \<in> set (av_meta_attributes (av_at s q))"
      using index_of_Some [OF q(2)] fo_inv_idD(4) [OF 7(1) q(1)] nth_mem by (fastforce simp: av_ok_def)+
    then have "index_of (oa_aID c') (av_meta_attributes (av_at s' q)) = Some i"
      "w = av_values (av_at s' q) ! i"
      using q(2,3) by (cases "q = p"; simp add: m(3) index_of_append1 nth_append)+
    then show ?thesis using q(1) m(4) by (auto simp: fo_lookup_meta_iff)
  qed
next
  case (8 s b f c)
  then obtain p where p: "map_of (fo_attribute_map s) (oa_aID b) = Some p"
    by (auto simp: fo_lookup_attribute_by_ID_def split: option.splits)
  have "oa_aID c \<in> set (av_meta_attributes (av_at s p)) \<longleftrightarrow>
      (\<exists>i. index_of (oa_aID c) (av_meta_attributes (av_at s p)) = Some i)"
    by (metis index_of_None not_None_eq)
  then show ?case
    using p fo_inv_idD(4) [OF 8(1) p]
    by (auto simp: fo_enumerate_meta_attributes_def fo_lookup_meta_iff av_ok_def)
qed

text \<open>Ids start at 1, so 0 is never the id of an attribute.\<close>

definition fo_positive :: "FileOntology \<Rightarrow> bool" where
  "fo_positive fo \<longleftrightarrow> fo_nextID fo \<noteq> 0 \<and> map_of (fo_attribute_map fo) 0 = None"

lemma fo_positive_register:
  assumes "fo_inv fo" and "fo_positive fo" and "0 < fo_free fo" and "st \<noteq> INVALID"
    and "fo_register_attribute fo d n st = (r, fo')"
  shows "fo_positive fo'"
proof (cases "fo_domain_name_map fo (fqn d n)")
  case None
  then have fo': "fo' = fo_added fo d n st" using assms(5) fo_register_new [OF None assms(4)] by simp
  have "fo_nextID fo + 1 \<noteq> 0" using nextID_less(1) [OF assms(3)] by auto
  then show ?thesis using assms(2) fo_added_maps(1) [OF assms(1) None]
    by (simp add: fo_positive_def fo') (simp add: fo_added_def)
next
  case (Some p)
  then show ?thesis using assms(2,5) fo_register_known [OF Some assms(4)] by simp
qed

interpretation fo_names: attribute_names fo_register_attribute fo_lookup_attribute_by_name
  "\<lambda>fo. fo_inv fo \<and> fo_positive fo" fo_free
proof (unfold_locales, goal_cases)
  case (1 s st d n a s')
  then show ?case using fo.register_extends [of s st d n a s'] fo_positive_register [of s st d n "Inr a" s'] by blast
next
  case (2 s d n a)
  then obtain p where p: "fo_domain_name_map s (fqn d n) = Some p" "oa_aID a = oa_aID (av_attribute (av_at s p))"
    by (auto simp: fo_lookup_attribute_by_name_def split: option.splits)
  then have "map_of (fo_attribute_map s) (oa_aID a) = Some p" using fo_inv_nameD(3) [of s _ p] 2 by metis
  then show ?case using 2 by (auto simp: fo_positive_def)
qed

section \<open>What survives in the file\<close>

lemma fo_inv_new [siox_inv]: "fo_inv FileOntology_new"
  by (simp add: fo_inv_def FileOntology_new_def)

definition heap_key :: "AttributeWithValues list \<Rightarrow> nat \<Rightarrow> string" where
  "heap_key heap p = av_key (heap ! p)"

lemma name_map_of_find:
  assumes "distinct (map (heap_key heap) ps)"
  shows "name_map_of heap ps m k =
    (case List.find (\<lambda>p. heap_key heap p = k) ps of Some p \<Rightarrow> Some p | None \<Rightarrow> m k)"
  using assms
proof (induction ps arbitrary: m)
  case (Cons p ps)
  have "List.find (\<lambda>q. heap_key heap q = k) ps = None" if "heap_key heap p = k"
    using Cons.prems that unfolding find_None_iff by (metis distinct.simps(2) image_eqI list.set_map list.simps(9))
  then show ?case using Cons
    by (auto simp: heap_key_def av_key_def [symmetric] split: option.splits)
qed simp

lemma fo_save_load_maps:
  assumes inv: "fo_inv fo" and dirty: "fo_loadedID fo \<noteq> fo_nextID fo"
    and fo': "fo' = fo_load g (fo_save fo file)"
  shows "rel_option (\<lambda>p q. av_at fo' q = av_at fo p)
      (map_of (fo_attribute_map fo) i) (map_of (fo_attribute_map fo') i)"
    and "rel_option (\<lambda>p q. av_at fo' q = av_at fo p) (fo_domain_name_map fo k) (fo_domain_name_map fo' k)"
    and "fo_nextID fo' = fo_nextID fo"
proof -
  define xs where "xs = sort_key (\<lambda>(i :: u32, p :: nat). unat i) (fo_attribute_map fo)"
  define b where "b = length (fo_heap g)"
  define ptrs where "ptrs = [b ..< b + length xs]"
  define heap where "heap = fo_heap g @ map (\<lambda>(i, p). av_at fo p) xs"
  have xs: "set xs = set (fo_attribute_map fo)" "distinct (map fst xs)"
    using inv by (simp_all add: xs_def fo_inv_def distinct_map)
  have look: "map_of (fo_attribute_map fo) i = Some p \<longleftrightarrow> (i, p) \<in> set xs" for i p
    using inv xs by (simp add: fo_inv_def)
  have st: "fo_heap fo' = heap" "fo_attribute_map fo' = zip (map fst xs) ptrs"
    "fo_domain_name_map fo' = name_map_of heap ptrs Map.empty"
    using dirty by (simp_all add: fo' fo_load_def fo_save_def Let_def xs_def b_def ptrs_def heap_def
        comp_def case_prod_unfold)
  show "fo_nextID fo' = fo_nextID fo"
    using dirty by (simp add: fo' fo_load_def fo_save_def Let_def)
  have at: "av_at fo' (b + j) = av_at fo (snd (xs ! j))" if "j < length xs" for j
    using that by (simp add: av_at_def [of fo'] st heap_def b_def nth_append case_prod_unfold)
  have lenp: "length (map fst xs) = length ptrs" by (simp add: ptrs_def)
  show "rel_option (\<lambda>p q. av_at fo' q = av_at fo p)
      (map_of (fo_attribute_map fo) i) (map_of (fo_attribute_map fo') i)"
  proof (cases "map_of (fo_attribute_map fo) i")
    case None
    then have "i \<notin> fst ` set xs" using look by (metis (no_types) imageE not_Some_eq prod.collapse)
    then have "map_of (fo_attribute_map fo') i = None"
      unfolding st using lenp by (simp add: map_of_zip_is_None)
    then show ?thesis using None by simp
  next
    case (Some p)
    then obtain j where j: "j < length xs" "xs ! j = (i, p)"
      using look by (metis in_set_conv_nth)
    then have "map_of (zip (map fst xs) ptrs) (map fst xs ! j) = Some (ptrs ! j)"
      using xs(2) lenp by (intro map_of_zip_nth) (simp_all add: ptrs_def)
    then have "map_of (fo_attribute_map fo') i = Some (b + j)" using j by (simp add: st ptrs_def)
    then show ?thesis using Some at [OF j(1)] j by simp
  qed
  have key: "heap_key heap (b + j) = av_key (av_at fo (snd (xs ! j)))" if "j < length xs" for j
    using at [OF that] by (simp add: heap_key_def av_at_def st)
  have inj: "j = l" if "j < length xs" "l < length xs" "heap_key heap (b + j) = heap_key heap (b + l)" for j l
  proof -
    have m: "map_of (fo_attribute_map fo) (fst (xs ! j)) = Some (snd (xs ! j))"
      "map_of (fo_attribute_map fo) (fst (xs ! l)) = Some (snd (xs ! l))"
      unfolding look using nth_mem [OF that(1)] nth_mem [OF that(2)] by simp_all
    have "snd (xs ! j) = snd (xs ! l)"
      using fo_inv_idD(5) [OF inv m(1)] fo_inv_idD(5) [OF inv m(2)] that(3)
      unfolding key [OF that(1)] key [OF that(2)] by (metis option.inject)
    then have "fst (xs ! j) = fst (xs ! l)"
      using fo_inv_idD(2) [OF inv m(1)] fo_inv_idD(2) [OF inv m(2)] by metis
    then show "j = l" using xs(2) that(1,2) by (metis length_map nth_eq_iff_index_eq nth_map)
  qed
  have dist: "distinct (map (heap_key heap) ptrs)"
    unfolding distinct_conv_nth using inj by (auto simp: ptrs_def)
  show "rel_option (\<lambda>p q. av_at fo' q = av_at fo p) (fo_domain_name_map fo k) (fo_domain_name_map fo' k)"
  proof (cases "List.find (\<lambda>p. heap_key heap p = k) ptrs")
    case None
    then have none: "heap_key heap (b + j) \<noteq> k" if "j < length xs" for j
      using that by (auto simp: find_None_iff ptrs_def)
    have "fo_domain_name_map fo k = None"
    proof (rule ccontr)
      assume "fo_domain_name_map fo k \<noteq> None"
      then obtain p where p: "fo_domain_name_map fo k = Some p" by auto
      note n = fo_inv_nameD [OF inv p]
      from n(3) obtain j where "j < length xs" "snd (xs ! j) = p" using look by (metis in_set_conv_nth snd_conv)
      then show False using none key n(2) by auto
    qed
    then show ?thesis using None by (simp add: st name_map_of_find [OF dist])
  next
    case (Some q)
    then obtain j where j: "j < length xs" "q = b + j" "heap_key heap q = k"
      by (auto simp: find_Some_iff ptrs_def)
    have "map_of (fo_attribute_map fo) (fst (xs ! j)) = Some (snd (xs ! j))"
      unfolding look using nth_mem [OF j(1)] by simp
    then have "fo_domain_name_map fo k = Some (snd (xs ! j))"
      using fo_inv_idD(5) [OF inv] key [OF j(1)] j by metis
    then show ?thesis using Some at [OF j(1)] j(2) by (simp add: st name_map_of_find [OF dist])
  qed
qed

lemma fo_set_meta_keeps_ids:
  "fo_loadedID (snd (fo_attribute_set_meta_attribute fo b c v)) = fo_loadedID fo"
  "fo_nextID (snd (fo_attribute_set_meta_attribute fo b c v)) = fo_nextID fo"
  by (auto simp: fo_attribute_set_meta_attribute_def Let_def split: sum.split option.split)

section \<open>Properties\<close>

text \<open>
  Registering an attribute in the file ontology. A registration that succeeds
  leaves a consistent ontology in which the attribute is found by its name with the requested
  type; registering the same name again returns the same attribute and changes nothing when the
  type is the same, and throws \<open>IllegalStateError\<close> without changing anything when it is not.
\<close>

theorem fo_register_contract:
  assumes "fo_inv fo" and "0 < fo_free fo" and "st \<noteq> INVALID" and "st' \<noteq> INVALID"
    and "fo_register_attribute fo d n st = (Inr a, fo')"
  shows "fo_inv fo' \<and> fo_lookup_attribute_by_name fo' d n = Inr a \<and> oa_storage_type a = st \<and>
    (if st' = st then fo_register_attribute fo' d n st' = (Inr a, fo')
     else \<exists>m. fo_register_attribute fo' d n st' = (Inl (IllegalStateError m), fo'))"
  using fo.register_lookup [OF assms(1-3,5)] fo.register_twice [OF assms] by blast

theorem fo_register_contract_witness:
  "\<exists>fo'. fo_register_attribute FileOntology_new ''posix'' ''fh'' UINT32 =
      (Inr \<lparr>oa_aID = 1, oa_storage_type = UINT32\<rparr>, fo') \<and> fo_inv fo' \<and>
      (\<exists>m. fo_register_attribute fo' ''posix'' ''fh'' STRING = (Inl (IllegalStateError m), fo'))"
proof -
  have reg: "fo_register_attribute FileOntology_new ''posix'' ''fh'' UINT32 =
      (Inr \<lparr>oa_aID = 1, oa_storage_type = UINT32\<rparr>, fo_added FileOntology_new ''posix'' ''fh'' UINT32)"
    by (simp add: fo_register_new FileOntology_new_def)
  show ?thesis
    using fo_register_contract [OF fo_inv_new _ _ _ reg, of STRING] reg
    by (auto simp: fo_free_def FileOntology_new_def)
qed

text \<open>
  Ids of the file ontology are unique. Two names that are both registered have the
  same id only if they are the same pair, as long as no domain contains the separator \<open>|\<close>
  that the key of the name map is built with.
\<close>

theorem fo_ids_unique:
  assumes "fo_inv fo" and "fo_name_ok d n" and "fo_name_ok d' n'"
    and "fo_lookup_attribute_by_name fo d n = Inr a" and "fo_lookup_attribute_by_name fo d' n' = Inr a'"
    and "fo_lookup_attribute_by_ID fo (oa_aID a) = Inr f" and "fo_name_ok (oa_domain f) (oa_name f)"
  shows "oa_aID a = oa_aID a' \<longleftrightarrow> d = d' \<and> n = n'"
  using fo.register_distinct [OF assms(1-5,7,6)] .

definition fo_two :: FileOntology where
  "fo_two = fo_added (fo_added FileOntology_new ''posix'' ''fh'' UINT32) ''posix'' ''name'' STRING"

lemma fo_two_inv: "fo_inv fo_two"
  unfolding fo_two_def
  by (intro fo_added_inv fo_inv_new)
    (simp_all add: FileOntology_new_def fo_added_def fqn_def fo_free_def)

theorem fo_ids_unique_witness:
  "fo_lookup_attribute_by_name fo_two ''posix'' ''fh'' = Inr \<lparr>oa_aID = 1, oa_storage_type = UINT32\<rparr> \<and>
   fo_lookup_attribute_by_name fo_two ''posix'' ''name'' = Inr \<lparr>oa_aID = 2, oa_storage_type = STRING\<rparr> \<and>
   ((1 :: u32) = 2 \<longleftrightarrow> ''posix'' = ''posix'' \<and> ''fh'' = ''name'')"
proof -
  note ev = fo_two_def fo_added_def FileOntology_new_def fo_lookup_attribute_by_name_def
    fo_lookup_attribute_by_ID_def fqn_def fo_new_av_def av_at_def oa_slice_def
  have 1: "fo_lookup_attribute_by_name fo_two ''posix'' ''fh'' = Inr \<lparr>oa_aID = 1, oa_storage_type = UINT32\<rparr>"
    and 2: "fo_lookup_attribute_by_name fo_two ''posix'' ''name'' = Inr \<lparr>oa_aID = 2, oa_storage_type = STRING\<rparr>"
    and 3: "fo_lookup_attribute_by_ID fo_two 1 =
      Inr \<lparr>oa_aID = 1, oa_storage_type = UINT32, oa_domain = ''posix'', oa_name = ''fh''\<rparr>"
    by (simp_all add: ev)
  show ?thesis
    using fo_ids_unique [OF fo_two_inv _ _ 1 2, of
        "\<lparr>oa_aID = 1, oa_storage_type = UINT32, oa_domain = ''posix'', oa_name = ''fh''\<rparr>"] 1 2 3
    by (simp add: fo_name_ok_def)
qed

text \<open>
  Saving and loading. When something was registered since the last load, the
  file that \<open>save\<close> writes, loaded into any ontology object, gives the same answers to every
  lookup by name, by id and of meta attributes, and continues with the same id.
\<close>

theorem fo_save_load:
  assumes "fo_inv fo" and "fo_loadedID fo \<noteq> fo_nextID fo" and "fo' = fo_load g (fo_save fo file)"
  shows "fo_lookup_attribute_by_name fo' = fo_lookup_attribute_by_name fo \<and>
    fo_lookup_attribute_by_ID fo' = fo_lookup_attribute_by_ID fo \<and>
    fo_lookup_meta_attribute fo' = fo_lookup_meta_attribute fo \<and>
    fo_enumerate_meta_attributes fo' = fo_enumerate_meta_attributes fo \<and>
    fo_nextID fo' = fo_nextID fo"
proof -
  note m = fo_save_load_maps [OF assms]
  have "fo_lookup_attribute_by_name fo' d n = fo_lookup_attribute_by_name fo d n" for d n
    using m(2) [of "fqn d n"]
    by (cases rule: option.rel_cases) (simp_all add: fo_lookup_attribute_by_name_def)
  moreover have "fo_lookup_attribute_by_ID fo' i = fo_lookup_attribute_by_ID fo i" for i
    using m(1) [of i] by (cases rule: option.rel_cases) (simp_all add: fo_lookup_attribute_by_ID_def)
  moreover have "fo_lookup_meta_attribute fo' b c = fo_lookup_meta_attribute fo b c" for b c
    using m(1) [of "oa_aID b"]
    by (cases rule: option.rel_cases)
      (simp_all add: fo_lookup_meta_attribute_def lookupAttributeIndex_def split: option.split)
  moreover have "fo_enumerate_meta_attributes fo' b = fo_enumerate_meta_attributes fo b" for b
    using m(1) [of "oa_aID b"]
    by (cases rule: option.rel_cases) (simp_all add: fo_enumerate_meta_attributes_def)
  ultimately show ?thesis using m(3) by (auto simp: fun_eq_iff)
qed

theorem fo_save_load_witness:
  "fo_lookup_attribute_by_name (fo_load FileOntology_new (fo_save fo_two NoFile)) ''posix'' ''name'' =
    Inr \<lparr>oa_aID = 2, oa_storage_type = STRING\<rparr>"
proof -
  have "fo_loadedID fo_two \<noteq> fo_nextID fo_two"
    by (simp add: fo_two_def fo_added_def FileOntology_new_def)
  from fo_save_load [OF fo_two_inv this refl, of FileOntology_new NoFile]
  show ?thesis
    by (simp add: fo_two_def fo_added_def FileOntology_new_def fo_lookup_attribute_by_name_def fqn_def
        fo_new_av_def av_at_def oa_slice_def)
qed

text \<open>
  Meta attributes alone are not saved. \<open>save\<close> decides by the id counter whether
  there is anything to write, and setting a meta attribute does not move the counter: after
  loading, setting meta attributes and saving leaves the file as it was, so they are lost.
\<close>

theorem fo_meta_not_saved:
  "fo_save (snd (fo_attribute_set_meta_attribute (fo_load fo (Archive i avs)) b c v)) file = file"
  by (simp add: fo_save_def fo_set_meta_keeps_ids) (simp add: fo_load_def Let_def)

end
