(* ===== verification/Activity_Builder.thy ===== *)
theory Activity_Builder
  imports Ids
begin

text \<open>
  Activities and their construction: \<open>include/monitoring/datatypes/Activity.hpp\<close>,
  \<open>include/monitoring/activity_builder/ActivityBuilder.hpp\<close> and
  \<open>monitoring/activity_builder/ActivityBuilder.cpp\<close>. Activities, remote calls and builders are
  reached through pointers, so the state is a store with one map per kind of object; \<open>new\<close> takes
  the next unused address. A null pointer is \<open>None\<close>, a pointer to no object is undefined
  behaviour, and the assertions of the code are \<open>Abort\<close>.

  The invariant says that the identifiers handed out are unique over all threads, that each stack
  holds the open activities of its thread, and that every activity on a stack names the one below
  it as its first parent.
\<close>

type_synonym Timestamp = u64

record RemoteCall =
  rc_target :: RemoteCallIdentifier
  rc_attributes :: "Attribute list"

record Activity =
  a_ucaid :: UniqueComponentActivityID
  a_time_start :: Timestamp
  a_time_stop :: Timestamp
  a_aid :: ActivityID
  a_parentArray :: "ActivityID list"
  a_remoteCallsArray :: "RemoteCall list"
  a_attributeArray :: "Attribute list"
  a_remoteInvoker :: "RemoteCallIdentifier option"
  a_errorValue :: ActivityError

definition duration :: "Activity \<Rightarrow> Timestamp" where
  "duration a = a_time_stop a - a_time_start a"

fun replace_attribute_in :: "Attribute \<Rightarrow> Attribute list \<Rightarrow> Attribute list" where
  "replace_attribute_in r [] = [r]"
| "replace_attribute_in r (x # xs) = (if attr_id x = attr_id r then r # xs else x # replace_attribute_in r xs)"

definition replaceAttribute :: "Attribute \<Rightarrow> Activity \<Rightarrow> Activity" where
  "replaceAttribute r a = a \<lparr>a_attributeArray := replace_attribute_in r (a_attributeArray a)\<rparr>"

fun find_attribute_in :: "OntologyAttributeID \<Rightarrow> Attribute list \<Rightarrow> AttributeValue option" where
  "find_attribute_in k [] = None"
| "find_attribute_in k (x # xs) = (if attr_id x = k then Some (attr_value x) else find_attribute_in k xs)"

definition findAttribute :: "Activity \<Rightarrow> OntologyAttributeID \<Rightarrow> AttributeValue option" where
  "findAttribute a k = find_attribute_in k (a_attributeArray a)"

section \<open>The store\<close>

record ActivityBuilder =
  ab_stack :: "nat list"
  ab_next :: u32
  ab_thread :: u32

record InternalRemoteCall = RemoteCall +
  irc_activity :: "nat option"

record world =
  w_acts :: "nat \<rightharpoonup> Activity"
  w_rcs :: "nat \<rightharpoonup> InternalRemoteCall"
  w_fresh :: nat
  w_current_thread_ID :: u32
  w_builders :: "ActivityBuilder list"
  w_instances :: "nat \<rightharpoonup> nat"

definition world_new :: world where
  "world_new = \<lparr>w_acts = Map.empty, w_rcs = Map.empty, w_fresh = 0, w_current_thread_ID = 0,
     w_builders = [], w_instances = Map.empty\<rparr>"

definition act_at :: "nat option \<Rightarrow> world \<Rightarrow> Activity outcome" where
  "act_at p w = (case p of None \<Rightarrow> Inl (Undefined ''null pointer'')
     | Some q \<Rightarrow> (case w_acts w q of None \<Rightarrow> Inl (Undefined ''dangling pointer'') | Some a \<Rightarrow> Inr a))"

definition put_act :: "nat option \<Rightarrow> Activity \<Rightarrow> world \<Rightarrow> world" where
  "put_act p a w = (case p of None \<Rightarrow> w | Some q \<Rightarrow> w \<lparr>w_acts := (w_acts w)(q \<mapsto> a)\<rparr>)"

definition check_that :: "bool \<Rightarrow> string \<Rightarrow> unit outcome" where
  "check_that b msg = (if b then Inr () else Inl (Abort msg))"

section \<open>Builders\<close>

definition getNewInstance :: "world \<Rightarrow> nat \<times> world" where
  "getNewInstance w =
     (let t = w_current_thread_ID w + 1
      in (length (w_builders w),
          w \<lparr>w_current_thread_ID := t, w_builders := w_builders w @ [\<lparr>ab_stack = [], ab_next = 1, ab_thread = t\<rparr>]\<rparr>))"

definition getThreadInstance :: "nat \<Rightarrow> world \<Rightarrow> nat \<times> world" where
  "getThreadInstance thread w =
     (case w_instances w thread of
        Some b \<Rightarrow> (b, w)
      | None \<Rightarrow> (case getNewInstance w of (b, w') \<Rightarrow> (b, w' \<lparr>w_instances := (w_instances w')(thread \<mapsto> b)\<rparr>)))"

text \<open>
  The default constructor of \<open>Activity\<close> leaves the start time uninitialised; \<open>junk\<close> is what the
  memory held.
\<close>

definition begun_activity :: "UniqueComponentActivityID \<Rightarrow> Timestamp \<Rightarrow> ActivityID \<Rightarrow> ActivityID list \<Rightarrow> Activity" where
  "begun_activity ucaid junk aid parents =
     \<lparr>a_ucaid = ucaid, a_time_start = junk, a_time_stop = 0, a_aid = aid, a_parentArray = parents,
      a_remoteCallsArray = [], a_attributeArray = [], a_remoteInvoker = None, a_errorValue = 0\<rparr>"

definition stack_parents :: "ActivityBuilder \<Rightarrow> world \<Rightarrow> ActivityID list outcome" where
  "stack_parents ab w =
     (if ab_stack ab = [] then Inr []
      else bindr (act_at (Some (last (ab_stack ab))) w) (\<lambda>top. Inr [a_aid top]))"

definition begin_world :: "nat \<Rightarrow> Activity \<Rightarrow> world \<Rightarrow> world" where
  "begin_world b a w =
     (let ab = w_builders w ! b; p = w_fresh w
      in w \<lparr>w_acts := (w_acts w)(p \<mapsto> a), w_fresh := Suc p,
            w_builders := (w_builders w)[b := ab \<lparr>ab_stack := ab_stack ab @ [p], ab_next := ab_next ab + 1\<rparr>]\<rparr>)"

definition beginActivity ::
  "nat \<Rightarrow> ComponentID \<Rightarrow> UniqueComponentActivityID \<Rightarrow> Timestamp \<Rightarrow> world \<Rightarrow> (nat \<times> world) outcome" where
  "beginActivity b cid ucaid junk w =
     bindr (check_that (ucaid \<noteq> 0) ''ucaid != 0'') (\<lambda>_.
     if \<not> b < length (w_builders w) then Inl (Undefined ''no builder'')
     else
       let ab = w_builders w ! b; aid = ActivityID cid (ab_next ab) (ab_thread ab)
       in bindr (stack_parents ab w) (\<lambda>parents.
          Inr (w_fresh w, begin_world b (begun_activity ucaid junk aid parents) w)))"

definition beginActivity_remote ::
  "nat \<Rightarrow> ComponentID \<Rightarrow> UniqueComponentActivityID \<Rightarrow> RemoteCallIdentifier \<Rightarrow> Timestamp \<Rightarrow> world
   \<Rightarrow> (nat \<times> world) outcome" where
  "beginActivity_remote b cid ucaid caller junk w =
     bindr (beginActivity b cid ucaid junk w) (\<lambda>(p, w').
     bindr (act_at (Some p) w') (\<lambda>a.
     Inr (p, put_act (Some p) (a \<lparr>a_remoteInvoker := Some caller\<rparr>) w')))"

definition startActivity :: "nat option \<Rightarrow> Timestamp \<Rightarrow> world \<Rightarrow> world outcome" where
  "startActivity p t w = bindr (act_at p w) (\<lambda>a. Inr (put_act p (a \<lparr>a_time_start := t\<rparr>) w))"

definition stopActivity :: "nat option \<Rightarrow> Timestamp \<Rightarrow> world \<Rightarrow> world outcome" where
  "stopActivity p t w = bindr (act_at p w) (\<lambda>a. Inr (put_act p (a \<lparr>a_time_stop := t\<rparr>) w))"

definition endActivity :: "nat \<Rightarrow> nat option \<Rightarrow> world \<Rightarrow> world outcome" where
  "endActivity b p w =
     bindr (check_that (p \<noteq> None) ''a != nullptr'') (\<lambda>_.
     bindr (act_at p w) (\<lambda>a.
     bindr (check_that (0 < a_time_stop a) ''a->time_stop_ > 0'') (\<lambda>_.
     if \<not> b < length (w_builders w) then Inl (Undefined ''no builder'')
     else let ab = w_builders w ! b
       in if ab_stack ab = [] then Inl (Undefined ''back() of an empty stack'')
          else bindr (check_that (p = Some (last (ab_stack ab))) ''a == activity_stack.back()'') (\<lambda>_.
            Inr (w \<lparr>w_builders := (w_builders w)[b := ab \<lparr>ab_stack := butlast (ab_stack ab)\<rparr>]\<rparr>)))))"

definition setActivityAttribute :: "nat option \<Rightarrow> Attribute \<Rightarrow> world \<Rightarrow> world outcome" where
  "setActivityAttribute p attribute w =
     bindr (check_that (p \<noteq> None) ''a != nullptr'') (\<lambda>_.
     bindr (act_at p w) (\<lambda>a. Inr (put_act p (a \<lparr>a_attributeArray := a_attributeArray a @ [attribute]\<rparr>) w)))"

definition reportActivityError :: "nat option \<Rightarrow> ActivityError \<Rightarrow> world \<Rightarrow> world outcome" where
  "reportActivityError p error w =
     bindr (check_that (p \<noteq> None) ''a != nullptr'') (\<lambda>_.
     bindr (act_at p w) (\<lambda>a.
     bindr (check_that (a_errorValue a = 0) ''a->errorValue_ == 0'') (\<lambda>_.
     Inr (put_act p (a \<lparr>a_errorValue := error\<rparr>) w))))"

definition linkActivities :: "nat option \<Rightarrow> ActivityID \<Rightarrow> world \<Rightarrow> world outcome" where
  "linkActivities child parent w =
     bindr (check_that (child \<noteq> None) ''child != nullptr'') (\<lambda>_.
     bindr (act_at child w) (\<lambda>a. Inr (put_act child (a \<lparr>a_parentArray := a_parentArray a @ [parent]\<rparr>) w)))"

section \<open>Remote calls\<close>

definition rc_at :: "nat option \<Rightarrow> world \<Rightarrow> InternalRemoteCall outcome" where
  "rc_at r w = (case r of None \<Rightarrow> Inl (Undefined ''null pointer'')
     | Some q \<Rightarrow> (case w_rcs w q of None \<Rightarrow> Inl (Undefined ''dangling pointer'') | Some rc \<Rightarrow> Inr rc))"

definition setupRemoteCall :: "nat option \<Rightarrow> RemoteCallIdentifier \<Rightarrow> world \<Rightarrow> (nat \<times> world) outcome" where
  "setupRemoteCall p target w =
     bindr (check_that (p \<noteq> None) ''a != nullptr'') (\<lambda>_.
     Inr (w_fresh w,
          w \<lparr>w_rcs := (w_rcs w)(w_fresh w \<mapsto> \<lparr>rc_target = target, rc_attributes = [], irc_activity = p\<rparr>),
             w_fresh := Suc (w_fresh w)\<rparr>))"

definition setRemoteCallAttribute :: "nat option \<Rightarrow> Attribute \<Rightarrow> world \<Rightarrow> world outcome" where
  "setRemoteCallAttribute r attribute w =
     bindr (check_that (r \<noteq> None) ''rc != nullptr'') (\<lambda>_.
     bindr (rc_at r w) (\<lambda>rc.
     Inr (w \<lparr>w_rcs := (w_rcs w)(the r \<mapsto> rc \<lparr>rc_attributes := rc_attributes rc @ [attribute]\<rparr>)\<rparr>)))"

text \<open>\<open>startRemoteCall\<close> copies the remote call into its activity, frees it and clears the caller's pointer.\<close>

definition startRemoteCall :: "nat option \<Rightarrow> world \<Rightarrow> (nat option \<times> world) outcome" where
  "startRemoteCall r w =
     bindr (check_that (r \<noteq> None) ''erc != nullptr'') (\<lambda>_.
     bindr (rc_at r w) (\<lambda>rc.
     bindr (act_at (irc_activity rc) w) (\<lambda>a.
     let w1 = put_act (irc_activity rc)
                (a \<lparr>a_remoteCallsArray := a_remoteCallsArray a @ [\<lparr>rc_target = rc_target rc, rc_attributes = rc_attributes rc\<rparr>]\<rparr>) w
     in Inr (None, w1 \<lparr>w_rcs := (w_rcs w1)(the r := None)\<rparr>))))"

section \<open>Runs\<close>

datatype builder_op =
    NewInstance
  | ThreadInstance nat
  | Begin nat ComponentID UniqueComponentActivityID Timestamp
  | BeginRemote nat ComponentID UniqueComponentActivityID RemoteCallIdentifier Timestamp
  | Start "nat option" Timestamp
  | Stop "nat option" Timestamp
  | End nat "nat option"
  | SetAttribute "nat option" Attribute
  | ReportError "nat option" ActivityError
  | Link "nat option" ActivityID
  | SetupRemote "nat option" RemoteCallIdentifier
  | RemoteAttribute "nat option" Attribute
  | StartRemote "nat option"

fun builder_apply :: "builder_op \<Rightarrow> world \<Rightarrow> world outcome" where
  "builder_apply NewInstance w = Inr (snd (getNewInstance w))"
| "builder_apply (ThreadInstance t) w = Inr (snd (getThreadInstance t w))"
| "builder_apply (Begin b cid u j) w = bindr (beginActivity b cid u j w) (\<lambda>(p, w'). Inr w')"
| "builder_apply (BeginRemote b cid u c j) w = bindr (beginActivity_remote b cid u c j w) (\<lambda>(p, w'). Inr w')"
| "builder_apply (Start p t) w = startActivity p t w"
| "builder_apply (Stop p t) w = stopActivity p t w"
| "builder_apply (End b p) w = endActivity b p w"
| "builder_apply (SetAttribute p x) w = setActivityAttribute p x w"
| "builder_apply (ReportError p e) w = reportActivityError p e w"
| "builder_apply (Link p x) w = linkActivities p x w"
| "builder_apply (SetupRemote p t) w = bindr (setupRemoteCall p t w) (\<lambda>(r, w'). Inr w')"
| "builder_apply (RemoteAttribute r x) w = setRemoteCallAttribute r x w"
| "builder_apply (StartRemote r) w = bindr (startRemoteCall r w) (\<lambda>(r', w'). Inr w')"

fun builder_run :: "builder_op list \<Rightarrow> world \<Rightarrow> world outcome" where
  "builder_run [] w = Inr w"
| "builder_run (x # xs) w = bindr (builder_apply x w) (builder_run xs)"

section \<open>Attributes of an activity\<close>

lemma find_replace_in:
  "find_attribute_in k (replace_attribute_in r xs) = (if k = attr_id r then Some (attr_value r) else find_attribute_in k xs)"
  by (induction xs) auto

lemma find_append_in:
  "find_attribute_in k (xs @ ys) = (case find_attribute_in k xs of None \<Rightarrow> find_attribute_in k ys | Some v \<Rightarrow> Some v)"
  by (induction xs) auto

lemma check_that_simps [simp]:
  "check_that True m = Inr ()" "check_that False m = Inl (Abort m)"
  by (simp_all add: check_that_def)

lemma act_at_simps [simp]:
  "act_at None w = Inl (Undefined ''null pointer'')"
  "w_acts w q = Some a \<Longrightarrow> act_at (Some q) w = Inr a"
  by (simp_all add: act_at_def)

lemma act_at_Inr: "act_at p w = Inr a \<longleftrightarrow> (\<exists>q. p = Some q \<and> w_acts w q = Some a)"
  by (auto simp: act_at_def split: option.splits)

lemma rc_at_Inr: "rc_at r w = Inr rc \<longleftrightarrow> (\<exists>q. r = Some q \<and> w_rcs w q = Some rc)"
  by (auto simp: rc_at_def split: option.splits)

lemma check_that_Inr: "check_that b m = Inr u \<longleftrightarrow> b"
  by (simp add: check_that_def)

lemmas outcome_iffs = bindr_Inr_iff check_that_Inr act_at_Inr rc_at_Inr

section \<open>The invariant\<close>

text \<open>
  A stack lists live activities of its thread in the order of their creation, and each names the
  one below as its first parent.
\<close>

definition stack_ok :: "(nat \<rightharpoonup> Activity) \<Rightarrow> u32 \<Rightarrow> nat list \<Rightarrow> bool" where
  "stack_ok acts t st \<longleftrightarrow> sorted_wrt (<) st \<and>
     (\<forall>p \<in> set st. \<exists>a. acts p = Some a \<and> aid_thread (a_aid a) = t) \<and>
     (\<forall>i. Suc i < length st \<longrightarrow>
        (\<exists>a c ps. acts (st ! i) = Some a \<and> acts (st ! Suc i) = Some c \<and> a_parentArray c = a_aid a # ps))"

text \<open>The identifiers in the store come from a builder's counter and determine the address.\<close>

definition issued_ok :: "(nat \<rightharpoonup> Activity) \<Rightarrow> nat \<Rightarrow> ActivityBuilder list \<Rightarrow> bool" where
  "issued_ok acts m bs \<longleftrightarrow>
     (\<forall>p a. acts p = Some a \<longrightarrow> p < m \<and>
        (\<exists>i < length bs. aid_thread (a_aid a) = of_nat (Suc i) \<and> unat (aid_id (a_aid a)) < unat (ab_next (bs ! i)))) \<and>
     (\<forall>p q a c. acts p = Some a \<longrightarrow> acts q = Some c \<longrightarrow> aid_thread (a_aid a) = aid_thread (a_aid c) \<longrightarrow>
        aid_id (a_aid a) = aid_id (a_aid c) \<longrightarrow> p = q)"

definition builders_ok :: "nat \<Rightarrow> ActivityBuilder list \<Rightarrow> u32 \<Rightarrow> bool" where
  "builders_ok n bs c \<longleftrightarrow> c = of_nat (length bs) \<and> length bs \<le> n \<and>
     (\<forall>i < length bs. ab_thread (bs ! i) = of_nat (Suc i) \<and> unat (ab_next (bs ! i)) \<le> Suc n)"

definition world_inv :: "nat \<Rightarrow> world \<Rightarrow> bool" where
  "world_inv n w \<longleftrightarrow>
     builders_ok n (w_builders w) (w_current_thread_ID w) \<and>
     issued_ok (w_acts w) (w_fresh w) (w_builders w) \<and>
     (\<forall>i < length (w_builders w). stack_ok (w_acts w) (ab_thread (w_builders w ! i)) (ab_stack (w_builders w ! i)))"

lemma world_inv_new: "world_inv 0 world_new"
  by (simp add: world_inv_def world_new_def builders_ok_def issued_ok_def)

lemma builders_ok_Suc: "builders_ok n bs c \<Longrightarrow> builders_ok (Suc n) bs c"
  by (auto simp: builders_ok_def intro: le_SucI)

lemma world_inv_Suc: "world_inv n w \<Longrightarrow> world_inv (Suc n) w"
  by (auto simp: world_inv_def builders_ok_Suc)

text \<open>An update of one activity that keeps its identifier and only adds parents.\<close>

lemma stack_ok_upd:
  assumes ok: "stack_ok acts t st" and q: "acts q = Some a"
    and aid: "a_aid a' = a_aid a" and par: "a_parentArray a' = a_parentArray a @ xs"
  shows "stack_ok (acts(q \<mapsto> a')) t st"
proof -
  have same: "\<exists>b'. (acts(q \<mapsto> a')) p = Some b' \<and> a_aid b' = a_aid b \<and> (\<exists>ys. a_parentArray b' = a_parentArray b @ ys)"
    if "acts p = Some b" for p b
    using that q aid par by (cases "p = q") auto
  have live: "\<exists>b'. (acts(q \<mapsto> a')) p = Some b' \<and> aid_thread (a_aid b') = t" if "p \<in> set st" for p
  proof -
    obtain b where "acts p = Some b" "aid_thread (a_aid b) = t" using ok \<open>p \<in> set st\<close> by (auto simp: stack_ok_def)
    with same show ?thesis by metis
  qed
  have link: "\<exists>a c ps. (acts(q \<mapsto> a')) (st ! i) = Some a \<and> (acts(q \<mapsto> a')) (st ! Suc i) = Some c \<and> a_parentArray c = a_aid a # ps"
    if "Suc i < length st" for i
  proof -
    obtain b c ps where "acts (st ! i) = Some b" "acts (st ! Suc i) = Some c" "a_parentArray c = a_aid b # ps"
      using ok \<open>Suc i < length st\<close> unfolding stack_ok_def by blast
    with same [of "st ! i" b] same [of "st ! Suc i" c] show ?thesis by fastforce
  qed
  show ?thesis using ok live link by (simp only: stack_ok_def) blast
qed

lemma issued_okD:
  "issued_ok acts m bs \<Longrightarrow> acts p = Some a \<Longrightarrow> p < m \<and>
     (\<exists>i < length bs. aid_thread (a_aid a) = of_nat (Suc i) \<and> unat (aid_id (a_aid a)) < unat (ab_next (bs ! i)))"
  unfolding issued_ok_def by blast

lemma issued_ok_inj:
  "issued_ok acts m bs \<Longrightarrow> acts p = Some a \<Longrightarrow> acts q = Some c \<Longrightarrow> aid_thread (a_aid a) = aid_thread (a_aid c) \<Longrightarrow>
     aid_id (a_aid a) = aid_id (a_aid c) \<Longrightarrow> p = q"
  unfolding issued_ok_def by blast

lemma issued_okI:
  assumes "\<And>p a. acts p = Some a \<Longrightarrow> p < m \<and>
      (\<exists>i < length bs. aid_thread (a_aid a) = of_nat (Suc i) \<and> unat (aid_id (a_aid a)) < unat (ab_next (bs ! i)))"
    and "\<And>p q a c. acts p = Some a \<Longrightarrow> acts q = Some c \<Longrightarrow> aid_thread (a_aid a) = aid_thread (a_aid c) \<Longrightarrow>
      aid_id (a_aid a) = aid_id (a_aid c) \<Longrightarrow> p = q"
  shows "issued_ok acts m bs"
  using assms unfolding issued_ok_def by blast

lemma issued_ok_upd:
  assumes iss: "issued_ok acts n bs" and "acts q = Some a" and "a_aid a' = a_aid a"
  shows "issued_ok (acts(q \<mapsto> a')) n bs"
proof (rule issued_okI)
  have old: "\<exists>b. acts p = Some b \<and> a_aid b = a_aid c" if "(acts(q \<mapsto> a')) p = Some c" for p c
    using that assms(2,3) by (cases "p = q") auto
  show "p < n \<and> (\<exists>i < length bs. aid_thread (a_aid c) = of_nat (Suc i) \<and> unat (aid_id (a_aid c)) < unat (ab_next (bs ! i)))"
    if "(acts(q \<mapsto> a')) p = Some c" for p c
    using old [OF that] issued_okD [OF iss] by force
  show "p = r" if "(acts(q \<mapsto> a')) p = Some c" "(acts(q \<mapsto> a')) r = Some d"
    "aid_thread (a_aid c) = aid_thread (a_aid d)" "aid_id (a_aid c) = aid_id (a_aid d)" for p r c d
    using old [OF that(1)] old [OF that(2)] that(3,4) issued_ok_inj [OF iss] by force
qed

lemma world_inv_upd:
  assumes "world_inv n w" and "w_acts w q = Some a" and "a_aid a' = a_aid a" and "a_parentArray a' = a_parentArray a @ xs"
  shows "world_inv n (w \<lparr>w_acts := (w_acts w)(q \<mapsto> a')\<rparr>)"
  using assms by (auto simp: world_inv_def intro: issued_ok_upd stack_ok_upd)

lemma world_inv_put:
  assumes "world_inv n w" and "w_acts w q = Some a" and "a_aid a' = a_aid a" and "a_parentArray a' = a_parentArray a @ xs"
  shows "world_inv n (put_act (Some q) a' w)"
  using world_inv_upd [OF assms] by (simp add: put_act_def)

lemma issued_ok_mono: "issued_ok acts m bs \<Longrightarrow> m \<le> n \<Longrightarrow> issued_ok acts n bs"
  unfolding issued_ok_def by (meson less_le_trans)

lemma world_inv_rcs [simp]: "world_inv n (w \<lparr>w_rcs := r\<rparr>) = world_inv n w"
  by (simp add: world_inv_def)

lemma world_inv_instances [simp]: "world_inv n (w \<lparr>w_instances := r\<rparr>) = world_inv n w"
  by (simp add: world_inv_def)

lemma world_inv_fresh: "world_inv n w \<Longrightarrow> world_inv n (w \<lparr>w_fresh := Suc (w_fresh w)\<rparr>)"
  by (auto simp: world_inv_def intro: issued_ok_mono)

lemma stack_ok_mono:
  assumes "stack_ok acts t st" and "\<And>q a. acts q = Some a \<Longrightarrow> acts' q = Some a"
  shows "stack_ok acts' t st"
  using assms unfolding stack_ok_def by meson

lemma stack_ok_push:
  assumes ok: "stack_ok acts t st" and less: "\<forall>q \<in> set st. q < p"
    and new: "acts p = Some c" "aid_thread (a_aid c) = t"
    and par: "st \<noteq> [] \<Longrightarrow> \<exists>a. acts (last st) = Some a \<and> a_parentArray c = [a_aid a]"
  shows "stack_ok acts t (st @ [p])"
proof -
  have "\<exists>a c' ps. acts ((st @ [p]) ! i) = Some a \<and> acts ((st @ [p]) ! Suc i) = Some c' \<and> a_parentArray c' = a_aid a # ps"
    if "Suc i < length (st @ [p])" for i
  proof (cases "Suc i < length st")
    case True
    then show ?thesis using ok by (simp add: stack_ok_def nth_append)
  next
    case False
    then have "st \<noteq> []" "i = length st - 1" using that by auto
    moreover from this have "(st @ [p]) ! i = last st" "(st @ [p]) ! Suc i = p"
      by (simp_all add: nth_append last_conv_nth)
    ultimately show ?thesis using par new by auto
  qed
  then show ?thesis using ok less new by (auto simp: stack_ok_def sorted_wrt_append)
qed

lemma stack_ok_butlast: "stack_ok acts t st \<Longrightarrow> stack_ok acts t (butlast st)"
proof (cases st rule: rev_cases)
  case (snoc ys y)
  assume "stack_ok acts t st"
  then have "\<exists>a c ps. acts ((ys @ [y]) ! i) = Some a \<and> acts ((ys @ [y]) ! Suc i) = Some c \<and> a_parentArray c = a_aid a # ps"
    if "Suc i < length ys" for i using that snoc by (simp add: stack_ok_def)
  then have "\<exists>a c ps. acts (ys ! i) = Some a \<and> acts (ys ! Suc i) = Some c \<and> a_parentArray c = a_aid a # ps"
    if "Suc i < length ys" for i using that by (fastforce simp: nth_append)
  then show ?thesis using \<open>stack_ok acts t st\<close> snoc by (simp add: stack_ok_def sorted_wrt_append)
qed simp

lemma of_nat_u32_eq_iff: "a < 2 ^ 32 \<Longrightarrow> b < 2 ^ 32 \<Longrightarrow> (of_nat a :: u32) = of_nat b \<longleftrightarrow> a = b"
  using unat_eq_iff [of "of_nat a :: u32" "of_nat b"] by (simp add: unat_of_nat)

lemma issued_ok_begin:
  assumes iss: "issued_ok acts p bs" and bok: "builders_ok n bs c" and b: "b < length bs"
    and nx: "unat (ab_next (bs ! b) + 1) = Suc (unat (ab_next (bs ! b)))" and none: "acts p = None"
    and n: "n < 2 ^ 32 - 2" and aid: "a_aid a = ActivityID cid (ab_next (bs ! b)) (of_nat (Suc b))"
    and ab': "ab_next ab' = ab_next (bs ! b) + 1"
  shows "issued_ok (acts(p \<mapsto> a)) (Suc p) (bs[b := ab'])"
proof -
  have len: "length bs \<le> n" using bok by (simp add: builders_ok_def)
  have old: "q < p \<and> (\<exists>i < length bs. aid_thread (a_aid d) = of_nat (Suc i) \<and> unat (aid_id (a_aid d)) < unat (ab_next (bs ! i)))"
    if "acts q = Some d" for q d using iss that by (auto simp: issued_ok_def)
  have fresh: "aid_id (a_aid d) \<noteq> ab_next (bs ! b)" if "acts q = Some d" "aid_thread (a_aid d) = of_nat (Suc b)" for q d
  proof -
    obtain i where i: "i < length bs" "aid_thread (a_aid d) = of_nat (Suc i)" "unat (aid_id (a_aid d)) < unat (ab_next (bs ! i))"
      using old [OF \<open>acts q = Some d\<close>] by blast
    then have "i = b" using \<open>aid_thread (a_aid d) = of_nat (Suc b)\<close> of_nat_u32_eq_iff [of "Suc i" "Suc b"] b len n by simp
    then show ?thesis using i by auto
  qed
  have src: "\<exists>i < length (bs[b := ab']). aid_thread (a_aid d) = of_nat (Suc i) \<and> unat (aid_id (a_aid d)) < unat (ab_next (bs[b := ab'] ! i))"
    if "(acts(p \<mapsto> a)) q = Some d" for q d
  proof (cases "q = p")
    case True
    then show ?thesis using that b nx aid ab' by (intro exI [of _ b]) auto
  next
    case False
    then obtain i where "i < length bs" "aid_thread (a_aid d) = of_nat (Suc i)" "unat (aid_id (a_aid d)) < unat (ab_next (bs ! i))"
      using old [of q d] \<open>(acts(p \<mapsto> a)) q = Some d\<close> by auto
    moreover from this have "unat (aid_id (a_aid d)) < unat (ab_next (bs[b := ab'] ! i))"
      using nx ab' by (cases "i = b") (auto simp: nth_list_update)
    ultimately show ?thesis unfolding length_list_update by blast
  qed
  have below: "q < Suc p" if "(acts(p \<mapsto> a)) q = Some d" for q d
    using that old [of q d] by (cases "q = p") auto
  have inj: "q = r" if "(acts(p \<mapsto> a)) q = Some d" "(acts(p \<mapsto> a)) r = Some e"
    "aid_thread (a_aid d) = aid_thread (a_aid e)" "aid_id (a_aid d) = aid_id (a_aid e)" for q r d e
  proof (cases "q = p \<or> r = p")
    case True
    have "x = p" if "(acts(p \<mapsto> a)) x = Some y" "aid_thread (a_aid y) = aid_thread (a_aid a)"
      "aid_id (a_aid y) = aid_id (a_aid a)" for x y
      using that fresh [of x y] by (cases "x = p") (simp_all add: aid del: of_nat_Suc)
    then show ?thesis using True that by (metis fun_upd_same option.inject)
  next
    case False
    then show ?thesis using that issued_ok_inj [OF iss, of q d r e] by simp
  qed
  show ?thesis by (rule issued_okI) (rule conjI, rule below, assumption, rule src, assumption, rule inj)
qed

section \<open>Every operation keeps the invariant\<close>

lemma world_inv_getNewInstance:
  assumes inv: "world_inv n w"
  shows "world_inv (Suc n) (snd (getNewInstance w))"
proof -
  let ?bs = "w_builders w" and ?b = "\<lparr>ab_stack = [], ab_next = 1, ab_thread = w_current_thread_ID w + 1\<rparr>"
  have b: "builders_ok (Suc n) (?bs @ [?b]) (w_current_thread_ID w + 1)"
    using inv by (auto simp: world_inv_def builders_ok_def nth_append less_Suc_eq le_SucI)
  have i: "issued_ok (w_acts w) (w_fresh w) (?bs @ [?b])"
    using inv unfolding world_inv_def issued_ok_def by (simp add: nth_append) (meson less_SucI)
  have "stack_ok (w_acts w) (ab_thread ((?bs @ [?b]) ! i)) (ab_stack ((?bs @ [?b]) ! i))" if "i < Suc (length ?bs)" for i
    using inv that by (auto simp: world_inv_def nth_append less_Suc_eq stack_ok_def)
  then show ?thesis
    using b i by (simp add: world_inv_def getNewInstance_def Let_def)
qed

lemma beginActivity_Inr:
  "beginActivity b cid u junk w = Inr (p, w') \<longleftrightarrow>
     u \<noteq> 0 \<and> b < length (w_builders w) \<and> p = w_fresh w \<and>
     (\<exists>parents. stack_parents (w_builders w ! b) w = Inr parents \<and>
        w' = begin_world b (begun_activity u junk
               (ActivityID cid (ab_next (w_builders w ! b)) (ab_thread (w_builders w ! b))) parents) w)"
  by (auto simp: beginActivity_def outcome_iffs Let_def)

lemma world_inv_begin_world:
  assumes inv: "world_inv n w" and n: "n < 2 ^ 32 - 2" and b: "b < length (w_builders w)"
    and par: "stack_parents (w_builders w ! b) w = Inr (a_parentArray a)"
    and aid: "a_aid a = ActivityID cid (ab_next (w_builders w ! b)) (ab_thread (w_builders w ! b))"
  shows "world_inv (Suc n) (begin_world b a w)"
proof -
  let ?bs = "w_builders w" and ?ab = "w_builders w ! b" and ?p = "w_fresh w"
  let ?acts = "(w_acts w)(?p \<mapsto> a)"
  let ?ab' = "?ab \<lparr>ab_stack := ab_stack ?ab @ [?p], ab_next := ab_next ?ab + 1\<rparr>"
  have bok: "builders_ok n ?bs (w_current_thread_ID w)" and iss: "issued_ok (w_acts w) ?p ?bs"
    and st: "\<And>i. i < length ?bs \<Longrightarrow> stack_ok (w_acts w) (ab_thread (?bs ! i)) (ab_stack (?bs ! i))"
    using inv by (auto simp: world_inv_def)
  have th: "ab_thread ?ab = of_nat (Suc b)" and le: "unat (ab_next ?ab) \<le> Suc n"
    using bok b by (auto simp: builders_ok_def)
  from le n have nx: "unat (ab_next ?ab + 1) = Suc (unat (ab_next ?ab))" by (simp add: unat_word_ariths)
  have live: "q < ?p" if "w_acts w q = Some d" for q d using iss that by (auto simp: issued_ok_def)
  then have none: "w_acts w ?p = None" by (meson less_irrefl not_None_eq)
  then have keep: "?acts q = Some d" if "w_acts w q = Some d" for q d using that by auto
  have bok': "builders_ok (Suc n) (?bs[b := ?ab']) (w_current_thread_ID w)"
    using bok nx b by (auto simp: builders_ok_def nth_list_update le_SucI)
  have iss': "issued_ok ?acts (Suc ?p) (?bs[b := ?ab'])"
    by (rule issued_ok_begin [OF iss bok b nx none n]) (simp_all add: aid th)
  have st': "stack_ok ?acts (ab_thread (?bs ! i)) (ab_stack (?bs ! i))" if "i < length ?bs" for i
    using stack_ok_mono [OF st [OF that]] keep by blast
  have "stack_ok ?acts (ab_thread ?ab) (ab_stack ?ab @ [?p])"
  proof (rule stack_ok_push [OF st' [OF b]])
    show "\<forall>q \<in> set (ab_stack ?ab). q < ?p" using st [OF b] live by (auto simp: stack_ok_def)
    show "\<exists>d. ?acts (last (ab_stack ?ab)) = Some d \<and> a_parentArray a = [a_aid d]" if "ab_stack ?ab \<noteq> []"
      using par that keep [of "last (ab_stack ?ab)"] none by (auto simp: stack_parents_def outcome_iffs)
  qed (simp_all add: aid)
  then show ?thesis
    using bok' iss' st' b by (simp add: world_inv_def begin_world_def Let_def nth_list_update)
qed

lemma world_inv_begin:
  assumes "world_inv n w" and "n < 2 ^ 32 - 2" and "beginActivity b cid u junk w = Inr (p, w')"
  shows "world_inv (Suc n) w'" and "w_acts w' p \<noteq> None"
  using assms world_inv_begin_world [OF assms(1,2)]
  by (auto simp: beginActivity_Inr begun_activity_def begin_world_def Let_def)

lemma endActivity_Inr:
  "endActivity b p w = Inr w' \<longleftrightarrow>
     (\<exists>q a. p = Some q \<and> w_acts w q = Some a \<and> 0 < a_time_stop a \<and> b < length (w_builders w) \<and>
        ab_stack (w_builders w ! b) \<noteq> [] \<and> q = last (ab_stack (w_builders w ! b)) \<and>
        w' = w \<lparr>w_builders := (w_builders w)[b := (w_builders w ! b) \<lparr>ab_stack := butlast (ab_stack (w_builders w ! b))\<rparr>]\<rparr>)"
  by (auto simp: endActivity_def outcome_iffs Let_def)

lemma world_inv_end:
  assumes inv: "world_inv n w" and "endActivity b p w = Inr w'"
  shows "world_inv n w'"
proof -
  let ?bs = "w_builders w"
  let ?bs' = "?bs[b := (?bs ! b) \<lparr>ab_stack := butlast (ab_stack (?bs ! b))\<rparr>]"
  have w': "w' = w \<lparr>w_builders := ?bs'\<rparr>" using assms(2) by (auto simp: endActivity_Inr)
  have nx: "ab_next (?bs' ! i) = ab_next (?bs ! i)" "ab_thread (?bs' ! i) = ab_thread (?bs ! i)"
    and st: "ab_stack (?bs' ! i) = (if i = b then butlast (ab_stack (?bs ! i)) else ab_stack (?bs ! i))"
    if "i < length ?bs" for i using that by (cases "i = b"; simp add: nth_list_update)+
  have "builders_ok n ?bs' (w_current_thread_ID w)"
    using inv nx unfolding world_inv_def builders_ok_def by simp
  moreover have "issued_ok (w_acts w) (w_fresh w) ?bs'"
    using inv nx by (simp add: world_inv_def issued_ok_def cong: conj_cong)
  moreover have "stack_ok (w_acts w) (ab_thread (?bs' ! i)) (ab_stack (?bs' ! i))" if "i < length ?bs'" for i
    using inv nx [of i] st [of i] that by (auto simp: world_inv_def intro: stack_ok_butlast)
  ultimately show ?thesis by (simp only: world_inv_def w') simp
qed

lemma world_inv_apply:
  assumes inv: "world_inv n w" and n: "n < 2 ^ 32 - 2" and run: "builder_apply x w = Inr w'"
  shows "world_inv (Suc n) w'"
proof (cases x)
  case NewInstance
  then show ?thesis using run world_inv_getNewInstance [OF inv] by simp
next
  case (ThreadInstance t)
  then show ?thesis using run world_inv_getNewInstance [OF inv] world_inv_Suc [OF inv]
    by (auto simp: getThreadInstance_def split: option.splits prod.splits)
next
  case (Begin b cid u j)
  then show ?thesis using run world_inv_begin(1) [OF inv n] by (auto simp: bindr_Inr_iff)
next
  case (BeginRemote b cid u c j)
  then obtain p w1 a where b: "beginActivity b cid u j w = Inr (p, w1)" "w_acts w1 p = Some a"
    and w': "w' = put_act (Some p) (a \<lparr>a_remoteInvoker := Some c\<rparr>) w1"
    using run by (auto simp: beginActivity_remote_def outcome_iffs)
  show ?thesis unfolding w' by (rule world_inv_put [OF world_inv_begin(1) [OF inv n b(1)] b(2), of _ "[]"]) simp_all
next
  case (End b p)
  then show ?thesis using run world_inv_Suc [OF world_inv_end [OF inv]] by simp
next
  case (SetupRemote p t)
  then show ?thesis using run world_inv_Suc [OF world_inv_fresh [OF inv]]
    by (auto simp: setupRemoteCall_def outcome_iffs world_inv_def)
next
  case (RemoteAttribute r a)
  then show ?thesis using run world_inv_Suc [OF inv] by (auto simp: setRemoteCallAttribute_def outcome_iffs)
qed (insert run, auto simp: startActivity_def stopActivity_def setActivityAttribute_def reportActivityError_def
      linkActivities_def startRemoteCall_def outcome_iffs Let_def intro!: world_inv_put [OF world_inv_Suc [OF inv]])

lemma world_inv_run:
  "world_inv n w \<Longrightarrow> n + length xs < 2 ^ 32 - 1 \<Longrightarrow> builder_run xs w = Inr w' \<Longrightarrow> world_inv (n + length xs) w'"
proof (induction xs arbitrary: n w)
  case Nil
  then show ?case by simp
next
  case (Cons x xs)
  then obtain w1 where w1: "builder_apply x w = Inr w1" "builder_run xs w1 = Inr w'" by (auto simp: bindr_Inr_iff)
  have "world_inv (Suc n) w1" using world_inv_apply [OF Cons.prems(1) _ w1(1)] Cons.prems(2) by simp
  from Cons.IH [OF this _ w1(2)] Cons.prems(2) show ?case by simp
qed

lemma world_inv_reach:
  "builder_run xs world_new = Inr w \<Longrightarrow> length xs < 2 ^ 32 - 1 \<Longrightarrow> world_inv (length xs) w"
  using world_inv_run [OF world_inv_new, of xs w] by simp

section \<open>Properties\<close>

text \<open>
  C3: Activity identifiers are unique. In every state reached from the start of the process by
  fewer than 2^32 - 1 calls of the builder interface, by any number of builders in any order, two
  different activities have different identifiers, and the identifier names the thread that
  created the activity. (After 2^32 calls the 32-bit counters wrap.)
\<close>

theorem builder_ids_unique:
  assumes "builder_run ops world_new = Inr w" and "length ops < 2 ^ 32 - 1"
    and "w_acts w p = Some a" and "w_acts w q = Some c"
  shows "(p \<noteq> q \<longleftrightarrow> a_aid a \<noteq> a_aid c) \<and>
    (\<exists>b < length (w_builders w). aid_thread (a_aid a) = ab_thread (w_builders w ! b))"
proof -
  have "world_inv (length ops) w" by (rule world_inv_reach) fact+
  then have iss: "issued_ok (w_acts w) (w_fresh w) (w_builders w)"
    and bok: "builders_ok (length ops) (w_builders w) (w_current_thread_ID w)" by (simp_all add: world_inv_def)
  have "a_aid a = a_aid c \<Longrightarrow> p = q" using iss assms(3,4) unfolding issued_ok_def by metis
  moreover have "\<exists>b < length (w_builders w). aid_thread (a_aid a) = ab_thread (w_builders w ! b)"
    using iss bok assms(3) unfolding issued_ok_def builders_ok_def by metis
  ultimately show ?thesis using assms(3,4) by auto
qed

definition sample_cid :: ComponentID where
  "sample_cid = ComponentID (ProcessID 1 2 3) 4"

definition sample_ops :: "builder_op list" where
  "sample_ops = [ThreadInstance 7, ThreadInstance 9, Begin 0 sample_cid 5 77, Begin 1 sample_cid 5 78, Begin 0 sample_cid 6 79]"

theorem builder_ids_unique_witness:
  "\<exists>w a c. builder_run sample_ops world_new = Inr w \<and> w_acts w 0 = Some a \<and> w_acts w 2 = Some c \<and> a_aid a \<noteq> a_aid c"
proof -
  obtain w a c where w: "builder_run sample_ops world_new = Inr w" "w_acts w 0 = Some a" "w_acts w 2 = Some c"
    by (simp add: sample_ops_def getThreadInstance_def getNewInstance_def world_new_def Let_def beginActivity_def
        stack_parents_def begin_world_def act_at_def)
  show ?thesis using builder_ids_unique [OF w(1) _ w(2,3)] w by (auto simp: sample_ops_def)
qed

text \<open>
  C27: Activities nest. In every reachable state a builder can begin an activity with a non-zero
  type: the new activity is on top of the builder's stack, its only parent is the activity that
  was on top, and no other builder changes. From then on \<open>endActivity\<close> succeeds for this activity
  alone, once it has been stopped, and restores the stack; ending any other activity or an
  activity that was not stopped does not return.
\<close>

theorem builder_nesting:
  assumes "builder_run ops world_new = Inr w" and "length ops < 2 ^ 32 - 1"
    and "b < length (w_builders w)" and "u \<noteq> 0" and "0 < t"
  shows "\<exists>p w1 a. beginActivity b cid u junk w = Inr (p, w1) \<and> w_acts w p = None \<and> w_acts w1 p = Some a \<and>
     ab_stack (w_builders w1 ! b) = ab_stack (w_builders w ! b) @ [p] \<and>
     a_parentArray a = (if ab_stack (w_builders w ! b) = [] then []
                        else [a_aid (the (w_acts w (last (ab_stack (w_builders w ! b)))))]) \<and>
     (\<forall>b'. b' \<noteq> b \<longrightarrow> w_builders w1 ! b' = w_builders w ! b') \<and>
     (\<forall>q w2. endActivity b q w1 \<noteq> Inr w2) \<and>
     (\<exists>w2. stopActivity (Some p) t w1 = Inr w2 \<and>
        (\<forall>q. q \<noteq> Some p \<longrightarrow> (\<forall>w3. endActivity b q w2 \<noteq> Inr w3)) \<and>
        (\<exists>w3. endActivity b (Some p) w2 = Inr w3 \<and> ab_stack (w_builders w3 ! b) = ab_stack (w_builders w ! b)))"
proof -
  let ?ab = "w_builders w ! b" and ?p = "w_fresh w"
  have inv: "world_inv (length ops) w" by (rule world_inv_reach) fact+
  then have st: "stack_ok (w_acts w) (ab_thread ?ab) (ab_stack ?ab)" using assms(3) by (simp add: world_inv_def)
  have none: "w_acts w ?p = None" using inv by (force simp: world_inv_def issued_ok_def)
  define parents where "parents = (if ab_stack ?ab = [] then [] else [a_aid (the (w_acts w (last (ab_stack ?ab))))])"
  have "w_acts w (last (ab_stack ?ab)) \<noteq> None" if "ab_stack ?ab \<noteq> []"
    using st that by (force simp: stack_ok_def)
  then have par: "stack_parents ?ab w = Inr parents" by (auto simp: stack_parents_def parents_def)
  let ?a = "begun_activity u junk (ActivityID cid (ab_next ?ab) (ab_thread ?ab)) parents"
  let ?w1 = "begin_world b ?a w"
  have b1: "w_builders ?w1 ! b = ?ab \<lparr>ab_stack := ab_stack ?ab @ [?p], ab_next := ab_next ?ab + 1\<rparr>"
    and len: "length (w_builders ?w1) = length (w_builders w)" and a1: "w_acts ?w1 ?p = Some ?a"
    using assms(3) by (simp_all add: begin_world_def Let_def)
  let ?w2 = "put_act (Some ?p) (?a \<lparr>a_time_stop := t\<rparr>) ?w1"
  have b2: "w_builders ?w2 = w_builders ?w1" "w_acts ?w2 ?p = Some (?a \<lparr>a_time_stop := t\<rparr>)" by (simp_all add: put_act_def)
  have begun: "beginActivity b cid u junk w = Inr (?p, ?w1)" using assms(3,4) par by (auto simp: beginActivity_Inr)
  have parents: "a_parentArray ?a = parents" "a_time_stop ?a = 0" by (simp_all add: begun_activity_def)
  have others: "\<forall>b'. b' \<noteq> b \<longrightarrow> w_builders ?w1 ! b' = w_builders w ! b'" by (simp add: begin_world_def Let_def)
  have early: "\<forall>q w2. endActivity b q ?w1 \<noteq> Inr w2" using a1 b1 parents by (auto simp: endActivity_Inr)
  have stop: "stopActivity (Some ?p) t ?w1 = Inr ?w2" using a1 by (simp add: stopActivity_def)
  have wrong: "\<forall>q. q \<noteq> Some ?p \<longrightarrow> (\<forall>w3. endActivity b q ?w2 \<noteq> Inr w3)" using b1 b2(1) by (auto simp: endActivity_Inr)
  have right: "\<exists>w3. endActivity b (Some ?p) ?w2 = Inr w3 \<and> ab_stack (w_builders w3 ! b) = ab_stack ?ab"
    using assms(3,5) b1 b2 len by (auto simp: endActivity_Inr)
  have pushed: "ab_stack (w_builders ?w1 ! b) = ab_stack ?ab @ [?p]" using b1 by simp
  have recorded: "a_parentArray ?a = (if ab_stack ?ab = [] then [] else [a_aid (the (w_acts w (last (ab_stack ?ab))))])"
    by (simp only: parents(1) parents_def [symmetric])
  have closed: "\<exists>w2. stopActivity (Some ?p) t ?w1 = Inr w2 \<and>
      (\<forall>q. q \<noteq> Some ?p \<longrightarrow> (\<forall>w3. endActivity b q w2 \<noteq> Inr w3)) \<and>
      (\<exists>w3. endActivity b (Some ?p) w2 = Inr w3 \<and> ab_stack (w_builders w3 ! b) = ab_stack ?ab)"
    by (rule exI [of _ ?w2]) (intro conjI stop wrong right)
  show ?thesis
    by (rule exI [of _ ?p], rule exI [of _ ?w1], rule exI [of _ ?a])
      (intro conjI begun none a1 pushed recorded others early closed)
qed

theorem builder_nesting_witness:
  "\<exists>w p w1. builder_run sample_ops world_new = Inr w \<and> beginActivity 1 sample_cid 8 0 w = Inr (p, w1) \<and>
     (\<exists>w2 w3. stopActivity (Some p) 100 w1 = Inr w2 \<and> endActivity 1 (Some p) w2 = Inr w3)"
proof -
  obtain w where w: "builder_run sample_ops world_new = Inr w" "1 < length (w_builders w)"
    by (simp add: sample_ops_def getThreadInstance_def getNewInstance_def world_new_def Let_def beginActivity_def
        stack_parents_def begin_world_def act_at_def)
  show ?thesis using builder_nesting [OF w(1) _ w(2), of 8 100 sample_cid 0] w by (fastforce simp: sample_ops_def)
qed

text \<open>
  C30: A remote call ends up in its activity. After \<open>setupRemoteCall\<close> on a live activity any number
  of attributes can be added, and \<open>startRemoteCall\<close> then appends the target with the attributes in
  the order given to the activity, changes nothing else of it, frees the remote call and clears
  the caller's pointer; with the freed pointer the call is undefined, with the cleared one it
  aborts.
\<close>

lemma remote_attributes_run:
  "w_rcs w r = Some rc \<Longrightarrow> builder_run (map (RemoteAttribute (Some r)) xs) w =
     Inr (w \<lparr>w_rcs := (w_rcs w)(r \<mapsto> rc \<lparr>rc_attributes := rc_attributes rc @ xs\<rparr>)\<rparr>)"
proof (induction xs arbitrary: w rc)
  case Nil
  then show ?case by (simp add: map_upd_triv)
next
  case (Cons x xs)
  let ?rc = "rc \<lparr>rc_attributes := rc_attributes rc @ [x]\<rparr>"
  have "setRemoteCallAttribute (Some r) x w = Inr (w \<lparr>w_rcs := (w_rcs w)(r \<mapsto> ?rc)\<rparr>)"
    using Cons.prems by (simp add: setRemoteCallAttribute_def rc_at_def)
  then show ?case using Cons.IH [of "w \<lparr>w_rcs := (w_rcs w)(r \<mapsto> ?rc)\<rparr>" ?rc]
    by (simp del: fun_upd_apply add: fun_upd_same)
qed

theorem remote_call_recorded:
  assumes "setupRemoteCall (Some p) target w = Inr (r, w1)" and "w_acts w p = Some a"
  shows "\<exists>w2 w3. builder_run (map (RemoteAttribute (Some r)) xs) w1 = Inr w2 \<and>
     startRemoteCall (Some r) w2 = Inr (None, w3) \<and>
     w_acts w3 = (w_acts w)(p \<mapsto> a \<lparr>a_remoteCallsArray :=
        a_remoteCallsArray a @ [\<lparr>rc_target = target, rc_attributes = xs\<rparr>]\<rparr>) \<and>
     w_builders w3 = w_builders w \<and>
     startRemoteCall (Some r) w3 = Inl (Undefined ''dangling pointer'') \<and>
     startRemoteCall None w3 = Inl (Abort ''erc != nullptr'')"
proof -
  let ?rc = "\<lparr>rc_target = target, rc_attributes = [], irc_activity = Some p\<rparr>"
  have r: "w_rcs w1 r = Some ?rc" and w1: "w_acts w1 = w_acts w" "w_builders w1 = w_builders w"
    using assms(1) by (auto simp: setupRemoteCall_def)
  define w2 where "w2 = w1 \<lparr>w_rcs := (w_rcs w1)(r \<mapsto> ?rc \<lparr>rc_attributes := xs\<rparr>)\<rparr>"
  have "builder_run (map (RemoteAttribute (Some r)) xs) w1 = Inr w2"
    using remote_attributes_run [OF r, of xs] by (simp add: w2_def)
  then show ?thesis
    using assms(2) by (simp add: startRemoteCall_def rc_at_def act_at_def put_act_def Let_def w2_def w1)
qed

theorem remote_call_recorded_witness:
  "\<exists>w r w1 w2 w3. builder_run sample_ops world_new = Inr w \<and>
     setupRemoteCall (Some 0) (RemoteCallIdentifier 1 2 3) w = Inr (r, w1) \<and>
     builder_run (map (RemoteAttribute (Some r)) [Attribute 4 (VUint64 9)]) w1 = Inr w2 \<and>
     startRemoteCall (Some r) w2 = Inr (None, w3)"
proof -
  obtain w a where w: "builder_run sample_ops world_new = Inr w" "w_acts w 0 = Some a"
    by (simp add: sample_ops_def getThreadInstance_def getNewInstance_def world_new_def Let_def beginActivity_def
        stack_parents_def begin_world_def act_at_def)
  obtain r w1 where "setupRemoteCall (Some 0) (RemoteCallIdentifier 1 2 3) w = Inr (r, w1)"
    by (simp add: setupRemoteCall_def)
  from remote_call_recorded [OF this w(2), of "[Attribute 4 (VUint64 9)]"] this w(1) show ?thesis by blast
qed

text \<open>
  C41: Attributes of an activity. After \<open>replaceAttribute\<close> the attribute has the new value and all
  others keep theirs. \<open>setActivityAttribute\<close> appends without looking for the attribute, so the
  value set first stays the one that \<open>findAttribute\<close> returns.
\<close>

theorem activity_attributes:
  "findAttribute (replaceAttribute r a) k = (if k = attr_id r then Some (attr_value r) else findAttribute a k) \<and>
   (w_acts w p = Some a \<longrightarrow>
     (\<exists>w' a'. setActivityAttribute (Some p) x w = Inr w' \<and> w_acts w' p = Some a' \<and>
        findAttribute a' k = (case findAttribute a k of Some v \<Rightarrow> Some v
                              | None \<Rightarrow> if k = attr_id x then Some (attr_value x) else None)))"
  by (auto simp: findAttribute_def replaceAttribute_def find_replace_in setActivityAttribute_def put_act_def
      find_append_in split: option.splits)

theorem activity_attributes_witness:
  "\<exists>w w' a'. builder_run sample_ops world_new = Inr w \<and> setActivityAttribute (Some 0) (Attribute 4 (VUint64 9)) w = Inr w' \<and>
     w_acts w' 0 = Some a' \<and> findAttribute a' 4 = Some (VUint64 9)"
proof -
  obtain w a where w: "builder_run sample_ops world_new = Inr w" "w_acts w 0 = Some a" "a_attributeArray a = []"
    by (simp add: sample_ops_def getThreadInstance_def getNewInstance_def world_new_def Let_def beginActivity_def
        stack_parents_def begin_world_def act_at_def begun_activity_def)
  show ?thesis
    using activity_attributes [of undefined a 4 w 0 "Attribute 4 (VUint64 9)"] w by (auto simp: findAttribute_def)
qed

end
