(* ===== verification/Activity_Queue.thy ===== *)
theory Activity_Queue
  imports Siox_Prelude
begin

text \<open>
  The ring buffer between the threads that log activities and the thread that notifies the
  asynchronous listeners: class \<open>ActivityMultiplexerQueue\<close> of
  \<open>monitoring/activity_multiplexer/ActivityMultiplexerAsync.cpp\<close>. The indices are 32-bit counters
  of which only the low 8 bits are used; a slot is kept empty, so the buffer holds at most 255
  activities; when it is full the queue enters the overload mode, in which every activity is
  counted and dropped until the reader has drained the buffer.

  The first part has the member functions; the relation \<open>q_rep\<close> connects the ring with the list
  of the activities in it. The second part splits \<open>Push\<close>, \<open>Pop\<close> and \<open>checkOverflowMode\<close> into the
  steps between which other threads run, and a step relation interleaves any number of writers
  with the reader.
\<close>

unbundle bit_operations_syntax

record 'a ActivityMultiplexerQueue =
  q_buffer :: "'a option list"
  q_writeIndex :: u32
  q_readIndex :: u32
  q_overloaded :: bool
  q_lost :: u64
  q_notified :: bool
  q_terminate :: bool
  q_terminated :: bool

definition queue_new :: "'a ActivityMultiplexerQueue" where
  "queue_new = \<lparr>q_buffer = replicate 256 None, q_writeIndex = 0, q_readIndex = 0, q_overloaded = False,
     q_lost = 0, q_notified = False, q_terminate = True, q_terminated = True\<rparr>"

definition q_start :: "'a ActivityMultiplexerQueue \<Rightarrow> 'a ActivityMultiplexerQueue" where
  "q_start q = q \<lparr>q_terminate := False, q_terminated := False\<rparr>"

definition q_curSize :: "'a ActivityMultiplexerQueue \<Rightarrow> nat" where
  "q_curSize q = unat (255 AND (q_writeIndex q - q_readIndex q))"

definition q_isEmpty :: "'a ActivityMultiplexerQueue \<Rightarrow> bool" where
  "q_isEmpty q \<longleftrightarrow> 255 AND (q_writeIndex q - q_readIndex q) = 0"

section \<open>Push, Pop and the overload mode\<close>

definition q_store :: "'a \<Rightarrow> 'a ActivityMultiplexerQueue \<Rightarrow> 'a ActivityMultiplexerQueue" where
  "q_store activity q =
     q \<lparr>q_buffer := (q_buffer q)[unat (255 AND q_writeIndex q) := Some activity],
        q_writeIndex := q_writeIndex q + 1\<rparr>"

definition q_drop :: "'a ActivityMultiplexerQueue \<Rightarrow> 'a ActivityMultiplexerQueue" where
  "q_drop q = q \<lparr>q_lost := q_lost q + 1\<rparr>"

definition q_overload :: "'a ActivityMultiplexerQueue \<Rightarrow> 'a ActivityMultiplexerQueue" where
  "q_overload q = q \<lparr>q_overloaded := True, q_lost := q_lost q + 1\<rparr>"

text \<open>The second component says whether the condition variable is signalled.\<close>

definition q_Push :: "'a \<Rightarrow> 'a ActivityMultiplexerQueue \<Rightarrow> 'a ActivityMultiplexerQueue \<times> bool" where
  "q_Push activity q =
     (if q_overloaded q then (q_drop q, False)
      else
        let curSize = q_curSize q;
            q' = (if curSize < 255 then q_store activity q else q_overload q)
        in (q', 128 < curSize \<and> \<not> q_notified q'))"

definition q_take :: "'a ActivityMultiplexerQueue \<Rightarrow> 'a option \<times> 'a ActivityMultiplexerQueue" where
  "q_take q =
     (let i = unat (255 AND q_readIndex q)
      in (q_buffer q ! i, q \<lparr>q_buffer := (q_buffer q)[i := None], q_readIndex := q_readIndex q + 1\<rparr>))"

text \<open>
  \<open>Pop\<close> as its caller sees it: it sleeps while the queue is empty and not terminated, it ends the
  reader with a null pointer, or it hands out the activity in the slot.
\<close>

datatype 'a pop_result = Sleeps | Ended | Popped "'a option"

definition q_Pop :: "'a ActivityMultiplexerQueue \<Rightarrow> 'a pop_result \<times> 'a ActivityMultiplexerQueue" where
  "q_Pop q =
     (let q1 = (if q_isEmpty q then q \<lparr>q_notified := False\<rparr> else q)
      in if q_isEmpty q1 \<and> \<not> q_terminate q1 then (Sleeps, q1)
         else if q_isEmpty q1 \<and> q_terminate q1 then (Ended, q1 \<lparr>q_terminated := True\<rparr>)
         else case q_take q1 of (r, q2) \<Rightarrow> (Popped r, q2))"

definition q_leave_overload :: "u64 \<Rightarrow> 'a ActivityMultiplexerQueue \<Rightarrow> 'a ActivityMultiplexerQueue" where
  "q_leave_overload result q = q \<lparr>q_lost := q_lost q - result, q_overloaded := False\<rparr>"

definition q_checkOverflowMode :: "'a ActivityMultiplexerQueue \<Rightarrow> u64 \<times> 'a ActivityMultiplexerQueue" where
  "q_checkOverflowMode q =
     (if \<not> q_overloaded q \<or> \<not> q_isEmpty q then (0, q)
      else let result = q_lost q in (result, q_leave_overload result q))"

text \<open>\<open>finalize\<close> sets the flag and spins until the reader has seen it.\<close>

definition q_finalize_request :: "'a ActivityMultiplexerQueue \<Rightarrow> 'a ActivityMultiplexerQueue" where
  "q_finalize_request q = q \<lparr>q_terminate := True\<rparr>"

section \<open>The ring represents a list\<close>

definition q_slot :: "'a ActivityMultiplexerQueue \<Rightarrow> nat \<Rightarrow> nat" where
  "q_slot q i = (unat (q_readIndex q) + i) mod 256"

definition q_list :: "'a ActivityMultiplexerQueue \<Rightarrow> 'a option list" where
  "q_list q = map (\<lambda>i. q_buffer q ! q_slot q i) [0 ..< q_curSize q]"

definition q_rep :: "'a ActivityMultiplexerQueue \<Rightarrow> 'a list \<Rightarrow> bool" where
  "q_rep q xs \<longleftrightarrow> length (q_buffer q) = 256 \<and> q_list q = map Some xs"

lemma unat_and_255 [simp]: "unat (255 AND (x :: u32)) = unat x mod 256"
proof -
  have "255 AND x = take_bit 8 x" by (simp add: take_bit_eq_mask mask_numeral and.commute)
  then show ?thesis by (simp only: unsigned_take_bit_eq) (simp add: take_bit_eq_mod)
qed

lemma unat_mod_256_add: "unat (x + y :: u32) mod 256 = (unat x + unat y) mod 256"
proof -
  have "unat (x + y) = (unat x + unat y) mod 4294967296" by (simp add: unat_word_ariths)
  then show ?thesis by (simp add: mod_mod_cancel)
qed

lemma q_curSize_less: "q_curSize q < 256"
  by (simp add: q_curSize_def)

lemma q_isEmpty_iff: "q_isEmpty q \<longleftrightarrow> q_curSize q = 0"
proof -
  have "255 AND (q_writeIndex q - q_readIndex q) = 0 \<longleftrightarrow> unat (255 AND (q_writeIndex q - q_readIndex q)) = 0"
    using unat_eq_iff [of "255 AND (q_writeIndex q - q_readIndex q)" 0] by simp
  then show ?thesis by (simp only: q_isEmpty_def q_curSize_def)
qed

lemma q_write_slot: "unat (q_writeIndex q) mod 256 = q_slot q (q_curSize q)"
proof -
  have "unat (q_writeIndex q) mod 256 = unat (q_readIndex q + (q_writeIndex q - q_readIndex q)) mod 256" by simp
  also have "\<dots> = (unat (q_readIndex q) + unat (q_writeIndex q - q_readIndex q)) mod 256"
    by (rule unat_mod_256_add)
  finally show ?thesis by (simp add: q_slot_def q_curSize_def mod_simps)
qed

lemma mod_256_inj_le:
  assumes "(a + i) mod 256 = (a + j) mod 256" and "i \<le> j" and "j < 256"
  shows "i = (j :: nat)"
proof -
  have "256 dvd (a + j) - (a + i)"
    using mod_eq_dvd_iff_nat [of "a + i" "a + j" 256] assms by simp
  then show ?thesis using assms by (auto dest: dvd_imp_le)
qed

lemma mod_256_inj: "(a + i) mod 256 = (a + j) mod 256 \<Longrightarrow> i < 256 \<Longrightarrow> j < 256 \<Longrightarrow> i = (j :: nat)"
  using mod_256_inj_le [of a i j] mod_256_inj_le [of a j i] by (cases "i \<le> j") auto

lemma q_rep_size: "q_rep q xs \<Longrightarrow> length xs = q_curSize q"
  unfolding q_rep_def q_list_def by (metis diff_zero length_map length_upt)

lemma q_rep_empty: "q_rep q xs \<Longrightarrow> q_isEmpty q \<longleftrightarrow> xs = []"
  using q_rep_size [of q xs] by (auto simp: q_isEmpty_iff)

lemma q_slot_inj: "q_slot q i = q_slot q j \<Longrightarrow> i < 256 \<Longrightarrow> j < 256 \<Longrightarrow> i = j"
  unfolding q_slot_def by (rule mod_256_inj)

lemma q_store_rep:
  assumes rep: "q_rep q xs" and room: "q_curSize q < 255"
  shows "q_rep (q_store a q) (xs @ [a])" and "q_curSize (q_store a q) = Suc (q_curSize q)"
proof -
  let ?q = "q_store a q"
  have "q_writeIndex q + 1 - q_readIndex q = (q_writeIndex q - q_readIndex q) + 1" by simp
  then have "unat (q_writeIndex q + 1 - q_readIndex q) mod 256 = (unat (q_writeIndex q - q_readIndex q) + 1) mod 256"
    using unat_mod_256_add [of "q_writeIndex q - q_readIndex q" 1] by (simp only: unat_1)
  then have "q_curSize ?q = (q_curSize q + 1) mod 256"
    by (simp add: q_curSize_def q_store_def mod_simps)
  then show size: "q_curSize ?q = Suc (q_curSize q)" using room by simp
  have slot: "q_slot ?q = q_slot q" by (simp add: fun_eq_iff q_slot_def q_store_def)
  have buf: "q_buffer ?q = (q_buffer q)[q_slot q (q_curSize q) := Some a]"
    by (simp add: q_store_def q_write_slot)
  have len: "length (q_buffer q) = 256" "q_slot q i < 256" for i using rep by (simp_all add: q_rep_def q_slot_def)
  have "q_buffer ?q ! q_slot q i = q_buffer q ! q_slot q i" if "i < q_curSize q" for i
  proof -
    have "q_slot q (q_curSize q) \<noteq> q_slot q i" using q_slot_inj [of q i "q_curSize q"] that room by auto
    then show ?thesis by (simp add: buf)
  qed
  moreover have "q_buffer ?q ! q_slot q (q_curSize q) = Some a" using len by (simp add: buf)
  ultimately have "q_list ?q = q_list q @ [Some a]"
    by (auto simp: q_list_def slot size)
  then show "q_rep ?q (xs @ [a])" using rep by (simp add: q_rep_def buf)
qed

lemma q_take_rep:
  assumes rep: "q_rep q (x # xs)"
  shows "fst (q_take q) = Some x" and "q_rep (snd (q_take q)) xs"
proof -
  let ?q = "snd (q_take q)"
  have size: "q_curSize q = Suc (length xs)" using q_rep_size [OF rep] by simp
  have len: "length (q_buffer q) = 256" "q_slot q i < 256" for i using rep by (simp_all add: q_rep_def q_slot_def)
  have r0: "unat (q_readIndex q) mod 256 = q_slot q 0" by (simp add: q_slot_def)
  have list: "q_list q = map Some (x # xs)" using rep by (simp add: q_rep_def)
  then have "q_list q ! 0 = Some x" by simp
  then show "fst (q_take q) = Some x"
    by (simp add: q_list_def size q_take_def Let_def r0 del: upt_Suc)
  have "q_writeIndex q - (q_readIndex q + 1) + 1 = q_writeIndex q - q_readIndex q" by simp
  then have "(unat (q_writeIndex q - (q_readIndex q + 1)) + 1) mod 256 = unat (q_writeIndex q - q_readIndex q) mod 256"
    using unat_mod_256_add [of "q_writeIndex q - (q_readIndex q + 1)" 1] by simp
  then have "(q_curSize ?q + 1) mod 256 = Suc (length xs)"
    using size by (simp add: q_curSize_def q_take_def Let_def mod_simps)
  moreover have "q_curSize ?q < 256" by (rule q_curSize_less)
  ultimately have size': "q_curSize ?q = length xs" by (cases "q_curSize ?q = 255") auto
  have slot: "q_slot ?q i = q_slot q (Suc i)" for i
    using unat_mod_256_add [of "q_readIndex q" 1] by (simp add: q_slot_def q_take_def Let_def) (metis mod_add_left_eq add.commute add_Suc_right plus_1_eq_Suc)
  have buf: "q_buffer ?q = (q_buffer q)[q_slot q 0 := None]" by (simp add: q_take_def Let_def r0)
  have "q_buffer ?q ! q_slot ?q i = q_list q ! Suc i" if "i < length xs" for i
  proof -
    have "q_slot q 0 \<noteq> q_slot q (Suc i)"
      using q_slot_inj [of q 0 "Suc i"] that size q_curSize_less [of q] by auto
    then show ?thesis using that by (simp add: buf slot q_list_def size del: upt_Suc)
  qed
  then have "q_list ?q = map Some xs"
    using list by (intro nth_equalityI) (simp_all add: q_list_def [of ?q] size')
  then show "q_rep ?q xs" using len by (simp add: q_rep_def buf)
qed

lemma q_rep_frame [simp]:
  "q_rep (q_drop q) xs = q_rep q xs" "q_rep (q_overload q) xs = q_rep q xs"
  "q_rep (q_leave_overload r q) xs = q_rep q xs" "q_rep (q \<lparr>q_notified := b\<rparr>) xs = q_rep q xs"
  "q_rep (q \<lparr>q_terminated := b\<rparr>) xs = q_rep q xs" "q_rep (q_finalize_request q) xs = q_rep q xs"
  "q_rep (q_start q) xs = q_rep q xs"
  by (simp_all add: q_rep_def q_list_def q_slot_def q_curSize_def q_drop_def q_overload_def q_leave_overload_def
      q_finalize_request_def q_start_def)

lemma q_rep_new: "q_rep queue_new []"
  by (simp add: q_rep_def q_list_def q_curSize_def queue_new_def)

section \<open>Writers and reader interleaved\<close>

text \<open>
  A writer that has read \<open>overloaded\<close> as false waits for the lock (\<open>ms_waiting\<close>), takes it and
  samples the size (\<open>ms_writer\<close>), and then stores or enters the overload mode. The reader takes
  an activity, asks for the overload mode and calls \<open>dispatch\<close> with the number of lost
  activities. The reader does not take the lock unless the queue is empty. The last three
  fields only record what happened.
\<close>

datatype 'a reader = RIdle | RHolds 'a | RLeaving 'a u64

record 'a mux_state =
  ms_queue :: "'a ActivityMultiplexerQueue"
  ms_waiting :: "'a list"
  ms_writer :: "('a \<times> nat) option"
  ms_reader :: "'a reader"
  ms_accepted :: "'a list"
  ms_dropped :: nat
  ms_dispatched :: "('a \<times> u64) list"

definition mux_init :: "'a mux_state" where
  "mux_init = \<lparr>ms_queue = q_start queue_new, ms_waiting = [], ms_writer = None, ms_reader = RIdle,
     ms_accepted = [], ms_dropped = 0, ms_dispatched = []\<rparr>"

inductive mux_step :: "'a mux_state \<Rightarrow> 'a mux_state \<Rightarrow> bool" where
  push_drop: "q_overloaded (ms_queue s) \<Longrightarrow>
    mux_step s (s \<lparr>ms_queue := q_drop (ms_queue s), ms_dropped := Suc (ms_dropped s)\<rparr>)"
| push_pass: "\<not> q_overloaded (ms_queue s) \<Longrightarrow> mux_step s (s \<lparr>ms_waiting := ms_waiting s @ [a]\<rparr>)"
| push_lock: "ms_waiting s = us @ a # vs \<Longrightarrow> ms_writer s = None \<Longrightarrow>
    mux_step s (s \<lparr>ms_waiting := us @ vs, ms_writer := Some (a, q_curSize (ms_queue s))\<rparr>)"
| push_store: "ms_writer s = Some (a, n) \<Longrightarrow> n < 255 \<Longrightarrow>
    mux_step s (s \<lparr>ms_queue := q_store a (ms_queue s), ms_writer := None, ms_accepted := ms_accepted s @ [a]\<rparr>)"
| push_overload: "ms_writer s = Some (a, n) \<Longrightarrow> \<not> n < 255 \<Longrightarrow>
    mux_step s (s \<lparr>ms_queue := q_overload (ms_queue s), ms_writer := None, ms_dropped := Suc (ms_dropped s)\<rparr>)"
| read_pop: "ms_reader s = RIdle \<Longrightarrow> \<not> q_isEmpty (ms_queue s) \<Longrightarrow> q_take (ms_queue s) = (Some x, q') \<Longrightarrow>
    mux_step s (s \<lparr>ms_queue := q', ms_reader := RHolds x\<rparr>)"
| read_normal: "ms_reader s = RHolds x \<Longrightarrow> \<not> q_overloaded (ms_queue s) \<or> \<not> q_isEmpty (ms_queue s) \<Longrightarrow>
    mux_step s (s \<lparr>ms_reader := RIdle, ms_dispatched := ms_dispatched s @ [(x, 0)]\<rparr>)"
| read_check: "ms_reader s = RHolds x \<Longrightarrow> q_overloaded (ms_queue s) \<Longrightarrow> q_isEmpty (ms_queue s) \<Longrightarrow>
    mux_step s (s \<lparr>ms_reader := RLeaving x (q_lost (ms_queue s))\<rparr>)"
| read_leave: "ms_reader s = RLeaving x r \<Longrightarrow>
    mux_step s (s \<lparr>ms_queue := q_leave_overload r (ms_queue s), ms_reader := RIdle,
                   ms_dispatched := ms_dispatched s @ [(x, r)]\<rparr>)"

inductive_cases mux_stepE: "mux_step s s'"

inductive mux_reach :: "'a mux_state \<Rightarrow> bool" where
  reach_init: "mux_reach mux_init"
| reach_step: "mux_reach s \<Longrightarrow> mux_step s s' \<Longrightarrow> mux_reach s'"

fun reader_holds :: "'a reader \<Rightarrow> 'a list" where
  "reader_holds RIdle = []"
| "reader_holds (RHolds x) = [x]"
| "reader_holds (RLeaving x r) = [x]"

definition lost_reported :: "'a mux_state \<Rightarrow> u64" where
  "lost_reported s = sum_list (map snd (ms_dispatched s))"

definition mux_inv :: "'a mux_state \<Rightarrow> bool" where
  "mux_inv s \<longleftrightarrow>
     (\<exists>xs. q_rep (ms_queue s) xs \<and>
        ms_accepted s = map fst (ms_dispatched s) @ reader_holds (ms_reader s) @ xs) \<and>
     (\<forall>a n. ms_writer s = Some (a, n) \<longrightarrow> q_curSize (ms_queue s) \<le> n) \<and>
     of_nat (ms_dropped s) = q_lost (ms_queue s) + lost_reported s"

lemma q_curSize_frame [simp]:
  "q_curSize (q_drop q) = q_curSize q" "q_curSize (q_overload q) = q_curSize q"
  "q_curSize (q_leave_overload r q) = q_curSize q" "q_curSize (q_start q) = q_curSize q"
  by (simp_all add: q_curSize_def q_drop_def q_overload_def q_leave_overload_def q_start_def)

lemma q_lost_frame [simp]:
  "q_lost (q_drop q) = q_lost q + 1" "q_lost (q_overload q) = q_lost q + 1"
  "q_lost (q_leave_overload r q) = q_lost q - r" "q_lost (q_store a q) = q_lost q"
  "q_take q = (x, q') \<Longrightarrow> q_lost q' = q_lost q" "q_lost (q_start q) = q_lost q"
  by (auto simp: q_drop_def q_overload_def q_leave_overload_def q_store_def q_take_def Let_def q_start_def)

lemma mux_inv_init: "mux_inv mux_init"
  by (simp add: mux_inv_def mux_init_def q_rep_new lost_reported_def q_curSize_def)
    (simp add: queue_new_def)

lemma mux_inv_step:
  assumes inv: "mux_inv s" and step: "mux_step s s'"
  shows "mux_inv s'"
proof -
  obtain xs where rep: "q_rep (ms_queue s) xs"
    and acc: "ms_accepted s = map fst (ms_dispatched s) @ reader_holds (ms_reader s) @ xs"
    and wr: "\<And>a n. ms_writer s = Some (a, n) \<Longrightarrow> q_curSize (ms_queue s) \<le> n"
    and lost: "of_nat (ms_dropped s) = q_lost (ms_queue s) + lost_reported s"
    using inv by (auto simp: mux_inv_def)
  show ?thesis using step
  proof (cases rule: mux_step.cases)
    case (push_store a n)
    then have "q_curSize (ms_queue s) < 255" using wr [of a n] by simp
    from q_store_rep [OF rep this] show ?thesis
      using push_store acc lost by (auto simp: mux_inv_def lost_reported_def)
  next
    case (read_pop x q')
    then obtain y ys where xs: "xs = y # ys" using q_rep_empty [OF rep] by (cases xs) auto
    note t = q_take_rep [OF rep [unfolded xs]]
    have "q_curSize q' \<le> q_curSize (ms_queue s)"
      using q_rep_size [OF t(2)] q_rep_size [OF rep] xs read_pop by simp
    then show ?thesis
      using read_pop t xs acc lost wr unfolding mux_inv_def by (fastforce simp: lost_reported_def)
  next
    case (read_leave x r)
    then show ?thesis using rep acc lost wr
      by (auto simp: mux_inv_def lost_reported_def algebra_simps)
  qed (use rep acc wr lost in \<open>auto simp: mux_inv_def lost_reported_def\<close>)
qed

lemma mux_reach_inv: "mux_reach s \<Longrightarrow> mux_inv s"
  by (induction rule: mux_reach.induct) (auto intro: mux_inv_init mux_inv_step)

section \<open>A schedule that never leaves the overload mode\<close>

definition calm :: "'a mux_state \<Rightarrow> 'a list \<Rightarrow> ('a \<times> nat) option \<Rightarrow> bool" where
  "calm s xs w \<longleftrightarrow> mux_reach s \<and> q_rep (ms_queue s) xs \<and> ms_writer s = w \<and> ms_waiting s = [] \<and>
     ms_reader s = RIdle \<and> \<not> q_overloaded (ms_queue s)"

lemma calm_push:
  assumes "calm s xs None"
  obtains s' where "calm s' xs (Some (a, q_curSize (ms_queue s)))"
proof -
  let ?s1 = "s \<lparr>ms_waiting := ms_waiting s @ [a]\<rparr>"
  let ?s2 = "?s1 \<lparr>ms_waiting := [] @ [], ms_writer := Some (a, q_curSize (ms_queue ?s1))\<rparr>"
  have "mux_step s ?s1" using assms by (intro push_pass) (simp add: calm_def)
  then have 1: "mux_reach ?s1" using assms reach_step unfolding calm_def by blast
  have 2: "mux_step ?s1 ?s2" using assms by (intro push_lock) (simp_all add: calm_def)
  show thesis using that [of ?s2] reach_step [OF 1 2] assms by (simp add: calm_def)
qed

lemma calm_fill: "n \<le> 255 \<Longrightarrow> \<exists>s xs. calm s (xs :: 'a list) None \<and> length xs = n"
proof (induction n)
  case 0
  have "q_rep (ms_queue mux_init) []" "\<not> q_overloaded (ms_queue mux_init)" "ms_writer mux_init = None"
    "ms_waiting mux_init = []" "ms_reader mux_init = RIdle"
    by (simp_all add: mux_init_def q_rep_new) (simp add: q_start_def queue_new_def)
  then have "calm (mux_init :: 'a mux_state) [] None" by (simp add: calm_def reach_init)
  then show ?case by auto
next
  case (Suc n)
  then obtain s and xs :: "'a list" where s: "calm s xs None" "length xs = n" by auto
  obtain a :: 'a where True by simp
  obtain s' where s': "calm s' xs (Some (a, q_curSize (ms_queue s)))" by (rule calm_push [OF s(1)])
  have size: "q_curSize (ms_queue s) = n" using q_rep_size [of "ms_queue s" xs] s by (simp add: calm_def)
  have rep: "q_rep (ms_queue s') xs" using s' by (simp add: calm_def)
  let ?s = "s' \<lparr>ms_queue := q_store a (ms_queue s'), ms_writer := None, ms_accepted := ms_accepted s' @ [a]\<rparr>"
  have "mux_step s' ?s" using s' size Suc.prems by (intro push_store) (auto simp: calm_def)
  moreover have "q_curSize (ms_queue s') < 255" using q_rep_size [OF rep] s(2) Suc.prems by simp
  then have "q_rep (ms_queue ?s) (xs @ [a])" using q_store_rep(1) [OF rep] by simp
  moreover have "q_overloaded (q_store a (ms_queue s')) = q_overloaded (ms_queue s')" by (simp add: q_store_def)
  ultimately have "calm ?s (xs @ [a]) None" using s' by (auto simp: calm_def intro: reach_step)
  then show ?case using s(2) by (intro exI [of _ ?s] exI [of _ "xs @ [a]"]) simp
qed

lemma calm_drain: "calm s xs w \<Longrightarrow> \<exists>s'. calm s' [] w"
proof (induction xs arbitrary: s)
  case (Cons x xs)
  let ?q = "snd (q_take (ms_queue s))"
  have rep: "q_rep (ms_queue s) (x # xs)" using Cons.prems by (simp add: calm_def)
  have take: "q_take (ms_queue s) = (Some x, ?q)" using q_take_rep(1) [OF rep] by (metis prod.collapse)
  have over: "q_overloaded ?q = q_overloaded (ms_queue s)" by (simp add: q_take_def Let_def)
  let ?s1 = "s \<lparr>ms_queue := ?q, ms_reader := RHolds x\<rparr>"
  let ?s2 = "?s1 \<lparr>ms_reader := RIdle, ms_dispatched := ms_dispatched ?s1 @ [(x, 0)]\<rparr>"
  have 1: "mux_step s ?s1"
    using Cons.prems q_rep_empty [OF rep] take by (intro read_pop) (simp_all add: calm_def)
  have 2: "mux_step ?s1 ?s2" using Cons.prems over by (intro read_normal) (simp_all add: calm_def)
  have "calm ?s2 xs w"
    using Cons.prems q_take_rep(2) [OF rep] over reach_step [OF reach_step [OF _ 1] 2] by (simp add: calm_def)
  then show ?case by (rule Cons.IH)
qed auto

definition stalled :: "'a mux_state \<Rightarrow> bool" where
  "stalled s \<longleftrightarrow> q_overloaded (ms_queue s) \<and> q_isEmpty (ms_queue s) \<and> ms_reader s = RIdle \<and>
     ms_writer s = None \<and> ms_waiting s = []"

lemma stalled_step:
  "stalled s \<Longrightarrow> mux_step s s' \<Longrightarrow> stalled s' \<and> ms_dispatched s' = ms_dispatched s \<and> ms_accepted s' = ms_accepted s"
  by (erule mux_stepE) (auto simp: stalled_def q_drop_def q_isEmpty_def)

lemma stalled_reachable: "\<exists>s :: 'a mux_state. mux_reach s \<and> stalled s"
proof -
  obtain s and xs :: "'a list" where s: "calm s xs None" "length xs = 255" using calm_fill [of 255] by auto
  obtain a :: 'a where True by simp
  obtain s1 where "calm s1 xs (Some (a, q_curSize (ms_queue s)))" by (rule calm_push [OF s(1)])
  moreover have size: "q_curSize (ms_queue s) = 255"
    using q_rep_size [of "ms_queue s" xs] s by (simp add: calm_def)
  ultimately obtain s2 where s2: "calm s2 [] (Some (a, 255))" using calm_drain by metis
  let ?s = "s2 \<lparr>ms_queue := q_overload (ms_queue s2), ms_writer := None, ms_dropped := Suc (ms_dropped s2)\<rparr>"
  have "mux_step s2 ?s" using s2 by (intro push_overload) (auto simp: calm_def)
  moreover have "q_isEmpty (ms_queue s2)" using s2 q_rep_empty [of "ms_queue s2" "[]"] by (simp add: calm_def)
  then have "stalled ?s" using s2 by (simp add: stalled_def calm_def q_overload_def q_isEmpty_def)
  ultimately show ?thesis using s2 reach_step [of s2 ?s] by (auto simp: calm_def)
qed

section \<open>Properties\<close>

text \<open>
  C4 (refinement): the ring buffer is a bounded queue. If the ring represents the list \<open>xs\<close>, the
  queue is empty exactly when the list is; \<open>Push\<close> appends to the list when there is room and the
  queue is not overloaded, and otherwise leaves it and counts a loss; \<open>Pop\<close> hands out the head
  of the list and leaves the tail, and never hands out an empty slot.
\<close>

theorem queue_refines_list:
  assumes "q_rep q xs"
  shows "(q_isEmpty q \<longleftrightarrow> xs = []) \<and> length xs \<le> 255 \<and>
    (if \<not> q_overloaded q \<and> length xs < 255 then q_rep (fst (q_Push a q)) (xs @ [a]) \<and> q_lost (fst (q_Push a q)) = q_lost q
     else q_rep (fst (q_Push a q)) xs \<and> q_overloaded (fst (q_Push a q)) \<and> q_lost (fst (q_Push a q)) = q_lost q + 1) \<and>
    (case xs of
       [] \<Rightarrow> fst (q_Pop q) = (if q_terminate q then Ended else Sleeps) \<and> q_rep (snd (q_Pop q)) []
     | y # ys \<Rightarrow> fst (q_Pop q) = Popped (Some y) \<and> q_rep (snd (q_Pop q)) ys)"
proof -
  have size: "length xs = q_curSize q" by (rule q_rep_size [OF assms])
  have push: "if \<not> q_overloaded q \<and> length xs < 255 then q_rep (fst (q_Push a q)) (xs @ [a]) \<and> q_lost (fst (q_Push a q)) = q_lost q
     else q_rep (fst (q_Push a q)) xs \<and> q_overloaded (fst (q_Push a q)) \<and> q_lost (fst (q_Push a q)) = q_lost q + 1"
    using assms q_store_rep [OF assms, of a] size
    by (auto simp: q_Push_def Let_def) (simp_all add: q_drop_def q_overload_def)
  have pop: "case xs of
       [] \<Rightarrow> fst (q_Pop q) = (if q_terminate q then Ended else Sleeps) \<and> q_rep (snd (q_Pop q)) []
     | y # ys \<Rightarrow> fst (q_Pop q) = Popped (Some y) \<and> q_rep (snd (q_Pop q)) ys"
  proof (cases xs)
    case Nil
    then have e: "q_isEmpty q" "q_isEmpty (q \<lparr>q_notified := False\<rparr>)"
      using q_rep_empty [OF assms] by (simp_all add: q_isEmpty_def)
    then show ?thesis using assms Nil by (simp add: q_Pop_def Let_def)
  next
    case (Cons y ys)
    then have "\<not> q_isEmpty q" using q_rep_empty [OF assms] by simp
    then show ?thesis using q_take_rep [OF assms [unfolded Cons]] Cons
      by (auto simp: q_Pop_def Let_def split: prod.split)
  qed
  show ?thesis using q_rep_empty [OF assms] size q_curSize_less [of q] push pop by simp
qed

theorem queue_refines_list_witness:
  "fst (q_Pop (fst (q_Push (7 :: nat) queue_new))) = Popped (Some 7)"
proof -
  have 1: "q_rep (fst (q_Push (7 :: nat) queue_new)) [7]"
    using queue_refines_list [OF q_rep_new, of "7 :: nat"] by (simp add: queue_new_def)
  from queue_refines_list [OF this, of 0] show ?thesis by simp
qed



text \<open>
  C37 (liveness): the overload mode can last for ever. A writer that has sampled a full buffer may
  set \<open>overloaded\<close> after the reader has drained the buffer and passed its last check. This state
  is reachable, and in it and in every later one each new activity is dropped and nothing is
  dispatched any more.
\<close>

theorem mux_overload_can_stall:
  "(\<exists>s :: 'a mux_state. mux_reach s \<and> stalled s) \<and>
   (\<forall>s s' :: 'a mux_state. stalled s \<and> mux_step s s' \<longrightarrow>
      stalled s' \<and> ms_dispatched s' = ms_dispatched s \<and> ms_accepted s' = ms_accepted s)"
  using stalled_reachable stalled_step by blast

theorem mux_overload_can_stall_witness: "\<exists>s :: nat mux_state. mux_reach s \<and> stalled s"
  using mux_overload_can_stall [where 'a = nat] by blast

end
