(* ===== verification/Activity_Multiplexer.thy ===== *)
theory Activity_Multiplexer
  imports Activity_Builder Activity_Queue
begin

text \<open>
  The multiplexers that hand activities to their listeners:
  \<open>include/monitoring/activity_multiplexer/Dispatcher.hpp\<close> (a list of callbacks),
  \<open>ActivityMultiplexerSync.cpp\<close> (calls the listeners in \<open>Log\<close>) and
  \<open>ActivityMultiplexerAsync.cpp\<close> (a second table of listeners, served by the notifier thread from
  the queue of \<open>Activity_Queue\<close>). A callback is a pair of a listener and one of its member
  functions; what a call of \<open>Log\<close> does is the list of the callbacks it makes.

  Both classes keep a dispatcher per activity type and one for all types under the key 0. The
  locale \<open>subscriptions\<close> is their contract with the listeners.
\<close>

section \<open>Dispatcher\<close>

record ('l, 'f) CallbackSpec =
  cb_listener :: 'l
  cb_function :: 'f

type_synonym ('l, 'f) dispatcher = "('l, 'f) CallbackSpec list"

definition dispatcher_add :: "'l \<Rightarrow> 'f \<Rightarrow> ('l, 'f) dispatcher \<Rightarrow> ('l, 'f) dispatcher" where
  "dispatcher_add listener function d = d @ [\<lparr>cb_listener = listener, cb_function = function\<rparr>]"

text \<open>The loop of \<open>remove\<close> with the indices below the first argument still to come.\<close>

fun remove_loop :: "nat \<Rightarrow> 'l \<Rightarrow> ('l, 'f) dispatcher \<Rightarrow> ('l, 'f) dispatcher" where
  "remove_loop 0 listener d = d"
| "remove_loop (Suc i) listener d =
     remove_loop i listener (if cb_listener (d ! i) = listener then butlast (d[i := last d]) else d)"

definition dispatcher_remove :: "'l \<Rightarrow> ('l, 'f) dispatcher \<Rightarrow> ('l, 'f) dispatcher" where
  "dispatcher_remove listener d = remove_loop (length d) listener d"

record ('l, 'f, 'a) callback =
  call_target :: "('l, 'f) CallbackSpec"
  call_activity :: 'a
  call_lost :: u32

definition dispatcher_dispatch :: "'a \<Rightarrow> u32 \<Rightarrow> ('l, 'f) dispatcher \<Rightarrow> ('l, 'f, 'a) callback list" where
  "dispatcher_dispatch activity lost d =
     map (\<lambda>c. \<lparr>call_target = c, call_activity = activity, call_lost = lost\<rparr>) (rev d)"

section \<open>The table of dispatchers\<close>

type_synonym ('l, 'f) dispatchers = "UniqueComponentActivityID \<rightharpoonup> ('l, 'f) dispatcher"

text \<open>\<open>dispatchers[ucaid].add\<close> creates the entry; \<open>at\<close> throws for an unknown one, which is ignored.\<close>

definition table_add :: "UniqueComponentActivityID \<Rightarrow> 'l \<Rightarrow> 'f \<Rightarrow> ('l, 'f) dispatchers \<Rightarrow> ('l, 'f) dispatchers" where
  "table_add ucaid listener handler t =
     t(ucaid \<mapsto> dispatcher_add listener handler (case t ucaid of None \<Rightarrow> [] | Some d \<Rightarrow> d))"

definition table_remove :: "UniqueComponentActivityID \<Rightarrow> 'l \<Rightarrow> ('l, 'f) dispatchers \<Rightarrow> ('l, 'f) dispatchers" where
  "table_remove ucaid listener t =
     (case t ucaid of None \<Rightarrow> t | Some d \<Rightarrow> t(ucaid \<mapsto> dispatcher_remove listener d))"

definition table_dispatch :: "Activity \<Rightarrow> u32 \<Rightarrow> ('l, 'f) dispatchers \<Rightarrow> ('l, 'f, Activity) callback list" where
  "table_dispatch activity lost t =
     (case t (a_ucaid activity) of None \<Rightarrow> [] | Some d \<Rightarrow> dispatcher_dispatch activity lost d) @
     (case t 0 of None \<Rightarrow> [] | Some d \<Rightarrow> dispatcher_dispatch activity lost d)"

section \<open>ActivityMultiplexerSync\<close>

definition sync_Log :: "Activity \<Rightarrow> ('l, 'f) dispatchers \<Rightarrow> ('l, 'f, Activity) callback list" where
  "sync_Log activity t = table_dispatch activity 0 t"

definition sync_registerForUcaid ::
  "UniqueComponentActivityID \<Rightarrow> 'l \<Rightarrow> 'f \<Rightarrow> bool \<Rightarrow> ('l, 'f) dispatchers \<Rightarrow> ('l, 'f) dispatchers" where
  "sync_registerForUcaid ucaid listener handler async t =
     (if async then t else table_add ucaid listener handler t)"

definition sync_unregisterForUcaid ::
  "UniqueComponentActivityID \<Rightarrow> 'l \<Rightarrow> bool \<Rightarrow> ('l, 'f) dispatchers \<Rightarrow> ('l, 'f) dispatchers" where
  "sync_unregisterForUcaid ucaid listener async t = (if async then t else table_remove ucaid listener t)"

definition sync_registerCatchall :: "'l \<Rightarrow> 'f \<Rightarrow> bool \<Rightarrow> ('l, 'f) dispatchers \<Rightarrow> ('l, 'f) dispatchers" where
  "sync_registerCatchall listener handler async t = sync_registerForUcaid 0 listener handler async t"

definition sync_unregisterCatchall :: "'l \<Rightarrow> bool \<Rightarrow> ('l, 'f) dispatchers \<Rightarrow> ('l, 'f) dispatchers" where
  "sync_unregisterCatchall listener async t = sync_unregisterForUcaid 0 listener async t"

section \<open>ActivityMultiplexerAsync\<close>

record ('l, 'f) ActivityMultiplexerAsync =
  am_syncDispatchers :: "('l, 'f) dispatchers"
  am_asyncDispatchers :: "('l, 'f) dispatchers"
  am_queue :: "Activity ActivityMultiplexerQueue"
  am_lostActivities :: u64
  am_lost_events :: u64
  am_processed_activities :: u64
  am_processed_events_in_async :: u64

definition async_new :: "('l, 'f) ActivityMultiplexerAsync" where
  "async_new = \<lparr>am_syncDispatchers = Map.empty, am_asyncDispatchers = Map.empty, am_queue = queue_new,
     am_lostActivities = 0, am_lost_events = 0, am_processed_activities = 0, am_processed_events_in_async = 0\<rparr>"

definition async_start :: "('l, 'f) ActivityMultiplexerAsync \<Rightarrow> ('l, 'f) ActivityMultiplexerAsync" where
  "async_start m = m \<lparr>am_queue := q_start (am_queue m)\<rparr>"

text \<open>The first half of \<open>stop\<close>: the request to the notifier; the second half waits for its end.\<close>

definition async_stop_request :: "('l, 'f) ActivityMultiplexerAsync \<Rightarrow> ('l, 'f) ActivityMultiplexerAsync" where
  "async_stop_request m = m \<lparr>am_queue := q_finalize_request (am_queue m)\<rparr>"

definition async_Log ::
  "Activity \<Rightarrow> ('l, 'f) ActivityMultiplexerAsync
   \<Rightarrow> ('l, 'f, Activity) callback list \<times> ('l, 'f) ActivityMultiplexerAsync" where
  "async_Log activity m =
     (table_dispatch activity 0 (am_syncDispatchers m),
      m \<lparr>am_processed_activities := am_processed_activities m + 1,
         am_queue := (if am_asyncDispatchers m \<noteq> Map.empty then fst (q_Push activity (am_queue m)) else am_queue m)\<rparr>)"

text \<open>
  \<open>dispatch\<close> receives the 64-bit count as an \<open>int\<close>, and adds it to a 64-bit counter: the upper half
  is cut and bit 31 is extended.
\<close>

definition async_dispatch ::
  "u32 \<Rightarrow> Activity \<Rightarrow> ('l, 'f) ActivityMultiplexerAsync
   \<Rightarrow> ('l, 'f, Activity) callback list \<times> ('l, 'f) ActivityMultiplexerAsync" where
  "async_dispatch lost work m =
     (table_dispatch work lost (am_asyncDispatchers m),
      m \<lparr>am_processed_events_in_async := am_processed_events_in_async m + 1,
         am_lost_events := am_lost_events m + scast lost\<rparr>)"

text \<open>One iteration of \<open>ActivityMultiplexerNotifier::Run\<close>; \<open>None\<close> when \<open>Pop\<close> sleeps or ends the loop.\<close>

definition notifier_iteration ::
  "('l, 'f) ActivityMultiplexerAsync
   \<Rightarrow> (('l, 'f, Activity) callback list \<times> ('l, 'f) ActivityMultiplexerAsync) option" where
  "notifier_iteration m =
     (case q_Pop (am_queue m) of
        (Popped (Some activity), q1) \<Rightarrow>
          (case q_checkOverflowMode q1 of (lost, q2) \<Rightarrow>
             Some (async_dispatch (ucast lost) activity
                     (m \<lparr>am_queue := q2, am_lostActivities := am_lostActivities m + lost\<rparr>)))
      | _ \<Rightarrow> None)"

text \<open>\<open>Run\<close> as far as it gets without sleeping, for at most the given number of iterations.\<close>

fun notifier_run ::
  "nat \<Rightarrow> ('l, 'f) ActivityMultiplexerAsync
   \<Rightarrow> ('l, 'f, Activity) callback list \<times> ('l, 'f) ActivityMultiplexerAsync" where
  "notifier_run 0 m = ([], m)"
| "notifier_run (Suc n) m =
     (case notifier_iteration m of
        None \<Rightarrow> ([], m)
      | Some (cs, m1) \<Rightarrow> (case notifier_run n m1 of (ds, m2) \<Rightarrow> (cs @ ds, m2)))"

definition async_registerForUcaid ::
  "UniqueComponentActivityID \<Rightarrow> 'l \<Rightarrow> 'f \<Rightarrow> bool \<Rightarrow> ('l, 'f) ActivityMultiplexerAsync \<Rightarrow> ('l, 'f) ActivityMultiplexerAsync" where
  "async_registerForUcaid ucaid listener handler async m =
     (if async then m \<lparr>am_asyncDispatchers := table_add ucaid listener handler (am_asyncDispatchers m)\<rparr>
      else m \<lparr>am_syncDispatchers := table_add ucaid listener handler (am_syncDispatchers m)\<rparr>)"

definition async_unregisterForUcaid ::
  "UniqueComponentActivityID \<Rightarrow> 'l \<Rightarrow> bool \<Rightarrow> ('l, 'f) ActivityMultiplexerAsync \<Rightarrow> ('l, 'f) ActivityMultiplexerAsync" where
  "async_unregisterForUcaid ucaid listener async m =
     (if async then m \<lparr>am_asyncDispatchers := table_remove ucaid listener (am_asyncDispatchers m)\<rparr>
      else m \<lparr>am_syncDispatchers := table_remove ucaid listener (am_syncDispatchers m)\<rparr>)"

definition async_registerCatchall ::
  "'l \<Rightarrow> 'f \<Rightarrow> bool \<Rightarrow> ('l, 'f) ActivityMultiplexerAsync \<Rightarrow> ('l, 'f) ActivityMultiplexerAsync" where
  "async_registerCatchall listener handler async m = async_registerForUcaid 0 listener handler async m"

definition async_unregisterCatchall ::
  "'l \<Rightarrow> bool \<Rightarrow> ('l, 'f) ActivityMultiplexerAsync \<Rightarrow> ('l, 'f) ActivityMultiplexerAsync" where
  "async_unregisterCatchall listener async m = async_unregisterForUcaid 0 listener async m"

definition async_prepareReport :: "('l, 'f) ActivityMultiplexerAsync \<Rightarrow> (string \<times> VariableDatatype) list" where
  "async_prepareReport m =
     [(''ASYNC_DROPPED_ACTIVITIES'', VUint64 (am_lost_events m)),
      (''PROCESSED_ACTIVITIES'', VUint64 (am_processed_activities m)),
      (''PROCESSED_ACTIVITIES_ASYNC'', VUint64 (am_processed_events_in_async m))]"

section \<open>The loop of remove\<close>

lemma mset_butlast_move:
  assumes "i < length d"
  shows "mset (butlast (d[i := last d])) = mset d - {# d ! i #}"
proof (cases d rule: rev_cases)
  case (snoc ys y)
  show ?thesis
  proof (cases "i < length ys")
    case True
    then have "ys ! i \<in># mset ys" by simp
    with True snoc show ?thesis by (simp add: list_update_append mset_update nth_append)
  next
    case False
    then have "i = length ys" using assms snoc by simp
    with snoc show ?thesis by (simp add: list_update_append)
  qed
qed (use assms in simp)

lemma remove_loop_mset:
  assumes "i \<le> length d" and "\<forall>j. i \<le> j \<longrightarrow> j < length d \<longrightarrow> cb_listener (d ! j) \<noteq> l"
  shows "mset (remove_loop i l d) = {# c \<in># mset d. cb_listener c \<noteq> l #}"
  using assms
proof (induction i arbitrary: d)
  case 0
  then have "\<forall>c \<in> set d. cb_listener c \<noteq> l" by (auto simp: in_set_conv_nth)
  then show ?case by (simp flip: mset_filter)
next
  case (Suc i)
  show ?case
  proof (cases "cb_listener (d ! i) = l")
    case True
    let ?d = "butlast (d[i := last d])"
    have i: "i < length d" using Suc.prems by simp
    have last: "last d = d ! (length d - 1)" using i by (intro last_conv_nth) auto
    have "cb_listener (?d ! j) \<noteq> l" if "i \<le> j" "j < length ?d" for j
      using that Suc.prems(2) i last by (cases "j = i") (auto simp: nth_butlast nth_list_update)
    then have "mset (remove_loop i l ?d) = {# c \<in># mset ?d. cb_listener c \<noteq> l #}"
      using i by (intro Suc.IH) auto
    also have "\<dots> = {# c \<in># mset d. cb_listener c \<noteq> l #}"
      using True i by (simp add: mset_butlast_move filter_diff_mset)
    finally show ?thesis using True by simp
  next
    case False
    then have "\<forall>j. i \<le> j \<longrightarrow> j < length d \<longrightarrow> cb_listener (d ! j) \<noteq> l"
      using Suc.prems(2) by (metis le_antisym not_less_eq_eq)
    then show ?thesis using Suc.IH [of d] Suc.prems(1) False by simp
  qed
qed

lemma dispatcher_remove_mset: "mset (dispatcher_remove l d) = {# c \<in># mset d. cb_listener c \<noteq> l #}"
  by (simp add: dispatcher_remove_def remove_loop_mset)

section \<open>The contract with the listeners\<close>

datatype ('l, 'f) sub_op =
    Subscribe UniqueComponentActivityID 'l 'f bool
  | Unsubscribe UniqueComponentActivityID 'l bool

type_synonym ('l, 'f) subs = "UniqueComponentActivityID \<Rightarrow> ('l, 'f) CallbackSpec multiset"

text \<open>
  The abstract state is the multiset of callbacks per activity type. Of the calls with the flag
  \<open>async\<close> a table of dispatchers sees one kind only.
\<close>

definition spec_step :: "bool \<Rightarrow> ('l, 'f) sub_op \<Rightarrow> ('l, 'f) subs \<Rightarrow> ('l, 'f) subs" where
  "spec_step flag op S =
     (case op of
        Subscribe u l f async \<Rightarrow> if async = flag then S(u := add_mset \<lparr>cb_listener = l, cb_function = f\<rparr> (S u)) else S
      | Unsubscribe u l async \<Rightarrow> if async = flag then S(u := {# c \<in># S u. cb_listener c \<noteq> l #}) else S)"

definition spec_delivery :: "Activity \<Rightarrow> ('l, 'f) subs \<Rightarrow> ('l, 'f) CallbackSpec multiset" where
  "spec_delivery a S = S (a_ucaid a) + S 0"

locale subscriptions =
  fixes register :: "UniqueComponentActivityID \<Rightarrow> 'l \<Rightarrow> 'f \<Rightarrow> bool \<Rightarrow> 's \<Rightarrow> 's"
    and unregister :: "UniqueComponentActivityID \<Rightarrow> 'l \<Rightarrow> bool \<Rightarrow> 's \<Rightarrow> 's"
    and deliver :: "Activity \<Rightarrow> 's \<Rightarrow> ('l, 'f, Activity) callback list"
    and subs :: "'s \<Rightarrow> ('l, 'f) subs"
    and flag :: bool
    and lost :: u32
  assumes subs_register: "subs (register u l f b s) = spec_step flag (Subscribe u l f b) (subs s)"
    and subs_unregister: "subs (unregister u l b s) = spec_step flag (Unsubscribe u l b) (subs s)"
    and deliver_targets: "image_mset call_target (mset (deliver a s)) = spec_delivery a (subs s)"
    and deliver_payload: "c \<in> set (deliver a s) \<Longrightarrow> call_activity c = a \<and> call_lost c = lost"
begin

lemma subs_history:
  "subs (fold (\<lambda>op. case op of Subscribe u l f b \<Rightarrow> register u l f b | Unsubscribe u l b \<Rightarrow> unregister u l b) ops s) =
     fold (spec_step flag) ops (subs s)"
  by (induction ops arbitrary: s) (simp_all add: subs_register subs_unregister split: sub_op.split)

lemma delivered_callbacks:
  "mset (deliver a s) = image_mset (\<lambda>c. \<lparr>call_target = c, call_activity = a, call_lost = lost\<rparr>) (spec_delivery a (subs s))"
proof -
  have "mset (deliver a s) = image_mset (\<lambda>c. \<lparr>call_target = call_target c, call_activity = a, call_lost = lost\<rparr>) (mset (deliver a s))"
    using deliver_payload [of _ a s] by (intro image_mset_cong [where g = id, simplified, symmetric]) (auto intro: callback.equality)
  also have "\<dots> = image_mset (\<lambda>c. \<lparr>call_target = c, call_activity = a, call_lost = lost\<rparr>) (image_mset call_target (mset (deliver a s)))"
    by (simp add: multiset.map_comp comp_def)
  finally show ?thesis by (simp only: deliver_targets)
qed

lemma delivered_history:
  "mset (deliver a (fold (\<lambda>op. case op of Subscribe u l f b \<Rightarrow> register u l f b | Unsubscribe u l b \<Rightarrow> unregister u l b) ops s)) =
     image_mset (\<lambda>c. \<lparr>call_target = c, call_activity = a, call_lost = lost\<rparr>) (spec_delivery a (fold (spec_step flag) ops (subs s)))"
  by (simp only: delivered_callbacks subs_history)

end

definition table_subs :: "('l, 'f) dispatchers \<Rightarrow> ('l, 'f) subs" where
  "table_subs t u = (case t u of None \<Rightarrow> {#} | Some d \<Rightarrow> mset d)"

lemma table_subs_add: "table_subs (table_add u l f t) = spec_step b (Subscribe u l f b) (table_subs t)"
  by (auto simp: fun_eq_iff table_subs_def table_add_def spec_step_def dispatcher_add_def split: option.splits)

lemma table_subs_remove: "table_subs (table_remove u l t) = spec_step b (Unsubscribe u l b) (table_subs t)"
  by (auto simp: fun_eq_iff table_subs_def table_remove_def spec_step_def dispatcher_remove_mset split: option.splits)

lemma spec_step_other:
  "b \<noteq> flag \<Longrightarrow> spec_step flag (Subscribe u l f b) S = S" "b \<noteq> flag \<Longrightarrow> spec_step flag (Unsubscribe u l b) S = S"
  by (simp_all add: spec_step_def)

lemma dispatch_targets: "image_mset call_target (mset (dispatcher_dispatch a n d)) = mset d"
  by (simp add: dispatcher_dispatch_def multiset.map_comp comp_def flip: mset_map)

lemma table_dispatch_targets: "image_mset call_target (mset (table_dispatch a n t)) = spec_delivery a (table_subs t)"
  by (simp add: table_dispatch_def spec_delivery_def table_subs_def dispatch_targets split: option.splits)

lemma table_dispatch_payload: "c \<in> set (table_dispatch a n t) \<Longrightarrow> call_activity c = a \<and> call_lost c = n"
  by (auto simp: table_dispatch_def dispatcher_dispatch_def split: option.splits)

interpretation sync: subscriptions sync_registerForUcaid sync_unregisterForUcaid sync_Log table_subs False 0
  by unfold_locales (auto simp: sync_registerForUcaid_def sync_unregisterForUcaid_def sync_Log_def table_dispatch_targets
      spec_step_other table_subs_add [of _ _ _ _ False] table_subs_remove [of _ _ _ False] dest: table_dispatch_payload)

interpretation async_front: subscriptions async_registerForUcaid async_unregisterForUcaid
  "\<lambda>a m. fst (async_Log a m)" "\<lambda>m. table_subs (am_syncDispatchers m)" False 0
  by unfold_locales (auto simp: async_registerForUcaid_def async_unregisterForUcaid_def async_Log_def table_dispatch_targets
      spec_step_other table_subs_add [of _ _ _ _ False] table_subs_remove [of _ _ _ False] dest: table_dispatch_payload)

interpretation async_back: subscriptions async_registerForUcaid async_unregisterForUcaid
  "\<lambda>a m. fst (async_dispatch n a m)" "\<lambda>m. table_subs (am_asyncDispatchers m)" True n for n
  by unfold_locales (auto simp: async_registerForUcaid_def async_unregisterForUcaid_def async_dispatch_def table_dispatch_targets
      spec_step_other table_subs_add [of _ _ _ _ True] table_subs_remove [of _ _ _ True] dest: table_dispatch_payload)

section \<open>From Log to the asynchronous listeners\<close>

definition log_all :: "Activity list \<Rightarrow> ('l, 'f) ActivityMultiplexerAsync \<Rightarrow> ('l, 'f) ActivityMultiplexerAsync" where
  "log_all xs m = fold (\<lambda>a m. snd (async_Log a m)) xs m"

lemma log_all_snoc: "log_all (xs @ [x]) m = snd (async_Log x (log_all xs m))"
  by (simp add: log_all_def)

lemma log_all_frame:
  "am_asyncDispatchers (log_all xs m) = am_asyncDispatchers m" "am_syncDispatchers (log_all xs m) = am_syncDispatchers m"
  "am_lost_events (log_all xs m) = am_lost_events m" "am_processed_events_in_async (log_all xs m) = am_processed_events_in_async m"
  "am_processed_activities (log_all xs m) = am_processed_activities m + of_nat (length xs)"
  by (induction xs rule: rev_induct) (simp_all add: log_all_def async_Log_def)

lemma q_Push_overloaded: "q_overloaded (fst (q_Push a q)) \<longleftrightarrow> q_overloaded q \<or> \<not> q_curSize q < 255"
  by (simp add: q_Push_def Let_def q_drop_def q_store_def q_overload_def)

lemma q_Push_rep:
  assumes "q_rep q xs"
  shows "q_rep (fst (q_Push a q)) (if q_overloaded q \<or> \<not> length xs < 255 then xs else xs @ [a])"
    and "q_lost (fst (q_Push a q)) = (if q_overloaded q \<or> \<not> length xs < 255 then q_lost q + 1 else q_lost q)"
  using assms q_store_rep [OF assms, of a] q_rep_size [OF assms] by (auto simp: q_Push_def Let_def)

lemma log_all_queue:
  assumes start: "q_rep (am_queue m) []" "\<not> q_overloaded (am_queue m)" "q_lost (am_queue m) = 0"
    and listeners: "am_asyncDispatchers m \<noteq> Map.empty"
  shows "q_rep (am_queue (log_all xs m)) (take 255 xs) \<and>
    (q_overloaded (am_queue (log_all xs m)) \<longleftrightarrow> 255 < length xs) \<and>
    q_lost (am_queue (log_all xs m)) = of_nat (length xs - 255)"
proof (induction xs rule: rev_induct)
  case Nil
  then show ?case using start by (simp add: log_all_def)
next
  case (snoc x xs)
  let ?q = "am_queue (log_all xs m)"
  have q: "am_queue (log_all (xs @ [x]) m) = fst (q_Push x ?q)"
    using listeners by (simp add: log_all_snoc async_Log_def log_all_frame)
  have rep: "q_rep ?q (take 255 xs)" and over: "q_overloaded ?q \<longleftrightarrow> 255 < length xs"
    and lost: "q_lost ?q = of_nat (length xs - 255)" using snoc.IH by auto
  have size: "q_curSize ?q = min 255 (length xs)" using q_rep_size [OF rep] by simp
  have "q_rep (fst (q_Push x ?q)) (take 255 (xs @ [x]))"
    using q_Push_rep(1) [OF rep, of x] over by (auto split: if_splits)
  moreover have "q_overloaded (fst (q_Push x ?q)) \<longleftrightarrow> 255 < length (xs @ [x])"
    using over size by (auto simp: q_Push_overloaded)
  moreover have "q_lost (fst (q_Push x ?q)) = of_nat (length (xs @ [x]) - 255)"
    using q_Push_rep(2) [OF rep, of x] over lost by (auto simp: Suc_diff_le)
  ultimately show ?case unfolding q by blast
qed

declare q_lost_frame(5) [simp del]

text \<open>What one iteration of the notifier does with an empty queue and with the head of the queue.\<close>

lemma notifier_iteration_empty:
  assumes "q_rep (am_queue m) []"
  shows "notifier_iteration m = None"
proof -
  let ?q = "am_queue m"
  have "q_isEmpty ?q" "q_isEmpty (?q \<lparr>q_notified := False\<rparr>)"
    using q_rep_empty [OF assms] by (simp_all add: q_isEmpty_def)
  then show ?thesis by (simp add: notifier_iteration_def q_Pop_def Let_def)
qed

lemma notifier_iteration_rep:
  assumes "q_rep (am_queue m) (x # xs)"
  shows "\<exists>q'. q_rep q' xs \<and>
    q_overloaded q' = (q_overloaded (am_queue m) \<and> xs \<noteq> []) \<and>
    q_lost q' = (if q_overloaded (am_queue m) \<and> xs = [] then 0 else q_lost (am_queue m)) \<and>
    notifier_iteration m =
      (let lost = (if q_overloaded (am_queue m) \<and> xs = [] then q_lost (am_queue m) else 0)
       in Some (async_dispatch (ucast lost) x (m \<lparr>am_queue := q', am_lostActivities := am_lostActivities m + lost\<rparr>)))"
proof -
  let ?q = "am_queue m" let ?q1 = "snd (q_take ?q)"
  note t = q_take_rep [OF assms]
  have "\<not> q_isEmpty ?q" using q_rep_empty [OF assms] by simp
  then have pop: "q_Pop ?q = (Popped (Some x), ?q1)" using t(1) by (simp add: q_Pop_def case_prod_beta)
  have flags: "q_overloaded ?q1 = q_overloaded ?q" "q_lost ?q1 = q_lost ?q" by (simp_all add: q_take_def Let_def)
  define q2 where "q2 = (if q_overloaded ?q \<and> xs = [] then q_leave_overload (q_lost ?q) ?q1 else ?q1)"
  have chk: "q_checkOverflowMode ?q1 = (if q_overloaded ?q \<and> xs = [] then q_lost ?q else 0, q2)"
    unfolding q_checkOverflowMode_def flags q_rep_empty [OF t(2)] Let_def q2_def by auto
  have "q_rep q2 xs" using t(2) q2_def by auto
  moreover have "q_overloaded q2 = (q_overloaded ?q \<and> xs \<noteq> [])"
    "q_lost q2 = (if q_overloaded ?q \<and> xs = [] then 0 else q_lost ?q)"
    using flags q2_def by (auto simp: q_leave_overload_def)
  ultimately show ?thesis
    by (intro exI [of _ q2]) (simp add: notifier_iteration_def pop chk Let_def)
qed

definition drained_callbacks :: "Activity list \<Rightarrow> u32 \<Rightarrow> ('l, 'f) dispatchers \<Rightarrow> ('l, 'f, Activity) callback list" where
  "drained_callbacks xs lost t =
     (if xs = [] then [] else concat (map (\<lambda>a. table_dispatch a 0 t) (butlast xs)) @ table_dispatch (last xs) lost t)"

lemma notifier_run_rep:
  assumes "q_rep (am_queue m) xs" and "length xs \<le> n"
  shows "\<exists>m'. notifier_run n m =
      (drained_callbacks xs (if q_overloaded (am_queue m) then ucast (q_lost (am_queue m)) else 0) (am_asyncDispatchers m), m') \<and>
    q_rep (am_queue m') [] \<and>
    am_processed_events_in_async m' = am_processed_events_in_async m + of_nat (length xs) \<and>
    (xs \<noteq> [] \<longrightarrow> \<not> q_overloaded (am_queue m') \<and>
      am_lost_events m' = am_lost_events m +
        (if q_overloaded (am_queue m) then scast (ucast (q_lost (am_queue m)) :: u32) else 0))"
  using assms
proof (induction n arbitrary: m xs)
  case 0
  then show ?case by (simp add: drained_callbacks_def)
next
  case (Suc n)
  show ?case
  proof (cases xs)
    case Nil
    then have "notifier_iteration m = None" using Suc.prems(1) notifier_iteration_empty by simp
    then show ?thesis using Nil Suc.prems(1) by (simp add: drained_callbacks_def)
  next
    case (Cons y ys)
    let ?o = "q_overloaded (am_queue m)" let ?l = "q_lost (am_queue m)"
    let ?lost = "if ?o \<and> ys = [] then ?l else 0"
    obtain q' where q': "q_rep q' ys" "q_overloaded q' = (?o \<and> ys \<noteq> [])" "q_lost q' = (if ?o \<and> ys = [] then 0 else ?l)"
      and it: "notifier_iteration m = Some (async_dispatch (ucast ?lost) y
                 (m \<lparr>am_queue := q', am_lostActivities := am_lostActivities m + ?lost\<rparr>))"
      using notifier_iteration_rep [OF Suc.prems(1) [unfolded Cons]] unfolding Let_def by blast
    let ?m1 = "snd (async_dispatch (ucast ?lost) y (m \<lparr>am_queue := q', am_lostActivities := am_lostActivities m + ?lost\<rparr>))"
    have m1: "am_queue ?m1 = q'" "am_asyncDispatchers ?m1 = am_asyncDispatchers m"
      "am_processed_events_in_async ?m1 = am_processed_events_in_async m + 1"
      "am_lost_events ?m1 = am_lost_events m + scast (ucast ?lost :: u32)"
      by (simp_all add: async_dispatch_def)
    have cb: "fst (async_dispatch (ucast ?lost) y (m \<lparr>am_queue := q', am_lostActivities := am_lostActivities m + ?lost\<rparr>)) =
        table_dispatch y (ucast ?lost) (am_asyncDispatchers m)" by (simp add: async_dispatch_def)
    have run: "notifier_run (Suc n) m = (case notifier_run n ?m1 of (ds, m2) \<Rightarrow> (table_dispatch y (ucast ?lost) (am_asyncDispatchers m) @ ds, m2))"
      using it cb by (simp add: async_dispatch_def)
    have "q_rep (am_queue ?m1) ys" "length ys \<le> n" using q'(1) m1(1) Suc.prems(2) Cons by simp_all
    from Suc.IH [OF this] obtain m' where m': "notifier_run n ?m1 =
        (drained_callbacks ys (if ?o \<and> ys \<noteq> [] then ucast (q_lost q') else 0) (am_asyncDispatchers m), m')"
      "q_rep (am_queue m') []" "am_processed_events_in_async m' = am_processed_events_in_async m + 1 + of_nat (length ys)"
      "ys \<noteq> [] \<longrightarrow> \<not> q_overloaded (am_queue m') \<and> am_lost_events m' = am_lost_events m + scast (ucast ?lost :: u32) +
        (if ?o \<and> ys \<noteq> [] then scast (ucast (q_lost q') :: u32) else 0)"
      unfolding m1 q'(2) by blast
    have last: "notifier_run n ?m1 = ([], ?m1)" if "ys = []"
      using that m1(1) q'(1) notifier_iteration_empty [of ?m1] by (cases n) simp_all
    show ?thesis
    proof (cases "ys = []")
      case True
      then have "m' = ?m1" using last m'(1) by simp
      then show ?thesis using True Cons run m' m1 q' by (simp add: drained_callbacks_def)
    next
      case False
      then show ?thesis using Cons run m' q' by (auto simp: drained_callbacks_def algebra_simps)
    qed
  qed
qed

text \<open>A loss count below 2^31 passes through the \<open>int\<close> parameter unchanged.\<close>

lemma scast_small:
  assumes "n < 2 ^ 31"
  shows "scast (of_nat n :: u32) = (of_nat n :: u64)"
proof -
  have "sint (of_nat n :: u32) = int n"
    using assms by (simp only: signed_of_nat) (simp add: signed_take_bit_int_eq_self)
  then show ?thesis by (simp add: scast_eq)
qed

section \<open>Properties\<close>

text \<open>
  C5 (refinement): both multiplexers deliver to their subscribers. After any history of
  registrations and removals, a call of \<open>Log\<close> of either class makes, with a loss count of 0, the
  callbacks registered synchronously for the type of the activity and those registered for all
  types, each as often as it was registered since its listener was last removed, and no other;
  the asynchronous class does the same with the asynchronous registrations in \<open>dispatch\<close>, with
  the count it is given. The calls with the other flag have no effect, so the classes are
  interchangeable for synchronous listeners.
\<close>

theorem multiplexers_deliver_to_subscribers:
  fixes ops :: "('l, 'f) sub_op list"
  shows
  "(let S = (\<lambda>flag. fold (spec_step flag) ops (\<lambda>_. {#}));
        t = fold (\<lambda>op. case op of Subscribe u l f b \<Rightarrow> sync_registerForUcaid u l f b
                       | Unsubscribe u l b \<Rightarrow> sync_unregisterForUcaid u l b) ops Map.empty;
        m = fold (\<lambda>op. case op of Subscribe u l f b \<Rightarrow> async_registerForUcaid u l f b
                       | Unsubscribe u l b \<Rightarrow> async_unregisterForUcaid u l b) ops async_new
    in mset (sync_Log a t) = image_mset (\<lambda>c. \<lparr>call_target = c, call_activity = a, call_lost = 0\<rparr>) (spec_delivery a (S False)) \<and>
       mset (fst (async_Log a m)) = image_mset (\<lambda>c. \<lparr>call_target = c, call_activity = a, call_lost = 0\<rparr>) (spec_delivery a (S False)) \<and>
       mset (fst (async_dispatch n a m)) = image_mset (\<lambda>c. \<lparr>call_target = c, call_activity = a, call_lost = n\<rparr>) (spec_delivery a (S True)))"
proof -
  have e: "table_subs Map.empty = ((\<lambda>_. {#}) :: ('l, 'f) subs)" by (simp add: fun_eq_iff table_subs_def)
  then show ?thesis
    unfolding Let_def sync.delivered_history async_front.delivered_history async_back.delivered_history
    by (simp add: e async_new_def)
qed

text \<open>
  \<open>Dispatcher::remove\<close> removes every callback of the listener and nothing else,
  although it moves callbacks while it runs over the list; the order of the remaining ones may
  change, and with it the order of the calls.
\<close>

theorem dispatcher_remove_exact:
  "mset (dispatcher_remove l d) = {# c \<in># mset d. cb_listener c \<noteq> l #} \<and>
   (\<exists>d :: (nat, nat) dispatcher. dispatcher_remove 1 d \<noteq> filter (\<lambda>c. cb_listener c \<noteq> 1) d)"
proof -
  let ?d = "[\<lparr>cb_listener = 1, cb_function = 0\<rparr>, \<lparr>cb_listener = 2, cb_function = 0\<rparr>, \<lparr>cb_listener = 3, cb_function = 0\<rparr>] :: (nat, nat) dispatcher"
  have "dispatcher_remove 1 ?d \<noteq> filter (\<lambda>c. cb_listener c \<noteq> 1) ?d"
    by (simp add: dispatcher_remove_def numeral_3_eq_3)
  then show ?thesis by (intro conjI exI [of _ ?d] dispatcher_remove_mset)
qed

text \<open>
  C30 (functional): the way of the activities through the asynchronous multiplexer. With an
  asynchronous listener and an empty queue, logging any sequence of activities before the
  notifier runs keeps the first 255 and drops the rest; the notifier then delivers the kept ones
  in order, with the number of the dropped ones given to the callbacks of the last, leaves the
  overload mode and an empty queue, and counts every activity.
\<close>

theorem async_log_then_notify:
  assumes "q_rep (am_queue m) []" and "\<not> q_overloaded (am_queue m)" and "q_lost (am_queue m) = 0"
    and "am_asyncDispatchers m \<noteq> Map.empty" and "xs \<noteq> []" and "255 \<le> n" and "length xs < 2 ^ 31"
  shows "\<exists>m'. notifier_run n (log_all xs m) =
      (drained_callbacks (take 255 xs) (of_nat (length xs - 255)) (am_asyncDispatchers m), m') \<and>
    q_rep (am_queue m') [] \<and> \<not> q_overloaded (am_queue m') \<and>
    am_lost_events m' = am_lost_events m + of_nat (length xs - 255) \<and>
    am_processed_events_in_async m' = am_processed_events_in_async m + of_nat (min 255 (length xs))"
proof -
  let ?m = "log_all xs m" let ?k = "length xs - 255"
  have q: "q_rep (am_queue ?m) (take 255 xs)" "q_overloaded (am_queue ?m) \<longleftrightarrow> 255 < length xs"
    "q_lost (am_queue ?m) = of_nat ?k" using log_all_queue [OF assms(1-4), of xs] by auto
  have cut: "ucast (of_nat ?k :: u64) = (of_nat ?k :: u32)" using assms(7)
    by (intro unsigned_word_eqI ) (simp add: unsigned_of_nat take_bit_nat_eq_self)
  have ext: "scast (of_nat ?k :: u32) = (of_nat ?k :: u64)" using assms(7) by (intro scast_small) simp
  have lost: "(if q_overloaded (am_queue ?m) then ucast (q_lost (am_queue ?m)) else 0) = (of_nat ?k :: u32)"
    "(if q_overloaded (am_queue ?m) then scast (ucast (q_lost (am_queue ?m)) :: u32) else 0) = (of_nat ?k :: u64)"
    using q(2,3) cut ext by (auto simp: not_less)
  have len: "length (take 255 xs) \<le> n" using assms(6) by simp
  have ne: "take 255 xs \<noteq> []" using assms(5) by simp
  show ?thesis using notifier_run_rep [OF q(1) len] ne unfolding lost log_all_frame by (auto simp: min.commute)
qed

definition sample_activity :: Activity where
  "sample_activity = begun_activity 5 0 (ActivityID sample_cid 1 1) []"

theorem async_log_then_notify_witness:
  "\<exists>m'. notifier_run 255 (log_all [sample_activity] (async_registerCatchall (1 :: nat) (2 :: nat) True async_new)) =
     ([\<lparr>call_target = \<lparr>cb_listener = 1, cb_function = 2\<rparr>, call_activity = sample_activity, call_lost = 0\<rparr>], m')"
proof -
  let ?m = "async_registerCatchall (1 :: nat) (2 :: nat) True async_new"
  have t: "am_asyncDispatchers ?m = [0 \<mapsto> [\<lparr>cb_listener = 1, cb_function = 2\<rparr>]]" "am_queue ?m = queue_new"
    by (simp_all add: async_registerCatchall_def async_registerForUcaid_def table_add_def dispatcher_add_def async_new_def)
  have "\<not> q_overloaded (queue_new :: Activity ActivityMultiplexerQueue)" "q_lost (queue_new :: Activity ActivityMultiplexerQueue) = 0"
    by (simp_all add: queue_new_def)
  then show ?thesis
    using async_log_then_notify [of ?m "[sample_activity]" 255] t q_rep_new
    by (auto simp: drained_callbacks_def table_dispatch_def dispatcher_dispatch_def sample_activity_def begun_activity_def)
qed

text \<open>
  The count of lost activities passes through a C \<open>int\<close>. The statistics of the
  multiplexer grow by the reported number exactly when it is smaller than 2^31 (or so large that
  the sign extension restores it); at 2^31 lost activities the report is wrong.
\<close>

theorem async_lost_events_bounds:
  "(unat lost < 2 ^ 31 \<longrightarrow>
      am_lost_events (snd (async_dispatch (ucast lost) a m)) = am_lost_events m + (lost :: u64)) \<and>
   am_lost_events (snd (async_dispatch (ucast (2 ^ 31 :: u64)) a m)) = am_lost_events m - 2 ^ 31"
proof -
  have "scast (ucast lost :: u32) = lost" if "unat lost < 2 ^ 31"
  proof -
    have "(ucast lost :: u32) = of_nat (unat lost)" by (simp add: unsigned_ucast_eq)
    then have "scast (ucast lost :: u32) = (of_nat (unat lost) :: u64)" by (simp only: scast_small [OF that])
    then show ?thesis by simp
  qed
  moreover have "scast (ucast (2 ^ 31 :: u64) :: u32) = (- (2 ^ 31) :: u64)" by code_simp
  ultimately show ?thesis by (simp add: async_dispatch_def)
qed

theorem async_lost_events_bounds_witness:
  "am_lost_events (snd (async_dispatch (ucast (7 :: u64)) sample_activity (async_new :: (nat, nat) ActivityMultiplexerAsync))) = 7"
  using async_lost_events_bounds [of 7 sample_activity "async_new :: (nat, nat) ActivityMultiplexerAsync"]
  by (simp add: async_new_def)

end
