(* ===== verification/Statistics_History.thy ===== *)
theory Statistics_History
  imports Topology_Types Ids
begin

text \<open>
  A statistic with its history: \<open>include/monitoring/statistics/Statistic.hpp\<close> and
  \<open>monitoring/statistics/collector/Statistic.cpp\<close>. A statistic is updated ten times per second. For
  every reduction operator that was requested it keeps, for each of five interval lengths, a ring
  of 11 values; every time an interval is complete its value is computed from the values of the
  next shorter interval.

  The reference definition \<open>interval_value\<close> computes the value of an interval from the measured
  values alone. The main lemma shows that the rings hold the values of the last intervals.
  Interval lengths are numbered as in the source, whose enumeration has arithmetic operators.
\<close>

type_synonym StatisticsValue = VariableDatatype
type_synonym StatisticsInterval = nat

abbreviation HUNDRED_MILLISECONDS :: StatisticsInterval where "HUNDRED_MILLISECONDS \<equiv> 0"
abbreviation SECOND :: StatisticsInterval where "SECOND \<equiv> 1"
abbreviation TEN_SECONDS :: StatisticsInterval where "TEN_SECONDS \<equiv> 2"
abbreviation MINUTE :: StatisticsInterval where "MINUTE \<equiv> 3"
abbreviation TEN_MINUTES :: StatisticsInterval where "TEN_MINUTES \<equiv> 4"
abbreviation INTERVALLS_NUMBER :: nat where "INTERVALLS_NUMBER \<equiv> 5"

datatype StatisticsReduceOperator = OP_MIN | OP_MAX | OP_AVERAGE | OP_SUM

definition reduce_operators :: "StatisticsReduceOperator list" where
  "reduce_operators = [OP_MIN, OP_MAX, OP_AVERAGE, OP_SUM]"

definition measurementIncrement :: "StatisticsInterval \<Rightarrow> nat outcome" where
  "measurementIncrement i =
     (if i = HUNDRED_MILLISECONDS then Inr 1
      else if i = SECOND then Inr 10
      else if i = TEN_SECONDS then Inr 100
      else if i = MINUTE then Inr 600
      else if i = TEN_MINUTES then Inr 6000
      else Inl (Abort ''Unknown poll interval''))"

record Statistic =
  st_ontologyId :: OntologyAttributeID
  st_topologyId :: TopologyObjectId
  st_curValue :: StatisticsValue
  st_lastIndex :: nat
  st_requestCounts :: "StatisticsReduceOperator \<Rightarrow> u64"
  st_history :: "StatisticsReduceOperator \<Rightarrow> StatisticsInterval \<Rightarrow> nat \<Rightarrow> StatisticsValue"
  st_times :: "StatisticsReduceOperator \<Rightarrow> StatisticsInterval \<Rightarrow> nat \<Rightarrow> u64"
  st_lastTimestamp :: u64

text \<open>The constructor leaves the time stamps uninitialised: \<open>junk\<close> is what the memory held.\<close>

definition Statistic_new ::
  "StatisticsValue \<Rightarrow> OntologyAttributeID \<Rightarrow> TopologyObjectId
   \<Rightarrow> (StatisticsReduceOperator \<Rightarrow> StatisticsInterval \<Rightarrow> nat \<Rightarrow> u64) \<Rightarrow> u64 \<Rightarrow> Statistic" where
  "Statistic_new value attribute topologyId junk junk_time =
     \<lparr>st_ontologyId = attribute, st_topologyId = topologyId, st_curValue = value, st_lastIndex = 0,
      st_requestCounts = (\<lambda>_. 0), st_history = (\<lambda>_ _ _. VInvalid), st_times = junk, st_lastTimestamp = junk_time\<rparr>"

definition wrapIndex :: "nat \<Rightarrow> nat" where
  "wrapIndex i = i mod 11"

text \<open>Subtraction of \<open>size_t\<close> wraps around.\<close>

definition size_sub :: "nat \<Rightarrow> nat \<Rightarrow> nat" where
  "size_sub a b = (if b \<le> a then a - b else a + 2 ^ 64 - b)"

definition requestReduction :: "StatisticsReduceOperator \<Rightarrow> Statistic \<Rightarrow> Statistic" where
  "requestReduction op s = s \<lparr>st_requestCounts := (st_requestCounts s)(op := st_requestCounts s op + 1)\<rparr>"

definition cancelReductionRequest :: "StatisticsReduceOperator \<Rightarrow> Statistic \<Rightarrow> Statistic outcome" where
  "cancelReductionRequest op s =
     (if st_requestCounts s op = 0 then Inl (Abort ''requestCounts[reductionOp]'')
      else Inr (s \<lparr>st_requestCounts := (st_requestCounts s)(op := st_requestCounts s op - 1)\<rparr>))"

definition getHistoricValues ::
  "StatisticsReduceOperator \<Rightarrow> StatisticsInterval \<Rightarrow> Statistic \<Rightarrow> (StatisticsValue list \<times> u64 list) outcome" where
  "getHistoricValues op interval s =
     bindr (measurementIncrement interval) (\<lambda>inc.
     let lastIntervalIndex = st_lastIndex s div inc;
         historyIndex = (\<lambda>i. wrapIndex (lastIntervalIndex + i + 2))
     in Inr (map (\<lambda>i. st_history s op interval (historyIndex i)) [0 ..< 10],
             map (\<lambda>i. st_times s op interval (historyIndex i)) [0 ..< 10]))"

section \<open>Reductions\<close>

definition reduce_values ::
  "StatisticsReduceOperator \<Rightarrow> StatisticsValue \<Rightarrow> StatisticsValue list \<Rightarrow> StatisticsValue outcome" where
  "reduce_values op cur vals =
     (case op of
        OP_MIN \<Rightarrow> bindr (vd_setMax cur)
                 (fold_outcome (\<lambda>v result. bindr (vd_lt v result) (\<lambda>b. Inr (if b then v else result))) vals)
      | OP_MAX \<Rightarrow> bindr (vd_setMin cur)
                 (fold_outcome (\<lambda>v result. bindr (vd_lt result v) (\<lambda>b. Inr (if b then v else result))) vals)
      | OP_AVERAGE \<Rightarrow> bindr (bindr (vd_setZero cur) (fold_outcome (\<lambda>v result. vd_add result v) vals))
                     (\<lambda>result. vd_div result (of_nat (length vals)))
      | OP_SUM \<Rightarrow> bindr (vd_setZero cur) (fold_outcome (\<lambda>v result. vd_add result v) vals))"

text \<open>The offsets run from the oldest value to the newest.\<close>

definition inferValue ::
  "StatisticsReduceOperator \<Rightarrow> StatisticsInterval \<Rightarrow> nat \<Rightarrow> Statistic \<Rightarrow> StatisticsValue outcome" where
  "inferValue op interval sourceIndex s =
     (if interval = HUNDRED_MILLISECONDS then Inl (Abort ''This condition should be handled in the caller.'')
      else bindr (measurementIncrement interval) (\<lambda>inc.
           bindr (measurementIncrement (interval - 1)) (\<lambda>finer.
           reduce_values op (st_curValue s)
             (map (\<lambda>timeOffset. st_history s op (interval - 1) (wrapIndex (size_sub sourceIndex timeOffset)))
                (rev [0 ..< inc div finer])))))"

definition getRollingValue ::
  "StatisticsReduceOperator \<Rightarrow> StatisticsInterval \<Rightarrow> Statistic \<Rightarrow> StatisticsValue outcome" where
  "getRollingValue op interval s =
     bindr (measurementIncrement interval) (\<lambda>inc.
     Inr (st_history s op interval (wrapIndex (st_lastIndex s div inc))))"

definition getReducedValue ::
  "StatisticsReduceOperator \<Rightarrow> StatisticsInterval \<Rightarrow> Statistic \<Rightarrow> StatisticsValue outcome" where
  "getReducedValue op interval s =
     (if interval = HUNDRED_MILLISECONDS then Inr (st_curValue s)
      else bindr (measurementIncrement (interval - 1)) (\<lambda>finer.
           inferValue op interval (st_lastIndex s div finer) s))"

section \<open>Update\<close>

definition put_history ::
  "StatisticsReduceOperator \<Rightarrow> StatisticsInterval \<Rightarrow> nat \<Rightarrow> StatisticsValue \<Rightarrow> Statistic \<Rightarrow> Statistic" where
  "put_history op i j v s =
     s \<lparr>st_history := (st_history s)(op := (st_history s op)(i := (st_history s op i)(j := v)))\<rparr>"

text \<open>The first update after a request sets every value of the operator to the current one.\<close>

definition init_history :: "StatisticsReduceOperator \<Rightarrow> nat \<Rightarrow> Statistic \<Rightarrow> Statistic" where
  "init_history op newIndex s =
     (if vd_type (st_history s op HUNDRED_MILLISECONDS (wrapIndex newIndex)) = INVALID
      then s \<lparr>st_history := (st_history s)(op := (\<lambda>_ _. st_curValue s))\<rparr> else s)"

text \<open>The loop over the longer intervals, which ends at the first that is not complete.\<close>

fun aggregate_loop ::
  "StatisticsReduceOperator \<Rightarrow> nat \<Rightarrow> StatisticsInterval list \<Rightarrow> Statistic \<Rightarrow> Statistic outcome" where
  "aggregate_loop op newIndex [] s = Inr s"
| "aggregate_loop op newIndex (i # is) s =
     bindr (measurementIncrement i) (\<lambda>curIncrement.
     if newIndex mod curIncrement \<noteq> 0 then Inr s
     else bindr (measurementIncrement (i - 1)) (\<lambda>previousIncrement.
          bindr (inferValue op i (newIndex div previousIncrement) s) (\<lambda>v.
          aggregate_loop op newIndex is (put_history op i (wrapIndex (newIndex div curIncrement)) v s))))"

definition update_operator :: "nat \<Rightarrow> u64 \<Rightarrow> StatisticsReduceOperator \<Rightarrow> Statistic \<Rightarrow> Statistic outcome" where
  "update_operator newIndex time op s =
     (if st_requestCounts s op = 0 then Inr s
      else
        let s1 = init_history op newIndex s;
            s2 = put_history op HUNDRED_MILLISECONDS (wrapIndex newIndex) (st_curValue s1) s1;
            s3 = s2 \<lparr>st_times := (st_times s2)(op := (st_times s2 op)(HUNDRED_MILLISECONDS :=
                   (st_times s2 op HUNDRED_MILLISECONDS)(wrapIndex newIndex := time)))\<rparr>
        in aggregate_loop op newIndex [SECOND ..< INTERVALLS_NUMBER] s3)"

definition statistic_update :: "u64 \<Rightarrow> Statistic \<Rightarrow> Statistic outcome" where
  "statistic_update time s =
     (let newIndex = (st_lastIndex s + 1) mod 2 ^ 64
      in bindr (fold_outcome (update_operator newIndex time) (rev reduce_operators) (s \<lparr>st_lastTimestamp := time\<rparr>))
           (\<lambda>s'. Inr (s' \<lparr>st_lastIndex := newIndex\<rparr>)))"

section \<open>IncrementalStatistic\<close>

text \<open>
  The statistic that an incremental one is shown as has the difference to the last value of the
  counter as its current value.
\<close>

record IncrementalStatistic =
  is_base :: Statistic
  is_incrementalValue :: StatisticsValue
  is_minValue :: u64
  is_maxValue :: u64
  is_lastValue :: u64

definition IncrementalStatistic_new ::
  "StatisticsValue \<Rightarrow> OntologyAttributeID \<Rightarrow> TopologyObjectId \<Rightarrow> u64 \<Rightarrow> u64
   \<Rightarrow> (StatisticsReduceOperator \<Rightarrow> StatisticsInterval \<Rightarrow> nat \<Rightarrow> u64) \<Rightarrow> u64 \<Rightarrow> IncrementalStatistic outcome" where
  "IncrementalStatistic_new value attribute topologyId minValue maxValue junk junk_time =
     bindr (vd_uint64 value) (\<lambda>last.
     Inr \<lparr>is_base = Statistic_new (VUint64 0) attribute topologyId junk junk_time, is_incrementalValue = value,
          is_minValue = minValue, is_maxValue = maxValue, is_lastValue = last\<rparr>)"

definition gauge_of :: "u64 \<Rightarrow> u64 \<Rightarrow> u64 \<Rightarrow> u64 \<Rightarrow> u64" where
  "gauge_of minValue maxValue lastValue newValue =
     (if newValue < lastValue then newValue - lastValue + maxValue - minValue + 1 else newValue - lastValue)"

definition incremental_update :: "u64 \<Rightarrow> IncrementalStatistic \<Rightarrow> IncrementalStatistic outcome" where
  "incremental_update time s =
     bindr (vd_uint64 (is_incrementalValue s)) (\<lambda>newValue.
     let gauge = VUint64 (gauge_of (is_minValue s) (is_maxValue s) (is_lastValue s) newValue)
     in bindr (statistic_update time (is_base s \<lparr>st_curValue := gauge\<rparr>)) (\<lambda>base.
        Inr (s \<lparr>is_base := base, is_lastValue := newValue\<rparr>)))"

section \<open>The reference: values of intervals\<close>

text \<open>
  \<open>v n\<close> is the value at the \<open>n\<close>-th update, counted from 1. Interval \<open>m\<close> of a length ends with
  update \<open>m\<close> times the length.
\<close>

definition increment :: "StatisticsInterval \<Rightarrow> nat" where
  "increment i = [1, 10, 100, 600, 6000] ! i"

definition period :: "StatisticsInterval \<Rightarrow> nat" where
  "period i = increment i div increment (i - 1)"

fun interval_value ::
  "StatisticsReduceOperator \<Rightarrow> (nat \<Rightarrow> StatisticsValue) \<Rightarrow> nat \<Rightarrow> nat \<Rightarrow> StatisticsValue outcome" where
  "interval_value op v 0 m = Inr (v m)"
| "interval_value op v (Suc i) m =
     bindr (map_outcome (interval_value op v i) [Suc ((m - 1) * period (Suc i)) ..< Suc (m * period (Suc i))])
       (reduce_values op (v (m * increment (Suc i))))"

lemma five_cases: "i < 5 \<longleftrightarrow> i = 0 \<or> i = 1 \<or> i = 2 \<or> i = 3 \<or> i = (4 :: nat)"
  by auto

lemma measurementIncrement_increment: "i < 5 \<Longrightarrow> measurementIncrement i = Inr (increment i)"
  by (auto simp: five_cases measurementIncrement_def increment_def)

lemma increment_pos: "i < 5 \<Longrightarrow> 0 < increment i"
  by (auto simp: five_cases increment_def)

lemma increment_step: "0 < i \<Longrightarrow> i < 5 \<Longrightarrow> increment i = increment (i - 1) * period i \<and> 0 < period i \<and> period i \<le> 10"
  by (auto simp: five_cases increment_def period_def)

lemma increment_Suc: "Suc i < 5 \<Longrightarrow> increment (Suc i) = increment i * period (Suc i)"
  using increment_step [of "Suc i"] by simp

lemma period_bounds: "Suc i < 5 \<Longrightarrow> 0 < period (Suc i) \<and> period (Suc i) \<le> 10"
  using increment_step [of "Suc i"] by simp

lemma map_outcome_Inr: "(\<And>x. x \<in> set xs \<Longrightarrow> f x = Inr (g x)) \<Longrightarrow> map_outcome f xs = Inr (map g xs)"
  by (induction xs) auto

section \<open>The rings hold the values of the last intervals\<close>

text \<open>Ring \<open>i\<close> is right at update \<open>n\<close>: its slots hold the last 11 of the complete intervals.\<close>

definition ring_ok :: "StatisticsReduceOperator \<Rightarrow> (nat \<Rightarrow> StatisticsValue) \<Rightarrow> nat \<Rightarrow> nat \<Rightarrow> (nat \<Rightarrow> StatisticsValue) \<Rightarrow> bool" where
  "ring_ok op v i n ring \<longleftrightarrow>
     (\<forall>m. 0 < m \<longrightarrow> m \<le> n div increment i \<longrightarrow> n div increment i < m + 11 \<longrightarrow>
        interval_value op v i m = Inr (ring (wrapIndex m)))"

lemma wrapIndex_neq: "m < k \<Longrightarrow> k < m + 11 \<Longrightarrow> wrapIndex m \<noteq> wrapIndex k"
proof
  assume "m < k" "k < m + 11" "wrapIndex m = wrapIndex k"
  then have "11 dvd k - m" using mod_eq_dvd_iff_nat [of m k 11] by (simp add: wrapIndex_def eq_commute)
  then show False using \<open>m < k\<close> \<open>k < m + 11\<close> by (auto dest: dvd_imp_le)
qed

lemma ring_ok_skip: "ring_ok op v i n ring \<Longrightarrow> \<not> increment i dvd Suc n \<Longrightarrow> ring_ok op v i (Suc n) ring"
  by (simp add: ring_ok_def div_Suc mod_eq_0_iff_dvd)

lemma ring_ok_write:
  assumes ok: "ring_ok op v i n ring" and d: "increment i dvd Suc n" and pos: "0 < increment i"
    and x: "interval_value op v i (Suc n div increment i) = Inr x"
  shows "ring_ok op v i (Suc n) (ring(wrapIndex (Suc n div increment i) := x))"
proof -
  let ?k = "Suc n div increment i"
  have k: "?k = Suc (n div increment i)" using d by (simp add: div_Suc mod_eq_0_iff_dvd)
  have "interval_value op v i m = Inr ((ring(wrapIndex ?k := x)) (wrapIndex m))"
    if "0 < m" "m \<le> ?k" "?k < m + 11" for m
  proof (cases "m = ?k")
    case True
    then show ?thesis using x by simp
  next
    case False
    then have "wrapIndex m \<noteq> wrapIndex ?k" using that wrapIndex_neq [of m ?k] by simp
    moreover have "interval_value op v i m = Inr (ring (wrapIndex m))"
      using ok that False k unfolding ring_ok_def by simp
    ultimately show ?thesis by simp
  qed
  then show ?thesis unfolding ring_ok_def by blast
qed

text \<open>An interval is computed from the complete intervals of the next shorter length.\<close>

lemma inferValue_correct:
  assumes ring: "ring_ok op v i N (st_history s op i)" and i: "Suc i < 5" and d: "increment (Suc i) dvd N" and N: "0 < N"
    and cur: "st_curValue s = v N" and infer: "inferValue op (Suc i) (N div increment i) s = Inr x"
  shows "interval_value op v (Suc i) (N div increment (Suc i)) = Inr x"
proof -
  let ?p = "period (Suc i)" and ?m = "N div increment (Suc i)" and ?k = "N div increment i"
  have p: "0 < ?p" "?p \<le> 10" and inc: "increment (Suc i) = increment i * ?p"
    using period_bounds [OF i] increment_Suc [OF i] by auto
  have pos: "0 < increment i" using increment_pos [of i] i by simp
  have k: "?k = ?m * ?p" and m: "0 < ?m"
    using d N inc pos p(1) by (auto elim!: dvdE)
  have le: "?p \<le> ?k" using k m by simp
  have idx: "rev [0 ..< ?p] = map (\<lambda>j. ?k - j) [Suc (?k - ?p) ..< Suc ?k]"
    using le by (intro nth_equalityI) (auto simp: rev_nth simp del: upt_Suc)
  let ?ring = "\<lambda>j. st_history s op i (wrapIndex j)"
  have vals: "map (\<lambda>t. st_history s op i (wrapIndex (size_sub ?k t))) (rev [0 ..< ?p]) = map ?ring [Suc (?k - ?p) ..< Suc ?k]"
    unfolding idx map_map by (rule map_cong) (auto simp: size_sub_def simp del: upt_Suc)
  have "interval_value op v i j = Inr (?ring j)" if "j \<in> set [Suc (?k - ?p) ..< Suc ?k]" for j
    using ring that p(2) le unfolding ring_ok_def by (auto simp del: upt_Suc)
  then have "map_outcome (interval_value op v i) [Suc (?k - ?p) ..< Suc ?k] = Inr (map ?ring [Suc (?k - ?p) ..< Suc ?k])"
    by (rule map_outcome_Inr)
  moreover have "(?m - 1) * ?p = ?k - ?p" using k by (simp add: diff_mult_distrib)
  moreover have "?m * increment (Suc i) = N" using d by simp
  moreover have "inferValue op (Suc i) ?k s = reduce_values op (v N) (map ?ring [Suc (?k - ?p) ..< Suc ?k])"
    using i vals cur by (simp add: inferValue_def measurementIncrement_increment period_def del: upt_Suc)
  ultimately show ?thesis using infer k by (simp del: upt_Suc)
qed

lemma increment_dvd: "k \<le> i \<Longrightarrow> i < 5 \<Longrightarrow> increment k dvd increment i"
proof -
  assume "k \<le> i" "i < 5"
  moreover from this have "k < 5" by simp
  ultimately show ?thesis
    unfolding five_cases increment_def by (elim disjE) simp_all
qed

text \<open>What the work for one operator leaves alone.\<close>

definition same_but :: "StatisticsReduceOperator \<Rightarrow> Statistic \<Rightarrow> Statistic \<Rightarrow> bool" where
  "same_but op s s' \<longleftrightarrow>
     st_ontologyId s' = st_ontologyId s \<and> st_topologyId s' = st_topologyId s \<and> st_curValue s' = st_curValue s \<and>
     st_lastIndex s' = st_lastIndex s \<and> st_requestCounts s' = st_requestCounts s \<and>
     st_lastTimestamp s' = st_lastTimestamp s \<and>
     (\<forall>op'. op' \<noteq> op \<longrightarrow> st_history s' op' = st_history s op' \<and> st_times s' op' = st_times s op') \<and>
     (\<forall>i. i \<noteq> HUNDRED_MILLISECONDS \<longrightarrow> st_times s' op i = st_times s op i)"

lemma same_but_refl [simp]: "same_but op s s"
  by (simp add: same_but_def)

lemma same_but_trans: "same_but op s s' \<Longrightarrow> same_but op s' s'' \<Longrightarrow> same_but op s s''"
  by (simp add: same_but_def)

lemma same_but_put_history [simp]: "same_but op s (put_history op i j v s)"
  by (simp add: same_but_def put_history_def)

lemma put_history_same: "st_history (put_history op i j v s) op i = (st_history s op i)(j := v)"
  and put_history_other: "i' \<noteq> i \<Longrightarrow> st_history (put_history op i j v s) op i' = st_history s op i'"
  and put_history_cur [simp]: "st_curValue (put_history op i j v s) = st_curValue s"
  by (simp_all add: put_history_def)

lemma aggregate_loop_frame:
  "aggregate_loop op n is s = Inr s' \<Longrightarrow>
     same_but op s s' \<and> (\<forall>i. i \<notin> set is \<longrightarrow> st_history s' op i = st_history s op i)"
proof (induction "is" arbitrary: s)
  case (Cons j js)
  from Cons.prems show ?case
    by (auto simp: bindr_Inr_iff put_history_other split: if_splits dest!: Cons.IH intro: same_but_trans [OF same_but_put_history])
qed simp

lemma aggregate_loop_correct:
  assumes "aggregate_loop op (Suc n) [k ..< 5] s = Inr s'" and "0 < k" and "st_curValue s = v (Suc n)"
    and "\<And>i. i < k \<Longrightarrow> i < 5 \<Longrightarrow> ring_ok op v i (Suc n) (st_history s op i)"
    and "\<And>i. k \<le> i \<Longrightarrow> i < 5 \<Longrightarrow> ring_ok op v i n (st_history s op i)"
  shows "\<forall>i < 5. ring_ok op v i (Suc n) (st_history s' op i)"
  using assms
proof (induction "5 - k" arbitrary: k s)
  case 0
  then show ?case by simp
next
  case (Suc d)
  then have k: "k < 5" "[k ..< 5] = k # [Suc k ..< 5]" by (simp_all add: upt_rec)
  obtain i where i: "k = Suc i" using \<open>0 < k\<close> by (cases k) auto
  show ?case
  proof (cases "increment k dvd Suc n")
    case False
    have "\<not> increment j dvd Suc n" if "k \<le> j" "j < 5" for j
      using increment_dvd [OF that] False dvd_trans by blast
    then have "ring_ok op v j (Suc n) (st_history s op j)" if "k \<le> j" "j < 5" for j
      using that Suc.prems(5) by (simp add: ring_ok_skip)
    moreover have "s' = s" using False Suc.prems(1) k by (simp add: measurementIncrement_increment mod_eq_0_iff_dvd)
    ultimately show ?thesis using Suc.prems(4) by (metis not_less)
  next
    case True
    let ?j = "wrapIndex (Suc n div increment k)"
    obtain x where x: "inferValue op k (Suc n div increment i) s = Inr x"
      and rest: "aggregate_loop op (Suc n) [Suc k ..< 5] (put_history op k ?j x s) = Inr s'"
      using True Suc.prems(1) k i by (auto simp: measurementIncrement_increment mod_eq_0_iff_dvd bindr_Inr_iff)
    let ?s = "put_history op k ?j x s"
    have "interval_value op v k (Suc n div increment k) = Inr x"
      using inferValue_correct [of op v i "Suc n" s x] Suc.prems(3,4) x True k i by simp
    then have "ring_ok op v k (Suc n) (st_history ?s op k)"
      using ring_ok_write [OF Suc.prems(5) True increment_pos] k by (simp add: put_history_same)
    moreover have "ring_ok op v j (Suc n) (st_history ?s op j)" if "j < k" "j < 5" for j
      using that Suc.prems(4) by (simp add: put_history_other)
    ultimately have done_upto: "\<And>j. j < Suc k \<Longrightarrow> j < 5 \<Longrightarrow> ring_ok op v j (Suc n) (st_history ?s op j)"
      by (metis less_SucE)
    have todo: "\<And>j. Suc k \<le> j \<Longrightarrow> j < 5 \<Longrightarrow> ring_ok op v j n (st_history ?s op j)"
      using Suc.prems(5) by (simp add: put_history_other)
    show ?thesis
      by (rule Suc.hyps(1) [OF _ rest]) (use Suc.hyps(2) Suc.prems(3) done_upto todo in simp_all)
  qed
qed

text \<open>The state of an operator that was requested before the first of the updates \<open>v 1\<close>, \<open>v 2\<close>, ...\<close>

definition operator_ok :: "StatisticsReduceOperator \<Rightarrow> (nat \<Rightarrow> StatisticsValue) \<Rightarrow> nat \<Rightarrow> Statistic \<Rightarrow> bool" where
  "operator_ok op v n s \<longleftrightarrow> st_requestCounts s op \<noteq> 0 \<and>
     (\<forall>i < 5. ring_ok op v i n (st_history s op i)) \<and>
     ((\<forall>j. vd_type (st_history s op HUNDRED_MILLISECONDS j) \<noteq> INVALID) \<or>
      n = 0 \<and> (\<forall>j. vd_type (st_history s op HUNDRED_MILLISECONDS j) = INVALID))"

lemma ring_ok_early: "ring_ok op v i 0 ring"
  by (simp add: ring_ok_def)

lemma update_operator_frame: "update_operator n t op s = Inr s' \<Longrightarrow> same_but op s s'"
  by (auto simp: update_operator_def Let_def init_history_def split: if_splits dest!: aggregate_loop_frame)
    (auto simp: same_but_def put_history_def)

lemma update_operator_correct:
  assumes ok: "operator_ok op v n s" and cur: "st_curValue s = v (Suc n)" and valid: "vd_type (v (Suc n)) \<noteq> INVALID"
    and upd: "update_operator (Suc n) t op s = Inr s'"
  shows "operator_ok op v (Suc n) s'"
proof -
  define s1 where "s1 = init_history op (Suc n) s"
  define s2 where "s2 = put_history op 0 (wrapIndex (Suc n)) (v (Suc n)) s1"
  define s3 where "s3 = s2 \<lparr>st_times := (st_times s2)(op := (st_times s2 op)(0 := (st_times s2 op 0)(wrapIndex (Suc n) := t)))\<rparr>"
  have cur1: "st_curValue s1 = v (Suc n)" using cur by (simp add: s1_def init_history_def)
  have loop: "aggregate_loop op (Suc n) [1 ..< 5] s3 = Inr s'"
    using upd ok cur1 by (simp add: update_operator_def operator_ok_def Let_def s1_def s2_def s3_def)
  have h3: "st_history s3 = st_history s2" "st_curValue s3 = v (Suc n)" "st_requestCounts s3 = st_requestCounts s"
    using cur1 by (simp_all add: s3_def s2_def put_history_def s1_def init_history_def)
  have ring1: "ring_ok op v i n (st_history s1 op i)" if "i < 5" for i
  proof (cases "n = 0")
    case True
    then show ?thesis by (simp add: ring_ok_early)
  next
    case False
    then have "s1 = s" using ok by (simp add: s1_def init_history_def operator_ok_def)
    then show ?thesis using ok that by (simp add: operator_ok_def)
  qed
  have "ring_ok op v 0 (Suc n) ((st_history s1 op 0)(wrapIndex (Suc n) := v (Suc n)))"
    using ring_ok_write [OF ring1 [of 0]] by (simp add: increment_def)
  then have ring0: "ring_ok op v 0 (Suc n) (st_history s3 op 0)" by (simp add: h3 s2_def put_history_same)
  have "ring_ok op v i n (st_history s3 op i)" if "1 \<le> i" "i < 5" for i
    using ring1 [of i] that by (simp add: h3 s2_def put_history_other)
  then have rings: "\<forall>i < 5. ring_ok op v i (Suc n) (st_history s' op i)"
    using aggregate_loop_correct [where v = v, OF loop _ h3(2)] ring0 by simp
  have "vd_type (st_history s1 op 0 j) \<noteq> INVALID" for j
  proof (cases "vd_type (st_history s op 0 (wrapIndex (Suc n))) = INVALID")
    case True
    then show ?thesis using valid cur by (simp add: s1_def init_history_def)
  next
    case False
    then have "s1 = s" by (simp add: s1_def init_history_def)
    then show ?thesis using ok False by (auto simp: operator_ok_def)
  qed
  then show ?thesis using rings aggregate_loop_frame [OF loop] ok h3 valid
    by (auto simp: operator_ok_def same_but_def s2_def put_history_same)
qed

lemma operator_ok_frame:
  "same_but op' s s' \<Longrightarrow> op' \<noteq> op \<Longrightarrow> operator_ok op v n s \<Longrightarrow> operator_ok op v n s'"
  by (simp add: operator_ok_def same_but_def)

text \<open>The work for the operators does not interfere.\<close>

lemma update_operators_correct:
  assumes "fold_outcome (update_operator (Suc n) t) ops s = Inr s'" and "distinct ops"
    and "st_curValue s = v (Suc n)" and "vd_type (v (Suc n)) \<noteq> INVALID" and "operator_ok op v n s" and "op \<in> set ops"
  shows "operator_ok op v (Suc n) s'"
proof -
  have frame: "operator_ok op v m z \<Longrightarrow> operator_ok op v m z'"
    if "fold_outcome (update_operator (Suc n) t) xs z = Inr z'" "op \<notin> set xs" for xs z z' m
    using that
    by (induction xs arbitrary: z) (auto simp: bindr_Inr_iff dest: update_operator_frame operator_ok_frame [rotated -1])
  show ?thesis
    using assms
  proof (induction ops arbitrary: s)
    case (Cons x xs)
    then obtain s1 where s1: "update_operator (Suc n) t x s = Inr s1" "fold_outcome (update_operator (Suc n) t) xs s1 = Inr s'"
      by (auto simp: bindr_Inr_iff)
    have same: "same_but x s s1" by (rule update_operator_frame [OF s1(1)])
    show ?case
    proof (cases "x = op")
      case True
      then have "operator_ok op v (Suc n) s1" using update_operator_correct Cons.prems s1(1) by blast
      then show ?thesis using frame [OF s1(2)] True Cons.prems(2) by simp
    next
      case False
      then have "operator_ok op v n s1" using operator_ok_frame [OF same] Cons.prems by blast
      moreover have "st_curValue s1 = v (Suc n)" using same Cons.prems(3) by (simp add: same_but_def)
      ultimately show ?thesis using Cons.IH [OF s1(2)] False Cons.prems by simp
    qed
  qed simp
qed

lemma fold_update_frame:
  "fold_outcome (update_operator n t) ops s = Inr s' \<Longrightarrow>
     st_curValue s' = st_curValue s \<and> st_requestCounts s' = st_requestCounts s \<and>
     (\<forall>op i. i \<noteq> HUNDRED_MILLISECONDS \<longrightarrow> st_times s' op i = st_times s op i)"
proof (induction ops arbitrary: s)
  case (Cons x xs)
  then obtain s1 where s1: "update_operator n t x s = Inr s1" "fold_outcome (update_operator n t) xs s1 = Inr s'"
    by (auto simp: bindr_Inr_iff)
  have "st_times s1 op i = st_times s op i" if "i \<noteq> HUNDRED_MILLISECONDS" for op i
    using update_operator_frame [OF s1(1)] that by (cases "op = x") (simp_all add: same_but_def)
  then show ?case using Cons.IH [OF s1(2)] update_operator_frame [OF s1(1)] by (simp add: same_but_def)
qed simp

lemma fold_update_ids:
  "fold_outcome (update_operator n t) ops s = Inr s' \<Longrightarrow> st_ontologyId s' = st_ontologyId s \<and> st_topologyId s' = st_topologyId s"
  by (induction ops arbitrary: s) (auto simp: bindr_Inr_iff same_but_def dest!: update_operator_frame)

lemma statistic_update_correct:
  assumes upd: "statistic_update t s = Inr s'" and ok: "operator_ok op v n s" and idx: "st_lastIndex s = n" "Suc n < 2 ^ 64"
    and cur: "st_curValue s = v (Suc n)" "vd_type (v (Suc n)) \<noteq> INVALID"
  shows "operator_ok op v (Suc n) s' \<and> st_lastIndex s' = Suc n"
proof -
  obtain s1 where s1: "fold_outcome (update_operator (Suc n) t) (rev reduce_operators) (s \<lparr>st_lastTimestamp := t\<rparr>) = Inr s1"
    and s': "s' = s1 \<lparr>st_lastIndex := Suc n\<rparr>"
    using upd idx by (auto simp: statistic_update_def Let_def bindr_Inr_iff)
  have ops: "distinct (rev reduce_operators)" "op \<in> set (rev reduce_operators)"
    by (cases op; simp add: reduce_operators_def)+
  have "operator_ok op v n (s \<lparr>st_lastTimestamp := t\<rparr>)" using ok by (simp add: operator_ok_def)
  from update_operators_correct [OF s1 ops(1) _ cur(2) this ops(2)] cur(1)
  show ?thesis by (simp add: s' operator_ok_def)
qed

section \<open>A run of updates\<close>

text \<open>The plugin writes the value, then the collector calls \<open>update\<close>.\<close>

fun statistic_run :: "(StatisticsValue \<times> u64) list \<Rightarrow> Statistic \<Rightarrow> Statistic outcome" where
  "statistic_run [] s = Inr s"
| "statistic_run ((x, t) # xs) s = bindr (statistic_update t (s \<lparr>st_curValue := x\<rparr>)) (statistic_run xs)"

lemma statistic_run_correct:
  assumes "statistic_run xs s = Inr s'" and "operator_ok op v n s" and "st_lastIndex s = n" and "n + length xs < 2 ^ 64"
    and "\<And>k. k < length xs \<Longrightarrow> fst (xs ! k) = v (Suc (n + k)) \<and> vd_type (v (Suc (n + k))) \<noteq> INVALID"
  shows "operator_ok op v (n + length xs) s' \<and> st_lastIndex s' = n + length xs"
  using assms
proof (induction xs arbitrary: s n)
  case (Cons xt xs)
  obtain x t where xt: "xt = (x, t)" by (cases xt)
  obtain s1 where s1: "statistic_update t (s \<lparr>st_curValue := x\<rparr>) = Inr s1" "statistic_run xs s1 = Inr s'"
    using Cons.prems(1) xt by (auto simp: bindr_Inr_iff)
  have x: "x = v (Suc n)" "vd_type (v (Suc n)) \<noteq> INVALID" using Cons.prems(5) [of 0] xt by simp_all
  have "operator_ok op v n (s \<lparr>st_curValue := x\<rparr>)" using Cons.prems(2) by (simp add: operator_ok_def)
  then have ok1: "operator_ok op v (Suc n) s1 \<and> st_lastIndex s1 = Suc n"
    using statistic_update_correct [OF s1(1)] x Cons.prems(3,4) by simp
  have "fst (xs ! k) = v (Suc (Suc n + k)) \<and> vd_type (v (Suc (Suc n + k))) \<noteq> INVALID" if "k < length xs" for k
    using Cons.prems(5) [of "Suc k"] that by simp
  then show ?case using Cons.IH [OF s1(2), of "Suc n"] ok1 Cons.prems(4) by simp
qed simp

lemma Statistic_new_ok:
  "st_requestCounts s op \<noteq> 0 \<Longrightarrow> st_history s = st_history (Statistic_new x a b j t) \<Longrightarrow> operator_ok op v 0 s"
  by (simp add: operator_ok_def ring_ok_early Statistic_new_def)

section \<open>Unsigned values: updates always succeed\<close>

definition is_u64 :: "StatisticsValue \<Rightarrow> bool" where
  "is_u64 x \<longleftrightarrow> vd_type x = UINT64"

lemma is_u64_iff: "is_u64 x \<longleftrightarrow> (\<exists>w. x = VUint64 w)"
  by (cases x) (auto simp: is_u64_def)

lemma fold_outcome_total:
  assumes "\<And>x r. x \<in> set xs \<Longrightarrow> is_u64 r \<Longrightarrow> \<exists>y. f x r = Inr y \<and> is_u64 y"
  shows "is_u64 r \<Longrightarrow> \<exists>y. fold_outcome f xs r = Inr y \<and> is_u64 y"
  using assms
proof (induction xs arbitrary: r)
  case (Cons x xs)
  then obtain y where "f x r = Inr y" "is_u64 y" by (meson list.set_intros(1))
  then show ?case using Cons.IH [of y] Cons.prems by simp
qed auto

lemma reduce_values_total:
  assumes "is_u64 cur" and "\<forall>x \<in> set vals. is_u64 x" and "vals \<noteq> []" and "length vals < 2 ^ 64"
  shows "\<exists>y. reduce_values op cur vals = Inr y \<and> is_u64 y"
proof -
  obtain w where cur: "cur = VUint64 w" using assms(1) by (auto simp: is_u64_iff)
  have add: "\<exists>y. fold_outcome (\<lambda>v result. vd_add result v) vals (VUint64 a) = Inr y \<and> is_u64 y" for a
    by (rule fold_outcome_total) (use assms(2) in \<open>auto simp: is_u64_iff vd_add_def\<close>)
  have lt: "\<exists>y. fold_outcome (\<lambda>v result. bindr (vd_lt v result) (\<lambda>b. Inr (if b then v else result))) vals (VUint64 a) = Inr y \<and> is_u64 y"
    and gt: "\<exists>y. fold_outcome (\<lambda>v result. bindr (vd_lt result v) (\<lambda>b. Inr (if b then v else result))) vals (VUint64 a) = Inr y \<and> is_u64 y" for a
    by (rule fold_outcome_total; use assms(2) in \<open>auto simp: is_u64_iff vd_lt_def\<close>)+
  have nz: "(of_nat (length vals) :: u64) \<noteq> 0"
  proof -
    have "unat (of_nat (length vals) :: u64) = length vals" using assms(4) by (simp add: unat_of_nat)
    then show ?thesis using assms(3) by auto
  qed
  show ?thesis
    using add [of 0] lt [of "- 1"] gt [of 0] nz
    by (cases op) (auto simp: reduce_values_def cur is_u64_iff)
qed

definition u64_history :: "Statistic \<Rightarrow> StatisticsReduceOperator \<Rightarrow> bool" where
  "u64_history s op \<longleftrightarrow> (\<forall>i j. is_u64 (st_history s op i j)) \<or> (\<forall>i j. st_history s op i j = VInvalid)"

lemma aggregate_loop_total:
  assumes "is_u64 (st_curValue s)" and "\<forall>i j. is_u64 (st_history s op i j)" and "\<forall>i \<in> set is. 0 < i \<and> i < 5"
  shows "\<exists>s'. aggregate_loop op n is s = Inr s' \<and> (\<forall>i j. is_u64 (st_history s' op i j))"
  using assms
proof (induction "is" arbitrary: s)
  case (Cons i js)
  have i: "0 < i" "i < 5" "i - 1 < 5" using Cons.prems(3) by auto
  have p: "0 < increment i div increment (i - 1)" "increment i div increment (i - 1) \<le> 10"
    using increment_step [OF i(1,2)] by (auto simp: period_def)
  have "\<exists>y. inferValue op i k s = Inr y \<and> is_u64 y" for k
    using i p Cons.prems(1,2)
    by (simp add: inferValue_def measurementIncrement_increment) (rule reduce_values_total; simp)
  then obtain y where y: "inferValue op i (n div increment (i - 1)) s = Inr y" "is_u64 y" by blast
  let ?s = "put_history op i (wrapIndex (n div increment i)) y s"
  have "\<exists>s'. aggregate_loop op n js ?s = Inr s' \<and> (\<forall>i j. is_u64 (st_history s' op i j))"
    using Cons.prems y(2) by (intro Cons.IH) (auto simp: put_history_def)
  then show ?case using i y(1) Cons.prems(2) by (auto simp: measurementIncrement_increment)
qed auto

lemma update_operator_total:
  assumes "is_u64 (st_curValue s)" and "\<forall>op. u64_history s op"
  shows "\<exists>s'. update_operator n t op s = Inr s' \<and> (\<forall>op. u64_history s' op) \<and> st_curValue s' = st_curValue s"
proof (cases "st_requestCounts s op = 0")
  case True
  then show ?thesis using assms by (simp add: update_operator_def)
next
  case False
  define s1 where "s1 = init_history op n s"
  define s3 where "s3 = (let s2 = put_history op 0 (wrapIndex n) (st_curValue s1) s1 in
     s2 \<lparr>st_times := (st_times s2)(op := (st_times s2 op)(0 := (st_times s2 op 0)(wrapIndex n := t)))\<rparr>)"
  have cur: "st_curValue s1 = st_curValue s" "st_curValue s3 = st_curValue s"
    by (simp_all add: s1_def s3_def init_history_def Let_def)
  have "\<forall>i j. is_u64 (st_history s1 op i j)"
  proof (cases "vd_type (st_history s op 0 (wrapIndex n)) = INVALID")
    case True
    then show ?thesis using assms(1) by (simp add: s1_def init_history_def)
  next
    case False
    then have "\<forall>i j. is_u64 (st_history s op i j)"
      using assms(2) unfolding u64_history_def by (metis vd_type.simps(8))
    then show ?thesis using False by (simp add: s1_def init_history_def)
  qed
  then have "\<forall>i j. is_u64 (st_history s3 op i j)"
    using assms(1) cur by (auto simp: s3_def put_history_def Let_def)
  then obtain s' where s': "aggregate_loop op n [1 ..< 5] s3 = Inr s'" "\<forall>i j. is_u64 (st_history s' op i j)"
    using aggregate_loop_total [of s3 op "[1 ..< 5]" n] assms(1) cur by auto
  have upd: "update_operator n t op s = Inr s'"
    using False s'(1) by (simp add: update_operator_def Let_def s1_def s3_def)
  have "u64_history s' op'" for op'
    using s'(2) assms(2) update_operator_frame [OF upd] by (cases "op' = op") (auto simp: u64_history_def same_but_def)
  then show ?thesis using upd update_operator_frame [OF upd] by (auto simp: same_but_def)
qed

lemma update_operators_total:
  "is_u64 (st_curValue s) \<Longrightarrow> \<forall>op. u64_history s op \<Longrightarrow>
     \<exists>s'. fold_outcome (update_operator n t) ops s = Inr s' \<and> (\<forall>op. u64_history s' op)"
proof (induction ops arbitrary: s)
  case (Cons x xs)
  then obtain s1 where "update_operator n t x s = Inr s1" "\<forall>op. u64_history s1 op" "st_curValue s1 = st_curValue s"
    using update_operator_total by blast
  then show ?case using Cons.IH [of s1] Cons.prems by simp
qed simp

lemma statistic_run_total:
  "\<forall>op. u64_history s op \<Longrightarrow> \<forall>x \<in> set xs. is_u64 (fst x) \<Longrightarrow> \<exists>s'. statistic_run xs s = Inr s'"
proof (induction xs arbitrary: s)
  case (Cons xt xs)
  obtain x t where xt: "xt = (x, t)" by (cases xt)
  let ?s = "s \<lparr>st_curValue := x, st_lastTimestamp := t\<rparr>"
  have "\<forall>op. u64_history ?s op" "is_u64 (st_curValue ?s)" using Cons.prems xt by (auto simp: u64_history_def)
  then obtain s1 where s1: "fold_outcome (update_operator ((st_lastIndex s + 1) mod 2 ^ 64) t) (rev reduce_operators) ?s = Inr s1"
    "\<forall>op. u64_history s1 op" using update_operators_total by blast
  let ?s1 = "s1 \<lparr>st_lastIndex := (st_lastIndex s + 1) mod 2 ^ 64\<rparr>"
  have "\<forall>op. u64_history ?s1 op" using s1(2) by (simp add: u64_history_def)
  then show ?case using Cons.IH [of ?s1] Cons.prems s1(1) xt by (simp add: statistic_update_def Let_def)
qed simp

section \<open>Sums of unsigned values\<close>

lemma concat_intervals:
  "a \<le> b \<Longrightarrow> concat (map (\<lambda>j. [Suc ((j - 1) * c) ..< Suc (j * c)]) [Suc a ..< Suc b]) = [Suc (a * c) ..< Suc (b * c)]"
proof (induction b)
  case (Suc b)
  show ?case
  proof (cases "a = Suc b")
    case False
    then have "a \<le> b" using Suc.prems by simp
    then have "[Suc a ..< Suc (Suc b)] = [Suc a ..< Suc b] @ [Suc b]" by simp
    moreover have "[Suc (a * c) ..< Suc (b * c)] @ [Suc (b * c) ..< Suc (Suc b * c)] = [Suc (a * c) ..< Suc (Suc b * c)]"
      using \<open>a \<le> b\<close> by (metis Suc_le_mono le_add2 mult_Suc mult_le_mono1 upt_add_eq_append le_add_diff_inverse)
    ultimately show ?thesis using Suc.IH [OF \<open>a \<le> b\<close>] by (simp del: upt_Suc)
  qed simp
qed simp

lemma fold_add_u64:
  "fold_outcome (\<lambda>v result. vd_add result v) (map VUint64 ws) (VUint64 a) = Inr (VUint64 (a + sum_list ws))"
  by (induction ws arbitrary: a) (simp_all add: vd_add_def add.assoc)

lemma sum_list_parts: "sum_list (map w (concat xss)) = sum_list (map (\<lambda>xs. sum_list (map w xs)) xss)"
  for w :: "nat \<Rightarrow> u64"
  by (induction xss) simp_all

lemma interval_value_sum:
  "i < 5 \<Longrightarrow> (\<And>n. v n = VUint64 (w n)) \<Longrightarrow> 0 < m \<Longrightarrow>
     interval_value OP_SUM v i m = Inr (VUint64 (sum_list (map w [Suc ((m - 1) * increment i) ..< Suc (m * increment i)])))"
proof (induction i arbitrary: m)
  case 0
  then show ?case by (simp add: increment_def)
next
  case (Suc i)
  let ?p = "period (Suc i)" and ?c = "increment i"
  let ?js = "[Suc ((m - 1) * ?p) ..< Suc (m * ?p)]"
  let ?part = "\<lambda>j. sum_list (map w [Suc ((j - 1) * ?c) ..< Suc (j * ?c)])"
  have "map_outcome (interval_value OP_SUM v i) ?js = Inr (map (\<lambda>j. VUint64 (?part j)) ?js)"
  proof (rule map_outcome_Inr)
    fix j assume "j \<in> set ?js"
    then show "interval_value OP_SUM v i j = Inr (VUint64 (?part j))"
      using Suc.prems(1) by (intro Suc.IH Suc.prems(2)) (auto simp del: upt_Suc)
  qed
  then have "interval_value OP_SUM v (Suc i) m = reduce_values OP_SUM (VUint64 (w (m * increment (Suc i)))) (map VUint64 (map ?part ?js))"
    using Suc.prems(2) by (simp add: comp_def del: upt_Suc)
  also have "\<dots> = Inr (VUint64 (sum_list (map ?part ?js)))" by (simp add: reduce_values_def fold_add_u64 del: upt_Suc map_map)
  also have "sum_list (map ?part ?js) = sum_list (map w (concat (map (\<lambda>j. [Suc ((j - 1) * ?c) ..< Suc (j * ?c)]) ?js)))"
    by (simp add: sum_list_parts comp_def del: upt_Suc)
  also have "concat (map (\<lambda>j. [Suc ((j - 1) * ?c) ..< Suc (j * ?c)]) ?js) = [Suc ((m - 1) * ?p * ?c) ..< Suc (m * ?p * ?c)]"
    by (rule concat_intervals) (simp add: mult_le_mono)
  finally show ?case using increment_Suc [OF Suc.prems(1)] by (simp add: ac_simps del: upt_Suc)
qed

section \<open>Properties\<close>

text \<open>
  C2 (equivalence): the histories are right. Request a reduction of a new statistic and update it
  with any values. If every update returned, then for each interval length with a complete
  interval the rolling value is the reference value of the last complete interval, and from ten
  complete intervals on the historic values are the reference values of the last ten, oldest
  first.
\<close>

theorem statistic_history_exact:
  assumes run: "statistic_run xs (requestReduction op (Statistic_new x0 attr topo junk t0)) = Inr s"
    and valid: "\<forall>x \<in> set xs. vd_type (fst x) \<noteq> INVALID" and len: "length xs < 2 ^ 64" and i: "i < INTERVALLS_NUMBER"
  shows "let v = (\<lambda>n. fst (xs ! (n - 1))); k = length xs div increment i in
    (0 < k \<longrightarrow> getRollingValue op i s = interval_value op v i k) \<and>
    (10 \<le> k \<longrightarrow> (\<exists>vals times. getHistoricValues op i s = Inr (vals, times) \<and>
       map_outcome (interval_value op v i) [k - 9 ..< Suc k] = Inr vals))"
proof -
  let ?v = "\<lambda>n. fst (xs ! (n - 1))" and ?k = "length xs div increment i"
  have "operator_ok op ?v 0 (requestReduction op (Statistic_new x0 attr topo junk t0))"
    by (rule Statistic_new_ok) (simp_all add: requestReduction_def Statistic_new_def)
  then have ok: "operator_ok op ?v (length xs) s" "st_lastIndex s = length xs"
    using statistic_run_correct [OF run, of op ?v 0] len valid
    by (auto simp: requestReduction_def Statistic_new_def)
  have at: "interval_value op ?v i m = Inr (st_history s op i (wrapIndex m))" if "0 < m" "m \<le> ?k" "?k < m + 11" for m
    using ok(1) i that unfolding operator_ok_def ring_ok_def by blast
  have "getRollingValue op i s = interval_value op ?v i ?k" if "0 < ?k"
    using at [of ?k] that i by (simp add: getRollingValue_def measurementIncrement_increment ok(2))
  moreover have "map_outcome (interval_value op ?v i) [?k - 9 ..< Suc ?k] =
      Inr (map (\<lambda>j. st_history s op i (wrapIndex (?k + j + 2))) [0 ..< 10])" if "10 \<le> ?k"
  proof -
    have "wrapIndex (?k + j + 2) = wrapIndex (?k - 9 + j)" if "j < 10" for j
    proof -
      have "?k + j + 2 = ?k - 9 + j + 11" using \<open>10 \<le> ?k\<close> by simp
      then show ?thesis by (simp only: wrapIndex_def) (metis mod_add_self2)
    qed
    then have "map (\<lambda>j. st_history s op i (wrapIndex (?k + j + 2))) [0 ..< 10] =
        map (\<lambda>m. st_history s op i (wrapIndex m)) [?k - 9 ..< Suc ?k]"
      using \<open>10 \<le> ?k\<close> by (intro nth_equalityI) (simp_all del: upt_Suc)
    then show ?thesis using that at by (subst map_outcome_Inr [of _ _ "\<lambda>m. st_history s op i (wrapIndex m)"]) (auto simp del: upt_Suc)
  qed
  ultimately show ?thesis
    using i by (auto simp: Let_def getHistoricValues_def measurementIncrement_increment ok(2) simp del: upt_Suc)
qed

definition sample_values :: "(StatisticsValue \<times> u64) list" where
  "sample_values = map (\<lambda>n. (VUint64 (of_nat n), of_nat (100 * n))) [1 ..< 24]"

definition sample_statistic :: Statistic where
  "sample_statistic = Statistic_new (VUint64 0) 3 4 (\<lambda>_ _ _. 0) 0"

theorem statistic_history_exact_witness:
  "\<exists>s. statistic_run sample_values (requestReduction OP_SUM sample_statistic) = Inr s \<and>
     getRollingValue OP_SUM SECOND s = interval_value OP_SUM (\<lambda>n. fst (sample_values ! (n - 1))) SECOND 2"
proof -
  have "\<forall>op. u64_history (requestReduction OP_SUM sample_statistic) op" "\<forall>x \<in> set sample_values. is_u64 (fst x)"
    by (auto simp: u64_history_def requestReduction_def sample_statistic_def Statistic_new_def sample_values_def is_u64_def)
  then obtain s where s: "statistic_run sample_values (requestReduction OP_SUM sample_statistic) = Inr s"
    using statistic_run_total by blast
  moreover have "\<forall>x \<in> set sample_values. vd_type (fst x) \<noteq> INVALID" "length sample_values = 23"
    by (auto simp: sample_values_def)
  ultimately show ?thesis
    using statistic_history_exact [of sample_values OP_SUM "VUint64 0" 3 4 "\<lambda>_ _ _. 0" 0 s SECOND]
    by (auto simp: sample_statistic_def increment_def Let_def)
qed

text \<open>
  Sums of unsigned counters. With values of type \<open>uint64_t\<close> no update fails,
  whatever operators are requested, and the rolling sum of an interval length is the sum, modulo
  2^64, of the values measured in the last complete interval.
\<close>

theorem statistic_sum_of_interval:
  assumes len: "length ws < 2 ^ 64" and i: "i < INTERVALLS_NUMBER"
  shows "\<exists>s. statistic_run (map (\<lambda>w. (VUint64 w, t)) ws) (requestReduction OP_SUM (Statistic_new x0 attr topo junk t0)) = Inr s \<and>
    (let k = length ws div increment i in 0 < k \<longrightarrow>
       getRollingValue OP_SUM i s = Inr (VUint64 (sum_list (take (increment i) (drop ((k - 1) * increment i) ws)))))"
proof -
  let ?xs = "map (\<lambda>w. (VUint64 w, t)) ws" and ?s0 = "requestReduction OP_SUM (Statistic_new x0 attr topo junk t0)"
  let ?k = "length ws div increment i" and ?v = "\<lambda>n. VUint64 ((0 # ws) ! n)"
  have "\<forall>op. u64_history ?s0 op" "\<forall>x \<in> set ?xs. is_u64 (fst x)"
    by (auto simp: u64_history_def requestReduction_def Statistic_new_def is_u64_def)
  then obtain s where s: "statistic_run ?xs ?s0 = Inr s" using statistic_run_total by blast
  have "operator_ok OP_SUM ?v 0 ?s0" by (rule Statistic_new_ok) (simp_all add: requestReduction_def Statistic_new_def)
  then have ok: "operator_ok OP_SUM ?v (length ws) s" "st_lastIndex s = length ws"
    using statistic_run_correct [OF s, of OP_SUM ?v 0] len by (auto simp: requestReduction_def Statistic_new_def)
  have "getRollingValue OP_SUM i s = Inr (VUint64 (sum_list (take (increment i) (drop ((?k - 1) * increment i) ws))))" if k: "0 < ?k"
  proof -
    have "interval_value OP_SUM ?v i ?k = Inr (st_history s OP_SUM i (wrapIndex ?k))"
      using ok(1) i k unfolding operator_ok_def ring_ok_def by simp
    moreover have "map (\<lambda>n. (0 # ws) ! n) [Suc ((?k - 1) * increment i) ..< Suc (?k * increment i)] =
        take (increment i) (drop ((?k - 1) * increment i) ws)"
    proof -
      have "?k * increment i \<le> length ws" by (simp add: mult.commute)
      moreover have "?k * increment i = (?k - 1) * increment i + increment i" using k by (cases ?k) auto
      ultimately show ?thesis by (intro nth_equalityI) (auto simp del: upt_Suc)
    qed
    ultimately show ?thesis
      using interval_value_sum [OF i, of ?v "\<lambda>n. (0 # ws) ! n" ?k] k i
      by (simp add: getRollingValue_def measurementIncrement_increment ok(2) del: upt_Suc)
  qed
  then show ?thesis using s by (auto simp: Let_def)
qed

theorem statistic_sum_of_interval_witness:
  "\<exists>s. statistic_run (map (\<lambda>w. (VUint64 w, 7)) [1, 2, 3, 4, 5, 6, 7, 8, 9, 10, 11]) (requestReduction OP_SUM sample_statistic) = Inr s \<and>
     getRollingValue OP_SUM SECOND s = Inr (VUint64 55)"
  using statistic_sum_of_interval [of "[1, 2, 3, 4, 5, 6, 7, 8, 9, 10, 11]" SECOND 7 "VUint64 0" 3 4 "\<lambda>_ _ _. 0" 0]
  by (auto simp: sample_statistic_def increment_def Let_def)

text \<open>
  The time stamps of the longer intervals are never written. Whatever updates are made,
  \<open>getHistoricValues\<close> returns for every interval but the shortest the uninitialised memory that the
  constructor left.
\<close>

theorem statistic_times_unset:
  assumes "statistic_run xs s = Inr s'" and "0 < i"
  shows "st_times s' op i = st_times s op i"
  using assms(1)
proof (induction xs arbitrary: s)
  case (Cons xt xs)
  obtain x t where xt: "xt = (x, t)" by (cases xt)
  obtain s1 s2 where s1: "fold_outcome (update_operator ((st_lastIndex s + 1) mod 2 ^ 64) t) (rev reduce_operators)
      (s \<lparr>st_curValue := x, st_lastTimestamp := t\<rparr>) = Inr s1"
    and "s2 = s1 \<lparr>st_lastIndex := (st_lastIndex s + 1) mod 2 ^ 64\<rparr>" "statistic_run xs s2 = Inr s'"
    using Cons.prems xt by (auto simp: statistic_update_def Let_def bindr_Inr_iff)
  then have "st_times s' op i = st_times s1 op i" using Cons.IH [of s2] by simp
  also have "\<dots> = st_times s op i" using fold_update_frame [OF s1] assms(2) by simp
  finally show ?case .
qed simp

theorem statistic_times_unset_witness:
  "\<exists>s. statistic_run sample_values sample_statistic = Inr s \<and> st_times s OP_SUM SECOND 2 = 0"
proof -
  have "\<forall>op. u64_history sample_statistic op" "\<forall>x \<in> set sample_values. is_u64 (fst x)"
    by (auto simp: u64_history_def sample_statistic_def Statistic_new_def sample_values_def is_u64_def)
  then obtain s where s: "statistic_run sample_values sample_statistic = Inr s" using statistic_run_total by blast
  then show ?thesis using statistic_times_unset [OF s, of SECOND OP_SUM] by (simp add: sample_statistic_def Statistic_new_def)
qed

text \<open>
  An incremental counter that runs from \<open>minValue\<close> to \<open>maxValue\<close> and starts over is turned
  into its increments. If it advanced by \<open>d\<close> steps, fewer than a full round, the gauge is \<open>d\<close>, also
  when the range is all of \<open>uint64_t\<close>.
\<close>

theorem incremental_gauge_exact:
  assumes "minV \<le> lastV" and "lastV \<le> maxV" and "minV \<le> newV" and "newV \<le> maxV"
    and "d < unat maxV - unat minV + 1"
    and "unat newV = unat minV + (unat lastV - unat minV + d) mod (unat maxV - unat minV + 1)"
  shows "unat (gauge_of minV maxV lastV newV) = d"
proof -
  let ?R = "unat maxV - unat minV + 1" and ?l = "unat lastV - unat minV"
  have o: "unat minV \<le> unat lastV" "unat lastV \<le> unat maxV" "unat minV \<le> unat newV" "unat newV \<le> unat maxV"
    using assms(1-4) by (simp_all add: word_le_nat_alt)
  have b: "unat maxV < 2 ^ 64" "d < 2 ^ 64" using unsigned_less [of maxV, where 'a = nat] assms(5) by simp_all
  show ?thesis
  proof (cases "?l + d < ?R")
    case True
    then have "unat newV = unat lastV + d" using assms(6) o by simp
    then show ?thesis by (simp add: gauge_of_def word_less_nat_alt unat_sub_if')
  next
    case False
    have "(?l + d) mod ?R = ?l + d - ?R"
      using False assms(5) o by (simp add: le_mod_geq mod_if)
    then have new: "unat newV + ?R = unat lastV + d" using assms(6) o False by simp
    then have less: "newV < lastV" using assms(5) by (simp add: word_less_nat_alt)
    have "(of_nat d :: u64) = of_nat (unat newV + ?R) - of_nat (unat lastV)" using new by simp
    also have "(of_nat (unat newV + ?R) :: u64) = newV + (maxV - minV + 1)"
      using o by (simp add: of_nat_diff)
    finally have "gauge_of minV maxV lastV newV = of_nat d" using less by (simp add: gauge_of_def algebra_simps)
    then show ?thesis using b by (simp add: unat_of_nat)
  qed
qed

theorem incremental_gauge_exact_witness: "unat (gauge_of 10 20 18 12) = 5"
  using incremental_gauge_exact [of 10 18 20 12 5] by simp

end
