(* ===== verification/Statistics_Collector.thy ===== *)
theory Statistics_Collector
  imports Statistics_History Ram_Topology File_Ontology
begin

text \<open>
  The collector that polls the statistics ten times per second
  (\<open>monitoring/statistics/collector/ThreadedStatisticsCollector.cpp\<close>), the collections of values
  that consumers read (\<open>StatisticsCollection.cpp\<close>) and the multiplexer that notifies the listeners
  (\<open>monitoring/statistics/multiplexer/StatisticsMultiplexerSync.cpp\<close>).

  The collector is a client of the topology and of the ontology: their operations are parameters
  of its definitions. The variables that the plugins write, the statistics and the collections
  are reached through references, so they live in stores indexed by addresses.
\<close>

section \<open>Metrics and statistics\<close>

datatype StatisticIntervalType = GAUGE | INCREMENTAL | SAMPLED

record StatisticsProviderDatatypes =
  mp_metrics :: string
  mp_topologyPath :: string
  mp_value :: nat
  mp_intervalType :: StatisticIntervalType
  mp_overflow_max_value :: u64
  mp_overflow_next_value :: u64

definition kStatisticsDomain :: string where
  "kStatisticsDomain = ''statistics''"

text \<open>A statistic with the address of the variable it reads.\<close>

datatype statistic_object =
    Plain (so_value: nat) Statistic
  | Incremental (so_value: nat) IncrementalStatistic

fun so_statistic :: "statistic_object \<Rightarrow> Statistic" where
  "so_statistic (Plain _ s) = s"
| "so_statistic (Incremental _ s) = is_base s"

definition so_key :: "statistic_object \<Rightarrow> OntologyAttributeID \<times> TopologyObjectId" where
  "so_key x = (st_ontologyId (so_statistic x), st_topologyId (so_statistic x))"

text \<open>\<open>curValue\<close> is a reference: to the plugin's variable, or to the gauge of an incremental statistic.\<close>

fun so_curValue :: "(nat \<Rightarrow> StatisticsValue) \<Rightarrow> statistic_object \<Rightarrow> StatisticsValue" where
  "so_curValue vars (Plain v _) = vars v"
| "so_curValue vars (Incremental _ s) = st_curValue (is_base s)"

fun so_update :: "u64 \<Rightarrow> (nat \<Rightarrow> StatisticsValue) \<Rightarrow> statistic_object \<Rightarrow> statistic_object outcome" where
  "so_update time vars (Plain v s) = bindr (statistic_update time (s \<lparr>st_curValue := vars v\<rparr>)) (\<lambda>s'. Inr (Plain v s'))"
| "so_update time vars (Incremental v s) =
     bindr (incremental_update time (s \<lparr>is_incrementalValue := vars v\<rparr>)) (\<lambda>s'. Inr (Incremental v s'))"

section \<open>Collections\<close>

text \<open>Entries of the array of statistics are null until the constructor copies them.\<close>

record StatisticsCollection =
  sc_statistics :: "nat option list"
  sc_communicationBuffer :: "StatisticsValue list option"
  sc_readBuffer :: "StatisticsValue list option"

definition StatisticsCollection_new :: "(nat \<Rightarrow> StatisticsValue) \<Rightarrow> nat list \<Rightarrow> bool \<Rightarrow> StatisticsCollection" where
  "StatisticsCollection_new cur statisticsArray threadSafe =
     (if threadSafe
      then \<lparr>sc_statistics = map Some statisticsArray, sc_communicationBuffer = Some (map cur statisticsArray),
            sc_readBuffer = Some (map cur statisticsArray)\<rparr>
      else \<lparr>sc_statistics = replicate (length statisticsArray) None, sc_communicationBuffer = None, sc_readBuffer = None\<rparr>)"

definition pushValues :: "(nat \<Rightarrow> StatisticsValue) \<Rightarrow> StatisticsCollection \<Rightarrow> StatisticsCollection outcome" where
  "pushValues cur sc =
     (case sc_communicationBuffer sc of
        None \<Rightarrow> Inr sc
      | Some _ \<Rightarrow>
          if None \<in> set (sc_statistics sc) then Inl (Undefined ''null pointer'')
          else Inr (sc \<lparr>sc_communicationBuffer := Some (map (\<lambda>a. cur (the a)) (sc_statistics sc))\<rparr>))"

definition fetchValues :: "StatisticsCollection \<Rightarrow> StatisticsCollection" where
  "fetchValues sc =
     (case sc_communicationBuffer sc of None \<Rightarrow> sc | Some vs \<Rightarrow> sc \<lparr>sc_readBuffer := Some vs\<rparr>)"

definition collection_nth :: "StatisticsCollection \<Rightarrow> nat \<Rightarrow> StatisticsValue outcome" where
  "collection_nth sc i =
     (case sc_readBuffer sc of
        None \<Rightarrow> Inl (Undefined ''null pointer'')
      | Some vs \<Rightarrow> if i < length vs then Inr (vs ! i) else Inl (Undefined ''index out of range''))"

section \<open>The collector\<close>

record ('t, 'o) ThreadedStatisticsCollector =
  tc_topology :: 't
  tc_aliases :: aliases
  tc_ontology :: 'o
  tc_plugins :: "nat list"
  tc_collections :: "nat list"
  tc_statistics :: "nat list"
  tc_pluginPerStatistics :: "nat list"
  tc_index :: "OntologyAttributeID \<times> TopologyObjectId \<rightharpoonup> nat option"
  tc_statisticsAdded :: bool
  tc_statisticsRemoved :: bool
  tc_run_timesteps :: u64
  tc_process_time :: u64
  tc_objects :: "nat \<rightharpoonup> statistic_object"
  tc_fresh :: nat
  tc_collection_objects :: "nat \<Rightarrow> StatisticsCollection"
  tc_vars :: "nat \<Rightarrow> StatisticsValue"

definition collector_new ::
  "'t \<Rightarrow> aliases \<Rightarrow> 'o \<Rightarrow> (nat \<Rightarrow> StatisticsCollection) \<Rightarrow> (nat \<Rightarrow> StatisticsValue) \<Rightarrow> ('t, 'o) ThreadedStatisticsCollector" where
  "collector_new t al ont cs vars =
     \<lparr>tc_topology = t, tc_aliases = al, tc_ontology = ont, tc_plugins = [], tc_collections = [], tc_statistics = [],
      tc_pluginPerStatistics = [], tc_index = Map.empty, tc_statisticsAdded = True, tc_statisticsRemoved = True,
      tc_run_timesteps = 0, tc_process_time = 0, tc_objects = Map.empty, tc_fresh = 0, tc_collection_objects = cs,
      tc_vars = vars\<rparr>"

text \<open>
  \<open>init\<close> registers the host and makes it known as \<open>@localhost\<close>; a path whose aliases do not end
  does not return.
\<close>

definition collector_init ::
  "'t topology_ops \<Rightarrow> string \<Rightarrow> ('t, 'o) ThreadedStatisticsCollector \<Rightarrow> ('t, 'o) ThreadedStatisticsCollector outcome option" where
  "collector_init V hostname c =
     (let topologyPath = ''host:'' @ hostname
      in case registerObjectByPath V (tc_aliases c) (tc_topology c) topologyPath 0 of
           None \<Rightarrow> None
         | Some (Inl f) \<Rightarrow> Some (Inl f)
         | Some (Inr (None, t)) \<Rightarrow> Some (Inl (Abort ''Can't register the topology path''))
         | Some (Inr (Some _, t)) \<Rightarrow>
             (case setAlias (tc_aliases c) ''@localhost'' topologyPath of
                None \<Rightarrow> None
              | Some (False, _) \<Rightarrow> Some (Inl (Abort ''Inconsistent definitions of topology alias''))
              | Some (True, al) \<Rightarrow> Some (Inr (c \<lparr>tc_topology := t, tc_aliases := al\<rparr>))))"

type_synonym junk = "(StatisticsReduceOperator \<Rightarrow> StatisticsInterval \<Rightarrow> nat \<Rightarrow> u64) \<times> u64"

definition new_object ::
  "junk \<Rightarrow> StatisticsProviderDatatypes \<Rightarrow> StatisticsValue \<Rightarrow> OntologyAttributeID \<Rightarrow> TopologyObjectId \<Rightarrow> statistic_object outcome" where
  "new_object junk m value ontologyId topologyId =
     (if mp_intervalType m = INCREMENTAL
      then bindr (IncrementalStatistic_new value ontologyId topologyId (mp_overflow_next_value m) (mp_overflow_max_value m)
                    (fst junk) (snd junk)) (\<lambda>s. Inr (Incremental (mp_value m) s))
      else Inr (Plain (mp_value m) (Statistic_new value ontologyId topologyId (fst junk) (snd junk))))"

definition add_statistic ::
  "nat \<Rightarrow> statistic_object \<Rightarrow> ('t, 'o) ThreadedStatisticsCollector \<Rightarrow> ('t, 'o) ThreadedStatisticsCollector" where
  "add_statistic plugin x c =
     c \<lparr>tc_objects := (tc_objects c)(tc_fresh c \<mapsto> x), tc_fresh := Suc (tc_fresh c),
        tc_statistics := tc_statistics c @ [tc_fresh c],
        tc_pluginPerStatistics := tc_pluginPerStatistics c @ [plugin],
        tc_index := (tc_index c)(so_key x \<mapsto> Some (tc_fresh c))\<rparr>"

text \<open>
  One metric of a plugin. An exception of the ontology leaves a function declared \<open>throw()\<close> and
  ends the process.
\<close>

definition register_metric ::
  "'t topology_ops \<Rightarrow> ('o \<Rightarrow> string \<Rightarrow> string \<Rightarrow> Type \<Rightarrow> OntologyAttribute result \<times> 'o) \<Rightarrow> junk \<Rightarrow> nat
   \<Rightarrow> StatisticsProviderDatatypes \<Rightarrow> ('t, 'o) ThreadedStatisticsCollector \<Rightarrow> ('t, 'o) ThreadedStatisticsCollector outcome" where
  "register_metric V reg junk plugin m c =
     (let value = tc_vars c (mp_value m)
      in case reg (tc_ontology c) kStatisticsDomain (mp_metrics m) (vd_type value) of
           (Inl e, _) \<Rightarrow> Inl (Abort ''uncaught exception'')
         | (Inr attribute, ont) \<Rightarrow>
             (case registerObjectByPath V (tc_aliases c) (tc_topology c) (mp_topologyPath m) 0 of
                None \<Rightarrow> Inl (Undefined ''endless alias'')
              | Some (Inl f) \<Rightarrow> Inl f
              | Some (Inr (None, t)) \<Rightarrow> Inl (Abort ''Error registering topology path'')
              | Some (Inr (Some device, t)) \<Rightarrow>
                  bindr (new_object junk m value (oa_aID attribute) (to_id device)) (\<lambda>x.
                  Inr (add_statistic plugin x (c \<lparr>tc_ontology := ont, tc_topology := t\<rparr>)))))"

definition registerPlugin ::
  "'t topology_ops \<Rightarrow> ('o \<Rightarrow> string \<Rightarrow> string \<Rightarrow> Type \<Rightarrow> OntologyAttribute result \<times> 'o) \<Rightarrow> junk \<Rightarrow> nat
   \<Rightarrow> StatisticsProviderDatatypes list \<Rightarrow> ('t, 'o) ThreadedStatisticsCollector \<Rightarrow> ('t, 'o) ThreadedStatisticsCollector outcome" where
  "registerPlugin V reg junk plugin metrics c =
     (if plugin \<in> set (tc_plugins c)
      then Inl (Abort ''Statistics Collector Plugins may only be registered with a StatisticsCollector once.'')
      else bindr (fold_outcome (register_metric V reg junk plugin) (rev metrics) (c \<lparr>tc_plugins := tc_plugins c @ [plugin]\<rparr>))
             (\<lambda>c'. Inr (c' \<lparr>tc_statisticsAdded := True\<rparr>)))"

text \<open>The loops that run down from the end and stop at the first hit.\<close>

fun find_down :: "('a \<Rightarrow> bool) \<Rightarrow> 'a list \<Rightarrow> nat \<Rightarrow> nat option" where
  "find_down P xs 0 = None"
| "find_down P xs (Suc i) = (if P (xs ! i) then Some i else find_down P xs i)"

definition erase_at :: "nat \<Rightarrow> 'a list \<Rightarrow> 'a list" where
  "erase_at i xs = take i xs @ drop (Suc i) xs"

definition unregisterPlugin :: "nat \<Rightarrow> ('t, 'o) ThreadedStatisticsCollector \<Rightarrow> ('t, 'o) ThreadedStatisticsCollector" where
  "unregisterPlugin plugin c =
     (let c1 = (case find_down (\<lambda>q. q = plugin) (tc_plugins c) (length (tc_plugins c)) of
                  None \<Rightarrow> c | Some i \<Rightarrow> c \<lparr>tc_plugins := erase_at i (tc_plugins c)\<rparr>);
          c2 = (case find_down (\<lambda>q. q = plugin) (tc_pluginPerStatistics c1) (length (tc_statistics c1)) of
                  None \<Rightarrow> c1
                | Some i \<Rightarrow>
                    (case tc_objects c1 (tc_statistics c1 ! i) of
                       None \<Rightarrow> c1
                     | Some x \<Rightarrow>
                         c1 \<lparr>tc_index := (tc_index c1)(so_key x := None),
                             tc_pluginPerStatistics := erase_at i (tc_pluginPerStatistics c1),
                             tc_statistics := erase_at i (tc_statistics c1)\<rparr>))
      in c2 \<lparr>tc_statisticsRemoved := True\<rparr>)"

definition availableMetrics :: "('t, 'o) ThreadedStatisticsCollector \<Rightarrow> nat list" where
  "availableMetrics c = tc_statistics c"

definition key_at :: "('t, 'o) ThreadedStatisticsCollector \<Rightarrow> nat \<Rightarrow> (OntologyAttributeID \<times> TopologyObjectId) option" where
  "key_at c a = map_option so_key (tc_objects c a)"

definition getStatistic ::
  "'t topology_ops \<Rightarrow> ('o \<Rightarrow> string \<Rightarrow> string \<Rightarrow> OntologyAttribute result) \<Rightarrow> string \<Rightarrow> string
   \<Rightarrow> ('t, 'o) ThreadedStatisticsCollector \<Rightarrow> nat option outcome" where
  "getStatistic V look ontologyAttribute topologyPath c =
     (case lookupObjectByPath V (tc_aliases c) (tc_topology c) topologyPath 0 of
        None \<Rightarrow> Inl (Undefined ''endless alias'')
      | Some (Inl f) \<Rightarrow> Inl f
      | Some (Inr None) \<Rightarrow> Inr None
      | Some (Inr (Some ob)) \<Rightarrow>
          let ontologyId = (case look (tc_ontology c) kStatisticsDomain ontologyAttribute of Inl _ \<Rightarrow> 0 | Inr a \<Rightarrow> oa_aID a)
          in if ontologyId = 0 then Inr None
             else Inr (map_option (\<lambda>i. tc_statistics c ! i)
                    (find_down (\<lambda>a. key_at c a = Some (ontologyId, to_id ob)) (tc_statistics c) (length (tc_statistics c)))))"

definition registerCollection :: "nat \<Rightarrow> ('t, 'o) ThreadedStatisticsCollector \<Rightarrow> ('t, 'o) ThreadedStatisticsCollector outcome" where
  "registerCollection k c =
     (if k \<in> set (tc_collections c)
      then Inl (Abort ''StatisticsCollections may only be registered with a StatisticsCollector once.'')
      else Inr (c \<lparr>tc_collections := tc_collections c @ [k]\<rparr>))"

definition unregisterCollection :: "nat \<Rightarrow> ('t, 'o) ThreadedStatisticsCollector \<Rightarrow> ('t, 'o) ThreadedStatisticsCollector outcome" where
  "unregisterCollection k c =
     (case find_down (\<lambda>q. q = k) (tc_collections c) (length (tc_collections c)) of
        None \<Rightarrow> Inl (Abort ''Couldn't find collection.'')
      | Some i \<Rightarrow> Inr (c \<lparr>tc_collections := erase_at i (tc_collections c)\<rparr>))"

text \<open>\<open>getStatistics\<close> uses \<open>operator[]\<close>, which inserts a null pointer for an unknown key.\<close>

definition getStatistics ::
  "StatisticsReduceOperator \<Rightarrow> StatisticsInterval \<Rightarrow> OntologyAttributeID \<times> TopologyObjectId
   \<Rightarrow> ('t, 'o) ThreadedStatisticsCollector \<Rightarrow> (StatisticsValue list \<times> ('t, 'o) ThreadedStatisticsCollector) outcome" where
  "getStatistics op interval key c =
     (let none = replicate 10 VInvalid
      in case tc_index c key of
           None \<Rightarrow> Inr (none, c \<lparr>tc_index := (tc_index c)(key \<mapsto> None)\<rparr>)
         | Some None \<Rightarrow> Inr (none, c)
         | Some (Some a) \<Rightarrow>
             (case tc_objects c a of
                None \<Rightarrow> Inl (Undefined ''dangling pointer'')
              | Some x \<Rightarrow> bindr (getHistoricValues op interval (so_statistic x)) (\<lambda>(vals, _). Inr (vals, c))))"

definition indexed_statistic ::
  "OntologyAttributeID \<times> TopologyObjectId \<Rightarrow> ('t, 'o) ThreadedStatisticsCollector \<Rightarrow> statistic_object option outcome" where
  "indexed_statistic key c =
     (case tc_index c key of
        None \<Rightarrow> Inr None
      | Some None \<Rightarrow> Inr None
      | Some (Some a) \<Rightarrow> (case tc_objects c a of None \<Rightarrow> Inl (Undefined ''dangling pointer'') | Some x \<Rightarrow> Inr (Some x)))"

definition getRollingStatistics ::
  "StatisticsReduceOperator \<Rightarrow> StatisticsInterval \<Rightarrow> OntologyAttributeID \<times> TopologyObjectId
   \<Rightarrow> ('t, 'o) ThreadedStatisticsCollector \<Rightarrow> StatisticsValue outcome" where
  "getRollingStatistics op interval key c =
     bindr (indexed_statistic key c) (\<lambda>r. case r of None \<Rightarrow> Inr VInvalid | Some x \<Rightarrow> getRollingValue op interval (so_statistic x))"

definition getReducedStatistics ::
  "StatisticsReduceOperator \<Rightarrow> StatisticsInterval \<Rightarrow> OntologyAttributeID \<times> TopologyObjectId
   \<Rightarrow> ('t, 'o) ThreadedStatisticsCollector \<Rightarrow> StatisticsValue outcome" where
  "getReducedStatistics op interval key c =
     bindr (indexed_statistic key c) (\<lambda>r. case r of
       None \<Rightarrow> Inr VInvalid
     | Some x \<Rightarrow> getReducedValue op interval ((so_statistic x) \<lparr>st_curValue := so_curValue (tc_vars c) x\<rparr>))"

section \<open>Polling\<close>

definition update_object ::
  "u64 \<Rightarrow> nat \<Rightarrow> ('t, 'o) ThreadedStatisticsCollector \<Rightarrow> ('t, 'o) ThreadedStatisticsCollector outcome" where
  "update_object time a c =
     (case tc_objects c a of
        None \<Rightarrow> Inl (Undefined ''dangling pointer'')
      | Some x \<Rightarrow> bindr (so_update time (tc_vars c) x) (\<lambda>x'. Inr (c \<lparr>tc_objects := (tc_objects c)(a \<mapsto> x')\<rparr>)))"

definition cur_value :: "('t, 'o) ThreadedStatisticsCollector \<Rightarrow> nat \<Rightarrow> StatisticsValue" where
  "cur_value c a = (case tc_objects c a of None \<Rightarrow> VInvalid | Some x \<Rightarrow> so_curValue (tc_vars c) x)"

definition push_collection ::
  "nat \<Rightarrow> ('t, 'o) ThreadedStatisticsCollector \<Rightarrow> ('t, 'o) ThreadedStatisticsCollector outcome" where
  "push_collection k c =
     bindr (pushValues (cur_value c) (tc_collection_objects c k)) (\<lambda>sc.
     Inr (c \<lparr>tc_collection_objects := (tc_collection_objects c)(k := sc)\<rparr>))"

text \<open>
  One round of \<open>pollingThreadMain\<close> up to the notification: the plugins write their variables
  (\<open>next\<close>), the statistics are updated, the collections filled, the change flags read and reset.
  The second component is the notification about available statistics, if there is one; after it
  \<open>newDataAvailable\<close> is called in any case.
\<close>

definition poll_round ::
  "(nat \<Rightarrow> (nat \<Rightarrow> StatisticsValue) \<Rightarrow> nat \<Rightarrow> StatisticsValue) \<Rightarrow> u64 \<Rightarrow> ('t, 'o) ThreadedStatisticsCollector
   \<Rightarrow> (('t, 'o) ThreadedStatisticsCollector \<times> (nat list \<times> bool \<times> bool) option) outcome" where
  "poll_round next measurementTime c =
     (let c1 = c \<lparr>tc_run_timesteps := tc_run_timesteps c + 1, tc_vars := fold next (rev (tc_plugins c)) (tc_vars c)\<rparr>
      in bindr (fold_outcome (update_object measurementTime) (rev (tc_statistics c1)) c1) (\<lambda>c2.
         bindr (fold_outcome push_collection (rev (tc_collections c2)) c2) (\<lambda>c3.
         let added = tc_statisticsAdded c3; removed = tc_statisticsRemoved c3;
             c4 = c3 \<lparr>tc_statisticsAdded := False, tc_statisticsRemoved := False\<rparr>
         in Inr (c4, if added \<or> removed then Some (tc_statistics c4, added, removed) else None))))"

definition poll_account :: "u64 \<Rightarrow> u64 \<Rightarrow> ('t, 'o) ThreadedStatisticsCollector \<Rightarrow> ('t, 'o) ThreadedStatisticsCollector" where
  "poll_account measurementTime curTime c = c \<lparr>tc_process_time := tc_process_time c + (curTime - measurementTime)\<rparr>"

text \<open>
  The sleep at the end of a round: \<open>clock\<close> lists what \<open>siox_gettime\<close> and \<open>terminated\<close> are after each
  sleep. The thread polls again (\<open>Some True\<close>) when the next poll time has passed, ends
  (\<open>Some False\<close>) when it was told to, and is still asleep (\<open>None\<close>) when the list is used up.
\<close>

fun sleep_loop :: "u64 \<Rightarrow> u64 \<Rightarrow> (u64 \<times> bool) list \<Rightarrow> bool option" where
  "sleep_loop nextPollTime curTime clock =
     (if \<not> curTime \<le> nextPollTime then Some True
      else case clock of
        [] \<Rightarrow> None
      | (t, terminated) # ts \<Rightarrow> if terminated then Some False else sleep_loop nextPollTime t ts)"

section \<open>The multiplexer\<close>

datatype listener_event = AvailableStatisticsChange nat "nat list" bool bool | NewDataAvailable nat

text \<open>\<open>lastStatistics\<close> points to the vector of the collector, so a late listener sees its present content.\<close>

record StatisticsMultiplexerSync =
  sm_listeners :: "nat list"
  sm_lastStatistics :: bool

definition sm_notifyAvailableStatisticsChange ::
  "nat list \<Rightarrow> bool \<Rightarrow> bool \<Rightarrow> StatisticsMultiplexerSync \<Rightarrow> listener_event list \<times> StatisticsMultiplexerSync" where
  "sm_notifyAvailableStatisticsChange statistics added removed m =
     (map (\<lambda>l. AvailableStatisticsChange l statistics added removed) (rev (sm_listeners m)), m \<lparr>sm_lastStatistics := True\<rparr>)"

definition sm_newDataAvailable :: "StatisticsMultiplexerSync \<Rightarrow> listener_event list" where
  "sm_newDataAvailable m = map NewDataAvailable (rev (sm_listeners m))"

definition sm_registerListener ::
  "nat list \<Rightarrow> nat \<Rightarrow> StatisticsMultiplexerSync \<Rightarrow> listener_event list \<times> StatisticsMultiplexerSync" where
  "sm_registerListener statistics listener m =
     (if listener \<in> set (sm_listeners m) then ([], m)
      else (if sm_lastStatistics m then [AvailableStatisticsChange listener statistics True False] else [],
            m \<lparr>sm_listeners := sm_listeners m @ [listener]\<rparr>))"

fun erase_all_down :: "('a \<Rightarrow> bool) \<Rightarrow> nat \<Rightarrow> 'a list \<Rightarrow> 'a list" where
  "erase_all_down P 0 xs = xs"
| "erase_all_down P (Suc i) xs = erase_all_down P i (if P (xs ! i) then erase_at i xs else xs)"

definition sm_unregisterListener :: "nat \<Rightarrow> StatisticsMultiplexerSync \<Rightarrow> StatisticsMultiplexerSync" where
  "sm_unregisterListener listener m =
     m \<lparr>sm_listeners := erase_all_down (\<lambda>l. l = listener) (length (sm_listeners m)) (sm_listeners m)\<rparr>"

text \<open>\<open>makeCollection\<close> looks the statistics up from the last to the first and fails at the first unknown one.\<close>

fun lookup_statistics ::
  "'t topology_ops \<Rightarrow> ('o \<Rightarrow> string \<Rightarrow> string \<Rightarrow> OntologyAttribute result) \<Rightarrow> (string \<times> string) list
   \<Rightarrow> ('t, 'o) ThreadedStatisticsCollector \<Rightarrow> nat list option outcome" where
  "lookup_statistics V look [] c = Inr (Some [])"
| "lookup_statistics V look (p # ps) c =
     bindr (lookup_statistics V look ps c) (\<lambda>r. case r of
       None \<Rightarrow> Inr None
     | Some as \<Rightarrow> bindr (getStatistic V look (fst p) (snd p) c) (\<lambda>a. Inr (map_option (\<lambda>a. a # as) a)))"

definition makeCollection ::
  "'t topology_ops \<Rightarrow> ('o \<Rightarrow> string \<Rightarrow> string \<Rightarrow> OntologyAttribute result) \<Rightarrow> (string \<times> string) list \<Rightarrow> bool \<Rightarrow> nat
   \<Rightarrow> ('t, 'o) ThreadedStatisticsCollector \<Rightarrow> (nat option \<times> ('t, 'o) ThreadedStatisticsCollector) outcome" where
  "makeCollection V look pairs threadSafe k c =
     bindr (lookup_statistics V look pairs c) (\<lambda>r. case r of
       None \<Rightarrow> Inr (None, c)
     | Some as \<Rightarrow>
         bindr (registerCollection k (c \<lparr>tc_collection_objects :=
             (tc_collection_objects c)(k := StatisticsCollection_new (cur_value c) as threadSafe)\<rparr>)) (\<lambda>c'.
         Inr (Some k, c')))"

section \<open>Loops from the end\<close>

lemma find_down_Some: "find_down P xs n = Some i \<Longrightarrow> i < n \<and> P (xs ! i) \<and> (\<forall>j. i < j \<longrightarrow> j < n \<longrightarrow> \<not> P (xs ! j))"
  by (induction n) (auto simp: less_Suc_eq split: if_splits)

lemma find_down_None: "find_down P xs n = None \<longleftrightarrow> (\<forall>i < n. \<not> P (xs ! i))"
  by (induction n) (auto simp: less_Suc_eq)

lemma erase_at_length: "i < length xs \<Longrightarrow> length (erase_at i xs) = length xs - 1"
  by (simp add: erase_at_def)

lemma erase_at_split: "i < length xs \<Longrightarrow> mset xs = add_mset (xs ! i) (mset (erase_at i xs))"
  unfolding erase_at_def by (metis id_take_nth_drop mset_append mset.simps(2) union_mset_add_mset_right)

lemma set_erase_at:
  assumes "distinct xs" and "i < length xs"
  shows "set (erase_at i xs) = set xs - {xs ! i}"
proof -
  have e: "xs = take i xs @ xs ! i # drop (Suc i) xs" using assms(2) by (rule id_take_nth_drop)
  have "distinct (take i xs @ xs ! i # drop (Suc i) xs)" using assms(1) e by simp
  moreover have "set xs = insert (xs ! i) (set (take i xs) \<union> set (drop (Suc i) xs))"
    using arg_cong [OF e, of set] by auto
  ultimately show ?thesis by (auto simp: erase_at_def)
qed

lemma distinct_erase_at: "distinct xs \<Longrightarrow> distinct (erase_at i xs)"
  by (simp add: erase_at_def set_take_disj_set_drop_if_distinct)

lemma erase_all_down_filter:
  assumes "n \<le> length xs" and "\<forall>j. n \<le> j \<longrightarrow> j < length xs \<longrightarrow> \<not> P (xs ! j)"
  shows "erase_all_down P n xs = filter (\<lambda>x. \<not> P x) xs"
  using assms
proof (induction n arbitrary: xs)
  case 0
  then have "\<forall>x \<in> set xs. \<not> P x" by (auto simp: in_set_conv_nth)
  then show ?case by simp
next
  case (Suc i)
  show ?case
  proof (cases "P (xs ! i)")
    case True
    have i: "i < length xs" using Suc.prems(1) by simp
    have nth: "erase_at i xs ! j = xs ! Suc j" if "i \<le> j" "j < length (erase_at i xs)" for j
      using that i by (simp add: erase_at_def nth_append)
    have "\<not> P (erase_at i xs ! j)" if "i \<le> j" "j < length (erase_at i xs)" for j
      using that nth [OF that] Suc.prems(2) i by (simp add: erase_at_length)
    then have "erase_all_down P i (erase_at i xs) = filter (\<lambda>x. \<not> P x) (erase_at i xs)"
      using Suc.IH [of "erase_at i xs"] i by (simp add: erase_at_length)
    also have "\<dots> = filter (\<lambda>x. \<not> P x) xs"
      using True i by (subst (2) id_take_nth_drop [OF i]) (simp add: erase_at_def)
    finally show ?thesis using True by simp
  next
    case False
    then have "\<forall>j. i \<le> j \<longrightarrow> j < length xs \<longrightarrow> \<not> P (xs ! j)" using Suc.prems(2) by (metis le_antisym not_less_eq_eq)
    then show ?thesis using Suc.IH [of xs] Suc.prems(1) False by simp
  qed
qed

section \<open>The invariant of the collector\<close>

definition collector_ok :: "('t, 'o) ThreadedStatisticsCollector \<Rightarrow> bool" where
  "collector_ok c \<longleftrightarrow>
     length (tc_pluginPerStatistics c) = length (tc_statistics c) \<and> distinct (tc_statistics c) \<and>
     (\<forall>a \<in> set (tc_statistics c). tc_objects c a \<noteq> None) \<and>
     (\<forall>a. tc_objects c a \<noteq> None \<longrightarrow> a < tc_fresh c) \<and>
     (\<forall>k a. tc_index c k = Some (Some a) \<longrightarrow> a \<in> set (tc_statistics c) \<and> key_at c a = Some k)"

lemma collector_ok_new: "collector_ok (collector_new t al ont cs vars)"
  by (simp add: collector_ok_def collector_new_def)

lemma collector_ok_frame:
  assumes "collector_ok c" and "tc_pluginPerStatistics c' = tc_pluginPerStatistics c" "tc_statistics c' = tc_statistics c"
    "tc_objects c' = tc_objects c" "tc_fresh c' = tc_fresh c" "tc_index c' = tc_index c"
  shows "collector_ok c'"
  using assms by (simp add: collector_ok_def key_at_def)

lemma collector_ok_add_statistic:
  assumes "collector_ok c"
  shows "collector_ok (add_statistic plugin x c)"
proof -
  have fresh: "tc_objects c (tc_fresh c) = None" "tc_fresh c \<notin> set (tc_statistics c)"
    using assms by (auto simp: collector_ok_def)
  then show ?thesis
    using assms by (auto simp: collector_ok_def add_statistic_def key_at_def less_Suc_eq)
qed

lemma register_metric_Inr:
  assumes "register_metric V reg junk plugin m c = Inr c'"
  obtains attribute ont device t x where
    "reg (tc_ontology c) kStatisticsDomain (mp_metrics m) (vd_type (tc_vars c (mp_value m))) = (Inr attribute, ont)"
    "registerObjectByPath V (tc_aliases c) (tc_topology c) (mp_topologyPath m) 0 = Some (Inr (Some device, t))"
    "new_object junk m (tc_vars c (mp_value m)) (oa_aID attribute) (to_id device) = Inr x"
    "c' = add_statistic plugin x (c \<lparr>tc_ontology := ont, tc_topology := t\<rparr>)"
  using assms
  by (auto simp: register_metric_def Let_def bindr_Inr_iff split: prod.splits sum.splits option.splits)

lemma new_object_key: "new_object junk m v i j = Inr x \<Longrightarrow> so_key x = (i, j)"
  by (auto simp: new_object_def bindr_Inr_iff IncrementalStatistic_new_def so_key_def Statistic_new_def split: if_splits)

lemma collector_ok_register_metric:
  "collector_ok c \<Longrightarrow> register_metric V reg junk plugin m c = Inr c' \<Longrightarrow> collector_ok c'"
  by (erule register_metric_Inr) (auto intro!: collector_ok_add_statistic elim: collector_ok_frame)

lemma collector_ok_registerPlugin:
  assumes "collector_ok c" and "registerPlugin V reg junk plugin ms c = Inr c'"
  shows "collector_ok c'"
proof -
  obtain c1 where c1: "fold_outcome (register_metric V reg junk plugin) (rev ms) (c \<lparr>tc_plugins := tc_plugins c @ [plugin]\<rparr>) = Inr c1"
    and c': "c' = c1 \<lparr>tc_statisticsAdded := True\<rparr>"
    using assms(2) by (auto simp: registerPlugin_def bindr_Inr_iff split: if_splits)
  have "collector_ok (c \<lparr>tc_plugins := tc_plugins c @ [plugin]\<rparr>)" using assms(1) by (rule collector_ok_frame) simp_all
  from fold_outcome_inv [OF c1, of collector_ok, OF this collector_ok_register_metric]
  have "collector_ok c1" .
  then show ?thesis unfolding c' by (rule collector_ok_frame) simp_all
qed

lemma collector_ok_unregisterPlugin:
  assumes "collector_ok c"
  shows "collector_ok (unregisterPlugin plugin c)"
proof -
  define c1 where "c1 = (case find_down (\<lambda>q. q = plugin) (tc_plugins c) (length (tc_plugins c)) of
                  None \<Rightarrow> c | Some i \<Rightarrow> c \<lparr>tc_plugins := erase_at i (tc_plugins c)\<rparr>)"
  have ok1: "collector_ok c1"
    using assms by (auto simp: c1_def split: option.splits elim: collector_ok_frame)
  show ?thesis
  proof (cases "find_down (\<lambda>q. q = plugin) (tc_pluginPerStatistics c1) (length (tc_statistics c1))")
    case None
    then show ?thesis using ok1 by (auto simp: unregisterPlugin_def c1_def [symmetric] Let_def elim: collector_ok_frame)
  next
    case (Some i)
    then have i: "i < length (tc_statistics c1)" using find_down_Some by blast
    then obtain x where x: "tc_objects c1 (tc_statistics c1 ! i) = Some x" using ok1 by (force simp: collector_ok_def)
    have d: "distinct (tc_statistics c1)" using ok1 by (simp add: collector_ok_def)
    have idx: "a \<noteq> tc_statistics c1 ! i" if "tc_index c1 k = Some (Some a)" "k \<noteq> so_key x" for k a
    proof -
      have "key_at c1 a = Some k" using ok1 that(1) unfolding collector_ok_def by blast
      then show ?thesis using that(2) x by (auto simp: key_at_def)
    qed
    have "collector_ok (c1 \<lparr>tc_index := (tc_index c1)(so_key x := None),
        tc_pluginPerStatistics := erase_at i (tc_pluginPerStatistics c1), tc_statistics := erase_at i (tc_statistics c1)\<rparr>)"
      using ok1 i d set_erase_at [OF d i] idx
      by (simp add: collector_ok_def erase_at_length distinct_erase_at key_at_def)
    then show ?thesis
      using Some x by (auto simp: unregisterPlugin_def c1_def [symmetric] Let_def elim: collector_ok_frame)
  qed
qed

lemma so_update_key: "so_update t vars x = Inr x' \<Longrightarrow> so_key x' = so_key x"
  by (cases x) (auto simp: bindr_Inr_iff so_key_def incremental_update_def Let_def statistic_update_def dest!: fold_update_ids)

lemma update_object_frame:
  assumes "update_object t a c = Inr c'"
  shows "\<exists>x x'. tc_objects c a = Some x \<and> so_update t (tc_vars c) x = Inr x' \<and> c' = c \<lparr>tc_objects := (tc_objects c)(a \<mapsto> x')\<rparr>"
  using assms by (auto simp: update_object_def bindr_Inr_iff split: option.splits)

lemma update_objects_frame:
  "fold_outcome (update_object t) as c = Inr c' \<Longrightarrow>
     tc_collections c' = tc_collections c \<and> tc_collection_objects c' = tc_collection_objects c \<and> tc_vars c' = tc_vars c"
proof (induction "as" arbitrary: c)
  case (Cons a as)
  then obtain c1 where c1: "update_object t a c = Inr c1" "fold_outcome (update_object t) as c1 = Inr c'"
    by (auto simp: bindr_Inr_iff)
  obtain x' where "c1 = c \<lparr>tc_objects := (tc_objects c)(a \<mapsto> x')\<rparr>" using update_object_frame [OF c1(1)] by blast
  then show ?case using Cons.IH [OF c1(2)] by simp
qed simp

lemma collector_ok_update_object:
  assumes "collector_ok c" and "update_object t a c = Inr c'"
  shows "collector_ok c'"
proof -
  obtain x x' where x: "tc_objects c a = Some x" "so_key x' = so_key x" and c': "c' = c \<lparr>tc_objects := (tc_objects c)(a \<mapsto> x')\<rparr>"
    using update_object_frame [OF assms(2)] so_update_key by blast
  have "key_at c' b = key_at c b" for b using x by (simp add: c' key_at_def)
  then show ?thesis using assms(1) x by (simp add: c' collector_ok_def)
qed

lemma collector_ok_push_collection:
  "collector_ok c \<Longrightarrow> push_collection k c = Inr c' \<Longrightarrow> collector_ok c'"
  by (auto simp: push_collection_def bindr_Inr_iff elim: collector_ok_frame)

lemma poll_round_Inr:
  assumes "poll_round next t c = Inr (c', n)"
  obtains c1 c2 c3 where
    "c1 = c \<lparr>tc_run_timesteps := tc_run_timesteps c + 1, tc_vars := fold next (rev (tc_plugins c)) (tc_vars c)\<rparr>"
    "fold_outcome (update_object t) (rev (tc_statistics c1)) c1 = Inr c2"
    "fold_outcome push_collection (rev (tc_collections c2)) c2 = Inr c3"
    "c' = c3 \<lparr>tc_statisticsAdded := False, tc_statisticsRemoved := False\<rparr>"
    "n = (if tc_statisticsAdded c3 \<or> tc_statisticsRemoved c3 then Some (tc_statistics c3, tc_statisticsAdded c3, tc_statisticsRemoved c3) else None)"
  using assms by (auto simp: poll_round_def Let_def bindr_Inr_iff)

lemma collector_ok_poll_round:
  assumes "collector_ok c" and "poll_round next t c = Inr (c', n)"
  shows "collector_ok c'"
proof (rule poll_round_Inr [OF assms(2)])
  fix c1 c2 c3
  assume c1: "c1 = c \<lparr>tc_run_timesteps := tc_run_timesteps c + 1, tc_vars := fold next (rev (tc_plugins c)) (tc_vars c)\<rparr>"
    and c2: "fold_outcome (update_object t) (rev (tc_statistics c1)) c1 = Inr c2"
    and c3: "fold_outcome push_collection (rev (tc_collections c2)) c2 = Inr c3"
    and c': "c' = c3 \<lparr>tc_statisticsAdded := False, tc_statisticsRemoved := False\<rparr>"
  have "collector_ok c1" unfolding c1 using assms(1) by (rule collector_ok_frame) simp_all
  then have "collector_ok c2" using fold_outcome_inv [OF c2, of collector_ok] collector_ok_update_object by blast
  then have "collector_ok c3" using fold_outcome_inv [OF c3, of collector_ok] collector_ok_push_collection by blast
  then show ?thesis unfolding c' by (rule collector_ok_frame) simp_all
qed

section \<open>The collector as a client of the naming services\<close>

text \<open>
  What a lookup of a metric needs: the path leads to an object, the name to an attribute, and a
  statistic has the two ids as its key.
\<close>

definition metric_found ::
  "'t topology_ops \<Rightarrow> ('o \<Rightarrow> string \<Rightarrow> string \<Rightarrow> OntologyAttribute result) \<Rightarrow> StatisticsProviderDatatypes
   \<Rightarrow> ('t, 'o) ThreadedStatisticsCollector \<Rightarrow> bool" where
  "metric_found V look m c \<longleftrightarrow>
     (\<exists>dev a b. lookupObjectByPath V (tc_aliases c) (tc_topology c) (mp_topologyPath m) 0 = Some (Inr (Some dev)) \<and>
        look (tc_ontology c) kStatisticsDomain (mp_metrics m) = Inr a \<and>
        b \<in> set (tc_statistics c) \<and> key_at c b = Some (oa_aID a, to_id dev))"

definition path_cost :: "aliases \<Rightarrow> StatisticsProviderDatatypes \<Rightarrow> nat" where
  "path_cost al m = (case parsePath al (mp_topologyPath m) of Some (Some ds) \<Rightarrow> 3 * length ds | _ \<Rightarrow> 0)"

definition path_complete :: "aliases \<Rightarrow> StatisticsProviderDatatypes \<Rightarrow> bool" where
  "path_complete al m \<longleftrightarrow>
     (\<forall>ds. parsePath al (mp_topologyPath m) = Some (Some ds) \<longrightarrow> (\<forall>d \<in> set ds. pcd_haveChildType d \<noteq> None))"

locale statistics_names = topology V tvalid tfree + attribute_names reg look ovalid ofree
  for V :: "'t topology_ops" and tvalid tfree
    and reg :: "'o \<Rightarrow> string \<Rightarrow> string \<Rightarrow> Type \<Rightarrow> OntologyAttribute result \<times> 'o" and look ovalid ofree
begin

lemma registerObjectByPath_found:
  assumes "tvalid t" and "path_complete al m" and "path_cost al m \<le> tfree t"
    and "registerObjectByPath V al t (mp_topologyPath m) 0 = Some (Inr (Some dev, t'))"
  shows "tvalid t' \<and> topo_ext V t t' \<and> tfree t \<le> tfree t' + path_cost al m \<and>
    lookupObjectByPath V al t' (mp_topologyPath m) 0 = Some (Inr (Some dev))"
proof -
  obtain ds where ds: "parsePath al (mp_topologyPath m) = Some (Some ds)" "register_components V t ds 0 = Inr (Some dev, t')"
    using assms(4) by (auto simp: registerObjectByPath_def split: option.splits)
  then have "3 * length ds \<le> tfree t" "\<forall>d \<in> set ds. pcd_haveChildType d \<noteq> None" "path_cost al m = 3 * length ds"
    using assms(2,3) by (simp_all add: path_cost_def path_complete_def)
  then show ?thesis
    using register_components_spec [OF assms(1), of ds 0] ds by (auto simp: lookupObjectByPath_def)
qed

lemma lookupObjectByPath_stable:
  "lookupObjectByPath V al t path p = Some (Inr (Some dev)) \<Longrightarrow> topo_ext V t t' \<Longrightarrow>
     lookupObjectByPath V al t' path p = Some (Inr (Some dev))"
proof -
  assume l: "lookupObjectByPath V al t path p = Some (Inr (Some dev))" and e: "topo_ext V t t'"
  obtain ds where ds: "parsePath al path = Some (Some ds)" "lookup_components V t ds p = Inr (Some dev)"
    using l by (auto simp: lookupObjectByPath_def split: option.splits)
  then show ?thesis using lookup_components_ext [OF ds(2) e] by (simp add: lookupObjectByPath_def)
qed

lemma register_metric_step:
  assumes ok: "collector_ok c" "tvalid (tc_topology c)" "ovalid (tc_ontology c)"
    and room: "path_complete (tc_aliases c) m" "path_cost (tc_aliases c) m \<le> tfree (tc_topology c)" "0 < ofree (tc_ontology c)"
    and ty: "vd_type (tc_vars c (mp_value m)) \<noteq> INVALID"
    and reg: "register_metric V reg junk plugin m c = Inr c'"
  shows "collector_ok c' \<and> tvalid (tc_topology c') \<and> ovalid (tc_ontology c') \<and> tc_aliases c' = tc_aliases c \<and>
    tc_vars c' = tc_vars c \<and> ofree (tc_ontology c) \<le> Suc (ofree (tc_ontology c')) \<and>
    tfree (tc_topology c) \<le> tfree (tc_topology c') + path_cost (tc_aliases c) m \<and>
    metric_found V look m c' \<and> (\<forall>m'. metric_found V look m' c \<longrightarrow> metric_found V look m' c')"
proof (rule register_metric_Inr [OF reg])
  fix attribute ont device t x
  assume r: "reg (tc_ontology c) kStatisticsDomain (mp_metrics m) (vd_type (tc_vars c (mp_value m))) = (Inr attribute, ont)"
    and p: "registerObjectByPath V (tc_aliases c) (tc_topology c) (mp_topologyPath m) 0 = Some (Inr (Some device, t))"
    and x: "new_object junk m (tc_vars c (mp_value m)) (oa_aID attribute) (to_id device) = Inr x"
    and c': "c' = add_statistic plugin x (c \<lparr>tc_ontology := ont, tc_topology := t\<rparr>)"
  have o: "ovalid ont" "ofree (tc_ontology c) \<le> Suc (ofree ont)" "look ont kStatisticsDomain (mp_metrics m) = Inr attribute"
    "\<And>d n a. look (tc_ontology c) d n = Inr a \<Longrightarrow> look ont d n = Inr a"
    using reg_spec [OF ok(3) room(3) ty r] by auto
  have t: "tvalid t" "topo_ext V (tc_topology c) t" "tfree (tc_topology c) \<le> tfree t + path_cost (tc_aliases c) m"
    "lookupObjectByPath V (tc_aliases c) t (mp_topologyPath m) 0 = Some (Inr (Some device))"
    using registerObjectByPath_found [OF ok(2) room(1,2) p] by auto
  have sel: "tc_topology c' = t" "tc_ontology c' = ont" "tc_aliases c' = tc_aliases c" "tc_vars c' = tc_vars c"
    "tc_statistics c' = tc_statistics c @ [tc_fresh c]" by (simp_all add: c' add_statistic_def)
  have fresh: "tc_objects c (tc_fresh c) = None" using ok(1) by (auto simp: collector_ok_def)
  have key: "key_at c' (tc_fresh c) = Some (oa_aID attribute, to_id device)"
    and keep: "key_at c b = Some k \<Longrightarrow> key_at c' b = Some k" for b k
    using new_object_key [OF x] fresh by (auto simp: c' add_statistic_def key_at_def)
  have "collector_ok c'" using collector_ok_register_metric [OF ok(1) reg] .
  moreover have "metric_found V look m c'"
    unfolding metric_found_def sel using t(4) o(3) key by auto
  moreover have "metric_found V look m' c'" if "metric_found V look m' c" for m'
    using that unfolding metric_found_def sel
    by (auto intro: lookupObjectByPath_stable [OF _ t(2)] o(4) keep)
  ultimately show ?thesis using sel o t by simp
qed

lemma register_metrics_found:
  assumes "fold_outcome (register_metric V reg junk plugin) ms c = Inr c'"
    and "collector_ok c" "tvalid (tc_topology c)" "ovalid (tc_ontology c)"
    and "\<forall>m \<in> set ms. path_complete (tc_aliases c) m \<and> vd_type (tc_vars c (mp_value m)) \<noteq> INVALID"
    and "sum_list (map (path_cost (tc_aliases c)) ms) \<le> tfree (tc_topology c)" "length ms \<le> ofree (tc_ontology c)"
  shows "(\<forall>m. m \<in> set ms \<or> metric_found V look m c \<longrightarrow> metric_found V look m c') \<and> ovalid (tc_ontology c')"
  using assms
proof (induction ms arbitrary: c)
  case (Cons m ms)
  obtain c1 where c1: "register_metric V reg junk plugin m c = Inr c1" "fold_outcome (register_metric V reg junk plugin) ms c1 = Inr c'"
    using Cons.prems(1) by (auto simp: bindr_Inr_iff)
  have "path_complete (tc_aliases c) m" "vd_type (tc_vars c (mp_value m)) \<noteq> INVALID"
    "path_cost (tc_aliases c) m \<le> tfree (tc_topology c)" "0 < ofree (tc_ontology c)" using Cons.prems(5-7) by auto
  note step = register_metric_step [OF Cons.prems(2-4) this(1,3,4,2) c1(1)]
  have "(\<forall>m. m \<in> set ms \<or> metric_found V look m c1 \<longrightarrow> metric_found V look m c') \<and> ovalid (tc_ontology c')"
    using step Cons.prems(5-7) by (intro Cons.IH [OF c1(2)]) auto
  then show ?case using step by auto
qed simp

text \<open>A metric of a registered plugin can be looked up.\<close>

lemma getStatistic_found:
  assumes "metric_found V look m c" and "ovalid (tc_ontology c)"
  obtains a where "getStatistic V look (mp_metrics m) (mp_topologyPath m) c = Inr (Some a)" "a \<in> set (tc_statistics c)"
proof -
  obtain dev at b where f: "lookupObjectByPath V (tc_aliases c) (tc_topology c) (mp_topologyPath m) 0 = Some (Inr (Some dev))"
    "look (tc_ontology c) kStatisticsDomain (mp_metrics m) = Inr at"
    "b \<in> set (tc_statistics c)" "key_at c b = Some (oa_aID at, to_id dev)"
    using assms(1) unfolding metric_found_def by blast
  let ?P = "\<lambda>a. key_at c a = Some (oa_aID at, to_id dev)"
  obtain j where "j < length (tc_statistics c)" "tc_statistics c ! j = b" using f(3) by (auto simp: in_set_conv_nth)
  then obtain i where i: "find_down ?P (tc_statistics c) (length (tc_statistics c)) = Some i"
    using f(4) find_down_None [of ?P "tc_statistics c"] by (metis not_None_eq)
  have "oa_aID at \<noteq> 0" by (rule look_positive [OF assms(2) f(2)])
  then have "getStatistic V look (mp_metrics m) (mp_topologyPath m) c = Inr (Some (tc_statistics c ! i))"
    using f i by (simp add: getStatistic_def)
  then show thesis using find_down_Some [OF i] that by simp
qed

lemma registerPlugin_lookup:
  assumes reg: "registerPlugin V reg junk plugin ms c = Inr c'"
    and ok: "collector_ok c" "tvalid (tc_topology c)" "ovalid (tc_ontology c)"
    and ms: "\<forall>m \<in> set ms. path_complete (tc_aliases c) m \<and> vd_type (tc_vars c (mp_value m)) \<noteq> INVALID"
    and room: "sum_list (map (path_cost (tc_aliases c)) ms) \<le> tfree (tc_topology c)" "length ms \<le> ofree (tc_ontology c)"
    and m: "m \<in> set ms \<or> metric_found V look m c"
  shows "\<exists>a \<in> set (tc_statistics c'). getStatistic V look (mp_metrics m) (mp_topologyPath m) c' = Inr (Some a)"
proof -
  let ?c = "c \<lparr>tc_plugins := tc_plugins c @ [plugin]\<rparr>"
  obtain c1 where c1: "fold_outcome (register_metric V reg junk plugin) (rev ms) ?c = Inr c1"
    and c': "c' = c1 \<lparr>tc_statisticsAdded := True\<rparr>"
    using reg by (auto simp: registerPlugin_def bindr_Inr_iff split: if_splits)
  have ok1: "collector_ok ?c" using ok(1) by (rule collector_ok_frame) simp_all
  have found: "metric_found V look m ?c" if "metric_found V look m c"
    using that by (simp add: metric_found_def key_at_def)
  have "metric_found V look m c1 \<and> ovalid (tc_ontology c1)"
    using register_metrics_found [OF c1 ok1] ok ms room m found by (auto simp: rev_map [symmetric] simp flip: rev_map)
  then have "metric_found V look m c'" "ovalid (tc_ontology c')" by (simp_all add: c' metric_found_def key_at_def)
  then show ?thesis using getStatistic_found by blast
qed

end

interpretation stat_ram_file: statistics_names ram_ops ram_inv ram_free fo_register_attribute fo_lookup_attribute_by_name
  "\<lambda>fo. fo_inv fo \<and> fo_positive fo" fo_free ..

section \<open>Values seen by collections\<close>

lemma push_collections_frame:
  "fold_outcome push_collection ks c = Inr c' \<Longrightarrow>
     tc_collections c' = tc_collections c \<and> tc_objects c' = tc_objects c \<and> tc_vars c' = tc_vars c"
proof (induction ks arbitrary: c)
  case (Cons k ks)
  then obtain c1 where c1: "push_collection k c = Inr c1" "fold_outcome push_collection ks c1 = Inr c'"
    by (auto simp: bindr_Inr_iff)
  then show ?case using Cons.IH [OF c1(2)] by (auto simp: push_collection_def bindr_Inr_iff)
qed simp

lemma push_collections:
  assumes "fold_outcome push_collection ks c = Inr c'" and "distinct ks"
  shows "(if k \<in> set ks then pushValues (cur_value c) (tc_collection_objects c k) = Inr (tc_collection_objects c' k)
          else tc_collection_objects c' k = tc_collection_objects c k)"
  using assms
proof (induction ks arbitrary: c)
  case (Cons j ks)
  obtain c1 where "push_collection j c = Inr c1" "fold_outcome push_collection ks c1 = Inr c'"
    using Cons.prems(1) by (auto simp: bindr_Inr_iff)
  then obtain sc where sc: "pushValues (cur_value c) (tc_collection_objects c j) = Inr sc"
    and rest: "fold_outcome push_collection ks (c \<lparr>tc_collection_objects := (tc_collection_objects c)(j := sc)\<rparr>) = Inr c'"
    by (auto simp: push_collection_def bindr_Inr_iff)
  let ?c = "c \<lparr>tc_collection_objects := (tc_collection_objects c)(j := sc)\<rparr>"
  have cur: "cur_value ?c = cur_value c" by (auto simp: cur_value_def fun_eq_iff split: option.split)
  note IH = Cons.IH [OF rest, unfolded cur]
  have "j \<notin> set ks" "distinct ks" using Cons.prems(2) by auto
  then show ?case using IH sc by (auto split: if_splits)
qed simp

section \<open>Properties\<close>



text \<open>
  A metric of a registered plugin is found. With the RAM topology and the file
  ontology, after a successful registration of a plugin \<open>getStatistic\<close> finds a registered statistic
  for the name and path of each of its metrics, and for each metric of the plugins before it, as
  long as both services have ids left.
\<close>

theorem collector_register_lookup:
  assumes "registerPlugin ram_ops fo_register_attribute junk plugin ms c = Inr c'"
    and "collector_ok c" and "ram_inv (tc_topology c)" and "fo_inv (tc_ontology c)" and "fo_positive (tc_ontology c)"
    and "\<forall>m \<in> set ms. path_complete (tc_aliases c) m \<and> vd_type (tc_vars c (mp_value m)) \<noteq> INVALID"
    and "sum_list (map (path_cost (tc_aliases c)) ms) \<le> ram_free (tc_topology c)" and "length ms \<le> fo_free (tc_ontology c)"
    and "m \<in> set ms \<or> metric_found ram_ops fo_lookup_attribute_by_name m c"
  shows "\<exists>a \<in> set (tc_statistics c').
    getStatistic ram_ops fo_lookup_attribute_by_name (mp_metrics m) (mp_topologyPath m) c' = Inr (Some a)"
  by (rule stat_ram_file.registerPlugin_lookup [OF assms(1-3) _ assms(6-9)]) (simp add: assms(4,5))

text \<open>
  \<open>unregisterPlugin\<close> removes one statistic only. When a plugin has registered several
  statistics, all but the last stay in the list after the plugin has gone, and are updated from
  its variables at every poll.
\<close>

theorem unregister_leaves_statistics:
  assumes ok: "collector_ok c" and n: "count (mset (tc_pluginPerStatistics c)) plugin = n" and n1: "0 < n"
  shows "count (mset (tc_pluginPerStatistics (unregisterPlugin plugin c))) plugin = n - 1 \<and>
    length (tc_statistics (unregisterPlugin plugin c)) = length (tc_statistics c) - 1"
proof -
  let ?ps = "tc_pluginPerStatistics c"
  have len: "length ?ps = length (tc_statistics c)" using ok by (simp add: collector_ok_def)
  have "plugin \<in> set ?ps" using n n1 by (metis count_greater_zero_iff set_mset_mset)
  then obtain i where i: "find_down (\<lambda>q. q = plugin) ?ps (length (tc_statistics c)) = Some i"
    using find_down_None [of "\<lambda>q. q = plugin" ?ps "length (tc_statistics c)"] len
    by (metis in_set_conv_nth not_None_eq)
  then have il: "i < length (tc_statistics c)" "?ps ! i = plugin" using find_down_Some [OF i] by auto
  then obtain x where x: "tc_objects c (tc_statistics c ! i) = Some x" using ok by (force simp: collector_ok_def)
  have "tc_pluginPerStatistics (unregisterPlugin plugin c) = erase_at i ?ps"
    "tc_statistics (unregisterPlugin plugin c) = erase_at i (tc_statistics c)"
    using i x by (auto simp: unregisterPlugin_def Let_def split: option.splits)
  then show ?thesis using erase_at_split [of i ?ps] il len n by (simp add: erase_at_length)
qed

text \<open>
  What a collection shows. A thread-safe collection that is registered once shows,
  after a poll and \<open>fetchValues\<close>, for each of its statistics the value of that poll, all from the
  same poll. Reading a collection made with \<open>threadSafe = false\<close> dereferences a null pointer.
\<close>

theorem collection_shows_poll:
  assumes poll: "poll_round nxt time c = Inr (c', n)" and k: "k \<in> set (tc_collections c')" and d: "distinct (tc_collections c')"
    and sc: "tc_collection_objects c k = StatisticsCollection_new cur as True" and i: "i < length as"
  shows "collection_nth (fetchValues (tc_collection_objects c' k)) i = Inr (cur_value c' (as ! i)) \<and>
    collection_nth (StatisticsCollection_new cur as False) i = Inl (Undefined ''null pointer'')"
proof (rule poll_round_Inr [OF poll])
  fix c1 c2 c3
  assume c1: "c1 = c \<lparr>tc_run_timesteps := tc_run_timesteps c + 1, tc_vars := fold nxt (rev (tc_plugins c)) (tc_vars c)\<rparr>"
    and c2: "fold_outcome (update_object time) (rev (tc_statistics c1)) c1 = Inr c2"
    and c3: "fold_outcome push_collection (rev (tc_collections c2)) c2 = Inr c3"
    and c': "c' = c3 \<lparr>tc_statisticsAdded := False, tc_statisticsRemoved := False\<rparr>"
  have keep: "tc_collections c2 = tc_collections c \<and> tc_collection_objects c2 = tc_collection_objects c"
    using update_objects_frame [OF c2] by (simp add: c1)
  have same: "tc_collections c3 = tc_collections c2" "tc_objects c3 = tc_objects c2" "tc_vars c3 = tc_vars c2"
    using push_collections_frame [OF c3] by simp_all
  then have in_list: "k \<in> set (rev (tc_collections c2))" "distinct (rev (tc_collections c2))" using k d c' by simp_all
  have push: "pushValues (cur_value c2) (tc_collection_objects c k) = Inr (tc_collection_objects c3 k)"
    using push_collections [OF c3 in_list(2), of k] in_list(1) keep by simp
  have "cur_value c' = cur_value c2" by (auto simp: c' cur_value_def fun_eq_iff same split: option.split)
  moreover have "tc_collection_objects c3 k = tc_collection_objects c' k" by (simp add: c')
  ultimately have "tc_collection_objects c' k = \<lparr>sc_statistics = map Some as,
      sc_communicationBuffer = Some (map (cur_value c') as), sc_readBuffer = Some (map cur as)\<rparr>"
    using push sc by (auto simp: pushValues_def StatisticsCollection_new_def comp_def)
  then show ?thesis
    using i by (simp add: StatisticsCollection_new_def fetchValues_def collection_nth_def)
qed

text \<open>
  The listeners of the multiplexer. Registering twice changes nothing, so every
  registered listener is called once per notification; a listener that registers late is told the
  present statistics; after \<open>unregisterListener\<close> it is not called any more and all others are.
\<close>

theorem statistics_listeners:
  assumes "distinct (sm_listeners m)"
  shows "distinct (sm_listeners (snd (sm_registerListener stats l m))) \<and>
    set (sm_listeners (snd (sm_registerListener stats l m))) = insert l (set (sm_listeners m)) \<and>
    sm_listeners (sm_unregisterListener l m) = filter (\<lambda>x. x \<noteq> l) (sm_listeners m) \<and>
    mset (sm_newDataAvailable m) = image_mset NewDataAvailable (mset_set (set (sm_listeners m))) \<and>
    (sm_lastStatistics m \<and> l \<notin> set (sm_listeners m) \<longrightarrow>
       fst (sm_registerListener stats l m) = [AvailableStatisticsChange l stats True False])"
  using assms
  by (auto simp: sm_registerListener_def sm_unregisterListener_def erase_all_down_filter sm_newDataAvailable_def mset_set_set)

theorem statistics_listeners_witness:
  "sm_listeners (sm_unregisterListener 4 \<lparr>sm_listeners = [3, 4, 5], sm_lastStatistics = True\<rparr>) = [3, 5]"
  using statistics_listeners [of "\<lparr>sm_listeners = [3, 4, 5], sm_lastStatistics = True\<rparr>" "[]" 4] by simp

section \<open>A concrete collector\<close>

declare alias_chase.simps [code]

definition sample_metrics :: "StatisticsProviderDatatypes list" where
  "sample_metrics =
     [\<lparr>mp_metrics = ''utilization/cpu'', mp_topologyPath = ''host:node1'', mp_value = 0, mp_intervalType = GAUGE,
       mp_overflow_max_value = - 1, mp_overflow_next_value = 0\<rparr>,
      \<lparr>mp_metrics = ''quantity/bytes'', mp_topologyPath = ''host:node1'', mp_value = 1, mp_intervalType = INCREMENTAL,
       mp_overflow_max_value = - 1, mp_overflow_next_value = 0\<rparr>]"

definition sample_collector :: "(RamTopology, FileOntology) ThreadedStatisticsCollector" where
  "sample_collector = collector_new RamTopology_new Map.empty FileOntology_new
     (\<lambda>_. StatisticsCollection_new (\<lambda>_. VInvalid) [] True) (\<lambda>_. VUint64 7)"

definition sample_registered :: "(RamTopology, FileOntology) ThreadedStatisticsCollector outcome" where
  "sample_registered = registerPlugin ram_ops fo_register_attribute (\<lambda>_ _ _. 0, 0) 5 sample_metrics sample_collector"

lemma sample_registered_Inr:
  "case sample_registered of Inl _ \<Rightarrow> False | Inr c \<Rightarrow> tc_pluginPerStatistics c = [5, 5] \<and> length (tc_statistics c) = 2"
  by code_simp

lemma sample_path:
  "case parsePath Map.empty ''host:node1'' of
     Some (Some ds) \<Rightarrow> length ds = 1 \<and> list_all (\<lambda>d. pcd_haveChildType d \<noteq> None) ds | _ \<Rightarrow> False"
  by code_simp

lemma sample_metrics_ok:
  "\<forall>m \<in> set sample_metrics. path_complete Map.empty m \<and> path_cost Map.empty m = 3"
  using sample_path
  by (auto simp: sample_metrics_def path_complete_def path_cost_def list_all_iff split: option.splits)

lemma fo_new_names: "fo_inv FileOntology_new \<and> fo_positive FileOntology_new \<and> fo_free FileOntology_new = 4294967294"
  by (simp add: fo_inv_def fo_positive_def fo_free_def FileOntology_new_def)

theorem collector_register_lookup_witness:
  "\<exists>c a. sample_registered = Inr c \<and>
     getStatistic ram_ops fo_lookup_attribute_by_name ''quantity/bytes'' ''host:node1'' c = Inr (Some a)"
proof -
  obtain c where c: "sample_registered = Inr c" using sample_registered_Inr by (auto split: sum.splits)
  let ?m = "sample_metrics ! 1"
  have cost: "map (path_cost Map.empty) sample_metrics = [3, 3]" using sample_metrics_ok by (simp add: sample_metrics_def)
  have "\<exists>a \<in> set (tc_statistics c). getStatistic ram_ops fo_lookup_attribute_by_name (mp_metrics ?m) (mp_topologyPath ?m) c = Inr (Some a)"
    by (rule collector_register_lookup [OF c [unfolded sample_registered_def]])
      (use sample_metrics_ok cost fo_new_names ram_inv_new in
        \<open>auto simp: sample_collector_def collector_new_def collector_ok_def sample_metrics_def ram_free_def RamTopology_new_def\<close>)
  then show ?thesis using c by (auto simp: sample_metrics_def)
qed

theorem unregister_leaves_statistics_witness:
  "\<exists>c. sample_registered = Inr c \<and> count (mset (tc_pluginPerStatistics (unregisterPlugin 5 c))) 5 = 1"
proof -
  obtain c where c: "sample_registered = Inr c" "tc_pluginPerStatistics c = [5, 5]"
    using sample_registered_Inr by (auto split: sum.splits)
  have "collector_ok sample_collector" unfolding sample_collector_def by (rule collector_ok_new)
  then have "collector_ok c" by (rule collector_ok_registerPlugin [OF _ c(1) [unfolded sample_registered_def]])
  from unregister_leaves_statistics [OF this, of 5 2] c show ?thesis by auto
qed

theorem collection_shows_poll_witness:
  "collection_nth (StatisticsCollection_new (\<lambda>_. VInvalid) [0 :: nat] False) 0 = Inl (Undefined ''null pointer'') \<and>
   (\<exists>c n. poll_round (\<lambda>_ vars. vars) 100 (sample_collector \<lparr>tc_collections := [4],
        tc_collection_objects := (\<lambda>_. StatisticsCollection_new (\<lambda>_. VInvalid) [0] True)\<rparr>) = Inr (c, n) \<and>
      collection_nth (fetchValues (tc_collection_objects c 4)) 0 = Inr (cur_value c 0))"
proof -
  let ?c = "sample_collector \<lparr>tc_collections := [4], tc_collection_objects := (\<lambda>_. StatisticsCollection_new (\<lambda>_. VInvalid) [0] True)\<rparr>"
  obtain c n where p: "poll_round (\<lambda>_ vars. vars) 100 ?c = Inr (c, n)" "tc_collections c = [4]"
    by (simp add: poll_round_def sample_collector_def collector_new_def Let_def push_collection_def pushValues_def
        StatisticsCollection_new_def)
  from collection_shows_poll [OF p(1), of 4 "\<lambda>_. VInvalid" "[0]" 0] p show ?thesis by auto
qed

end
