(* ===== verification/Reasoning_Datatypes.thy ===== *)
theory Reasoning_Datatypes
  imports Ids "HOL-Library.AList"
begin

text \<open>
  The data of the reasoner: \<open>include/knowledge/reasoner/ReasoningDatatypes.hpp\<close> (health states, issues
  and health reports) and \<open>include/knowledge/reasoner/AnomalyPlugin.hpp\<close> (the part of an anomaly
  detection plugin that collects observations until the reasoner asks for them). The hash maps of
  the source are association lists in the order in which the source iterates over them; no
  property depends on that order.
\<close>

section \<open>States and issues\<close>

datatype HealthState = ABNORMAL_GOOD | GOOD | OK | BAD | ABNORMAL_BAD | ABNORMAL_OTHER

definition all_states :: "HealthState list" where
  "all_states = [ABNORMAL_GOOD, GOOD, OK, BAD, ABNORMAL_BAD, ABNORMAL_OTHER]"

fun state_code :: "HealthState \<Rightarrow> nat" where
  "state_code ABNORMAL_GOOD = 0"
| "state_code GOOD = 1"
| "state_code OK = 2"
| "state_code BAD = 3"
| "state_code ABNORMAL_BAD = 4"
| "state_code ABNORMAL_OTHER = 5"

fun toString_HealthState :: "HealthState \<Rightarrow> string" where
  "toString_HealthState ABNORMAL_BAD = ''ABNORMAL_BAD''"
| "toString_HealthState ABNORMAL_GOOD = ''ABNORMAL_GOOD''"
| "toString_HealthState ABNORMAL_OTHER = ''ABNORMAL_OTHER''"
| "toString_HealthState GOOD = ''GOOD''"
| "toString_HealthState OK = ''OK''"
| "toString_HealthState BAD = ''BAD''"

datatype UtilizationIndex = CPU | MEMORY | IO | NETWORK

definition all_utilizations :: "UtilizationIndex list" where
  "all_utilizations = [CPU, MEMORY, IO, NETWORK]"

fun toString_UtilizationIndex :: "UtilizationIndex \<Rightarrow> string" where
  "toString_UtilizationIndex CPU = ''CPU''"
| "toString_UtilizationIndex MEMORY = ''MEMORY''"
| "toString_UtilizationIndex IO = ''IO''"
| "toString_UtilizationIndex NETWORK = ''NETWORK''"

record HealthIssue =
  hi_name :: string
  hi_occurrences :: u32
  hi_delta_time_ms :: u32

definition HealthIssue_make :: "string \<Rightarrow> u32 \<Rightarrow> u32 \<Rightarrow> HealthIssue" where
  "HealthIssue_make name occurrences delta =
     \<lparr>hi_name = name, hi_occurrences = occurrences, hi_delta_time_ms = delta\<rparr>"

definition HealthIssue_default :: HealthIssue where
  "HealthIssue_default = HealthIssue_make ''unspecified issue'' 0 0"

definition HealthIssue_named :: "string \<Rightarrow> HealthIssue" where
  "HealthIssue_named name = HealthIssue_make name 0 0"

definition HealthIssue_eq :: "HealthIssue \<Rightarrow> HealthIssue \<Rightarrow> bool" where
  "HealthIssue_eq a b \<longleftrightarrow> hi_name a = hi_name b \<and> hi_occurrences a = hi_occurrences b \<and>
     hi_delta_time_ms a = hi_delta_time_ms b"

text \<open>\<open>delta_time_ms\<close> is a signed number; its overflow is undefined, the unsigned counter wraps.\<close>

definition add_delta :: "u32 \<Rightarrow> u32 \<Rightarrow> u32 outcome" where
  "add_delta a b = bindr (add_signed 32 (sint a) (sint b)) (\<lambda>i. Inr (of_int i))"

definition HealthIssue_add :: "HealthIssue \<Rightarrow> HealthIssue \<Rightarrow> HealthIssue outcome" where
  "HealthIssue_add this hi =
     (if hi_name this = hi_name hi then
        bindr (add_delta (hi_delta_time_ms this) (hi_delta_time_ms hi)) (\<lambda>d.
        Inr (this \<lparr>hi_occurrences := hi_occurrences this + hi_occurrences hi, hi_delta_time_ms := d\<rparr>))
      else Inr this)"

definition show_HealthIssue :: "HealthIssue \<Rightarrow> string" where
  "show_HealthIssue issue = ''['' @ [CHR 0x22] @ hi_name issue @ [CHR 0x22] @ '', '' @
     dec_nat (unat (hi_occurrences issue)) @ ''x, '' @ dec_int (sint (hi_delta_time_ms issue)) @ '' ms]''"

text \<open>\<open>HealthIssueList::add\<close> for an issue and for a list.\<close>

fun issue_list_add :: "HealthIssue \<Rightarrow> HealthIssue list \<Rightarrow> HealthIssue list outcome" where
  "issue_list_add hi [] = Inr [hi]"
| "issue_list_add hi (x # xs) =
     (if hi_name x = hi_name hi then bindr (HealthIssue_add x hi) (\<lambda>y. Inr (y # xs))
      else bindr (issue_list_add hi xs) (\<lambda>ys. Inr (x # ys)))"

definition issue_list_add_list :: "HealthIssue list \<Rightarrow> HealthIssue list \<Rightarrow> HealthIssue list outcome" where
  "issue_list_add_list hil this = fold_outcome issue_list_add hil this"

type_synonym issue_map = "(string \<times> HealthIssue) list"

text \<open>\<open>HealthIssueMap::add\<close> for a list and for a map.\<close>

definition issue_map_enter :: "string \<Rightarrow> HealthIssue \<Rightarrow> issue_map \<Rightarrow> issue_map outcome" where
  "issue_map_enter key hi m =
     (case map_of m key of
        Some issue \<Rightarrow> bindr (HealthIssue_add issue hi) (\<lambda>y. Inr (AList.update key y m))
      | None \<Rightarrow> Inr (AList.update key hi m))"

definition issue_map_add_list :: "HealthIssue list \<Rightarrow> issue_map \<Rightarrow> issue_map outcome" where
  "issue_map_add_list hil this = fold_outcome (\<lambda>hi. issue_map_enter (hi_name hi) hi) hil this"

definition issue_map_add_map :: "issue_map \<Rightarrow> issue_map \<Rightarrow> issue_map outcome" where
  "issue_map_add_map him this = fold_outcome (\<lambda>(key, hi). issue_map_enter key hi) him this"

section \<open>Health reports\<close>

record Health =
  h_timeLastModified :: u64
  h_overallState :: HealthState
  h_occurrences :: "HealthState \<Rightarrow> u32"
  h_positiveIssues :: "HealthIssue list"
  h_negativeIssues :: "HealthIssue list"

record NodeHealth = Health +
  nh_utilization :: "UtilizationIndex \<Rightarrow> u8"
  nh_statistics :: "float32 list"

type_synonym SystemHealth = Health
type_synonym ProcessHealth = Health

definition Health_make :: "u64 \<Rightarrow> HealthState \<Rightarrow> (HealthState \<Rightarrow> u32) \<Rightarrow> HealthIssue list \<Rightarrow> HealthIssue list \<Rightarrow> Health" where
  "Health_make now state nOccurrences posIssues negIssues =
     \<lparr>h_timeLastModified = now, h_overallState = state, h_occurrences = nOccurrences,
      h_positiveIssues = posIssues, h_negativeIssues = negIssues\<rparr>"

definition Health_of_state :: "u64 \<Rightarrow> HealthState \<Rightarrow> Health" where
  "Health_of_state now state = Health_make now state (\<lambda>_. 0) [] []"

definition Health_new :: "u64 \<Rightarrow> Health" where
  "Health_new now = Health_make now OK (\<lambda>_. 0) [] []"

definition NODE_STATISTIC_COUNT :: nat where
  "NODE_STATISTIC_COUNT = 10"

definition NodeHealth_new :: "u64 \<Rightarrow> NodeHealth" where
  "NodeHealth_new now =
     \<lparr>h_timeLastModified = now, h_overallState = OK, h_occurrences = (\<lambda>_. 0), h_positiveIssues = [], h_negativeIssues = [],
      nh_utilization = (\<lambda>_. 0), nh_statistics = replicate NODE_STATISTIC_COUNT 0\<rparr>"

definition show_occurrences :: "(HealthState \<Rightarrow> u32) \<Rightarrow> string" where
  "show_occurrences occ =
     concat (map (\<lambda>s. '' | '' @ dec_nat (unat (occ s))) all_states) @ '' | '' @ [CHR 10]"

text \<open>\<open>to_string\<close> of an enumeration gives its number.\<close>

definition show_issues_and_time :: "'a Health_scheme \<Rightarrow> string" where
  "show_issues_and_time h =
     ''Issues:'' @ [CHR 9, CHR 9] @ ''+'' @ dec_nat (length (h_positiveIssues h)) @ [CHR 9] @
     ''-'' @ dec_nat (length (h_negativeIssues h)) @ [CHR 10] @
     ''Last Modified:'' @ [CHR 9] @ dec_nat (unat (h_timeLastModified h)) @ [CHR 10]"

definition show_Health :: "Health \<Rightarrow> string" where
  "show_Health h =
     ''State:    '' @ [CHR 9] @ dec_nat (state_code (h_overallState h)) @ [CHR 10] @
     ''Occurrences:'' @ [CHR 9] @ show_occurrences (h_occurrences h) @ show_issues_and_time h"

definition show_NodeHealth :: "NodeHealth \<Rightarrow> string" where
  "show_NodeHealth h =
     ''State:    '' @ [CHR 9] @ dec_nat (state_code (h_overallState h)) @ [CHR 10] @
     ''Utilization:'' @ [CHR 9] @
     concat (map (\<lambda>u. '' | '' @ dec_nat (unat (nh_utilization h u))) all_utilizations) @ '' | '' @ [CHR 10] @
     ''Occurrences:'' @ [CHR 9] @ show_occurrences (h_occurrences h) @ show_issues_and_time h"

section \<open>Anomaly plugins\<close>

record AnomalyPluginHealthStatistic =
  ps_cid :: ComponentID
  ps_occurrences :: "HealthState \<Rightarrow> u32"
  ps_positiveIssues :: issue_map
  ps_negativeIssues :: issue_map

type_synonym observations = "(ComponentID \<times> AnomalyPluginHealthStatistic) list"

definition statistic_empty :: "ComponentID \<Rightarrow> AnomalyPluginHealthStatistic" where
  "statistic_empty cid =
     \<lparr>ps_cid = cid, ps_occurrences = (\<lambda>_. 0), ps_positiveIssues = [], ps_negativeIssues = []\<rparr>"

definition addIssueSafely :: "string \<Rightarrow> u32 \<Rightarrow> issue_map \<Rightarrow> issue_map outcome" where
  "addIssueSafely issue delta m =
     (case map_of m issue of
        None \<Rightarrow> Inr (AList.update issue (HealthIssue_make issue 1 delta) m)
      | Some health \<Rightarrow>
          bindr (add_delta (hi_delta_time_ms health) delta) (\<lambda>d.
          Inr (AList.update issue (health \<lparr>hi_occurrences := hi_occurrences health + 1, hi_delta_time_ms := d\<rparr>) m)))"

definition addObservation ::
  "ComponentID \<Rightarrow> HealthState \<Rightarrow> string \<Rightarrow> u32 \<Rightarrow> observations \<Rightarrow> observations outcome" where
  "addObservation cid state issue delta recent =
     (let stat = (case map_of recent cid of Some st \<Rightarrow> st | None \<Rightarrow> statistic_empty cid);
          stat1 = stat \<lparr>ps_occurrences := (ps_occurrences stat)(state := ps_occurrences stat state + 1)\<rparr>
      in bindr (if issue \<noteq> [] \<and> state_code state < state_code OK
                then bindr (addIssueSafely issue delta (ps_positiveIssues stat1)) (\<lambda>m. Inr (stat1 \<lparr>ps_positiveIssues := m\<rparr>))
                else if issue \<noteq> [] \<and> state_code OK < state_code state
                then bindr (addIssueSafely issue delta (ps_negativeIssues stat1)) (\<lambda>m. Inr (stat1 \<lparr>ps_negativeIssues := m\<rparr>))
                else Inr stat1)
           (\<lambda>stat2. Inr (AList.update cid stat2 recent)))"

text \<open>The map is handed out and replaced by an empty one.\<close>

definition queryRecentObservations :: "observations \<Rightarrow> observations \<times> observations" where
  "queryRecentObservations recent = (recent, [])"

section \<open>What the observations say\<close>

text \<open>Occurrences of a state and of an issue, zero for what was not observed.\<close>

definition occ_of :: "issue_map \<Rightarrow> string \<Rightarrow> u32" where
  "occ_of m name = (case map_of m name of None \<Rightarrow> 0 | Some hi \<Rightarrow> hi_occurrences hi)"

definition seen :: "observations \<Rightarrow> ComponentID \<Rightarrow> HealthState \<Rightarrow> u32" where
  "seen obs cid state = (case map_of obs cid of None \<Rightarrow> 0 | Some st \<Rightarrow> ps_occurrences st state)"

definition seen_positive :: "observations \<Rightarrow> ComponentID \<Rightarrow> string \<Rightarrow> u32" where
  "seen_positive obs cid name = (case map_of obs cid of None \<Rightarrow> 0 | Some st \<Rightarrow> occ_of (ps_positiveIssues st) name)"

definition seen_negative :: "observations \<Rightarrow> ComponentID \<Rightarrow> string \<Rightarrow> u32" where
  "seen_negative obs cid name = (case map_of obs cid of None \<Rightarrow> 0 | Some st \<Rightarrow> occ_of (ps_negativeIssues st) name)"

lemmas seen_defs = seen_def seen_positive_def seen_negative_def

lemma seen_Nil [simp]: "seen [] c s = 0" "seen_positive [] c n = 0" "seen_negative [] c n = 0"
  by (simp_all add: seen_defs)

lemma occ_of_Nil [simp]: "occ_of [] n = 0"
  by (simp add: occ_of_def)

text \<open>An issue is entered under its own name.\<close>

definition issue_map_ok :: "issue_map \<Rightarrow> bool" where
  "issue_map_ok m \<longleftrightarrow> distinct (map fst m) \<and> (\<forall>k hi. map_of m k = Some hi \<longrightarrow> hi_name hi = k)"

definition observations_ok :: "observations \<Rightarrow> bool" where
  "observations_ok obs \<longleftrightarrow> distinct (map fst obs) \<and>
     (\<forall>c st. map_of obs c = Some st \<longrightarrow> ps_cid st = c \<and> issue_map_ok (ps_positiveIssues st) \<and> issue_map_ok (ps_negativeIssues st))"

lemma issue_map_okD: "issue_map_ok m \<Longrightarrow> map_of m k = Some hi \<Longrightarrow> hi_name hi = k"
  by (simp add: issue_map_ok_def)

lemma issue_map_ok_update: "issue_map_ok m \<Longrightarrow> hi_name hi = k \<Longrightarrow> issue_map_ok (AList.update k hi m)"
  by (auto simp: issue_map_ok_def distinct_update AList.update_conv')

lemma observations_okD:
  assumes "observations_ok obs" and "map_of obs c = Some st"
  shows "ps_cid st = c" "issue_map_ok (ps_positiveIssues st)" "issue_map_ok (ps_negativeIssues st)"
  using assms by (simp_all add: observations_ok_def)

lemma observations_ok_update:
  assumes "observations_ok obs" and "ps_cid st = c" and "issue_map_ok (ps_positiveIssues st)" and "issue_map_ok (ps_negativeIssues st)"
  shows "observations_ok (AList.update c st obs)"
  using assms by (auto simp: observations_ok_def distinct_update AList.update_conv')

lemma occ_of_update: "occ_of (AList.update k hi m) n = (if n = k then hi_occurrences hi else occ_of m n)"
  by (simp add: occ_of_def AList.update_conv')

lemma addIssueSafely_ok:
  assumes "addIssueSafely issue d m = Inr m'" and "issue_map_ok m"
  shows "issue_map_ok m' \<and> (\<forall>n. occ_of m' n = occ_of m n + (if n = issue then 1 else 0))"
  using assms issue_map_okD [OF assms(2)]
  by (auto simp: addIssueSafely_def bindr_Inr_iff occ_of_update HealthIssue_make_def
      intro!: issue_map_ok_update split: option.splits) (simp_all add: occ_of_def)

definition positive_state :: "HealthState \<Rightarrow> bool" where
  "positive_state s \<longleftrightarrow> state_code s < state_code OK"

definition negative_state :: "HealthState \<Rightarrow> bool" where
  "negative_state s \<longleftrightarrow> state_code OK < state_code s"

lemma issue_map_ok_Nil [simp]: "issue_map_ok []"
  by (simp add: issue_map_ok_def)

text \<open>One observation counts once, for its component and state, and under its issue.\<close>

lemma addObservation_ok:
  assumes "addObservation cid state issue d obs = Inr obs'" and "observations_ok obs"
  shows "observations_ok obs'"
    and "seen obs' c s = seen obs c s + (if c = cid \<and> s = state then 1 else 0)"
    and "seen_positive obs' c n = seen_positive obs c n +
      (if c = cid \<and> n = issue \<and> issue \<noteq> [] \<and> positive_state state then 1 else 0)"
    and "seen_negative obs' c n = seen_negative obs c n +
      (if c = cid \<and> n = issue \<and> issue \<noteq> [] \<and> negative_state state then 1 else 0)"
proof -
  let ?st = "case map_of obs cid of Some st \<Rightarrow> st | None \<Rightarrow> statistic_empty cid"
  let ?st1 = "?st \<lparr>ps_occurrences := (ps_occurrences ?st)(state := ps_occurrences ?st state + 1)\<rparr>"
  have st: "ps_cid ?st = cid" "issue_map_ok (ps_positiveIssues ?st)" "issue_map_ok (ps_negativeIssues ?st)"
    using observations_okD [OF assms(2)] by (auto simp: statistic_empty_def split: option.splits)
  have old: "seen obs cid s = ps_occurrences ?st s" "seen_positive obs cid n = occ_of (ps_positiveIssues ?st) n"
    "seen_negative obs cid n = occ_of (ps_negativeIssues ?st) n" for s n
    by (auto simp: seen_defs statistic_empty_def split: option.splits)
  obtain st2 where obs': "obs' = AList.update cid st2 obs" and st2: "ps_cid st2 = cid"
      "ps_occurrences st2 = ps_occurrences ?st1"
      "issue_map_ok (ps_positiveIssues st2)" "issue_map_ok (ps_negativeIssues st2)"
      "\<And>n. occ_of (ps_positiveIssues st2) n = occ_of (ps_positiveIssues ?st) n +
        (if n = issue \<and> issue \<noteq> [] \<and> positive_state state then 1 else 0)"
      "\<And>n. occ_of (ps_negativeIssues st2) n = occ_of (ps_negativeIssues ?st) n +
        (if n = issue \<and> issue \<noteq> [] \<and> negative_state state then 1 else 0)"
  proof (cases "issue \<noteq> [] \<and> positive_state state")
    case True
    then have "\<not> negative_state state" by (simp add: positive_state_def negative_state_def)
    moreover obtain m where "addIssueSafely issue d (ps_positiveIssues ?st) = Inr m"
      "obs' = AList.update cid (?st1 \<lparr>ps_positiveIssues := m\<rparr>) obs"
      using assms(1) True by (auto simp: addObservation_def Let_def bindr_Inr_iff positive_state_def)
    ultimately show thesis
      using addIssueSafely_ok [of issue d "ps_positiveIssues ?st" m] True st
      by (intro that [of "?st1 \<lparr>ps_positiveIssues := m\<rparr>"]) auto
  next
    case False
    show thesis
    proof (cases "issue \<noteq> [] \<and> negative_state state")
      case True
      moreover obtain m where "addIssueSafely issue d (ps_negativeIssues ?st) = Inr m"
        "obs' = AList.update cid (?st1 \<lparr>ps_negativeIssues := m\<rparr>) obs"
        using assms(1) True False
        by (auto simp: addObservation_def Let_def bindr_Inr_iff positive_state_def negative_state_def)
      ultimately show thesis
        using addIssueSafely_ok [of issue d "ps_negativeIssues ?st" m] False st
        by (intro that [of "?st1 \<lparr>ps_negativeIssues := m\<rparr>"]) auto
    next
      case neither: False
      have "obs' = AList.update cid ?st1 obs"
        using assms(1) False neither
        by (auto simp: addObservation_def Let_def positive_state_def negative_state_def split: if_splits)
      then show thesis using False neither st by (intro that [of ?st1]) auto
    qed
  qed
  show "observations_ok obs'" unfolding obs' by (rule observations_ok_update [OF assms(2) st2(1,3,4)])
  have upd: "map_of obs' c = (if c = cid then Some st2 else map_of obs c)" for c
    by (simp add: obs' AList.update_conv')
  show "seen obs' c s = seen obs c s + (if c = cid \<and> s = state then 1 else 0)"
    using old(1) [of s] st2(2) by (auto simp: seen_def upd)
  show "seen_positive obs' c n = seen_positive obs c n +
      (if c = cid \<and> n = issue \<and> issue \<noteq> [] \<and> positive_state state then 1 else 0)"
    using old(2) [of n] st2(5) [of n] by (auto simp: seen_positive_def upd)
  show "seen_negative obs' c n = seen_negative obs c n +
      (if c = cid \<and> n = issue \<and> issue \<noteq> [] \<and> negative_state state then 1 else 0)"
    using old(3) [of n] st2(6) [of n] by (auto simp: seen_negative_def upd)
qed

end
