(* ===== verification/Reasoner.thy ===== *)
theory Reasoner
  imports Reasoning_Datatypes
begin

text \<open>
  The reasoner: \<open>knowledge/reasoner/modules/ReasonerStandardImplementation.{hpp,cpp}\<close> and the protocol between
  reasoners, \<open>knowledge/reasoner/modules/ReasonerCommunication.cpp\<close>. A cycle of the periodic thread asks
  the anomaly plugins for their observations, adds them up, looks for anomalies, assesses the
  health of its level, pushes it to the reasoner above and calls the triggers. The local
  variables of \<open>PeriodicRun\<close> that live from one cycle to the next are fields of the state. What
  the serialization code makes of a message is a parameter of the protocol, since that code is
  generated. The constructor leaves the role unset; \<open>NONE\<close> stands for it until \<open>init\<close>.
\<close>

datatype Role = SYSTEM | NODE | PROCESS | NONE

record Reasoner =
  re_role :: Role
  re_id :: string
  re_triggers :: "nat list"
  re_adpis :: "nat list"
  re_update_intervall_ms :: u32
  re_upstreamReasonerExists :: bool
  re_nPushesSent :: u64
  re_nPushesReceived :: u64
  re_anomaliesTriggered :: u64
  re_cyclesTriggered :: u64
  re_node_statistics :: "float64 list"
  re_processHealth :: "ProcessHealth option"
  re_nodeHealth :: "NodeHealth option"
  re_systemHealth :: "SystemHealth option"
  re_childProcessesHealthMap :: "(string \<rightharpoonup> ProcessHealth) option"
  re_childNodesHealthMap :: "(string \<rightharpoonup> NodeHealth) option"
  re_gatheredStatistics :: observations
  re_observationTotal :: u64
  re_observationCounts :: "HealthState \<Rightarrow> u64"
  re_observationRatios :: "HealthState \<Rightarrow> int"
  re_oldObservationTotal :: u64
  re_oldObservationCounts :: "HealthState \<Rightarrow> u64"
  re_oldObservationRatios :: "HealthState \<Rightarrow> int"
  re_anomalyDetected :: bool
  re_persistingAnomaly :: bool

definition Reasoner_new :: Reasoner where
  "Reasoner_new =
     \<lparr>re_role = NONE, re_id = [], re_triggers = [], re_adpis = [], re_update_intervall_ms = -1,
      re_upstreamReasonerExists = False, re_nPushesSent = 0, re_nPushesReceived = 0, re_anomaliesTriggered = 0,
      re_cyclesTriggered = 0, re_node_statistics = replicate NODE_STATISTIC_COUNT 0, re_processHealth = None,
      re_nodeHealth = None, re_systemHealth = None, re_childProcessesHealthMap = None, re_childNodesHealthMap = None,
      re_gatheredStatistics = [], re_observationTotal = 0, re_observationCounts = (\<lambda>_. 0), re_observationRatios = (\<lambda>_. 0),
      re_oldObservationTotal = 0, re_oldObservationCounts = (\<lambda>_. 0), re_oldObservationRatios = (\<lambda>_. 0),
      re_anomalyDetected = False, re_persistingAnomaly = False\<rparr>"

text \<open>\<open>init\<close> with the options it reads; \<open>now\<close> is the clock.\<close>

definition reasoner_init :: "u64 \<Rightarrow> string \<Rightarrow> Role \<Rightarrow> u32 \<Rightarrow> string \<Rightarrow> Reasoner \<Rightarrow> Reasoner" where
  "reasoner_init now reasonerID role interval upstream r =
     (let r1 = r \<lparr>re_id := reasonerID, re_role := role\<rparr>;
          r2 = (case role of
              SYSTEM \<Rightarrow> r1 \<lparr>re_systemHealth := Some (Health_new now), re_childNodesHealthMap := Some Map.empty\<rparr>
            | NODE \<Rightarrow> r1 \<lparr>re_systemHealth := Some (Health_new now), re_nodeHealth := Some (NodeHealth_new now),
                          re_childProcessesHealthMap := Some Map.empty\<rparr>
            | PROCESS \<Rightarrow> r1 \<lparr>re_nodeHealth := Some (NodeHealth_new now), re_processHealth := Some (Health_new now)\<rparr>
            | NONE \<Rightarrow> r1)
      in r2 \<lparr>re_update_intervall_ms := interval, re_upstreamReasonerExists := upstream \<noteq> []\<rparr>)"

definition connectAnomalyPlugin :: "nat \<Rightarrow> Reasoner \<Rightarrow> Reasoner outcome" where
  "connectAnomalyPlugin plugin r =
     (if plugin \<in> set (re_adpis r) then Inl (Abort ''plugin is connected already'')
      else Inr (r \<lparr>re_adpis := re_adpis r @ [plugin]\<rparr>))"

definition connectTrigger :: "nat \<Rightarrow> Reasoner \<Rightarrow> Reasoner outcome" where
  "connectTrigger trigger r =
     (if trigger \<in> set (re_triggers r) then Inl (Abort ''trigger is connected already'')
      else Inr (r \<lparr>re_triggers := re_triggers r @ [trigger]\<rparr>))"

section \<open>Collecting observations\<close>

definition merge_state ::
  "ComponentID \<Rightarrow> AnomalyPluginHealthStatistic \<Rightarrow> HealthState \<Rightarrow> observations \<Rightarrow> observations" where
  "merge_state cid report state gathered =
     (let st = (case map_of gathered cid of Some st \<Rightarrow> st | None \<Rightarrow> statistic_empty cid)
      in AList.update cid (st \<lparr>ps_cid := cid, ps_occurrences :=
           (ps_occurrences st)(state := ps_occurrences st state + ps_occurrences report state)\<rparr>) gathered)"

definition merge_local_state ::
  "AnomalyPluginHealthStatistic \<Rightarrow> HealthState \<Rightarrow> 'a Health_scheme \<Rightarrow> 'a Health_scheme" where
  "merge_local_state report state h =
     h \<lparr>h_occurrences := (h_occurrences h)(state := h_occurrences h state + ps_occurrences report state)\<rparr>"

definition merge_gathered_issue :: "string \<Rightarrow> HealthIssue \<Rightarrow> issue_map \<Rightarrow> issue_map outcome" where
  "merge_gathered_issue name issue target =
     (case map_of target name of
        None \<Rightarrow> Inr (AList.update name (HealthIssue_make name (hi_occurrences issue) (hi_delta_time_ms issue)) target)
      | Some precedent \<Rightarrow> bindr (HealthIssue_add precedent issue) (\<lambda>y. Inr (AList.update name y target)))"

text \<open>
  The search in the local list keeps the address of the loop variable, which is a copy that is
  gone when the loop ends; adding to it is undefined.
\<close>

definition merge_local_issue :: "string \<Rightarrow> HealthIssue \<Rightarrow> HealthIssue list \<Rightarrow> HealthIssue list outcome" where
  "merge_local_issue name issue target =
     (if \<exists>candidate \<in> set target. hi_name candidate = name then Inl (Undefined ''use of a dangling pointer'')
      else Inr (target @ [HealthIssue_make name (hi_occurrences issue) (hi_delta_time_ms issue)]))"

definition merge_issue ::
  "string \<times> HealthIssue \<Rightarrow> issue_map \<times> HealthIssue list \<Rightarrow> (issue_map \<times> HealthIssue list) outcome" where
  "merge_issue e t =
     bindr (merge_gathered_issue (fst e) (snd e) (fst t)) (\<lambda>m.
     bindr (merge_local_issue (fst e) (snd e) (snd t)) (\<lambda>l. Inr (m, l)))"

definition merge_report ::
  "ComponentID \<times> AnomalyPluginHealthStatistic \<Rightarrow> observations \<times> 'a Health_scheme \<Rightarrow>
   (observations \<times> 'a Health_scheme) outcome" where
  "merge_report rep t =
     (let cid = fst rep; report = snd rep;
          g1 = fold (merge_state cid report) all_states (fst t);
          h1 = fold (merge_local_state report) all_states (snd t);
          st = the (map_of g1 cid)
      in bindr (fold_outcome merge_issue (ps_positiveIssues report) (ps_positiveIssues st, h_positiveIssues h1)) (\<lambda>(pm, pl).
         bindr (fold_outcome merge_issue (ps_negativeIssues report) (ps_negativeIssues st, h_negativeIssues h1)) (\<lambda>(nm, nl).
         Inr (AList.update cid (st \<lparr>ps_positiveIssues := pm, ps_negativeIssues := nm\<rparr>) g1,
              h1 \<lparr>h_positiveIssues := pl, h_negativeIssues := nl\<rparr>))))"

text \<open>The plugins' observations by plugin; querying empties them.\<close>

definition merge_adpi ::
  "nat \<Rightarrow> (nat \<Rightarrow> observations) \<times> observations \<times> 'a Health_scheme \<Rightarrow>
   ((nat \<Rightarrow> observations) \<times> observations \<times> 'a Health_scheme) outcome" where
  "merge_adpi adpi t =
     (case t of (pl, g, h) \<Rightarrow>
        (case queryRecentObservations (pl adpi) of (newObservations, rest) \<Rightarrow>
           bindr (fold_outcome merge_report newObservations (g, h)) (\<lambda>(g', h'). Inr (pl(adpi := rest), g', h'))))"

definition collect ::
  "(nat \<Rightarrow> observations) \<Rightarrow> Reasoner \<Rightarrow> ((nat \<Rightarrow> observations) \<times> Reasoner) outcome" where
  "collect pl r =
     (case re_role r of
        PROCESS \<Rightarrow> (case re_processHealth r of
            None \<Rightarrow> Inl (Undefined ''localHealth is null'')
          | Some h \<Rightarrow> bindr (fold_outcome merge_adpi (re_adpis r) (pl, re_gatheredStatistics r, h)) (\<lambda>(pl', g, h').
              Inr (pl', r \<lparr>re_gatheredStatistics := g, re_processHealth := Some h'\<rparr>)))
      | NODE \<Rightarrow> (case re_nodeHealth r of
            None \<Rightarrow> Inl (Undefined ''localHealth is null'')
          | Some h \<Rightarrow> bindr (fold_outcome merge_adpi (re_adpis r) (pl, re_gatheredStatistics r, h)) (\<lambda>(pl', g, h').
              Inr (pl', r \<lparr>re_gatheredStatistics := g, re_nodeHealth := Some h'\<rparr>)))
      | SYSTEM \<Rightarrow> (case re_systemHealth r of
            None \<Rightarrow> Inl (Undefined ''localHealth is null'')
          | Some h \<Rightarrow> bindr (fold_outcome merge_adpi (re_adpis r) (pl, re_gatheredStatistics r, h)) (\<lambda>(pl', g, h').
              Inr (pl', r \<lparr>re_gatheredStatistics := g, re_systemHealth := Some h'\<rparr>)))
      | NONE \<Rightarrow> Inl (Abort ''Invalid process role!''))"

section \<open>Detecting anomalies\<close>

definition sum_counts :: "observations \<Rightarrow> HealthState \<Rightarrow> u64" where
  "sum_counts gathered state = sum_list (map (\<lambda>e. ucast (ps_occurrences (snd e) state)) gathered)"

text \<open>\<open>count * (float) (100.0 / total)\<close>, converted to \<open>int\<close>.\<close>

definition percent :: "u64 \<Rightarrow> u64 \<Rightarrow> int outcome" where
  "percent cnt tot =
     (let scale = f32_of_f64 (f64_div (f64_of_int 100) (f64_of_int (uint tot)))
      in case fp_trunc 24 8 (unat (f32_mul (f32_of_int (uint cnt)) scale)) of
           None \<Rightarrow> Inl (Undefined ''float to int'')
         | Some i \<Rightarrow> if fits_signed 32 i then Inr i else Inl (Undefined ''float to int''))"

definition update_counts :: "Reasoner \<Rightarrow> Reasoner outcome" where
  "update_counts r =
     (let counts = sum_counts (re_gatheredStatistics r);
          tot = sum_list (map counts all_states);
          r1 = r \<lparr>re_oldObservationCounts := re_observationCounts r, re_oldObservationRatios := re_observationRatios r,
                 re_oldObservationTotal := re_observationTotal r, re_observationCounts := counts, re_observationTotal := tot\<rparr>
      in if 0 < tot
         then bindr (fold_outcome (\<lambda>s f. bindr (percent (counts s) tot) (\<lambda>p. Inr (f(s := p)))) all_states (re_observationRatios r))
                (\<lambda>ratios. Inr (r1 \<lparr>re_observationRatios := ratios\<rparr>))
         else Inr r1)"

definition abnormal :: "HealthState \<Rightarrow> bool" where
  "abnormal s \<longleftrightarrow> s = ABNORMAL_BAD \<or> s = ABNORMAL_GOOD \<or> s = ABNORMAL_OTHER"

definition check_state :: "Reasoner \<Rightarrow> HealthState \<Rightarrow> bool \<Rightarrow> bool outcome" where
  "check_state r s anomaly =
     bindr (if s \<noteq> OK
            then bindr (add_signed 32 (re_observationRatios r s) (- re_oldObservationRatios r s))
                   (\<lambda>diff. Inr (anomaly \<or> 2 \<le> \<bar>diff\<bar>))
            else Inr anomaly)
       (\<lambda>a. Inr (a \<or> abnormal s \<and> re_oldObservationCounts r s < re_observationCounts r s))"

definition detect :: "Reasoner \<Rightarrow> Reasoner outcome" where
  "detect r =
     bindr (if re_observationTotal r \<noteq> re_oldObservationTotal r then fold_outcome (check_state r) all_states (re_anomalyDetected r)
            else Inr (re_anomalyDetected r)) (\<lambda>a.
     case re_role r of
       PROCESS \<Rightarrow> (case re_nodeHealth r of
           None \<Rightarrow> Inl (Undefined ''nodeHealth is null'')
         | Some nh \<Rightarrow> Inr (r \<lparr>re_anomalyDetected := a \<or>
             h_overallState nh \<noteq> GOOD \<and> h_overallState nh \<noteq> BAD \<and> h_overallState nh \<noteq> OK\<rparr>))
     | _ \<Rightarrow> Inr (r \<lparr>re_anomalyDetected := a\<rparr>))"

section \<open>Assessment\<close>

definition node_state :: "(HealthState \<Rightarrow> u32) \<Rightarrow> (HealthState \<Rightarrow> int) \<Rightarrow> HealthState" where
  "node_state occ ratio =
     (if occ ABNORMAL_GOOD \<noteq> 0 \<or> occ ABNORMAL_BAD \<noteq> 0 \<or> occ ABNORMAL_OTHER \<noteq> 0 then
        (if 1 \<le> ratio ABNORMAL_GOOD \<and> 2 * ratio ABNORMAL_BAD < ratio ABNORMAL_GOOD \<and>
            2 * ratio ABNORMAL_OTHER < ratio ABNORMAL_GOOD then ABNORMAL_GOOD
         else if 1 \<le> ratio ABNORMAL_BAD \<and> 2 * ratio ABNORMAL_GOOD < ratio ABNORMAL_BAD \<and>
            2 * ratio ABNORMAL_OTHER < ratio ABNORMAL_BAD then ABNORMAL_BAD
         else ABNORMAL_OTHER)
      else if 5 < ratio GOOD \<and> 3 * ratio BAD < ratio GOOD then GOOD
      else if 5 < ratio BAD \<and> 3 * ratio GOOD < ratio BAD then BAD
      else OK)"

definition overload_step :: "UtilizationIndex \<Rightarrow> NodeHealth \<Rightarrow> NodeHealth" where
  "overload_step i nh =
     (if 80 < nh_utilization nh i
      then nh \<lparr>h_negativeIssues := h_negativeIssues nh @ [HealthIssue_make (toString_UtilizationIndex i @ '' overloaded'') 1 0],
               h_overallState := OK\<rparr>
      else nh)"

definition assessNodeHealth :: "u64 \<Rightarrow> Reasoner \<Rightarrow> Reasoner outcome" where
  "assessNodeHealth now r =
     (case re_nodeHealth r of
        None \<Rightarrow> Inl (Undefined ''nodeHealth is null'')
      | Some nodeHealth \<Rightarrow>
          let newHealth = (NodeHealth_new now) \<lparr>h_overallState := node_state (h_occurrences nodeHealth) (re_observationRatios r)\<rparr>;
              st = h_overallState newHealth;
              newHealth1 = (if st = BAD \<or> st = ABNORMAL_BAD \<or> st = ABNORMAL_OTHER
                            then fold overload_step all_utilizations newHealth else newHealth)
          in Inr (r \<lparr>re_nodeHealth := Some newHealth1\<rparr>))"

definition assessProcessHealth :: "u64 \<Rightarrow> Reasoner \<Rightarrow> Reasoner" where
  "assessProcessHealth now r = r \<lparr>re_processHealth := Some (Health_new now)\<rparr>"

definition assessSystemHealth :: "u64 \<Rightarrow> Reasoner \<Rightarrow> Reasoner" where
  "assessSystemHealth now r = r \<lparr>re_systemHealth := Some (Health_new now)\<rparr>"

datatype message = MsgNone | MsgProcess string ProcessHealth | MsgNode string NodeHealth | MsgSystem string SystemHealth

text \<open>The message that is pushed to the reasoner above, if there is one.\<close>

definition push_upstream :: "message \<Rightarrow> Reasoner \<Rightarrow> Reasoner \<times> message option" where
  "push_upstream m r =
     (if re_upstreamReasonerExists r then (r \<lparr>re_nPushesSent := re_nPushesSent r + 1\<rparr>, Some m) else (r, None))"

definition assess_and_push :: "u64 \<Rightarrow> Reasoner \<Rightarrow> (Reasoner \<times> message option) outcome" where
  "assess_and_push now r =
     (case re_role r of
        PROCESS \<Rightarrow> let r1 = assessProcessHealth now r in Inr (push_upstream (MsgProcess (re_id r1) (the (re_processHealth r1))) r1)
      | NODE \<Rightarrow> bindr (assessNodeHealth now r) (\<lambda>r1. Inr (push_upstream (MsgNode (re_id r1) (the (re_nodeHealth r1))) r1))
      | SYSTEM \<Rightarrow> let r1 = assessSystemHealth now r in Inr (push_upstream (MsgSystem (re_id r1) (the (re_systemHealth r1))) r1)
      | NONE \<Rightarrow> Inr (r, None))"

section \<open>A cycle\<close>

text \<open>The part that holds the data mutex, and the part after it.\<close>

definition periodic_data ::
  "u64 \<Rightarrow> (nat \<Rightarrow> observations) \<Rightarrow> Reasoner \<Rightarrow> ((nat \<Rightarrow> observations) \<times> Reasoner \<times> message option) outcome" where
  "periodic_data now pl r =
     (let r0 = r \<lparr>re_cyclesTriggered := re_cyclesTriggered r + 1, re_persistingAnomaly := re_anomalyDetected r,
                  re_anomalyDetected := False\<rparr>
      in bindr (collect pl r0) (\<lambda>(pl', r1).
         bindr (update_counts r1) (\<lambda>r2.
         bindr (detect r2) (\<lambda>r3.
         bindr (assess_and_push now r3) (\<lambda>(r4, push). Inr (pl', r4, push))))))"

definition fetch_statistics :: "VariableDatatype list option \<Rightarrow> Reasoner \<Rightarrow> Reasoner outcome" where
  "fetch_statistics stats r =
     (case stats of
        None \<Rightarrow> Inr r
      | Some vals \<Rightarrow>
          (case re_nodeHealth r of
             None \<Rightarrow> Inl (Undefined ''nodeHealth is null'')
           | Some nh \<Rightarrow>
               bindr (map_outcome (\<lambda>i. bindr (vd_toFloat (vals ! i)) (\<lambda>d. Inr (f32_of_f64 d))) [0 ..< NODE_STATISTIC_COUNT])
                 (\<lambda>fs. Inr (r \<lparr>re_nodeHealth := Some (nh \<lparr>nh_statistics := fs\<rparr>)\<rparr>))))"

definition periodic_finish :: "VariableDatatype list option \<Rightarrow> Reasoner \<Rightarrow> (Reasoner \<times> nat list) outcome" where
  "periodic_finish stats r =
     bindr (fetch_statistics stats r) (\<lambda>r1.
     let r2 = (if re_anomalyDetected r1 then r1 \<lparr>re_anomaliesTriggered := re_anomaliesTriggered r1 + 1\<rparr> else r1)
     in Inr (r2, if re_anomalyDetected r2 \<or> re_persistingAnomaly r2 then re_triggers r2 else []))"

definition periodic_cycle ::
  "u64 \<Rightarrow> VariableDatatype list option \<Rightarrow> (nat \<Rightarrow> observations) \<Rightarrow> Reasoner
   \<Rightarrow> ((nat \<Rightarrow> observations) \<times> Reasoner \<times> message option \<times> nat list) outcome" where
  "periodic_cycle now stats pl r =
     bindr (periodic_data now pl r) (\<lambda>(pl', r1, push).
     bindr (periodic_finish stats r1) (\<lambda>(r2, fired). Inr (pl', r2, push, fired)))"

section \<open>Messages from other reasoners\<close>

definition queryRuntimePerformanceIssues :: "Reasoner \<Rightarrow> observations" where
  "queryRuntimePerformanceIssues r = re_gatheredStatistics r"

definition getProcessHealth :: "Reasoner \<Rightarrow> ProcessHealth option" where
  "getProcessHealth r = (if re_role r = PROCESS then re_processHealth r else None)"

definition getNodeHealth :: "Reasoner \<Rightarrow> NodeHealth option" where
  "getNodeHealth r = (if re_role r = NODE then re_nodeHealth r else None)"

definition getSystemHealth :: "Reasoner \<Rightarrow> SystemHealth option" where
  "getSystemHealth r = (if re_role r = SYSTEM then re_systemHealth r else None)"

definition received_one :: "Reasoner \<Rightarrow> Reasoner" where
  "received_one r = r \<lparr>re_nPushesReceived := re_nPushesReceived r + 1\<rparr>"

definition receivedReasonerProcessHealth :: "string \<Rightarrow> ProcessHealth \<Rightarrow> Reasoner \<Rightarrow> Reasoner outcome" where
  "receivedReasonerProcessHealth reasonerID health r =
     bindr (if re_role r = NODE then
              (case re_childProcessesHealthMap r of
                 None \<Rightarrow> Inl (Undefined ''childProcessesHealthMap is null'')
               | Some m \<Rightarrow> Inr (r \<lparr>re_childProcessesHealthMap := Some (m(reasonerID \<mapsto> health))\<rparr>))
            else if reasonerID = ''INJECT'' then Inr (r \<lparr>re_processHealth := Some health\<rparr>)
            else Inr r) (\<lambda>r1. Inr (received_one r1))"

text \<open>\<open>node_statistics[i] += health.statistics[i]\<close> widens the float.\<close>

definition receivedReasonerNodeHealth :: "string \<Rightarrow> NodeHealth \<Rightarrow> Reasoner \<Rightarrow> Reasoner outcome" where
  "receivedReasonerNodeHealth reasonerID health r =
     bindr (if re_role r = SYSTEM then
              (case re_childNodesHealthMap r of
                 None \<Rightarrow> Inl (Undefined ''childNodesHealthMap is null'')
               | Some m \<Rightarrow> Inr (r \<lparr>re_childNodesHealthMap := Some (m(reasonerID \<mapsto> health))\<rparr>))
            else if re_role r = PROCESS then
              Inr (r \<lparr>re_node_statistics := map (\<lambda>i. f64_add (re_node_statistics r ! i) (f64_of_f32 (nh_statistics health ! i)))
                         [0 ..< NODE_STATISTIC_COUNT],
                      re_nodeHealth := Some health\<rparr>)
            else if reasonerID = ''INJECT'' then Inr (r \<lparr>re_nodeHealth := Some health\<rparr>)
            else Inr r) (\<lambda>r1. Inr (received_one r1))"

definition receivedReasonerSystemHealth :: "string \<Rightarrow> SystemHealth \<Rightarrow> Reasoner \<Rightarrow> Reasoner" where
  "receivedReasonerSystemHealth reasonerID health r =
     received_one (if re_role r = NODE then r \<lparr>re_systemHealth := Some health\<rparr>
                   else if reasonerID = ''INJECT'' then r \<lparr>re_systemHealth := Some health\<rparr>
                   else r)"

section \<open>The protocol\<close>

text \<open>
  \<open>parseReceivedData\<close>: the message is handed to the reasoner; the result is the kind of answer the
  sender expects. \<open>dec\<close> and \<open>enc\<close> are the generated serialization code; nothing is written for
  \<open>MsgNone\<close>.
\<close>

datatype message_type = TProcess | TNode | TSystem | TNone

fun parse_message :: "message \<Rightarrow> Reasoner \<Rightarrow> (message_type \<times> Reasoner) outcome" where
  "parse_message MsgNone r = Inr (TNone, r)"
| "parse_message (MsgProcess i h) r = bindr (receivedReasonerProcessHealth i h r) (\<lambda>r1. Inr (TNode, r1))"
| "parse_message (MsgNode i h) r = bindr (receivedReasonerNodeHealth i h r) (\<lambda>r1. Inr (TSystem, r1))"
| "parse_message (MsgSystem i h) r = Inr (TNone, receivedReasonerSystemHealth i h r)"

definition parseReceivedData :: "('b \<Rightarrow> message outcome) \<Rightarrow> 'b \<Rightarrow> Reasoner \<Rightarrow> (message_type \<times> Reasoner) outcome" where
  "parseReceivedData dec buffer r = bindr (dec buffer) (\<lambda>m. parse_message m r)"

definition require_payload :: "'a option \<Rightarrow> 'a outcome" where
  "require_payload p = (case p of None \<Rightarrow> Inl (Abort ''payload'') | Some x \<Rightarrow> Inr x)"

definition messageReceivedCB ::
  "u64 \<Rightarrow> ('b \<Rightarrow> message outcome) \<Rightarrow> 'b \<Rightarrow> Reasoner \<Rightarrow> (message \<times> Reasoner) outcome" where
  "messageReceivedCB now dec buffer r =
     bindr (parseReceivedData dec buffer r) (\<lambda>(expectedResponse, r1).
     case expectedResponse of
       TProcess \<Rightarrow> Inr (MsgProcess (re_id r1) (Health_new now), r1)
     | TNode \<Rightarrow> bindr (require_payload (getNodeHealth r1)) (\<lambda>payload. Inr (MsgNode (re_id r1) payload, r1))
     | TSystem \<Rightarrow> bindr (require_payload (getSystemHealth r1)) (\<lambda>payload. Inr (MsgSystem (re_id r1) payload, r1))
     | TNone \<Rightarrow> Inr (MsgNone, r1))"

text \<open>The type a push passes along as the user pointer of its message.\<close>

fun push_user_ptr :: "message \<Rightarrow> message_type" where
  "push_user_ptr (MsgNode _ _) = TSystem"
| "push_user_ptr (MsgSystem _ _) = TNone"
| "push_user_ptr (MsgProcess _ _) = TNode"
| "push_user_ptr MsgNone = TNone"

definition messageResponseCB :: "('b \<Rightarrow> message outcome) \<Rightarrow> message_type \<Rightarrow> 'b \<Rightarrow> Reasoner \<Rightarrow> Reasoner outcome" where
  "messageResponseCB dec user_ptr buffer r =
     (if user_ptr = TNone then Inr r else bindr (parseReceivedData dec buffer r) (\<lambda>(_, r1). Inr r1))"

text \<open>A push and the answer to it over a transport that delivers both.\<close>

definition exchange ::
  "(message \<Rightarrow> 'b) \<Rightarrow> ('b \<Rightarrow> message outcome) \<Rightarrow> u64 \<Rightarrow> message \<Rightarrow> Reasoner \<Rightarrow> Reasoner \<Rightarrow> (Reasoner \<times> Reasoner) outcome" where
  "exchange enc dec now m client server =
     bindr (messageReceivedCB now dec (enc m) server) (\<lambda>(response, server').
     bindr (messageResponseCB dec (push_user_ptr m) (enc response) client) (\<lambda>client'. Inr (client', server')))"

section \<open>The report\<close>

datatype entry_kind = SIOX_INTERNAL_INFO | SIOX_INTERNAL_DEBUG | APPLICATION_PERFORMANCE

definition statistic_names :: "string list" where
  "statistic_names =
     [''UTILIZATION_CPU'', ''UTILIZATION_MEMORY'', ''UTILIZATION_IO'', ''UTILIZATION_NETWORK_SEND'', ''UTILIZATION_NETWORK_RECEIVE'',
      ''CONSUMED_CPU_SECONDS'', ''CONSUMED_ENERGY_JOULE'', ''CONSUMED_MEMORY_BYTES'', ''CONSUMED_NETWORK_BYTES'', ''CONSUMED_IO_BYTES'']"

definition show_option :: "('a \<Rightarrow> string) \<Rightarrow> 'a option \<Rightarrow> string outcome" where
  "show_option f x = (case x of None \<Rightarrow> Inl (Undefined ''health is null'') | Some y \<Rightarrow> Inr (f y))"

definition show_reasoner :: "Reasoner \<Rightarrow> string outcome" where
  "show_reasoner r =
     bindr (case re_role r of
              PROCESS \<Rightarrow> show_option show_Health (re_processHealth r)
            | NODE \<Rightarrow> show_option show_NodeHealth (re_nodeHealth r)
            | SYSTEM \<Rightarrow> show_option show_Health (re_systemHealth r)
            | NONE \<Rightarrow> Inl (Abort ''Invalid reasoner role!'')) (\<lambda>health.
     Inr ([CHR 0x22] @ re_id r @ [CHR 0x22] @ '':'' @ [CHR 10] @ health @
          ''Pushes: -> '' @ dec_nat (unat (re_nPushesSent r)) @ '', <- '' @ dec_nat (unat (re_nPushesReceived r)) @ [CHR 10]))"

definition prepareReport :: "Reasoner \<Rightarrow> (string \<times> entry_kind \<times> VariableDatatype) list outcome" where
  "prepareReport r =
     bindr (show_reasoner r) (\<lambda>text. Inr (
       [(''ANOMAL_RUNTIME_MS'', SIOX_INTERNAL_INFO, VUint64 (re_anomaliesTriggered r * ucast (re_update_intervall_ms r))),
        (''OBSERVED_RUNTIME_MS'', SIOX_INTERNAL_INFO, VUint64 (re_cyclesTriggered r * ucast (re_update_intervall_ms r))),
        (''STATES_SENT_UPSTREAM'', SIOX_INTERNAL_INFO, VUint64 (re_nPushesSent r)),
        (''STATES_RECEIVED'', SIOX_INTERNAL_INFO, VUint64 (re_nPushesReceived r))] @
       (if 0 < re_nPushesReceived r
        then map (\<lambda>i. (statistic_names ! i, APPLICATION_PERFORMANCE, VDouble (re_node_statistics r ! i))) [0 ..< NODE_STATISTIC_COUNT]
        else []) @
       [(''TEXT_STATE'', SIOX_INTERNAL_DEBUG, vd_of_string text)]))"

section \<open>No observation is lost\<close>

lemma all_states_complete [simp]: "s \<in> set all_states" "distinct all_states"
  by (cases s) (simp_all add: all_states_def)

definition stat_of :: "ComponentID \<Rightarrow> observations \<Rightarrow> AnomalyPluginHealthStatistic" where
  "stat_of c g = (case map_of g c of Some st \<Rightarrow> st | None \<Rightarrow> statistic_empty c)"

lemma seen_stat_of:
  "seen g c s = ps_occurrences (stat_of c g) s"
  "seen_positive g c n = occ_of (ps_positiveIssues (stat_of c g)) n"
  "seen_negative g c n = occ_of (ps_negativeIssues (stat_of c g)) n"
  by (simp_all add: seen_defs stat_of_def statistic_empty_def split: option.splits)

lemma stat_of_update [simp]: "stat_of c (AList.update k st g) = (if c = k then st else stat_of c g)"
  by (simp add: stat_of_def AList.update_conv')

lemma stat_of_ok:
  assumes "observations_ok g"
  shows "ps_cid (stat_of c g) = c" "issue_map_ok (ps_positiveIssues (stat_of c g))" "issue_map_ok (ps_negativeIssues (stat_of c g))"
  using observations_okD [OF assms] by (auto simp: stat_of_def statistic_empty_def split: option.splits)

lemma merge_state_alt:
  "merge_state cid rep s g = AList.update cid ((stat_of cid g) \<lparr>ps_cid := cid, ps_occurrences :=
     (ps_occurrences (stat_of cid g))(s := ps_occurrences (stat_of cid g) s + ps_occurrences rep s)\<rparr>) g"
  by (simp add: merge_state_def stat_of_def Let_def)

lemma merge_state_ok: "observations_ok g \<Longrightarrow> observations_ok (merge_state cid rep s g)"
  unfolding merge_state_alt using stat_of_ok [of g cid] by (intro observations_ok_update) simp_all

lemma fold_merge_state:
  "stat_of c (fold (merge_state cid rep) xs g) =
     (if c = cid then (stat_of cid g) \<lparr>ps_cid := (if xs = [] then ps_cid (stat_of cid g) else cid), ps_occurrences :=
        fold (\<lambda>s f. f(s := f s + ps_occurrences rep s)) xs (ps_occurrences (stat_of cid g))\<rparr>
      else stat_of c g)"
  by (induction xs arbitrary: g) (simp_all add: merge_state_alt)

lemma fold_add_states: "fold (\<lambda>s f. f(s := f s + g s)) all_states f = (\<lambda>s. f s + (g s :: u32))"
proof
  show "fold (\<lambda>s f. f(s := f s + g s)) all_states f x = f x + g x" for x
    by (cases x) (simp_all add: all_states_def)
qed

lemma merged_states:
  assumes "observations_ok g" and "g1 = fold (merge_state cid rep) all_states g"
  shows "observations_ok g1"
    and "stat_of c g1 = (if c = cid then (stat_of cid g) \<lparr>ps_occurrences :=
        (\<lambda>s. ps_occurrences (stat_of cid g) s + ps_occurrences rep s)\<rparr> else stat_of c g)"
    and "map_of g1 cid = Some (stat_of cid g1)"
proof -
  have "observations_ok (fold (merge_state cid rep) xs g')" if "observations_ok g'" for xs g'
    using that by (induction xs arbitrary: g') (simp_all add: merge_state_ok)
  then show "observations_ok g1" using assms by simp
  show "stat_of c g1 = (if c = cid then (stat_of cid g) \<lparr>ps_occurrences :=
        (\<lambda>s. ps_occurrences (stat_of cid g) s + ps_occurrences rep s)\<rparr> else stat_of c g)"
    unfolding assms(2) fold_merge_state fold_add_states using stat_of_ok(1) [OF assms(1), of cid]
    by (simp add: all_states_def)
  have "map_of (fold (merge_state cid rep) (xs @ [x]) g) cid \<noteq> None" for xs x
    by (simp add: merge_state_alt AList.update_conv')
  then have "map_of g1 cid \<noteq> None" unfolding assms(2) all_states_def
    by (metis append_Cons append_Nil)
  then show "map_of g1 cid = Some (stat_of cid g1)" by (auto simp: stat_of_def)
qed

lemma merge_gathered_issue_ok:
  assumes "merge_gathered_issue k hi m = Inr m'" and "issue_map_ok m" and "hi_name hi = k"
  shows "issue_map_ok m' \<and> (\<forall>n. occ_of m' n = occ_of m n + (if n = k then hi_occurrences hi else 0))"
  using assms issue_map_okD [OF assms(2)]
  by (auto simp: merge_gathered_issue_def bindr_Inr_iff occ_of_update HealthIssue_make_def HealthIssue_add_def
      intro!: issue_map_ok_update split: option.splits if_splits) (simp_all add: occ_of_def)

lemma occ_of_Cons: "occ_of ((k, hi) # es) n = (if n = k then hi_occurrences hi else occ_of es n)"
  by (simp add: occ_of_def)

lemma occ_of_absent: "k \<notin> fst ` set es \<Longrightarrow> occ_of es k = 0"
  by (simp add: occ_of_def map_of_eq_None_iff [symmetric])

lemma issue_map_ok_Cons:
  assumes "issue_map_ok ((k, hi) # es)"
  shows "k \<notin> fst ` set es \<and> hi_name hi = k \<and> issue_map_ok es"
proof -
  have k: "k \<notin> fst ` set es" and d: "distinct (map fst es)" using assms by (simp_all add: issue_map_ok_def)
  have "hi_name hi' = k'" if "map_of es k' = Some hi'" for k' hi'
  proof -
    have "k' \<noteq> k" using that k by (metis map_of_eq_None_iff option.distinct(1))
    then have "map_of ((k, hi) # es) k' = Some hi'" using that by simp
    then show ?thesis by (rule issue_map_okD [OF assms])
  qed
  then have "issue_map_ok es" using d unfolding issue_map_ok_def by blast
  then show ?thesis using k issue_map_okD [OF assms, of k hi] by simp
qed

lemma merge_issue_Inr:
  "merge_issue (k, hi) (m, l) = Inr t \<longleftrightarrow>
     (\<exists>m1 l1. merge_gathered_issue k hi m = Inr m1 \<and> merge_local_issue k hi l = Inr l1 \<and> t = (m1, l1))"
  by (auto simp: merge_issue_def bindr_Inr_iff)

lemma merge_issues_ok:
  assumes "fold_outcome merge_issue es (m, l) = Inr (m', l')" and "issue_map_ok m" and "issue_map_ok es"
  shows "issue_map_ok m' \<and> (\<forall>n. occ_of m' n = occ_of m n + occ_of es n)"
  using assms
proof (induction es arbitrary: m l)
  case Nil
  then show ?case by simp
next
  case (Cons e es)
  obtain k hi where e: "e = (k, hi)" by fastforce
  note es = issue_map_ok_Cons [OF Cons.prems(3) [unfolded e]]
  from Cons.prems(1) obtain m1 l1 where m1: "merge_gathered_issue k hi m = Inr m1"
    and rest: "fold_outcome merge_issue es (m1, l1) = Inr (m', l')"
    unfolding e fold_outcome.simps bindr_Inr_iff merge_issue_Inr by blast
  have ok: "issue_map_ok m1 \<and> (\<forall>n. occ_of m1 n = occ_of m n + (if n = k then hi_occurrences hi else 0))"
    using merge_gathered_issue_ok [OF m1 Cons.prems(2)] es by blast
  have IH: "issue_map_ok m' \<and> (\<forall>n. occ_of m' n = occ_of m1 n + occ_of es n)"
    using Cons.IH [OF rest] ok es by blast
  then show ?case using ok occ_of_absent [of k es] es by (auto simp: e occ_of_Cons)
qed

lemma merge_report_ok:
  assumes "merge_report (cid, rep) (g, h) = Inr (g', h')" and "observations_ok g"
    and "issue_map_ok (ps_positiveIssues rep)" and "issue_map_ok (ps_negativeIssues rep)"
  shows "observations_ok g'"
    and "seen g' c s = seen g c s + (if c = cid then ps_occurrences rep s else 0)"
    and "seen_positive g' c n = seen_positive g c n + (if c = cid then occ_of (ps_positiveIssues rep) n else 0)"
    and "seen_negative g' c n = seen_negative g c n + (if c = cid then occ_of (ps_negativeIssues rep) n else 0)"
proof -
  define g1 where "g1 = fold (merge_state cid rep) all_states g"
  note g1 = merged_states [OF assms(2) g1_def]
  note ok1 = stat_of_ok [OF g1(1)]
  obtain pm pl nm nl where p: "fold_outcome merge_issue (ps_positiveIssues rep) (ps_positiveIssues (stat_of cid g1),
        h_positiveIssues (fold (merge_local_state rep) all_states h)) = Inr (pm, pl)"
    and n: "fold_outcome merge_issue (ps_negativeIssues rep) (ps_negativeIssues (stat_of cid g1),
        h_negativeIssues (fold (merge_local_state rep) all_states h)) = Inr (nm, nl)"
    and g': "g' = AList.update cid ((stat_of cid g1) \<lparr>ps_positiveIssues := pm, ps_negativeIssues := nm\<rparr>) g1"
    using assms(1) g1(3) by (auto simp: merge_report_def Let_def bindr_Inr_iff g1_def [symmetric])
  note pm = merge_issues_ok [OF p ok1(2) assms(3)] and nm = merge_issues_ok [OF n ok1(3) assms(4)]
  show "observations_ok g'" unfolding g'
    using ok1 pm nm by (intro observations_ok_update [OF g1(1)]) simp_all
  show "seen g' c s = seen g c s + (if c = cid then ps_occurrences rep s else 0)"
    using g1(2) by (simp add: seen_stat_of g')
  show "seen_positive g' c n = seen_positive g c n + (if c = cid then occ_of (ps_positiveIssues rep) n else 0)" for n
    using pm g1(2) by (simp add: seen_stat_of g')
  show "seen_negative g' c n = seen_negative g c n + (if c = cid then occ_of (ps_negativeIssues rep) n else 0)" for n
    using nm g1(2) by (simp add: seen_stat_of g')
qed

lemma observations_ok_Cons:
  assumes "observations_ok ((c, st) # obs)"
  shows "c \<notin> fst ` set obs" "observations_ok obs" "issue_map_ok (ps_positiveIssues st)" "issue_map_ok (ps_negativeIssues st)"
proof -
  show k: "c \<notin> fst ` set obs" using assms by (simp add: observations_ok_def)
  have "map_of ((c, st) # obs) c' = Some st'" if "map_of obs c' = Some st'" for c' st'
    using that k by (metis map_of_Cons_code(2) map_of_eq_None_iff option.distinct(1))
  then show "observations_ok obs" using assms unfolding observations_ok_def by (metis distinct.simps(2) list.map(2))
  show "issue_map_ok (ps_positiveIssues st)" "issue_map_ok (ps_negativeIssues st)"
    using observations_okD(2,3) [OF assms, of c st] by simp_all
qed

lemma seen_absent: "c \<notin> fst ` set obs \<Longrightarrow> seen obs c s = 0 \<and> seen_positive obs c n = 0 \<and> seen_negative obs c n = 0"
  by (simp add: seen_defs map_of_eq_None_iff [symmetric])

lemma seen_Cons:
  "seen ((c, st) # obs) d s = (if d = c then ps_occurrences st s else seen obs d s)"
  "seen_positive ((c, st) # obs) d n = (if d = c then occ_of (ps_positiveIssues st) n else seen_positive obs d n)"
  "seen_negative ((c, st) # obs) d n = (if d = c then occ_of (ps_negativeIssues st) n else seen_negative obs d n)"
  by (simp_all add: seen_defs)

text \<open>The three counts together, so that the laws below are stated once.\<close>

definition tally :: "observations \<Rightarrow> ComponentID \<Rightarrow> HealthState \<Rightarrow> string \<Rightarrow> u32 \<times> u32 \<times> u32" where
  "tally g c s n = (seen g c s, seen_positive g c n, seen_negative g c n)"

definition tally_add :: "u32 \<times> u32 \<times> u32 \<Rightarrow> u32 \<times> u32 \<times> u32 \<Rightarrow> u32 \<times> u32 \<times> u32" where
  "tally_add x y = (fst x + fst y, fst (snd x) + fst (snd y), snd (snd x) + snd (snd y))"

definition tally_sum :: "(u32 \<times> u32 \<times> u32) list \<Rightarrow> u32 \<times> u32 \<times> u32" where
  "tally_sum xs = foldr tally_add xs (0, 0, 0)"

lemma tally_add_ac:
  "tally_add (tally_add x y) z = tally_add x (tally_add y z)" "tally_add x y = tally_add y x"
  "tally_add x (tally_add y z) = tally_add y (tally_add x z)" "tally_add x (0, 0, 0) = x" "tally_add (0, 0, 0) x = x"
  by (simp_all add: tally_add_def ac_simps)

lemma tally_sum_simps [simp]: "tally_sum [] = (0, 0, 0)" "tally_sum (x # xs) = tally_add x (tally_sum xs)"
  by (simp_all add: tally_sum_def)

lemma merge_reports_tally:
  assumes "fold_outcome merge_report obs (g, h) = Inr (g', h')" and "observations_ok g" and "observations_ok obs"
  shows "observations_ok g' \<and> (\<forall>c s n. tally g' c s n = tally_add (tally g c s n) (tally obs c s n))"
  using assms
proof (induction obs arbitrary: g h)
  case Nil
  then show ?case by (simp add: tally_def tally_add_def)
next
  case (Cons e obs)
  obtain cid rep where e: "e = (cid, rep)" by fastforce
  note ok = observations_ok_Cons [OF Cons.prems(3) [unfolded e]]
  from Cons.prems(1) obtain g1 h1 where m: "merge_report (cid, rep) (g, h) = Inr (g1, h1)"
    and rest: "fold_outcome merge_report obs (g1, h1) = Inr (g', h')"
    by (auto simp: e bindr_Inr_iff)
  note mr = merge_report_ok [OF m Cons.prems(2) ok(3,4)]
  have "observations_ok g' \<and> (\<forall>c s n. tally g' c s n = tally_add (tally g1 c s n) (tally obs c s n))"
    by (rule Cons.IH [OF rest mr(1) ok(2)])
  moreover have "tally_add (tally g1 c s n) (tally obs c s n) = tally_add (tally g c s n) (tally ((cid, rep) # obs) c s n)" for c s n
    using mr(2-4) seen_absent [OF ok(1)] by (simp add: tally_def tally_add_def seen_Cons)
  ultimately show ?case by (simp add: e)
qed

definition waiting :: "nat list \<Rightarrow> (nat \<Rightarrow> observations) \<Rightarrow> ComponentID \<Rightarrow> HealthState \<Rightarrow> string \<Rightarrow> u32 \<times> u32 \<times> u32" where
  "waiting as pl c s n = tally_sum (map (\<lambda>a. tally (pl a) c s n) as)"

lemma waiting_cong: "(\<And>a. a \<in> set as \<Longrightarrow> pl a = pl' a) \<Longrightarrow> waiting as pl c s n = waiting as pl' c s n"
  by (simp add: waiting_def cong: map_cong)

lemma merge_adpi_Inr:
  "merge_adpi a (pl, t) = Inr u \<longleftrightarrow>
     (\<exists>g1 h1. fold_outcome merge_report (pl a) t = Inr (g1, h1) \<and> u = (pl(a := []), g1, h1))"
  by (cases t) (auto simp: merge_adpi_def queryRecentObservations_def bindr_Inr_iff)

lemma merge_adpis_tally:
  assumes "fold_outcome merge_adpi as (pl, g, h) = Inr (pl', g', h')" and "distinct as" and "observations_ok g"
    and "\<forall>a. observations_ok (pl a)"
  shows "observations_ok g' \<and> pl' = (\<lambda>a. if a \<in> set as then [] else pl a) \<and>
    (\<forall>c s n. tally g' c s n = tally_add (tally g c s n) (waiting as pl c s n))"
  using assms
proof (induction as arbitrary: pl g h)
  case Nil
  then show ?case by (simp add: waiting_def tally_add_def tally_def)
next
  case (Cons a as)
  from Cons.prems(1) obtain g1 h1 where m: "fold_outcome merge_report (pl a) (g, h) = Inr (g1, h1)"
    and rest: "fold_outcome merge_adpi as (pl(a := []), g1, h1) = Inr (pl', g', h')"
    unfolding fold_outcome.simps bindr_Inr_iff merge_adpi_Inr by blast
  note mr = merge_reports_tally [OF m Cons.prems(3) spec [OF Cons.prems(4)]]
  have ok: "\<forall>b. observations_ok ((pl(a := [])) b)" using Cons.prems(4) by (simp add: observations_ok_def)
  have IH: "observations_ok g' \<and> pl' = (\<lambda>b. if b \<in> set as then [] else (pl(a := [])) b) \<and>
    (\<forall>c s n. tally g' c s n = tally_add (tally g1 c s n) (waiting as (pl(a := [])) c s n))"
    by (rule Cons.IH [OF rest _ conjunct1 [OF mr] ok]) (use Cons.prems(2) in simp)
  moreover have "waiting as (pl(a := [])) c s n = waiting as pl c s n" for c s n
    using Cons.prems(2) by (intro waiting_cong) auto
  ultimately show ?case using mr by (auto simp: waiting_def tally_add_ac fun_eq_iff)
qed

section \<open>The parts of a cycle\<close>

definition cycle_start :: "Reasoner \<Rightarrow> Reasoner" where
  "cycle_start r = r \<lparr>re_cyclesTriggered := re_cyclesTriggered r + 1, re_persistingAnomaly := re_anomalyDetected r,
     re_anomalyDetected := False\<rparr>"

lemma periodic_data_Inr:
  assumes "periodic_data now pl r = Inr (pl', r4, push)"
  obtains r1 r2 r3 where "collect pl (cycle_start r) = Inr (pl', r1)" "update_counts r1 = Inr r2" "detect r2 = Inr r3"
    "assess_and_push now r3 = Inr (r4, push)"
  using assms unfolding periodic_data_def Let_def cycle_start_def [symmetric] bindr_Inr_iff by (auto simp: bindr_Inr_iff)

lemma periodic_cycle_Inr:
  assumes "periodic_cycle now stats pl r = Inr (pl', r', push, fired)"
  obtains r4 where "periodic_data now pl r = Inr (pl', r4, push)" "periodic_finish stats r4 = Inr (r', fired)"
  using assms unfolding periodic_cycle_def by (auto simp: bindr_Inr_iff)

lemma collect_frame:
  assumes "collect pl r = Inr (pl', r1)"
  obtains ph nh sh where "r1 = r \<lparr>re_gatheredStatistics := re_gatheredStatistics r1, re_processHealth := ph,
    re_nodeHealth := nh, re_systemHealth := sh\<rparr>"
proof -
  have "\<exists>ph nh sh. r1 = r \<lparr>re_gatheredStatistics := re_gatheredStatistics r1, re_processHealth := ph,
      re_nodeHealth := nh, re_systemHealth := sh\<rparr>"
  proof (intro exI)
    show "r1 = r \<lparr>re_gatheredStatistics := re_gatheredStatistics r1, re_processHealth := re_processHealth r1,
      re_nodeHealth := re_nodeHealth r1, re_systemHealth := re_systemHealth r1\<rparr>"
      using assms by (auto simp: collect_def bindr_Inr_iff split: Role.splits option.splits)
  qed
  then show thesis using that by blast
qed

lemma collect_tally:
  assumes "collect pl r = Inr (pl', r1)" and "distinct (re_adpis r)" and "observations_ok (re_gatheredStatistics r)"
    and "\<forall>a. observations_ok (pl a)"
  shows "observations_ok (re_gatheredStatistics r1) \<and> pl' = (\<lambda>a. if a \<in> set (re_adpis r) then [] else pl a) \<and>
    (\<forall>c s n. tally (re_gatheredStatistics r1) c s n =
      tally_add (tally (re_gatheredStatistics r) c s n) (waiting (re_adpis r) pl c s n))"
proof -
  have "(\<exists>h h'. fold_outcome merge_adpi (re_adpis r) (pl, re_gatheredStatistics r, h :: Health) = Inr (pl', re_gatheredStatistics r1, h')) \<or>
      (\<exists>h h'. fold_outcome merge_adpi (re_adpis r) (pl, re_gatheredStatistics r, h :: NodeHealth) = Inr (pl', re_gatheredStatistics r1, h'))"
    using assms(1) by (auto simp: collect_def bindr_Inr_iff split: Role.splits option.splits)
  then show ?thesis by (elim disjE exE) (rule merge_adpis_tally [OF _ assms(2-4)], assumption)+
qed

lemma update_counts_frame:
  assumes "update_counts r = Inr r2"
  obtains ratios where "r2 = r \<lparr>re_oldObservationCounts := re_observationCounts r, re_oldObservationRatios := re_observationRatios r,
     re_oldObservationTotal := re_observationTotal r, re_observationCounts := sum_counts (re_gatheredStatistics r),
     re_observationTotal := sum_list (map (sum_counts (re_gatheredStatistics r)) all_states), re_observationRatios := ratios\<rparr>"
proof -
  have "r2 = r \<lparr>re_oldObservationCounts := re_observationCounts r, re_oldObservationRatios := re_observationRatios r,
     re_oldObservationTotal := re_observationTotal r, re_observationCounts := sum_counts (re_gatheredStatistics r),
     re_observationTotal := sum_list (map (sum_counts (re_gatheredStatistics r)) all_states),
     re_observationRatios := re_observationRatios r2\<rparr>"
    using assms unfolding update_counts_def Let_def by (auto simp: bindr_Inr_iff split: if_splits)
  then show thesis by (rule that)
qed

lemma detect_frame:
  assumes "detect r = Inr r3"
  obtains a where "r3 = r \<lparr>re_anomalyDetected := a\<rparr>"
  using assms that by (cases "re_role r") (auto simp: detect_def bindr_Inr_iff split: option.splits)

lemma assess_and_push_frame:
  assumes "assess_and_push now r = Inr (r4, push)"
  obtains ph nh sh where "r4 = r \<lparr>re_processHealth := ph, re_nodeHealth := nh, re_systemHealth := sh,
      re_nPushesSent := re_nPushesSent r4\<rparr>"
proof -
  have "r4 = r \<lparr>re_processHealth := re_processHealth r4, re_nodeHealth := re_nodeHealth r4, re_systemHealth := re_systemHealth r4,
      re_nPushesSent := re_nPushesSent r4\<rparr>"
    using assms by (auto simp: assess_and_push_def push_upstream_def assessProcessHealth_def assessSystemHealth_def
        assessNodeHealth_def bindr_Inr_iff Let_def split: Role.splits option.splits if_splits)
  then show thesis by (rule that)
qed

lemma periodic_finish_frame:
  assumes "periodic_finish stats r = Inr (r', fired)"
  shows "r' = r \<lparr>re_nodeHealth := re_nodeHealth r', re_anomaliesTriggered := re_anomaliesTriggered r + (if re_anomalyDetected r then 1 else 0)\<rparr>"
    and "fired = (if re_anomalyDetected r \<or> re_persistingAnomaly r then re_triggers r else [])"
proof -
  obtain nh where "fetch_statistics stats r = Inr (r \<lparr>re_nodeHealth := nh\<rparr>)"
    and r': "r' = (if re_anomalyDetected r then r \<lparr>re_nodeHealth := nh, re_anomaliesTriggered := re_anomaliesTriggered r + 1\<rparr> else r \<lparr>re_nodeHealth := nh\<rparr>)"
    and f: "fired = (if re_anomalyDetected r \<or> re_persistingAnomaly r then re_triggers r else [])"
  proof -
    from assms obtain r1 where r1: "fetch_statistics stats r = Inr r1"
      and out: "r' = (if re_anomalyDetected r1 then r1 \<lparr>re_anomaliesTriggered := re_anomaliesTriggered r1 + 1\<rparr> else r1)"
        "fired = (if re_anomalyDetected r' \<or> re_persistingAnomaly r' then re_triggers r' else [])"
      by (auto simp: periodic_finish_def bindr_Inr_iff Let_def)
    have "r1 = r \<lparr>re_nodeHealth := re_nodeHealth r1\<rparr>"
      using r1 by (auto simp: fetch_statistics_def bindr_Inr_iff split: option.splits)
    then obtain nh where "r1 = r \<lparr>re_nodeHealth := nh\<rparr>" by blast
    then show thesis using that [of nh] r1 out by simp
  qed
  show "r' = r \<lparr>re_nodeHealth := re_nodeHealth r', re_anomaliesTriggered := re_anomaliesTriggered r + (if re_anomalyDetected r then 1 else 0)\<rparr>"
    unfolding r' by simp
  show "fired = (if re_anomalyDetected r \<or> re_persistingAnomaly r then re_triggers r else [])" by (rule f)
qed

text \<open>What a cycle does to the fields the properties are about.\<close>

lemma periodic_cycle_frame:
  assumes "periodic_cycle now stats pl r = Inr (pl', r', push, fired)"
  shows "re_adpis r' = re_adpis r" "re_triggers r' = re_triggers r" "re_role r' = re_role r" "re_id r' = re_id r"
    "re_persistingAnomaly r' = re_anomalyDetected r" "re_cyclesTriggered r' = re_cyclesTriggered r + 1"
    "re_anomaliesTriggered r' = re_anomaliesTriggered r + (if re_anomalyDetected r' then 1 else 0)"
    "fired = (if re_anomalyDetected r' \<or> re_anomalyDetected r then re_triggers r else [])"
    "\<exists>r1. collect pl (cycle_start r) = Inr (pl', r1) \<and> re_gatheredStatistics r' = re_gatheredStatistics r1"
    "re_observationCounts r' = sum_counts (re_gatheredStatistics r')"
    "re_observationTotal r' = sum_list (map (sum_counts (re_gatheredStatistics r')) all_states)"
    "re_oldObservationCounts r' = re_observationCounts r" "re_oldObservationTotal r' = re_observationTotal r"
    "\<exists>r2 r3. detect r2 = Inr r3 \<and> re_anomalyDetected r' = re_anomalyDetected r3 \<and>
       re_observationCounts r2 = re_observationCounts r' \<and> re_oldObservationCounts r2 = re_observationCounts r \<and>
       re_observationTotal r2 = re_observationTotal r' \<and> re_oldObservationTotal r2 = re_observationTotal r"
proof -
  obtain r4 where d: "periodic_data now pl r = Inr (pl', r4, push)" and f: "periodic_finish stats r4 = Inr (r', fired)"
    by (rule periodic_cycle_Inr [OF assms])
  obtain r1 r2 r3 where c: "collect pl (cycle_start r) = Inr (pl', r1)" and u: "update_counts r1 = Inr r2"
    and t: "detect r2 = Inr r3" and a: "assess_and_push now r3 = Inr (r4, push)"
    by (rule periodic_data_Inr [OF d])
  obtain ph nh sh where r1: "r1 = (cycle_start r) \<lparr>re_gatheredStatistics := re_gatheredStatistics r1, re_processHealth := ph,
    re_nodeHealth := nh, re_systemHealth := sh\<rparr>" by (rule collect_frame [OF c])
  obtain ratios where r2: "r2 = r1 \<lparr>re_oldObservationCounts := re_observationCounts r1, re_oldObservationRatios := re_observationRatios r1,
     re_oldObservationTotal := re_observationTotal r1, re_observationCounts := sum_counts (re_gatheredStatistics r1),
     re_observationTotal := sum_list (map (sum_counts (re_gatheredStatistics r1)) all_states), re_observationRatios := ratios\<rparr>"
    by (rule update_counts_frame [OF u])
  obtain b where r3: "r3 = r2 \<lparr>re_anomalyDetected := b\<rparr>" by (rule detect_frame [OF t])
  obtain ph2 nh2 sh2 where r4: "r4 = r3 \<lparr>re_processHealth := ph2, re_nodeHealth := nh2, re_systemHealth := sh2,
      re_nPushesSent := re_nPushesSent r4\<rparr>" by (rule assess_and_push_frame [OF a])
  note fin = periodic_finish_frame [OF f]
  have sel1: "re_adpis r1 = re_adpis r" "re_triggers r1 = re_triggers r" "re_role r1 = re_role r" "re_id r1 = re_id r"
    "re_persistingAnomaly r1 = re_anomalyDetected r" "re_cyclesTriggered r1 = re_cyclesTriggered r + 1"
    "re_anomaliesTriggered r1 = re_anomaliesTriggered r" "re_observationCounts r1 = re_observationCounts r"
    "re_observationTotal r1 = re_observationTotal r"
    by (subst r1, simp add: cycle_start_def)+
  have sel3: "re_adpis r3 = re_adpis r" "re_triggers r3 = re_triggers r" "re_role r3 = re_role r" "re_id r3 = re_id r"
    "re_persistingAnomaly r3 = re_anomalyDetected r" "re_cyclesTriggered r3 = re_cyclesTriggered r + 1"
    "re_anomaliesTriggered r3 = re_anomaliesTriggered r" "re_gatheredStatistics r3 = re_gatheredStatistics r1"
    "re_observationCounts r3 = sum_counts (re_gatheredStatistics r1)"
    "re_observationTotal r3 = sum_list (map (sum_counts (re_gatheredStatistics r1)) all_states)"
    "re_oldObservationCounts r3 = re_observationCounts r" "re_oldObservationTotal r3 = re_observationTotal r"
    by (simp_all add: r3 r2 sel1)
  have sel4: "re_adpis r4 = re_adpis r3" "re_triggers r4 = re_triggers r3" "re_role r4 = re_role r3" "re_id r4 = re_id r3"
    "re_persistingAnomaly r4 = re_persistingAnomaly r3" "re_cyclesTriggered r4 = re_cyclesTriggered r3"
    "re_anomaliesTriggered r4 = re_anomaliesTriggered r3" "re_gatheredStatistics r4 = re_gatheredStatistics r3"
    "re_observationCounts r4 = re_observationCounts r3" "re_observationTotal r4 = re_observationTotal r3"
    "re_oldObservationCounts r4 = re_oldObservationCounts r3" "re_oldObservationTotal r4 = re_oldObservationTotal r3"
    "re_anomalyDetected r4 = re_anomalyDetected r3"
    by (subst r4, simp)+
  have sel: "re_adpis r' = re_adpis r4" "re_triggers r' = re_triggers r4" "re_role r' = re_role r4" "re_id r' = re_id r4"
    "re_persistingAnomaly r' = re_persistingAnomaly r4" "re_cyclesTriggered r' = re_cyclesTriggered r4"
    "re_gatheredStatistics r' = re_gatheredStatistics r4" "re_anomalyDetected r' = re_anomalyDetected r4"
    "re_observationCounts r' = re_observationCounts r4" "re_observationTotal r' = re_observationTotal r4"
    "re_oldObservationCounts r' = re_oldObservationCounts r4" "re_oldObservationTotal r' = re_oldObservationTotal r4"
    "re_anomaliesTriggered r' = re_anomaliesTriggered r4 + (if re_anomalyDetected r4 then 1 else 0)"
    by (subst fin(1), simp)+
  show "re_adpis r' = re_adpis r" "re_triggers r' = re_triggers r" "re_role r' = re_role r" "re_id r' = re_id r"
    "re_persistingAnomaly r' = re_anomalyDetected r" "re_cyclesTriggered r' = re_cyclesTriggered r + 1"
    "re_anomaliesTriggered r' = re_anomaliesTriggered r + (if re_anomalyDetected r' then 1 else 0)"
    "re_observationCounts r' = sum_counts (re_gatheredStatistics r')"
    "re_observationTotal r' = sum_list (map (sum_counts (re_gatheredStatistics r')) all_states)"
    "re_oldObservationCounts r' = re_observationCounts r" "re_oldObservationTotal r' = re_observationTotal r"
    by (simp_all add: sel sel4 sel3)
  show "fired = (if re_anomalyDetected r' \<or> re_anomalyDetected r then re_triggers r else [])"
    using fin(2) by (simp add: sel sel4 sel3)
  show "\<exists>r1. collect pl (cycle_start r) = Inr (pl', r1) \<and> re_gatheredStatistics r' = re_gatheredStatistics r1"
    using c by (simp add: sel sel4 sel3)
  show "\<exists>r2 r3. detect r2 = Inr r3 \<and> re_anomalyDetected r' = re_anomalyDetected r3 \<and>
       re_observationCounts r2 = re_observationCounts r' \<and> re_oldObservationCounts r2 = re_observationCounts r \<and>
       re_observationTotal r2 = re_observationTotal r' \<and> re_oldObservationTotal r2 = re_observationTotal r"
    by (rule exI [of _ r2], rule exI [of _ r3]) (simp add: t sel sel4 sel3, simp add: r2 sel1)
qed

section \<open>Runs of plugins and reasoner\<close>

datatype reasoner_event =
  Observe nat ComponentID HealthState string u32
| Cycle u64 "VariableDatatype list option"

fun reasoner_run ::
  "reasoner_event list \<Rightarrow> (nat \<Rightarrow> observations) \<Rightarrow> Reasoner \<Rightarrow> ((nat \<Rightarrow> observations) \<times> Reasoner) outcome" where
  "reasoner_run [] pl r = Inr (pl, r)"
| "reasoner_run (Observe p c s i d # evs) pl r = bindr (addObservation c s i d (pl p)) (\<lambda>obs. reasoner_run evs (pl(p := obs)) r)"
| "reasoner_run (Cycle now stats # evs) pl r = bindr (periodic_cycle now stats pl r) (\<lambda>(pl', r', _, _). reasoner_run evs pl' r')"

definition flag :: "bool \<Rightarrow> u32" where
  "flag b = (if b then 1 else 0)"

fun event_tally :: "nat list \<Rightarrow> ComponentID \<Rightarrow> HealthState \<Rightarrow> string \<Rightarrow> reasoner_event \<Rightarrow> u32 \<times> u32 \<times> u32" where
  "event_tally as c s n (Observe p c' s' i d) =
     (flag (p \<in> set as \<and> c' = c \<and> s' = s), flag (p \<in> set as \<and> c' = c \<and> i = n \<and> i \<noteq> [] \<and> positive_state s'),
      flag (p \<in> set as \<and> c' = c \<and> i = n \<and> i \<noteq> [] \<and> negative_state s'))"
| "event_tally as c s n (Cycle now stats) = (0, 0, 0)"

lemma waiting_update:
  assumes "distinct as" and "tally obs c s n = tally_add (tally (pl p) c s n) e"
  shows "waiting as (pl(p := obs)) c s n = (if p \<in> set as then tally_add (waiting as pl c s n) e else waiting as pl c s n)"
  using assms(1)
proof (induction as)
  case Nil
  then show ?case by (simp add: waiting_def)
next
  case (Cons a as)
  then show ?case
  proof (cases "a = p")
    case True
    then have "waiting as (pl(p := obs)) c s n = waiting as pl c s n"
      using Cons.prems by (intro waiting_cong) auto
    then show ?thesis using True assms(2) by (simp add: waiting_def tally_add_ac)
  next
    case False
    then show ?thesis using Cons by (auto simp: waiting_def tally_add_ac)
  qed
qed

lemma addObservation_tally:
  assumes "addObservation cid st i d obs = Inr obs'" and "observations_ok obs"
  shows "tally obs' c s n = tally_add (tally obs c s n)
    (flag (cid = c \<and> st = s), flag (cid = c \<and> i = n \<and> i \<noteq> [] \<and> positive_state st), flag (cid = c \<and> i = n \<and> i \<noteq> [] \<and> negative_state st))"
  using addObservation_ok(2-4) [OF assms] by (auto simp: tally_def tally_add_def flag_def)

lemma waiting_drained: "waiting as (\<lambda>a. if a \<in> set as then [] else pl a) c s n = (0, 0, 0)"
proof -
  have "tally_sum (map (\<lambda>a. (0, 0, 0)) xs) = (0, 0, 0)" for xs :: "nat list"
    by (induction xs) (simp_all add: tally_add_ac)
  then show ?thesis by (simp add: waiting_def tally_def cong: map_cong)
qed

lemma reasoner_run_tally:
  assumes "reasoner_run evs pl r = Inr (pl', r')" and "distinct (re_adpis r)" and "observations_ok (re_gatheredStatistics r)"
    and "\<forall>a. observations_ok (pl a)"
  shows "re_adpis r' = re_adpis r \<and> observations_ok (re_gatheredStatistics r') \<and> (\<forall>a. observations_ok (pl' a)) \<and>
    (\<forall>c s n. tally_add (tally (re_gatheredStatistics r') c s n) (waiting (re_adpis r) pl' c s n) =
      tally_add (tally_add (tally (re_gatheredStatistics r) c s n) (waiting (re_adpis r) pl c s n))
        (tally_sum (map (event_tally (re_adpis r) c s n) evs)))"
  using assms
proof (induction evs arbitrary: pl r)
  case Nil
  then show ?case by (simp add: tally_add_ac)
next
  case (Cons ev evs)
  show ?case
  proof (cases ev)
    case (Observe p c' s' i d)
    from Cons.prems(1) obtain obs where obs: "addObservation c' s' i d (pl p) = Inr obs"
      and rest: "reasoner_run evs (pl(p := obs)) r = Inr (pl', r')" by (auto simp: Observe bindr_Inr_iff)
    have ok: "\<forall>a. observations_ok ((pl(p := obs)) a)"
      using Cons.prems(4) addObservation_ok(1) [OF obs] by simp
    note IH = Cons.IH [OF rest Cons.prems(2,3) ok]
    note wu = waiting_update [where pl = pl and p = p, OF Cons.prems(2) addObservation_tally [OF obs spec [OF Cons.prems(4)]]]
    have step: "waiting (re_adpis r) (pl(p := obs)) c s n = tally_add (waiting (re_adpis r) pl c s n) (event_tally (re_adpis r) c s n ev)" for c s n
      unfolding wu by (auto simp: Observe flag_def tally_add_ac)
    have regroup: "tally_add (tally_add x (tally_add y z)) w = tally_add (tally_add x y) (tally_add z w)" for x y z w
      by (simp only: tally_add_ac(1))
    show ?thesis using IH unfolding step regroup by simp
  next
    case (Cycle now stats)
    from Cons.prems(1) obtain pl1 r1 push fired where cyc: "periodic_cycle now stats pl r = Inr (pl1, r1, push, fired)"
      and rest: "reasoner_run evs pl1 r1 = Inr (pl', r')" by (auto simp: Cycle bindr_Inr_iff)
    note fr = periodic_cycle_frame [OF cyc]
    obtain q where q: "collect pl (cycle_start r) = Inr (pl1, q)" "re_gatheredStatistics r1 = re_gatheredStatistics q"
      using fr(9) by blast
    have ct: "observations_ok (re_gatheredStatistics r1) \<and> pl1 = (\<lambda>a. if a \<in> set (re_adpis r) then [] else pl a) \<and>
      (\<forall>c s n. tally (re_gatheredStatistics r1) c s n = tally_add (tally (re_gatheredStatistics r) c s n) (waiting (re_adpis r) pl c s n))"
      using collect_tally [OF q(1)] Cons.prems(2-4) q(2) by (simp add: cycle_start_def)
    have ok: "\<forall>a. observations_ok (pl1 a)" using ct Cons.prems(4) by (simp add: observations_ok_def)
    note IH = Cons.IH [OF rest _ conjunct1 [OF ct] ok, unfolded fr(1), OF Cons.prems(2)]
    have "waiting (re_adpis r) pl1 c s n = (0, 0, 0)" for c s n using ct waiting_drained by simp
    then show ?thesis using IH ct by (simp add: Cycle tally_add_ac)
  qed
qed

lemma event_tally_counts:
  "tally_sum (map (event_tally as c s n) evs) =
    (of_nat (length (filter (\<lambda>e. case e of Observe p c' s' i d \<Rightarrow> p \<in> set as \<and> c' = c \<and> s' = s | _ \<Rightarrow> False) evs)),
     of_nat (length (filter (\<lambda>e. case e of Observe p c' s' i d \<Rightarrow> p \<in> set as \<and> c' = c \<and> i = n \<and> i \<noteq> [] \<and> positive_state s' | _ \<Rightarrow> False) evs)),
     of_nat (length (filter (\<lambda>e. case e of Observe p c' s' i d \<Rightarrow> p \<in> set as \<and> c' = c \<and> i = n \<and> i \<noteq> [] \<and> negative_state s' | _ \<Rightarrow> False) evs)))"
  by (induction evs) (auto simp: tally_add_def flag_def split: reasoner_event.split)

end
