(* ===== verification/Reasoner_Properties.thy ===== *)
theory Reasoner_Properties
  imports Reasoner
begin

text \<open>
  The properties of the reasoner over runs in which plugins observe and cycles collect: no
  observation is lost, the published counts are exact, abnormal observations call the triggers;
  the issues that a cycle merges and the health it pushes; and the exchange of health between
  reasoners of neighbouring levels.
\<close>

section \<open>Exact counts\<close>

definition fresh_reasoner :: "Reasoner \<Rightarrow> bool" where
  "fresh_reasoner r \<longleftrightarrow> distinct (re_adpis r) \<and> re_gatheredStatistics r = [] \<and> re_observationCounts r = (\<lambda>_. 0) \<and>
     re_observationTotal r = 0"

fun observes :: "nat list \<Rightarrow> HealthState \<Rightarrow> reasoner_event \<Rightarrow> bool" where
  "observes as s (Observe p c s' i d) \<longleftrightarrow> p \<in> set as \<and> s' = s"
| "observes as s (Cycle now stats) \<longleftrightarrow> False"

fun observes_at :: "nat list \<Rightarrow> HealthState \<Rightarrow> ComponentID \<Rightarrow> reasoner_event \<Rightarrow> bool" where
  "observes_at as s c (Observe p c' s' i d) \<longleftrightarrow> p \<in> set as \<and> c' = c \<and> s' = s"
| "observes_at as s c (Cycle now stats) \<longleftrightarrow> False"

definition how_many :: "('a \<Rightarrow> bool) \<Rightarrow> 'a list \<Rightarrow> nat" where
  "how_many P xs = length (filter P xs)"

lemma how_many_simps [simp]:
  "how_many P [] = 0" "how_many P (x # xs) = (if P x then Suc (how_many P xs) else how_many P xs)"
  "how_many P (xs @ ys) = how_many P xs + how_many P ys"
  by (simp_all add: how_many_def)

lemma how_many_le: "how_many P xs \<le> length xs"
  by (simp add: how_many_def)

lemma of_nat_u64_less:
  assumes "a < b" and "b < 2 ^ 32"
  shows "(of_nat a :: u64) < of_nat b" and "(of_nat b :: u64) \<noteq> of_nat a"
  using assms by (simp_all add: word_less_nat_alt unsigned_of_nat take_bit_nat_eq_self word_of_nat_eq_iff)

lemma how_many_components:
  assumes "finite K" and "\<And>c. how_many (observes_at as s c) evs \<noteq> 0 \<Longrightarrow> c \<in> K"
  shows "(\<Sum>c\<in>K. how_many (observes_at as s c) evs) = how_many (observes as s) evs"
  using assms(2)
proof (induction evs)
  case Nil
  then show ?case by simp
next
  case (Cons e evs)
  have IH: "(\<Sum>c\<in>K. how_many (observes_at as s c) evs) = how_many (observes as s) evs"
    by (rule Cons.IH) (use Cons.prems in fastforce)
  show ?case
  proof (cases e)
    case (Observe p c s' i d)
    show ?thesis
    proof (cases "p \<in> set as \<and> s' = s")
      case True
      then have "c \<in> K" using Cons.prems [of c] by (simp add: Observe)
      have "(\<Sum>c'\<in>K. how_many (observes_at as s c') (e # evs)) =
          (\<Sum>c'\<in>K. (if c' = c then 1 else 0) + how_many (observes_at as s c') evs)"
        using True by (intro sum.cong) (auto simp: Observe)
      then show ?thesis using True IH \<open>c \<in> K\<close> assms(1) by (simp add: Observe sum.distrib)
    next
      case False
      then show ?thesis using IH by (auto simp: Observe)
    qed
  next
    case (Cycle now stats)
    then show ?thesis using IH by simp
  qed
qed

lemma sum_counts_seen:
  assumes "distinct (map fst g)"
  shows "sum_counts g s = of_nat (\<Sum>c\<in>fst ` set g. unat (seen g c s))"
  using assms
proof (induction g)
  case Nil
  then show ?case by (simp add: sum_counts_def)
next
  case (Cons e g)
  have "c \<noteq> fst e" if "c \<in> fst ` set g" for c using that Cons.prems by (cases "c = fst e") simp_all
  then have "(\<Sum>c\<in>fst ` set g. unat (seen (e # g) c s)) = (\<Sum>c\<in>fst ` set g. unat (seen g c s))"
    using Cons.prems by (intro sum.cong) (simp_all add: seen_def)
  moreover have "seen (e # g) (fst e) s = ps_occurrences (snd e) s" by (simp add: seen_def)
  moreover have "(ucast w :: u64) = of_nat (unat w)" for w :: u32 by (simp add: unsigned_ucast_eq) 
  ultimately show ?case using Cons by (simp add: sum_counts_def)
qed

lemma reasoner_run_append:
  "reasoner_run (xs @ ys) pl r = bindr (reasoner_run xs pl r) (\<lambda>(pl', r'). reasoner_run ys pl' r')"
proof (induction xs arbitrary: pl r)
  case (Cons e xs)
  show ?case
  proof (cases e)
    case (Observe p c s i d)
    then show ?thesis using Cons by (cases "addObservation c s i d (pl p)") (simp_all del: fun_upd_apply)
  next
    case (Cycle now stats)
    then show ?thesis using Cons by (cases "periodic_cycle now stats pl r") auto
  qed
qed simp

lemma observe_run_keeps:
  assumes "reasoner_run obs pl r = Inr (pl', r')" and "\<forall>now stats. Cycle now stats \<notin> set obs"
  shows "r' = r"
  using assms
proof (induction obs arbitrary: pl)
  case (Cons e obs)
  then show ?case by (cases e) (auto simp: bindr_Inr_iff)
qed simp

lemma reasoner_run_triggers:
  assumes "reasoner_run evs pl r = Inr (pl', r')"
  shows "re_triggers r' = re_triggers r"
  using assms
proof (induction evs arbitrary: pl r)
  case (Cons e evs)
  show ?case
  proof (cases e)
    case (Observe p c s i d)
    then show ?thesis using Cons by (auto simp: bindr_Inr_iff)
  next
    case (Cycle now stats)
    from Cons.prems obtain pl1 r1 push fired where "periodic_cycle now stats pl r = Inr (pl1, r1, push, fired)"
      "reasoner_run evs pl1 r1 = Inr (pl', r')" by (auto simp: Cycle bindr_Inr_iff)
    then show ?thesis using Cons.IH periodic_cycle_frame(2) by metis
  qed
qed simp

lemma split_last_cycle:
  obtains xs ys where "evs = xs @ ys" "xs = [] \<or> (\<exists>zs now stats. xs = zs @ [Cycle now stats])"
    "\<forall>now stats. Cycle now stats \<notin> set ys"
proof -
  have "\<exists>xs ys. evs = xs @ ys \<and> (xs = [] \<or> (\<exists>zs now stats. xs = zs @ [Cycle now stats])) \<and> (\<forall>now stats. Cycle now stats \<notin> set ys)"
  proof (induction evs rule: rev_induct)
    case (snoc e evs)
    show ?case
    proof (cases e)
      case (Observe p c s i d)
      from snoc obtain xs ys where s: "evs = xs @ ys" "xs = [] \<or> (\<exists>zs now stats. xs = zs @ [Cycle now stats])"
        "\<forall>now stats. Cycle now stats \<notin> set ys" by blast
      show ?thesis by (rule exI [of _ xs], rule exI [of _ "ys @ [e]"]) (use s Observe in simp)
    next
      case (Cycle now stats)
      then show ?thesis by (intro exI [of _ "evs @ [e]"] exI [of _ "[]"]) simp
    qed
  qed simp
  then show thesis using that by blast
qed

text \<open>After a cycle nothing waits, so what was gathered is what was observed.\<close>

lemma cycle_gathers:
  assumes "reasoner_run (evs @ [Cycle now stats]) (\<lambda>_. []) r = Inr (pl', r')" and "fresh_reasoner r"
  shows "observations_ok (re_gatheredStatistics r')"
    and "seen (re_gatheredStatistics r') c s = of_nat (how_many (observes_at (re_adpis r) s c) evs)"
    and "re_observationCounts r' = sum_counts (re_gatheredStatistics r')"
    and "re_observationTotal r' = sum_list (map (sum_counts (re_gatheredStatistics r')) all_states)"
proof -
  from assms(1) obtain pl1 r1 push fired where run: "reasoner_run evs (\<lambda>_. []) r = Inr (pl1, r1)"
    and cyc: "periodic_cycle now stats pl1 r1 = Inr (pl', r', push, fired)"
    by (auto simp: reasoner_run_append bindr_Inr_iff)
  have r: "distinct (re_adpis r)" "observations_ok (re_gatheredStatistics r)" "\<forall>a :: nat. observations_ok []"
    using assms(2) by (simp_all add: fresh_reasoner_def observations_ok_def)
  note t = reasoner_run_tally [OF run r]
  obtain q where q: "collect pl1 (cycle_start r1) = Inr (pl', q)" "re_gatheredStatistics r' = re_gatheredStatistics q"
    using periodic_cycle_frame(9) [OF cyc] by blast
  have ct: "observations_ok (re_gatheredStatistics r') \<and>
      (\<forall>c s n. tally (re_gatheredStatistics r') c s n = tally_add (tally (re_gatheredStatistics r1) c s n) (waiting (re_adpis r) pl1 c s n))"
    using collect_tally [OF q(1)] t q(2) r(1) by (simp add: cycle_start_def)
  then show "observations_ok (re_gatheredStatistics r')" by blast
  have w0: "waiting as (\<lambda>_. []) c s n = (0, 0, 0)" for as n
    by (induction as) (simp_all add: waiting_def tally_def tally_add_ac)
  have "tally (re_gatheredStatistics r') c s [] = tally_sum (map (event_tally (re_adpis r) c s []) evs)"
    using ct t assms(2) w0 by (simp add: fresh_reasoner_def tally_def [of "[]"] tally_add_ac)
  moreover have "filter (\<lambda>e. case e of Observe p c' s' i d \<Rightarrow> p \<in> set as \<and> c' = c \<and> s' = s | _ \<Rightarrow> False) evs =
      filter (observes_at as s c) evs" for as
    by (intro filter_cong) (auto split: reasoner_event.splits)
  ultimately show "seen (re_gatheredStatistics r') c s = of_nat (how_many (observes_at (re_adpis r) s c) evs)"
    unfolding event_tally_counts how_many_def by (simp add: tally_def)
  show "re_observationCounts r' = sum_counts (re_gatheredStatistics r')"
    "re_observationTotal r' = sum_list (map (sum_counts (re_gatheredStatistics r')) all_states)"
    using periodic_cycle_frame [OF cyc] by blast+
qed

lemma cycle_counts:
  assumes "reasoner_run (evs @ [Cycle now stats]) (\<lambda>_. []) r = Inr (pl', r')" and "fresh_reasoner r" and "length evs < 2 ^ 32"
  shows "re_observationCounts r' s = of_nat (how_many (observes (re_adpis r) s) evs)"
    and "re_observationTotal r' = of_nat (\<Sum>s\<leftarrow>all_states. how_many (observes (re_adpis r) s) evs)"
proof -
  note g = cycle_gathers [OF assms(1,2)]
  let ?g = "re_gatheredStatistics r'"
  have counts: "re_observationCounts r' s = of_nat (how_many (observes (re_adpis r) s) evs)" for s
  proof -
    have u: "unat (seen ?g c s) = how_many (observes_at (re_adpis r) s c) evs" for c
      using how_many_le [of "observes_at (re_adpis r) s c" evs] assms(3) g(2) [of c s]
      by (simp add: unsigned_of_nat take_bit_nat_eq_self)
    have "c \<in> fst ` set ?g" if "how_many (observes_at (re_adpis r) s c) evs \<noteq> 0" for c
    proof (rule ccontr)
      assume "c \<notin> fst ` set ?g"
      then have "seen ?g c s = 0" using seen_absent by blast
      then show False using u [of c] that by simp
    qed
    then have "(\<Sum>c\<in>fst ` set ?g. unat (seen ?g c s)) = how_many (observes (re_adpis r) s) evs"
      unfolding u by (intro how_many_components) auto
    moreover have "distinct (map fst ?g)" using g(1) by (simp add: observations_ok_def)
    ultimately show ?thesis unfolding g(3) by (metis sum_counts_seen)
  qed
  then show "re_observationCounts r' s = of_nat (how_many (observes (re_adpis r) s) evs)" .
  have "re_observationTotal r' = (\<Sum>s\<leftarrow>all_states. of_nat (how_many (observes (re_adpis r) s) evs))"
    using g(3,4) counts by (simp add: fun_eq_iff)
  then show "re_observationTotal r' = of_nat (\<Sum>s\<leftarrow>all_states. how_many (observes (re_adpis r) s) evs)"
    by (simp add: all_states_def)
qed

lemma observes_total_le: "(\<Sum>s\<leftarrow>all_states. how_many (observes as s) evs) \<le> length evs"
proof (induction evs)
  case (Cons e evs)
  show ?case
  proof (cases e)
    case (Observe p c s i d)
    then show ?thesis using Cons by (cases s; cases "p \<in> set as") (simp_all add: all_states_def)
  next
    case (Cycle now stats)
    then show ?thesis using Cons by (simp add: all_states_def)
  qed
qed (simp add: all_states_def)

lemma check_state_mono: "check_state r s True = Inr b \<Longrightarrow> b"
  by (auto simp: check_state_def bindr_Inr_iff split: if_splits)

lemma check_states_mono: "fold_outcome (check_state r) xs True = Inr b \<Longrightarrow> b"
proof (induction xs)
  case (Cons x xs)
  from Cons.prems obtain a where a: "check_state r x True = Inr a" "fold_outcome (check_state r) xs a = Inr b"
    by (auto simp: bindr_Inr_iff)
  with check_state_mono [OF a(1)] Cons.IH show ?case by simp
qed simp

lemma check_states_abnormal:
  assumes "fold_outcome (check_state r) xs a = Inr b" and "s \<in> set xs" and "abnormal s"
    and "re_oldObservationCounts r s < re_observationCounts r s"
  shows b
  using assms(1,2)
proof (induction xs arbitrary: a)
  case (Cons x xs)
  from Cons.prems obtain a' where a': "check_state r x a = Inr a'" "fold_outcome (check_state r) xs a' = Inr b"
    by (auto simp: bindr_Inr_iff)
  show ?case
  proof (cases "x = s")
    case True
    then have a' using a'(1) assms(3,4) by (auto simp: check_state_def bindr_Inr_iff split: if_splits)
    then show ?thesis using a'(2) check_states_mono by simp
  next
    case False
    then show ?thesis using Cons.IH [OF a'(2)] Cons.prems(2) by simp
  qed
qed simp

lemma detect_abnormal:
  assumes "detect r = Inr r'" and "abnormal s" and "re_oldObservationCounts r s < re_observationCounts r s"
    and "re_observationTotal r \<noteq> re_oldObservationTotal r"
  shows "re_anomalyDetected r'"
proof -
  from assms(1) obtain a where a: "fold_outcome (check_state r) all_states (re_anomalyDetected r) = Inr a"
    and r': "(case re_role r of
       PROCESS \<Rightarrow> (case re_nodeHealth r of
           None \<Rightarrow> Inl (Undefined ''nodeHealth is null'')
         | Some nh \<Rightarrow> Inr (r \<lparr>re_anomalyDetected := a \<or>
             h_overallState nh \<noteq> GOOD \<and> h_overallState nh \<noteq> BAD \<and> h_overallState nh \<noteq> OK\<rparr>))
     | _ \<Rightarrow> Inr (r \<lparr>re_anomalyDetected := a\<rparr>)) = Inr r'"
    unfolding detect_def if_P [OF assms(4)] bindr_Inr_iff by blast
  have a by (rule check_states_abnormal [OF a _ assms(2,3)]) simp
  then show ?thesis using r' by (auto split: Role.splits option.splits)
qed

section \<open>A node's reasoner and a run of it\<close>

definition node_reasoner :: Reasoner where
  "node_reasoner = (reasoner_init 7 ''node'' NODE 100 ''system'' Reasoner_new) \<lparr>re_adpis := [1, 2], re_triggers := [5]\<rparr>"

definition comp :: "u16 \<Rightarrow> ComponentID" where
  "comp i = ComponentID (ProcessID 1 2 3) i"

definition sample_events :: "reasoner_event list" where
  "sample_events = [Observe 1 (comp 4) OK [] 0, Cycle 8 None, Observe 2 (comp 4) ABNORMAL_BAD ''slow'' 3, Cycle 9 None]"

lemmas fp_round_eval = fp_round_def fp_sign_bits_def fp_qmin_def round_half_even_def fp_inf_bits_def Let_def

lemma fp_decode_samples:
  "fp_decode 53 11 0x4059000000000000 = FFin False 0x19000000000000 (-46)"
  "fp_decode 53 11 0x3ff0000000000000 = FFin False 0x10000000000000 (-52)"
  "fp_decode 53 11 0x4000000000000000 = FFin False 0x10000000000000 (-51)"
  "fp_decode 53 11 0x4049000000000000 = FFin False 0x19000000000000 (-47)"
  "fp_decode 24 8 0x42c80000 = FFin False 0xC80000 (-17)"
  "fp_decode 24 8 0x42480000 = FFin False 0xC80000 (-18)"
  "fp_decode 24 8 0x3f800000 = FFin False 0x800000 (-23)"
  "fp_decode 24 8 0 = FFin False 0 (-149)"
  by (simp_all add: fp_decode_def fp_qmin_def Let_def)

lemma fp_round_samples:
  "fp_round 53 11 False 100 1 0 = 0x4059000000000000"
  "fp_round 53 11 False 1 1 0 = 0x3ff0000000000000"
  "fp_round 53 11 False 2 1 0 = 0x4000000000000000"
  "fp_round 53 11 False 0x19000000000000 0x10000000000000 6 = 0x4059000000000000"
  "fp_round 53 11 False 0x19000000000000 0x10000000000000 5 = 0x4049000000000000"
  "fp_round 24 8 False 0x19000000000000 1 (-46) = 0x42c80000"
  "fp_round 24 8 False 0x19000000000000 1 (-47) = 0x42480000"
  "fp_round 24 8 False 1 1 0 = 0x3f800000"
  "fp_round 24 8 False (0x800000 * 0xC80000) 1 (-40) = 0x42c80000"
  "fp_round 24 8 False (0x800000 * 0xC80000) 1 (-41) = 0x42480000"
  "fp_round 24 8 False 0 1 e = 0"
  by (simp_all add: fp_round_eval cong: let_weak_cong)

lemma float_samples:
  "f64_of_int 100 = 0x4059000000000000" "f64_of_int 1 = 0x3ff0000000000000" "f64_of_int 2 = 0x4000000000000000"
  "f32_of_int 1 = 0x3f800000" "f32_of_int 0 = 0"
  "f64_div 0x4059000000000000 0x3ff0000000000000 = 0x4059000000000000"
  "f64_div 0x4059000000000000 0x4000000000000000 = 0x4049000000000000"
  "f32_of_f64 0x4059000000000000 = 0x42c80000"
  "f32_of_f64 0x4049000000000000 = 0x42480000"
  "f32_mul 0x3f800000 0x42c80000 = 0x42c80000"
  "f32_mul 0x3f800000 0x42480000 = 0x42480000"
  "f32_mul 0 0x42c80000 = 0"
  "f32_mul 0 0x42480000 = 0"
  by (simp_all add: f64_of_int_def f32_of_int_def fp_of_int_def f64_div_def f32_mul_def f32_of_f64_def 
      fp_div_def [of _ _ "0x4059000000000000"] fp_mul_def fp_convert_def fp_decode_samples fp_round_samples  fp_round_samples[simplified]
      unsigned_of_nat take_bit_eq_mod)
lemma trunc_samples: "fp_trunc 24 8 0x42c80000 = Some 100" "fp_trunc 24 8 0x42480000 = Some 50" "fp_trunc 24 8 0 = Some 0"
  by (simp_all add: fp_trunc_def fp_decode_samples signed_mag_def)

lemma percent_samples:
  "percent 1 1 = Inr 100" "percent 0 1 = Inr 0" "percent 1 2 = Inr 50" "percent 0 2 = Inr 0"
  by (simp_all add: percent_def float_samples trunc_samples fits_signed_def)

lemmas cycle_eval = periodic_cycle_def periodic_data_def collect_def update_counts_def detect_def check_state_def
  assess_and_push_def assessNodeHealth_def push_upstream_def periodic_finish_def fetch_statistics_def merge_adpi_def
  merge_report_def merge_state_def merge_local_state_def merge_issue_def merge_gathered_issue_def merge_local_issue_def
  queryRecentObservations_def sum_counts_def all_states_def abnormal_def
  add_signed_def fits_signed_def percent_samples


lemma bindr_weak_cong: "x = y \<Longrightarrow> bindr x f = bindr y f"
  by simp

lemmas cycle_congs = bindr_weak_cong let_weak_cong
lemmas new_eval = node_state_def addIssueSafely_def HealthIssue_make_def AList.update.simps node_reasoner_def reasoner_init_def Reasoner_new_def NodeHealth_new_def Health_new_def Health_make_def addObservation_def statistic_empty_def


lemma sample_run: "\<exists>pl r'. reasoner_run sample_events (\<lambda>_. []) node_reasoner = Inr (pl, r')"
  by (simp add: sample_events_def cycle_eval new_eval Let_def cong: cycle_congs)

section \<open>Properties\<close>

text \<open>
  C6 (invariant): no observation is lost and none is counted twice. Start a reasoner and its plugins
  empty and let plugins observe and the reasoner run its cycles in any order. Then, for each
  component, the number of observations of a state that the reasoner has gathered plus those that
  still wait in its plugins is the number of observations made (modulo \<open>2 ^ 32\<close>, the width of
  the counters), and the same holds for the occurrences of every positive and negative issue.
\<close>

theorem observations_conserved:
  assumes "reasoner_run evs (\<lambda>_. []) r = Inr (pl, r')" and "distinct (re_adpis r)" and "re_gatheredStatistics r = []"
  shows "seen (re_gatheredStatistics r') c s + (\<Sum>a\<leftarrow>re_adpis r. seen (pl a) c s) =
      of_nat (length (filter (\<lambda>e. case e of Observe p c' s' i d \<Rightarrow> p \<in> set (re_adpis r) \<and> c' = c \<and> s' = s | _ \<Rightarrow> False) evs)) \<and>
    seen_positive (re_gatheredStatistics r') c n + (\<Sum>a\<leftarrow>re_adpis r. seen_positive (pl a) c n) =
      of_nat (length (filter (\<lambda>e. case e of Observe p c' s' i d \<Rightarrow> p \<in> set (re_adpis r) \<and> c' = c \<and> i = n \<and> i \<noteq> [] \<and> positive_state s' | _ \<Rightarrow> False) evs)) \<and>
    seen_negative (re_gatheredStatistics r') c n + (\<Sum>a\<leftarrow>re_adpis r. seen_negative (pl a) c n) =
      of_nat (length (filter (\<lambda>e. case e of Observe p c' s' i d \<Rightarrow> p \<in> set (re_adpis r) \<and> c' = c \<and> i = n \<and> i \<noteq> [] \<and> negative_state s' | _ \<Rightarrow> False) evs))"
proof -
  have sums: "waiting as q c s n = (\<Sum>a\<leftarrow>as. seen (q a) c s, \<Sum>a\<leftarrow>as. seen_positive (q a) c n, \<Sum>a\<leftarrow>as. seen_negative (q a) c n)" for as q
    by (induction as) (simp_all add: waiting_def tally_def tally_add_def)
  have nil: "observations_ok []" by (simp add: observations_ok_def)
  have "waiting as (\<lambda>_. []) c s n = (0, 0, 0)" for as
    by (induction as) (simp_all add: waiting_def tally_def tally_add_ac)
  then have "tally_add (tally (re_gatheredStatistics r') c s n) (waiting (re_adpis r) pl c s n) =
      tally_sum (map (event_tally (re_adpis r) c s n) evs)"
    using reasoner_run_tally [OF assms(1,2)] nil assms(3) by (simp add: tally_def tally_add_ac)
  then show ?thesis unfolding event_tally_counts sums by (simp add: tally_def tally_add_def)
qed

theorem observations_conserved_witness:
  "\<exists>pl r'. reasoner_run sample_events (\<lambda>_. []) node_reasoner = Inr (pl, r') \<and>
     seen (re_gatheredStatistics r') (comp 4) ABNORMAL_BAD + (\<Sum>a\<leftarrow>[1, 2]. seen (pl a) (comp 4) ABNORMAL_BAD) = 1 \<and>
     seen_negative (re_gatheredStatistics r') (comp 4) ''slow'' + (\<Sum>a\<leftarrow>[1, 2]. seen_negative (pl a) (comp 4) ''slow'') = 1"
proof -
  have nr: "re_adpis node_reasoner = [1, 2]" "re_gatheredStatistics node_reasoner = []" by (simp_all add: new_eval)
  obtain pl r' where run: "reasoner_run sample_events (\<lambda>_. []) node_reasoner = Inr (pl, r')" using sample_run by blast
  show ?thesis
    using observations_conserved [OF run, of "comp 4" ABNORMAL_BAD "''slow''", unfolded nr] run
    by (intro exI [of _ pl] exI [of _ r']) (simp add: sample_events_def negative_state_def comp_def)
qed

text \<open>
  C7 (safety): abnormal observations raise an alarm. When one of its plugins observes an abnormal
  state and the reasoner then completes a cycle, it has detected an anomaly and the cycle has called all its
  triggers; so no abnormal observation is missed, whatever was observed and gathered before, as
  long as fewer than \<open>2 ^ 32\<close> events occurred.
\<close>

theorem abnormal_observation_triggers:
  assumes run: "reasoner_run (xs @ Observe p c s i d # ys) (\<lambda>_. []) r = Inr (pl, r1)" and fresh: "fresh_reasoner r"
    and p: "p \<in> set (re_adpis r)" and s: "abnormal s" and ys: "\<forall>now stats. Cycle now stats \<notin> set ys"
    and short: "length (xs @ Observe p c s i d # ys) < 2 ^ 32"
    and cyc: "periodic_cycle now stats pl r1 = Inr (pl', r', push, fired)"
  shows "re_anomalyDetected r' \<and> fired = re_triggers r"
proof -
  let ?evs = "xs @ Observe p c s i d # ys" and ?N = "\<lambda>s evs. how_many (observes (re_adpis r) s) evs"
  let ?T = "\<lambda>evs. \<Sum>s\<leftarrow>all_states. ?N s evs"
  obtain vs ws where xs: "xs = vs @ ws" and vs: "vs = [] \<or> (\<exists>zs now stats. vs = zs @ [Cycle now stats])"
    and ws: "\<forall>now stats. Cycle now stats \<notin> set ws" by (rule split_last_cycle)
  have app: "?evs = vs @ (ws @ Observe p c s i d # ys)" by (simp add: xs)
  from run obtain pl0 r0 where run0: "reasoner_run vs (\<lambda>_. []) r = Inr (pl0, r0)"
    and obs: "reasoner_run (ws @ Observe p c s i d # ys) pl0 r0 = Inr (pl, r1)"
    unfolding app reasoner_run_append [of vs] bindr_Inr_iff by auto
  have r1: "r1 = r0" by (rule observe_run_keeps [OF obs]) (use ws ys in auto)
  have old: "re_observationCounts r1 s = of_nat (?N s vs) \<and> re_observationTotal r1 = of_nat (?T vs)"
  proof (cases "vs = []")
    case True
    then show ?thesis using run0 fresh r1 by (simp add: fresh_reasoner_def all_states_def)
  next
    case False
    then obtain zs now' stats' where zs: "vs = zs @ [Cycle now' stats']" using vs by blast
    have "length zs < 2 ^ 32" using short xs zs by simp
    then show ?thesis using cycle_counts [OF run0 [unfolded zs] fresh] r1 by (simp add: zs)
  qed
  have "reasoner_run (?evs @ [Cycle now stats]) (\<lambda>_. []) r = Inr (pl', r')"
    unfolding reasoner_run_append [of ?evs] run by (simp add: cyc)
  note cyc_counts = cycle_counts [OF this fresh short]
  have N: "?N s vs < ?N s ?evs" "?N s ?evs < 2 ^ 32" using how_many_le [of "observes (re_adpis r) s" ?evs] short p
    by (simp_all add: xs)
  have T: "?T vs < ?T ?evs" using p by (cases s) (simp_all add: all_states_def xs)
  have T2: "?T ?evs < 2 ^ 32" using observes_total_le [of "re_adpis r" ?evs] short by simp
  have tot: "re_observationTotal r' \<noteq> re_observationTotal r1"
    unfolding cyc_counts(2) conjunct2 [OF old] by (rule of_nat_u64_less(2) [OF T T2])
  have cnt: "re_observationCounts r1 s < re_observationCounts r' s"
    unfolding cyc_counts(1) conjunct1 [OF old] by (rule of_nat_u64_less(1) [OF N])
  obtain r2 r3 where d: "detect r2 = Inr r3" "re_anomalyDetected r' = re_anomalyDetected r3"
    and f: "re_observationCounts r2 = re_observationCounts r'" "re_oldObservationCounts r2 = re_observationCounts r1"
      "re_observationTotal r2 = re_observationTotal r'" "re_oldObservationTotal r2 = re_observationTotal r1"
    using periodic_cycle_frame(14) [OF cyc] by blast
  have det: "re_anomalyDetected r'" unfolding d(2) by (rule detect_abnormal [OF d(1) s]) (use cnt tot f in simp_all)
  then show ?thesis using periodic_cycle_frame(8) [OF cyc] reasoner_run_triggers [OF run] by simp
qed
lemma sample_alarm:
  "\<exists>pl r1. reasoner_run ([Observe 1 (comp 4) OK [] 0, Cycle 8 None] @ Observe 2 (comp 4) ABNORMAL_BAD ''slow'' 3 # []) (\<lambda>_. []) node_reasoner = Inr (pl, r1) \<and>
    (\<exists>pl' r' push fired. periodic_cycle 9 None pl r1 = Inr (pl', r', push, fired))"
  by (simp add: cycle_eval new_eval Let_def cong: cycle_congs)

theorem abnormal_observation_triggers_witness:
  "\<exists>pl r1 pl' r' push. reasoner_run [Observe 1 (comp 4) OK [] 0, Cycle 8 None, Observe 2 (comp 4) ABNORMAL_BAD ''slow'' 3]
       (\<lambda>_. []) node_reasoner = Inr (pl, r1) \<and>
     periodic_cycle 9 None pl r1 = Inr (pl', r', push, [5]) \<and> re_anomalyDetected r'"
proof -
  obtain pl r1 pl' r' push fired where run: "reasoner_run ([Observe 1 (comp 4) OK [] 0, Cycle 8 None] @ Observe 2 (comp 4) ABNORMAL_BAD ''slow'' 3 # [])
      (\<lambda>_. []) node_reasoner = Inr (pl, r1)" and cyc: "periodic_cycle 9 None pl r1 = Inr (pl', r', push, fired)"
    using sample_alarm by blast
  have nr: "fresh_reasoner node_reasoner" "2 \<in> set (re_adpis node_reasoner)" "re_triggers node_reasoner = [5]"
    by (simp_all add: new_eval fresh_reasoner_def)
  have "re_anomalyDetected r' \<and> fired = [5]"
    using abnormal_observation_triggers [OF run nr(1,2) _ _ _ cyc] nr(3) by (simp add: abnormal_def)
  then show ?thesis using run cyc by (intro exI [of _ pl] exI [of _ r1] exI [of _ pl'] exI [of _ r'] exI [of _ push]) simp
qed

section \<open>Issues\<close>

text \<open>The names of the issues that the plugins report, in the order in which a cycle reads them.\<close>

definition reported :: "(AnomalyPluginHealthStatistic \<Rightarrow> issue_map) \<Rightarrow> observations \<Rightarrow> string list" where
  "reported f obs = concat (map (\<lambda>rep. map fst (f (snd rep))) obs)"

definition all_reported :: "(AnomalyPluginHealthStatistic \<Rightarrow> issue_map) \<Rightarrow> nat list \<Rightarrow> (nat \<Rightarrow> observations) \<Rightarrow> string list" where
  "all_reported f as pl = concat (map (\<lambda>a. reported f (pl a)) as)"

definition extends_names :: "string list \<Rightarrow> HealthIssue list \<Rightarrow> HealthIssue list \<Rightarrow> bool" where
  "extends_names ns l l' \<longleftrightarrow> map hi_name l' = map hi_name l @ ns \<and> distinct ns \<and> set ns \<inter> hi_name ` set l = {}"

lemma extends_names_trans:
  assumes "extends_names ns l l1" and "extends_names ms l1 l'"
  shows "extends_names (ns @ ms) l l'"
proof -
  have "hi_name ` set l1 = hi_name ` set l \<union> set ns"
    using assms(1) by (metis extends_names_def list.set_map set_append)
  then show ?thesis using assms by (auto simp: extends_names_def)
qed

lemma extends_names_Nil: "extends_names [] l l"
  by (simp add: extends_names_def)

lemma merge_issues_names:
  assumes "fold_outcome merge_issue es (m, l) = Inr (m', l')"
  shows "extends_names (map fst es) l l'"
  using assms
proof (induction es arbitrary: m l)
  case Nil
  then show ?case by (simp add: extends_names_Nil)
next
  case (Cons e es)
  obtain k hi where e: "e = (k, hi)" by fastforce
  from Cons.prems obtain m1 l1 where l1: "merge_local_issue k hi l = Inr l1"
    and rest: "fold_outcome merge_issue es (m1, l1) = Inr (m', l')"
    unfolding e fold_outcome.simps bindr_Inr_iff merge_issue_Inr by blast
  have "extends_names [k] l l1"
    using l1 by (auto simp: merge_local_issue_def extends_names_def HealthIssue_make_def split: if_splits)
  from extends_names_trans [OF this Cons.IH [OF rest]] show ?case by (simp add: e)
qed

lemma merge_local_states_issues:
  "h_positiveIssues (fold (merge_local_state rep) xs h) = h_positiveIssues h"
  "h_negativeIssues (fold (merge_local_state rep) xs h) = h_negativeIssues h"
  by (induction xs arbitrary: h) (simp_all add: merge_local_state_def)

definition extends_issues :: "string list \<Rightarrow> string list \<Rightarrow> 'a Health_scheme \<Rightarrow> 'a Health_scheme \<Rightarrow> bool" where
  "extends_issues ps ns h h' \<longleftrightarrow> extends_names ps (h_positiveIssues h) (h_positiveIssues h') \<and>
     extends_names ns (h_negativeIssues h) (h_negativeIssues h')"

lemma extends_issues_trans:
  "extends_issues ps ns h h1 \<Longrightarrow> extends_issues ps' ns' h1 h' \<Longrightarrow> extends_issues (ps @ ps') (ns @ ns') h h'"
  by (auto simp: extends_issues_def intro: extends_names_trans)

lemma merge_report_issues:
  assumes "merge_report rep (g, h) = Inr (g', h')"
  shows "extends_issues (map fst (ps_positiveIssues (snd rep))) (map fst (ps_negativeIssues (snd rep))) h h'"
proof -
  obtain pm pl nm nl mp mn where p: "fold_outcome merge_issue (ps_positiveIssues (snd rep)) (mp, h_positiveIssues h) = Inr (pm, pl)"
    and n: "fold_outcome merge_issue (ps_negativeIssues (snd rep)) (mn, h_negativeIssues h) = Inr (nm, nl)"
    and h': "h_positiveIssues h' = pl" "h_negativeIssues h' = nl"
    using assms by (auto simp: merge_report_def Let_def bindr_Inr_iff merge_local_states_issues)
  show ?thesis using merge_issues_names [OF p] merge_issues_names [OF n] h' by (simp add: extends_issues_def)
qed

lemma merge_reports_issues:
  assumes "fold_outcome merge_report obs (g, h) = Inr (g', h')"
  shows "extends_issues (reported ps_positiveIssues obs) (reported ps_negativeIssues obs) h h'"
  using assms
proof (induction obs arbitrary: g h)
  case Nil
  then show ?case by (simp add: extends_issues_def reported_def extends_names_Nil)
next
  case (Cons rep obs)
  then obtain g1 h1 where "merge_report rep (g, h) = Inr (g1, h1)" "fold_outcome merge_report obs (g1, h1) = Inr (g', h')"
    by (auto simp: bindr_Inr_iff)
  from extends_issues_trans [OF merge_report_issues [OF this(1)] Cons.IH [OF this(2)]]
  show ?case by (simp add: reported_def)
qed

lemma merge_adpis_issues:
  assumes "fold_outcome merge_adpi as (pl, g, h) = Inr (pl', g', h')" and "distinct as"
  shows "extends_issues (all_reported ps_positiveIssues as pl) (all_reported ps_negativeIssues as pl) h h'"
  using assms
proof (induction as arbitrary: pl g h)
  case Nil
  then show ?case by (simp add: extends_issues_def all_reported_def extends_names_Nil)
next
  case (Cons a as)
  from Cons.prems(1) obtain g1 h1 where m: "fold_outcome merge_report (pl a) (g, h) = Inr (g1, h1)"
    and rest: "fold_outcome merge_adpi as (pl(a := []), g1, h1) = Inr (pl', g', h')"
    unfolding fold_outcome.simps bindr_Inr_iff merge_adpi_Inr by blast
  have "all_reported f as (pl(a := [])) = all_reported f as pl" for f
    unfolding all_reported_def using Cons.prems(2) by (intro arg_cong [where f = concat] map_cong) auto
  with extends_issues_trans [OF merge_reports_issues [OF m] Cons.IH [OF rest]] Cons.prems(2)
  show ?case by (simp add: all_reported_def)
qed

lemma merge_adpis_distinct:
  assumes "fold_outcome merge_adpi as (pl, g, h) = Inr (pl', g', h')" and "distinct as"
  shows "distinct (all_reported ps_positiveIssues as pl) \<and> distinct (all_reported ps_negativeIssues as pl)"
  using merge_adpis_issues [OF assms] by (simp add: extends_issues_def extends_names_def)

lemma collect_issues:
  assumes "collect pl r = Inr (pl', r1)" and "distinct (re_adpis r)"
  shows "distinct (all_reported ps_positiveIssues (re_adpis r) pl) \<and> distinct (all_reported ps_negativeIssues (re_adpis r) pl)"
proof -
  have "(\<exists>g h h'. fold_outcome merge_adpi (re_adpis r) (pl, re_gatheredStatistics r, h :: Health) = Inr (pl', g, h')) \<or>
      (\<exists>g h h'. fold_outcome merge_adpi (re_adpis r) (pl, re_gatheredStatistics r, h :: NodeHealth) = Inr (pl', g, h'))"
    using assms(1) by (fastforce simp: collect_def bindr_Inr_iff split: Role.splits option.splits)
  then show ?thesis using merge_adpis_distinct [OF _ assms(2)] merge_adpis_distinct [OF _ assms(2)] by (elim disjE exE) blast+
qed

text \<open>
  A cycle in which an issue is reported twice is not defined. The merge into the local health looks
  for an issue of the same name and keeps a pointer to the loop's copy of it, which it then writes through
  after the loop. So when two components, or two plugins, report the same positive or the same negative issue in a
  cycle, the cycle does not complete.
\<close>

theorem repeated_issue_undefined:
  assumes "distinct (re_adpis r)"
    and "\<not> distinct (all_reported ps_positiveIssues (re_adpis r) pl) \<or> \<not> distinct (all_reported ps_negativeIssues (re_adpis r) pl)"
  shows "\<exists>e. periodic_cycle now stats pl r = Inl e"
proof (cases "periodic_cycle now stats pl r")
  case (Inr x)
  obtain pl' r' push fired where "periodic_cycle now stats pl r = Inr (pl', r', push, fired)" using Inr by (cases x) auto
  then obtain r1 where "collect pl (cycle_start r) = Inr (pl', r1)" using periodic_cycle_frame(9) by blast
  then show ?thesis using collect_issues [of pl "cycle_start r"] assms by (simp add: cycle_start_def)
qed simp

theorem repeated_issue_undefined_witness:
  "\<exists>obs1 obs2. addObservation (comp 4) BAD ''slow'' 3 [] = Inr obs1 \<and> addObservation (comp 5) BAD ''slow'' 3 [] = Inr obs2 \<and>
     (\<exists>e. periodic_cycle 9 None ((\<lambda>_. [])(1 := obs1, 2 := obs2)) node_reasoner = Inl e)"
proof -
  obtain obs1 obs2 where o: "addObservation (comp 4) BAD ''slow'' 3 [] = Inr obs1" "addObservation (comp 5) BAD ''slow'' 3 [] = Inr obs2"
    and r: "reported ps_negativeIssues obs1 = [''slow'']" "reported ps_negativeIssues obs2 = [''slow'']"
    by (simp add: new_eval reported_def)
  have "\<exists>e. periodic_cycle 9 None ((\<lambda>_. [])(1 := obs1, 2 := obs2)) node_reasoner = Inl e"
    by (rule repeated_issue_undefined) (simp_all add: new_eval all_reported_def r)
  then show ?thesis using o by blast
qed

section \<open>What is pushed upstream\<close>

fun message_issues :: "message \<Rightarrow> HealthIssue list" where
  "message_issues MsgNone = []"
| "message_issues (MsgProcess _ h) = h_positiveIssues h @ h_negativeIssues h"
| "message_issues (MsgNode _ h) = h_positiveIssues h @ h_negativeIssues h"
| "message_issues (MsgSystem _ h) = h_positiveIssues h @ h_negativeIssues h"

lemma no_overload: "nh_utilization nh = (\<lambda>_. 0) \<Longrightarrow> fold overload_step us nh = nh"
  by (induction us) (simp_all add: overload_step_def)

lemma assessed_node:
  "re_nodeHealth r = Some nh \<Longrightarrow>
     assessNodeHealth now r = Inr (r \<lparr>re_nodeHealth := Some ((NodeHealth_new now) \<lparr>h_overallState := node_state (h_occurrences nh) (re_observationRatios r)\<rparr>)\<rparr>)"
  by (simp add: assessNodeHealth_def Let_def no_overload NodeHealth_new_def)

lemma assess_and_push_issues:
  assumes "assess_and_push now r = Inr (r', push)" and "push = Some m"
  shows "message_issues m = []"
proof (cases "re_role r")
  case NODE
  then obtain nh where "re_nodeHealth r = Some nh"
    using assms by (auto simp: assess_and_push_def assessNodeHealth_def split: option.splits)
  then show ?thesis using assms NODE
    by (auto simp: assess_and_push_def assessed_node push_upstream_def NodeHealth_new_def split: if_splits)
qed (use assms in \<open>auto simp: assess_and_push_def push_upstream_def assessProcessHealth_def assessSystemHealth_def
      Health_new_def Health_of_state_def Health_make_def Let_def split: if_splits\<close>)

text \<open>
  The health that a cycle pushes to the reasoner above names no issue, whatever the plugins have
  reported: the assessment starts from a new health object, and the only code that adds issues
  to it, for overloaded resources, reads the utilization of that new object, which is zero.
\<close>

theorem pushed_health_without_issues:
  assumes "periodic_cycle now stats pl r = Inr (pl', r', Some m, fired)"
  shows "message_issues m = []"
proof -
  obtain r4 where "periodic_data now pl r = Inr (pl', r4, Some m)" by (rule periodic_cycle_Inr [OF assms])
  then obtain r3 where "assess_and_push now r3 = Inr (r4, Some m)" by (rule periodic_data_Inr)
  then show ?thesis using assess_and_push_issues by blast
qed

theorem pushed_health_without_issues_witness:
  "\<exists>obs m. addObservation (comp 4) ABNORMAL_BAD ''slow'' 3 [] = Inr obs \<and> reported ps_negativeIssues obs = [''slow''] \<and>
     (\<exists>pl' r' fired. periodic_cycle 9 None ((\<lambda>_. [])(1 := obs)) node_reasoner = Inr (pl', r', Some (MsgNode ''node'' m), fired)) \<and>
     message_issues (MsgNode ''node'' m) = []"
proof -
  obtain obs where o: "addObservation (comp 4) ABNORMAL_BAD ''slow'' 3 [] = Inr obs" "reported ps_negativeIssues obs = [''slow'']"
    by (simp add: new_eval reported_def)
  moreover have "\<exists>pl' r' m fired. periodic_cycle 9 None ((\<lambda>_. [])(1 := obs)) node_reasoner = Inr (pl', r', Some (MsgNode ''node'' m), fired)"
    using o(1) by (simp add: cycle_eval new_eval Let_def cong: cycle_congs) (auto simp add: cycle_eval new_eval Let_def cong: cycle_congs)
  ultimately show ?thesis using pushed_health_without_issues by blast
qed

section \<open>Reasoners talking to each other\<close>

text \<open>
  C34 (functional): a process and its node exchange their health in one message and its answer. The node files
  the health under the id of the process; the process gets the node's current health and adds its
  statistics to the sums for the report. Everything else of both is as before.
\<close>

theorem process_node_exchange:
  assumes codec: "\<forall>m. m \<noteq> MsgNone \<longrightarrow> dec (enc m) = Inr m" and client: "re_role client = PROCESS"
    and server: "re_role server = NODE" "re_nodeHealth server = Some nh" "re_childProcessesHealthMap server = Some children"
  shows "exchange enc dec now (MsgProcess i h) client server = Inr
    (client \<lparr>re_nodeHealth := Some nh,
       re_node_statistics := map (\<lambda>i. f64_add (re_node_statistics client ! i) (f64_of_f32 (nh_statistics nh ! i))) [0 ..< NODE_STATISTIC_COUNT],
       re_nPushesReceived := re_nPushesReceived client + 1\<rparr>,
     server \<lparr>re_childProcessesHealthMap := Some (children(i \<mapsto> h)), re_nPushesReceived := re_nPushesReceived server + 1\<rparr>)"
  using assms
  by (simp add: exchange_def messageReceivedCB_def parseReceivedData_def receivedReasonerProcessHealth_def received_one_def
      getNodeHealth_def require_payload_def messageResponseCB_def receivedReasonerNodeHealth_def)

definition process_reasoner :: Reasoner where
  "process_reasoner = reasoner_init 7 ''process'' PROCESS 100 ''node'' Reasoner_new"

theorem process_node_exchange_witness:
  "\<exists>c s. exchange (\<lambda>m. m) Inr 9 (MsgProcess ''process'' (Health_new 8)) process_reasoner node_reasoner = Inr (c, s) \<and>
     re_nodeHealth c = re_nodeHealth node_reasoner \<and> re_childProcessesHealthMap s = Some [''process'' \<mapsto> Health_new 8]"
  using process_node_exchange [of Inr "\<lambda>m. m" process_reasoner node_reasoner "NodeHealth_new 7" Map.empty 9 "''process''" "Health_new 8"]
  by (simp add: process_reasoner_def node_reasoner_def reasoner_init_def)

text \<open>
  A reasoner of the wrong level cannot answer. A process' health that reaches a reasoner that is not a
  node's, or a node's health that reaches one that is not the system's, fails the assertion on
  the payload of the answer, after the message was processed, so that the daemon stops.
\<close>

theorem wrong_level_aborts:
  assumes "dec buffer = Inr m"
    and "(\<exists>i h. m = MsgProcess i h) \<and> re_role r \<noteq> NODE \<or> (\<exists>i h. m = MsgNode i h) \<and> re_role r \<noteq> SYSTEM"
  shows "messageReceivedCB now dec buffer r = Inl (Abort ''payload'')"
  using assms
  by (auto simp: messageReceivedCB_def parseReceivedData_def receivedReasonerProcessHealth_def receivedReasonerNodeHealth_def
      received_one_def getNodeHealth_def getSystemHealth_def require_payload_def)

theorem wrong_level_aborts_witness:
  "messageReceivedCB 9 Inr (MsgProcess ''process'' (Health_new 8)) process_reasoner = Inl (Abort ''payload'')"
  by (rule wrong_level_aborts [where m = "MsgProcess ''process'' (Health_new 8)"])
     (simp_all add: process_reasoner_def reasoner_init_def)

end
