(* ===== verification/System_Information.thy ===== *)
theory System_Information
  imports Ontology_Interface
begin

text \<open>
  The contract of the abstract class \<open>SystemInformationGlobalIDManager\<close>
  (\<open>include/monitoring/system_information/SystemInformationGlobalIDManager.hpp\<close>). Its five pairs of
  \<open>register\<close> and \<open>lookup\<close> functions give numbers to five kinds of names, and further lookups
  lead back from a number to the parts of its name. A name with its kind is a value of
  \<open>si_key\<close>, so that the contract is stated once for all kinds.
\<close>

datatype si_key =
  HostKey string
| DeviceKey NodeID string
| FilesystemKey string
| InterfaceKey string string
| ActivityKey UniqueInterfaceID string

fun same_kind :: "si_key \<Rightarrow> si_key \<Rightarrow> bool" where
  "same_kind (HostKey _) (HostKey _) = True"
| "same_kind (DeviceKey _ _) (DeviceKey _ _) = True"
| "same_kind (FilesystemKey _) (FilesystemKey _) = True"
| "same_kind (InterfaceKey _ _) (InterfaceKey _ _) = True"
| "same_kind (ActivityKey _ _) (ActivityKey _ _) = True"
| "same_kind _ _ = False"

definition not_found :: siox_error where
  "not_found = NotFoundError ''Error Attribute/Value NotFound''"

text \<open>One registration after the other.\<close>

fun register_all :: "('s \<Rightarrow> 'k \<Rightarrow> 'r \<times> 's) \<Rightarrow> 's \<Rightarrow> 'k list \<Rightarrow> 'r list \<times> 's" where
  "register_all reg s [] = ([], s)"
| "register_all reg s (k # ks) =
     (case reg s k of (r, s') \<Rightarrow> case register_all reg s' ks of (rs, s'') \<Rightarrow> (r # rs, s''))"

text \<open>
  Registering succeeds while ids are left, is found again, and forgets nothing; the number of a
  name is positive and leads back to the name. \<open>ready s k\<close> says that what \<open>k\<close> refers to exists.
\<close>

locale system_information =
  fixes reg :: "'s \<Rightarrow> si_key \<Rightarrow> u32 result \<times> 's"
    and look :: "'s \<Rightarrow> si_key \<Rightarrow> u32 result"
    and describes :: "'s \<Rightarrow> u32 \<Rightarrow> si_key \<Rightarrow> bool"
    and valid :: "'s \<Rightarrow> bool"
    and free :: "'s \<Rightarrow> nat"
    and cost :: nat
    and ready :: "'s \<Rightarrow> si_key \<Rightarrow> bool"
  assumes reg_spec: "valid s \<Longrightarrow> cost \<le> free s \<Longrightarrow> ready s k \<Longrightarrow>
      \<exists>i s'. reg s k = (Inr i, s') \<and> valid s' \<and> free s \<le> free s' + cost \<and> look s' k = Inr i \<and>
        (\<forall>k' j. look s k' = Inr j \<longrightarrow> look s' k' = Inr j) \<and> (\<forall>k'. ready s k' \<longrightarrow> ready s' k')"
    and look_spec: "valid s \<Longrightarrow> look s k = Inr i \<Longrightarrow> i \<noteq> 0 \<and> describes s i k"
    and describes_inject: "describes s i k \<Longrightarrow> describes s i k' \<Longrightarrow> same_kind k k' \<Longrightarrow> k = k'"
begin

text \<open>A name has one number for ever.\<close>

lemma register_known:
  assumes "valid s" and "cost \<le> free s" and "ready s k" and "look s k = Inr i"
  shows "\<exists>s'. reg s k = (Inr i, s') \<and> valid s'"
  using reg_spec [OF assms(1-3)] assms(4) by auto

text \<open>Different names of a kind have different numbers.\<close>

lemma numbers_distinct:
  assumes "valid s" and "look s k = Inr i" and "look s k' = Inr i" and "same_kind k k'"
  shows "k = k'"
  using describes_inject [of s i k k'] look_spec assms by blast

text \<open>A sequence of registrations succeeds, and afterwards every name has the number it was given.\<close>

lemma register_all_spec:
  assumes "valid s" and "length ks * cost \<le> free s" and "\<forall>k\<in>set ks. ready s k"
  shows "\<exists>is s'. register_all reg s ks = (map Inr is, s') \<and> valid s' \<and> map (look s') ks = map Inr is \<and>
    (\<forall>k j. look s k = Inr j \<longrightarrow> look s' k = Inr j)"
  using assms
proof (induction ks arbitrary: s)
  case Nil
  then show ?case by simp
next
  case (Cons k ks)
  have "cost \<le> free s" "ready s k" using Cons.prems by simp_all
  from reg_spec [OF Cons.prems(1) this] obtain i s1 where r: "reg s k = (Inr i, s1)" "valid s1" "free s \<le> free s1 + cost"
    "look s1 k = Inr i" "\<forall>k' j. look s k' = Inr j \<longrightarrow> look s1 k' = Inr j" "\<forall>k'. ready s k' \<longrightarrow> ready s1 k'" by blast
  have "length ks * cost \<le> free s1" "\<forall>k\<in>set ks. ready s1 k" using Cons.prems r(3,6) by auto
  from Cons.IH [OF r(2) this] obtain "is" s2 where rest: "register_all reg s1 ks = (map Inr is, s2)" "valid s2"
    "map (look s2) ks = map Inr is" "\<forall>k j. look s1 k = Inr j \<longrightarrow> look s2 k = Inr j" by blast
  show ?case by (rule exI [of _ "i # is"], rule exI [of _ s2]) (use r rest in auto)
qed

end

end
