(* ===== verification/Optimizer.thy ===== *)
theory Optimizer
  imports Ontology_Interface Activity_Builder
begin

text \<open>
  The optimizer, \<open>knowledge/optimizer/modules/OptimizerStandardImplementation.cpp\<close>: a table of the plugins that
  suggest values for attributes. A plugin is an address; what plugins suggest is given by the
  two functions of their interface, which are parameters.
\<close>

text \<open>An outcome as a result, and an assertion.\<close>

definition lift :: "'a outcome \<Rightarrow> 'a result" where
  "lift x = map_sum Fatal id x"

definition ensure :: "bool \<Rightarrow> string \<Rightarrow> unit result" where
  "ensure b msg = lift (check_that b msg)"

lemma lift_simps [simp]: "lift (Inr x) = Inr x" "lift (Inl f) = Inl (Fatal f)"
  by (simp_all add: lift_def)

lemma lift_Inr_iff [simp]: "lift x = Inr y \<longleftrightarrow> x = Inr y"
  by (cases x) simp_all

lemma ensure_simps [simp]: "ensure True m = Inr ()" "ensure False m = Inl (Fatal (Abort m))"
  by (simp_all add: ensure_def)

record optimizer_plugins =
  op_optimalParameter :: "nat \<Rightarrow> OntologyAttributeID \<Rightarrow> OntologyValue result"
  op_optimalParameterFor :: "nat \<Rightarrow> OntologyAttributeID \<Rightarrow> Activity \<Rightarrow> OntologyValue result"

text \<open>The map from attributes to pointers; \<open>Some None\<close> is a null pointer in the map.\<close>

type_synonym expert = "OntologyAttributeID \<rightharpoonup> nat option"

definition opt_registerPlugin :: "OntologyAttributeID \<Rightarrow> nat option \<Rightarrow> expert \<Rightarrow> (bool \<times> expert) outcome" where
  "opt_registerPlugin aid plugin ex =
     (if plugin = None then Inl (Abort ''plugin != nullptr'')
      else
        let ex1 = (if ex aid = None then ex(aid \<mapsto> None) else ex)
        in if ex1 aid = Some None then Inr (True, ex1(aid \<mapsto> plugin)) else Inr (False, ex1))"

definition opt_isPluginRegistered :: "OntologyAttributeID \<Rightarrow> expert \<Rightarrow> bool" where
  "opt_isPluginRegistered aid ex \<longleftrightarrow> ex aid \<noteq> None"

definition opt_unregisterPlugin :: "OntologyAttributeID \<Rightarrow> nat option \<Rightarrow> expert \<Rightarrow> bool \<times> expert" where
  "opt_unregisterPlugin aid plugin ex =
     (case ex aid of
        Some p \<Rightarrow> if p = plugin then (True, ex(aid := None)) else (False, ex)
      | None \<Rightarrow> (False, ex))"

definition no_plugin :: siox_error where
  "no_plugin = NotFoundError ''No optimizer plug-in found for attribute!''"

definition expert_of :: "OntologyAttributeID \<Rightarrow> expert \<Rightarrow> nat result" where
  "expert_of aid ex =
     (case ex aid of
        None \<Rightarrow> Inl no_plugin
      | Some None \<Rightarrow> Inl (Fatal (Undefined ''call of a null plugin''))
      | Some (Some p) \<Rightarrow> Inr p)"

definition optimalParameter :: "optimizer_plugins \<Rightarrow> expert \<Rightarrow> OntologyAttributeID \<Rightarrow> OntologyValue result" where
  "optimalParameter P ex aid = bindr (expert_of aid ex) (\<lambda>p. op_optimalParameter P p aid)"

definition optimalParameterFor ::
  "optimizer_plugins \<Rightarrow> expert \<Rightarrow> OntologyAttributeID \<Rightarrow> Activity \<Rightarrow> OntologyValue result" where
  "optimalParameterFor P ex aid a = bindr (expert_of aid ex) (\<lambda>p. op_optimalParameterFor P p aid a)"

section \<open>The registry\<close>

datatype expert_op = Register OntologyAttributeID nat | Unregister OntologyAttributeID nat

text \<open>
  What the table is for: the plugin that registered first for an attribute and has not
  unregistered since.
\<close>

fun expert_spec :: "expert_op \<Rightarrow> (OntologyAttributeID \<rightharpoonup> nat) \<Rightarrow> bool \<times> (OntologyAttributeID \<rightharpoonup> nat)" where
  "expert_spec (Register aid p) m = (if m aid = None then (True, m(aid \<mapsto> p)) else (False, m))"
| "expert_spec (Unregister aid p) m = (if m aid = Some p then (True, m(aid := None)) else (False, m))"

fun expert_apply :: "expert_op \<Rightarrow> expert \<Rightarrow> (bool \<times> expert) outcome" where
  "expert_apply (Register aid p) ex = opt_registerPlugin aid (Some p) ex"
| "expert_apply (Unregister aid p) ex = Inr (opt_unregisterPlugin aid (Some p) ex)"

fun expert_run :: "expert_op list \<Rightarrow> expert \<Rightarrow> (bool list \<times> expert) outcome" where
  "expert_run [] ex = Inr ([], ex)"
| "expert_run (x # xs) ex =
     bindr (expert_apply x ex) (\<lambda>(b, ex1). bindr (expert_run xs ex1) (\<lambda>(bs, ex2). Inr (b # bs, ex2)))"

fun spec_run :: "expert_op list \<Rightarrow> (OntologyAttributeID \<rightharpoonup> nat) \<Rightarrow> bool list \<times> (OntologyAttributeID \<rightharpoonup> nat)" where
  "spec_run [] m = ([], m)"
| "spec_run (x # xs) m = (case expert_spec x m of (b, m1) \<Rightarrow> case spec_run xs m1 of (bs, m2) \<Rightarrow> (b # bs, m2))"

definition as_expert :: "(OntologyAttributeID \<rightharpoonup> nat) \<Rightarrow> expert" where
  "as_expert m aid = map_option Some (m aid)"

lemma as_expert_simps: "as_expert m aid = None \<longleftrightarrow> m aid = None" "as_expert m aid = Some None \<longleftrightarrow> False" "as_expert m aid = Some (Some p) \<longleftrightarrow> m aid = Some p"
  by (simp_all add: as_expert_def)

lemma expert_apply_spec: "expert_apply x (as_expert m) = Inr (apsnd as_expert (expert_spec x m))"
  by (cases x) (auto simp: opt_registerPlugin_def opt_unregisterPlugin_def as_expert_def fun_eq_iff Let_def split: option.splits)

lemma expert_run_spec: "expert_run xs (as_expert m) = Inr (apsnd as_expert (spec_run xs m))"
  by (induction xs arbitrary: m) (simp_all add: expert_apply_spec split: prod.splits)

text \<open>
  The table of experts refines a map from attributes to plugins. From the empty table, after
  any sequence of registrations and removals, every call has returned what it returns on the
  map, where a registration succeeds only for an attribute that has no plugin and a removal only
  for the plugin that is registered. A query is answered by the plugin of the map, and refused with
  \<open>NotFoundError\<close> when there is none; a null pointer is never called.
\<close>

theorem optimizer_refines_map:
  "\<exists>ex. expert_run ops Map.empty = Inr (fst (spec_run ops Map.empty), ex) \<and>
    (\<forall>aid. let m = snd (spec_run ops Map.empty) in
       opt_isPluginRegistered aid ex = (m aid \<noteq> None) \<and>
       optimalParameter P ex aid = (case m aid of None \<Rightarrow> Inl no_plugin | Some p \<Rightarrow> op_optimalParameter P p aid) \<and>
       optimalParameterFor P ex aid a = (case m aid of None \<Rightarrow> Inl no_plugin | Some p \<Rightarrow> op_optimalParameterFor P p aid a))"
proof -
  have "as_expert Map.empty = Map.empty" by (simp add: as_expert_def fun_eq_iff)
  then have "expert_run ops Map.empty = Inr (apsnd as_expert (spec_run ops Map.empty))" using expert_run_spec [of ops Map.empty] by simp
  moreover obtain bs m where "spec_run ops Map.empty = (bs, m)" by fastforce
  ultimately show ?thesis
    by (intro exI [of _ "as_expert m"])
       (auto simp: opt_isPluginRegistered_def optimalParameter_def optimalParameterFor_def expert_of_def as_expert_def Let_def
          split: option.splits)
qed

end
