(* ===== verification/Low_Level_Interface.thy ===== *)
theory Low_Level_Interface
  imports Binary_Serializer Activity_Multiplexer System_Information Optimizer "HOL-Library.AList"
begin

text \<open>
  The C interface of the monitoring library, \<open>monitoring/low-level-c/siox-ll.cpp\<close> and
  \<open>siox-ll-internal.hpp\<close>: the functions that instrumented layers call. It holds the global state
  of a process and composes the activity builder, the multiplexers, ontology, system
  information, association mapper and optimizer. The modules are loaded at run time behind abstract
  classes; their operations are the record \<open>modules\<close>. Pointers to components and activity handles are
  addresses in two stores; an attribute handle is the number packed into the pointer. A call that ends
  with \<open>Inl\<close> has not returned: an assertion failed, or an exception left the library. What the operating
  system and the configuration say is passed as an argument.
\<close>

datatype monitoring_state =
  MONITORING_PERMANENTLY_DISABLED | MONITORING_ENABLED | MONITORING_DISABLED_BY_USER | MONITORING_DISABLED_NOT_INITIALIZED

record siox_component =
  sc_cid :: ComponentID
  sc_uid :: UniqueInterfaceID
  sc_instance_associate :: AssociateID
  sc_amux :: nat
  sc_preCallAmux :: "nat option"

record siox_activity =
  sa_activity :: nat
  sa_component :: nat

text \<open>The virtual functions of the loaded modules that the interface calls.\<close>

record ('o, 'i, 'm) modules =
  mod_register_attribute :: "'o \<Rightarrow> string \<Rightarrow> string \<Rightarrow> Type \<Rightarrow> OntologyAttribute result \<times> 'o"
  mod_lookup_attribute_by_name :: "'o \<Rightarrow> string \<Rightarrow> string \<Rightarrow> OntologyAttribute result"
  mod_set_meta_attribute :: "'o \<Rightarrow> OntologyAttribute \<Rightarrow> OntologyAttribute \<Rightarrow> OntologyValue \<Rightarrow> unit result \<times> 'o"
  mod_register_nodeID :: "'i \<Rightarrow> string \<Rightarrow> NodeID result \<times> 'i"
  mod_register_interfaceID :: "'i \<Rightarrow> string \<Rightarrow> string \<Rightarrow> UniqueInterfaceID result \<times> 'i"
  mod_register_activityID :: "'i \<Rightarrow> UniqueInterfaceID \<Rightarrow> string \<Rightarrow> UniqueComponentActivityID result \<times> 'i"
  mod_lookup_interface_name :: "'i \<Rightarrow> UniqueInterfaceID \<Rightarrow> string result"
  mod_lookup_interface_implementation :: "'i \<Rightarrow> UniqueInterfaceID \<Rightarrow> string result"
  mod_set_process_attribute :: "'m \<Rightarrow> ProcessID \<Rightarrow> OntologyAttribute \<Rightarrow> OntologyValue \<Rightarrow> unit result \<times> 'm"
  mod_set_component_attribute :: "'m \<Rightarrow> ComponentID \<Rightarrow> OntologyAttribute \<Rightarrow> OntologyValue \<Rightarrow> unit result \<times> 'm"
  mod_create_instance_mapping :: "'m \<Rightarrow> string \<Rightarrow> AssociateID result \<times> 'm"
  mod_optimalParameter :: "(OntologyAttributeID \<Rightarrow> OntologyValue result) option"
  mod_optimalParameterFor :: "OntologyAttributeID \<Rightarrow> Activity \<Rightarrow> OntologyValue result"

record ('o, 'i, 'm) siox =
  ll_finalized :: bool
  ll_initalizationCounter :: nat
  ll_monitoringDisabled :: monitoring_state
  ll_nid :: NodeID
  ll_pid :: ProcessID
  ll_localHostname :: string
  ll_localProcessID :: ProcessID
  ll_ontology :: 'o
  ll_system_information :: 'i
  ll_association_mapper :: 'm
  ll_amux :: nat
  ll_last_componentID :: u16
  ll_terminate_cbs :: "nat list"
  ll_initialization_cbs :: "nat list"
  ll_terminate_complete_cbs :: "nat list"
  ll_registeredComponents :: "(UniqueInterfaceID \<times> nat) list"
  ll_components :: "nat \<rightharpoonup> siox_component"
  ll_activities :: "nat \<rightharpoonup> siox_activity"
  ll_fresh :: nat
  ll_monitoring_uid :: UniqueInterfaceID
  ll_monitoring_cid :: ComponentID
  ll_world :: world
  ll_logged :: "(nat \<times> Activity) list"
  ll_called :: "nat list"

type_synonym ('o, 'i, 'm, 'a) call = "('a \<times> ('o, 'i, 'm) siox) result"

section \<open>Helpers\<close>

definition on_ontology :: "('a result \<times> 'o) \<Rightarrow> ('o, 'i, 'm) siox \<Rightarrow> ('o, 'i, 'm, 'a) call" where
  "on_ontology x s = bindr (fst x) (\<lambda>a. Inr (a, s \<lparr>ll_ontology := snd x\<rparr>))"

definition on_si :: "('a result \<times> 'i) \<Rightarrow> ('o, 'i, 'm) siox \<Rightarrow> ('o, 'i, 'm, 'a) call" where
  "on_si x s = bindr (fst x) (\<lambda>a. Inr (a, s \<lparr>ll_system_information := snd x\<rparr>))"

definition on_mapper :: "('a result \<times> 'm) \<Rightarrow> ('o, 'i, 'm) siox \<Rightarrow> ('o, 'i, 'm, 'a) call" where
  "on_mapper x s = bindr (fst x) (\<lambda>a. Inr (a, s \<lparr>ll_association_mapper := snd x\<rparr>))"

definition component_at :: "nat option \<Rightarrow> ('o, 'i, 'm) siox \<Rightarrow> siox_component result" where
  "component_at c s = (case c of None \<Rightarrow> Inl (Fatal (Undefined ''null pointer''))
     | Some p \<Rightarrow> (case ll_components s p of None \<Rightarrow> Inl (Fatal (Undefined ''dangling pointer'')) | Some x \<Rightarrow> Inr x))"

definition activity_at :: "nat option \<Rightarrow> ('o, 'i, 'm) siox \<Rightarrow> siox_activity result" where
  "activity_at a s = (case a of None \<Rightarrow> Inl (Fatal (Undefined ''null pointer''))
     | Some p \<Rightarrow> (case ll_activities s p of None \<Rightarrow> Inl (Fatal (Undefined ''dangling pointer'')) | Some x \<Rightarrow> Inr x))"

text \<open>\<open>ActivityBuilder::getThreadInstance\<close> for the calling thread, then a call of that builder.\<close>

definition with_builder :: "nat \<Rightarrow> (nat \<Rightarrow> world \<Rightarrow> ('a \<times> world) outcome) \<Rightarrow> ('o, 'i, 'm) siox \<Rightarrow> ('o, 'i, 'm, 'a) call" where
  "with_builder thread f s =
     (case getThreadInstance thread (ll_world s) of (b, w) \<Rightarrow>
        bindr (lift (f b w)) (\<lambda>(x, w'). Inr (x, s \<lparr>ll_world := w'\<rparr>)))"

definition no_result :: "world outcome \<Rightarrow> (unit \<times> world) outcome" where
  "no_result x = bindr x (\<lambda>w. Inr ((), w))"

definition log_activity :: "nat \<Rightarrow> nat \<Rightarrow> ('o, 'i, 'm) siox \<Rightarrow> ('o, 'i, 'm) siox result" where
  "log_activity amux p s = bindr (lift (act_at (Some p) (ll_world s))) (\<lambda>a. Inr (s \<lparr>ll_logged := ll_logged s @ [(amux, a)]\<rparr>))"

section \<open>Switching monitoring on and off\<close>

definition siox_is_monitoring_permanently_disabled :: "('o, 'i, 'm) siox \<Rightarrow> bool" where
  "siox_is_monitoring_permanently_disabled s \<longleftrightarrow> ll_monitoringDisabled s = MONITORING_PERMANENTLY_DISABLED"

definition siox_is_monitoring_enabled :: "('o, 'i, 'm) siox \<Rightarrow> bool" where
  "siox_is_monitoring_enabled s \<longleftrightarrow> ll_monitoringDisabled s = MONITORING_ENABLED"

definition siox_disable_monitoring :: "('o, 'i, 'm) siox \<Rightarrow> ('o, 'i, 'm) siox" where
  "siox_disable_monitoring s =
     (if ll_monitoringDisabled s \<noteq> MONITORING_ENABLED then s else s \<lparr>ll_monitoringDisabled := MONITORING_DISABLED_BY_USER\<rparr>)"

definition siox_enable_monitoring :: "('o, 'i, 'm) siox \<Rightarrow> ('o, 'i, 'm) siox" where
  "siox_enable_monitoring s =
     (if ll_monitoringDisabled s = MONITORING_DISABLED_BY_USER then s else s \<lparr>ll_monitoringDisabled := MONITORING_ENABLED\<rparr>)"

definition siox_register_termination_signal :: "nat \<Rightarrow> ('o, 'i, 'm) siox \<Rightarrow> ('o, 'i, 'm) siox" where
  "siox_register_termination_signal f s =
     (if f \<in> set (ll_terminate_cbs s) then s else s \<lparr>ll_terminate_cbs := ll_terminate_cbs s @ [f]\<rparr>)"

definition siox_register_termination_complete_signal :: "nat \<Rightarrow> ('o, 'i, 'm) siox \<Rightarrow> ('o, 'i, 'm) siox" where
  "siox_register_termination_complete_signal f s =
     (if f \<in> set (ll_terminate_complete_cbs s) then s else s \<lparr>ll_terminate_complete_cbs := ll_terminate_complete_cbs s @ [f]\<rparr>)"

definition siox_register_initialization_signal :: "nat \<Rightarrow> ('o, 'i, 'm) siox \<Rightarrow> ('o, 'i, 'm) siox" where
  "siox_register_initialization_signal f s =
     (if f \<in> set (ll_initialization_cbs s) then s else s \<lparr>ll_initialization_cbs := ll_initialization_cbs s @ [f]\<rparr>)"

section \<open>Start and end\<close>

text \<open>What the operating system tells about the process.\<close>

record process_environment =
  env_hostname :: string
  env_pid :: u32
  env_seconds :: u32
  env_cmdline :: "string option"
  env_uid :: u64
  env_gid :: u64
  env_pw_name :: "string option"
  env_environ :: "string option"
  env_thread :: nat

definition create_process_id :: "process_environment \<Rightarrow> NodeID \<Rightarrow> ProcessID" where
  "create_process_id env nid = ProcessID nid (env_pid env) (env_seconds env)"

definition lookup_node_id :: "('o, 'i, 'm) modules \<Rightarrow> string \<Rightarrow> ('o, 'i, 'm) siox \<Rightarrow> ('o, 'i, 'm, NodeID) call" where
  "lookup_node_id M hostname s = on_si (mod_register_nodeID M (ll_system_information s) hostname) s"

text \<open>
  The content of a file, \<open>None\<close> if it cannot be opened. White space is skipped by the stream, a NUL becomes a blank, and
  the read that meets the end of the file adds one more. The files are those of \<open>/proc\<close>, whose size is zero, so that
  opening at the end is opening at the start.
\<close>

definition readfile :: "string \<Rightarrow> string option \<Rightarrow> string" where
  "readfile filename content =
     (case content of
        None \<Rightarrow> ''(error in '' @ filename @ '')''
      | Some cs \<Rightarrow> map (\<lambda>c. if c = CHR 0x00 then CHR '' '' else c) (filter (\<lambda>c. \<not> is_space c) cs) @ '' '')"

definition proc_file :: "process_environment \<Rightarrow> string \<Rightarrow> string" where
  "proc_file env name = ''/proc/'' @ dec_nat (unat (env_pid env)) @ name"

definition program_attribute ::
  "('o, 'i, 'm) modules \<Rightarrow> string \<Rightarrow> Type \<Rightarrow> VariableDatatype \<Rightarrow> ('o, 'i, 'm) siox \<Rightarrow> ('o, 'i, 'm) siox result" where
  "program_attribute M name t v s =
     bindr (on_ontology (mod_register_attribute M (ll_ontology s) ''program'' name t) s) (\<lambda>(description, s1).
     bindr (on_mapper (mod_set_process_attribute M (ll_association_mapper s1) (ll_pid s1) description v) s1) (\<lambda>(_, s2). Inr s2))"

definition add_program_information ::
  "('o, 'i, 'm) modules \<Rightarrow> process_environment \<Rightarrow> ('o, 'i, 'm) siox \<Rightarrow> ('o, 'i, 'm) siox result" where
  "add_program_information M env s =
     bindr (program_attribute M ''description/commandLine'' STRING (vd_of_string (readfile (proc_file env ''/cmdline'') (env_cmdline env))) s) (\<lambda>s1.
     bindr (program_attribute M ''description/user-id'' UINT64 (VUint64 (env_uid env)) s1) (\<lambda>s2.
     bindr (program_attribute M ''description/group-id'' UINT64 (VUint64 (env_gid env)) s2) (\<lambda>s3.
     bindr (case env_pw_name env of
              Some name \<Rightarrow> program_attribute M ''description/user-name'' STRING (vd_of_string name) s3
            | None \<Rightarrow> Inr s3) (\<lambda>s4.
     program_attribute M ''description/environment'' STRING (vd_of_string (readfile (proc_file env ''/environ'') (env_environ env))) s4))))"

text \<open>\<open>junk\<close> is what the memory of a new activity held, \<open>t_stop\<close> the clock when it is stopped.\<close>

definition internal_trace_heavyWeight ::
  "('o, 'i, 'm) modules \<Rightarrow> nat \<Rightarrow> string \<Rightarrow> Timestamp \<Rightarrow> Timestamp \<Rightarrow> Timestamp \<Rightarrow> ('o, 'i, 'm) siox \<Rightarrow> ('o, 'i, 'm) siox result" where
  "internal_trace_heavyWeight M thread activityName junk t_start t_stop s =
     bindr (on_si (mod_register_activityID M (ll_system_information s) (ll_monitoring_uid s) activityName) s) (\<lambda>(aid, s1).
     bindr (with_builder thread (\<lambda>b w.
       bindr (beginActivity b (ll_monitoring_cid s1) aid junk w) (\<lambda>(p, w1).
       bindr (startActivity (Some p) t_start w1) (\<lambda>w2.
       bindr (stopActivity (Some p) t_stop w2) (\<lambda>w3.
       bindr (endActivity b (Some p) w3) (\<lambda>w4. Inr (p, w4)))))) s1) (\<lambda>(p, s2).
     log_activity (ll_amux s2) p s2))"

text \<open>
  \<open>siox_ctor\<close>. \<open>loaded\<close> is what the configuration gave: \<open>None\<close> if reading it threw, else the global
  multiplexer. The failure path calls \<open>siox_finalize_monitoring\<close>, which finds the library
  finalized and only disables monitoring.
\<close>

definition siox_ctor_begin ::
  "('o, 'i, 'm) modules \<Rightarrow> process_environment \<Rightarrow> nat option \<Rightarrow> ('o, 'i, 'm) siox \<Rightarrow> ('o, 'i, 'm, bool) call" where
  "siox_ctor_begin M env loaded s =
     (let s0 = s \<lparr>ll_initalizationCounter := Suc (ll_initalizationCounter s)\<rparr>
      in case loaded of
           None \<Rightarrow> Inr (False, s0)
         | Some amux \<Rightarrow>
             case mod_register_nodeID M (ll_system_information s0) (env_hostname env) of (r, si) \<Rightarrow>
               let s1 = s0 \<lparr>ll_amux := amux, ll_system_information := si\<rparr>
               in case r of
                    Inl (Fatal f) \<Rightarrow> Inl (Fatal f)
                  | Inl e \<Rightarrow> Inr (False, s1)
                  | Inr nid \<Rightarrow>
                      let pid = create_process_id env nid
                      in Inr (True, s1 \<lparr>ll_nid := nid, ll_pid := pid, ll_localHostname := env_hostname env, ll_localProcessID := pid\<rparr>))"

definition siox_ctor ::
  "('o, 'i, 'm) modules \<Rightarrow> process_environment \<Rightarrow> nat option \<Rightarrow> Timestamp \<Rightarrow> Timestamp \<Rightarrow> Timestamp
   \<Rightarrow> ('o, 'i, 'm) siox \<Rightarrow> ('o, 'i, 'm) siox result" where
  "siox_ctor M env loaded junk t_start t_stop s =
     (if \<not> ll_finalized s then Inr s
      else bindr (siox_ctor_begin M env loaded s) (\<lambda>(ok, s1).
        if \<not> ok then Inr (s1 \<lparr>ll_monitoringDisabled := MONITORING_PERMANENTLY_DISABLED\<rparr>)
        else
          bindr (add_program_information M env s1) (\<lambda>s2.
          let s3 = s2 \<lparr>ll_finalized := False, ll_monitoringDisabled := MONITORING_ENABLED\<rparr>
          in bindr (on_si (mod_register_interfaceID M (ll_system_information s3) ''SIOX'' ''LowLevelAPI'') s3) (\<lambda>(uid, s4).
             let cid = ll_last_componentID s4 + 1
             in internal_trace_heavyWeight M (env_thread env) ''init'' junk t_start t_stop
                  (s4 \<lparr>ll_monitoring_uid := uid, ll_last_componentID := cid, ll_monitoring_cid := ComponentID (ll_pid s4) cid\<rparr>)))))"

definition siox_initialize_monitoring ::
  "('o, 'i, 'm) modules \<Rightarrow> process_environment \<Rightarrow> nat option \<Rightarrow> Timestamp \<Rightarrow> Timestamp \<Rightarrow> Timestamp
   \<Rightarrow> ('o, 'i, 'm) siox \<Rightarrow> ('o, 'i, 'm) siox result" where
  "siox_initialize_monitoring M env loaded junk t_start t_stop s =
     bindr (siox_ctor M env loaded junk t_start t_stop s) (\<lambda>s1. Inr (s1 \<lparr>ll_called := ll_called s1 @ ll_initialization_cbs s1\<rparr>))"

definition finalizeSIOX ::
  "('o, 'i, 'm) modules \<Rightarrow> nat \<Rightarrow> Timestamp \<Rightarrow> Timestamp \<Rightarrow> Timestamp \<Rightarrow> ('o, 'i, 'm) siox \<Rightarrow> ('o, 'i, 'm) siox result" where
  "finalizeSIOX M thread junk t_end t_stop s =
     (if ll_finalized s then Inr s
      else bindr (internal_trace_heavyWeight M thread ''exit'' junk t_end t_stop (s \<lparr>ll_called := ll_called s @ ll_terminate_cbs s\<rparr>)) (\<lambda>s1.
        Inr (s1 \<lparr>ll_finalized := True, ll_monitoringDisabled := MONITORING_PERMANENTLY_DISABLED\<rparr>)))"

definition siox_ll_dtor ::
  "('o, 'i, 'm) modules \<Rightarrow> nat \<Rightarrow> Timestamp \<Rightarrow> Timestamp \<Rightarrow> Timestamp \<Rightarrow> ('o, 'i, 'm) siox \<Rightarrow> ('o, 'i, 'm) siox result" where
  "siox_ll_dtor M thread junk t_end t_stop s =
     bindr (finalizeSIOX M thread junk t_end t_stop s) (\<lambda>s1. Inr (s1 \<lparr>ll_called := ll_called s1 @ ll_terminate_complete_cbs s1\<rparr>))"

definition siox_finalize_monitoring ::
  "('o, 'i, 'm) modules \<Rightarrow> nat \<Rightarrow> Timestamp \<Rightarrow> Timestamp \<Rightarrow> Timestamp \<Rightarrow> ('o, 'i, 'm) siox \<Rightarrow> ('o, 'i, 'm) siox result" where
  "siox_finalize_monitoring M thread junk t_end t_stop s =
     finalizeSIOX M thread junk t_end t_stop (s \<lparr>ll_monitoringDisabled := MONITORING_PERMANENTLY_DISABLED\<rparr>)"

text \<open>After a fork: every registered component gets the new process number.\<close>

definition set_pid_pid :: "u32 \<Rightarrow> ProcessID \<Rightarrow> ProcessID" where
  "set_pid_pid p x = ProcessID (pid_nid x) p (pid_time x)"

definition set_cid_pid :: "u32 \<Rightarrow> ComponentID \<Rightarrow> ComponentID" where
  "set_cid_pid p x = ComponentID (set_pid_pid p (cid_pid x)) (cid_id x)"

definition fork_component :: "u32 \<Rightarrow> UniqueInterfaceID \<times> nat \<Rightarrow> (nat \<rightharpoonup> siox_component) \<Rightarrow> (nat \<rightharpoonup> siox_component) outcome" where
  "fork_component p e cs =
     (case cs (snd e) of
        None \<Rightarrow> Inl (Undefined ''dangling pointer'')
      | Some c \<Rightarrow> Inr (cs(snd e \<mapsto> c \<lparr>sc_cid := set_cid_pid p (sc_cid c)\<rparr>)))"

definition siox_handle_fork_complete :: "u32 \<Rightarrow> ('o, 'i, 'm) siox \<Rightarrow> ('o, 'i, 'm) siox result" where
  "siox_handle_fork_complete p s =
     (let pid = set_pid_pid p (ll_pid s)
      in bindr (lift (fold_outcome (fork_component p) (ll_registeredComponents s) (ll_components s))) (\<lambda>cs.
         Inr (s \<lparr>ll_pid := pid, ll_monitoring_cid := set_cid_pid p (ll_monitoring_cid s), ll_localProcessID := pid,
                 ll_components := cs\<rparr>)))"

section \<open>Attributes and values\<close>

text \<open>The handle of an attribute: the id in the lower, the type in the upper half of the pointer.\<close>

definition convertOntologyAttributeToPtr :: "OntologyAttribute \<Rightarrow> u64" where
  "convertOntologyAttributeToPtr oa = ucast (oa_aID oa) + push_bit 32 (of_nat (type_code (oa_storage_type oa)))"

definition convertPtrToOntologyAttribute :: "u64 \<Rightarrow> OntologyAttribute result" where
  "convertPtrToOntologyAttribute ptr =
     (case type_of_code (unat (drop_bit 32 ptr)) of
        None \<Rightarrow> Inl (Fatal (Undefined ''value of the enumeration''))
      | Some t \<Rightarrow> Inr \<lparr>oa_aID = ucast ptr, oa_storage_type = t\<rparr>)"

text \<open>
  Reading a value through a pointer: the bytes there, at the width of the type; a string ends
  at its first NUL, which must be there.
\<close>

definition read_word :: "buffer \<Rightarrow> 'a::len word result" where
  "read_word bs =
     (let n = LENGTH('a) div 8
      in if length bs < n then Inl (Fatal (Undefined ''read past the object'')) else Inr (of_nat (le_value (take n bs))))"

definition convert_attribute :: "OntologyAttribute \<Rightarrow> buffer \<Rightarrow> VariableDatatype result" where
  "convert_attribute oa bs =
     (case oa_storage_type oa of
        UINT32 \<Rightarrow> bindr (read_word bs) (\<lambda>w. Inr (VUint32 w))
      | INT32 \<Rightarrow> bindr (read_word bs) (\<lambda>w. Inr (VInt32 w))
      | UINT64 \<Rightarrow> bindr (read_word bs) (\<lambda>w. Inr (VUint64 w))
      | INT64 \<Rightarrow> bindr (read_word bs) (\<lambda>w. Inr (VInt64 w))
      | FLOAT \<Rightarrow> bindr (read_word bs) (\<lambda>w. Inr (VFloat w))
      | DOUBLE \<Rightarrow> bindr (read_word bs) (\<lambda>w. Inr (VDouble w))
      | STRING \<Rightarrow> (if 0 \<in> set bs then Inr (vd_of_string (map byte_char bs)) else Inl (Fatal (Undefined ''unterminated string'')))
      | INVALID \<Rightarrow> Inl (Fatal (Abort ''0'')))"

text \<open>What is written through an output pointer: bytes, or the address of a new C string.\<close>

datatype out_value = OutBytes buffer | OutString string

definition convert_attribute_back :: "VariableDatatype \<Rightarrow> out_value result" where
  "convert_attribute_back val =
     (case val of
        VInt32 w \<Rightarrow> Inr (OutBytes (word_enc w))
      | VUint32 w \<Rightarrow> Inr (OutBytes (word_enc w))
      | VInt64 w \<Rightarrow> Inr (OutBytes (word_enc w))
      | VUint64 w \<Rightarrow> Inr (OutBytes (word_enc w))
      | VFloat w \<Rightarrow> Inr (OutBytes (word_enc w))
      | VDouble w \<Rightarrow> Inr (OutBytes (word_enc w))
      | VString x \<Rightarrow> Inr (OutString x)
      | VInvalid \<Rightarrow> Inl (Fatal (Abort ''tried to optimize for a VariableDatatype of invalid type'')))"

text \<open>The attribute behind a handle and the value behind a pointer.\<close>

definition handle_value :: "u64 \<Rightarrow> buffer \<Rightarrow> (OntologyAttribute \<times> VariableDatatype) result" where
  "handle_value attribute bs =
     bindr (ensure (attribute \<noteq> 0) ''attribute != nullptr'') (\<lambda>_.
     bindr (convertPtrToOntologyAttribute attribute) (\<lambda>oa.
     bindr (convert_attribute oa bs) (\<lambda>v. Inr (oa, v))))"

definition require_value :: "buffer option \<Rightarrow> buffer result" where
  "require_value v = (case v of None \<Rightarrow> Inl (Fatal (Abort ''value != nullptr'')) | Some bs \<Rightarrow> Inr bs)"

definition siox_process_set_attribute ::
  "('o, 'i, 'm) modules \<Rightarrow> u64 \<Rightarrow> buffer option \<Rightarrow> ('o, 'i, 'm) siox \<Rightarrow> ('o, 'i, 'm, unit) call" where
  "siox_process_set_attribute M attribute value s =
     bindr (ensure (attribute \<noteq> 0) ''attribute != nullptr'') (\<lambda>_.
     bindr (require_value value) (\<lambda>bs.
     bindr (handle_value attribute bs) (\<lambda>(oa, val).
     on_mapper (mod_set_process_attribute M (ll_association_mapper s) (ll_pid s) oa val) s)))"

definition siox_associate_instance ::
  "('o, 'i, 'm) modules \<Rightarrow> string \<Rightarrow> ('o, 'i, 'm) siox \<Rightarrow> ('o, 'i, 'm, AssociateID) call" where
  "siox_associate_instance M instance_information s =
     on_mapper (mod_create_instance_mapping M (ll_association_mapper s) instance_information) s"

definition siox_lookup_node_id ::
  "('o, 'i, 'm) modules \<Rightarrow> string option \<Rightarrow> ('o, 'i, 'm) siox \<Rightarrow> ('o, 'i, 'm, NodeID) call" where
  "siox_lookup_node_id M hostname s =
     (case hostname of None \<Rightarrow> Inr (ll_nid s, s) | Some h \<Rightarrow> lookup_node_id M h s)"

section \<open>Components\<close>

definition siox_component_is_registered :: "UniqueInterfaceID \<Rightarrow> ('o, 'i, 'm) siox \<Rightarrow> bool result" where
  "siox_component_is_registered uiid s =
     bindr (ensure (uiid \<noteq> 0) ''uiid != SIOX_INVALID_ID'') (\<lambda>_. Inr (map_of (ll_registeredComponents s) uiid \<noteq> None))"

text \<open>The name under which the configuration of an interface is looked up, cut by \<open>snprintf\<close>.\<close>

definition config_name :: "string \<Rightarrow> string \<Rightarrow> string" where
  "config_name interface_name interface_implementation =
     take 999 (if interface_implementation \<noteq> [] then c_str interface_name @ '' '' @ c_str interface_implementation else c_str interface_name)"

text \<open>
  \<open>config\<close> gives the multiplexers that the configuration of an interface loads: the one for
  completed activities, and a synchronous one for calls that start.
\<close>

definition siox_component_register ::
  "('o, 'i, 'm) modules \<Rightarrow> (string \<Rightarrow> nat option \<times> nat option) \<Rightarrow> UniqueInterfaceID \<Rightarrow> string
   \<Rightarrow> ('o, 'i, 'm) siox \<Rightarrow> ('o, 'i, 'm, nat) call" where
  "siox_component_register M config uiid instance_name s =
     bindr (siox_component_is_registered uiid s) (\<lambda>known.
     bindr (ensure (\<not> known) ''siox_component_is_registered(uiid) == 0'') (\<lambda>_.
     bindr (mod_lookup_interface_implementation M (ll_system_information s) uiid) (\<lambda>interface_implementation.
     bindr (mod_lookup_interface_name M (ll_system_information s) uiid) (\<lambda>interface_name.
     case config (config_name interface_name interface_implementation) of (amux, preCallAmux) \<Rightarrow>
     let i = ll_last_componentID s + 1; a = ll_fresh s;
         s1 = s \<lparr>ll_last_componentID := i, ll_fresh := Suc a, ll_registeredComponents := AList.update uiid a (ll_registeredComponents s)\<rparr>
     in bindr (if instance_name \<noteq> [] then on_mapper (mod_create_instance_mapping M (ll_association_mapper s1) instance_name) s1
               else Inr (0, s1)) (\<lambda>(instance_associate, s2).
        Inr (a, s2 \<lparr>ll_components := (ll_components s2)(a \<mapsto>
          \<lparr>sc_cid = ComponentID (ll_pid s2) i, sc_uid = uiid, sc_instance_associate = instance_associate,
           sc_amux = (case amux of None \<Rightarrow> ll_amux s2 | Some x \<Rightarrow> x), sc_preCallAmux = preCallAmux\<rparr>)\<rparr>))))))"

definition siox_component_set_attribute ::
  "('o, 'i, 'm) modules \<Rightarrow> nat option \<Rightarrow> u64 \<Rightarrow> buffer option \<Rightarrow> ('o, 'i, 'm) siox \<Rightarrow> ('o, 'i, 'm, unit) call" where
  "siox_component_set_attribute M component attribute value s =
     bindr (ensure (attribute \<noteq> 0) ''attribute != nullptr'') (\<lambda>_.
     bindr (require_value value) (\<lambda>bs.
     bindr (ensure (component \<noteq> None) ''component != nullptr'') (\<lambda>_.
     bindr (handle_value attribute bs) (\<lambda>(oa, val).
     bindr (component_at component s) (\<lambda>c.
     on_mapper (mod_set_component_attribute M (ll_association_mapper s) (sc_cid c) oa val) s)))))"

definition siox_component_register_activity ::
  "('o, 'i, 'm) modules \<Rightarrow> UniqueInterfaceID \<Rightarrow> string \<Rightarrow> ('o, 'i, 'm) siox \<Rightarrow> ('o, 'i, 'm, UniqueComponentActivityID) call" where
  "siox_component_register_activity M uiid activity_name s =
     bindr (ensure (uiid \<noteq> 0) ''uiid != SIOX_INVALID_ID'') (\<lambda>_.
     on_si (mod_register_activityID M (ll_system_information s) uiid activity_name) s)"

definition siox_component_unregister :: "nat option \<Rightarrow> ('o, 'i, 'm) siox \<Rightarrow> ('o, 'i, 'm, unit) call" where
  "siox_component_unregister component s =
     bindr (component_at component s) (\<lambda>c.
     if map_of (ll_registeredComponents s) (sc_uid c) = None then Inr ((), s)
     else Inr ((), s \<lparr>ll_registeredComponents := AList.delete (sc_uid c) (ll_registeredComponents s),
                      ll_components := (ll_components s)(the component := None)\<rparr>))"

section \<open>Activities\<close>

definition new_activity_handle :: "nat \<Rightarrow> nat \<Rightarrow> ('o, 'i, 'm) siox \<Rightarrow> nat \<times> ('o, 'i, 'm) siox" where
  "new_activity_handle p c s =
     (ll_fresh s, s \<lparr>ll_fresh := Suc (ll_fresh s), ll_activities := (ll_activities s)(ll_fresh s \<mapsto> \<lparr>sa_activity = p, sa_component = c\<rparr>)\<rparr>)"

definition siox_activity_begin ::
  "nat \<Rightarrow> Timestamp \<Rightarrow> nat option \<Rightarrow> UniqueComponentActivityID \<Rightarrow> ('o, 'i, 'm) siox \<Rightarrow> ('o, 'i, 'm, nat) call" where
  "siox_activity_begin thread junk component activity s =
     bindr (ensure (component \<noteq> None) ''component != nullptr'') (\<lambda>_.
     bindr (ensure (activity \<noteq> 0) ''activity != nullptr'') (\<lambda>_.
     bindr (component_at component s) (\<lambda>c.
     bindr (with_builder thread (\<lambda>b w. beginActivity b (sc_cid c) activity junk w) s) (\<lambda>(p, s1).
     Inr (new_activity_handle p (the component) s1)))))"

definition siox_activity_start :: "nat \<Rightarrow> Timestamp \<Rightarrow> nat option \<Rightarrow> ('o, 'i, 'm) siox \<Rightarrow> ('o, 'i, 'm, Timestamp) call" where
  "siox_activity_start thread now activity s =
     bindr (ensure (activity \<noteq> None) ''activity != nullptr'') (\<lambda>_.
     bindr (activity_at activity s) (\<lambda>h.
     bindr (with_builder thread (\<lambda>b w. no_result (startActivity (Some (sa_activity h)) now w)) s) (\<lambda>(_, s1).
     if ll_monitoringDisabled s1 = MONITORING_ENABLED then
       bindr (component_at (Some (sa_component h)) s1) (\<lambda>c.
       case sc_preCallAmux c of
         None \<Rightarrow> Inr (now, s1)
       | Some m \<Rightarrow> bindr (log_activity m (sa_activity h) s1) (\<lambda>s2. Inr (now, s2)))
     else Inr (now, s1))))"

definition siox_activity_stop :: "nat \<Rightarrow> Timestamp \<Rightarrow> nat option \<Rightarrow> ('o, 'i, 'm) siox \<Rightarrow> ('o, 'i, 'm, Timestamp) call" where
  "siox_activity_stop thread now activity s =
     bindr (ensure (activity \<noteq> None) ''activity != nullptr'') (\<lambda>_.
     bindr (activity_at activity s) (\<lambda>h.
     bindr (with_builder thread (\<lambda>b w. no_result (stopActivity (Some (sa_activity h)) now w)) s) (\<lambda>(_, s1). Inr (now, s1))))"

definition siox_activity_set_attribute ::
  "nat \<Rightarrow> nat option \<Rightarrow> u64 \<Rightarrow> buffer option \<Rightarrow> ('o, 'i, 'm) siox \<Rightarrow> ('o, 'i, 'm, unit) call" where
  "siox_activity_set_attribute thread activity attribute value s =
     bindr (ensure (activity \<noteq> None) ''activity != nullptr'') (\<lambda>_.
     bindr (ensure (attribute \<noteq> 0) ''attribute != nullptr'') (\<lambda>_.
     case value of
       None \<Rightarrow> Inr ((), s)
     | Some bs \<Rightarrow>
         bindr (handle_value attribute bs) (\<lambda>(oa, val).
         bindr (activity_at activity s) (\<lambda>h.
         with_builder thread (\<lambda>b w. no_result (setActivityAttribute (Some (sa_activity h)) (Attribute (oa_aID oa) val) w)) s))))"

definition siox_activity_report_error :: "nat \<Rightarrow> nat option \<Rightarrow> ActivityError \<Rightarrow> ('o, 'i, 'm) siox \<Rightarrow> ('o, 'i, 'm, unit) call" where
  "siox_activity_report_error thread activity error s =
     bindr (ensure (activity \<noteq> None) ''activity != nullptr'') (\<lambda>_.
     bindr (activity_at activity s) (\<lambda>h.
     with_builder thread (\<lambda>b w. no_result (reportActivityError (Some (sa_activity h)) error w)) s))"

definition siox_activity_end_keep :: "nat \<Rightarrow> nat option \<Rightarrow> ('o, 'i, 'm) siox \<Rightarrow> ('o, 'i, 'm, unit) call" where
  "siox_activity_end_keep thread activity s =
     bindr (ensure (activity \<noteq> None) ''activity != nullptr'') (\<lambda>_.
     bindr (activity_at activity s) (\<lambda>h.
     bindr (with_builder thread (\<lambda>b w. no_result (endActivity b (Some (sa_activity h)) w)) s) (\<lambda>(_, s1).
     if ll_monitoringDisabled s1 = MONITORING_ENABLED then
       bindr (component_at (Some (sa_component h)) s1) (\<lambda>c.
       bindr (log_activity (sc_amux c) (sa_activity h) s1) (\<lambda>s2. Inr ((), s2)))
     else Inr ((), s1))))"

definition siox_activity_kept_delete :: "nat option \<Rightarrow> ('o, 'i, 'm) siox \<Rightarrow> ('o, 'i, 'm, unit) call" where
  "siox_activity_kept_delete activity s =
     bindr (ensure (activity \<noteq> None) ''activity != nullptr'') (\<lambda>_.
     bindr (activity_at activity s) (\<lambda>h. Inr ((), s \<lparr>ll_activities := (ll_activities s)(the activity := None)\<rparr>)))"

definition siox_activity_end :: "nat \<Rightarrow> nat option \<Rightarrow> ('o, 'i, 'm) siox \<Rightarrow> ('o, 'i, 'm, unit) call" where
  "siox_activity_end thread activity s =
     bindr (siox_activity_end_keep thread activity s) (\<lambda>(_, s1). siox_activity_kept_delete activity s1)"

definition siox_activity_get_ID :: "nat option \<Rightarrow> ('o, 'i, 'm) siox \<Rightarrow> ActivityID result" where
  "siox_activity_get_ID activity s =
     bindr (ensure (activity \<noteq> None) ''activity != nullptr'') (\<lambda>_.
     bindr (activity_at activity s) (\<lambda>h.
     bindr (lift (act_at (Some (sa_activity h)) (ll_world s))) (\<lambda>a. Inr (a_aid a))))"

definition siox_activity_link_to_parent :: "nat \<Rightarrow> nat option \<Rightarrow> ActivityID option \<Rightarrow> ('o, 'i, 'm) siox \<Rightarrow> ('o, 'i, 'm, unit) call" where
  "siox_activity_link_to_parent thread activity_child aid s =
     (case aid of
        None \<Rightarrow> Inr ((), s)
      | Some parent \<Rightarrow>
          bindr (ensure (activity_child \<noteq> None) ''activity_child != nullptr'') (\<lambda>_.
          bindr (activity_at activity_child s) (\<lambda>h.
          with_builder thread (\<lambda>b w. no_result (linkActivities (Some (sa_activity h)) parent w)) s)))"

section \<open>Remote calls\<close>

definition siox_remote_call_setup ::
  "nat \<Rightarrow> nat option \<Rightarrow> NodeID \<Rightarrow> UniqueInterfaceID \<Rightarrow> AssociateID \<Rightarrow> ('o, 'i, 'm) siox \<Rightarrow> ('o, 'i, 'm, nat) call" where
  "siox_remote_call_setup thread activity target_node target_unique_interface target_associate s =
     bindr (ensure (activity \<noteq> None) ''activity != nullptr'') (\<lambda>_.
     bindr (activity_at activity s) (\<lambda>h.
     with_builder thread (\<lambda>b w. setupRemoteCall (Some (sa_activity h))
       (RemoteCallIdentifier target_node target_unique_interface target_associate) w) s))"

definition siox_remote_call_set_attribute ::
  "nat \<Rightarrow> nat option \<Rightarrow> u64 \<Rightarrow> buffer option \<Rightarrow> ('o, 'i, 'm) siox \<Rightarrow> ('o, 'i, 'm, unit) call" where
  "siox_remote_call_set_attribute thread remote_call attribute value s =
     bindr (ensure (remote_call \<noteq> None) ''remote_call != nullptr'') (\<lambda>_.
     bindr (ensure (attribute \<noteq> 0) ''attribute != nullptr'') (\<lambda>_.
     bindr (require_value value) (\<lambda>bs.
     bindr (handle_value attribute bs) (\<lambda>(oa, val).
     with_builder thread (\<lambda>b w. no_result (setRemoteCallAttribute remote_call (Attribute (oa_aID oa) val) w)) s))))"

definition siox_remote_call_start :: "nat \<Rightarrow> nat option \<Rightarrow> ('o, 'i, 'm) siox \<Rightarrow> ('o, 'i, 'm, nat option) call" where
  "siox_remote_call_start thread remote_call s =
     bindr (ensure (remote_call \<noteq> None) ''remote_call != nullptr'') (\<lambda>_.
     with_builder thread (\<lambda>b w. startRemoteCall remote_call w) s)"

definition siox_activity_start_from_remote_call ::
  "nat \<Rightarrow> Timestamp \<Rightarrow> nat option \<Rightarrow> UniqueComponentActivityID \<Rightarrow> NodeID \<Rightarrow> UniqueInterfaceID \<Rightarrow> AssociateID
   \<Rightarrow> ('o, 'i, 'm) siox \<Rightarrow> ('o, 'i, 'm, nat) call" where
  "siox_activity_start_from_remote_call thread junk component activity caller_node caller_unique_interface caller_associate s =
     bindr (ensure (component \<noteq> None) ''component != nullptr'') (\<lambda>_.
     bindr (ensure (activity \<noteq> 0) ''activity != nullptr'') (\<lambda>_.
     bindr (component_at component s) (\<lambda>c.
     bindr (with_builder thread (\<lambda>b w. beginActivity_remote b (sc_cid c) activity
       (RemoteCallIdentifier caller_node caller_unique_interface caller_associate) junk w) s) (\<lambda>(p, s1).
     Inr (new_activity_handle p (the component) s1)))))"

section \<open>Ontology and system information\<close>

text \<open>A call whose \<open>IllegalStateError\<close> is caught and turned into \<open>dflt\<close>; the changes made before it stay.\<close>

definition catch_illegal :: "'b \<Rightarrow> 'a result \<Rightarrow> ('a \<Rightarrow> 'b) \<Rightarrow> 'b result" where
  "catch_illegal dflt r f =
     (case r of Inr x \<Rightarrow> Inr (f x) | Inl (IllegalStateError m) \<Rightarrow> Inr dflt | Inl e \<Rightarrow> Inl e)"

definition siox_ontology_register_attribute ::
  "('o, 'i, 'm) modules \<Rightarrow> string \<Rightarrow> string \<Rightarrow> Type \<Rightarrow> ('o, 'i, 'm) siox \<Rightarrow> ('o, 'i, 'm, u64) call" where
  "siox_ontology_register_attribute M domain name storage_type s =
     (case mod_register_attribute M (ll_ontology s) domain name storage_type of (r, o1) \<Rightarrow>
        bindr (catch_illegal 0 r convertOntologyAttributeToPtr) (\<lambda>ptr. Inr (ptr, s \<lparr>ll_ontology := o1\<rparr>)))"

definition siox_ontology_set_meta_attribute ::
  "('o, 'i, 'm) modules \<Rightarrow> u64 \<Rightarrow> u64 \<Rightarrow> buffer option \<Rightarrow> ('o, 'i, 'm) siox \<Rightarrow> ('o, 'i, 'm, bool) call" where
  "siox_ontology_set_meta_attribute M parent_attribute meta_attribute value s =
     bindr (ensure (parent_attribute \<noteq> 0) ''parent_attribute != nullptr'') (\<lambda>_.
     bindr (ensure (meta_attribute \<noteq> 0) ''meta_attribute != nullptr'') (\<lambda>_.
     bindr (require_value value) (\<lambda>bs.
     bindr (convertPtrToOntologyAttribute meta_attribute) (\<lambda>oa_meta.
     bindr (convertPtrToOntologyAttribute parent_attribute) (\<lambda>oa_parent.
     bindr (convert_attribute oa_meta bs) (\<lambda>val.
     case mod_set_meta_attribute M (ll_ontology s) oa_parent oa_meta val of (r, o1) \<Rightarrow>
       bindr (catch_illegal False r (\<lambda>_. True)) (\<lambda>b. Inr (b, s \<lparr>ll_ontology := o1\<rparr>))))))))"

definition siox_ontology_register_attribute_with_unit ::
  "('o, 'i, 'm) modules \<Rightarrow> string \<Rightarrow> string \<Rightarrow> string \<Rightarrow> Type \<Rightarrow> ('o, 'i, 'm) siox \<Rightarrow> ('o, 'i, 'm, u64) call" where
  "siox_ontology_register_attribute_with_unit M domain name unit storage_type s =
     (case mod_register_attribute M (ll_ontology s) ''Meta'' ''Unit'' STRING of
        (Inl (IllegalStateError _), o1) \<Rightarrow> Inr (0, s \<lparr>ll_ontology := o1\<rparr>)
      | (Inl e, o1) \<Rightarrow> Inl e
      | (Inr meta, o1) \<Rightarrow>
          (case mod_register_attribute M o1 domain name storage_type of
             (Inl (IllegalStateError _), o2) \<Rightarrow> Inr (0, s \<lparr>ll_ontology := o2\<rparr>)
           | (Inl e, o2) \<Rightarrow> Inl e
           | (Inr attribute, o2) \<Rightarrow>
               (case mod_set_meta_attribute M o2 attribute meta (vd_of_string unit) of (r, o3) \<Rightarrow>
                  bindr (catch_illegal 0 r (\<lambda>_. convertOntologyAttributeToPtr attribute))
                    (\<lambda>ptr. Inr (ptr, s \<lparr>ll_ontology := o3\<rparr>)))))"

definition siox_ontology_lookup_attribute_by_name ::
  "('o, 'i, 'm) modules \<Rightarrow> string \<Rightarrow> string \<Rightarrow> ('o, 'i, 'm) siox \<Rightarrow> u64 result" where
  "siox_ontology_lookup_attribute_by_name M domain name s =
     (case mod_lookup_attribute_by_name M (ll_ontology s) domain name of
        Inr oa \<Rightarrow> Inr (convertOntologyAttributeToPtr oa)
      | Inl (NotFoundError _) \<Rightarrow> Inr 0
      | Inl e \<Rightarrow> Inl e)"

definition siox_system_information_lookup_interface_id ::
  "('o, 'i, 'm) modules \<Rightarrow> string \<Rightarrow> string \<Rightarrow> ('o, 'i, 'm) siox \<Rightarrow> ('o, 'i, 'm, UniqueInterfaceID) call" where
  "siox_system_information_lookup_interface_id M interface_name implementation_identifier s =
     (case mod_register_interfaceID M (ll_system_information s) interface_name implementation_identifier of (r, si) \<Rightarrow>
        bindr (catch_illegal 0 r id) (\<lambda>uid. Inr (uid, s \<lparr>ll_system_information := si\<rparr>)))"

section \<open>Suggestions of the optimizer\<close>

text \<open>The value, or \<open>None\<close> when there is no optimizer or no suggestion.\<close>

definition suggestion :: "OntologyValue result \<Rightarrow> OntologyValue option result" where
  "suggestion r = (case r of Inr v \<Rightarrow> Inr (Some v) | Inl (NotFoundError _) \<Rightarrow> Inr None | Inl e \<Rightarrow> Inl e)"

definition suggested_out :: "OntologyValue option \<Rightarrow> out_value option result" where
  "suggested_out v = (case v of None \<Rightarrow> Inr None | Some x \<Rightarrow> bindr (convert_attribute_back x) (\<lambda>out. Inr (Some out)))"

text \<open>\<open>strncpy\<close>: at most \<open>n\<close> characters, the rest filled with NUL.\<close>

definition strncpy :: "string \<Rightarrow> nat \<Rightarrow> string" where
  "strncpy x n = take n (c_str x) @ replicate (n - length (c_str x)) (CHR 0x00)"

definition siox_suggest_optimal_value ::
  "('o, 'i, 'm) modules \<Rightarrow> u64 \<Rightarrow> out_value option result" where
  "siox_suggest_optimal_value M attribute =
     (case mod_optimalParameter M of
        None \<Rightarrow> Inr None
      | Some opt \<Rightarrow>
          bindr (convertPtrToOntologyAttribute attribute) (\<lambda>oa.
          bindr (suggestion (opt (oa_aID oa))) suggested_out))"

definition siox_suggest_optimal_value_str ::
  "('o, 'i, 'm) modules \<Rightarrow> u64 \<Rightarrow> nat \<Rightarrow> string option result" where
  "siox_suggest_optimal_value_str M attribute maxLength =
     (case mod_optimalParameter M of
        None \<Rightarrow> Inr None
      | Some opt \<Rightarrow>
          bindr (convertPtrToOntologyAttribute attribute) (\<lambda>oa.
          bindr (suggestion (opt (oa_aID oa))) (\<lambda>v.
          case v of None \<Rightarrow> Inr None | Some x \<Rightarrow> bindr (lift (vd_toStr x)) (\<lambda>str. Inr (Some (strncpy str maxLength))))))"

definition activity_behind :: "nat option \<Rightarrow> ('o, 'i, 'm) siox \<Rightarrow> Activity result" where
  "activity_behind activity s =
     bindr (activity_at activity s) (\<lambda>h. lift (act_at (Some (sa_activity h)) (ll_world s)))"

definition siox_suggest_optimal_value_for ::
  "('o, 'i, 'm) modules \<Rightarrow> u64 \<Rightarrow> nat option \<Rightarrow> ('o, 'i, 'm) siox \<Rightarrow> out_value option result" where
  "siox_suggest_optimal_value_for M attribute activity s =
     (case mod_optimalParameter M of
        None \<Rightarrow> Inr None
      | Some opt \<Rightarrow>
          bindr (convertPtrToOntologyAttribute attribute) (\<lambda>oa.
          bindr (activity_behind activity s) (\<lambda>a.
          bindr (suggestion (mod_optimalParameterFor M (oa_aID oa) a)) suggested_out)))"

definition siox_suggest_optimal_value_for_str ::
  "('o, 'i, 'm) modules \<Rightarrow> u64 \<Rightarrow> nat option \<Rightarrow> nat \<Rightarrow> ('o, 'i, 'm) siox \<Rightarrow> string option result" where
  "siox_suggest_optimal_value_for_str M attribute activity maxLength s =
     (case mod_optimalParameter M of
        None \<Rightarrow> Inr None
      | Some opt \<Rightarrow>
          bindr (convertPtrToOntologyAttribute attribute) (\<lambda>oa.
          bindr (activity_behind activity s) (\<lambda>a.
          bindr (suggestion (mod_optimalParameterFor M (oa_aID oa) a)) (\<lambda>v.
          case v of None \<Rightarrow> Inr None | Some x \<Rightarrow> bindr (lift (vd_toStr x)) (\<lambda>str. Inr (Some (strncpy str maxLength)))))))"

text \<open>\<open>Some\<close> is \<open>SIOX_SUCCESS\<close>, \<open>None\<close> \<open>SIOX_ERR_ATTRIBUTE_NOT_FOUND\<close>.\<close>

definition attribute_out :: "OntologyAttributeID \<Rightarrow> Activity \<Rightarrow> out_value option result" where
  "attribute_out aid a = suggested_out (find_attribute_in aid (a_attributeArray a))"

definition siox_activity_get_attribute :: "nat option \<Rightarrow> u64 \<Rightarrow> ('o, 'i, 'm) siox \<Rightarrow> out_value option result" where
  "siox_activity_get_attribute activity attributeSearched s =
     bindr (convertPtrToOntologyAttribute attributeSearched) (\<lambda>oa.
     bindr (activity_behind activity s) (attribute_out (oa_aID oa)))"

definition siox_activity_get_attributeE ::
  "('o, 'i, 'm) modules \<Rightarrow> nat option \<Rightarrow> string \<Rightarrow> string \<Rightarrow> ('o, 'i, 'm) siox \<Rightarrow> out_value option result" where
  "siox_activity_get_attributeE M activity domain name s =
     (case mod_lookup_attribute_by_name M (ll_ontology s) domain name of
        Inl (NotFoundError _) \<Rightarrow> Inr None
      | Inl e \<Rightarrow> Inl e
      | Inr oa \<Rightarrow> bindr (activity_behind activity s) (attribute_out (oa_aID oa)))"

end
