(* ===== verification/File_System_Information.thy ===== *)
theory File_System_Information
  imports System_Information
begin

text \<open>
  The file based implementation,
  \<open>monitoring/system_information/modules/filebased-system-information/FileBasedSystemInformation.cpp\<close>: maps in both
  directions and one counter for the numbers of all kinds. A registration looks into the map
  before it takes the mutex; the two halves are separate definitions, so that threads can be
  interleaved between them. A file holds the ten serialized members; of a damaged one the
  members before the damage are read.
\<close>

record FileBasedSystemInformation =
  si_nextID :: u32
  si_loadedNextID :: u32
  si_valueStringMap :: "u32 \<rightharpoonup> string"
  si_deviceNodeMap :: "DeviceID \<rightharpoonup> NodeID"
  si_interfaceImplStrMap :: "u32 \<rightharpoonup> string \<times> string"
  si_interfaceImplMap :: "string \<times> string \<rightharpoonup> u32"
  si_deviceMap :: "NodeID \<times> string \<rightharpoonup> u32"
  si_filesystemMap :: "string \<rightharpoonup> FilesystemID"
  si_nodeMap :: "string \<rightharpoonup> NodeID"
  si_activityInterfaceIDMap :: "UniqueComponentActivityID \<rightharpoonup> UniqueInterfaceID"
  si_activityMap :: "u32 \<times> string \<rightharpoonup> u32"

definition FileBasedSystemInformation_new :: FileBasedSystemInformation where
  "FileBasedSystemInformation_new =
     \<lparr>si_nextID = 1, si_loadedNextID = 1, si_valueStringMap = Map.empty, si_deviceNodeMap = Map.empty,
      si_interfaceImplStrMap = Map.empty, si_interfaceImplMap = Map.empty, si_deviceMap = Map.empty,
      si_filesystemMap = Map.empty, si_nodeMap = Map.empty, si_activityInterfaceIDMap = Map.empty, si_activityMap = Map.empty\<rparr>"

section \<open>Loading and saving\<close>

text \<open>\<open>SysFile a n\<close>: the first \<open>n\<close> of the ten members of \<open>a\<close> can be read.\<close>

datatype system_file = NoSysFile | SysFile FileBasedSystemInformation nat

definition si_load :: "system_file \<Rightarrow> FileBasedSystemInformation \<Rightarrow> FileBasedSystemInformation" where
  "si_load file si =
     (case file of
        NoSysFile \<Rightarrow> si
      | SysFile a n \<Rightarrow>
          let si1 = \<lparr>
            si_nextID = if 0 < n then si_nextID a else si_nextID si,
            si_loadedNextID = si_loadedNextID si,
            si_valueStringMap = if 1 < n then si_valueStringMap a else si_valueStringMap si,
            si_deviceNodeMap = if 2 < n then si_deviceNodeMap a else si_deviceNodeMap si,
            si_interfaceImplStrMap = if 3 < n then si_interfaceImplStrMap a else si_interfaceImplStrMap si,
            si_interfaceImplMap = if 4 < n then si_interfaceImplMap a else si_interfaceImplMap si,
            si_deviceMap = if 5 < n then si_deviceMap a else si_deviceMap si,
            si_filesystemMap = if 6 < n then si_filesystemMap a else si_filesystemMap si,
            si_nodeMap = if 7 < n then si_nodeMap a else si_nodeMap si,
            si_activityInterfaceIDMap = if 8 < n then si_activityInterfaceIDMap a else si_activityInterfaceIDMap si,
            si_activityMap = if 9 < n then si_activityMap a else si_activityMap si\<rparr>
          in if 9 < n then si1 \<lparr>si_loadedNextID := si_nextID si1\<rparr> else si1 \<lparr>si_nextID := 1\<rparr>)"

definition si_save :: "FileBasedSystemInformation \<Rightarrow> system_file \<Rightarrow> system_file" where
  "si_save si file = (if si_loadedNextID si = si_nextID si then file else SysFile si 10)"

text \<open>\<open>init\<close>: the file of the installation first, that of the options if it has no activities.\<close>

definition si_init :: "system_file \<Rightarrow> system_file \<Rightarrow> FileBasedSystemInformation \<Rightarrow> FileBasedSystemInformation" where
  "si_init etc_file option_file si =
     (let si1 = si_load etc_file si
      in if si_activityMap si1 = Map.empty then si_load option_file si1 else si1)"

section \<open>Registration\<close>

text \<open>\<open>operator[]\<close> of \<open>std::map\<close> enters a zero for a key that is missing.\<close>

definition map_index :: "('k \<rightharpoonup> u32) \<Rightarrow> 'k \<Rightarrow> u32 \<times> ('k \<rightharpoonup> u32)" where
  "map_index m k = (case m k of Some v \<Rightarrow> (v, m) | None \<Rightarrow> (0, m(k \<mapsto> 0)))"

definition next_id :: "FileBasedSystemInformation \<Rightarrow> u32 \<times> FileBasedSystemInformation" where
  "next_id si = (si_nextID si, si \<lparr>si_nextID := si_nextID si + 1\<rparr>)"

definition check_nodeID :: "string \<Rightarrow> FileBasedSystemInformation \<Rightarrow> u32 \<times> FileBasedSystemInformation" where
  "check_nodeID hostname si = (case map_index (si_nodeMap si) hostname of (i, m) \<Rightarrow> (i, si \<lparr>si_nodeMap := m\<rparr>))"

definition insert_nodeID :: "string \<Rightarrow> FileBasedSystemInformation \<Rightarrow> u32 \<times> FileBasedSystemInformation" where
  "insert_nodeID hostname si =
     (case next_id si of (i, si1) \<Rightarrow>
        (i, si1 \<lparr>si_valueStringMap := (si_valueStringMap si1)(i \<mapsto> hostname), si_nodeMap := (si_nodeMap si1)(hostname \<mapsto> i)\<rparr>))"

definition si_register_nodeID :: "string \<Rightarrow> FileBasedSystemInformation \<Rightarrow> u32 \<times> FileBasedSystemInformation" where
  "si_register_nodeID hostname si =
     (case check_nodeID hostname si of (i, si1) \<Rightarrow> if i \<noteq> 0 then (i, si1) else insert_nodeID hostname si1)"

definition si_register_deviceID :: "NodeID \<Rightarrow> string \<Rightarrow> FileBasedSystemInformation \<Rightarrow> u32 \<times> FileBasedSystemInformation" where
  "si_register_deviceID nid local_unique_identifier si =
     (case map_index (si_deviceMap si) (nid, local_unique_identifier) of (i, m) \<Rightarrow>
        let si1 = si \<lparr>si_deviceMap := m\<rparr>
        in if i \<noteq> 0 then (i, si1)
           else case next_id si1 of (j, si2) \<Rightarrow>
             (j, si2 \<lparr>si_deviceMap := (si_deviceMap si2)((nid, local_unique_identifier) \<mapsto> j),
                      si_valueStringMap := (si_valueStringMap si2)(j \<mapsto> local_unique_identifier),
                      si_deviceNodeMap := (si_deviceNodeMap si2)(j \<mapsto> nid)\<rparr>))"

definition si_register_filesystemID :: "string \<Rightarrow> FileBasedSystemInformation \<Rightarrow> u32 \<times> FileBasedSystemInformation" where
  "si_register_filesystemID global_unique_identifier si =
     (case map_index (si_filesystemMap si) global_unique_identifier of (i, m) \<Rightarrow>
        let si1 = si \<lparr>si_filesystemMap := m\<rparr>
        in if i \<noteq> 0 then (i, si1)
           else case next_id si1 of (j, si2) \<Rightarrow>
             (j, si2 \<lparr>si_filesystemMap := (si_filesystemMap si2)(global_unique_identifier \<mapsto> j),
                      si_valueStringMap := (si_valueStringMap si2)(j \<mapsto> global_unique_identifier)\<rparr>))"

definition si_register_activityID :: "UniqueInterfaceID \<Rightarrow> string \<Rightarrow> FileBasedSystemInformation \<Rightarrow> u32 \<times> FileBasedSystemInformation" where
  "si_register_activityID uid name si =
     (case map_index (si_activityMap si) (uid, name) of (i, m) \<Rightarrow>
        let si1 = si \<lparr>si_activityMap := m\<rparr>
        in if i \<noteq> 0 then (i, si1)
           else case next_id si1 of (j, si2) \<Rightarrow>
             (j, si2 \<lparr>si_activityMap := (si_activityMap si2)((uid, name) \<mapsto> j),
                      si_activityInterfaceIDMap := (si_activityInterfaceIDMap si2)(j \<mapsto> uid),
                      si_valueStringMap := (si_valueStringMap si2)(j \<mapsto> name)\<rparr>))"

definition si_register_interfaceID :: "string \<Rightarrow> string \<Rightarrow> FileBasedSystemInformation \<Rightarrow> u32 \<times> FileBasedSystemInformation" where
  "si_register_interfaceID iface implementation si =
     (case map_index (si_interfaceImplMap si) (iface, implementation) of (i, m) \<Rightarrow>
        let si1 = si \<lparr>si_interfaceImplMap := m\<rparr>
        in if i \<noteq> 0 then (i, si1)
           else case next_id si1 of (j, si2) \<Rightarrow>
             (j, si2 \<lparr>si_interfaceImplMap := (si_interfaceImplMap si2)((iface, implementation) \<mapsto> j),
                      si_interfaceImplStrMap := (si_interfaceImplStrMap si2)(j \<mapsto> (iface, implementation))\<rparr>))"

section \<open>Lookup\<close>

text \<open>The macro \<open>CHECK\<close>.\<close>

definition check_map :: "('k \<rightharpoonup> 'v) \<Rightarrow> 'k \<Rightarrow> 'v result" where
  "check_map m k = (case m k of Some v \<Rightarrow> Inr v | None \<Rightarrow> Inl not_found)"

definition si_lookup_nodeID :: "FileBasedSystemInformation \<Rightarrow> string \<Rightarrow> NodeID result" where
  "si_lookup_nodeID si hostname = check_map (si_nodeMap si) hostname"

definition si_lookup_node_hostname :: "FileBasedSystemInformation \<Rightarrow> NodeID \<Rightarrow> string result" where
  "si_lookup_node_hostname si i = check_map (si_valueStringMap si) i"

definition si_lookup_deviceID :: "FileBasedSystemInformation \<Rightarrow> NodeID \<Rightarrow> string \<Rightarrow> DeviceID result" where
  "si_lookup_deviceID si nid local_unique_identifier = check_map (si_deviceMap si) (nid, local_unique_identifier)"

definition si_lookup_filesystemID :: "FileBasedSystemInformation \<Rightarrow> string \<Rightarrow> FilesystemID result" where
  "si_lookup_filesystemID si global_unique_identifier = check_map (si_filesystemMap si) global_unique_identifier"

definition si_lookup_activityID :: "FileBasedSystemInformation \<Rightarrow> UniqueInterfaceID \<Rightarrow> string \<Rightarrow> UniqueComponentActivityID result" where
  "si_lookup_activityID si uid name = check_map (si_activityMap si) (uid, name)"

definition si_lookup_interface_of_activity :: "FileBasedSystemInformation \<Rightarrow> UniqueComponentActivityID \<Rightarrow> UniqueInterfaceID result" where
  "si_lookup_interface_of_activity si i = check_map (si_activityInterfaceIDMap si) i"

definition si_lookup_node_of_device :: "FileBasedSystemInformation \<Rightarrow> DeviceID \<Rightarrow> NodeID result" where
  "si_lookup_node_of_device si i = check_map (si_deviceNodeMap si) i"

definition si_lookup_device_local_name :: "FileBasedSystemInformation \<Rightarrow> DeviceID \<Rightarrow> string result" where
  "si_lookup_device_local_name si i = check_map (si_valueStringMap si) i"

definition si_lookup_filesystem_name :: "FileBasedSystemInformation \<Rightarrow> FilesystemID \<Rightarrow> string result" where
  "si_lookup_filesystem_name si i = check_map (si_valueStringMap si) i"

definition si_lookup_activity_name :: "FileBasedSystemInformation \<Rightarrow> UniqueComponentActivityID \<Rightarrow> string result" where
  "si_lookup_activity_name si i = check_map (si_valueStringMap si) i"

definition si_lookup_interfaceID :: "FileBasedSystemInformation \<Rightarrow> string \<Rightarrow> string \<Rightarrow> UniqueInterfaceID result" where
  "si_lookup_interfaceID si iface implementation = check_map (si_interfaceImplMap si) (iface, implementation)"

definition si_lookup_interface_name :: "FileBasedSystemInformation \<Rightarrow> UniqueInterfaceID \<Rightarrow> string result" where
  "si_lookup_interface_name si i = bindr (check_map (si_interfaceImplStrMap si) i) (\<lambda>p. Inr (fst p))"

definition si_lookup_interface_implementation :: "FileBasedSystemInformation \<Rightarrow> UniqueInterfaceID \<Rightarrow> string result" where
  "si_lookup_interface_implementation si i = bindr (check_map (si_interfaceImplStrMap si) i) (\<lambda>p. Inr (snd p))"

section \<open>All kinds together\<close>

definition si_register :: "FileBasedSystemInformation \<Rightarrow> si_key \<Rightarrow> u32 result \<times> FileBasedSystemInformation" where
  "si_register si k =
     apfst Inr (case k of
        HostKey h \<Rightarrow> si_register_nodeID h si
      | DeviceKey n l \<Rightarrow> si_register_deviceID n l si
      | FilesystemKey g \<Rightarrow> si_register_filesystemID g si
      | InterfaceKey a b \<Rightarrow> si_register_interfaceID a b si
      | ActivityKey u n \<Rightarrow> si_register_activityID u n si)"

definition si_look :: "FileBasedSystemInformation \<Rightarrow> si_key \<Rightarrow> u32 result" where
  "si_look si k =
     (case k of
        HostKey h \<Rightarrow> si_lookup_nodeID si h
      | DeviceKey n l \<Rightarrow> si_lookup_deviceID si n l
      | FilesystemKey g \<Rightarrow> si_lookup_filesystemID si g
      | InterfaceKey a b \<Rightarrow> si_lookup_interfaceID si a b
      | ActivityKey u n \<Rightarrow> si_lookup_activityID si u n)"

definition si_describes :: "FileBasedSystemInformation \<Rightarrow> u32 \<Rightarrow> si_key \<Rightarrow> bool" where
  "si_describes si i k =
     (case k of
        HostKey h \<Rightarrow> si_lookup_node_hostname si i = Inr h
      | DeviceKey n l \<Rightarrow> si_lookup_device_local_name si i = Inr l \<and> si_lookup_node_of_device si i = Inr n
      | FilesystemKey g \<Rightarrow> si_lookup_filesystem_name si i = Inr g
      | InterfaceKey a b \<Rightarrow> si_lookup_interface_name si i = Inr a \<and> si_lookup_interface_implementation si i = Inr b
      | ActivityKey u n \<Rightarrow> si_lookup_activity_name si i = Inr n \<and> si_lookup_interface_of_activity si i = Inr u)"

lemmas si_lookup_defs = si_lookup_nodeID_def si_lookup_node_hostname_def si_lookup_deviceID_def si_lookup_filesystemID_def
  si_lookup_activityID_def si_lookup_interface_of_activity_def si_lookup_node_of_device_def si_lookup_device_local_name_def
  si_lookup_filesystem_name_def si_lookup_activity_name_def si_lookup_interfaceID_def si_lookup_interface_name_def
  si_lookup_interface_implementation_def

text \<open>The entry of a name, whatever map it is in, and the entries that lead back.\<close>

fun si_entry :: "FileBasedSystemInformation \<Rightarrow> si_key \<Rightarrow> u32 option" where
  "si_entry si (HostKey h) = si_nodeMap si h"
| "si_entry si (DeviceKey n l) = si_deviceMap si (n, l)"
| "si_entry si (FilesystemKey g) = si_filesystemMap si g"
| "si_entry si (InterfaceKey a b) = si_interfaceImplMap si (a, b)"
| "si_entry si (ActivityKey u n) = si_activityMap si (u, n)"

fun si_back :: "FileBasedSystemInformation \<Rightarrow> u32 \<Rightarrow> si_key \<Rightarrow> bool" where
  "si_back si i (HostKey h) \<longleftrightarrow> si_valueStringMap si i = Some h"
| "si_back si i (DeviceKey n l) \<longleftrightarrow> si_valueStringMap si i = Some l \<and> si_deviceNodeMap si i = Some n"
| "si_back si i (FilesystemKey g) \<longleftrightarrow> si_valueStringMap si i = Some g"
| "si_back si i (InterfaceKey a b) \<longleftrightarrow> si_interfaceImplStrMap si i = Some (a, b)"
| "si_back si i (ActivityKey u n) \<longleftrightarrow> si_valueStringMap si i = Some n \<and> si_activityInterfaceIDMap si i = Some u"

lemma check_map_Inr [simp]: "check_map m k = Inr v \<longleftrightarrow> m k = Some v"
  by (simp add: check_map_def split: option.splits)

lemma si_look_entry: "si_look si k = Inr i \<longleftrightarrow> si_entry si k = Some i"
  by (cases k) (simp_all add: si_look_def si_lookup_defs)

lemma si_describes_back: "si_describes si i k \<longleftrightarrow> si_back si i k"
  by (cases k) (auto simp: si_describes_def si_lookup_defs bindr_Inr_iff)

definition si_inv :: "FileBasedSystemInformation \<Rightarrow> bool" where
  "si_inv si \<longleftrightarrow> si_nextID si \<noteq> 0 \<and>
     (\<forall>k i. si_entry si k = Some i \<longrightarrow> i \<noteq> 0 \<and> i < si_nextID si \<and> si_back si i k) \<and>
     (\<forall>k k' i. si_entry si k = Some i \<longrightarrow> si_entry si k' = Some i \<longrightarrow> k = k')"

definition si_free :: "FileBasedSystemInformation \<Rightarrow> nat" where
  "si_free si = 2 ^ 32 - 1 - unat (si_nextID si)"

text \<open>What a registration does: an entry is returned, and a name without one is si_entered under the next id.\<close>

definition si_entered :: "si_key \<Rightarrow> FileBasedSystemInformation \<Rightarrow> FileBasedSystemInformation \<Rightarrow> bool" where
  "si_entered k si si' \<longleftrightarrow> si_nextID si' = si_nextID si + 1 \<and> si_entry si' = (si_entry si)(k \<mapsto> si_nextID si) \<and>
     si_back si' (si_nextID si) k \<and> (\<forall>j k'. j \<noteq> si_nextID si \<longrightarrow> si_back si' j k' = si_back si j k')"

lemmas si_register_defs = si_register_def si_register_nodeID_def check_nodeID_def insert_nodeID_def si_register_deviceID_def
  si_register_filesystemID_def si_register_interfaceID_def si_register_activityID_def map_index_def next_id_def

lemma si_register_known:
  assumes "si_entry si k = Some i" and "i \<noteq> 0"
  shows "si_register si k = (Inr i, si)"
  using assms by (cases k) (simp_all add: si_register_defs)

lemma all_si_key:
  "(\<forall>k. P k) \<longleftrightarrow> (\<forall>h. P (HostKey h)) \<and> (\<forall>n l. P (DeviceKey n l)) \<and> (\<forall>g. P (FilesystemKey g)) \<and>
     (\<forall>a b. P (InterfaceKey a b)) \<and> (\<forall>u n. P (ActivityKey u n))"
  by (metis si_key.exhaust)

lemma si_register_unknown:
  assumes "si_entry si k = None"
  shows "\<exists>si'. si_register si k = (Inr (si_nextID si), si') \<and> si_entered k si si'"
  using assms by (cases k) (simp_all add: si_register_defs si_entered_def all_si_key fun_eq_iff Let_def)

lemma si_inv_new [simp]: "si_inv FileBasedSystemInformation_new"
proof -
  have "si_entry FileBasedSystemInformation_new k = None" for k
    by (cases k) (simp_all add: FileBasedSystemInformation_new_def)
  then show ?thesis by (simp add: si_inv_def) (simp add: FileBasedSystemInformation_new_def)
qed

lemma si_entered_inv:
  assumes "si_inv si" and "1 \<le> si_free si" and "si_entered k si si'"
  shows "si_inv si'" and "Suc (si_free si') = si_free si"
proof -
  have less: "unat (si_nextID si) + 1 < 2 ^ 32" using assms(2) by (simp add: si_free_def)
  then have n: "unat (si_nextID si + 1) = unat (si_nextID si) + 1" by (simp add: unat_word_ariths(1))
  show "Suc (si_free si') = si_free si" using assms(3) less n by (simp add: si_entered_def si_free_def)
  have "i \<noteq> 0 \<and> i < si_nextID si' \<and> si_back si' i k'" if "si_entry si' k' = Some i" for k' i
  proof (cases "k' = k")
    case True
    then show ?thesis using that assms n by (auto simp: si_entered_def si_inv_def word_less_nat_alt)
  next
    case False
    then have old: "i \<noteq> 0" "i < si_nextID si" "si_back si i k'" using that assms by (auto simp: si_entered_def si_inv_def)
    moreover have "i \<noteq> si_nextID si" using old(2) by auto
    ultimately show ?thesis using assms(3) n by (auto simp: si_entered_def word_less_nat_alt)
  qed
  moreover have "si_nextID si' \<noteq> 0" using assms(3) n by (auto simp: si_entered_def unat_eq_0 [symmetric] simp del: unat_eq_0)
  moreover have "l = l'" if "si_entry si' l = Some i" "si_entry si' l' = Some i" for l l' i
  proof -
    have "si_entry si l \<noteq> Some (si_nextID si)" for l using assms(1) by (auto simp: si_inv_def)
    then show ?thesis using that assms(1,3) by (auto simp: si_entered_def si_inv_def split: if_splits)
  qed
  ultimately show "si_inv si'" by (auto simp: si_inv_def)
qed

interpretation file_si: system_information si_register si_look si_describes si_inv si_free 1 "\<lambda>_ _. True"
proof
  fix s k
  assume inv: "si_inv s" and free: "1 \<le> si_free s"
  show "\<exists>i s'. si_register s k = (Inr i, s') \<and> si_inv s' \<and> si_free s \<le> si_free s' + 1 \<and> si_look s' k = Inr i \<and>
      (\<forall>k' j. si_look s k' = Inr j \<longrightarrow> si_look s' k' = Inr j) \<and> (\<forall>k'. True \<longrightarrow> True)"
  proof (cases "si_entry s k")
    case None
    from si_register_unknown [OF this] obtain s' where r: "si_register s k = (Inr (si_nextID s), s')" and e: "si_entered k s s'" by blast
    show ?thesis using r e si_entered_inv [OF inv free e] None
      by (intro exI [of _ "si_nextID s"] exI [of _ s']) (auto simp: si_look_entry si_entered_def)
  next
    case (Some i)
    then have "i \<noteq> 0" using inv by (auto simp: si_inv_def)
    then show ?thesis using si_register_known [OF Some] inv Some by (simp add: si_look_entry)
  qed
next
  fix s k i
  assume "si_inv s" "si_look s k = Inr i"
  then show "i \<noteq> 0 \<and> si_describes s i k" by (auto simp: si_look_entry si_describes_back si_inv_def)
next
  fix s i k k'
  assume "si_describes s i k" "si_describes s i k'" "same_kind k k'"
  then show "k = k'" unfolding si_describes_back by (cases k; cases k') simp_all
qed

section \<open>Properties\<close>

text \<open>
  C15 (functional): every name gets its own number. Register any sequence of hosts, devices, file
  systems, interfaces and activities: all registrations succeed, every name is found under the
  number it got, the number leads back to the parts of the name, and two registrations, of whatever
  kinds, got the same number only if they were for the same name. The ids suffice for \<open>2 ^ 32 - 2\<close>
  registrations.
\<close>

theorem si_register_sequence:
  assumes "length ks \<le> 2 ^ 32 - 2"
  shows "\<exists>is si. register_all si_register FileBasedSystemInformation_new ks = (map Inr is, si) \<and> length is = length ks \<and>
    (\<forall>j < length ks. si_look si (ks ! j) = Inr (is ! j) \<and> si_describes si (is ! j) (ks ! j) \<and>
       (\<forall>l < length ks. is ! j = is ! l \<longleftrightarrow> ks ! j = ks ! l))"
proof -
  have "length ks * 1 \<le> si_free FileBasedSystemInformation_new"
    using assms by (simp add: si_free_def FileBasedSystemInformation_new_def)
  then obtain "is" si where r: "register_all si_register FileBasedSystemInformation_new ks = (map Inr is, si)" "si_inv si"
    "map (si_look si) ks = map Inr is" using file_si.register_all_spec [OF si_inv_new] by blast
  have len: "length is = length ks" using arg_cong [OF r(3), of length] by simp
  have look: "si_look si (ks ! j) = Inr (is ! j)" if "j < length ks" for j
    using that arg_cong [OF r(3), of "\<lambda>xs. xs ! j"] len by simp
  have "is ! j = is ! l \<longleftrightarrow> ks ! j = ks ! l" if "j < length ks" "l < length ks" for j l
    using look [OF that(1)] look [OF that(2)] r(2) by (auto simp: si_look_entry si_inv_def)
  then show ?thesis using r(1) len look file_si.look_spec [OF r(2)] by (intro exI [of _ "is"] exI [of _ si]) simp
qed

theorem si_register_sequence_witness:
  "\<exists>is si. register_all si_register FileBasedSystemInformation_new [HostKey ''a'', DeviceKey 1 ''sda'', HostKey ''a''] = (map Inr is, si) \<and>
     is ! 0 = is ! 2 \<and> is ! 0 \<noteq> is ! 1"
proof -
  let ?ks = "[HostKey ''a'', DeviceKey 1 ''sda'', HostKey ''a'']"
  obtain "is" si where r: "register_all si_register FileBasedSystemInformation_new ?ks = (map Inr is, si)"
    and a: "\<forall>j < length ?ks. \<forall>l < length ?ks. is ! j = is ! l \<longleftrightarrow> ?ks ! j = ?ks ! l"
    using si_register_sequence [of ?ks] by auto
  show ?thesis using r a [rule_format, of 0 2] a [rule_format, of 0 1] by (intro exI [of _ "is"] exI [of _ si]) simp
qed

text \<open>
  Saving and loading. When something was registered since the last load, the file that the
  destructor writes, loaded by another object, gives it the same tables and the same next id; when nothing was,
  the file is left as it is.
\<close>

theorem si_save_load:
  "si_load (si_save si file) g =
     (if si_loadedNextID si = si_nextID si then si_load file g else si \<lparr>si_loadedNextID := si_nextID si\<rparr>)"
  by (simp add: si_load_def si_save_def Let_def)

text \<open>
  Two threads can give one host two numbers. The test for the name is made before the mutex is
  taken and not repeated under it: when two threads register a new host and both test before either inserts, they
  return different numbers. The table then keeps the second one; both lead back to the host.
\<close>

theorem si_register_race:
  assumes "si_lookup_nodeID si h = Inl e" and "check_nodeID h si = (c1, si1)" and "check_nodeID h si1 = (c2, si2)"
    and "insert_nodeID h si2 = (i1, si3)" and "insert_nodeID h si3 = (i2, si4)"
  shows "c1 = 0 \<and> c2 = 0 \<and> i1 \<noteq> i2 \<and> si_lookup_nodeID si4 h = Inr i2 \<and>
    si_lookup_node_hostname si4 i1 = Inr h \<and> si_lookup_node_hostname si4 i2 = Inr h"
proof -
  have "si_nodeMap si h = None" using assms(1) by (auto simp: si_lookup_defs check_map_def split: option.splits)
  then show ?thesis using assms(2-5)
    by (auto simp: check_nodeID_def insert_nodeID_def map_index_def next_id_def si_lookup_defs)
qed

theorem si_register_race_witness:
  "\<exists>si1 si2 si3 si4 i1 i2. check_nodeID ''a'' FileBasedSystemInformation_new = (0, si1) \<and> check_nodeID ''a'' si1 = (0, si2) \<and>
     insert_nodeID ''a'' si2 = (i1, si3) \<and> insert_nodeID ''a'' si3 = (i2, si4) \<and> i1 \<noteq> i2"
proof -
  obtain c1 si1 c2 si2 i1 si3 i2 si4 where s: "check_nodeID ''a'' FileBasedSystemInformation_new = (c1, si1)"
    "check_nodeID ''a'' si1 = (c2, si2)" "insert_nodeID ''a'' si2 = (i1, si3)" "insert_nodeID ''a'' si3 = (i2, si4)"
    by (metis surj_pair)
  have "si_lookup_nodeID FileBasedSystemInformation_new ''a'' = Inl not_found"
    by (simp add: si_lookup_defs check_map_def FileBasedSystemInformation_new_def)
  from si_register_race [OF this s] show ?thesis using s by blast
qed

text \<open>
  A damaged file leads to numbers that are used twice. When the file breaks off in its last
  table, the tables before it stay loaded but the counter restarts at 1; with host \<open>a\<close> loaded as number 1, the next
  new host gets number 1 as well, which then leads back to the wrong host.
\<close>

theorem si_damaged_file_reuses_ids:
  assumes "si_nodeMap a h = Some 1" and "si_nodeMap a h' = None" and "si_load (SysFile a 9) si = si1"
    and "si_register_nodeID h' si1 = (i, si2)"
  shows "i = 1 \<and> si_lookup_nodeID si2 h = Inr 1 \<and> si_lookup_nodeID si2 h' = Inr 1 \<and> si_lookup_node_hostname si2 1 = Inr h'"
proof -
  have "h \<noteq> h'" using assms(1,2) by auto
  moreover have "si_nodeMap si1 = si_nodeMap a" "si_nextID si1 = 1" using assms(3) by (auto simp: si_load_def Let_def)
  ultimately show ?thesis using assms(1,2,4)
    by (auto simp: si_register_nodeID_def check_nodeID_def insert_nodeID_def map_index_def next_id_def si_lookup_defs)
qed

theorem si_damaged_file_reuses_ids_witness:
  "\<exists>i a si. si_register_nodeID ''a'' FileBasedSystemInformation_new = (i, a) \<and>
     si_register_nodeID ''b'' (si_load (SysFile a 9) FileBasedSystemInformation_new) = (1, si) \<and>
     si_lookup_nodeID si ''a'' = Inr 1 \<and> si_lookup_nodeID si ''b'' = Inr 1"
proof -
  obtain i a where r: "si_register_nodeID ''a'' FileBasedSystemInformation_new = (i, a)" by fastforce
  then have "si_nodeMap a ''a'' = Some 1" "si_nodeMap a ''b'' = None"
    by (auto simp: si_register_nodeID_def check_nodeID_def insert_nodeID_def map_index_def next_id_def FileBasedSystemInformation_new_def)
  moreover obtain j si where "si_register_nodeID ''b'' (si_load (SysFile a 9) FileBasedSystemInformation_new) = (j, si)" by fastforce
  ultimately show ?thesis using si_damaged_file_reuses_ids [of a "''a''" "''b''" FileBasedSystemInformation_new _ j si] r by blast
qed

end
