(* ===== verification/Low_Level_Properties.thy ===== *)
theory Low_Level_Properties
  imports Low_Level_Interface File_System_Information File_Ontology Association_Mapper
begin

text \<open>
  The properties of the C interface: the trace that nested calls of instrumented functions leave
  at the multiplexers, the handles of attributes and values, the numbers of components, and the
  states of monitoring. The interface is put together with the file based modules, whose contracts
  are used for what attributes and interfaces are found later.
\<close>

section \<open>Nested calls\<close>

text \<open>
  A call of an instrumented function: the type of its activity, the attributes it sets with the
  bytes behind the pointers, the clock at its start and end, and the instrumented functions that it calls
  in between.
\<close>

datatype traced_call =
  TracedCall (tc_ucaid: UniqueComponentActivityID) (tc_attributes: "(u64 \<times> buffer) list")
    (tc_start: Timestamp) (tc_stop: Timestamp) (tc_children: "traced_call list")

fun set_attributes :: "nat \<Rightarrow> nat \<Rightarrow> (u64 \<times> buffer) list \<Rightarrow> ('o, 'i, 'm) siox \<Rightarrow> ('o, 'i, 'm) siox result" where
  "set_attributes thread h [] s = Inr s"
| "set_attributes thread h ((att, bs) # as) s =
     bindr (siox_activity_set_attribute thread (Some h) att (Some bs) s) (\<lambda>(_, s1). set_attributes thread h as s1)"

fun run_call :: "nat \<Rightarrow> Timestamp \<Rightarrow> nat \<Rightarrow> traced_call \<Rightarrow> ('o, 'i, 'm) siox \<Rightarrow> ('o, 'i, 'm) siox result"
  and run_calls :: "nat \<Rightarrow> Timestamp \<Rightarrow> nat \<Rightarrow> traced_call list \<Rightarrow> ('o, 'i, 'm) siox \<Rightarrow> ('o, 'i, 'm) siox result" where
  "run_call thread junk c (TracedCall u as t0 t1 ks) s =
     bindr (siox_activity_begin thread junk (Some c) u s) (\<lambda>(h, s1).
     bindr (set_attributes thread h as s1) (\<lambda>s2.
     bindr (siox_activity_start thread t0 (Some h) s2) (\<lambda>(_, s3).
     bindr (run_calls thread junk c ks s3) (\<lambda>s4.
     bindr (siox_activity_stop thread t1 (Some h) s4) (\<lambda>(_, s5).
     bindr (siox_activity_end thread (Some h) s5) (\<lambda>(_, s6). Inr s6))))))"
| "run_calls thread junk c [] s = Inr s"
| "run_calls thread junk c (k # ks) s = bindr (run_call thread junk c k s) (run_calls thread junk c ks)"

text \<open>
  The expected trace. Activities are numbered in the order in which they begin, an activity's parent is the one
  that encloses it; a component with a multiplexer for starting calls reports the activity there
  first, then come the reports of the functions called, and the completed activity is reported last.
\<close>

definition decode_attribute :: "u64 \<times> buffer \<Rightarrow> Attribute" where
  "decode_attribute ab = (case handle_value (fst ab) (snd ab) of Inr (oa, v) \<Rightarrow> Attribute (oa_aID oa) v | Inl e \<Rightarrow> Attribute 0 VInvalid)"

definition traced_activity ::
  "traced_call \<Rightarrow> ActivityID \<Rightarrow> ActivityID list \<Rightarrow> Timestamp \<Rightarrow> Activity" where
  "traced_activity k aid parents stop =
     \<lparr>a_ucaid = tc_ucaid k, a_time_start = tc_start k, a_time_stop = stop, a_aid = aid, a_parentArray = parents,
      a_remoteCallsArray = [], a_attributeArray = map decode_attribute (tc_attributes k), a_remoteInvoker = None, a_errorValue = 0\<rparr>"

fun call_size :: "traced_call \<Rightarrow> nat" where
  "call_size (TracedCall u as t0 t1 ks) = Suc (sum_list (map call_size ks))"

fun call_trace :: "siox_component \<Rightarrow> u32 \<Rightarrow> ActivityID list \<Rightarrow> u32 \<Rightarrow> traced_call \<Rightarrow> (nat \<times> Activity) list"
  and calls_trace :: "siox_component \<Rightarrow> u32 \<Rightarrow> ActivityID list \<Rightarrow> u32 \<Rightarrow> traced_call list \<Rightarrow> (nat \<times> Activity) list" where
  "call_trace sc t parents n (TracedCall u as t0 t1 ks) =
     (let k = TracedCall u as t0 t1 ks; aid = ActivityID (sc_cid sc) n t
      in (case sc_preCallAmux sc of None \<Rightarrow> [] | Some m \<Rightarrow> [(m, traced_activity k aid parents 0)]) @
         calls_trace sc t [aid] (n + 1) ks @
         [(sc_amux sc, traced_activity k aid parents t1)])"
| "calls_trace sc t parents n [] = []"
| "calls_trace sc t parents n (k # ks) = call_trace sc t parents n k @ calls_trace sc t parents (n + of_nat (call_size k)) ks"

text \<open>What the interface insists on: a type that is not zero, a clock that is not zero, handles and values that fit.\<close>

fun call_ok :: "traced_call \<Rightarrow> bool" where
  "call_ok (TracedCall u as t0 t1 ks) \<longleftrightarrow>
     u \<noteq> 0 \<and> 0 < t1 \<and> list_all (\<lambda>ab. \<exists>x. handle_value (fst ab) (snd ab) = Inr x) as \<and> list_all call_ok ks"

section \<open>One call of the interface\<close>

lemma component_at_simps [simp]: "ll_components s p = Some c \<Longrightarrow> component_at (Some p) s = Inr c"
  by (simp add: component_at_def)

lemma activity_at_simps [simp]: "ll_activities s p = Some h \<Longrightarrow> activity_at (Some p) s = Inr h"
  by (simp add: activity_at_def)

lemma with_builder_known:
  "w_instances (ll_world s) thread = Some b \<Longrightarrow>
     with_builder thread f s = bindr (lift (f b (ll_world s))) (\<lambda>(x, w'). Inr (x, s \<lparr>ll_world := w'\<rparr>))"
  by (simp add: with_builder_def getThreadInstance_def)

text \<open>A thread with its builder, a component, and an activity that was begun in it.\<close>

definition ready :: "nat \<Rightarrow> nat \<Rightarrow> nat \<Rightarrow> siox_component \<Rightarrow> ('o, 'i, 'm) siox \<Rightarrow> bool" where
  "ready thread b c sc s \<longleftrightarrow> w_instances (ll_world s) thread = Some b \<and> b < length (w_builders (ll_world s)) \<and>
     ll_components s c = Some sc \<and> ll_monitoringDisabled s = MONITORING_ENABLED \<and>
     (\<forall>p \<in> set (ab_stack (w_builders (ll_world s) ! b)). p < w_fresh (ll_world s) \<and> w_acts (ll_world s) p \<noteq> None)"

abbreviation builder_of :: "nat \<Rightarrow> ('o, 'i, 'm) siox \<Rightarrow> ActivityBuilder" where
  "builder_of b s \<equiv> w_builders (ll_world s) ! b"

text \<open>The ids of the parents an activity gets that begins now.\<close>

definition enclosing :: "nat \<Rightarrow> ('o, 'i, 'm) siox \<Rightarrow> ActivityID list" where
  "enclosing b s = (if ab_stack (builder_of b s) = [] then [] else [a_aid (the (w_acts (ll_world s) (last (ab_stack (builder_of b s)))))])"

lemma begin_step:
  assumes "ready thread b c sc s" and "u \<noteq> 0"
    and "w = begin_world b (begun_activity u junk (ActivityID (sc_cid sc) (ab_next (builder_of b s)) (ab_thread (builder_of b s))) (enclosing b s)) (ll_world s)"
  shows "siox_activity_begin thread junk (Some c) u s =
    Inr (ll_fresh s, s \<lparr>ll_world := w, ll_fresh := Suc (ll_fresh s),
      ll_activities := (ll_activities s)(ll_fresh s \<mapsto> \<lparr>sa_activity = w_fresh (ll_world s), sa_component = c\<rparr>)\<rparr>)"
proof -
  have "w_acts (ll_world s) (last (ab_stack (builder_of b s))) \<noteq> None" if "ab_stack (builder_of b s) \<noteq> []"
    using assms(1) that by (auto simp: ready_def)
  then have "stack_parents (builder_of b s) (ll_world s) = Inr (enclosing b s)"
    by (auto simp: stack_parents_def enclosing_def)
  then have "beginActivity b (sc_cid sc) u junk (ll_world s) = Inr (w_fresh (ll_world s), w)"
    using assms by (auto simp: beginActivity_Inr ready_def)
  then show ?thesis using assms(1,2)
    by (simp add: siox_activity_begin_def ready_def with_builder_known new_activity_handle_def)
qed

text \<open>The steps on an activity that was begun.\<close>

lemma set_attributes_step:
  assumes "w_instances (ll_world s) thread = Some b" and "ll_activities s h = Some \<lparr>sa_activity = p, sa_component = c\<rparr>"
    and "w_acts (ll_world s) p = Some a" and "list_all (\<lambda>ab. \<exists>x. handle_value (fst ab) (snd ab) = Inr x) as"
  shows "set_attributes thread h as s = Inr (s \<lparr>ll_world := put_act (Some p)
      (a \<lparr>a_attributeArray := a_attributeArray a @ map decode_attribute as\<rparr>) (ll_world s)\<rparr>)"
  using assms
proof (induction "as" arbitrary: s a)
  case Nil
  then show ?case by (simp add: put_act_def map_upd_triv)
next
  case (Cons ab "as")
  obtain att bs oa v where ab: "ab = (att, bs)" and hv: "handle_value att bs = Inr (oa, v)"
    using Cons.prems(4) by (cases ab) auto
  have att: "att \<noteq> 0"
  proof
    assume "att = 0"
    then show False using hv by (simp add: handle_value_def)
  qed
  let ?a = "a \<lparr>a_attributeArray := a_attributeArray a @ [Attribute (oa_aID oa) v]\<rparr>"
  let ?s = "s \<lparr>ll_world := put_act (Some p) ?a (ll_world s)\<rparr>"
  have "siox_activity_set_attribute thread (Some h) att (Some bs) s = Inr ((), ?s)"
    using Cons.prems(1-3) hv att
    by (simp add: siox_activity_set_attribute_def with_builder_known setActivityAttribute_def no_result_def)
  moreover have "set_attributes thread h as ?s = Inr (?s \<lparr>ll_world := put_act (Some p)
      (?a \<lparr>a_attributeArray := a_attributeArray ?a @ map decode_attribute as\<rparr>) (ll_world ?s)\<rparr>)"
    by (rule Cons.IH) (use Cons.prems in \<open>simp_all add: put_act_def\<close>)
  moreover have "decode_attribute (att, bs) = Attribute (oa_aID oa) v" by (simp add: decode_attribute_def hv)
  ultimately show ?case by (simp add: ab put_act_def)
qed

lemma start_step:
  assumes "w_instances (ll_world s) thread = Some b" and "ll_activities s h = Some \<lparr>sa_activity = p, sa_component = c\<rparr>"
    and "w_acts (ll_world s) p = Some a" and "ll_components s c = Some sc" and "ll_monitoringDisabled s = MONITORING_ENABLED"
  shows "siox_activity_start thread t (Some h) s = Inr (t, s \<lparr>ll_world := put_act (Some p) (a \<lparr>a_time_start := t\<rparr>) (ll_world s),
    ll_logged := ll_logged s @ (case sc_preCallAmux sc of None \<Rightarrow> [] | Some m \<Rightarrow> [(m, a \<lparr>a_time_start := t\<rparr>)])\<rparr>)"
  using assms
  by (simp add: siox_activity_start_def with_builder_known startActivity_def no_result_def component_at_def log_activity_def
      put_act_def split: option.splits)

lemma stop_step:
  assumes "w_instances (ll_world s) thread = Some b" and "ll_activities s h = Some \<lparr>sa_activity = p, sa_component = c\<rparr>"
    and "w_acts (ll_world s) p = Some a"
  shows "siox_activity_stop thread t (Some h) s = Inr (t, s \<lparr>ll_world := put_act (Some p) (a \<lparr>a_time_stop := t\<rparr>) (ll_world s)\<rparr>)"
  using assms by (simp add: siox_activity_stop_def with_builder_known stopActivity_def no_result_def)

lemma end_step:
  assumes "w_instances (ll_world s) thread = Some b" and "ll_activities s h = Some \<lparr>sa_activity = p, sa_component = c\<rparr>"
    and "w_acts (ll_world s) p = Some a" and "ll_components s c = Some sc" and "ll_monitoringDisabled s = MONITORING_ENABLED"
    and "0 < a_time_stop a" and "b < length (w_builders (ll_world s))" and "ab_stack (builder_of b s) = st @ [p]"
  shows "siox_activity_end thread (Some h) s = Inr ((), s
    \<lparr>ll_world := (ll_world s) \<lparr>w_builders := (w_builders (ll_world s))[b := (builder_of b s) \<lparr>ab_stack := st\<rparr>]\<rparr>,
     ll_logged := ll_logged s @ [(sc_amux sc, a)], ll_activities := (ll_activities s)(h := None)\<rparr>)"
proof -
  let ?w = "(ll_world s) \<lparr>w_builders := (w_builders (ll_world s))[b := (builder_of b s) \<lparr>ab_stack := st\<rparr>]\<rparr>"
  have "endActivity b (Some p) (ll_world s) = Inr ?w" using assms by (simp add: endActivity_Inr)
  then show ?thesis using assms(1-5)
    by (simp add: siox_activity_end_def siox_activity_end_keep_def siox_activity_kept_delete_def with_builder_known no_result_def
        log_activity_def component_at_def activity_at_def)
qed

section \<open>Whole calls\<close>

text \<open>What a thread that has returned from a call leaves as it was.\<close>

definition returned :: "nat \<Rightarrow> ('o, 'i, 'm) siox \<Rightarrow> ('o, 'i, 'm) siox \<Rightarrow> bool" where
  "returned b s s' \<longleftrightarrow>
     ll_components s' = ll_components s \<and> ll_monitoringDisabled s' = ll_monitoringDisabled s \<and>
     w_instances (ll_world s') = w_instances (ll_world s) \<and> length (w_builders (ll_world s')) = length (w_builders (ll_world s)) \<and>
     (\<forall>b'. b' \<noteq> b \<longrightarrow> builder_of b' s' = builder_of b' s) \<and>
     ab_stack (builder_of b s') = ab_stack (builder_of b s) \<and> ab_thread (builder_of b s') = ab_thread (builder_of b s) \<and>
     w_fresh (ll_world s) \<le> w_fresh (ll_world s') \<and> ll_fresh s \<le> ll_fresh s' \<and>
     (\<forall>q < w_fresh (ll_world s). w_acts (ll_world s') q = w_acts (ll_world s) q) \<and>
     (\<forall>h < ll_fresh s. ll_activities s' h = ll_activities s h)"

lemma returned_refl: "returned b s s"
  by (simp add: returned_def)

lemma returned_trans: "returned b s s1 \<Longrightarrow> returned b s1 s2 \<Longrightarrow> returned b s s2"
  by (auto simp: returned_def)

lemma returned_ready:
  assumes "ready thread b c sc s" and "returned b s s'"
  shows "ready thread b c sc s'"
  using assms by (fastforce simp: ready_def returned_def)

lemma returned_enclosing:
  assumes "ready thread b c sc s" and "returned b s s'"
  shows "enclosing b s' = enclosing b s"
  using assms by (auto simp: enclosing_def ready_def returned_def)

definition call_done :: "nat \<Rightarrow> (nat \<times> Activity) list \<Rightarrow> nat \<Rightarrow> ('o, 'i, 'm) siox \<Rightarrow> ('o, 'i, 'm) siox \<Rightarrow> bool" where
  "call_done b events n s s' \<longleftrightarrow> returned b s s' \<and> ll_logged s' = ll_logged s @ events \<and>
     ab_next (builder_of b s') = ab_next (builder_of b s) + of_nat n"

lemma run_calls_trace:
  fixes s :: "('o, 'i, 'm) siox"
  assumes step: "\<And>k (s :: ('o, 'i, 'm) siox). k \<in> set ks \<Longrightarrow> ready thread b c sc s \<Longrightarrow> \<exists>s'. run_call thread junk c k s = Inr s' \<and>
      call_done b (call_trace sc (ab_thread (builder_of b s)) (enclosing b s) (ab_next (builder_of b s)) k) (call_size k) s s'"
    and "ready thread b c sc s"
  shows "\<exists>s'. run_calls thread junk c ks s = Inr s' \<and>
      call_done b (calls_trace sc (ab_thread (builder_of b s)) (enclosing b s) (ab_next (builder_of b s)) ks)
        (sum_list (map call_size ks)) s s'"
  using assms
proof (induction ks arbitrary: s)
  case Nil
  then show ?case by (simp add: call_done_def returned_refl)
next
  case (Cons k ks)
  obtain s1 where s1: "run_call thread junk c k s = Inr s1"
    "call_done b (call_trace sc (ab_thread (builder_of b s)) (enclosing b s) (ab_next (builder_of b s)) k) (call_size k) s s1"
    using Cons.prems(1) [of k s] Cons.prems(2) by auto
  have ret: "returned b s s1" using s1(2) by (simp add: call_done_def)
  obtain s2 where s2: "run_calls thread junk c ks s1 = Inr s2"
    "call_done b (calls_trace sc (ab_thread (builder_of b s1)) (enclosing b s1) (ab_next (builder_of b s1)) ks)
        (sum_list (map call_size ks)) s1 s2"
    using Cons.IH [OF Cons.prems(1) returned_ready [OF Cons.prems(2) ret]] by auto
  have "ab_thread (builder_of b s1) = ab_thread (builder_of b s)" "enclosing b s1 = enclosing b s"
    using ret returned_enclosing [OF Cons.prems(2) ret] by (simp_all add: returned_def)
  then show ?case using s1 s2 returned_trans [OF ret]
    by (intro exI [of _ s2]) (simp add: call_done_def add.assoc)
qed

text \<open>The state in which an activity is open: begun by this thread, on top of its stack.\<close>

definition opened :: "nat \<Rightarrow> nat \<Rightarrow> nat \<Rightarrow> Activity \<Rightarrow> ('o, 'i, 'm) siox \<Rightarrow> ('o, 'i, 'm) siox \<Rightarrow> bool" where
  "opened b c h a s s1 \<longleftrightarrow>
     ll_components s1 = ll_components s \<and> ll_monitoringDisabled s1 = ll_monitoringDisabled s \<and>
     w_instances (ll_world s1) = w_instances (ll_world s) \<and> length (w_builders (ll_world s1)) = length (w_builders (ll_world s)) \<and>
     (\<forall>b'. b' \<noteq> b \<longrightarrow> builder_of b' s1 = builder_of b' s) \<and> ab_thread (builder_of b s1) = ab_thread (builder_of b s) \<and>
     ab_stack (builder_of b s1) = ab_stack (builder_of b s) @ [w_fresh (ll_world s)] \<and>
     w_fresh (ll_world s) < w_fresh (ll_world s1) \<and> h = ll_fresh s \<and> h < ll_fresh s1 \<and>
     w_acts (ll_world s1) (w_fresh (ll_world s)) = Some a \<and>
     ll_activities s1 h = Some \<lparr>sa_activity = w_fresh (ll_world s), sa_component = c\<rparr> \<and>
     (\<forall>q < w_fresh (ll_world s). w_acts (ll_world s1) q = w_acts (ll_world s) q) \<and>
     (\<forall>i < ll_fresh s. ll_activities s1 i = ll_activities s i)"

lemma opened_ready:
  assumes "ready thread b c sc s" and "opened b c h a s s1"
  shows "ready thread b c sc s1" and "enclosing b s1 = [a_aid a]"
  using assms by (fastforce simp: ready_def opened_def less_Suc_eq, simp add: enclosing_def opened_def)

lemma opened_put:
  "opened b c h a s s1 \<Longrightarrow> opened b c h a' s (s1 \<lparr>ll_world := put_act (Some (w_fresh (ll_world s))) a' (ll_world s1)\<rparr>)"
  by (auto simp: opened_def put_act_def)

lemma opened_logged: "opened b c h a s (s1 \<lparr>ll_logged := l\<rparr>) = opened b c h a s s1"
  by (simp add: opened_def)

lemma opened_returned: "opened b c h a s s1 \<Longrightarrow> returned b s1 s2 \<Longrightarrow> opened b c h a s s2"
  by (auto simp: opened_def returned_def)

lemma begin_opens:
  assumes "ready thread b c sc s" and "u \<noteq> 0"
  shows "\<exists>s1. siox_activity_begin thread junk (Some c) u s = Inr (ll_fresh s, s1) \<and>
    opened b c (ll_fresh s) (begun_activity u junk (ActivityID (sc_cid sc) (ab_next (builder_of b s)) (ab_thread (builder_of b s)))
      (enclosing b s)) s s1 \<and>
    ll_logged s1 = ll_logged s \<and> ab_next (builder_of b s1) = ab_next (builder_of b s) + 1"
  using assms by (simp add: begin_step [OF assms refl] opened_def ready_def begin_world_def Let_def nth_list_update)

lemma end_returns:
  assumes "ready thread b c sc s" and "opened b c h a s s1" and "0 < a_time_stop a"
  shows "\<exists>s2. siox_activity_end thread (Some h) s1 = Inr ((), s2) \<and> returned b s s2 \<and>
    ll_logged s2 = ll_logged s1 @ [(sc_amux sc, a)] \<and> ab_next (builder_of b s2) = ab_next (builder_of b s1)"
proof -
  have "siox_activity_end thread (Some h) s1 = Inr ((), s1
    \<lparr>ll_world := (ll_world s1) \<lparr>w_builders := (w_builders (ll_world s1))[b := (builder_of b s1) \<lparr>ab_stack := ab_stack (builder_of b s)\<rparr>]\<rparr>,
     ll_logged := ll_logged s1 @ [(sc_amux sc, a)], ll_activities := (ll_activities s1)(h := None)\<rparr>)"
    by (rule end_step) (use assms in \<open>auto simp: ready_def opened_def\<close>)
  then show ?thesis using assms by (auto simp: returned_def opened_def ready_def nth_list_update)
qed

lemma run_call_trace:
  fixes s :: "('o, 'i, 'm) siox"
  assumes "ready thread b c sc s" and "call_ok k"
  shows "\<exists>s'. run_call thread junk c k s = Inr s' \<and>
    call_done b (call_trace sc (ab_thread (builder_of b s)) (enclosing b s) (ab_next (builder_of b s)) k) (call_size k) s s'"
  using assms
proof (induction k arbitrary: s)
  case (TracedCall u as' t0 t1 ks)
  let ?k = "TracedCall u as' t0 t1 ks" and ?t = "ab_thread (builder_of b s)" and ?n = "ab_next (builder_of b s)"
  let ?aid = "ActivityID (sc_cid sc) ?n ?t" and ?p = "w_fresh (ll_world s)" and ?h = "ll_fresh s"
  let ?a0 = "begun_activity u junk ?aid (enclosing b s)"
  let ?a1 = "?a0 \<lparr>a_attributeArray := a_attributeArray ?a0 @ map decode_attribute as'\<rparr>"
  let ?a2 = "?a1 \<lparr>a_time_start := t0\<rparr>" and ?a3 = "?a1 \<lparr>a_time_start := t0, a_time_stop := t1\<rparr>"
  have ok: "u \<noteq> 0" "0 < t1" "list_all (\<lambda>ab. \<exists>x. handle_value (fst ab) (snd ab) = Inr x) as'" "\<And>k. k \<in> set ks \<Longrightarrow> call_ok k"
    using TracedCall.prems(2) by (auto simp: list_all_iff)
  obtain s1 where s1: "siox_activity_begin thread junk (Some c) u s = Inr (?h, s1)" "opened b c ?h ?a0 s s1"
    "ll_logged s1 = ll_logged s" "ab_next (builder_of b s1) = ?n + 1"
    using begin_opens [OF TracedCall.prems(1) ok(1), of junk] by auto
  let ?s2 = "s1 \<lparr>ll_world := put_act (Some ?p) ?a1 (ll_world s1)\<rparr>"
  have r1: "w_instances (ll_world s1) thread = Some b" "ll_components s1 c = Some sc" "ll_monitoringDisabled s1 = MONITORING_ENABLED"
    using TracedCall.prems(1) s1(2) by (auto simp: ready_def opened_def)
  have s2: "set_attributes thread ?h as' s1 = Inr ?s2"
    by (rule set_attributes_step) (use r1 s1(2) ok(3) in \<open>auto simp: opened_def\<close>)
  have o2: "opened b c ?h ?a1 s ?s2" by (rule opened_put [OF s1(2)])
  let ?pre = "case sc_preCallAmux sc of None \<Rightarrow> [] | Some m \<Rightarrow> [(m, ?a2)]"
  define s3 where "s3 = ?s2 \<lparr>ll_world := put_act (Some ?p) ?a2 (ll_world ?s2), ll_logged := ll_logged ?s2 @ ?pre\<rparr>"
  have s3: "siox_activity_start thread t0 (Some ?h) ?s2 = Inr (t0, s3)"
    unfolding s3_def by (rule start_step) (use r1 o2 in \<open>auto simp: opened_def put_act_def\<close>)
  have o3: "opened b c ?h ?a2 s s3" using opened_put [OF o2] by (simp add: opened_def s3_def)
  have n3: "ab_next (builder_of b s3) = ?n + 1" "ab_thread (builder_of b s3) = ?t"
    using s1(2,4) by (simp_all add: put_act_def opened_def s3_def)
  obtain s4 where s4: "run_calls thread junk c ks s3 = Inr s4"
    "call_done b (calls_trace sc ?t [?aid] (?n + 1) ks) (sum_list (map call_size ks)) s3 s4"
    using run_calls_trace [of ks thread b c sc junk s3] TracedCall.IH ok(4) opened_ready [OF TracedCall.prems(1) o3] n3
    by (fastforce simp: begun_activity_def)
  have o4: "opened b c ?h ?a2 s s4" using opened_returned [OF o3] s4(2) by (simp add: call_done_def)
  let ?s5 = "s4 \<lparr>ll_world := put_act (Some ?p) ?a3 (ll_world s4)\<rparr>"
  have s5: "siox_activity_stop thread t1 (Some ?h) s4 = Inr (t1, ?s5)"
    using stop_step [of s4 thread b ?h ?p c ?a2 t1] TracedCall.prems(1) o4 by (auto simp: opened_def ready_def)
  obtain s6 where s6: "siox_activity_end thread (Some ?h) ?s5 = Inr ((), s6)" "returned b s s6"
    "ll_logged s6 = ll_logged ?s5 @ [(sc_amux sc, ?a3)]" "ab_next (builder_of b s6) = ab_next (builder_of b ?s5)"
    using end_returns [OF TracedCall.prems(1) opened_put [OF o4, of ?a3]] ok(2) by auto
  have "run_call thread junk c ?k s = Inr s6" by (simp add: s1(1) s2 s3 s4(1) s5 s6(1))
  moreover have "call_done b (call_trace sc ?t (enclosing b s) ?n ?k) (call_size ?k) s s6"
    using s6(2-4) s4(2) s1(3,4)
    by (simp add: call_done_def s3_def put_act_def traced_activity_def begun_activity_def Let_def add.assoc split: option.splits)
  ultimately show ?case by blast
qed

section \<open>Handles and values\<close>

lemma handle_parts:
  "unat (drop_bit 32 (convertOntologyAttributeToPtr oa)) = type_code (oa_storage_type oa)"
  "ucast (convertOntologyAttributeToPtr oa) = oa_aID oa"
proof -
  let ?t = "type_code (oa_storage_type oa)" and ?p = "convertOntologyAttributeToPtr oa"
  have t: "?t < 8" by (cases "oa_storage_type oa") simp_all
  have lt: "unat (oa_aID oa) < 4294967296" by simp
  then have m: "unat (oa_aID oa) + ?t * 4294967296 < 18446744073709551616" using t by linarith
  have "unat (push_bit 32 (of_nat ?t) :: u64) = ?t * 2 ^ 32"
    using t by (simp add: push_bit_eq_mult unat_word_ariths unsigned_of_nat take_bit_eq_mod)
  moreover have "unat (ucast (oa_aID oa) :: u64) = unat (oa_aID oa)"
    using lt by (simp add: unsigned_ucast_eq take_bit_eq_mod)
  ultimately have u: "unat ?p = unat (oa_aID oa) + ?t * 2 ^ 32"
    using m by (simp add: convertOntologyAttributeToPtr_def unat_word_ariths)
  show "unat (drop_bit 32 ?p) = ?t" using t u lt by (simp add: drop_bit_eq_div unat_div)
  show "ucast ?p = oa_aID oa"
    by (rule word_unat_eq_iff [THEN iffD2]) (use u lt in \<open>simp add: unsigned_ucast_eq take_bit_eq_mod\<close>)
qed

lemma handle_roundtrip: "convertPtrToOntologyAttribute (convertOntologyAttributeToPtr oa) = Inr oa"
proof -
  have "type_of_code (type_code t) = Some t" for t by (cases t) (simp_all add: type_of_code_def)
  then show ?thesis by (simp add: convertPtrToOntologyAttribute_def handle_parts)
qed

lemma handle_null: "convertOntologyAttributeToPtr oa = 0 \<longleftrightarrow> oa_aID oa = 0 \<and> oa_storage_type oa = INT64"
proof
  assume "convertOntologyAttributeToPtr oa = 0"
  then show "oa_aID oa = 0 \<and> oa_storage_type oa = INT64"
    using handle_parts [of oa] by (cases "oa_storage_type oa") simp_all
qed (simp add: convertOntologyAttributeToPtr_def)

lemma read_word_enc:
  assumes "8 dvd LENGTH('a)"
  shows "read_word (word_enc (w :: 'a::len word) @ bs) = Inr w"
  using word_roundtrip [OF assms, of w] by (simp add: read_word_def word_enc_def Let_def)

text \<open>The bytes of a value in the memory of the instrumented program: what the pointer points at.\<close>

fun c_bytes :: "VariableDatatype \<Rightarrow> buffer" where
  "c_bytes (VInt32 w) = word_enc w"
| "c_bytes (VUint32 w) = word_enc w"
| "c_bytes (VInt64 w) = word_enc w"
| "c_bytes (VUint64 w) = word_enc w"
| "c_bytes (VFloat w) = word_enc w"
| "c_bytes (VDouble w) = word_enc w"
| "c_bytes (VString x) = map char_byte x @ [0]"
| "c_bytes VInvalid = []"

fun out_bytes :: "out_value \<Rightarrow> buffer" where
  "out_bytes (OutBytes bs) = bs"
| "out_bytes (OutString x) = map char_byte x @ [0]"

lemma convert_attribute_bytes:
  assumes "oa_storage_type oa = vd_type v" and "vd_type v \<noteq> INVALID" and "vd_wf v"
  shows "convert_attribute oa (c_bytes v @ rest) = Inr v"
proof -
  have w32: "read_word (word_enc w @ rest) = Inr w" for w :: u32 by (rule read_word_enc) simp
  have w64: "read_word (word_enc w @ rest) = Inr w" for w :: u64 by (rule read_word_enc) simp
  have [simp]: "byte_char 0 = CHR 0x00" by code_simp
  have "c_str (x @ CHR 0x00 # y) = x" if "no_nul x" for x y
    using that by (induction x) (auto simp: c_str_def no_nul_def)
  then show ?thesis using assms w32 w64 by (cases v) (simp_all add: convert_attribute_def vd_of_string_def)
qed

lemma convert_attribute_back_bytes:
  "vd_type v \<noteq> INVALID \<Longrightarrow> \<exists>out. convert_attribute_back v = Inr out \<and> out_bytes out = c_bytes v"
  by (cases v) (simp_all add: convert_attribute_back_def)

lemma convert_attribute_type:
  "convert_attribute oa bs = Inr v \<Longrightarrow> vd_type v = oa_storage_type oa \<and> vd_wf v \<and> vd_type v \<noteq> INVALID"
  by (auto simp: convert_attribute_def vd_of_string_def bindr_Inr_iff split: Type.splits if_splits)

lemma handle_value_type:
  "handle_value (convertOntologyAttributeToPtr oa) bs = Inr (oa', v) \<Longrightarrow>
     oa' = oa \<and> vd_type v = oa_storage_type oa \<and> vd_wf v \<and> vd_type v \<noteq> INVALID"
  by (auto simp: handle_value_def bindr_Inr_iff handle_roundtrip ensure_def dest!: convert_attribute_type)

lemma thread_instance_acts: "w_acts (snd (getThreadInstance thread w)) = w_acts w"
  by (auto simp: getThreadInstance_def getNewInstance_def Let_def split: option.splits prod.splits)

lemma set_attribute_spec:
  assumes "ll_activities s h = Some \<lparr>sa_activity = p, sa_component = c\<rparr>" and "w_acts (ll_world s) p = Some a"
    and "att \<noteq> 0" and "handle_value att bs = Inr (oa, v)"
  shows "\<exists>s'. siox_activity_set_attribute thread (Some h) att (Some bs) s = Inr ((), s') \<and> ll_activities s' = ll_activities s \<and>
    w_acts (ll_world s') = (w_acts (ll_world s))(p \<mapsto> a \<lparr>a_attributeArray := a_attributeArray a @ [Attribute (oa_aID oa) v]\<rparr>)"
  using assms thread_instance_acts [of thread "ll_world s"]
  by (cases "getThreadInstance thread (ll_world s)")
    (simp add: siox_activity_set_attribute_def with_builder_def setActivityAttribute_def no_result_def act_at_def put_act_def)

section \<open>Monitoring switched off\<close>

definition switch_monitoring :: "bool \<Rightarrow> ('o, 'i, 'm) siox \<Rightarrow> ('o, 'i, 'm) siox" where
  "switch_monitoring b s = (if b then siox_enable_monitoring s else siox_disable_monitoring s)"

lemma switched_off_stays:
  "ll_monitoringDisabled s = MONITORING_DISABLED_BY_USER \<Longrightarrow> fold switch_monitoring bs s = s"
  by (induction bs) (simp_all add: switch_monitoring_def siox_enable_monitoring_def siox_disable_monitoring_def)

text \<open>A step that reports nothing and leaves monitoring as it is.\<close>

definition silent :: "('o, 'i, 'm) siox \<Rightarrow> ('o, 'i, 'm) siox \<Rightarrow> bool" where
  "silent s s' \<longleftrightarrow> ll_logged s' = ll_logged s \<and> ll_monitoringDisabled s' = ll_monitoringDisabled s"

lemma silent_refl: "silent s s"
  by (simp add: silent_def)

lemma silent_trans: "silent s s1 \<Longrightarrow> silent s1 s2 \<Longrightarrow> silent s s2"
  by (simp add: silent_def)

lemma with_builder_silent: "with_builder thread f s = Inr (x, s') \<Longrightarrow> silent s s'"
  by (auto simp: with_builder_def bindr_Inr_iff silent_def split: prod.splits)

lemma activity_steps_silent:
  assumes "ll_monitoringDisabled s \<noteq> MONITORING_ENABLED"
  shows "siox_activity_begin thread junk c u s = Inr (h, s') \<Longrightarrow> silent s s'"
    and "siox_activity_set_attribute thread a att bs s = Inr (x, s') \<Longrightarrow> silent s s'"
    and "siox_activity_start thread t a s = Inr (y, s') \<Longrightarrow> silent s s'"
    and "siox_activity_stop thread t a s = Inr (y, s') \<Longrightarrow> silent s s'"
    and "siox_activity_end thread a s = Inr (x, s') \<Longrightarrow> silent s s'"
proof -
  note defs = siox_activity_begin_def siox_activity_set_attribute_def siox_activity_start_def siox_activity_stop_def
    siox_activity_end_def siox_activity_end_keep_def siox_activity_kept_delete_def new_activity_handle_def bindr_Inr_iff
  show "siox_activity_begin thread junk c u s = Inr (h, s') \<Longrightarrow> silent s s'"
    unfolding defs by (auto dest!: with_builder_silent simp: silent_def)
  show "siox_activity_set_attribute thread a att bs s = Inr (x, s') \<Longrightarrow> silent s s'"
    unfolding defs by (auto dest!: with_builder_silent simp: silent_refl bindr_Inr_iff split: option.splits prod.splits)
  show "siox_activity_start thread t a s = Inr (y, s') \<Longrightarrow> silent s s'"
    using assms unfolding defs by (auto dest!: with_builder_silent simp: silent_def split: if_splits)
  show "siox_activity_stop thread t a s = Inr (y, s') \<Longrightarrow> silent s s'"
    unfolding defs by (auto dest!: with_builder_silent)
  show "siox_activity_end thread a s = Inr (x, s') \<Longrightarrow> silent s s'"
    using assms unfolding defs by (auto dest!: with_builder_silent simp: silent_def bindr_Inr_iff split: if_splits)
qed

lemma set_attributes_silent:
  assumes "ll_monitoringDisabled s \<noteq> MONITORING_ENABLED" and "set_attributes thread h as s = Inr s'"
  shows "silent s s'"
  using assms
proof (induction "as" arbitrary: s)
  case (Cons ab "as")
  obtain att bs where "ab = (att, bs)" by (cases ab)
  then obtain s1 where "siox_activity_set_attribute thread (Some h) att (Some bs) s = Inr ((), s1)" "set_attributes thread h as s1 = Inr s'"
    using Cons.prems(2) by (auto simp: bindr_Inr_iff)
  moreover from this have "silent s s1" by (intro activity_steps_silent(2) [OF Cons.prems(1)])
  ultimately show ?case using Cons.IH [of s1] Cons.prems(1) by (simp add: silent_def)
qed (simp add: silent_refl)

lemma run_call_silent:
  fixes s :: "('o, 'i, 'm) siox"
  assumes "ll_monitoringDisabled s \<noteq> MONITORING_ENABLED"
  shows "run_call thread junk c k s = Inr s' \<Longrightarrow> silent s s'"
    and "run_calls thread junk c ks s = Inr s' \<Longrightarrow> silent s s'"
  using assms
proof (induction thread junk c k s and thread junk c ks s arbitrary: s' and s' rule: run_call_run_calls.induct)
  case (1 thread junk c u as' t0 t1 ks s)
  obtain h s1 s2 s3 x3 s4 s5 x5 s6 x6 where steps: "siox_activity_begin thread junk (Some c) u s = Inr (h, s1)"
    "set_attributes thread h as' s1 = Inr s2" "siox_activity_start thread t0 (Some h) s2 = Inr (x3, s3)"
    "run_calls thread junk c ks s3 = Inr s4" "siox_activity_stop thread t1 (Some h) s4 = Inr (x5, s5)"
    "siox_activity_end thread (Some h) s5 = Inr (x6, s')"
    using 1(2) by (auto simp: bindr_Inr_iff split: prod.splits)
  have s1: "silent s s1" by (rule activity_steps_silent(1) [OF 1(3) steps(1)])
  then have s2: "silent s s2" using set_attributes_silent [OF _ steps(2)] 1(3) by (auto simp: silent_def)
  then have s3: "silent s s3" using activity_steps_silent(3) [OF _ steps(3)] 1(3) by (auto simp: silent_def)
  then have s4: "silent s s4" using 1(1) steps(1-4) 1(3) by (auto simp: silent_def)
  then have s5: "silent s s5" using activity_steps_silent(4) [OF _ steps(5)] 1(3) by (auto simp: silent_def)
  then show ?case using activity_steps_silent(5) [OF _ steps(6)] 1(3) by (auto simp: silent_def)
next
  case (3 thread junk c k ks s)
  then show ?case by (auto simp: bindr_Inr_iff silent_def)
qed (simp add: silent_refl)

section \<open>Components\<close>

text \<open>The calls that change the components of a process.\<close>

datatype component_op =
  RegisterComponent UniqueInterfaceID string
| UnregisterComponent nat
| ForkComplete u32

fun component_step ::
  "('o, 'i, 'm) modules \<Rightarrow> (string \<Rightarrow> nat option \<times> nat option) \<Rightarrow> component_op \<Rightarrow> ('o, 'i, 'm) siox \<Rightarrow> ('o, 'i, 'm) siox result" where
  "component_step M config (RegisterComponent u name) s = bindr (siox_component_register M config u name s) (\<lambda>(_, s1). Inr s1)"
| "component_step M config (UnregisterComponent c) s = bindr (siox_component_unregister (Some c) s) (\<lambda>(_, s1). Inr s1)"
| "component_step M config (ForkComplete p) s = siox_handle_fork_complete p s"

fun component_steps ::
  "('o, 'i, 'm) modules \<Rightarrow> (string \<Rightarrow> nat option \<times> nat option) \<Rightarrow> component_op list \<Rightarrow> ('o, 'i, 'm) siox \<Rightarrow> ('o, 'i, 'm) siox result" where
  "component_steps M config [] s = Inr s"
| "component_steps M config (x # xs) s = bindr (component_step M config x s) (component_steps M config xs)"

text \<open>
  The table of interfaces and the components fit together, components carry the number of the process, and
  their own numbers were given out one after the other, after that of the interface's own component.
\<close>

definition components_inv :: "nat \<Rightarrow> ('o, 'i, 'm) siox \<Rightarrow> bool" where
  "components_inv n s \<longleftrightarrow> unat (ll_last_componentID s) \<le> n \<and> cid_pid (ll_monitoring_cid s) = ll_pid s \<and>
     cid_id (ll_monitoring_cid s) \<le> ll_last_componentID s \<and> distinct (map fst (ll_registeredComponents s)) \<and>
     (\<forall>a x. ll_components s a = Some x \<longrightarrow> a < ll_fresh s \<and> cid_pid (sc_cid x) = ll_pid s \<and>
        cid_id (ll_monitoring_cid s) < cid_id (sc_cid x) \<and> cid_id (sc_cid x) \<le> ll_last_componentID s) \<and>
     (\<forall>u a. map_of (ll_registeredComponents s) u = Some a \<longleftrightarrow> (\<exists>x. ll_components s a = Some x \<and> sc_uid x = u)) \<and>
     (\<forall>a b x y. ll_components s a = Some x \<longrightarrow> ll_components s b = Some y \<longrightarrow> cid_id (sc_cid x) = cid_id (sc_cid y) \<longrightarrow> a = b)"

lemma components_invD:
  assumes "components_inv n s" and "ll_components s a = Some x"
  shows "a < ll_fresh s" "cid_pid (sc_cid x) = ll_pid s" "cid_id (ll_monitoring_cid s) < cid_id (sc_cid x)"
    "cid_id (sc_cid x) \<le> ll_last_componentID s" "map_of (ll_registeredComponents s) (sc_uid x) = Some a"
  using assms unfolding components_inv_def by blast+

lemma components_inj:
  assumes "components_inv n s" and "ll_components s a = Some x" and "ll_components s b = Some y" and "cid_id (sc_cid x) = cid_id (sc_cid y)"
  shows "a = b"
  using assms unfolding components_inv_def by blast

lemma components_inv_add:
  assumes inv: "components_inv n s" and n: "n < 2 ^ 16 - 1"
    and new: "map_of (ll_registeredComponents s) u = None" and sc: "sc_uid x = u" "sc_cid x = ComponentID (ll_pid s) (ll_last_componentID s + 1)"
    and s': "ll_last_componentID s' = ll_last_componentID s + 1" "ll_fresh s' = Suc (ll_fresh s)"
     "ll_registeredComponents s' = AList.update u (ll_fresh s) (ll_registeredComponents s)"
     "ll_components s' = (ll_components s)(ll_fresh s \<mapsto> x)" "ll_pid s' = ll_pid s" "ll_monitoring_cid s' = ll_monitoring_cid s"
  shows "components_inv (Suc n) s'"
proof -
  let ?i = "ll_last_componentID s" and ?c = "\<lambda>y. cid_id (sc_cid y)"
  note D = components_invD [OF inv]
  have "unat ?i < 65535" using inv n by (simp add: components_inv_def)
  then have i: "unat (?i + 1) = Suc (unat ?i)" by (simp add: unat_word_ariths)
  have less: "j < ?i + 1" if "j \<le> ?i" for j using that i by (simp add: word_less_nat_alt word_le_nat_alt)
  have fresh: "ll_components s (ll_fresh s) = None" using D(1) [of "ll_fresh s"] by (cases "ll_components s (ll_fresh s)") auto
  have old: "?c y < ?i + 1" "?c y \<noteq> ?i + 1" "sc_uid y \<noteq> u" "a \<noteq> ll_fresh s" if "ll_components s a = Some y" for a y
    using D [OF that] less [of "?c y"] new fresh that by auto
  have comp: "ll_components s' a = Some y \<longleftrightarrow> (if a = ll_fresh s then y = x else ll_components s a = Some y)" for a y
    by (auto simp: s')
  have reg: "map_of (ll_registeredComponents s') v = Some a \<longleftrightarrow> (if v = u then a = ll_fresh s else map_of (ll_registeredComponents s) v = Some a)" for v a
    by (auto simp: s' update_conv')
  have iff: "map_of (ll_registeredComponents s) v = Some a \<longleftrightarrow> (\<exists>y. ll_components s a = Some y \<and> sc_uid y = v)" for v a
    using inv unfolding components_inv_def by blast
  have mon: "cid_id (ll_monitoring_cid s) < ?i + 1" using inv less unfolding components_inv_def by blast
  have keys: "distinct (map fst (AList.update u (ll_fresh s) (ll_registeredComponents s)))"
    using inv by (intro distinct_update) (simp add: components_inv_def)
  have "map_of (ll_registeredComponents s') v = Some a \<longleftrightarrow> (\<exists>y. ll_components s' a = Some y \<and> sc_uid y = v)" for v a
    unfolding reg comp using iff sc(1) by (auto dest: old(3,4))
  moreover have "a < ll_fresh s' \<and> cid_pid (sc_cid y) = ll_pid s' \<and> cid_id (ll_monitoring_cid s') < ?c y \<and> ?c y \<le> ll_last_componentID s'"
    if "ll_components s' a = Some y" for a y
    using that D [of a y] old(1) [of a y] mon sc(2) unfolding comp by (auto simp: s' split: if_splits)
  moreover have "a = b" if "ll_components s' a = Some y" "ll_components s' b = Some z" "?c y = ?c z" for a b y z
    using that sc(2) unfolding comp
    by (cases "a = ll_fresh s"; cases "b = ll_fresh s") (auto dest: old(2) components_inj [OF inv])
  moreover have "unat (ll_last_componentID s') \<le> Suc n" "cid_pid (ll_monitoring_cid s') = ll_pid s'"
    "cid_id (ll_monitoring_cid s') \<le> ll_last_componentID s'" "distinct (map fst (ll_registeredComponents s'))"
    using inv i keys mon by (simp_all add: s' components_inv_def order_less_imp_le)
  ultimately show ?thesis unfolding components_inv_def by blast
qed

lemma components_inv_register:
  assumes inv: "components_inv n s" and n: "n < 2 ^ 16 - 1" and reg: "siox_component_register M config u name s = Inr (c, s')"
  shows "components_inv (Suc n) s'"
proof -
  have new: "map_of (ll_registeredComponents s) u = None"
    using reg by (cases "map_of (ll_registeredComponents s) u")
      (auto simp: siox_component_register_def siox_component_is_registered_def bindr_Inr_iff)
  let ?x = "the (ll_components s' (ll_fresh s))"
  have "sc_uid ?x = u \<and> sc_cid ?x = ComponentID (ll_pid s) (ll_last_componentID s + 1) \<and>
    ll_last_componentID s' = ll_last_componentID s + 1 \<and> ll_fresh s' = Suc (ll_fresh s) \<and>
    ll_registeredComponents s' = AList.update u (ll_fresh s) (ll_registeredComponents s) \<and>
    ll_components s' = (ll_components s)(ll_fresh s \<mapsto> ?x) \<and> ll_pid s' = ll_pid s \<and> ll_monitoring_cid s' = ll_monitoring_cid s"
    using reg by (auto simp: siox_component_register_def bindr_Inr_iff on_mapper_def Let_def case_prod_beta split: if_splits)
  then show ?thesis by (intro components_inv_add [OF inv n new, of ?x]) simp_all
qed

lemma components_inv_unregister:
  assumes inv: "components_inv n s" and un: "siox_component_unregister (Some c) s = Inr ((), s')"
  shows "components_inv n s'"
proof -
  obtain x where x: "ll_components s c = Some x"
    using un by (auto simp: siox_component_unregister_def component_at_def bindr_Inr_iff split: option.splits)
  then have s': "s' = s \<lparr>ll_registeredComponents := AList.delete (sc_uid x) (ll_registeredComponents s),
      ll_components := (ll_components s)(c := None)\<rparr>"
    using un components_invD(5) [OF inv x] by (simp add: siox_component_unregister_def)
  have iff: "map_of (ll_registeredComponents s) v = Some a \<longleftrightarrow> (\<exists>y. ll_components s a = Some y \<and> sc_uid y = v)" for v a
    using inv unfolding components_inv_def by blast
  have "map_of (ll_registeredComponents s') v = Some a \<longleftrightarrow> (\<exists>y. ll_components s' a = Some y \<and> sc_uid y = v)" for v a
  proof (cases "v = sc_uid x")
    case True
    then show ?thesis using iff [of "sc_uid x" a] x components_invD(5) [OF inv x] by (auto simp: s' delete_conv')
  next
    case False
    then show ?thesis using iff [of v a] x by (auto simp: s' delete_conv')
  qed
  then show ?thesis using inv unfolding components_inv_def by (auto simp: s' distinct_delete)
qed

lemma fork_all:
  "fold_outcome (fork_component p) es cs = Inr cs' \<Longrightarrow>
     cs' = (\<lambda>a. if a \<in> snd ` set es then map_option (\<lambda>c. c \<lparr>sc_cid := set_cid_pid p (sc_cid c)\<rparr>) (cs a) else cs a)"
proof (induction es arbitrary: cs)
  case (Cons e es)
  then obtain cs1 where "fork_component p e cs = Inr cs1" and cs1: "fold_outcome (fork_component p) es cs1 = Inr cs'"
    by (auto simp: bindr_Inr_iff)
  then obtain c where "cs (snd e) = Some c" "cs1 = cs(snd e \<mapsto> c \<lparr>sc_cid := set_cid_pid p (sc_cid c)\<rparr>)"
    by (auto simp: fork_component_def split: option.splits)
  then show ?case using Cons.IH [OF cs1] by (auto simp: fun_eq_iff set_cid_pid_def set_pid_pid_def)
qed simp

lemma components_inv_fork:
  assumes inv: "components_inv n s" and fork: "siox_handle_fork_complete p s = Inr s'"
  shows "components_inv n s'" and "ll_pid s' = set_pid_pid p (ll_pid s)"
proof -
  obtain cs where cs: "fold_outcome (fork_component p) (ll_registeredComponents s) (ll_components s) = Inr cs"
    and s': "s' = s \<lparr>ll_pid := set_pid_pid p (ll_pid s), ll_monitoring_cid := set_cid_pid p (ll_monitoring_cid s),
      ll_localProcessID := set_pid_pid p (ll_pid s), ll_components := cs\<rparr>"
    using fork by (cases "fold_outcome (fork_component p) (ll_registeredComponents s) (ll_components s)")
      (auto simp: siox_handle_fork_complete_def Let_def)
  have "a \<in> snd ` set (ll_registeredComponents s)" if "ll_components s a = Some x" for a x
    using components_invD(5) [OF inv that] by (auto dest: map_of_SomeD intro: rev_image_eqI)
  then have "cs a = map_option (\<lambda>c. c \<lparr>sc_cid := set_cid_pid p (sc_cid c)\<rparr>) (ll_components s a)" for a
    unfolding fork_all [OF cs] by (cases "ll_components s a") auto
  then show "components_inv n s'" using inv unfolding components_inv_def
    by (auto simp: s' set_cid_pid_def set_pid_pid_def)
  show "ll_pid s' = set_pid_pid p (ll_pid s)" by (simp add: s')
qed

lemma components_inv_steps:
  assumes "components_inv n s" and "n + length xs < 2 ^ 16" and "component_steps M config xs s = Inr s'"
  shows "components_inv (n + length xs) s'"
  using assms
proof (induction xs arbitrary: n s)
  case (Cons x xs)
  then obtain s1 where s1: "component_step M config x s = Inr s1" "component_steps M config xs s1 = Inr s'"
    by (auto simp: bindr_Inr_iff)
  have weak: "components_inv n s1 \<Longrightarrow> components_inv (Suc n) s1" by (auto simp: components_inv_def)
  have "components_inv (Suc n) s1"
  proof (cases x)
    case (RegisterComponent u name)
    then show ?thesis using s1(1) components_inv_register [OF Cons.prems(1)] Cons.prems(2) by (auto simp: bindr_Inr_iff)
  next
    case (UnregisterComponent c)
    then show ?thesis using s1(1) components_inv_unregister [OF Cons.prems(1)] weak by (auto simp: bindr_Inr_iff)
  next
    case (ForkComplete p)
    then show ?thesis using s1(1) components_inv_fork(1) [OF Cons.prems(1)] weak by auto
  qed
  then show ?case using Cons.IH [of "Suc n" s1] s1(2) Cons.prems(2) by simp
qed simp

section \<open>The process with the file based modules\<close>

definition file_modules :: "(FileOntology, FileBasedSystemInformation, FileAssociationMapper) modules" where
  "file_modules = \<lparr>
     mod_register_attribute = fo_register_attribute,
     mod_lookup_attribute_by_name = fo_lookup_attribute_by_name,
     mod_set_meta_attribute = fo_attribute_set_meta_attribute,
     mod_register_nodeID = (\<lambda>si h. si_register si (HostKey h)),
     mod_register_interfaceID = (\<lambda>si i m. si_register si (InterfaceKey i m)),
     mod_register_activityID = (\<lambda>si u n. si_register si (ActivityKey u n)),
     mod_lookup_interface_name = si_lookup_interface_name,
     mod_lookup_interface_implementation = si_lookup_interface_implementation,
     mod_set_process_attribute = fm_set_process_attribute,
     mod_set_component_attribute = fm_set_component_attribute,
     mod_create_instance_mapping = fm_create_instance_mapping,
     mod_optimalParameter = None,
     mod_optimalParameterFor = (\<lambda>_ _. Inl not_found)\<rparr>"

text \<open>The static variables of the library when it is loaded.\<close>

definition process_start :: "'o \<Rightarrow> 'i \<Rightarrow> 'm \<Rightarrow> ('o, 'i, 'm) siox" where
  "process_start ont si am = \<lparr>ll_finalized = True, ll_initalizationCounter = 0,
     ll_monitoringDisabled = MONITORING_DISABLED_NOT_INITIALIZED, ll_nid = 0, ll_pid = ProcessID 0 0 0,
     ll_localHostname = [], ll_localProcessID = ProcessID 0 0 0, ll_ontology = ont, ll_system_information = si,
     ll_association_mapper = am, ll_amux = 0, ll_last_componentID = 0, ll_terminate_cbs = [], ll_initialization_cbs = [],
     ll_terminate_complete_cbs = [], ll_registeredComponents = [], ll_components = Map.empty, ll_activities = Map.empty,
     ll_fresh = 0, ll_monitoring_uid = 0, ll_monitoring_cid = ComponentID (ProcessID 0 0 0) 0, ll_world = world_new,
     ll_logged = [], ll_called = []\<rparr>"

text \<open>What the start of the library leaves of the components.\<close>

definition same_components :: "('o, 'i, 'm) siox \<Rightarrow> ('o, 'i, 'm) siox \<Rightarrow> bool" where
  "same_components s s' \<longleftrightarrow> ll_components s' = ll_components s \<and> ll_registeredComponents s' = ll_registeredComponents s \<and>
     ll_last_componentID s' = ll_last_componentID s \<and> ll_pid s' = ll_pid s \<and> ll_monitoring_cid s' = ll_monitoring_cid s"

lemma same_components_refl: "same_components s s"
  by (simp add: same_components_def)

lemma same_components_trans: "same_components s s1 \<Longrightarrow> same_components s1 s2 \<Longrightarrow> same_components s s2"
  by (simp add: same_components_def)

lemma module_same_components:
  "on_ontology x s = Inr (y, s') \<Longrightarrow> same_components s s'" "on_si z s = Inr (y', s') \<Longrightarrow> same_components s s'"
  "on_mapper w s = Inr (y'', s') \<Longrightarrow> same_components s s'" "with_builder thread f s = Inr (v, s') \<Longrightarrow> same_components s s'"
  "log_activity m q s = Inr s' \<Longrightarrow> same_components s s'"
  by (auto simp: on_ontology_def on_si_def on_mapper_def with_builder_def log_activity_def bindr_Inr_iff same_components_def
      split: prod.splits)

lemma program_attribute_same: "program_attribute M name t v s = Inr s' \<Longrightarrow> same_components s s'"
  by (auto simp: program_attribute_def bindr_Inr_iff dest!: module_same_components intro: same_components_trans split: prod.splits)

lemma add_program_information_same: "add_program_information M env s = Inr s' \<Longrightarrow> same_components s s'"
  by (auto simp: add_program_information_def bindr_Inr_iff same_components_def dest!: program_attribute_same split: option.splits)

lemma internal_trace_same: "internal_trace_heavyWeight M thread name junk t0 t1 s = Inr s' \<Longrightarrow> same_components s s'"
  by (auto simp: internal_trace_heavyWeight_def bindr_Inr_iff dest!: module_same_components intro: same_components_trans split: prod.splits)

lemma ctor_components:
  assumes "siox_ctor M env loaded junk t0 t1 (process_start ont si am) = Inr s" and "siox_is_monitoring_enabled s"
  shows "components_inv 1 s"
proof -
  obtain s1 s2 uid s4 where b: "siox_ctor_begin M env loaded (process_start ont si am) = Inr (True, s1)"
    and steps: "add_program_information M env s1 = Inr s2"
      "on_si (mod_register_interfaceID M (ll_system_information s2) ''SIOX'' ''LowLevelAPI'')
         (s2 \<lparr>ll_finalized := False, ll_monitoringDisabled := MONITORING_ENABLED\<rparr>) = Inr (uid, s4)"
      "internal_trace_heavyWeight M (env_thread env) ''init'' junk t0 t1 (s4 \<lparr>ll_monitoring_uid := uid,
         ll_last_componentID := ll_last_componentID s4 + 1, ll_monitoring_cid := ComponentID (ll_pid s4) (ll_last_componentID s4 + 1)\<rparr>) = Inr s"
    using assms by (auto simp: siox_ctor_def bindr_Inr_iff Let_def process_start_def siox_is_monitoring_enabled_def
        split: prod.splits if_splits)
  have "ll_components s1 = Map.empty" "ll_registeredComponents s1 = []" "ll_last_componentID s1 = 0"
    using b by (auto simp: siox_ctor_begin_def process_start_def Let_def split: option.splits prod.splits sum.splits siox_error.splits)
  then show ?thesis using add_program_information_same [OF steps(1)] module_same_components(2) [OF steps(2)] internal_trace_same [OF steps(3)]
    by (simp add: components_inv_def same_components_def)
qed

definition demo_env :: process_environment where
  "demo_env = \<lparr>env_hostname = ''node1'', env_pid = 42, env_seconds = 7, env_cmdline = Some ''a.out'', env_uid = 1000, env_gid = 100,
     env_pw_name = None, env_environ = None, env_thread = 3\<rparr>"

text \<open>The library is initialised, an interface and a component with a multiplexer for starting calls are registered.\<close>

definition demo_process :: "(FileOntology, FileBasedSystemInformation, FileAssociationMapper, nat) call" where
  "demo_process =
     bindr (siox_ctor file_modules demo_env (Some 0) 0 5 6
       (process_start FileOntology_new FileBasedSystemInformation_new FileAssociationMapper_new)) (\<lambda>s1.
     bindr (siox_system_information_lookup_interface_id file_modules ''POSIX'' '''' s1) (\<lambda>(uid, s2).
     siox_component_register file_modules (\<lambda>n. (None, Some 1)) uid '''' s2))"

lemma demo_ready:
  "\<exists>s sc. demo_process = Inr (0, s) \<and> ready 3 0 0 sc s \<and> sc_cid sc = ComponentID (ProcessID 1 42 7) 2 \<and>
     sc_amux sc = 0 \<and> sc_preCallAmux sc = Some 1 \<and> enclosing 0 s = [] \<and> ab_next (builder_of 0 s) = 2 \<and>
     ab_thread (builder_of 0 s) = 1"
proof -
  let ?P = "\<lambda>(c, s). let sc = the (ll_components s 0) in c = 0 \<and> ready 3 0 0 sc s \<and> sc_cid sc = ComponentID (ProcessID 1 42 7) 2 \<and>
     sc_amux sc = 0 \<and> sc_preCallAmux sc = Some 1 \<and> enclosing 0 s = [] \<and> ab_next (builder_of 0 s) = 2 \<and>
     ab_thread (builder_of 0 s) = 1"
  have "case demo_process of Inr x \<Rightarrow> ?P x | Inl e \<Rightarrow> False" by code_simp
  then show ?thesis by (auto simp: Let_def split: sum.splits)
qed

lemma unit_eq: "vd_eq w (vd_of_string u) \<longleftrightarrow> w = vd_of_string u"
  by (cases w) (simp_all add: vd_eq_def vd_of_string_def)

section \<open>Properties\<close>

text \<open>
  C8 (functional): A thread that runs instrumented functions, nested in any way, gets through
  them all, and what reaches the multiplexers is their trace: every activity with the attributes set
  for it, its own start and end time, the number of its turn among the activities that the thread began,
  and the activity of the function that called it as its parent; the report of the starting call before those of the
  functions called, the completed activity after them. Afterwards the thread is again
  where it was, in the caller's activity.
\<close>

theorem nested_calls_traced:
  assumes "ready thread b c sc s" and "call_ok k"
  shows "\<exists>s'. run_call thread junk c k s = Inr s' \<and>
    ll_logged s' = ll_logged s @
      call_trace sc (ab_thread (builder_of b s)) (enclosing b s) (ab_next (builder_of b s)) k \<and>
    ab_next (builder_of b s') = ab_next (builder_of b s) + of_nat (call_size k) \<and>
    ready thread b c sc s' \<and> enclosing b s' = enclosing b s"
  using run_call_trace [OF assms, of junk] returned_ready [OF assms(1)] returned_enclosing [OF assms(1)]
  by (auto simp: call_done_def)

theorem nested_calls_traced_witness:
  "\<exists>s s'. demo_process = Inr (0, s) \<and>
     run_call 3 0 0 (TracedCall 9 [(0x300000001, [5, 0, 0, 0])] 10 20 [TracedCall 8 [] 11 12 []]) s = Inr s' \<and>
     map (\<lambda>(m, a). (m, a_ucaid a, a_time_stop a, a_attributeArray a, aid_id (a_aid a), map aid_id (a_parentArray a)))
       (drop (length (ll_logged s)) (ll_logged s')) =
     [(1, 9, 0, [Attribute 1 (VUint32 5)], 2, []), (1, 8, 0, [], 3, [2]), (0, 8, 12, [], 3, [2]),
      (0, 9, 20, [Attribute 1 (VUint32 5)], 2, [])]"
proof -
  let ?k = "TracedCall 9 [(0x300000001, [5, 0, 0, 0])] 10 20 [TracedCall 8 [] 11 12 []]"
  have ok: "handle_value 0x300000001 [5, 0, 0, 0] = Inr (\<lparr>oa_aID = 1, oa_storage_type = UINT32\<rparr>, VUint32 5)" by code_simp
  obtain s sc where s: "demo_process = Inr (0, s)" "ready 3 0 0 sc s" "sc_cid sc = ComponentID (ProcessID 1 42 7) 2"
    "sc_amux sc = 0" "sc_preCallAmux sc = Some 1" "enclosing 0 s = []" "ab_next (builder_of 0 s) = 2" "ab_thread (builder_of 0 s) = 1"
    using demo_ready by blast
  obtain s' where "run_call 3 0 0 ?k s = Inr s'"
    "ll_logged s' = ll_logged s @ call_trace sc 1 [] 2 ?k"
    using nested_calls_traced [OF s(2), of ?k 0] ok s(6-8) by auto
  then show ?thesis using s(1,3-5) ok
    by (intro exI [of _ s] exI [of _ s'])
      (simp add: traced_activity_def decode_attribute_def Let_def del: run_call.simps)
qed


text \<open>
  C28 (roundtrip): The handle of an attribute is never null for an attribute that has a number, and it gives the
  attribute back. A value of the attribute's type that is set through it on an activity, for which no value is
  recorded yet, is read back by \<open>siox_activity_get_attribute\<close>, byte by byte, whatever follows it in memory.
\<close>

theorem attribute_set_get:
  assumes "ll_activities s h = Some \<lparr>sa_activity = p, sa_component = c\<rparr>" and "w_acts (ll_world s) p = Some a"
    and "find_attribute_in (oa_aID oa) (a_attributeArray a) = None"
    and "oa_aID oa \<noteq> 0" and "oa_storage_type oa = vd_type v" and "vd_type v \<noteq> INVALID" and "vd_wf v"
  shows "\<exists>s' out. siox_activity_set_attribute thread (Some h) (convertOntologyAttributeToPtr oa) (Some (c_bytes v @ rest)) s =
      Inr ((), s') \<and>
    siox_activity_get_attribute (Some h) (convertOntologyAttributeToPtr oa) s' = Inr (Some out) \<and> out_bytes out = c_bytes v"
proof -
  have nn: "convertOntologyAttributeToPtr oa \<noteq> 0" using assms(4) by (simp add: handle_null)
  have hv: "handle_value (convertOntologyAttributeToPtr oa) (c_bytes v @ rest) = Inr (oa, v)"
    using nn convert_attribute_bytes [OF assms(5-7)] by (simp add: handle_value_def handle_roundtrip)
  obtain s' where s': "siox_activity_set_attribute thread (Some h) (convertOntologyAttributeToPtr oa) (Some (c_bytes v @ rest)) s =
      Inr ((), s')" "ll_activities s' = ll_activities s"
    "w_acts (ll_world s') p = Some (a \<lparr>a_attributeArray := a_attributeArray a @ [Attribute (oa_aID oa) v]\<rparr>)"
    using set_attribute_spec [OF assms(1,2) nn hv, of thread] by auto
  obtain out where "convert_attribute_back v = Inr out" "out_bytes out = c_bytes v"
    using convert_attribute_back_bytes [OF assms(6)] by blast
  then show ?thesis using s' assms(1,3)
    by (simp add: siox_activity_get_attribute_def handle_roundtrip activity_behind_def act_at_def attribute_out_def
        find_append_in suggested_out_def)
qed

definition demo_activity_state :: "(unit, unit, unit) siox" where
  "demo_activity_state = (process_start () () ()) \<lparr>ll_activities := [0 \<mapsto> \<lparr>sa_activity = 4, sa_component = 1\<rparr>],
     ll_world := world_new \<lparr>w_acts := [4 \<mapsto> begun_activity 9 0 (ActivityID (ComponentID (ProcessID 1 42 7) 2) 1 1) []]\<rparr>\<rparr>"

theorem attribute_set_get_witness:
  "\<exists>s' out. siox_activity_set_attribute 3 (Some 0) 0x600000005 (Some [104, 105, 0, 120]) demo_activity_state = Inr ((), s') \<and>
     siox_activity_get_attribute (Some 0) 0x600000005 s' = Inr (Some out) \<and> out_bytes out = [104, 105, 0]"
proof -
  let ?oa = "\<lparr>oa_aID = 5, oa_storage_type = STRING\<rparr>"
  have ptr: "convertOntologyAttributeToPtr ?oa = 0x600000005" by code_simp
  have bs: "c_bytes (VString ''hi'') = [104, 105, 0]" by code_simp
  show ?thesis
    using attribute_set_get [of demo_activity_state 0 4 1 _ ?oa "VString ''hi''" 3 "[120]"] ptr bs
    by (simp add: demo_activity_state_def begun_activity_def no_nul_def)
qed

text \<open>
  C29 (type): Values have the type of their attribute. When the ontology in the file has registered an attribute and
  the handle it gave is used to set a value on an activity, the interface reads the memory at the type of the
  attribute: the activity gets one more attribute, whose number is found under the name that was registered and whose
  value is well formed and of the registered type.
\<close>

theorem attribute_values_typed:
  assumes "fo_inv (ll_ontology s)" and "0 < fo_free (ll_ontology s)" and "t \<noteq> INVALID"
    and reg: "siox_ontology_register_attribute file_modules d n t s = Inr (ptr, s1)" and "ptr \<noteq> 0"
    and act: "ll_activities s2 h = Some \<lparr>sa_activity = p, sa_component = c\<rparr>" "w_acts (ll_world s2) p = Some a"
    and set: "siox_activity_set_attribute thread (Some h) ptr (Some bs) s2 = Inr ((), s3)"
  shows "\<exists>i v. fo_lookup_attribute_by_name (ll_ontology s1) d n = Inr \<lparr>oa_aID = i, oa_storage_type = t\<rparr> \<and>
    w_acts (ll_world s3) p = Some (a \<lparr>a_attributeArray := a_attributeArray a @ [Attribute i v]\<rparr>) \<and>
    vd_type v = t \<and> vd_wf v"
proof -
  obtain oa where oa: "fo_register_attribute (ll_ontology s) d n t = (Inr oa, ll_ontology s1)" "ptr = convertOntologyAttributeToPtr oa"
    using reg \<open>ptr \<noteq> 0\<close> by (auto simp: siox_ontology_register_attribute_def file_modules_def catch_illegal_def bindr_Inr_iff
        split: prod.splits sum.splits siox_error.splits)
  have look: "fo_lookup_attribute_by_name (ll_ontology s1) d n = Inr oa" and ty: "oa_storage_type oa = t"
    using fo.register_lookup [OF assms(1-3) oa(1)] by simp_all
  obtain x where x: "handle_value ptr bs = Inr x"
    using set by (auto simp: siox_activity_set_attribute_def bindr_Inr_iff)
  obtain oa' v where "x = (oa', v)" by (cases x)
  with x have hv: "handle_value ptr bs = Inr (oa, v)" "vd_type v = t" "vd_wf v"
    using handle_value_type [of oa bs oa' v] oa(2) ty by auto
  show ?thesis using set_attribute_spec [OF act \<open>ptr \<noteq> 0\<close> hv(1), of thread] set look ty hv(2,3)
    by (intro exI [of _ "oa_aID oa"] exI [of _ v]) auto
qed

text \<open>
  C20 (bounds): From the start of the process, fewer than 2^16 - 1 registrations, unregistrations and forks, in any order,
  keep the components apart: the 16-bit numbers of two components differ, and from that of the interface's own
  component; every component has the number of the process it lives in, also after a fork; and
  the table of interfaces leads to the component that was registered for the interface.
\<close>

theorem component_ids_unique:
  assumes "siox_ctor M env loaded junk t0 t1 (process_start ont si am) = Inr s" and "siox_is_monitoring_enabled s"
    and "length xs < 2 ^ 16 - 1" and "component_steps M config xs s = Inr s'"
    and "ll_components s' a = Some x"
  shows "(\<forall>b y. ll_components s' b = Some y \<and> sc_cid y = sc_cid x \<longrightarrow> b = a) \<and> sc_cid x \<noteq> ll_monitoring_cid s' \<and>
    cid_pid (sc_cid x) = ll_pid s' \<and> map_of (ll_registeredComponents s') (sc_uid x) = Some a"
proof -
  have inv: "components_inv (1 + length xs) s'"
    using components_inv_steps [OF ctor_components [OF assms(1,2)] _ assms(4)] assms(3) by simp
  note D = components_invD [OF inv assms(5)]
  have "b = a" if "ll_components s' b = Some y" "sc_cid y = sc_cid x" for b y
    using components_inj [OF inv that(1) assms(5)] that(2) by simp
  moreover have "sc_cid x \<noteq> ll_monitoring_cid s'" using D(3) by auto
  ultimately show ?thesis using D(2,5) by blast
qed

text \<open>
  Monitoring that the program has switched off stays off. After \<open>siox_disable_monitoring\<close>
  no sequence of calls of \<open>siox_enable_monitoring\<close> and \<open>siox_disable_monitoring\<close> switches it on again, and no
  instrumented call that follows is reported. The guard of \<open>siox_enable_monitoring\<close> tests for the wrong
  state: what it does switch on is a library that was finalized and is to stay disabled for good.
\<close>

theorem disable_is_forever:
  assumes "siox_is_monitoring_enabled s"
    and "run_call thread junk c k (fold switch_monitoring bs (siox_disable_monitoring s)) = Inr s'"
  shows "\<not> siox_is_monitoring_enabled s' \<and> ll_logged s' = ll_logged s \<and>
    (siox_is_monitoring_permanently_disabled t \<longrightarrow> siox_is_monitoring_enabled (siox_enable_monitoring t))"
proof -
  let ?s = "siox_disable_monitoring s"
  have off: "ll_monitoringDisabled ?s = MONITORING_DISABLED_BY_USER" "ll_logged ?s = ll_logged s"
    using assms(1) by (simp_all add: siox_disable_monitoring_def siox_is_monitoring_enabled_def)
  have "silent ?s s'"
    using run_call_silent(1) [of ?s thread junk c k s'] assms(2) off(1) by (simp add: switched_off_stays)
  then show ?thesis using off
    by (simp add: silent_def siox_is_monitoring_enabled_def siox_is_monitoring_permanently_disabled_def siox_enable_monitoring_def)
qed

theorem disable_is_forever_witness:
  "\<exists>s s'. demo_process = Inr (0, s) \<and>
     run_call 3 0 0 (TracedCall 9 [] 10 20 []) (siox_enable_monitoring (siox_disable_monitoring s)) = Inr s' \<and>
     \<not> siox_is_monitoring_enabled s' \<and> ll_logged s' = ll_logged s"
proof -
  let ?k = "TracedCall 9 [] 10 20 []"
  let ?r = "\<lambda>s. run_call 3 0 0 ?k (fold switch_monitoring [True] (siox_disable_monitoring s))"
  have "case demo_process of Inr (c, s) \<Rightarrow> c = 0 \<and> siox_is_monitoring_enabled s \<and> \<not> isl (?r s) | Inl e \<Rightarrow> False"
    by code_simp
  then obtain s where d: "demo_process = Inr (0, s)" "siox_is_monitoring_enabled s" "\<not> isl (?r s)"
    by (auto simp del: run_call.simps split: sum.splits)
  obtain s' where s: "demo_process = Inr (0, s)" "siox_is_monitoring_enabled s" "?r s = Inr s'"
    using d by (cases "?r s") (simp_all del: run_call.simps)
  moreover have "fold switch_monitoring [True] (siox_disable_monitoring s) = siox_enable_monitoring (siox_disable_monitoring s)"
    by (simp add: switch_monitoring_def)
  ultimately show ?thesis using disable_is_forever [OF s(2,3)] by (metis)
qed

theorem component_ids_unique_witness:
  "\<exists>s s' x. siox_ctor file_modules demo_env (Some 0) 0 5 6
       (process_start FileOntology_new FileBasedSystemInformation_new FileAssociationMapper_new) = Inr s \<and>
     component_steps file_modules (\<lambda>_. (None, None)) [RegisterComponent 2 ''x'', ForkComplete 43] s = Inr s' \<and>
     ll_components s' 0 = Some x \<and> sc_cid x = ComponentID (ProcessID 1 43 7) 2 \<and> sc_cid x \<noteq> ll_monitoring_cid s' \<and>
     cid_pid (sc_cid x) = ll_pid s' \<and> map_of (ll_registeredComponents s') (sc_uid x) = Some 0"
proof -
  let ?s0 = "process_start FileOntology_new FileBasedSystemInformation_new FileAssociationMapper_new"
  let ?xs = "[RegisterComponent 2 ''x'', ForkComplete 43]"
  have "case siox_ctor file_modules demo_env (Some 0) 0 5 6 ?s0 of Inl e \<Rightarrow> False | Inr s \<Rightarrow> siox_is_monitoring_enabled s \<and>
      (case component_steps file_modules (\<lambda>_. (None, None)) ?xs s of Inl e \<Rightarrow> False
       | Inr s' \<Rightarrow> (case ll_components s' 0 of None \<Rightarrow> False | Some x \<Rightarrow> sc_cid x = ComponentID (ProcessID 1 43 7) 2))"
    by code_simp
  then obtain s s' x where s: "siox_ctor file_modules demo_env (Some 0) 0 5 6 ?s0 = Inr s" "siox_is_monitoring_enabled s"
    "component_steps file_modules (\<lambda>_. (None, None)) ?xs s = Inr s'" "ll_components s' 0 = Some x"
    "sc_cid x = ComponentID (ProcessID 1 43 7) 2"
    by (auto split: sum.splits option.splits)
  have "length ?xs < 2 ^ 16 - 1" by simp
  then show ?thesis using component_ids_unique [OF s(1,2) _ s(3,4)] s by blast
qed

theorem attribute_values_typed_witness:
  "\<exists>s1 s3 i v a. siox_ontology_register_attribute file_modules ''posix'' ''fh'' UINT32
       (process_start FileOntology_new FileBasedSystemInformation_new FileAssociationMapper_new) = Inr (0x300000001, s1) \<and>
     siox_activity_set_attribute 3 (Some 0) 0x300000001 (Some [9, 0, 0, 0]) demo_activity_state = Inr ((), s3) \<and>
     fo_lookup_attribute_by_name (ll_ontology s1) ''posix'' ''fh'' = Inr \<lparr>oa_aID = i, oa_storage_type = UINT32\<rparr> \<and>
     w_acts (ll_world s3) 4 = Some a \<and> a_attributeArray a = [Attribute i v] \<and> vd_type v = UINT32"
proof -
  let ?s0 = "process_start FileOntology_new FileBasedSystemInformation_new FileAssociationMapper_new"
  have "case siox_ontology_register_attribute file_modules ''posix'' ''fh'' UINT32 ?s0 of Inl e \<Rightarrow> False | Inr (p, s1) \<Rightarrow> p = 0x300000001"
    by code_simp
  then obtain s1 where s1: "siox_ontology_register_attribute file_modules ''posix'' ''fh'' UINT32 ?s0 = Inr (0x300000001, s1)"
    by (auto split: sum.splits)
  have "case siox_activity_set_attribute 3 (Some 0) 0x300000001 (Some [9, 0, 0, 0]) demo_activity_state of Inl e \<Rightarrow> False | Inr x \<Rightarrow> True"
    by code_simp
  then obtain s3 where s3: "siox_activity_set_attribute 3 (Some 0) 0x300000001 (Some [9, 0, 0, 0]) demo_activity_state = Inr ((), s3)"
    by (auto split: sum.splits)
  have "fo_inv (ll_ontology ?s0)" "0 < fo_free (ll_ontology ?s0)"
    using fo_inv_new by (simp_all add: process_start_def fo_free_def FileOntology_new_def)
  then show ?thesis using s1 s3
      attribute_values_typed [OF _ _ _ s1 _ _ _ s3, of 4 1 "begun_activity 9 0 (ActivityID (ComponentID (ProcessID 1 42 7) 2) 1 1) []"]
    by (fastforce simp: demo_activity_state_def begun_activity_def)
qed

text \<open>
  Attributes with units. When \<open>siox_ontology_register_attribute_with_unit\<close> has given a handle, on a consistent
  ontology with room for two attributes, the handle is what \<open>siox_ontology_lookup_attribute_by_name\<close> returns
  from then on; registering the attribute again with the same unit returns it too and with another unit
  returns the null handle, both without a change.
\<close>

theorem unit_is_part_of_the_attribute:
  assumes "fo_inv (ll_ontology s)" and "2 \<le> fo_free (ll_ontology s)" and "t \<noteq> INVALID"
    and reg: "siox_ontology_register_attribute_with_unit file_modules d n u t s = Inr (ptr, s1)" and "ptr \<noteq> 0"
  shows "siox_ontology_lookup_attribute_by_name file_modules d n s1 = Inr ptr \<and>
    siox_ontology_register_attribute_with_unit file_modules d n u' t s1 = Inr (if c_str u' = c_str u then ptr else 0, s1)"
proof -
  obtain meta o1 att o2 where r: "fo_register_attribute (ll_ontology s) ''Meta'' ''Unit'' STRING = (Inr meta, o1)"
    "fo_register_attribute o1 d n t = (Inr att, o2)"
    "fo_attribute_set_meta_attribute o2 att meta (vd_of_string u) = (Inr (), ll_ontology s1)"
    and ptr: "ptr = convertOntologyAttributeToPtr att"
    using reg \<open>ptr \<noteq> 0\<close> by (auto simp: siox_ontology_register_attribute_with_unit_def file_modules_def catch_illegal_def bindr_Inr_iff
        split: prod.splits sum.splits siox_error.splits)
  have s0: "0 < fo_free (ll_ontology s)" using assms(2) by simp
  note a1 = fo.register_extends [OF assms(1) s0 _ r(1)] fo.register_lookup [OF assms(1) s0 _ r(1)]
  then have o1: "fo_inv o1" "0 < fo_free o1" "fo_lookup_attribute_by_name o1 ''Meta'' ''Unit'' = Inr meta" "oa_storage_type meta = STRING"
    using assms(2) by auto
  note a2 = fo.register_extends [OF o1(1,2) assms(3) r(2)] fo.register_lookup [OF o1(1,2) assms(3) r(2)]
  then have o2: "fo_inv o2" "fo_lookup_attribute_by_name o2 ''Meta'' ''Unit'' = Inr meta"
    "fo_lookup_attribute_by_name o2 d n = Inr att" "oa_storage_type att = t" using o1(3) by auto
  obtain f where f: "fo_lookup_attribute_by_ID o2 (oa_aID att) = Inr f" using fo.by_name_ID [OF o2(1,3)] by blast
  let ?o = "ll_ontology s1"
  have ty: "oa_storage_type meta = vd_type (vd_of_string x)" for x by (simp add: o1(4) vd_of_string_def)
  note sp = fo.set_meta_spec [OF o2(1) f ty r(3)]
  then have o3: "fo_inv ?o" "fo_lookup_attribute_by_name ?o = fo_lookup_attribute_by_name o2"
    "fo_lookup_attribute_by_ID ?o (oa_aID att) = Inr f" using f by auto
  have w: "fo_lookup_meta_attribute ?o att meta = Inr (vd_of_string u)"
    using sp by (auto simp: unit_eq split: sum.splits if_splits)
  obtain ru o4 where set: "fo_attribute_set_meta_attribute ?o att meta (vd_of_string u') = (ru, o4)" by fastforce
  have "o4 = ?o \<and> (if c_str u = c_str u' then ru = Inr () else \<exists>m. ru = Inl (IllegalStateError m))"
    using fo.set_meta_spec [OF o3(1,3) ty set] w by (simp add: vd_eq_def vd_of_string_def split: if_splits)
  moreover have "fo_register_attribute ?o ''Meta'' ''Unit'' STRING = (Inr meta, ?o)" "fo_register_attribute ?o d n t = (Inr att, ?o)"
    using fo.register_known [OF o3(1), of "''Meta''" "''Unit''" meta STRING] fo.register_known [OF o3(1), of d n att t]
      o2(2-4) o1(4) o3(2) assms(3) by simp_all
  ultimately show ?thesis using set o3(2) o2(3)
    by (auto simp: siox_ontology_lookup_attribute_by_name_def siox_ontology_register_attribute_with_unit_def file_modules_def ptr catch_illegal_def)
qed

theorem unit_is_part_of_the_attribute_witness:
  "\<exists>s1. siox_ontology_register_attribute_with_unit file_modules ''posix'' ''bytes'' ''Byte'' UINT64
       (process_start FileOntology_new FileBasedSystemInformation_new FileAssociationMapper_new) = Inr (0x100000002, s1) \<and>
     siox_ontology_lookup_attribute_by_name file_modules ''posix'' ''bytes'' s1 = Inr 0x100000002 \<and>
     siox_ontology_register_attribute_with_unit file_modules ''posix'' ''bytes'' ''KiB'' UINT64 s1 = Inr (0, s1)"
proof -
  let ?s0 = "process_start FileOntology_new FileBasedSystemInformation_new FileAssociationMapper_new"
  have "case siox_ontology_register_attribute_with_unit file_modules ''posix'' ''bytes'' ''Byte'' UINT64 ?s0 of
      Inl e \<Rightarrow> False | Inr (p, s1) \<Rightarrow> p = 0x100000002"
    by code_simp
  then obtain s1 where s1: "siox_ontology_register_attribute_with_unit file_modules ''posix'' ''bytes'' ''Byte'' UINT64 ?s0 =
      Inr (0x100000002, s1)"
    by (auto split: sum.splits)
  have "fo_inv (ll_ontology ?s0)" "2 \<le> fo_free (ll_ontology ?s0)"
    using fo_inv_new by (simp_all add: process_start_def fo_free_def FileOntology_new_def)
  then show ?thesis using s1 unit_is_part_of_the_attribute [OF _ _ _ s1, of "''KiB''"] by (auto simp: c_str_def)
qed

end
