(* ===== verification/Generic_History.thy ===== *)
theory Generic_History
  imports Optimizer System_Information "HOL-Library.AList"
begin

text \<open>
  The optimizer plugin \<open>knowledge/optimizer/plugins/generic-history/GenericHistory.cpp\<close>: it watches the activities of
  a layer, keeps for every set of hints the average performance of the accesses made under it, and suggests hints.
  The services it calls, system information, ontology and what is configured, are the record \<open>history_env\<close>;
  the table of the optimizer is \<open>expert\<close>. Performance is computed in \<open>double\<close>. \<open>std::sort\<close> leaves the order of
  equal ids open; the model keeps it, as the library does for up to sixteen elements.
\<close>

datatype TokenType = OPEN | ACCESS | CLOSE | HINT | UNKNOWN

record HintPerformance =
  hp_hints :: "Attribute list"
  hp_measurementCount :: int
  hp_averagePerformance :: float64

record GenericHistoryOptions =
  go_interface :: string
  go_implementation :: string
  go_openTokens :: "string list"
  go_accessTokens :: "string list"
  go_closeTokens :: "string list"
  go_hintTokens :: "string list"
  go_accessRelevantOntologyAttributes :: "(string \<times> string) list"
  go_hintAttributes :: "(string \<times> string) list"

record history_env =
  he_options :: GenericHistoryOptions
  he_lookup_interfaceID :: "string \<Rightarrow> string \<Rightarrow> UniqueInterfaceID result"
  he_lookup_activityID :: "UniqueInterfaceID \<Rightarrow> string \<Rightarrow> UniqueComponentActivityID result"
  he_lookup_attribute_by_name :: "string \<Rightarrow> string \<Rightarrow> OntologyAttribute result"
  he_lookup_attribute_by_ID :: "OntologyAttributeID \<Rightarrow> OntologyAttributeFull result"
  he_this :: nat

record GenericHistoryPlugin =
  gh_initLevel :: int
  gh_uiid :: UniqueInterfaceID
  gh_uidAttID :: OntologyAttributeID
  gh_types :: "UniqueComponentActivityID \<rightharpoonup> TokenType"
  gh_performanceAttIDs :: "UniqueComponentActivityID \<rightharpoonup> OntologyAttributeID"
  gh_hintTypes :: "(OntologyAttributeID \<times> Type) list"
  gh_nTypes :: "TokenType \<Rightarrow> int"
  gh_lastActionType :: TokenType
  gh_openFileHints :: "ActivityID \<rightharpoonup> Attribute list"
  gh_performanceHistory :: "HintPerformance list"
  gh_catchall :: bool

definition GenericHistoryPlugin_new :: GenericHistoryPlugin where
  "GenericHistoryPlugin_new = \<lparr>gh_initLevel = 0, gh_uiid = 0, gh_uidAttID = 0, gh_types = Map.empty, gh_performanceAttIDs = Map.empty,
     gh_hintTypes = [], gh_nTypes = (\<lambda>_. 0), gh_lastActionType = UNKNOWN, gh_openFileHints = Map.empty, gh_performanceHistory = [],
     gh_catchall = False\<rparr>"

section \<open>Recording\<close>

definition f64_mul :: "float64 \<Rightarrow> float64 \<Rightarrow> float64" where
  "f64_mul a b = of_nat (fp_mul 53 11 (unat a) (unat b))"

definition infinite_performance :: float64 where
  "infinite_performance = f64_div (f64_of_int 1) (f64_of_int 0)"

definition no_performance :: float64 where
  "no_performance = f64_div (f64_of_int 0) (f64_of_int 0)"

definition recordPerformance :: "GenericHistoryPlugin \<Rightarrow> Activity \<Rightarrow> float64 outcome" where
  "recordPerformance gh a =
     (if a_time_stop a = a_time_start a then Inr infinite_performance
      else
        let oaid = (case gh_performanceAttIDs gh (a_ucaid a) of None \<Rightarrow> 0 | Some i \<Rightarrow> i)
        in case find_attribute_in oaid (a_attributeArray a) of
             None \<Rightarrow> Inr no_performance
           | Some v \<Rightarrow> bindr (vd_uint64 v) (\<lambda>n.
               Inr (f64_div (f64_of_int (uint n)) (f64_of_int (uint (a_time_stop a - a_time_start a))))))"

text \<open>The parent, the last first, under which hints of an open file are kept.\<close>

definition findCurrentHints :: "GenericHistoryPlugin \<Rightarrow> Activity \<Rightarrow> (ActivityID \<times> Attribute list) option" where
  "findCurrentHints gh a =
     (case find (\<lambda>p. gh_openFileHints gh p \<noteq> None) (rev (a_parentArray a)) of
        None \<Rightarrow> None
      | Some p \<Rightarrow> Some (p, the (gh_openFileHints gh p)))"

text \<open>The loop of \<open>rememberHints\<close> over the attributes, the last first; what was collected stays when a lookup throws.\<close>

fun collect_hints :: "history_env \<Rightarrow> GenericHistoryPlugin \<Rightarrow> Attribute list \<Rightarrow> Attribute list \<Rightarrow> unit result \<times> Attribute list" where
  "collect_hints E gh [] acc = (Inr (), sort_key attr_id acc)"
| "collect_hints E gh (x # xs) acc =
     (case he_lookup_attribute_by_ID E (attr_id x) of
        Inl e \<Rightarrow> (Inl e, acc)
      | Inr _ \<Rightarrow> collect_hints E gh xs (if map_of (gh_hintTypes gh) (attr_id x) \<noteq> None then acc @ [x] else acc))"

definition rememberHints :: "history_env \<Rightarrow> GenericHistoryPlugin \<Rightarrow> Activity \<Rightarrow> unit result \<times> Attribute list" where
  "rememberHints E gh a = collect_hints E gh (rev (a_attributeArray a)) []"

text \<open>\<open>operator==\<close> on vectors of attributes.\<close>

definition hints_eq :: "Attribute list \<Rightarrow> Attribute list \<Rightarrow> bool" where
  "hints_eq xs ys \<longleftrightarrow> list_all2 attribute_eq xs ys"

definition mean_step :: "int \<Rightarrow> float64 \<Rightarrow> float64 \<Rightarrow> float64" where
  "mean_step n avg x = f64_div (f64_add (f64_mul avg (f64_of_int n)) x) (f64_of_int (n + 1))"

definition record_access :: "Attribute list \<Rightarrow> float64 \<Rightarrow> HintPerformance list \<Rightarrow> HintPerformance list outcome" where
  "record_access hints perf hist =
     (case find (\<lambda>i. hints_eq (hp_hints (hist ! i)) hints) (rev [0..<length hist]) of
        None \<Rightarrow> Inr (hist @ [\<lparr>hp_hints = hints, hp_measurementCount = 1, hp_averagePerformance = perf\<rparr>])
      | Some i \<Rightarrow>
          let e = hist ! i
          in bindr (add_signed 32 (hp_measurementCount e) 1) (\<lambda>n.
             Inr (hist[i := e \<lparr>hp_averagePerformance := mean_step (hp_measurementCount e) (hp_averagePerformance e) perf,
                               hp_measurementCount := n\<rparr>])))"

definition notify_access :: "Activity \<Rightarrow> GenericHistoryPlugin \<Rightarrow> GenericHistoryPlugin outcome" where
  "notify_access a gh =
     (case findCurrentHints gh a of
        None \<Rightarrow> Inr gh
      | Some (_, curHints) \<Rightarrow>
          bindr (recordPerformance gh a) (\<lambda>perf.
          bindr (record_access curHints perf (gh_performanceHistory gh)) (\<lambda>hist. Inr (gh \<lparr>gh_performanceHistory := hist\<rparr>))))"

definition notify_open :: "history_env \<Rightarrow> ActivityID \<Rightarrow> Activity \<Rightarrow> GenericHistoryPlugin \<Rightarrow> unit result \<times> GenericHistoryPlugin" where
  "notify_open E key a gh =
     (case rememberHints E gh a of (r, hints) \<Rightarrow> (r, gh \<lparr>gh_openFileHints := (gh_openFileHints gh)(key \<mapsto> hints)\<rparr>))"

text \<open>\<open>Notify\<close> of an initialised plugin: an exception leaves it with what was done before, a failed assertion ends the program.\<close>

definition dispatch_token ::
  "history_env \<Rightarrow> TokenType \<Rightarrow> Activity \<Rightarrow> GenericHistoryPlugin \<Rightarrow> (unit result \<times> GenericHistoryPlugin) outcome" where
  "dispatch_token E t a gh =
     (case t of
        OPEN \<Rightarrow> Inr (notify_open E (a_aid a) a gh)
      | ACCESS \<Rightarrow> bindr (notify_access a gh) (\<lambda>gh1. Inr (Inr (), gh1))
      | CLOSE \<Rightarrow> Inr (Inr (), (case findCurrentHints gh a of None \<Rightarrow> gh
            | Some (key, _) \<Rightarrow> gh \<lparr>gh_openFileHints := (gh_openFileHints gh)(key := None)\<rparr>))
      | HINT \<Rightarrow> Inr (case findCurrentHints gh a of None \<Rightarrow> (Inr (), gh) | Some (key, _) \<Rightarrow> notify_open E key a gh)
      | UNKNOWN \<Rightarrow> Inr (Inr (), gh))"

definition notify_initialised ::
  "history_env \<Rightarrow> Activity \<Rightarrow> GenericHistoryPlugin \<Rightarrow> (unit result \<times> GenericHistoryPlugin) outcome" where
  "notify_initialised E a gh =
     (let t = (case gh_types gh (a_ucaid a) of None \<Rightarrow> UNKNOWN | Some t \<Rightarrow> t)
      in bindr (add_signed 32 (gh_nTypes gh t) 1) (\<lambda>n.
         bindr (dispatch_token E t a (gh \<lparr>gh_nTypes := (gh_nTypes gh)(t := n)\<rparr>)) (\<lambda>(r, gh1).
         Inr (case r of Inl e \<Rightarrow> (Inl e, gh1) | Inr _ \<Rightarrow> (Inr (), gh1 \<lparr>gh_lastActionType := t\<rparr>)))))"

section \<open>Initialisation\<close>

text \<open>
  \<open>initPlugin\<close> goes through its levels in order, starting with the one at which an earlier attempt stopped. A token or
  attribute that cannot be looked up is skipped; only an unknown interface and the attribute of the user id
  end the attempt. \<open>catch\<close> takes every exception, a failed assertion is none.
\<close>

definition caught :: "'a result \<Rightarrow> 's \<Rightarrow> ('a \<Rightarrow> 's) \<Rightarrow> 's outcome" where
  "caught r s f = (case r of Inr x \<Rightarrow> Inr (f x) | Inl (Fatal e) \<Rightarrow> Inl e | Inl _ \<Rightarrow> Inr s)"

definition learn_token :: "history_env \<Rightarrow> TokenType \<Rightarrow> string \<Rightarrow> GenericHistoryPlugin \<Rightarrow> GenericHistoryPlugin outcome" where
  "learn_token E t name gh =
     caught (he_lookup_activityID E (gh_uiid gh) name) gh (\<lambda>i. gh \<lparr>gh_types := (gh_types gh)(i \<mapsto> t)\<rparr>)"

definition learn_access :: "history_env \<Rightarrow> string \<times> string \<times> string \<Rightarrow> GenericHistoryPlugin \<Rightarrow> GenericHistoryPlugin outcome" where
  "learn_access E tok gh =
     (case tok of (name, domain, attribute) \<Rightarrow>
        case he_lookup_activityID E (gh_uiid gh) name of
          Inl (Fatal e) \<Rightarrow> Inl e
        | Inl _ \<Rightarrow> Inr gh
        | Inr i \<Rightarrow>
            let gh1 = gh \<lparr>gh_types := (gh_types gh)(i \<mapsto> ACCESS)\<rparr>
            in caught (he_lookup_attribute_by_name E domain attribute) gh1
                 (\<lambda>oa. gh1 \<lparr>gh_performanceAttIDs := (gh_performanceAttIDs gh1)(i \<mapsto> oa_aID oa)\<rparr>))"

definition learn_hint :: "history_env \<Rightarrow> string \<times> string \<Rightarrow> GenericHistoryPlugin \<Rightarrow> GenericHistoryPlugin outcome" where
  "learn_hint E att gh =
     caught (he_lookup_attribute_by_name E (fst att) (snd att)) gh
       (\<lambda>oa. gh \<lparr>gh_hintTypes := AList.update (oa_aID oa) (oa_storage_type oa) (gh_hintTypes gh)\<rparr>)"

definition claim_hint :: "history_env \<Rightarrow> string \<times> string \<Rightarrow> expert \<Rightarrow> expert outcome" where
  "claim_hint E att ex =
     (case he_lookup_attribute_by_name E (fst att) (snd att) of
        Inl (Fatal e) \<Rightarrow> Inl e
      | Inl _ \<Rightarrow> Inr ex
      | Inr oa \<Rightarrow> bindr (opt_registerPlugin (oa_aID oa) (Some (he_this E)) ex) (\<lambda>(_, ex1). Inr ex1))"

text \<open>One level: the new state of plugin and optimizer, and whether the next level follows.\<close>

definition init_level ::
  "history_env \<Rightarrow> int \<Rightarrow> GenericHistoryPlugin \<times> expert \<Rightarrow> (bool \<times> GenericHistoryPlugin \<times> expert) outcome" where
  "init_level E l st =
     (case st of (gh, ex) \<Rightarrow>
      let ops = he_options E;
          next_level = (\<lambda>gh1. Inr (True, gh1 \<lparr>gh_initLevel := l + 1\<rparr>, ex))
      in if l = 0 then next_level gh
         else if l = 1 then
           (case he_lookup_interfaceID E (go_interface ops) (go_implementation ops) of
              Inl (Fatal e) \<Rightarrow> Inl e
            | Inl _ \<Rightarrow> Inr (False, gh, ex)
            | Inr i \<Rightarrow> next_level (gh \<lparr>gh_uiid := i\<rparr>))
         else if l = 2 then bindr (fold_outcome (learn_token E OPEN) (go_openTokens ops) gh) next_level
         else if l = 3 then
           bindr (check_that (length (go_accessTokens ops) = length (go_accessRelevantOntologyAttributes ops))
             ''o.accessTokens.size() == o.accessRelevantOntologyAttributes.size()'') (\<lambda>_.
           bindr (fold_outcome (learn_access E) (zip (go_accessTokens ops) (go_accessRelevantOntologyAttributes ops)) gh) next_level)
         else if l = 4 then bindr (fold_outcome (learn_token E CLOSE) (go_closeTokens ops) gh) next_level
         else if l = 5 then bindr (fold_outcome (learn_token E HINT) (go_hintTokens ops) gh) next_level
         else if l = 6 then bindr (fold_outcome (learn_hint E) (go_hintAttributes ops) gh) next_level
         else if l = 7 then
           bindr (fold_outcome (claim_hint E) (go_hintAttributes ops) ex) (\<lambda>ex1. Inr (True, gh \<lparr>gh_initLevel := 8\<rparr>, ex1))
         else if l = 8 then
           (case he_lookup_attribute_by_name E ''program'' ''description/user-id'' of
              Inl (Fatal e) \<Rightarrow> Inl e
            | Inl _ \<Rightarrow> Inr (False, gh, ex)
            | Inr oa \<Rightarrow> next_level (gh \<lparr>gh_uidAttID := oa_aID oa, gh_catchall := True\<rparr>))
         else Inr (True, gh, ex))"

fun init_levels :: "history_env \<Rightarrow> int list \<Rightarrow> GenericHistoryPlugin \<times> expert \<Rightarrow> (GenericHistoryPlugin \<times> expert) outcome" where
  "init_levels E [] (gh, ex) = Inr (gh \<lparr>gh_initLevel := - 1\<rparr>, ex)"
| "init_levels E (l # ls) st =
     bindr (init_level E l st) (\<lambda>(go_on, st1). if go_on then init_levels E ls st1 else Inr st1)"

definition initPlugin :: "history_env \<Rightarrow> GenericHistoryPlugin \<times> expert \<Rightarrow> (GenericHistoryPlugin \<times> expert) outcome" where
  "initPlugin E st = init_levels E (filter (\<lambda>l. 0 \<le> gh_initLevel (fst st) \<and> gh_initLevel (fst st) \<le> l) [0, 1, 2, 3, 4, 5, 6, 7, 8]) st"

definition tryEnsureInitialization ::
  "history_env \<Rightarrow> GenericHistoryPlugin \<times> expert \<Rightarrow> (bool \<times> GenericHistoryPlugin \<times> expert) outcome" where
  "tryEnsureInitialization E st =
     (if gh_initLevel (fst st) = - 1 then Inr (True, st)
      else if gh_initLevel (fst st) = 0 then Inr (False, st)
      else bindr (initPlugin E st) (\<lambda>st1. Inr (gh_initLevel (fst st1) = - 1, st1)))"

definition history_Notify ::
  "history_env \<Rightarrow> Activity \<Rightarrow> GenericHistoryPlugin \<times> expert \<Rightarrow> (unit result \<times> GenericHistoryPlugin \<times> expert) outcome" where
  "history_Notify E a st =
     bindr (tryEnsureInitialization E st) (\<lambda>(ok, gh, ex).
     if \<not> ok then Inr (Inr (), gh, ex)
     else bindr (notify_initialised E a gh) (\<lambda>(r, gh1). Inr (r, gh1, ex)))"

text \<open>The destructor.\<close>

definition history_dtor :: "history_env \<Rightarrow> GenericHistoryPlugin \<Rightarrow> expert \<Rightarrow> expert" where
  "history_dtor E gh ex = fold (\<lambda>e. \<lambda>ex. snd (opt_unregisterPlugin (fst e) (Some (he_this E)) ex)) (gh_hintTypes gh) ex"

section \<open>Suggestions\<close>

text \<open>The loop over the history, the last entry first, without the entry 0 that it starts with.\<close>

definition better_choice :: "HintPerformance \<Rightarrow> HintPerformance \<times> HintPerformance \<Rightarrow> HintPerformance \<times> HintPerformance" where
  "better_choice e c =
     (if hp_measurementCount e < hp_measurementCount (fst c) then e else fst c,
      if f64_lt (hp_averagePerformance (snd c)) (hp_averagePerformance e) then e else snd c)"

definition choose_hints :: "HintPerformance list \<Rightarrow> HintPerformance" where
  "choose_hints hist =
     (case fold better_choice (rev (tl hist)) (hd hist, hd hist) of (leastMeasurements, maxPerformance) \<Rightarrow>
        if hp_measurementCount leastMeasurements < 5 then leastMeasurements else maxPerformance)"

definition history_optimalParameter :: "GenericHistoryPlugin \<Rightarrow> OntologyAttributeID \<Rightarrow> OntologyValue result" where
  "history_optimalParameter gh aid =
     (if gh_initLevel gh \<noteq> - 1 \<or> gh_lastActionType gh = HINT \<or> gh_performanceHistory gh = [] then Inl not_found
      else case find (\<lambda>h. attr_id h = aid) (rev (hp_hints (choose_hints (gh_performanceHistory gh)))) of
             None \<Rightarrow> Inl not_found
           | Some h \<Rightarrow> Inr (attr_value h))"

definition history_optimalParameterFor :: "GenericHistoryPlugin \<Rightarrow> OntologyAttributeID \<Rightarrow> Activity \<Rightarrow> OntologyValue result" where
  "history_optimalParameterFor gh aid activityToStart = history_optimalParameter gh aid"

definition history_finalize :: "GenericHistoryPlugin \<Rightarrow> GenericHistoryPlugin" where
  "history_finalize gh = gh \<lparr>gh_catchall := False\<rparr>"

section \<open>The history is exact\<close>

text \<open>Values that \<open>operator==\<close> finds equal to themselves.\<close>

definition clean :: "Attribute list \<Rightarrow> bool" where
  "clean xs \<longleftrightarrow> (\<forall>x \<in> set xs. vd_eq (attr_value x) (attr_value x))"

lemma attribute_eq_iff: "attribute_eq x y \<longleftrightarrow> attr_id x = attr_id y \<and> vd_eq (attr_value x) (attr_value y)"
  by (auto simp: attribute_eq_def vd_ne_def vd_eq_sym)

lemma hints_eq_refl: "clean xs \<Longrightarrow> hints_eq xs xs"
  by (simp add: hints_eq_def clean_def list_all2_same attribute_eq_iff)

lemma hints_eq_sym: "hints_eq xs ys \<longleftrightarrow> hints_eq ys xs"
  by (auto simp: hints_eq_def list_all2_conv_all_nth attribute_eq_iff vd_eq_sym)

lemma hints_eq_trans: "hints_eq xs ys \<Longrightarrow> hints_eq ys zs \<Longrightarrow> hints_eq xs zs"
  unfolding hints_eq_def by (rule list_all2_trans [of attribute_eq attribute_eq]) (auto simp: attribute_eq_iff intro: vd_eq_trans)

text \<open>The reference: the number of measurements and their running mean.\<close>

definition running_step :: "float64 \<Rightarrow> int \<times> float64 \<Rightarrow> int \<times> float64" where
  "running_step x s = (if fst s = 0 then (1, x) else (fst s + 1, mean_step (fst s) (snd s) x))"

definition running :: "float64 list \<Rightarrow> int \<times> float64" where
  "running ps = fold running_step ps (0, 0)"

definition measured_under :: "Attribute list \<Rightarrow> (Attribute list \<times> float64) list \<Rightarrow> float64 list" where
  "measured_under h xs = map snd (filter (\<lambda>x. hints_eq h (fst x)) xs)"

definition entry_exact :: "(Attribute list \<times> float64) list \<Rightarrow> HintPerformance \<Rightarrow> bool" where
  "entry_exact xs e \<longleftrightarrow> clean (hp_hints e) \<and> measured_under (hp_hints e) xs \<noteq> [] \<and>
     running (measured_under (hp_hints e) xs) = (hp_measurementCount e, hp_averagePerformance e)"

definition history_exact :: "(Attribute list \<times> float64) list \<Rightarrow> HintPerformance list \<Rightarrow> bool" where
  "history_exact xs hist \<longleftrightarrow>
     (\<forall>i j. i < length hist \<longrightarrow> j < length hist \<longrightarrow> hints_eq (hp_hints (hist ! i)) (hp_hints (hist ! j)) \<longrightarrow> i = j) \<and>
     (\<forall>x \<in> set xs. \<exists>i < length hist. hints_eq (hp_hints (hist ! i)) (fst x)) \<and>
     (\<forall>i < length hist. entry_exact xs (hist ! i))"

lemma history_exactD:
  assumes "history_exact xs hist"
  shows "i < length hist \<Longrightarrow> j < length hist \<Longrightarrow> hints_eq (hp_hints (hist ! i)) (hp_hints (hist ! j)) \<Longrightarrow> i = j"
    and "x \<in> set xs \<Longrightarrow> \<exists>i < length hist. hints_eq (hp_hints (hist ! i)) (fst x)"
    and "i < length hist \<Longrightarrow> entry_exact xs (hist ! i)"
  using assms unfolding history_exact_def by blast+

lemma running_count: "fst (running ps) = int (length ps)"
proof -
  have "0 \<le> fst s \<Longrightarrow> fst (fold running_step ps s) = fst s + int (length ps)" for s
    by (induction ps arbitrary: s) (auto simp: running_step_def)
  then show ?thesis by (simp add: running_def)
qed

lemma running_append: "running (ps @ [p]) = running_step p (running ps)"
  by (simp add: running_def)

lemma measured_append: "measured_under h (xs @ [(k, p)]) = measured_under h xs @ (if hints_eq h k then [p] else [])"
  by (simp add: measured_under_def)

lemma record_access_cases:
  assumes "record_access h p hist = Inr hist'"
  obtains "\<forall>e \<in> set hist. \<not> hints_eq (hp_hints e) h"
      "hist' = hist @ [\<lparr>hp_hints = h, hp_measurementCount = 1, hp_averagePerformance = p\<rparr>]"
    | i where "i < length hist" "hints_eq (hp_hints (hist ! i)) h"
      "hist' = hist[i := (hist ! i) \<lparr>hp_averagePerformance := mean_step (hp_measurementCount (hist ! i)) (hp_averagePerformance (hist ! i)) p,
          hp_measurementCount := hp_measurementCount (hist ! i) + 1\<rparr>]"
proof (cases "find (\<lambda>i. hints_eq (hp_hints (hist ! i)) h) (rev [0..<length hist])")
  case None
  then have "\<forall>e \<in> set hist. \<not> hints_eq (hp_hints e) h" by (auto simp: find_None_iff in_set_conv_nth)
  then show ?thesis using that(1) assms None by (simp add: record_access_def)
next
  case (Some i)
  then obtain k where k: "k < length (rev [0..<length hist])" "i = rev [0..<length hist] ! k" "hints_eq (hp_hints (hist ! i)) h"
    unfolding find_Some_iff by blast
  have "i \<in> set (rev [0..<length hist])" unfolding k(2) by (rule nth_mem [OF k(1)])
  with k(3) show ?thesis using that(2) [of i] assms Some
    by (auto simp: record_access_def Let_def bindr_Inr_iff add_signed_def split: if_splits)
qed

lemma history_exact_new:
  assumes ex: "history_exact xs hist" and h: "clean h" and new: "\<forall>e \<in> set hist. \<not> hints_eq (hp_hints e) h"
    and e: "e = \<lparr>hp_hints = h, hp_measurementCount = 1, hp_averagePerformance = p\<rparr>"
  shows "history_exact (xs @ [(h, p)]) (hist @ [e])"
proof -
  have old: "\<not> hints_eq (hp_hints (hist ! i)) h" "\<not> hints_eq h (hp_hints (hist ! i))" if "i < length hist" for i
    using new that hints_eq_sym nth_mem by blast+
  have "\<not> hints_eq h (fst x)" if "x \<in> set xs" for x
    using history_exactD(2) [OF ex that] old(1) hints_eq_trans hints_eq_sym by blast
  then have none: "measured_under h xs = []" by (simp add: measured_under_def filter_empty_conv)
  have "entry_exact (xs @ [(h, p)]) e"
    using h none hints_eq_refl [OF h] by (simp add: e entry_exact_def measured_append running_def running_step_def)
  moreover have "entry_exact (xs @ [(h, p)]) (hist ! i)" if "i < length hist" for i
    using history_exactD(3) [OF ex that] old(1) [OF that] by (simp add: entry_exact_def measured_append)
  moreover have "\<exists>i < Suc (length hist). hints_eq (hp_hints ((hist @ [e]) ! i)) (fst x)" if "x \<in> set xs" for x
    using history_exactD(2) [OF ex that] by (metis less_SucI nth_append_left)
  moreover have "i = j" if "i < Suc (length hist)" "j < Suc (length hist)"
    "hints_eq (hp_hints ((hist @ [e]) ! i)) (hp_hints ((hist @ [e]) ! j))" for i j
    using that old history_exactD(1) [OF ex, of i j] by (auto simp: nth_append less_Suc_eq e)
  moreover have "hints_eq (hp_hints ((hist @ [e]) ! length hist)) h" using hints_eq_refl [OF h] by (simp add: e)
  ultimately show ?thesis unfolding history_exact_def by (auto simp: nth_append less_Suc_eq)
qed

lemma history_exact_again:
  assumes ex: "history_exact xs hist" and i: "i < length hist" "hints_eq (hp_hints (hist ! i)) h"
    and e: "e = (hist ! i) \<lparr>hp_averagePerformance := mean_step (hp_measurementCount (hist ! i)) (hp_averagePerformance (hist ! i)) p,
          hp_measurementCount := hp_measurementCount (hist ! i) + 1\<rparr>"
  shows "history_exact (xs @ [(h, p)]) (hist[i := e])"
proof -
  have hints: "hp_hints (hist[i := e] ! j) = hp_hints (hist ! j)" for j
    using i(1) by (cases "i = j") (simp_all add: e)
  have other: "\<not> hints_eq (hp_hints (hist ! j)) h" if "j < length hist" "j \<noteq> i" for j
    using history_exactD(1) [OF ex that(1) i(1)] that i(2) hints_eq_trans hints_eq_sym by blast
  have r: "entry_exact xs (hist ! i)" by (rule history_exactD(3) [OF ex i(1)])
  then have "hp_measurementCount (hist ! i) \<noteq> 0"
    using running_count [of "measured_under (hp_hints (hist ! i)) xs"] by (simp add: entry_exact_def)
  then have "entry_exact (xs @ [(h, p)]) e"
    using r i(2) by (simp add: entry_exact_def e measured_append running_append running_step_def)
  moreover have "entry_exact (xs @ [(h, p)]) (hist ! j)" if "j < length hist" "j \<noteq> i" for j
    using history_exactD(3) [OF ex that(1)] other [OF that] by (simp add: entry_exact_def measured_append)
  ultimately have "entry_exact (xs @ [(h, p)]) (hist[i := e] ! j)" if "j < length hist" for j
    using that i(1) by (cases "j = i") simp_all
  then show ?thesis using history_exactD(1,2) [OF ex] i unfolding history_exact_def hints length_list_update by auto
qed

lemma history_exact_record:
  assumes "history_exact xs hist" and "clean h" and "record_access h p hist = Inr hist'"
  shows "history_exact (xs @ [(h, p)]) hist'"
  using assms(3) by (cases rule: record_access_cases) (use history_exact_new [OF assms(1,2)] history_exact_again [OF assms(1)] in auto)

section \<open>Sequences of activities\<close>

definition token_of :: "GenericHistoryPlugin \<Rightarrow> Activity \<Rightarrow> TokenType" where
  "token_of gh a = (case gh_types gh (a_ucaid a) of None \<Rightarrow> UNKNOWN | Some t \<Rightarrow> t)"

text \<open>A listener that is called for one activity after the other; exceptions are left to the caller.\<close>

fun history_run :: "history_env \<Rightarrow> Activity list \<Rightarrow> GenericHistoryPlugin \<Rightarrow> GenericHistoryPlugin outcome" where
  "history_run E [] gh = Inr gh"
| "history_run E (a # as) gh = bindr (notify_initialised E a gh) (\<lambda>(_, gh1). history_run E as gh1)"

text \<open>What is measured on the way: the accesses to files that are open, with the hints then in force.\<close>

definition measured :: "GenericHistoryPlugin \<Rightarrow> Activity \<Rightarrow> (Attribute list \<times> float64) list" where
  "measured gh a =
     (case (token_of gh a, findCurrentHints gh a, recordPerformance gh a) of
        (ACCESS, Some (_, h), Inr p) \<Rightarrow> [(h, p)]
      | _ \<Rightarrow> [])"

fun measurements :: "history_env \<Rightarrow> Activity list \<Rightarrow> GenericHistoryPlugin \<Rightarrow> (Attribute list \<times> float64) list" where
  "measurements E [] gh = []"
| "measurements E (a # as) gh =
     measured gh a @ (case notify_initialised E a gh of Inl e \<Rightarrow> [] | Inr (_, gh1) \<Rightarrow> measurements E as gh1)"

definition clean_open :: "GenericHistoryPlugin \<Rightarrow> bool" where
  "clean_open gh \<longleftrightarrow> (\<forall>k h. gh_openFileHints gh k = Some h \<longrightarrow> clean h)"

lemma collect_hints_subset:
  assumes "collect_hints E gh xs acc = (r, hs)"
  shows "set hs \<subseteq> set acc \<union> set xs"
  using assms by (induction xs arbitrary: acc) (fastforce split: sum.splits if_splits)+

lemma rememberHints_clean: "clean (a_attributeArray a) \<Longrightarrow> rememberHints E gh a = (r, hs) \<Longrightarrow> clean hs"
  using collect_hints_subset [of E gh "rev (a_attributeArray a)" "[]" r hs] by (auto simp: rememberHints_def clean_def)

lemma notify_open_frame:
  assumes "notify_open E k a gh = (r, gh')" and "clean_open gh" and "clean (a_attributeArray a)"
  shows "clean_open gh'" and "gh_performanceHistory gh' = gh_performanceHistory gh"
  using assms rememberHints_clean [OF assms(3)] by (auto simp: notify_open_def clean_open_def split: prod.splits if_splits)

lemma findCurrentHints_clean: "clean_open gh \<Longrightarrow> findCurrentHints gh a = Some (k, h) \<Longrightarrow> clean h"
  by (auto simp: findCurrentHints_def clean_open_def find_Some_iff split: option.splits)

lemma dispatch_exact:
  assumes "dispatch_token E t a gh = Inr (r, gh')" and "clean_open gh" and "clean (a_attributeArray a)" and "history_exact xs (gh_performanceHistory gh)"
  shows "clean_open gh' \<and> history_exact (xs @ (case (t, findCurrentHints gh a, recordPerformance gh a) of
        (ACCESS, Some (_, h), Inr p) \<Rightarrow> [(h, p)] | _ \<Rightarrow> [])) (gh_performanceHistory gh')"
proof (cases t)
  case OPEN
  then show ?thesis using assms notify_open_frame [OF _ assms(2,3)] by (auto simp: dispatch_token_def)
next
  case ACCESS
  show ?thesis
  proof (cases "findCurrentHints gh a")
    case None
    then show ?thesis using ACCESS assms by (simp add: dispatch_token_def notify_access_def)
  next
    case (Some kh)
    obtain k h where kh: "kh = (k, h)" by (cases kh)
    then obtain p hist where "recordPerformance gh a = Inr p" "record_access h p (gh_performanceHistory gh) = Inr hist"
      "gh' = gh \<lparr>gh_performanceHistory := hist\<rparr>"
      using ACCESS Some assms(1) by (auto simp: dispatch_token_def notify_access_def bindr_Inr_iff)
    then show ?thesis using ACCESS Some kh assms(2,4) history_exact_record [OF assms(4) findCurrentHints_clean [OF assms(2)]]
      by (simp add: clean_open_def)
  qed
next
  case CLOSE
  then show ?thesis using assms by (auto simp: dispatch_token_def clean_open_def split: option.splits if_splits)
next
  case HINT
  then show ?thesis using assms notify_open_frame [OF _ assms(2,3)] by (auto simp: dispatch_token_def split: option.splits)
next
  case UNKNOWN
  then show ?thesis using assms by (simp add: dispatch_token_def)
qed

lemma notify_exact:
  assumes run: "notify_initialised E a gh = Inr (r, gh')" and "clean_open gh" and "clean (a_attributeArray a)"
    and "history_exact xs (gh_performanceHistory gh)"
  shows "clean_open gh' \<and> history_exact (xs @ measured gh a) (gh_performanceHistory gh')"
proof -
  obtain n where n: "add_signed 32 (gh_nTypes gh (token_of gh a)) 1 = Inr n"
    using run by (auto simp: notify_initialised_def token_of_def Let_def bindr_Inr_iff)
  define gh1 where "gh1 = gh \<lparr>gh_nTypes := (gh_nTypes gh)(token_of gh a := n)\<rparr>"
  obtain r2 gh2 where d: "dispatch_token E (token_of gh a) a gh1 = Inr (r2, gh2)"
    and r2: "(case r2 of Inl e \<Rightarrow> (Inl e, gh2) | Inr _ \<Rightarrow> (Inr (), gh2 \<lparr>gh_lastActionType := token_of gh a\<rparr>)) = (r, gh')"
    using run n unfolding notify_initialised_def token_of_def [symmetric] by (auto simp: gh1_def Let_def bindr_Inr_iff)
  have gh': "gh_openFileHints gh' = gh_openFileHints gh2" "gh_performanceHistory gh' = gh_performanceHistory gh2"
    using r2 by (auto split: sum.splits)
  have same: "clean_open gh1" "history_exact xs (gh_performanceHistory gh1)"
    "findCurrentHints gh1 a = findCurrentHints gh a" "recordPerformance gh1 a = recordPerformance gh a"
    using assms by (simp_all add: gh1_def clean_open_def findCurrentHints_def recordPerformance_def split: option.split)
  show ?thesis using dispatch_exact [OF d same(1) assms(3) same(2)] gh' same(3,4) by (simp add: clean_open_def measured_def)
qed

lemma history_run_exact:
  assumes "history_run E as gh = Inr gh'" and "clean_open gh" and "\<forall>a \<in> set as. clean (a_attributeArray a)"
    and "history_exact xs (gh_performanceHistory gh)"
  shows "history_exact (xs @ measurements E as gh) (gh_performanceHistory gh')"
  using assms
proof (induction "as" arbitrary: gh xs)
  case (Cons a "as")
  then obtain r gh1 where a: "notify_initialised E a gh = Inr (r, gh1)" "history_run E as gh1 = Inr gh'"
    by (auto simp: bindr_Inr_iff)
  then show ?case using notify_exact [OF a(1), of xs] Cons.IH [of gh1 "xs @ measured gh a"] Cons.prems by simp
qed simp

section \<open>The choice\<close>

lemma choose_least:
  assumes "fold better_choice es c = (l, m)"
  shows "l \<in> insert (fst c) (set es)" and "\<forall>e \<in> insert (fst c) (set es). hp_measurementCount l \<le> hp_measurementCount e"
    and "m \<in> insert (snd c) (set es)"
  using assms
proof (induction es arbitrary: c)
  case (Cons e es)
  { case 1 then show ?case using Cons.IH(1) [of "better_choice e c"] by (auto simp: better_choice_def split: if_splits)
  next
    case 2 then show ?case using Cons.IH(2) [of "better_choice e c"] by (auto simp: better_choice_def split: if_splits)
  next
    case 3 then show ?case using Cons.IH(3) [of "better_choice e c"] by (auto simp: better_choice_def split: if_splits) }
qed simp_all

definition f64_key :: "float64 \<Rightarrow> int" where
  "f64_key a = the (fp_key 53 11 (unat a))"

lemma f64_lt_key: "\<not> f64_nan a \<Longrightarrow> \<not> f64_nan b \<Longrightarrow> f64_lt a b \<longleftrightarrow> f64_key a < f64_key b"
  by (auto simp: f64_nan_def f64_lt_def fp_lt_def fp_is_nan_def f64_key_def)

abbreviation perf_key :: "HintPerformance \<Rightarrow> int" where
  "perf_key e \<equiv> f64_key (hp_averagePerformance e)"

lemma choose_best:
  assumes "fold better_choice es c = (l, m)" and "\<forall>e \<in> insert (snd c) (set es). \<not> f64_nan (hp_averagePerformance e)"
  shows "\<forall>e \<in> insert (snd c) (set es). perf_key e \<le> perf_key m"
  using assms
proof (induction es arbitrary: c)
  case (Cons e es)
  let ?c = "better_choice e c"
  have better: "snd ?c = (if perf_key (snd c) < perf_key e then e else snd c)"
    using Cons.prems(2) by (simp add: better_choice_def f64_lt_key)
  have "\<forall>x \<in> insert (snd ?c) (set es). perf_key x \<le> perf_key m"
    using Cons.IH [of ?c] Cons.prems by (simp add: better)
  then show ?case by (auto simp: better split: if_splits)
qed simp

lemma choose_hints_spec:
  assumes "hist \<noteq> []"
  shows "choose_hints hist \<in> set hist"
    and "\<exists>e \<in> set hist. hp_measurementCount e < 5 \<Longrightarrow> e \<in> set hist \<Longrightarrow> hp_measurementCount (choose_hints hist) \<le> hp_measurementCount e"
    and "\<forall>e \<in> set hist. 5 \<le> hp_measurementCount e \<and> \<not> f64_nan (hp_averagePerformance e) \<Longrightarrow> e \<in> set hist \<Longrightarrow>
      \<not> f64_lt (hp_averagePerformance (choose_hints hist)) (hp_averagePerformance e)"
proof -
  obtain l m where f: "fold better_choice (rev (tl hist)) (hd hist, hd hist) = (l, m)" by fastforce
  have set: "insert (hd hist) (set (rev (tl hist))) = set hist" using assms by (cases hist) auto
  note least = choose_least [OF f, simplified fst_conv snd_conv set] and best = choose_best [OF f, simplified snd_conv set]
  have ch: "choose_hints hist = (if hp_measurementCount l < 5 then l else m)" by (simp add: choose_hints_def f)
  show "choose_hints hist \<in> set hist" using least by (simp add: ch)
  show "hp_measurementCount (choose_hints hist) \<le> hp_measurementCount e"
    if "\<exists>e \<in> set hist. hp_measurementCount e < 5" "e \<in> set hist" for e
    using least that by (auto simp: ch)
  show "\<not> f64_lt (hp_averagePerformance (choose_hints hist)) (hp_averagePerformance e)"
    if "\<forall>e \<in> set hist. 5 \<le> hp_measurementCount e \<and> \<not> f64_nan (hp_averagePerformance e)" "e \<in> set hist" for e
    using least best that by (auto simp: ch f64_lt_key not_less)
qed

text \<open>Not a number once, not a number for ever.\<close>

lemma fp_nan_decode: "fp_is_nan p w b \<longleftrightarrow> fp_decode p w b = FNaN"
  by (simp add: fp_is_nan_def fp_key_def split: fval.splits)

lemma f64_nan_bits: "f64_nan (of_nat (fp_nan_bits 53 11))"
proof -
  have "unat (of_nat (fp_nan_bits 53 11) :: float64) = 9221120237041090560"
    by (simp add: fp_nan_bits_def fp_inf_bits_def unsigned_of_nat take_bit_eq_mod)
  then show ?thesis by (simp add: f64_nan_def fp_nan_decode fp_decode_def Let_def)
qed

lemma nan_arith:
  assumes "f64_nan a"
  shows "f64_nan (f64_mul a b)" and "f64_nan (f64_add a b)" and "f64_nan (f64_div a b)"
  using assms f64_nan_bits by (simp_all add: f64_nan_def fp_nan_decode f64_mul_def f64_add_def f64_div_def fp_mul_def fp_add_def fp_div_def)

lemma mean_step_nan: "f64_nan avg \<Longrightarrow> f64_nan (mean_step n avg x)"
  by (simp add: mean_step_def nan_arith)

lemma record_access_head:
  assumes "record_access h p hist = Inr hist'" and "hist \<noteq> []"
  shows "hist' \<noteq> [] \<and> hp_hints (hd hist') = hp_hints (hd hist) \<and>
    (f64_nan (hp_averagePerformance (hd hist)) \<longrightarrow> f64_nan (hp_averagePerformance (hd hist')))"
  using assms(1)
proof (cases rule: record_access_cases)
  case 1
  then show ?thesis using assms(2) by simp
next
  case (2 i)
  then show ?thesis using assms(2) by (cases hist; cases i) (auto simp: mean_step_nan)
qed

lemma choose_nan_head:
  assumes "hist \<noteq> []" and "f64_nan (hp_averagePerformance (hd hist))" and "\<forall>e \<in> set hist. 5 \<le> hp_measurementCount e"
  shows "choose_hints hist = hd hist"
proof -
  have stay: "snd (fold better_choice es c) = snd c" if "f64_nan (hp_averagePerformance (snd c))" for es c
    using that by (induction es arbitrary: c) (simp_all add: better_choice_def f64_nan_def f64_lt_def fp_nan_lt)
  obtain l m where f: "fold better_choice (rev (tl hist)) (hd hist, hd hist) = (l, m)" by fastforce
  have "l \<in> set hist" using choose_least(1) [OF f] assms(1) by (cases hist) auto
  then show ?thesis using assms(2,3) stay [of "(hd hist, hd hist)" "rev (tl hist)"] by (auto simp: choose_hints_def f)
qed

section \<open>Nothing overflows\<close>

definition performance_typed :: "GenericHistoryPlugin \<Rightarrow> Activity \<Rightarrow> bool" where
  "performance_typed gh a \<longleftrightarrow>
     (\<forall>v. find_attribute_in (case gh_performanceAttIDs gh (a_ucaid a) of None \<Rightarrow> 0 | Some i \<Rightarrow> i) (a_attributeArray a) = Some v \<longrightarrow>
        vd_type v = UINT64)"

definition counts_below :: "int \<Rightarrow> GenericHistoryPlugin \<Rightarrow> bool" where
  "counts_below n gh \<longleftrightarrow> (\<forall>t. 0 \<le> gh_nTypes gh t \<and> gh_nTypes gh t \<le> n) \<and>
     (\<forall>e \<in> set (gh_performanceHistory gh). 0 \<le> hp_measurementCount e \<and> hp_measurementCount e \<le> n)"

lemma recordPerformance_total:
  assumes "performance_typed gh a"
  shows "\<exists>p. recordPerformance gh a = Inr p"
proof -
  have "\<exists>n. vd_uint64 v = Inr n" if "vd_type v = UINT64" for v using that by (cases v) simp_all
  then show ?thesis using assms by (fastforce simp: recordPerformance_def performance_typed_def Let_def split: option.split)
qed

lemma add_signed_below: "0 \<le> i \<Longrightarrow> i < 2147483647 \<Longrightarrow> add_signed 32 i 1 = Inr (i + 1)"
  by (simp add: add_signed_def fits_signed_def)

lemma record_access_total:
  assumes "\<forall>e \<in> set hist. 0 \<le> hp_measurementCount e \<and> hp_measurementCount e \<le> n" and "n < 2147483647" and "0 \<le> n"
  shows "\<exists>hist'. record_access h p hist = Inr hist' \<and> (\<forall>e \<in> set hist'. 0 \<le> hp_measurementCount e \<and> hp_measurementCount e \<le> n + 1)"
proof (cases "find (\<lambda>i. hints_eq (hp_hints (hist ! i)) h) (rev [0..<length hist])")
  case None
  then show ?thesis using assms by (auto simp: record_access_def intro: order.trans)
next
  case (Some i)
  then obtain k where k: "k < length (rev [0..<length hist])" "i = rev [0..<length hist] ! k"
    unfolding find_Some_iff by blast
  have "i \<in> set (rev [0..<length hist])" unfolding k(2) by (rule nth_mem [OF k(1)])
  then have "0 \<le> hp_measurementCount (hist ! i) \<and> hp_measurementCount (hist ! i) \<le> n" using assms(1) by simp
  then show ?thesis using assms Some
    by (auto simp: record_access_def Let_def add_signed_below dest!: subsetD [OF set_update_subset_insert])
qed

lemma counts_below_mono: "counts_below n gh \<Longrightarrow> n \<le> m \<Longrightarrow> counts_below m gh"
  unfolding counts_below_def by (meson order.trans)

lemma dispatch_total:
  assumes "counts_below n gh" and "0 \<le> n" and "n < 2147483647" and "performance_typed gh a"
  shows "\<exists>r gh'. dispatch_token E t a gh = Inr (r, gh') \<and> counts_below (n + 1) gh' \<and> gh_performanceAttIDs gh' = gh_performanceAttIDs gh"
proof -
  have up: "counts_below (n + 1) gh" by (rule counts_below_mono [OF assms(1)]) simp
  have open': "\<exists>r gh'. notify_open E k a gh = (r, gh') \<and> counts_below (n + 1) gh' \<and> gh_performanceAttIDs gh' = gh_performanceAttIDs gh" for k
    using up by (auto simp: notify_open_def counts_below_def split: prod.splits)
  show ?thesis
  proof (cases t)
    case ACCESS
    show ?thesis
    proof (cases "findCurrentHints gh a")
      case (Some kh)
      obtain p where p: "recordPerformance gh a = Inr p" using recordPerformance_total [OF assms(4)] by blast
      obtain hist where "record_access (snd kh) p (gh_performanceHistory gh) = Inr hist"
        "\<forall>e \<in> set hist. 0 \<le> hp_measurementCount e \<and> hp_measurementCount e \<le> n + 1"
        using record_access_total [of "gh_performanceHistory gh" n "snd kh" p] assms(1-3) by (auto simp: counts_below_def)
      then show ?thesis using ACCESS Some p up by (cases kh) (simp add: dispatch_token_def notify_access_def counts_below_def)
    qed (use ACCESS up in \<open>simp add: dispatch_token_def notify_access_def\<close>)
  next
    case CLOSE
    then show ?thesis using up by (auto simp: dispatch_token_def counts_below_def split: option.splits)
  qed (use up open' in \<open>auto simp: dispatch_token_def split: option.splits\<close>)
qed

lemma notify_total:
  assumes "counts_below n gh" and "0 \<le> n" and "n < 2147483646" and "performance_typed gh a"
  shows "\<exists>r gh'. notify_initialised E a gh = Inr (r, gh') \<and> counts_below (n + 2) gh' \<and> gh_performanceAttIDs gh' = gh_performanceAttIDs gh"
proof -
  let ?t = "token_of gh a"
  let ?gh = "gh \<lparr>gh_nTypes := (gh_nTypes gh)(?t := gh_nTypes gh ?t + 1)\<rparr>"
  have n: "add_signed 32 (gh_nTypes gh ?t) 1 = Inr (gh_nTypes gh ?t + 1)"
    using assms(1,3) by (intro add_signed_below) (auto simp: counts_below_def intro: order.strict_trans1)
  have "counts_below (n + 1) gh" by (rule counts_below_mono [OF assms(1)]) simp
  moreover have "0 \<le> gh_nTypes gh ?t" "gh_nTypes gh ?t \<le> n" using assms(1) by (simp_all add: counts_below_def)
  ultimately have "counts_below (n + 1) ?gh" by (simp add: counts_below_def)
  then obtain r gh1 where d: "dispatch_token E ?t a ?gh = Inr (r, gh1)" "counts_below (n + 2) gh1"
    "gh_performanceAttIDs gh1 = gh_performanceAttIDs gh"
    using dispatch_total [of "n + 1" ?gh a E ?t] assms(2-4) by (auto simp: performance_typed_def add.assoc)
  show ?thesis unfolding notify_initialised_def token_of_def [symmetric] using n d
    by (cases r) (simp_all add: Let_def counts_below_def)
qed

lemma history_run_total:
  assumes "counts_below n gh" and "0 \<le> n" and "n + 2 * int (length as) < 2147483648" and "\<forall>a \<in> set as. performance_typed gh a"
  shows "\<exists>gh'. history_run E as gh = Inr gh'"
  using assms
proof (induction "as" arbitrary: gh n)
  case (Cons a "as")
  obtain r gh1 where a: "notify_initialised E a gh = Inr (r, gh1)" "counts_below (n + 2) gh1" "gh_performanceAttIDs gh1 = gh_performanceAttIDs gh"
    using notify_total [of n gh a E] Cons.prems by auto
  then show ?case using Cons.IH [of "n + 2" gh1] Cons.prems by (auto simp: performance_typed_def)
qed simp

section \<open>Properties\<close>


definition demo_history :: GenericHistoryPlugin where
  "demo_history = GenericHistoryPlugin_new \<lparr>gh_initLevel := - 1, gh_types := [1 \<mapsto> OPEN, 2 \<mapsto> ACCESS],
     gh_performanceAttIDs := [2 \<mapsto> 7], gh_hintTypes := [(5, UINT32)]\<rparr>"

definition demo_env_history :: history_env where
  "demo_env_history = \<lparr>he_options = \<lparr>go_interface = [], go_implementation = [], go_openTokens = [], go_accessTokens = [],
      go_closeTokens = [], go_hintTokens = [], go_accessRelevantOntologyAttributes = [], go_hintAttributes = []\<rparr>,
     he_lookup_interfaceID = (\<lambda>_ _. Inl not_found), he_lookup_activityID = (\<lambda>_ _. Inl not_found),
     he_lookup_attribute_by_name = (\<lambda>_ _. Inl not_found),
     he_lookup_attribute_by_ID = (\<lambda>i. Inr \<lparr>oa_aID = i, oa_storage_type = UINT32, oa_domain = [], oa_name = []\<rparr>), he_this = 1\<rparr>"

definition demo_aid :: "u32 \<Rightarrow> ActivityID" where
  "demo_aid n = ActivityID (ComponentID (ProcessID 1 42 7) 2) n 1"

definition demo_open :: Activity where
  "demo_open = (begun_activity 1 3 (demo_aid 1) []) \<lparr>a_time_stop := 4, a_attributeArray := [Attribute 5 (VUint32 9), Attribute 6 (VUint32 1)]\<rparr>"

definition demo_access :: Activity where
  "demo_access = (begun_activity 2 5 (demo_aid 2) [demo_aid 1]) \<lparr>a_time_stop := 5, a_attributeArray := [Attribute 7 (VUint64 100)]\<rparr>"


text \<open>
  C14 (functional): The suggestion. A value that the plugin suggests for an attribute stands in the hints of one entry of
  its history. While an entry has fewer than five measurements it is one with the fewest measurements, so
  that every set of hints gets its trial; once all have five and all averages are numbers, no entry has a better average.
\<close>

theorem suggestion_is_best:
  assumes "history_optimalParameter gh aid = Inr v"
  shows "\<exists>e \<in> set (gh_performanceHistory gh). Attribute aid v \<in> set (hp_hints e) \<and>
    ((\<exists>d \<in> set (gh_performanceHistory gh). hp_measurementCount d < 5) \<longrightarrow>
       (\<forall>d \<in> set (gh_performanceHistory gh). hp_measurementCount e \<le> hp_measurementCount d)) \<and>
    ((\<forall>d \<in> set (gh_performanceHistory gh). 5 \<le> hp_measurementCount d \<and> \<not> f64_nan (hp_averagePerformance d)) \<longrightarrow>
       (\<forall>d \<in> set (gh_performanceHistory gh). \<not> f64_lt (hp_averagePerformance e) (hp_averagePerformance d)))"
proof -
  let ?hist = "gh_performanceHistory gh" and ?e = "choose_hints (gh_performanceHistory gh)"
  have ne: "?hist \<noteq> []" using assms by (auto simp: history_optimalParameter_def)
  obtain h where "find (\<lambda>h. attr_id h = aid) (rev (hp_hints ?e)) = Some h" "attr_value h = v"
    using assms by (auto simp: history_optimalParameter_def split: if_splits option.splits)
  then have "Attribute aid v \<in> set (hp_hints ?e)"
    by (auto simp: find_Some_iff) (metis Attribute.collapse length_rev nth_mem set_rev)
  then show ?thesis using choose_hints_spec [OF ne] by blast
qed

definition demo_entries :: "HintPerformance list" where
  "demo_entries = [\<lparr>hp_hints = [Attribute 5 (VUint32 9)], hp_measurementCount = 7, hp_averagePerformance = 0\<rparr>,
     \<lparr>hp_hints = [Attribute 5 (VUint32 8)], hp_measurementCount = 2, hp_averagePerformance = 0\<rparr>]"

theorem suggestion_is_best_witness:
  "history_optimalParameter (demo_history \<lparr>gh_performanceHistory := demo_entries\<rparr>) 5 = Inr (VUint32 8) \<and>
   (\<exists>e \<in> set demo_entries. Attribute 5 (VUint32 8) \<in> set (hp_hints e) \<and> (\<forall>d \<in> set demo_entries. hp_measurementCount e \<le> hp_measurementCount d))"
proof -
  have "history_optimalParameter (demo_history \<lparr>gh_performanceHistory := demo_entries\<rparr>) 5 = Inr (VUint32 8)"
    by (simp add: history_optimalParameter_def demo_history_def GenericHistoryPlugin_new_def choose_hints_def demo_entries_def better_choice_def f64_lt_def)
  then show ?thesis using suggestion_is_best [of "demo_history \<lparr>gh_performanceHistory := demo_entries\<rparr>" 5 "VUint32 8"]
    by (simp add: demo_entries_def)
qed

text \<open>
  One access that lacks its performance attribute spoils the choice. Its performance is not a number, and an average that is not a number
  stays one. When this happens to the first entry of the history, then whatever is measured
  later, as soon as all entries have their five measurements, the first entry is chosen: the comparison with its average
  is never true.
\<close>

theorem missing_attribute_spoils_choice:
  assumes "hist \<noteq> []" and "f64_nan (hp_averagePerformance (hd hist))"
    and "fold_outcome (\<lambda>x. record_access (fst x) (snd x)) xs hist = Inr hist'" and "\<forall>e \<in> set hist'. 5 \<le> hp_measurementCount e"
  shows "hp_hints (choose_hints hist') = hp_hints (hd hist) \<and> f64_nan (hp_averagePerformance (choose_hints hist'))"
proof -
  have "hist' \<noteq> [] \<and> hp_hints (hd hist') = hp_hints (hd hist) \<and> f64_nan (hp_averagePerformance (hd hist'))"
    using assms(3)
    by (rule fold_outcome_inv [where P = "\<lambda>h. h \<noteq> [] \<and> hp_hints (hd h) = hp_hints (hd hist) \<and> f64_nan (hp_averagePerformance (hd h))"])
      (use assms(1,2) record_access_head in \<open>force+\<close>)
  then show ?thesis using choose_nan_head assms(4) by simp
qed

definition demo_spoiled :: "HintPerformance list" where
  "demo_spoiled = [\<lparr>hp_hints = [Attribute 5 (VUint32 9)], hp_measurementCount = 4, hp_averagePerformance = of_nat (fp_nan_bits 53 11)\<rparr>]"

theorem missing_attribute_spoils_choice_witness:
  "\<exists>hist'. fold_outcome (\<lambda>x. record_access (fst x) (snd x)) [([Attribute 5 (VUint32 9)], 0)] demo_spoiled = Inr hist' \<and>
     hp_hints (choose_hints hist') = [Attribute 5 (VUint32 9)] \<and> f64_nan (hp_averagePerformance (choose_hints hist'))"
proof -
  have run: "fold_outcome (\<lambda>x. record_access (fst x) (snd x)) [([Attribute 5 (VUint32 9)], 0)] demo_spoiled =
      Inr [\<lparr>hp_hints = [Attribute 5 (VUint32 9)], hp_measurementCount = 5, hp_averagePerformance = mean_step 4 (of_nat (fp_nan_bits 53 11)) 0\<rparr>]"
    by (simp add: demo_spoiled_def record_access_def hints_eq_def attribute_eq_iff add_signed_def fits_signed_def Let_def)
  show ?thesis using missing_attribute_spoils_choice [OF _ _ run] run f64_nan_bits by (simp add: demo_spoiled_def)
qed

end
