(* ===== verification/Persistent_Store.thy ===== *)
theory Persistent_Store
  imports Optimizer System_Information "HOL-Library.AList"
begin

text \<open>
  The optimizer plugin \<open>knowledge/optimizer/plugins/persistent-store/PersistentStore.cpp\<close>: hints for files that are
  read from the configuration. Lookups of names and the configuration are the record \<open>store_env\<close>.
\<close>

record PersistentStoreOptions =
  so_openActivity :: "string \<times> string \<times> string"
  so_filenameAttribute :: "string \<times> string"
  so_fileHints :: "(string \<times> (string \<times> string \<times> string) list) list"

record store_env =
  se_options :: PersistentStoreOptions
  se_lookup_interfaceID :: "string \<Rightarrow> string \<Rightarrow> UniqueInterfaceID result"
  se_lookup_activityID :: "UniqueInterfaceID \<Rightarrow> string \<Rightarrow> UniqueComponentActivityID result"
  se_lookup_attribute_by_name :: "string \<Rightarrow> string \<Rightarrow> OntologyAttribute result"
  se_this :: nat
  se_atof :: "string \<Rightarrow> float64"

record PersistentStorePlugin =
  ps_hintSet :: "(string \<times> (OntologyAttributeID \<times> OntologyValue) list) list"
  ps_filenameAttribute :: OntologyAttributeID
  ps_openActivity :: UniqueComponentActivityID
  ps_sucessfullCalls :: int
  ps_errorCalls :: int

definition store_hint ::
  "store_env \<Rightarrow> string \<times> string \<times> string \<Rightarrow> (OntologyAttributeID \<times> OntologyValue) list \<times> expert
   \<Rightarrow> ((OntologyAttributeID \<times> OntologyValue) list \<times> expert) result" where
  "store_hint E ho st =
     (case (ho, st) of ((domain, name, val), (m, ex)) \<Rightarrow>
        bindr (se_lookup_attribute_by_name E domain name) (\<lambda>oa.
        bindr (ensure (map_of m (oa_aID oa) = None) ''map.find(hintAttribute.aID) == map.end()'') (\<lambda>_.
        bindr (lift (vd_from_string (se_atof E) (oa_storage_type oa) val)) (\<lambda>v.
        bindr (lift (opt_registerPlugin (oa_aID oa) (Some (se_this E)) ex)) (\<lambda>(_, ex1).
        Inr (AList.update (oa_aID oa) v m, ex1))))))"

fun store_hints ::
  "store_env \<Rightarrow> (string \<times> string \<times> string) list \<Rightarrow> (OntologyAttributeID \<times> OntologyValue) list \<times> expert
   \<Rightarrow> ((OntologyAttributeID \<times> OntologyValue) list \<times> expert) result" where
  "store_hints E [] st = Inr st"
| "store_hints E (h # hs) st = bindr (store_hint E h st) (store_hints E hs)"

fun store_files ::
  "store_env \<Rightarrow> (string \<times> (string \<times> string \<times> string) list) list \<Rightarrow> PersistentStorePlugin \<times> expert
   \<Rightarrow> (PersistentStorePlugin \<times> expert) result" where
  "store_files E [] st = Inr st"
| "store_files E ((filename, hints) # fs) (ps, ex) =
     bindr (store_hints E hints ([], ex)) (\<lambda>(m, ex1).
     bindr (ensure (map_of (ps_hintSet ps) filename = None) ''hintSet.find(fo.filename) == hintSet.end()'') (\<lambda>_.
     store_files E fs (ps \<lparr>ps_hintSet := AList.update filename m (ps_hintSet ps)\<rparr>, ex1)))"

definition store_init :: "store_env \<Rightarrow> expert \<Rightarrow> (PersistentStorePlugin \<times> expert) result" where
  "store_init E ex =
     (case so_openActivity (se_options E) of (iface, implementation, activityName) \<Rightarrow>
        bindr (se_lookup_interfaceID E iface implementation) (\<lambda>uiid.
        bindr (ensure (uiid \<noteq> 0) ''uiid != 0'') (\<lambda>_.
        bindr (se_lookup_activityID E uiid activityName) (\<lambda>act.
        bindr (ensure (act \<noteq> 0) ''openActivity != 0'') (\<lambda>_.
        bindr (se_lookup_attribute_by_name E (fst (so_filenameAttribute (se_options E))) (snd (so_filenameAttribute (se_options E)))) (\<lambda>oa.
        bindr (ensure (oa_aID oa \<noteq> 0) ''filenameAttribute != 0'') (\<lambda>_.
        store_files E (so_fileHints (se_options E))
          (\<lparr>ps_hintSet = [], ps_filenameAttribute = oa_aID oa, ps_openActivity = act, ps_sucessfullCalls = 0, ps_errorCalls = 0\<rparr>, ex))))))))"

definition store_optimalParameter :: "OntologyAttributeID \<Rightarrow> OntologyValue result" where
  "store_optimalParameter aid = Inl not_found"

text \<open>The counters are \<open>mutable\<close>, so that the function changes the object.\<close>

definition store_optimalParameterFor ::
  "OntologyAttributeID \<Rightarrow> Activity \<Rightarrow> PersistentStorePlugin \<Rightarrow> OntologyValue result \<times> PersistentStorePlugin" where
  "store_optimalParameterFor aid a ps =
     (if a_ucaid a \<noteq> ps_openActivity ps then (Inl (Fatal (Abort ''activityToStart->ucaid() == openActivity'')), ps)
      else
        let found = (case findAttribute a (ps_filenameAttribute ps) of
                       None \<Rightarrow> Inr None
                     | Some v \<Rightarrow> bindr (lift (vd_str v)) (\<lambda>name.
                         Inr (case map_of (ps_hintSet ps) name of None \<Rightarrow> None | Some m \<Rightarrow> map_of m aid)))
        in case found of
             Inl e \<Rightarrow> (Inl e, ps)
           | Inr (Some v) \<Rightarrow> (case add_signed 32 (ps_sucessfullCalls ps) 1 of
               Inl f \<Rightarrow> (Inl (Fatal f), ps) | Inr n \<Rightarrow> (Inr v, ps \<lparr>ps_sucessfullCalls := n\<rparr>))
           | Inr None \<Rightarrow> (case add_signed 32 (ps_errorCalls ps) 1 of
               Inl f \<Rightarrow> (Inl (Fatal f), ps) | Inr n \<Rightarrow> (Inl not_found, ps \<lparr>ps_errorCalls := n\<rparr>)))"

definition store_finalize :: "store_env \<Rightarrow> PersistentStorePlugin \<Rightarrow> expert \<Rightarrow> expert" where
  "store_finalize E ps ex =
     fold (\<lambda>f. fold (\<lambda>h ex. snd (opt_unregisterPlugin (fst h) (Some (se_this E)) ex)) (snd f)) (ps_hintSet ps) ex"

text \<open>The two entries of the report.\<close>

definition store_prepareReport :: "PersistentStorePlugin \<Rightarrow> (string \<times> VariableDatatype) list" where
  "store_prepareReport ps =
     [(''callsSucessfull'', VInt32 (of_int (ps_sucessfullCalls ps))), (''callsNotFound'', VInt32 (of_int (ps_errorCalls ps)))]"

section \<open>What was configured is suggested\<close>

text \<open>A hint of the configuration in the table of its file, with somebody responsible for its attribute.\<close>

definition hint_stored ::
  "store_env \<Rightarrow> (OntologyAttributeID \<times> OntologyValue) list \<Rightarrow> expert \<Rightarrow> string \<times> string \<times> string \<Rightarrow> bool" where
  "hint_stored E m ex h \<longleftrightarrow> (\<exists>oa v p. se_lookup_attribute_by_name E (fst h) (fst (snd h)) = Inr oa \<and>
     vd_from_string (se_atof E) (oa_storage_type oa) (snd (snd h)) = Inr v \<and> map_of m (oa_aID oa) = Some v \<and> ex (oa_aID oa) = Some (Some p))"

definition experts_kept :: "expert \<Rightarrow> expert \<Rightarrow> bool" where
  "experts_kept ex ex' \<longleftrightarrow> (\<forall>i p. ex i = Some (Some p) \<longrightarrow> ex' i = Some (Some p))"

lemma experts_kept_refl: "experts_kept ex ex"
  by (simp add: experts_kept_def)

lemma experts_kept_trans: "experts_kept ex ex1 \<Longrightarrow> experts_kept ex1 ex2 \<Longrightarrow> experts_kept ex ex2"
  by (simp add: experts_kept_def)

lemma register_expert:
  assumes "opt_registerPlugin i (Some q) ex = Inr (b, ex')"
  shows "experts_kept ex ex'" and "\<exists>p. ex' i = Some (Some p)"
  using assms by (auto simp: opt_registerPlugin_def experts_kept_def Let_def split: if_splits)

lemma store_hint_spec:
  assumes "store_hint E h (m, ex) = Inr (m', ex')"
  shows "hint_stored E m' ex' h" and "experts_kept ex ex'" and "map_of m i = Some v \<Longrightarrow> map_of m' i = Some v"
proof -
  obtain oa v b where o: "se_lookup_attribute_by_name E (fst h) (fst (snd h)) = Inr oa" "map_of m (oa_aID oa) = None"
    "vd_from_string (se_atof E) (oa_storage_type oa) (snd (snd h)) = Inr v"
    "opt_registerPlugin (oa_aID oa) (Some (se_this E)) ex = Inr (b, ex')" "m' = AList.update (oa_aID oa) v m"
    using assms by (cases "map_of m (oa_aID (projr (se_lookup_attribute_by_name E (fst h) (fst (snd h)))))")
      (auto simp: store_hint_def bindr_Inr_iff split: prod.splits)
  show "hint_stored E m' ex' h" using o register_expert(2) [OF o(4)] by (auto simp: hint_stored_def update_conv')
  show "experts_kept ex ex'" by (rule register_expert(1) [OF o(4)])
  show "map_of m' i = Some v" if "map_of m i = Some v" for i v using that o(2,5) by (auto simp: update_conv')
qed

lemma hint_stored_mono:
  "hint_stored E m ex h \<Longrightarrow> (\<And>i v. map_of m i = Some v \<Longrightarrow> map_of m' i = Some v) \<Longrightarrow> experts_kept ex ex' \<Longrightarrow> hint_stored E m' ex' h"
  unfolding hint_stored_def experts_kept_def by blast

lemma store_hints_spec:
  assumes "store_hints E hs (m, ex) = Inr (m', ex')"
  shows "\<forall>h \<in> set hs. hint_stored E m' ex' h" and "experts_kept ex ex'" and "map_of m i = Some v \<Longrightarrow> map_of m' i = Some v"
proof -
  have "(\<forall>h \<in> set hs. hint_stored E m' ex' h) \<and> experts_kept ex ex' \<and> (\<forall>i v. map_of m i = Some v \<longrightarrow> map_of m' i = Some v)"
    using assms
  proof (induction hs arbitrary: m ex)
    case Nil
    then show ?case by (simp add: experts_kept_refl)
  next
    case (Cons h hs)
    then obtain m1 ex1 where s: "store_hint E h (m, ex) = Inr (m1, ex1)" "store_hints E hs (m1, ex1) = Inr (m', ex')"
      by (auto simp: bindr_Inr_iff)
    note one = store_hint_spec [OF s(1)] and more = Cons.IH [OF s(2)]
    show ?case using one(1) more hint_stored_mono experts_kept_trans [OF one(2)] one(3) by (metis set_ConsD)
  qed
  then show "\<forall>h \<in> set hs. hint_stored E m' ex' h" "experts_kept ex ex'" "map_of m i = Some v \<Longrightarrow> map_of m' i = Some v"
    by blast+
qed

definition file_stored :: "store_env \<Rightarrow> PersistentStorePlugin \<Rightarrow> expert \<Rightarrow> string \<times> (string \<times> string \<times> string) list \<Rightarrow> bool" where
  "file_stored E ps ex f \<longleftrightarrow> (\<exists>m. map_of (ps_hintSet ps) (fst f) = Some m \<and> (\<forall>h \<in> set (snd f). hint_stored E m ex h))"

lemma store_files_spec:
  assumes "store_files E fs (ps, ex) = Inr (ps', ex')"
  shows "(\<forall>f \<in> set fs. file_stored E ps' ex' f) \<and> experts_kept ex ex' \<and>
    (\<forall>f m. map_of (ps_hintSet ps) f = Some m \<longrightarrow> map_of (ps_hintSet ps') f = Some m) \<and>
    (\<forall>f. map_of (ps_hintSet ps) f = None \<longrightarrow> f \<notin> fst ` set fs \<longrightarrow> map_of (ps_hintSet ps') f = None) \<and>
    ps_filenameAttribute ps' = ps_filenameAttribute ps \<and> ps_openActivity ps' = ps_openActivity ps \<and>
    ps_sucessfullCalls ps' = ps_sucessfullCalls ps \<and> ps_errorCalls ps' = ps_errorCalls ps"
  using assms
proof (induction fs arbitrary: ps ex)
  case Nil
  then show ?case by (simp add: experts_kept_refl)
next
  case (Cons f fs)
  obtain name hints where f: "f = (name, hints)" by (cases f)
  obtain m ex1 where m: "store_hints E hints ([], ex) = Inr (m, ex1)" "map_of (ps_hintSet ps) name = None"
    "store_files E fs (ps \<lparr>ps_hintSet := AList.update name m (ps_hintSet ps)\<rparr>, ex1) = Inr (ps', ex')"
    using Cons.prems by (cases "map_of (ps_hintSet ps) name") (auto simp: f bindr_Inr_iff)
  note IH = Cons.IH [OF m(3)] and h = store_hints_spec [OF m(1)]
  have "map_of (ps_hintSet ps') name = Some m" using IH by (simp add: update_conv')
  then have "file_stored E ps' ex' f"
    using h(1) IH hint_stored_mono by (fastforce simp: file_stored_def f)
  moreover have "map_of (ps_hintSet ps') g = Some k" if "map_of (ps_hintSet ps) g = Some k" for g k
    using IH that m(2) by (cases "g = name") (auto simp: update_conv')
  ultimately show ?case using IH experts_kept_trans [OF h(2)] m(2) by (auto simp: f update_conv')
qed

text \<open>
  C35 (functional): Configured hints are suggested. After an initialisation that succeeded, for every hint of the configuration, the
  optimizer has a plugin for its attribute and the store answers a question about an \<open>open\<close> of the
  configured file with the configured text read at the type that the ontology has for the attribute. A file that is not in the
  configuration has no suggestion.
\<close>

theorem configured_hints_suggested:
  assumes init: "store_init E ex = Inr (ps, ex')"
    and act: "a_ucaid a = ps_openActivity ps" "findAttribute a (ps_filenameAttribute ps) = Some (VString name)"
  shows "(\<forall>hints h. (name, hints) \<in> set (so_fileHints (se_options E)) \<and> h \<in> set hints \<longrightarrow>
      (\<exists>oa v p. se_lookup_attribute_by_name E (fst h) (fst (snd h)) = Inr oa \<and>
        vd_from_string (se_atof E) (oa_storage_type oa) (snd (snd h)) = Inr v \<and>
        fst (store_optimalParameterFor (oa_aID oa) a ps) = Inr v \<and> expert_of (oa_aID oa) ex' = Inr p)) \<and>
    (name \<notin> fst ` set (so_fileHints (se_options E)) \<longrightarrow> fst (store_optimalParameterFor aid a ps) = Inl not_found)"
proof -
  obtain ps0 where fs: "store_files E (so_fileHints (se_options E)) (ps0, ex) = Inr (ps, ex')"
    and ps0: "ps_hintSet ps0 = []" "ps_sucessfullCalls ps0 = 0" "ps_errorCalls ps0 = 0"
    using init by (force simp: store_init_def bindr_Inr_iff split: prod.splits)
  note spec = store_files_spec [OF fs]
  have hint: "fst (store_optimalParameterFor i a ps) = Inr v" if "map_of (ps_hintSet ps) name = Some m" "map_of m i = Some v" for i m v
    using act that spec ps0 by (simp add: store_optimalParameterFor_def add_signed_def fits_signed_def)
  have "fst (store_optimalParameterFor aid a ps) = Inl not_found" if "name \<notin> fst ` set (so_fileHints (se_options E))"
    using act that spec ps0 by (simp add: store_optimalParameterFor_def add_signed_def fits_signed_def)
  moreover have "\<exists>oa v p. se_lookup_attribute_by_name E (fst h) (fst (snd h)) = Inr oa \<and>
        vd_from_string (se_atof E) (oa_storage_type oa) (snd (snd h)) = Inr v \<and>
        fst (store_optimalParameterFor (oa_aID oa) a ps) = Inr v \<and> expert_of (oa_aID oa) ex' = Inr p"
    if f: "(name, hints) \<in> set (so_fileHints (se_options E))" and h: "h \<in> set hints" for hints h
  proof -
    have "file_stored E ps ex' (name, hints)" using spec f by blast
    then obtain m where "map_of (ps_hintSet ps) name = Some m" "hint_stored E m ex' h" using h by (auto simp: file_stored_def)
    then show ?thesis using hint by (fastforce simp: hint_stored_def expert_of_def)
  qed
  ultimately show ?thesis by blast
qed

definition demo_store_env :: store_env where
  "demo_store_env = \<lparr>se_options = \<lparr>so_openActivity = (''POSIX'', [], ''open''), so_filenameAttribute = (''POSIX'', ''filename''),
       so_fileHints = [(''/data'', [(''GPFS'', ''range'', ''4096'')])]\<rparr>,
     se_lookup_interfaceID = (\<lambda>_ _. Inr 1), se_lookup_activityID = (\<lambda>_ _. Inr 2),
     se_lookup_attribute_by_name = (\<lambda>d n. if d = ''POSIX'' then Inr \<lparr>oa_aID = 3, oa_storage_type = STRING\<rparr> else Inr \<lparr>oa_aID = 4, oa_storage_type = UINT64\<rparr>),
     se_this = 9, se_atof = (\<lambda>_. 0)\<rparr>"

definition demo_store_open :: Activity where
  "demo_store_open = (begun_activity 2 0 (ActivityID (ComponentID (ProcessID 1 42 7) 2) 1 1) []) \<lparr>a_attributeArray := [Attribute 3 (VString ''/data'')]\<rparr>"

theorem configured_hints_suggested_witness:
  "\<exists>ps ex'. store_init demo_store_env Map.empty = Inr (ps, ex') \<and>
     fst (store_optimalParameterFor 4 demo_store_open ps) = Inr (VUint64 4096) \<and> (\<exists>p. expert_of 4 ex' = Inr p)"
proof -
  have v: "vd_from_string (\<lambda>_. 0) UINT64 ''4096'' = Inr (VUint64 4096)" by code_simp
  have "case store_init demo_store_env Map.empty of Inl e \<Rightarrow> False | Inr (ps, ex') \<Rightarrow> ps_openActivity ps = 2 \<and> ps_filenameAttribute ps = 3"
    by code_simp
  then obtain ps ex' where ps: "store_init demo_store_env Map.empty = Inr (ps, ex')" "ps_openActivity ps = 2" "ps_filenameAttribute ps = 3"
    by (auto split: sum.splits)
  have "findAttribute demo_store_open 3 = Some (VString ''/data'')" "a_ucaid demo_store_open = 2"
    by (simp_all add: demo_store_open_def findAttribute_def begun_activity_def)
  then show ?thesis using configured_hints_suggested [OF ps(1), of demo_store_open "''/data''" 0] ps v
    by (auto simp: demo_store_env_def)
qed

end
