(* ===== verification/Histogram_Adpi.thy ===== *)
theory Histogram_Adpi
  imports Reasoning_Datatypes Topology_Association Optimizer
begin

text \<open>
  The anomaly plugin \<open>monitoring/activity_multiplexer/plugins/activity-histogram-adpi\<close>: it learns the range of the
  durations of an activity type, splits it into buckets and rates later activities by the bucket they fall into. The
  observations go to the reasoner; the learned range is kept in a topology, whose operations are the record \<open>V\<close>.
\<close>

record HistogramAdpiOptions =
  ho_buckets :: u16
  ho_extremeBucketCount :: u16
  ho_slowFastBucketCount :: u16
  ho_learnCount :: u16

definition HistogramAdpiOptions_default :: HistogramAdpiOptions where
  "HistogramAdpiOptions_default = \<lparr>ho_buckets = 100, ho_extremeBucketCount = 5, ho_slowFastBucketCount = 20, ho_learnCount = 1000\<rparr>"

record ActivityTimeStatistics =
  at_minTimeS :: u64
  at_maxTimeS :: u64
  at_histogramBucketWidth :: u64
  at_totalOperationCount :: u64
  at_histogram :: "u64 list"

definition ActivityTimeStatistics_new :: ActivityTimeStatistics where
  "ActivityTimeStatistics_new = \<lparr>at_minTimeS = - 1, at_maxTimeS = 0, at_histogramBucketWidth = 0, at_totalOperationCount = 0, at_histogram = []\<rparr>"

record HistogramAdpiPlugin =
  ha_statistics :: "UniqueComponentActivityID \<rightharpoonup> ActivityTimeStatistics"
  ha_pluginTopoTypeID :: TopologyTypeId
  ha_pluginTopoObjectID :: TopologyObjectId
  ha_bucketMinAttributID :: TopologyAttributeId
  ha_bucketMaxAttributID :: TopologyAttributeId
  ha_recentObservations :: observations

definition histogram_init :: "'s topology_ops \<Rightarrow> 's \<Rightarrow> (HistogramAdpiPlugin \<times> 's) outcome" where
  "histogram_init V s =
     (case top_registerType V s ''data'' of (t1, s1) \<Rightarrow>
      case top_registerType V s1 ''ADPIPlugin'' of (t2, s2) \<Rightarrow>
      bindr (deref ''id()'' t1) (\<lambda>dataType.
      bindr (registerObjectByPath_vec V s2 [cope ''AMUXPluginName'' ''ADPIPlugin'' ''AMUXPlugin''] 0) (\<lambda>(r, s3).
      bindr (deref ''id()'' r) (\<lambda>myData.
      bindr (deref ''id()'' t2) (\<lambda>adpiType.
      case top_registerAttribute V s3 (tt_id adpiType) ''min'' UINT64 of (a1, s4) \<Rightarrow>
      bindr (deref ''id()'' a1) (\<lambda>bucketMin.
      case top_registerAttribute V s4 (tt_id adpiType) ''max'' UINT64 of (a2, s5) \<Rightarrow>
      bindr (deref ''id()'' a2) (\<lambda>bucketMax.
      Inr (\<lparr>ha_statistics = Map.empty, ha_pluginTopoTypeID = tt_id dataType, ha_pluginTopoObjectID = to_id myData,
            ha_bucketMinAttributID = ta_id bucketMin, ha_bucketMaxAttributID = ta_id bucketMax, ha_recentObservations = []\<rparr>, s5))))))))"

definition convertAIDToString :: "UniqueComponentActivityID \<Rightarrow> string" where
  "convertAIDToString aid = dec_nat (unat aid)"

text \<open>The buckets for a range: their width by integer division, and empty counters.\<close>

definition make_buckets :: "HistogramAdpiOptions \<Rightarrow> ActivityTimeStatistics \<Rightarrow> ActivityTimeStatistics outcome" where
  "make_buckets opt ats =
     (if ho_buckets opt = 0 then Inl (Undefined ''division by zero'')
      else Inr (ats \<lparr>at_histogramBucketWidth := (at_maxTimeS ats - at_minTimeS ats) div ucast (ho_buckets opt),
                     at_histogram := replicate (unat (ho_buckets opt)) 0\<rparr>))"

text \<open>The first activity of a type: a range that was stored earlier is taken over.\<close>

definition load_statistics ::
  "'s topology_ops \<Rightarrow> HistogramAdpiOptions \<Rightarrow> HistogramAdpiPlugin \<Rightarrow> 's \<Rightarrow> UniqueComponentActivityID \<Rightarrow> ActivityTimeStatistics outcome" where
  "load_statistics V opt ha s u =
     (case top_lookupRelation V s (ha_pluginTopoObjectID ha) (ha_pluginTopoTypeID ha) (convertAIDToString u) of
        None \<Rightarrow> Inr ActivityTimeStatistics_new
      | Some tr \<Rightarrow>
          (case top_getAttribute V s (tr_child tr) (ha_bucketMinAttributID ha) of
             None \<Rightarrow> Inr ActivityTimeStatistics_new
           | Some mn \<Rightarrow>
               bindr (vd_uint64 (tv_value mn)) (\<lambda>a.
               bindr (deref ''value()'' (top_getAttribute V s (tr_child tr) (ha_bucketMaxAttributID ha))) (\<lambda>mx.
               bindr (vd_uint64 (tv_value mx)) (\<lambda>b.
               make_buckets opt (ActivityTimeStatistics_new \<lparr>at_minTimeS := a, at_maxTimeS := b\<rparr>))))))"

text \<open>
  The bucket of a duration. The quotient is computed with integers; \<open>ceil\<close> and the conversions around it change
  nothing, as it is below 2^17 (lemma \<open>quotient_small\<close>).
\<close>

definition bucket_of :: "HistogramAdpiOptions \<Rightarrow> ActivityTimeStatistics \<Rightarrow> u64 \<Rightarrow> int outcome" where
  "bucket_of opt ats d =
     (if d < at_minTimeS ats then Inr 0
      else if d < at_maxTimeS ats then
        (if at_histogramBucketWidth ats = 0 then Inl (Undefined ''division by zero'')
         else Inr (uint ((d - at_minTimeS ats) div at_histogramBucketWidth ats)))
      else Inr (uint (ho_buckets opt) - 1))"

definition goodness_of :: "HistogramAdpiOptions \<Rightarrow> int \<Rightarrow> HealthState" where
  "goodness_of opt bucket =
     (if bucket < uint (ho_extremeBucketCount opt) then ABNORMAL_GOOD
      else if bucket < uint (ho_slowFastBucketCount opt) then GOOD
      else if bucket < uint (ho_buckets opt) - uint (ho_slowFastBucketCount opt) then OK
      else if bucket < uint (ho_buckets opt) - uint (ho_extremeBucketCount opt) then BAD
      else ABNORMAL_BAD)"

definition count_bucket :: "int \<Rightarrow> u64 list \<Rightarrow> u64 list outcome" where
  "count_bucket b h =
     (if 0 \<le> b \<and> nat b < length h then Inr (h[nat b := h ! nat b + 1]) else Inl (Undefined ''histogram[bucket]''))"

definition rate_activity ::
  "HistogramAdpiOptions \<Rightarrow> Activity \<Rightarrow> ActivityTimeStatistics \<Rightarrow> observations \<Rightarrow> (ActivityTimeStatistics \<times> observations) outcome" where
  "rate_activity opt a ats obs =
     bindr (bucket_of opt ats (duration a)) (\<lambda>b.
     bindr (count_bucket b (at_histogram ats)) (\<lambda>h.
     bindr (addObservation (aid_cid (a_aid a)) (goodness_of opt b) [] (ucast (duration a)) obs) (\<lambda>obs1.
     Inr (ats \<lparr>at_histogram := h\<rparr>, obs1))))"

definition store_range ::
  "'s topology_ops \<Rightarrow> HistogramAdpiPlugin \<Rightarrow> UniqueComponentActivityID \<Rightarrow> ActivityTimeStatistics \<Rightarrow> 's \<Rightarrow> 's outcome" where
  "store_range V ha u ats s =
     bindr (top_registerObject V s (ha_pluginTopoObjectID ha) (ha_pluginTopoTypeID ha) (convertAIDToString u) (ha_pluginTopoTypeID ha)) (\<lambda>(r, s1).
     bindr (deref ''id()'' r) (\<lambda>child.
     case top_setAttribute V s1 (to_id child) (ha_bucketMaxAttributID ha) (VUint64 (at_maxTimeS ats)) of (_, s2) \<Rightarrow>
     case top_setAttribute V s2 (to_id child) (ha_bucketMinAttributID ha) (VUint64 (at_minTimeS ats)) of (_, s3) \<Rightarrow>
     Inr s3))"

definition learn_activity ::
  "'s topology_ops \<Rightarrow> HistogramAdpiOptions \<Rightarrow> HistogramAdpiPlugin \<Rightarrow> Activity \<Rightarrow> ActivityTimeStatistics \<Rightarrow> 's \<Rightarrow> (ActivityTimeStatistics \<times> 's) outcome" where
  "learn_activity V opt ha a ats s =
     (let ats1 = ats \<lparr>at_minTimeS := (if at_minTimeS ats < duration a then at_minTimeS ats else duration a),
                      at_maxTimeS := (if duration a < at_maxTimeS ats then at_maxTimeS ats else duration a)\<rparr>
      in if at_totalOperationCount ats1 = ucast (ho_learnCount opt) \<and> at_maxTimeS ats1 \<noteq> at_minTimeS ats1 then
           bindr (make_buckets opt ats1) (\<lambda>ats2.
           bindr (store_range V ha (a_ucaid a) ats2 s) (\<lambda>s1. Inr (ats2, s1)))
         else Inr (ats1, s))"

definition histogram_Notify ::
  "'s topology_ops \<Rightarrow> HistogramAdpiOptions \<Rightarrow> Activity \<Rightarrow> HistogramAdpiPlugin \<times> 's \<Rightarrow> (HistogramAdpiPlugin \<times> 's) outcome" where
  "histogram_Notify V opt a st =
     (case st of (ha, s) \<Rightarrow>
      bindr (case ha_statistics ha (a_ucaid a) of Some ats \<Rightarrow> Inr ats | None \<Rightarrow> load_statistics V opt ha s (a_ucaid a)) (\<lambda>ats0.
      let ats = ats0 \<lparr>at_totalOperationCount := at_totalOperationCount ats0 + 1\<rparr>
      in if at_histogram ats \<noteq> [] then
           bindr (rate_activity opt a ats (ha_recentObservations ha)) (\<lambda>(ats1, obs).
           Inr (ha \<lparr>ha_statistics := (ha_statistics ha)(a_ucaid a \<mapsto> ats1), ha_recentObservations := obs\<rparr>, s))
         else
           bindr (learn_activity V opt ha a ats s) (\<lambda>(ats1, s1).
           Inr (ha \<lparr>ha_statistics := (ha_statistics ha)(a_ucaid a \<mapsto> ats1)\<rparr>, s1))))"

text \<open>The text of the buckets in the report.\<close>

fun bucket_text :: "ActivityTimeStatistics \<Rightarrow> nat \<Rightarrow> u64 \<Rightarrow> u64 list \<Rightarrow> string" where
  "bucket_text ats i cur [] = dec_nat (unat cur)"
| "bucket_text ats i cur (n # ns) =
     dec_nat (unat cur) @ ''='' @ dec_nat (unat n) @ '' '' @
     bucket_text ats (Suc i) (at_histogramBucketWidth ats * of_nat i + at_minTimeS ats) ns"

definition report_buckets :: "ActivityTimeStatistics \<Rightarrow> string option" where
  "report_buckets ats = (if at_histogram ats = [] then None else Some (bucket_text ats 0 0 (at_histogram ats)))"

definition histogram_run ::
  "'s topology_ops \<Rightarrow> HistogramAdpiOptions \<Rightarrow> Activity list \<Rightarrow> HistogramAdpiPlugin \<times> 's \<Rightarrow> (HistogramAdpiPlugin \<times> 's) outcome" where
  "histogram_run V opt = fold_outcome (histogram_Notify V opt)"

section \<open>Rating\<close>

lemma quotient_bound:
  fixes lo hi d n :: nat
  assumes "w = (hi - lo) div n" and "0 < w" and "lo \<le> d" and "d < hi" and "0 < n"
  shows "(d - lo) div w < 2 * n" and "n dvd hi - lo \<Longrightarrow> (d - lo) div w < n"
proof -
  have "hi - lo < n * w + n" using assms(1,5) by (metis div_mult_mod_eq mod_less_divisor mult.commute nat_add_left_cancel_less)
  also have "\<dots> \<le> 2 * n * w" using assms(2) by (cases w) auto
  finally have "d - lo < 2 * n * w" using assms(3,4) by linarith
  then show "(d - lo) div w < 2 * n" by (simp add: less_mult_imp_div_less)
  assume "n dvd hi - lo"
  then have "hi - lo = n * w" using assms(1) by simp
  then have "d - lo < n * w" using assms(3,4) by linarith
  then show "(d - lo) div w < n" by (simp add: less_mult_imp_div_less)
qed

lemma unat_ucast_16_64: "unat (ucast (x :: u16) :: u64) = unat x"
  by (simp add: unsigned_ucast_eq take_bit_nat_eq_self_iff less_le_trans [OF unsigned_less])

lemma quotient_small:
  assumes "make_buckets opt ats0 = Inr ats" and "at_histogramBucketWidth ats \<noteq> 0"
    and "at_minTimeS ats \<le> d" and "d < at_maxTimeS ats"
  shows "unat ((d - at_minTimeS ats) div at_histogramBucketWidth ats) < 2 * unat (ho_buckets opt)"
    and "2 * unat (ho_buckets opt) \<le> 131070"
    and "unat (ho_buckets opt) dvd unat (at_maxTimeS ats) - unat (at_minTimeS ats) \<Longrightarrow>
      unat ((d - at_minTimeS ats) div at_histogramBucketWidth ats) < unat (ho_buckets opt)"
proof -
  let ?n = "unat (ho_buckets opt)" and ?w = "unat (at_histogramBucketWidth ats)"
  have b: "ho_buckets opt \<noteq> 0" "at_histogramBucketWidth ats = (at_maxTimeS ats - at_minTimeS ats) div ucast (ho_buckets opt)"
    using assms(1) by (auto simp: make_buckets_def split: if_splits)
  have "at_minTimeS ats \<le> at_maxTimeS ats" using assms(3,4) by simp
  then have w: "?w = (unat (at_maxTimeS ats) - unat (at_minTimeS ats)) div ?n"
    by (simp add: b unat_div unat_sub unat_ucast_16_64)
  have q: "unat ((d - at_minTimeS ats) div at_histogramBucketWidth ats) = (unat d - unat (at_minTimeS ats)) div ?w"
    using assms(3) by (simp add: unat_div unat_sub)
  have "0 < ?w" "0 < ?n" using assms(2) b(1) by (simp_all add: unat_gt_0)
  moreover have "unat (at_minTimeS ats) \<le> unat d" "unat d < unat (at_maxTimeS ats)"
    using assms(3,4) by (simp_all add: word_le_nat_alt word_less_nat_alt)
  ultimately show "unat ((d - at_minTimeS ats) div at_histogramBucketWidth ats) < 2 * ?n"
    and "?n dvd unat (at_maxTimeS ats) - unat (at_minTimeS ats) \<Longrightarrow> unat ((d - at_minTimeS ats) div at_histogramBucketWidth ats) < ?n"
    unfolding q using quotient_bound [OF w] by simp_all
  have "?n < 2 ^ 16" by (rule less_le_trans [OF unsigned_less]) simp
  then show "2 * ?n \<le> 131070" by simp
qed

lemma sum_list_increment: "i < length h \<Longrightarrow> sum_list (h[i := h ! i + 1]) = sum_list h + (1 :: u64)"
proof (induction h arbitrary: i)
  case (Cons x h)
  then show ?case by (cases i) (simp_all add: algebra_simps)
qed simp

lemma count_bucket_sum:
  assumes "count_bucket b h = Inr h'"
  shows "sum_list h' = sum_list h + 1" and "length h' = length h"
    and "\<And>i. i < length h \<Longrightarrow> h' ! i = h ! i + (if int i = b then 1 else 0)"
proof -
  have b: "0 \<le> b" "nat b < length h" "h' = h[nat b := h ! nat b + 1]" using assms by (auto simp: count_bucket_def split: if_splits)
  show "sum_list h' = sum_list h + 1" using b sum_list_increment by simp
  show "length h' = length h" using b by simp
  show "h' ! i = h ! i + (if int i = b then 1 else 0)" if "i < length h" for i
    using b that by (auto simp: nth_list_update)
qed

text \<open>
  What holds of the statistics of a type once it has buckets: there is one counter per bucket, the width is that of the
  learned range, and the counters account for all activities since learning ended (or for all, with a stored range).
\<close>

definition hist_ok :: "HistogramAdpiOptions \<Rightarrow> ActivityTimeStatistics \<Rightarrow> bool" where
  "hist_ok opt ats \<longleftrightarrow> at_histogram ats = [] \<or>
     length (at_histogram ats) = unat (ho_buckets opt) \<and>
     at_histogramBucketWidth ats = (at_maxTimeS ats - at_minTimeS ats) div ucast (ho_buckets opt) \<and>
     (sum_list (at_histogram ats) = at_totalOperationCount ats \<or>
      sum_list (at_histogram ats) + ucast (ho_learnCount opt) = at_totalOperationCount ats)"

lemma hist_ok_new [simp]: "hist_ok opt ActivityTimeStatistics_new"
  by (simp add: hist_ok_def ActivityTimeStatistics_new_def)

lemma sum_list_zeros [simp]: "sum_list (replicate n (0 :: u64)) = 0"
  by (induction n) simp_all

lemma make_buckets_ok:
  assumes "make_buckets opt ats = Inr ats'"
    and "at_totalOperationCount ats = 0 \<or> at_totalOperationCount ats = ucast (ho_learnCount opt)"
  shows "hist_ok opt ats'"
  using assms by (auto simp: make_buckets_def hist_ok_def split: if_splits)

lemma load_statistics_ok: "load_statistics V opt ha s u = Inr ats \<Longrightarrow> hist_ok opt ats"
  by (auto simp: load_statistics_def bindr_Inr_iff ActivityTimeStatistics_new_def intro: make_buckets_ok split: option.splits)
     (simp_all add: hist_ok_def)

lemma rate_activityD:
  assumes "rate_activity opt a ats obs = Inr (ats', obs')"
  shows "\<exists>b h. bucket_of opt ats (duration a) = Inr b \<and> count_bucket b (at_histogram ats) = Inr h \<and>
    ats' = ats \<lparr>at_histogram := h\<rparr> \<and> addObservation (aid_cid (a_aid a)) (goodness_of opt b) [] (ucast (duration a)) obs = Inr obs'"
  using assms by (auto simp: rate_activity_def bindr_Inr_iff)

lemma rate_activity_ok:
  assumes "rate_activity opt a (ats \<lparr>at_totalOperationCount := at_totalOperationCount ats + 1\<rparr>) obs = Inr (ats', obs')" and "hist_ok opt ats"
    and "at_histogram ats \<noteq> []"
  shows "hist_ok opt ats'"
proof -
  obtain b h where h: "count_bucket b (at_histogram ats) = Inr h" and
      ats': "ats' = ats \<lparr>at_totalOperationCount := at_totalOperationCount ats + 1, at_histogram := h\<rparr>"
    using rate_activityD [OF assms(1)] by auto
  note sum = count_bucket_sum [OF h]
  have "h \<noteq> []" using sum(2) assms(3) by auto
  then show ?thesis using assms(2,3) sum by (auto simp: hist_ok_def ats' algebra_simps)
qed

lemma learn_activity_ok:
  assumes "learn_activity V opt ha a ats s = Inr (ats', s')" and "at_histogram ats = []"
  shows "hist_ok opt ats'"
  using assms by (auto simp: learn_activity_def Let_def bindr_Inr_iff intro: make_buckets_ok split: if_splits) (auto simp: hist_ok_def)

definition plugin_ok :: "HistogramAdpiOptions \<Rightarrow> HistogramAdpiPlugin \<Rightarrow> bool" where
  "plugin_ok opt ha \<longleftrightarrow> (\<forall>u ats. ha_statistics ha u = Some ats \<longrightarrow> hist_ok opt ats) \<and> observations_ok (ha_recentObservations ha)"

lemma histogram_init_empty:
  "histogram_init V s = Inr (ha, s1) \<Longrightarrow> ha_statistics ha = Map.empty \<and> ha_recentObservations ha = []"
  by (auto simp: histogram_init_def case_prod_beta bindr_Inr_iff)

definition known_statistics ::
  "'s topology_ops \<Rightarrow> HistogramAdpiOptions \<Rightarrow> HistogramAdpiPlugin \<Rightarrow> 's \<Rightarrow> UniqueComponentActivityID \<Rightarrow> ActivityTimeStatistics outcome" where
  "known_statistics V opt ha s u = (case ha_statistics ha u of Some ats \<Rightarrow> Inr ats | None \<Rightarrow> load_statistics V opt ha s u)"

lemma known_statistics_ok: "known_statistics V opt ha s u = Inr ats \<Longrightarrow> plugin_ok opt ha \<Longrightarrow> hist_ok opt ats"
  by (auto simp: known_statistics_def plugin_ok_def load_statistics_ok split: option.splits)

lemma histogram_Notify_cases:
  assumes "histogram_Notify V opt a (ha, s) = Inr (ha', s')"
  obtains (rated) ats ats' obs where "known_statistics V opt ha s (a_ucaid a) = Inr ats" and "at_histogram ats \<noteq> []"
      and "rate_activity opt a (ats \<lparr>at_totalOperationCount := at_totalOperationCount ats + 1\<rparr>) (ha_recentObservations ha) = Inr (ats', obs)"
      and "ha' = ha \<lparr>ha_statistics := (ha_statistics ha)(a_ucaid a \<mapsto> ats'), ha_recentObservations := obs\<rparr>" and "s' = s"
  | (learned) ats ats' where "known_statistics V opt ha s (a_ucaid a) = Inr ats" and "at_histogram ats = []"
      and "learn_activity V opt ha a (ats \<lparr>at_totalOperationCount := at_totalOperationCount ats + 1\<rparr>) s = Inr (ats', s')"
      and "ha' = ha \<lparr>ha_statistics := (ha_statistics ha)(a_ucaid a \<mapsto> ats')\<rparr>"
  using assms unfolding histogram_Notify_def known_statistics_def [symmetric]
  by (fastforce simp: bindr_Inr_iff Let_def split: if_splits)

lemma histogram_Notify_ok:
  assumes "histogram_Notify V opt a (ha, s) = Inr (ha', s')" and "plugin_ok opt ha"
  shows "plugin_ok opt ha'"
  using assms(1)
proof (cases rule: histogram_Notify_cases)
  case (rated ats ats' obs)
  have "hist_ok opt ats'" by (rule rate_activity_ok [OF rated(3) known_statistics_ok [OF rated(1) assms(2)] rated(2)])
  moreover have "observations_ok obs"
    using rate_activityD [OF rated(3)] addObservation_ok(1) assms(2) by (fastforce simp: plugin_ok_def)
  ultimately show ?thesis using assms(2) by (auto simp: plugin_ok_def rated)
next
  case (learned ats ats')
  have "hist_ok opt ats'" by (rule learn_activity_ok [OF learned(3)]) (simp add: learned)
  then show ?thesis using assms(2) by (auto simp: plugin_ok_def learned)
qed


text \<open>A bigger bucket is never rated better, whatever the configured thresholds are.\<close>

lemma goodness_mono: "b \<le> b' \<Longrightarrow> state_code (goodness_of opt b) \<le> state_code (goodness_of opt b')"
  by (auto simp: goodness_of_def)

lemma bucket_of_mono:
  assumes "bucket_of opt ats d = Inr b" and "bucket_of opt ats d' = Inr b'" and "d \<le> d'" and "b < uint (ho_buckets opt)"
    and "ho_buckets opt \<noteq> 0"
  shows "b \<le> b'"
proof -
  have "0 < uint (ho_buckets opt)" using assms(5) by (simp add: word_neq_0_conv word_less_def)
  then have pos: "0 \<le> b'" using assms(2) by (auto simp: bucket_of_def split: if_splits)
  show ?thesis
  proof (cases "at_minTimeS ats \<le> d \<and> d' < at_maxTimeS ats")
    case True
    then have "at_minTimeS ats \<le> d" "at_minTimeS ats \<le> d'" using assms(3) by auto
    then have "(d - at_minTimeS ats) div at_histogramBucketWidth ats \<le> (d' - at_minTimeS ats) div at_histogramBucketWidth ats"
      using assms(3) by (simp add: word_le_nat_alt unat_div unat_sub div_le_mono diff_le_mono)
    moreover have "\<not> d < at_minTimeS ats" "\<not> d' < at_minTimeS ats" "d < at_maxTimeS ats" "d' < at_maxTimeS ats"
      using True assms(3) by auto
    ultimately show ?thesis using assms(1,2) by (auto simp: bucket_of_def word_le_def split: if_splits)
  next
    case False
    then show ?thesis using assms(1-4) pos by (fastforce simp: bucket_of_def split: if_splits)
  qed
qed

lemma count_bucket_iff:
  assumes "length h = unat n"
  shows "(\<exists>h'. count_bucket b h = Inr h') \<longleftrightarrow> 0 \<le> b \<and> b < uint n"
proof -
  have "nat b < length h \<longleftrightarrow> b < uint n" if "0 \<le> b" using that assms by (metis nat_less_eq_zless unat_eq_nat_uint)
  then show ?thesis by (auto simp: count_bucket_def)
qed

text \<open>
  C38 (safety): A slower activity is never rated better: when two activities of a type are rated with the same statistics and the second
  took at least as long, each adds exactly one observation for its component and the state of the second is equal or
  worse, for every configuration of the bucket counts.
\<close>

theorem slower_is_rated_worse:
  assumes "hist_ok opt ats" and "at_histogram ats \<noteq> []" and "observations_ok obs"
    and "rate_activity opt a ats obs = Inr (ats1, obs1)" and "rate_activity opt a' ats obs = Inr (ats2, obs2)"
    and "duration a \<le> duration a'"
  shows "\<exists>st st'. state_code st \<le> state_code st' \<and>
    (\<forall>c x. seen obs1 c x = seen obs c x + (if c = aid_cid (a_aid a) \<and> x = st then 1 else 0)) \<and>
    (\<forall>c x. seen obs2 c x = seen obs c x + (if c = aid_cid (a_aid a') \<and> x = st' then 1 else 0))"
proof -
  obtain b h where b: "bucket_of opt ats (duration a) = Inr b" "count_bucket b (at_histogram ats) = Inr h"
      "addObservation (aid_cid (a_aid a)) (goodness_of opt b) [] (ucast (duration a)) obs = Inr obs1"
    using rate_activityD [OF assms(4)] by auto
  obtain b' where b': "bucket_of opt ats (duration a') = Inr b'"
      "addObservation (aid_cid (a_aid a')) (goodness_of opt b') [] (ucast (duration a')) obs = Inr obs2"
    using rate_activityD [OF assms(5)] by auto
  have len: "length (at_histogram ats) = unat (ho_buckets opt)" using assms(1,2) by (simp add: hist_ok_def)
  then have n: "ho_buckets opt \<noteq> 0" using assms(2) by auto
  have "b < uint (ho_buckets opt)" using count_bucket_iff [OF len, of b] b(2) by blast
  then have "state_code (goodness_of opt b) \<le> state_code (goodness_of opt b')"
    using bucket_of_mono [OF b(1) b'(1) assms(6)] n by (simp add: goodness_mono)
  then show ?thesis
    using addObservation_ok(2) [OF b(3) assms(3)] addObservation_ok(2) [OF b'(2) assms(3)] by blast
qed

lemma addObservation_no_issue: "\<exists>obs'. addObservation c s [] d obs = Inr obs'"
  by (simp add: addObservation_def Let_def)

lemma rate_activity_succeeds_iff:
  assumes "length (at_histogram ats) = unat (ho_buckets opt)"
  shows "(\<exists>r. rate_activity opt a ats obs = Inr r) \<longleftrightarrow>
    (\<exists>b. bucket_of opt ats (duration a) = Inr b \<and> 0 \<le> b \<and> b < uint (ho_buckets opt))"
proof -
  have "(\<exists>r. rate_activity opt a ats obs = Inr r) \<longleftrightarrow>
      (\<exists>b. bucket_of opt ats (duration a) = Inr b \<and> (\<exists>h. count_bucket b (at_histogram ats) = Inr h))"
    using addObservation_no_issue [of "aid_cid (a_aid a)"] by (simp add: rate_activity_def bindr_Inr_iff) blast
  then show ?thesis using count_bucket_iff [OF assms] by blast
qed

lemma uint_less_iff_unat: "uint (x :: u64) < uint (y :: u16) \<longleftrightarrow> unat x < unat y"
proof -
  have "int (unat x) < int (unat y) \<longleftrightarrow> unat x < unat y" by (rule of_nat_less_iff)
  then show ?thesis by simp
qed

lemma split_range:
  fixes lo hi n :: nat
  assumes "lo < hi" and "0 < n" and "\<not> n dvd hi - lo" and "(hi - lo) div n \<noteq> 0"
  shows "n \<le> (hi - 1 - lo) div ((hi - lo) div n)"
proof -
  have "(hi - lo) mod n \<noteq> 0" using assms(3) by (simp add: dvd_eq_mod_eq_0)
  moreover have "n * ((hi - lo) div n) + (hi - lo) mod n = hi - lo" by simp
  ultimately have "n * ((hi - lo) div n) \<le> hi - 1 - lo" by linarith
  then show ?thesis using assms(4) by (simp add: less_eq_div_iff_mult_less_eq)
qed

text \<open>
  With buckets over a range from \<open>min\<close> to \<open>max\<close>, every activity can be rated exactly when the number of buckets divides
  \<open>max - min\<close>. Otherwise the width has been rounded down and the activity that takes \<open>max - 1\<close> is either divided by a width
  of zero or counted in a bucket after the end of the vector.
\<close>

theorem ratable_iff_buckets_divide:
  assumes "hist_ok opt ats" and "at_histogram ats \<noteq> []" and "at_minTimeS ats < at_maxTimeS ats"
  shows "(\<forall>a. \<exists>r. rate_activity opt a ats obs = Inr r) \<longleftrightarrow> unat (ho_buckets opt) dvd unat (at_maxTimeS ats) - unat (at_minTimeS ats)"
    (is "?all \<longleftrightarrow> ?n dvd ?hi - ?lo")
proof -
  have len: "length (at_histogram ats) = ?n"
    and w: "at_histogramBucketWidth ats = (at_maxTimeS ats - at_minTimeS ats) div ucast (ho_buckets opt)"
    using assms(1,2) by (simp_all add: hist_ok_def)
  have lohi: "?lo < ?hi" using assms(3) by (simp add: word_less_nat_alt)
  have n: "0 < ?n" using len assms(2) by (metis length_greater_0_conv)
  have uw: "unat (at_histogramBucketWidth ats) = (?hi - ?lo) div ?n"
    using assms(3) by (simp add: w unat_div unat_sub unat_ucast_16_64)
  have mk: "make_buckets opt ats = Inr (ats \<lparr>at_histogram := replicate ?n 0\<rparr>)" using n by (auto simp: make_buckets_def w)
  have "0 < int ?n" using n by (rule iffD2 [OF of_nat_0_less_iff])
  then have un: "0 < uint (ho_buckets opt)" by simp
  show ?thesis
  proof
    assume dvd: "?n dvd ?hi - ?lo"
    have "?n \<le> ?hi - ?lo" using dvd lohi by (simp add: dvd_imp_le)
    then have "(?hi - ?lo) div ?n \<noteq> 0" using n by (simp add: div_greater_zero_iff)
    then have w0: "at_histogramBucketWidth ats \<noteq> 0" using uw by auto
    have "\<exists>b. bucket_of opt ats d = Inr b \<and> 0 \<le> b \<and> b < uint (ho_buckets opt)" for d
    proof (cases "at_minTimeS ats \<le> d \<and> d < at_maxTimeS ats")
      case True
      then show ?thesis using quotient_small(3) [OF mk, of d] dvd w0 by (auto simp: bucket_of_def uint_less_iff_unat)
    next
      case False
      then show ?thesis using un by (cases "d < at_minTimeS ats") (simp_all add: bucket_of_def)
    qed
    then show ?all using rate_activity_succeeds_iff [OF len] by blast
  next
    assume ?all
    moreover obtain a where a: "duration a = at_maxTimeS ats - 1"
      using that [of "(begun_activity 0 0 undefined []) \<lparr>a_time_stop := at_maxTimeS ats - 1\<rparr>"] by (simp add: duration_def begun_activity_def)
    ultimately obtain b where b: "bucket_of opt ats (duration a) = Inr b" "b < uint (ho_buckets opt)"
      using rate_activity_succeeds_iff [OF len] by blast
    have "at_maxTimeS ats \<noteq> 0" using assms(3) by auto
    then have d: "unat (duration a) = ?hi - 1" using unat_sub [of 1 "at_maxTimeS ats"] by (simp add: a word_le_nat_alt)
    then have range: "\<not> duration a < at_minTimeS ats" "duration a < at_maxTimeS ats" "at_minTimeS ats \<le> duration a"
      using lohi by (simp_all add: word_less_nat_alt word_le_nat_alt)
    then have "at_histogramBucketWidth ats \<noteq> 0" "b = uint ((duration a - at_minTimeS ats) div at_histogramBucketWidth ats)"
      using b(1) by (simp_all add: bucket_of_def split: if_splits)
    moreover have "unat ((duration a - at_minTimeS ats) div at_histogramBucketWidth ats) = (?hi - 1 - ?lo) div ((?hi - ?lo) div ?n)"
      using range(3) by (simp add: unat_div unat_sub d uw)
    ultimately have "(?hi - 1 - ?lo) div ((?hi - ?lo) div ?n) < ?n" using b(2) by (simp add: uint_less_iff_unat)
    moreover have "(?hi - ?lo) div ?n \<noteq> 0" using \<open>at_histogramBucketWidth ats \<noteq> 0\<close> uw by (metis unat_eq_zero)
    ultimately show "?n dvd ?hi - ?lo" using split_range [OF lohi n] by linarith
  qed
qed

section \<open>Learning\<close>

text \<open>One more duration in the range of an activity type.\<close>

definition absorb :: "u64 \<Rightarrow> ActivityTimeStatistics \<Rightarrow> ActivityTimeStatistics" where
  "absorb d ats = ats \<lparr>at_minTimeS := min (at_minTimeS ats) d, at_maxTimeS := max (at_maxTimeS ats) d,
     at_totalOperationCount := at_totalOperationCount ats + 1\<rparr>"

lemma fold_absorb:
  "at_minTimeS (fold absorb ds ats) = fold min ds (at_minTimeS ats)"
  "at_maxTimeS (fold absorb ds ats) = fold max ds (at_maxTimeS ats)"
  "at_totalOperationCount (fold absorb ds ats) = at_totalOperationCount ats + of_nat (length ds)"
  "at_histogram (fold absorb ds ats) = at_histogram ats"
  by (induction ds arbitrary: ats) (simp_all add: absorb_def algebra_simps min.commute max.commute)

lemma learning_step:
  assumes "known_statistics V opt ha s (a_ucaid a) = Inr ats" and "at_histogram ats = []"
    and "at_totalOperationCount ats + 1 \<noteq> ucast (ho_learnCount opt) \<or>
      at_minTimeS (absorb (duration a) ats) = at_maxTimeS (absorb (duration a) ats)"
  shows "histogram_Notify V opt a (ha, s) = Inr (ha \<lparr>ha_statistics := (ha_statistics ha)(a_ucaid a \<mapsto> absorb (duration a) ats)\<rparr>, s)"
proof -
  have "(if at_minTimeS ats < duration a then at_minTimeS ats else duration a) = min (at_minTimeS ats) (duration a)"
    "(if duration a < at_maxTimeS ats then at_maxTimeS ats else duration a) = max (at_maxTimeS ats) (duration a)"
    by (auto simp: min_def max_def)
  then have "learn_activity V opt ha a (ats \<lparr>at_totalOperationCount := at_totalOperationCount ats + 1\<rparr>) s = Inr (absorb (duration a) ats, s)"
    using assms(3) by (auto simp: learn_activity_def absorb_def Let_def)
  then show ?thesis using assms(1,2) unfolding histogram_Notify_def known_statistics_def [symmetric] by simp
qed

lemma learning_run:
  assumes "known_statistics V opt ha s u = Inr ats" and "at_histogram ats = []" and "\<forall>a \<in> set as. a_ucaid a = u" and "as \<noteq> []"
    and "\<forall>k < length as. at_totalOperationCount ats + of_nat (Suc k) \<noteq> ucast (ho_learnCount opt) \<or>
      (let b = fold absorb (map duration (take (Suc k) as)) ats in at_minTimeS b = at_maxTimeS b)"
  shows "\<exists>ha'. histogram_run V opt as (ha, s) = Inr (ha', s) \<and> ha_statistics ha' u = Some (fold absorb (map duration as) ats) \<and>
    ha_recentObservations ha' = ha_recentObservations ha"
  using assms
proof (induction as arbitrary: ha ats)
  case (Cons a as)
  let ?ats = "absorb (duration a) ats" and ?ha = "ha \<lparr>ha_statistics := (ha_statistics ha)(u \<mapsto> absorb (duration a) ats)\<rparr>"
  have u: "a_ucaid a = u" using Cons.prems(3) by simp
  have step: "histogram_Notify V opt a (ha, s) = Inr (?ha, s)"
    using learning_step [of V opt ha s a ats] Cons.prems(1,2,5) u by (auto simp: Let_def)
  show ?case
  proof (cases "as = []")
    case True
    then show ?thesis using step by (simp add: histogram_run_def)
  next
    case False
    have "\<forall>k < length as. at_totalOperationCount ?ats + of_nat (Suc k) \<noteq> ucast (ho_learnCount opt) \<or>
      (let b = fold absorb (map duration (take (Suc k) as)) ?ats in at_minTimeS b = at_maxTimeS b)"
    proof (intro allI impI)
      fix k assume "k < length as"
      then show "at_totalOperationCount ?ats + of_nat (Suc k) \<noteq> ucast (ho_learnCount opt) \<or>
          (let b = fold absorb (map duration (take (Suc k) as)) ?ats in at_minTimeS b = at_maxTimeS b)"
        using Cons.prems(5) [rule_format, of "Suc k"] by (simp add: absorb_def [of "duration a"] algebra_simps)
    qed
    then have "\<exists>ha'. histogram_run V opt as (?ha, s) = Inr (ha', s) \<and> ha_statistics ha' u = Some (fold absorb (map duration as) ?ats) \<and>
        ha_recentObservations ha' = ha_recentObservations ?ha"
      using Cons.prems(2,3) False by (intro Cons.IH) (simp_all add: known_statistics_def absorb_def [of "duration a"])
    then show ?thesis using step by (simp add: histogram_run_def)
  qed
qed simp

lemma fold_min_equal: "\<forall>x \<in> set ds. x = d \<Longrightarrow> fold min ds e = (if ds = [] then e else min e (d :: u64))"
  by (induction ds arbitrary: e) (auto simp: min.commute min.assoc)

lemma fold_max_equal: "\<forall>x \<in> set ds. x = d \<Longrightarrow> fold max ds e = (if ds = [] then e else max e (d :: u64))"
  by (induction ds arbitrary: e) (auto simp: max.commute max.assoc)

lemma of_nat_eq_u16: "n < 2 ^ 64 \<Longrightarrow> (of_nat n :: u64) = ucast (x :: u16) \<longleftrightarrow> n = unat x"
  by (simp add: word_unat_eq_iff unat_ucast_16_64 unat_of_nat)

text \<open>
  An activity type whose first \<open>learnCount\<close> activities take equally long is learned for ever: whatever follows (fewer than 2^64
  activities in all), the type has no buckets, none of its activities is rated and nothing is stored in the topology. The
  range is built only at the activity whose number is exactly \<open>learnCount\<close>.
\<close>

theorem learning_never_ends:
  assumes "ha_statistics ha u = None" and "top_lookupRelation V s (ha_pluginTopoObjectID ha) (ha_pluginTopoTypeID ha) (convertAIDToString u) = None"
    and "\<forall>a \<in> set (same @ rest). a_ucaid a = u" and "\<forall>a \<in> set same. duration a = d"
    and "length same = unat (ho_learnCount opt)" and "same \<noteq> []" and "length (same @ rest) < 2 ^ 64"
  shows "\<exists>ha' ats. histogram_run V opt (same @ rest) (ha, s) = Inr (ha', s) \<and> ha_statistics ha' u = Some ats \<and>
    at_histogram ats = [] \<and> at_totalOperationCount ats = of_nat (length (same @ rest)) \<and>
    ha_recentObservations ha' = ha_recentObservations ha"
proof -
  let ?as = "same @ rest" and ?new = ActivityTimeStatistics_new
  have total: "at_totalOperationCount ?new = 0" by (simp add: ActivityTimeStatistics_new_def)
  have known: "known_statistics V opt ha s u = Inr ?new" using assms(1,2) by (simp add: known_statistics_def load_statistics_def)
  have "at_minTimeS b = at_maxTimeS b" if "b = fold absorb (map duration same) ?new" for b
  proof -
    have eq: "\<forall>x \<in> set (map duration same). x = d" using assms(4) by auto
    show ?thesis using assms(6) unfolding that fold_absorb fold_min_equal [OF eq] fold_max_equal [OF eq]
      by (simp add: ActivityTimeStatistics_new_def min_absorb2 max_absorb2)
  qed
  moreover have "take (Suc k) ?as = same" if "k < length ?as" "of_nat (Suc k) = (ucast (ho_learnCount opt) :: u64)" for k
  proof -
    have "Suc k < 2 ^ 64" using that(1) assms(7) by simp
    then have "Suc k = unat (ho_learnCount opt)" using iffD1 [OF of_nat_eq_u16 that(2)] by blast
    then show ?thesis using assms(5) by simp
  qed
  ultimately have "\<forall>k < length ?as. at_totalOperationCount ?new + of_nat (Suc k) \<noteq> ucast (ho_learnCount opt) \<or>
      (let b = fold absorb (map duration (take (Suc k) ?as)) ?new in at_minTimeS b = at_maxTimeS b)"
    unfolding total add_0_left Let_def by metis
  from learning_run [OF known _ assms(3) _ this] assms(6)
  obtain ha' where "histogram_run V opt ?as (ha, s) = Inr (ha', s)" "ha_statistics ha' u = Some (fold absorb (map duration ?as) ?new)"
      "ha_recentObservations ha' = ha_recentObservations ha"
    by (auto simp: ActivityTimeStatistics_new_def)
  then show ?thesis by (auto simp: fold_absorb ActivityTimeStatistics_new_def)
qed

section \<open>The range in the topology\<close>

lemma vd_eq_uint64: "vd_eq x (VUint64 i) \<longleftrightarrow> x = VUint64 i"
  by (cases x) (auto simp: vd_eq_def)

context topology
begin

lemma histogram_init_valid:
  assumes "valid s" and "7 \<le> free s" and "histogram_init V s = Inr (ha, s')"
  shows "valid s' \<and> free s \<le> free s' + 7 \<and> ha_bucketMinAttributID ha \<noteq> ha_bucketMaxAttributID ha"
proof -
  obtain t1 s1 where t1: "top_registerType V s ''data'' = (t1, s1)" by fastforce
  have v1: "valid s1" "free s \<le> free s1 + 1" using registerType_spec [OF assms(1) _ t1] assms(2) by (simp_all add: topo_step_def)
  obtain t2 s2 where t2: "top_registerType V s1 ''ADPIPlugin'' = (t2, s2)" by fastforce
  have v2: "valid s2" "free s \<le> free s2 + 2" using registerType_spec [OF v1(1) _ t2] v1(2) assms(2) by (simp_all add: topo_step_def)
  obtain r s3 where r: "registerObjectByPath_vec V s2 [cope ''AMUXPluginName'' ''ADPIPlugin'' ''AMUXPlugin''] 0 = Inr (r, s3)"
    "valid s3" "free s2 \<le> free s3 + 3"
    by (rule register_path_vec [OF v2(1), of "[cope ''AMUXPluginName'' ''ADPIPlugin'' ''AMUXPlugin'']" 0]) (use v2(2) assms(2) in auto)
  obtain ty where ty: "t2 = Some ty" using assms(3) t1 t2 r(1) by (cases t2) (auto simp: histogram_init_def bindr_Inr_iff)
  obtain o1 s4 where e1: "top_registerAttribute V s3 (tt_id ty) ''min'' UINT64 = (o1, s4)" by fastforce
  obtain o2 s5 where e2: "top_registerAttribute V s4 (tt_id ty) ''max'' UINT64 = (o2, s5)" by fastforce
  obtain a1 a2 where a: "top_registerAttribute V s3 (tt_id ty) ''min'' UINT64 = (Some a1, s4)"
      "top_registerAttribute V s4 (tt_id ty) ''max'' UINT64 = (Some a2, s')"
      "ha_bucketMinAttributID ha = ta_id a1" "ha_bucketMaxAttributID ha = ta_id a2"
    using assms(3) t1 t2 r(1) ty e1 e2 by (cases o1; cases o2) (auto simp: histogram_init_def bindr_Inr_iff)
  have v4: "valid s4" "free s3 \<le> Suc (free s4)" "top_lookupAttributeByName V s4 (tt_id ty) ''min'' = Some a1"
    using registerAttribute_spec [OF r(2) _ a(1)] r(3) v2(2) assms(2) by (simp_all add: topo_step_def)
  have v5: "valid s'" "free s4 \<le> Suc (free s')" "top_lookupAttributeByName V s' (tt_id ty) ''max'' = Some a2" "topo_ext V s4 s'"
    using registerAttribute_spec [OF v4(1) _ a(2)] v4(2) r(3) v2(2) assms(2) by (simp_all add: topo_step_def)
  have "top_lookupAttributeByName V s' (tt_id ty) ''min'' = Some a1" using v4(3) v5(4) by (simp add: topo_ext_def)
  then have "ta_id a1 \<noteq> ta_id a2" using attributeByName_inject [OF v5(1) _ v5(3)] by fastforce
  then show ?thesis using v5(1,2) v4(2) r(3) v2(2) a(3,4) by simp
qed

lemma store_range_spec:
  assumes "valid s" and "0 < free s" and "store_range V ha u ats s = Inr s'"
  shows "valid s' \<and> free s \<le> Suc (free s')"
    and "ha_bucketMinAttributID ha \<noteq> ha_bucketMaxAttributID ha \<Longrightarrow>
      load_statistics V opt ha s' u = make_buckets opt (ActivityTimeStatistics_new \<lparr>at_minTimeS := at_minTimeS ats, at_maxTimeS := at_maxTimeS ats\<rparr>)"
proof -
  let ?lo = "ha_bucketMinAttributID ha" and ?hi = "ha_bucketMaxAttributID ha"
  obtain r s1 where reg: "top_registerObject V s (ha_pluginTopoObjectID ha) (ha_pluginTopoTypeID ha) (convertAIDToString u) (ha_pluginTopoTypeID ha) = Inr (r, s1)"
      "topo_step V valid free s s1"
      "case r of Some x \<Rightarrow> top_lookupObjectById V s1 (to_id x) = Some x \<and>
           (\<exists>rel. top_lookupRelation V s1 (ha_pluginTopoObjectID ha) (ha_pluginTopoTypeID ha) (convertAIDToString u) = Some rel \<and> tr_child rel = to_id x)
       | None \<Rightarrow> True"
    using registerObject_spec [OF assms(1,2), of "ha_pluginTopoObjectID ha" "ha_pluginTopoTypeID ha" "convertAIDToString u" "ha_pluginTopoTypeID ha"]
    by (fastforce split: option.splits)
  obtain x where x: "r = Some x" using assms(3) reg(1) by (cases r) (auto simp: store_range_def)
  obtain rel where rel: "top_lookupRelation V s1 (ha_pluginTopoObjectID ha) (ha_pluginTopoTypeID ha) (convertAIDToString u) = Some rel" "tr_child rel = to_id x"
    using reg(3) x by auto
  obtain b1 s2 where s2: "top_setAttribute V s1 (to_id x) ?hi (VUint64 (at_maxTimeS ats)) = (b1, s2)" by fastforce
  obtain b2 where s3: "top_setAttribute V s2 (to_id x) ?lo (VUint64 (at_minTimeS ats)) = (b2, s')"
    using assms(3) reg(1) x s2 by (cases "top_setAttribute V s2 (to_id x) ?lo (VUint64 (at_minTimeS ats))") (simp add: store_range_def)
  have v1: "valid s1" "free s \<le> Suc (free s1)" using reg(2) by (simp_all add: topo_step_def)
  note set1 = setAttribute_spec [OF v1(1) s2]
  then have v2: "valid s2" by simp
  note set2 = setAttribute_spec [OF v2 s3]
  show "valid s' \<and> free s \<le> Suc (free s')" using set1 set2 v1(2) by simp
  assume ne: "?lo \<noteq> ?hi"
  have obj: "top_lookupObjectById V s1 (to_id x) \<noteq> None" "top_lookupObjectById V s2 (to_id x) \<noteq> None"
    using reg(3) x set1 by (auto simp: topo_ext_def)
  then have b: b1 b2 using set1 set2 by blast+
  obtain t1 where "top_getAttribute V s2 (to_id x) ?hi = Some t1" "tv_value t1 = VUint64 (at_maxTimeS ats) \<or> vd_eq (tv_value t1) (VUint64 (at_maxTimeS ats))"
    using set1 b(1) by blast
  then have hi: "top_getAttribute V s' (to_id x) ?hi = Some t1" "tv_value t1 = VUint64 (at_maxTimeS ats)"
    using set2 ne by (auto simp: vd_eq_uint64)
  obtain t2 where lo: "top_getAttribute V s' (to_id x) ?lo = Some t2" "tv_value t2 = VUint64 (at_minTimeS ats)"
    using set2 b(2) by (auto simp: vd_eq_uint64)
  have "top_lookupRelation V s' (ha_pluginTopoObjectID ha) (ha_pluginTopoTypeID ha) (convertAIDToString u) = Some rel"
    using rel(1) set1 set2 by (simp add: topo_ext_def)
  then show "load_statistics V opt ha s' u = make_buckets opt (ActivityTimeStatistics_new \<lparr>at_minTimeS := at_minTimeS ats, at_maxTimeS := at_maxTimeS ats\<rparr>)"
    using rel(2) hi lo by (simp add: load_statistics_def)
qed

end

definition same_place :: "HistogramAdpiPlugin \<Rightarrow> HistogramAdpiPlugin \<Rightarrow> bool" where
  "same_place ha ha' \<longleftrightarrow> ha_pluginTopoTypeID ha' = ha_pluginTopoTypeID ha \<and> ha_pluginTopoObjectID ha' = ha_pluginTopoObjectID ha \<and>
     ha_bucketMinAttributID ha' = ha_bucketMinAttributID ha \<and> ha_bucketMaxAttributID ha' = ha_bucketMaxAttributID ha"

lemma same_place_load: "same_place ha ha' \<Longrightarrow> load_statistics V opt ha' = load_statistics V opt ha"
  unfolding load_statistics_def same_place_def by (intro ext) (elim conjE, simp only:)

context topology
begin

lemma learn_activity_spec:
  assumes "valid s" and "0 < free s" and "learn_activity V opt ha a ats s = Inr (ats', s')"
  shows "valid s' \<and> free s \<le> Suc (free s')"
    and "at_histogram ats = [] \<Longrightarrow> at_histogram ats' \<noteq> [] \<Longrightarrow> ha_bucketMinAttributID ha \<noteq> ha_bucketMaxAttributID ha \<Longrightarrow>
      load_statistics V opt ha s' (a_ucaid a) = Inr (ats' \<lparr>at_totalOperationCount := 0\<rparr>)"
proof -
  consider "s' = s" "at_histogram ats' = at_histogram ats"
    | ats1 where "make_buckets opt ats1 = Inr ats'" "store_range V ha (a_ucaid a) ats' s = Inr s'"
    using assms(3) by (auto simp: learn_activity_def Let_def bindr_Inr_iff split: if_splits)
  note cases = this
  show "valid s' \<and> free s \<le> Suc (free s')"
    using cases store_range_spec(1) [OF assms(1,2)] assms(1) by cases auto
  show "load_statistics V opt ha s' (a_ucaid a) = Inr (ats' \<lparr>at_totalOperationCount := 0\<rparr>)"
    if grown: "at_histogram ats = []" "at_histogram ats' \<noteq> []" and ne: "ha_bucketMinAttributID ha \<noteq> ha_bucketMaxAttributID ha"
  proof -
    obtain ats1 where "make_buckets opt ats1 = Inr ats'" and st: "store_range V ha (a_ucaid a) ats' s = Inr s'"
      using cases grown by metis
    then show ?thesis unfolding store_range_spec(2) [OF assms(1,2) st ne]
      by (auto simp: make_buckets_def ActivityTimeStatistics_new_def split: if_splits)
  qed
qed

lemma histogram_Notify_valid:
  assumes "valid s" and "0 < free s" and "histogram_Notify V opt a (ha, s) = Inr (ha', s')"
  shows "valid s' \<and> free s \<le> Suc (free s') \<and> same_place ha ha'"
  using assms(3)
proof (cases rule: histogram_Notify_cases)
  case rated
  then show ?thesis using assms(1) by (simp add: same_place_def)
next
  case learned
  then show ?thesis using learn_activity_spec(1) [OF assms(1,2) learned(3)] by (simp add: same_place_def)
qed

lemma histogram_run_valid:
  assumes "valid s" and "length as \<le> free s" and "histogram_run V opt as (ha, s) = Inr (ha', s')"
  shows "valid s' \<and> free s \<le> free s' + length as \<and> same_place ha ha'"
  using assms
proof (induction as arbitrary: ha s)
  case (Cons a as)
  then obtain ha1 s1 where step: "histogram_Notify V opt a (ha, s) = Inr (ha1, s1)" "histogram_run V opt as (ha1, s1) = Inr (ha', s')"
    by (auto simp: histogram_run_def bindr_Inr_iff)
  have v: "valid s1 \<and> free s \<le> Suc (free s1) \<and> same_place ha ha1" using histogram_Notify_valid [OF Cons.prems(1) _ step(1)] Cons.prems(2) by simp
  then show ?case using Cons.IH [OF _ _ step(2)] Cons.prems(2) by (auto simp: same_place_def)
qed (simp add: histogram_run_def same_place_def)

end

text \<open>
  What a histogram plugin has learned survives a restart. In a RAM topology with room for what is registered: when an activity
  ends the learning of its type, another instance of the plugin that finds the topology as it then is starts with the same range, the same width and
  empty buckets, without learning again.
\<close>

theorem learned_range_reloaded:
  assumes "ram_inv s0" and "length as + 8 \<le> ram_free s0" and "histogram_init ram_ops s0 = Inr (ha0, s1)"
    and "histogram_run ram_ops opt as (ha0, s1) = Inr (ha, s)" and "ha_statistics ha (a_ucaid a) = Some ats" and "at_histogram ats = []"
    and "histogram_Notify ram_ops opt a (ha, s) = Inr (ha', s')" and "ha_statistics ha' (a_ucaid a) = Some ats'" and "at_histogram ats' \<noteq> []"
  shows "load_statistics ram_ops opt ha0 s' (a_ucaid a) = Inr (ats' \<lparr>at_totalOperationCount := 0\<rparr>)"
proof -
  have i: "ram_inv s1" "ram_free s0 \<le> ram_free s1 + 7" "ha_bucketMinAttributID ha0 \<noteq> ha_bucketMaxAttributID ha0"
    using ram.histogram_init_valid [OF assms(1) _ assms(3)] assms(2) by simp_all
  have r: "ram_inv s" "ram_free s1 \<le> ram_free s + length as" "same_place ha0 ha"
    using ram.histogram_run_valid [OF i(1) _ assms(4)] i(2) assms(2) by simp_all
  have room: "0 < ram_free s" using r(2) i(2) assms(2) by simp
  have known: "known_statistics ram_ops opt ha s (a_ucaid a) = Inr ats" using assms(5) by (simp add: known_statistics_def)
  have ne: "ha_bucketMinAttributID ha \<noteq> ha_bucketMaxAttributID ha" using i(3) r(3) by (simp add: same_place_def)
  have "learn_activity ram_ops opt ha a (ats \<lparr>at_totalOperationCount := at_totalOperationCount ats + 1\<rparr>) s = Inr (ats', s')"
    using assms(7) by (cases rule: histogram_Notify_cases) (use known assms(6,8) in auto)
  from ram.learn_activity_spec(2) [OF r(1) room this] assms(6,9) ne
  show ?thesis using same_place_load [OF r(3), of ram_ops opt] by simp
qed

section \<open>Examples\<close>

definition demo_hist_options :: HistogramAdpiOptions where
  "demo_hist_options = \<lparr>ho_buckets = 2, ho_extremeBucketCount = 0, ho_slowFastBucketCount = 1, ho_learnCount = 2\<rparr>"

definition demo_timed :: "u64 \<Rightarrow> Activity" where
  "demo_timed d = (begun_activity 7 0 (ActivityID (ComponentID (ProcessID 1 42 7) 2) 1 1) []) \<lparr>a_time_stop := d\<rparr>"

definition demo_ats :: ActivityTimeStatistics where
  "demo_ats = \<lparr>at_minTimeS = 10, at_maxTimeS = 14, at_histogramBucketWidth = 2, at_totalOperationCount = 2, at_histogram = [0, 0]\<rparr>"

lemma demo_timed_simps [simp]: "a_ucaid (demo_timed d) = 7" "duration (demo_timed d) = d"
  by (simp_all add: demo_timed_def begun_activity_def duration_def)

definition demo_hist_run :: "Activity list \<Rightarrow> (HistogramAdpiPlugin \<times> HistogramAdpiPlugin \<times> RamTopology) outcome" where
  "demo_hist_run as = bindr (histogram_init ram_ops RamTopology_new) (\<lambda>(ha0, s1).
     bindr (histogram_run ram_ops demo_hist_options as (ha0, s1)) (\<lambda>(ha, s). Inr (ha0, ha, s)))"

lemma demo_hist_runD:
  assumes "demo_hist_run as = Inr (ha0, ha, s)"
  shows "\<exists>s1. histogram_init ram_ops RamTopology_new = Inr (ha0, s1) \<and> histogram_run ram_ops demo_hist_options as (ha0, s1) = Inr (ha, s)"
  using assms by (auto simp: demo_hist_run_def bindr_Inr_iff)

lemma demo_hist_eval:
  "\<exists>ha0 ha s. demo_hist_run [demo_timed 10, demo_timed 14, demo_timed 13] = Inr (ha0, ha, s) \<and>
     ha_statistics ha 7 = Some (demo_ats \<lparr>at_totalOperationCount := 3, at_histogram := [0, 1]\<rparr>)"
proof -
  have "case demo_hist_run [demo_timed 10, demo_timed 14, demo_timed 13] of Inl e \<Rightarrow> False
    | Inr (ha0, ha, s) \<Rightarrow> (case ha_statistics ha 7 of None \<Rightarrow> False | Some ats \<Rightarrow>
        ats = demo_ats \<lparr>at_totalOperationCount := 3, at_histogram := [0, 1]\<rparr>)"
    by code_simp
  then show ?thesis by (auto split: sum.splits option.splits)
qed


lemma demo_hist_ok: "hist_ok demo_hist_options demo_ats"
  by (simp add: hist_ok_def demo_hist_options_def demo_ats_def)

theorem slower_is_rated_worse_witness:
  "\<exists>r1 r2. rate_activity demo_hist_options (demo_timed 11) demo_ats [] = Inr r1 \<and>
     rate_activity demo_hist_options (demo_timed 13) demo_ats [] = Inr r2 \<and>
     (\<exists>st st'. state_code st \<le> state_code st' \<and>
       seen (snd r1) (aid_cid (a_aid (demo_timed 11))) st = 1 \<and> seen (snd r2) (aid_cid (a_aid (demo_timed 13))) st' = 1)"
proof -
  have "case rate_activity demo_hist_options (demo_timed 11) demo_ats [] of Inl e \<Rightarrow> False | Inr r \<Rightarrow> True"
    "case rate_activity demo_hist_options (demo_timed 13) demo_ats [] of Inl e \<Rightarrow> False | Inr r \<Rightarrow> True" by code_simp+
  then obtain r1 r2 where r: "rate_activity demo_hist_options (demo_timed 11) demo_ats [] = Inr (fst r1, snd r1)"
      "rate_activity demo_hist_options (demo_timed 13) demo_ats [] = Inr (fst r2, snd r2)"
    by (auto split: sum.splits)
  have "at_histogram demo_ats \<noteq> []" "observations_ok []" by (simp_all add: demo_ats_def observations_ok_def)
  from slower_is_rated_worse [OF demo_hist_ok this r] show ?thesis using r by fastforce
qed

theorem ratable_iff_buckets_divide_witness:
  "(\<forall>a. \<exists>r. rate_activity demo_hist_options a demo_ats [] = Inr r) \<and>
   \<not> (\<forall>a. \<exists>r. rate_activity demo_hist_options a (demo_ats \<lparr>at_maxTimeS := 15\<rparr>) [] = Inr r)"
proof -
  have "hist_ok demo_hist_options (demo_ats \<lparr>at_maxTimeS := 15\<rparr>)" by (simp add: hist_ok_def demo_hist_options_def demo_ats_def)
  from ratable_iff_buckets_divide [OF this, of "[]"] ratable_iff_buckets_divide [OF demo_hist_ok, of "[]"]
  show ?thesis by (simp add: demo_ats_def demo_hist_options_def)
qed

theorem learning_never_ends_witness:
  "\<exists>ha s1 ha' ats. histogram_init ram_ops RamTopology_new = Inr (ha, s1) \<and>
     histogram_run ram_ops demo_hist_options [demo_timed 5, demo_timed 5, demo_timed 9] (ha, s1) = Inr (ha', s1) \<and>
     ha_statistics ha' 7 = Some ats \<and> at_histogram ats = [] \<and> at_totalOperationCount ats = 3"
proof -
  have "case histogram_init ram_ops RamTopology_new of Inl e \<Rightarrow> False
    | Inr (ha, s1) \<Rightarrow> lookupRelation s1 (ha_pluginTopoObjectID ha) (ha_pluginTopoTypeID ha) (convertAIDToString 7) = None" by code_simp
  then obtain ha s1 where i: "histogram_init ram_ops RamTopology_new = Inr (ha, s1)"
      "top_lookupRelation ram_ops s1 (ha_pluginTopoObjectID ha) (ha_pluginTopoTypeID ha) (convertAIDToString 7) = None"
    by (auto split: sum.splits)
  have "ha_statistics ha 7 = None" using histogram_init_empty [OF i(1)] by simp
  from learning_never_ends [OF this i(2), of "[demo_timed 5, demo_timed 5]" "[demo_timed 9]" 5 demo_hist_options]
  show ?thesis using i(1) by (auto simp: demo_hist_options_def)
qed

lemma holds_of_Inr: "(case r of Inl e \<Rightarrow> False | Inr x \<Rightarrow> P x) \<longleftrightarrow> (\<exists>x. r = Inr x \<and> P x)"
  by (cases r) auto

lemma holds_of_Some: "(case r of None \<Rightarrow> False | Some x \<Rightarrow> P x) \<longleftrightarrow> (\<exists>x. r = Some x \<and> P x)"
  by (cases r) auto

theorem learned_range_reloaded_witness:
  "\<exists>ha0 ha s. demo_hist_run [demo_timed 10, demo_timed 14] = Inr (ha0, ha, s) \<and>
     load_statistics ram_ops demo_hist_options ha0 s 7 = Inr (demo_ats \<lparr>at_totalOperationCount := 0\<rparr>)"
proof -
  have "case demo_hist_run [demo_timed 10] of Inl e \<Rightarrow> False
    | Inr (ha0, ha, s) \<Rightarrow> (case ha_statistics ha 7 of None \<Rightarrow> False | Some ats \<Rightarrow> at_histogram ats = [] \<and>
        (case histogram_Notify ram_ops demo_hist_options (demo_timed 14) (ha, s) of Inl e \<Rightarrow> False
         | Inr (ha', s') \<Rightarrow> (case ha_statistics ha' 7 of None \<Rightarrow> False | Some ats \<Rightarrow> ats = demo_ats)))"
    by code_simp
  then obtain ha0 ha s ats ha' s' where r: "demo_hist_run [demo_timed 10] = Inr (ha0, ha, s)" "ha_statistics ha 7 = Some ats"
      "at_histogram ats = []" "histogram_Notify ram_ops demo_hist_options (demo_timed 14) (ha, s) = Inr (ha', s')"
      "ha_statistics ha' 7 = Some demo_ats"
    by (auto simp: holds_of_Inr holds_of_Some)
  obtain s1 where i: "histogram_init ram_ops RamTopology_new = Inr (ha0, s1)"
      "histogram_run ram_ops demo_hist_options [demo_timed 10] (ha0, s1) = Inr (ha, s)"
    using demo_hist_runD [OF r(1)] by blast
  have "length [demo_timed 10] + 8 \<le> ram_free RamTopology_new" by (simp add: ram_free_def RamTopology_new_def)
  from learned_range_reloaded [OF ram_inv_new this i, of "demo_timed 14" ats ha' s' demo_ats] r(2-5)
  have "load_statistics ram_ops demo_hist_options ha0 s' 7 = Inr (demo_ats \<lparr>at_totalOperationCount := 0\<rparr>)"
    by (simp add: demo_ats_def)
  moreover have "demo_hist_run [demo_timed 10, demo_timed 14] = Inr (ha0, ha', s')"
    using i r(4) by (simp add: demo_hist_run_def histogram_run_def fold_outcome_append [of _ "[demo_timed 10]" "[demo_timed 14]", simplified])
  ultimately show ?thesis by blast
qed

end
