(* ===== verification/Topology_System_Information.thy ===== *)
theory Topology_System_Information
  imports System_Information Topology_Ontology
begin

text \<open>
  The system information that is kept in a topology,
  \<open>monitoring/system_information/modules/TopologySystemInformation/TopologySystemInformation.cpp\<close>: a name is a relation to an object, the
  number of the name is the number of the object, and its parts are attributes of the object. The operations of the topology
  are the record \<open>V\<close>. The implementation meets the contract of \<open>System_Information\<close> on every topology that
  keeps the laws of the locale \<open>topology_frame\<close>.
\<close>

record 's TopologySystemInformation =
  ts_topology :: 's
  ts_pluginTopoObjectID :: TopologyObjectId
  ts_hostID :: TopologyTypeId
  ts_deviceID :: TopologyTypeId
  ts_fsID :: TopologyTypeId
  ts_interfaceID :: TopologyTypeId
  ts_activityID :: TopologyTypeId
  ts_attrNameID :: TopologyAttributeId
  ts_attrInterfaceNameID :: TopologyAttributeId
  ts_attrUNIDID :: TopologyAttributeId
  ts_attrImplementationNameID :: TopologyAttributeId
  ts_attrNodeID :: TopologyAttributeId
  ts_attrDeviceNameID :: TopologyAttributeId
  ts_attrFSNameID :: TopologyAttributeId

section \<open>Initialisation\<close>

text \<open>Types and attributes are registered one after the other and the ids of the handles are kept.\<close>

fun ts_register_types :: "'s topology_ops \<Rightarrow> string list \<Rightarrow> 's \<Rightarrow> (TopologyTypeId list \<times> 's) outcome" where
  "ts_register_types V [] s = Inr ([], s)"
| "ts_register_types V (n # ns) s =
     (case top_registerType V s n of (r, s1) \<Rightarrow>
        bindr (deref ''id()'' r) (\<lambda>ty. bindr (ts_register_types V ns s1) (\<lambda>(is, s2). Inr (tt_id ty # is, s2))))"

fun ts_register_attributes ::
  "'s topology_ops \<Rightarrow> TopologyTypeId \<Rightarrow> (string \<times> Type) list \<Rightarrow> 's \<Rightarrow> (TopologyAttributeId list \<times> 's) outcome" where
  "ts_register_attributes V d [] s = Inr ([], s)"
| "ts_register_attributes V d ((n, t) # as) s =
     (case top_registerAttribute V s d n t of (r, s1) \<Rightarrow>
        bindr (deref ''id()'' r) (\<lambda>a. bindr (ts_register_attributes V d as s1) (\<lambda>(is, s2). Inr (ta_id a # is, s2))))"

definition ts_type_names :: "string list" where
  "ts_type_names = [''SystemInformation'', ''Host'', ''Device'', ''Filesystem'', ''Interface'', ''Activity'']"

definition ts_attribute_names :: "(string \<times> Type) list" where
  "ts_attribute_names = [(''Name'', STRING), (''Interface'', STRING), (''Implementation'', STRING), (''Node'', UINT32), (''UNID'', UINT32),
     (''LocalName'', STRING), (''GlobalName'', STRING)]"

definition ts_init :: "'s topology_ops \<Rightarrow> 's \<Rightarrow> 's TopologySystemInformation outcome" where
  "ts_init V s =
     bindr (registerObjectByPath_vec V s [cope ''ModuleName'' ''SystemInformationIDManager'' ''Module''] 0) (\<lambda>(r, s1).
     bindr (deref ''id()'' r) (\<lambda>obj.
     bindr (ts_register_types V ts_type_names s1) (\<lambda>(ty, s2).
     bindr (ts_register_attributes V (ty ! 0) ts_attribute_names s2) (\<lambda>(at, s3).
     Inr \<lparr>ts_topology = s3, ts_pluginTopoObjectID = to_id obj, ts_hostID = ty ! 1, ts_deviceID = ty ! 2, ts_fsID = ty ! 3,
          ts_interfaceID = ty ! 4, ts_activityID = ty ! 5, ts_attrNameID = at ! 0, ts_attrInterfaceNameID = at ! 1, ts_attrUNIDID = at ! 4,
          ts_attrImplementationNameID = at ! 2, ts_attrNodeID = at ! 3, ts_attrDeviceNameID = at ! 5, ts_attrFSNameID = at ! 6\<rparr>))))"

section \<open>Registration\<close>

text \<open>The calls of \<open>setAttribute\<close> at the end of a registration; their results are not looked at.\<close>

fun ts_set_attributes :: "'s topology_ops \<Rightarrow> TopologyObjectId \<Rightarrow> (TopologyAttributeId \<times> TopologyVariable) list \<Rightarrow> 's \<Rightarrow> 's" where
  "ts_set_attributes V i [] s = s"
| "ts_set_attributes V i ((a, v) # avs) s = ts_set_attributes V i avs (snd (top_setAttribute V s i a v))"

definition ts_finish ::
  "'s topology_ops \<Rightarrow> string \<Rightarrow> (TopologyAttributeId \<times> TopologyVariable) list \<Rightarrow> (TopologyObject option \<times> 's) outcome \<Rightarrow>
   's TopologySystemInformation \<Rightarrow> u32 result \<times> 's TopologySystemInformation" where
  "ts_finish V message avs r ts =
     (case r of
        Inl f \<Rightarrow> (Inl (Fatal f), ts)
      | Inr (None, s) \<Rightarrow> (Inl (IllegalStateError message), ts \<lparr>ts_topology := s\<rparr>)
      | Inr (Some obj, s) \<Rightarrow> (Inr (to_id obj), ts \<lparr>ts_topology := ts_set_attributes V (to_id obj) avs s\<rparr>))"

definition ts_register_nodeID ::
  "'s topology_ops \<Rightarrow> string \<Rightarrow> 's TopologySystemInformation \<Rightarrow> NodeID result \<times> 's TopologySystemInformation" where
  "ts_register_nodeID V hostname ts =
     ts_finish V (''Could not register node: '' @ hostname) [(ts_attrNameID ts, vd_of_string hostname)]
       (top_registerObject V (ts_topology ts) (ts_pluginTopoObjectID ts) (ts_hostID ts) hostname (ts_hostID ts)) ts"

definition ts_register_deviceID ::
  "'s topology_ops \<Rightarrow> NodeID \<Rightarrow> string \<Rightarrow> 's TopologySystemInformation \<Rightarrow> DeviceID result \<times> 's TopologySystemInformation" where
  "ts_register_deviceID V nid local_unique_identifier ts =
     ts_finish V (''Could not register device: '' @ local_unique_identifier)
       [(ts_attrNodeID ts, VUint32 nid), (ts_attrDeviceNameID ts, vd_of_string local_unique_identifier)]
       (top_registerObject V (ts_topology ts) nid (ts_deviceID ts) local_unique_identifier (ts_deviceID ts)) ts"

definition ts_register_filesystemID ::
  "'s topology_ops \<Rightarrow> string \<Rightarrow> 's TopologySystemInformation \<Rightarrow> FilesystemID result \<times> 's TopologySystemInformation" where
  "ts_register_filesystemID V global_unique_identifier ts =
     ts_finish V (''Could not register filesystem: '' @ global_unique_identifier) [(ts_attrFSNameID ts, vd_of_string global_unique_identifier)]
       (top_registerObject V (ts_topology ts) (ts_pluginTopoObjectID ts) (ts_fsID ts) global_unique_identifier (ts_fsID ts)) ts"

definition ts_register_activityID ::
  "'s topology_ops \<Rightarrow> UniqueInterfaceID \<Rightarrow> string \<Rightarrow> 's TopologySystemInformation \<Rightarrow>
   UniqueComponentActivityID result \<times> 's TopologySystemInformation" where
  "ts_register_activityID V uid name ts =
     ts_finish V (''Could not register name: '' @ name) [(ts_attrNameID ts, vd_of_string name), (ts_attrUNIDID ts, VUint32 uid)]
       (top_registerObject V (ts_topology ts) uid (ts_activityID ts) name (ts_activityID ts)) ts"

definition ts_register_interfaceID ::
  "'s topology_ops \<Rightarrow> string \<Rightarrow> string \<Rightarrow> 's TopologySystemInformation \<Rightarrow> UniqueInterfaceID result \<times> 's TopologySystemInformation" where
  "ts_register_interfaceID V iface implementation ts =
     ts_finish V (''Could not register interface: '' @ iface @ '' '' @ implementation)
       [(ts_attrImplementationNameID ts, vd_of_string implementation), (ts_attrInterfaceNameID ts, vd_of_string iface)]
       (registerObjectByPath_vec V (ts_topology ts)
          [cope ''Interface'' iface ''Interface'', cope ''Implementation'' implementation ''Implementation''] (ts_pluginTopoObjectID ts)) ts"

section \<open>Lookup\<close>

text \<open>The child of a relation, the text and the number in an attribute; each throws when there is none.\<close>

definition ts_child :: "'s topology_ops \<Rightarrow> 's TopologySystemInformation \<Rightarrow> TopologyObjectId \<Rightarrow> TopologyTypeId \<Rightarrow> string \<Rightarrow> u32 result" where
  "ts_child V ts p t n =
     (case top_lookupRelation V (ts_topology ts) p t n of None \<Rightarrow> Inl not_found | Some tr \<Rightarrow> Inr (tr_child tr))"

definition ts_string :: "'s topology_ops \<Rightarrow> 's TopologySystemInformation \<Rightarrow> TopologyObjectId \<Rightarrow> TopologyAttributeId \<Rightarrow> string result" where
  "ts_string V ts i a =
     (case top_getAttribute V (ts_topology ts) i a of None \<Rightarrow> Inl not_found | Some tv \<Rightarrow> map_sum Fatal id (vd_str (tv_value tv)))"

definition ts_uint32 :: "'s topology_ops \<Rightarrow> 's TopologySystemInformation \<Rightarrow> TopologyObjectId \<Rightarrow> TopologyAttributeId \<Rightarrow> u32 result" where
  "ts_uint32 V ts i a =
     (case top_getAttribute V (ts_topology ts) i a of None \<Rightarrow> Inl not_found | Some tv \<Rightarrow> map_sum Fatal id (vd_uint32 (tv_value tv)))"

definition ts_lookup_nodeID :: "'s topology_ops \<Rightarrow> 's TopologySystemInformation \<Rightarrow> string \<Rightarrow> NodeID result" where
  "ts_lookup_nodeID V ts hostname = ts_child V ts (ts_pluginTopoObjectID ts) (ts_hostID ts) hostname"

definition ts_lookup_node_hostname :: "'s topology_ops \<Rightarrow> 's TopologySystemInformation \<Rightarrow> NodeID \<Rightarrow> string result" where
  "ts_lookup_node_hostname V ts i =
     (case top_lookupObjectById V (ts_topology ts) i of None \<Rightarrow> Inl not_found | Some obj \<Rightarrow> ts_string V ts (to_id obj) (ts_attrNameID ts))"

definition ts_lookup_deviceID :: "'s topology_ops \<Rightarrow> 's TopologySystemInformation \<Rightarrow> NodeID \<Rightarrow> string \<Rightarrow> DeviceID result" where
  "ts_lookup_deviceID V ts nid local_unique_identifier = ts_child V ts nid (ts_deviceID ts) local_unique_identifier"

definition ts_lookup_filesystemID :: "'s topology_ops \<Rightarrow> 's TopologySystemInformation \<Rightarrow> string \<Rightarrow> FilesystemID result" where
  "ts_lookup_filesystemID V ts global_unique_identifier = ts_child V ts (ts_pluginTopoObjectID ts) (ts_fsID ts) global_unique_identifier"

definition ts_lookup_activityID ::
  "'s topology_ops \<Rightarrow> 's TopologySystemInformation \<Rightarrow> UniqueInterfaceID \<Rightarrow> string \<Rightarrow> UniqueComponentActivityID result" where
  "ts_lookup_activityID V ts uid name = ts_child V ts uid (ts_activityID ts) name"

definition ts_lookup_interface_of_activity ::
  "'s topology_ops \<Rightarrow> 's TopologySystemInformation \<Rightarrow> UniqueComponentActivityID \<Rightarrow> UniqueInterfaceID result" where
  "ts_lookup_interface_of_activity V ts i = ts_uint32 V ts i (ts_attrUNIDID ts)"

definition ts_lookup_interfaceID ::
  "'s topology_ops \<Rightarrow> 's TopologySystemInformation \<Rightarrow> string \<Rightarrow> string \<Rightarrow> UniqueInterfaceID result" where
  "ts_lookup_interfaceID V ts iface implementation =
     (case lookupObjectByPath_vec V (ts_topology ts) [ope ''Interface'' iface, ope ''Implementation'' implementation] (ts_pluginTopoObjectID ts) of
        None \<Rightarrow> Inl not_found | Some obj \<Rightarrow> Inr (to_id obj))"

definition ts_lookup_node_of_device :: "'s topology_ops \<Rightarrow> 's TopologySystemInformation \<Rightarrow> DeviceID \<Rightarrow> NodeID result" where
  "ts_lookup_node_of_device V ts i = ts_uint32 V ts i (ts_attrNodeID ts)"

definition ts_lookup_device_local_name :: "'s topology_ops \<Rightarrow> 's TopologySystemInformation \<Rightarrow> DeviceID \<Rightarrow> string result" where
  "ts_lookup_device_local_name V ts i = ts_string V ts i (ts_attrDeviceNameID ts)"

definition ts_lookup_filesystem_name :: "'s topology_ops \<Rightarrow> 's TopologySystemInformation \<Rightarrow> FilesystemID \<Rightarrow> string result" where
  "ts_lookup_filesystem_name V ts i = ts_string V ts i (ts_attrFSNameID ts)"

definition ts_lookup_activity_name :: "'s topology_ops \<Rightarrow> 's TopologySystemInformation \<Rightarrow> UniqueComponentActivityID \<Rightarrow> string result" where
  "ts_lookup_activity_name V ts i = ts_string V ts i (ts_attrNameID ts)"

definition ts_lookup_interface_name :: "'s topology_ops \<Rightarrow> 's TopologySystemInformation \<Rightarrow> UniqueInterfaceID \<Rightarrow> string result" where
  "ts_lookup_interface_name V ts i = ts_string V ts i (ts_attrInterfaceNameID ts)"

definition ts_lookup_interface_implementation :: "'s topology_ops \<Rightarrow> 's TopologySystemInformation \<Rightarrow> UniqueInterfaceID \<Rightarrow> string result" where
  "ts_lookup_interface_implementation V ts i = ts_string V ts i (ts_attrImplementationNameID ts)"

section \<open>All kinds together\<close>

fun ts_register :: "'s topology_ops \<Rightarrow> 's TopologySystemInformation \<Rightarrow> si_key \<Rightarrow> u32 result \<times> 's TopologySystemInformation" where
  "ts_register V ts (HostKey h) = ts_register_nodeID V h ts"
| "ts_register V ts (DeviceKey n l) = ts_register_deviceID V n l ts"
| "ts_register V ts (FilesystemKey g) = ts_register_filesystemID V g ts"
| "ts_register V ts (InterfaceKey a b) = ts_register_interfaceID V a b ts"
| "ts_register V ts (ActivityKey u n) = ts_register_activityID V u n ts"

fun ts_look :: "'s topology_ops \<Rightarrow> 's TopologySystemInformation \<Rightarrow> si_key \<Rightarrow> u32 result" where
  "ts_look V ts (HostKey h) = ts_lookup_nodeID V ts h"
| "ts_look V ts (DeviceKey n l) = ts_lookup_deviceID V ts n l"
| "ts_look V ts (FilesystemKey g) = ts_lookup_filesystemID V ts g"
| "ts_look V ts (InterfaceKey a b) = ts_lookup_interfaceID V ts a b"
| "ts_look V ts (ActivityKey u n) = ts_lookup_activityID V ts u n"

fun ts_describes :: "'s topology_ops \<Rightarrow> 's TopologySystemInformation \<Rightarrow> u32 \<Rightarrow> si_key \<Rightarrow> bool" where
  "ts_describes V ts i (HostKey h) \<longleftrightarrow> ts_lookup_node_hostname V ts i = Inr h"
| "ts_describes V ts i (DeviceKey n l) \<longleftrightarrow> ts_lookup_device_local_name V ts i = Inr l \<and> ts_lookup_node_of_device V ts i = Inr n"
| "ts_describes V ts i (FilesystemKey g) \<longleftrightarrow> ts_lookup_filesystem_name V ts i = Inr g"
| "ts_describes V ts i (InterfaceKey a b) \<longleftrightarrow>
     ts_lookup_interface_name V ts i = Inr a \<and> ts_lookup_interface_implementation V ts i = Inr b"
| "ts_describes V ts i (ActivityKey u n) \<longleftrightarrow>
     ts_lookup_activity_name V ts i = Inr n \<and> ts_lookup_interface_of_activity V ts i = Inr u"

section \<open>Laws of the topology\<close>

text \<open>
  Beyond the contract of the topology: operations touch nothing but what they are asked to, a new
  object has a new number, and relations start at objects.
\<close>

locale topology_frame = topology V valid free for V :: "'s topology_ops" and valid and free +
  assumes registerType_frame: "valid s \<Longrightarrow> 0 < free s \<Longrightarrow> top_registerType V s n = (rty, s') \<Longrightarrow>
      top_lookupRelation V s' = top_lookupRelation V s \<and> (\<forall>m. m \<noteq> n \<longrightarrow> top_lookupTypeByName V s' m = top_lookupTypeByName V s m)"
    and registerObject_frame: "valid s \<Longrightarrow> 0 < free s \<Longrightarrow> top_registerObject V s p t n ot = Inr (ro, s') \<Longrightarrow>
      top_lookupTypeByName V s' = top_lookupTypeByName V s \<and>
      (\<forall>p' t' n'. (p', t', n') \<noteq> (p, t, n) \<longrightarrow> top_lookupRelation V s' p' t' n' = top_lookupRelation V s p' t' n') \<and>
      (\<forall>x. top_lookupRelation V s p t n = None \<longrightarrow> ro = Some x \<longrightarrow> top_lookupObjectById V s (to_id x) = None)"
    and registerObject_null: "valid s \<Longrightarrow> p \<noteq> 0 \<Longrightarrow> top_lookupObjectById V s p = None \<Longrightarrow>
      top_registerObject V s p t n ot = Inr (None, s)"
    and registerAttribute_frame: "valid s \<Longrightarrow> 0 < free s \<Longrightarrow> top_registerAttribute V s d n dt = (ra, s') \<Longrightarrow>
      top_lookupRelation V s' = top_lookupRelation V s"
    and setAttribute_frame: "valid s \<Longrightarrow> top_setAttribute V s i k v = (b, s') \<Longrightarrow>
      top_lookupRelation V s' = top_lookupRelation V s \<and> top_lookupTypeByName V s' = top_lookupTypeByName V s"
    and relation_parent: "valid s \<Longrightarrow> top_lookupRelation V s p t n = Some rel \<Longrightarrow> p = 0 \<or> top_lookupObjectById V s p \<noteq> None"

section \<open>Entries\<close>

fun kind_name :: "si_key \<Rightarrow> string" where
  "kind_name (HostKey _) = ''Host''"
| "kind_name (DeviceKey _ _) = ''Device''"
| "kind_name (FilesystemKey _) = ''Filesystem''"
| "kind_name (InterfaceKey _ _) = ''Implementation''"
| "kind_name (ActivityKey _ _) = ''Activity''"

fun key_name :: "si_key \<Rightarrow> string" where
  "key_name (HostKey h) = h"
| "key_name (DeviceKey _ l) = l"
| "key_name (FilesystemKey g) = g"
| "key_name (InterfaceKey _ b) = b"
| "key_name (ActivityKey _ n) = n"

text \<open>Texts are kept up to their first NUL.\<close>

fun key_ok :: "si_key \<Rightarrow> bool" where
  "key_ok (InterfaceKey a b) \<longleftrightarrow> no_nul a \<and> no_nul b"
| "key_ok k \<longleftrightarrow> no_nul (key_name k)"

fun key_attributes :: "'s TopologySystemInformation \<Rightarrow> si_key \<Rightarrow> (TopologyAttributeId \<times> TopologyVariable) list" where
  "key_attributes ts (HostKey h) = [(ts_attrNameID ts, vd_of_string h)]"
| "key_attributes ts (DeviceKey n l) = [(ts_attrNodeID ts, VUint32 n), (ts_attrDeviceNameID ts, vd_of_string l)]"
| "key_attributes ts (FilesystemKey g) = [(ts_attrFSNameID ts, vd_of_string g)]"
| "key_attributes ts (InterfaceKey a b) = [(ts_attrImplementationNameID ts, vd_of_string b), (ts_attrInterfaceNameID ts, vd_of_string a)]"
| "key_attributes ts (ActivityKey u n) = [(ts_attrNameID ts, vd_of_string n), (ts_attrUNIDID ts, VUint32 u)]"

lemma kind_name_same: "kind_name k = kind_name k' \<Longrightarrow> same_kind k k'"
  by (cases k; cases k') simp_all

lemma kind_name_not_interface [simp]: "kind_name k \<noteq> ''Interface''"
  by (cases k) simp_all

context topology_frame
begin

definition leads :: "'s \<Rightarrow> TopologyObjectId \<Rightarrow> TopologyTypeId \<Rightarrow> string \<Rightarrow> TopologyObjectId \<Rightarrow> bool" where
  "leads s p t n c \<longleftrightarrow> (\<exists>rel. top_lookupRelation V s p t n = Some rel \<and> tr_child rel = c)"

definition named :: "'s \<Rightarrow> string \<Rightarrow> TopologyTypeId \<Rightarrow> bool" where
  "named s n t \<longleftrightarrow> (\<exists>ty. top_lookupTypeByName V s n = Some ty \<and> tt_id ty = t)"

definition typed :: "'s \<Rightarrow> TopologyObjectId \<Rightarrow> TopologyTypeId \<Rightarrow> bool" where
  "typed s c t \<longleftrightarrow> (\<exists>x. top_lookupObjectById V s c = Some x \<and> to_type x = t)"

text \<open>The object a name is entered under, the place of its relation, and where the relation leads.\<close>

definition parent :: "'s TopologySystemInformation \<Rightarrow> 's \<Rightarrow> si_key \<Rightarrow> TopologyObjectId \<Rightarrow> bool" where
  "parent ts s k p = (case k of
     DeviceKey n _ \<Rightarrow> p = n
   | ActivityKey u _ \<Rightarrow> p = u
   | InterfaceKey a _ \<Rightarrow> leads s (ts_pluginTopoObjectID ts) (ts_interfaceID ts) a p
   | _ \<Rightarrow> p = ts_pluginTopoObjectID ts)"

definition place :: "'s TopologySystemInformation \<Rightarrow> 's \<Rightarrow> si_key \<Rightarrow> TopologyObjectId \<Rightarrow> TopologyTypeId \<Rightarrow> bool" where
  "place ts s k p t \<longleftrightarrow> parent ts s k p \<and> named s (kind_name k) t"

definition bound :: "'s TopologySystemInformation \<Rightarrow> 's \<Rightarrow> si_key \<Rightarrow> TopologyObjectId \<Rightarrow> bool" where
  "bound ts s k c \<longleftrightarrow> (\<exists>p t. place ts s k p t \<and> leads s p t (key_name k) c)"

definition holds :: "'s TopologySystemInformation \<Rightarrow> 's \<Rightarrow> si_key \<Rightarrow> TopologyObjectId \<Rightarrow> bool" where
  "holds ts s k c \<longleftrightarrow> (\<forall>(a, v) \<in> set (key_attributes ts k). \<exists>tv. top_getAttribute V s c a = Some tv \<and> tv_value tv = v)"

definition wired :: "'s TopologySystemInformation \<Rightarrow> 's \<Rightarrow> bool" where
  "wired ts s \<longleftrightarrow> named s ''Host'' (ts_hostID ts) \<and> named s ''Device'' (ts_deviceID ts) \<and> named s ''Filesystem'' (ts_fsID ts) \<and>
     named s ''Interface'' (ts_interfaceID ts) \<and> named s ''Activity'' (ts_activityID ts) \<and>
     top_lookupObjectById V s (ts_pluginTopoObjectID ts) \<noteq> None \<and>
     distinct [ts_attrNameID ts, ts_attrInterfaceNameID ts, ts_attrImplementationNameID ts, ts_attrNodeID ts, ts_attrUNIDID ts,
       ts_attrDeviceNameID ts, ts_attrFSNameID ts]"

text \<open>The objects between the module and the implementations of an interface.\<close>

definition interfaces_ok :: "'s TopologySystemInformation \<Rightarrow> 's \<Rightarrow> bool" where
  "interfaces_ok ts s \<longleftrightarrow>
     (\<forall>a c. leads s (ts_pluginTopoObjectID ts) (ts_interfaceID ts) a c \<longrightarrow> typed s c (ts_interfaceID ts)) \<and>
     (\<forall>a b c. leads s (ts_pluginTopoObjectID ts) (ts_interfaceID ts) a c \<longrightarrow>
        leads s (ts_pluginTopoObjectID ts) (ts_interfaceID ts) b c \<longrightarrow> a = b)"

definition entries_ok :: "'s TopologySystemInformation \<Rightarrow> 's \<Rightarrow> bool" where
  "entries_ok ts s \<longleftrightarrow> (\<forall>k c. bound ts s k c \<longrightarrow> (\<exists>t. named s (kind_name k) t \<and> typed s c t) \<and> holds ts s k c \<and> key_ok k)"

definition types_known :: "'s \<Rightarrow> bool" where
  "types_known s \<longleftrightarrow> (\<forall>p t n rel. top_lookupRelation V s p t n = Some rel \<longrightarrow> top_lookupTypeById V s t \<noteq> None)"

definition ts_inv_at :: "'s TopologySystemInformation \<Rightarrow> 's \<Rightarrow> bool" where
  "ts_inv_at ts s \<longleftrightarrow> valid s \<and> wired ts s \<and> interfaces_ok ts s \<and> entries_ok ts s \<and> types_known s"

lemma ts_inv_atD:
  assumes "ts_inv_at ts s"
  shows "valid s" "wired ts s" "interfaces_ok ts s" "entries_ok ts s" "types_known s"
  using assms by (simp_all add: ts_inv_at_def)

lemma types_knownD: "types_known s \<Longrightarrow> leads s p t n c \<Longrightarrow> \<exists>u. top_lookupTypeById V s t = Some u"
  unfolding types_known_def leads_def by blast

lemma interfaces_okD:
  assumes "interfaces_ok ts s" and "leads s (ts_pluginTopoObjectID ts) (ts_interfaceID ts) a c"
  shows "\<exists>x. top_lookupObjectById V s c = Some x \<and> to_type x = ts_interfaceID ts"
    and "leads s (ts_pluginTopoObjectID ts) (ts_interfaceID ts) b c \<Longrightarrow> a = b"
  using assms unfolding interfaces_ok_def typed_def by blast+

lemma entries_okD:
  assumes "entries_ok ts s" and "bound ts s k c"
  shows "\<exists>t. named s (kind_name k) t \<and> typed s c t" and "holds ts s k c" and "key_ok k"
  using assms unfolding entries_ok_def by blast+

lemma named_inject: "valid s \<Longrightarrow> named s n t \<Longrightarrow> named s m t \<Longrightarrow> n = m"
  using typeByName_inject by (auto simp: named_def)

lemma named_fun: "named s n t \<Longrightarrow> named s n t' \<Longrightarrow> t = t'"
  by (auto simp: named_def)

lemma ext_mono:
  assumes "topo_ext V s s'"
  shows "leads s p t n c \<Longrightarrow> leads s' p t n c" and "named s n t \<Longrightarrow> named s' n t" and "typed s c t \<Longrightarrow> typed s' c t"
    and "wired ts s \<Longrightarrow> wired ts s'"
  using assms by (auto simp: leads_def named_def typed_def wired_def dest: topo_extD)

lemma bound_mono: "topo_ext V s s' \<Longrightarrow> bound ts s k c \<Longrightarrow> bound ts s' k c"
proof -
  assume ext: "topo_ext V s s'" and "bound ts s k c"
  then obtain p t where "parent ts s k p" "named s (kind_name k) t" "leads s p t (key_name k) c" by (auto simp: bound_def place_def)
  moreover have "parent ts s' k p" using calculation(1) ext_mono(1) [OF ext] by (cases k) (simp_all add: parent_def)
  ultimately show ?thesis using ext_mono(1,2) [OF ext] unfolding bound_def place_def by blast
qed

lemma named_type_known: "valid s \<Longrightarrow> named s n t \<Longrightarrow> top_lookupTypeById V s t \<noteq> None"
  using typeByName by (auto simp: named_def)

lemma place_fun: "place ts s k p t \<Longrightarrow> place ts s k p' t' \<Longrightarrow> p = p' \<and> t = t'"
  by (cases k) (auto simp: place_def parent_def leads_def dest: named_fun)

text \<open>Different names have different places.\<close>

lemma place_inject:
  assumes "valid s" and "interfaces_ok ts s" and "place ts s k p t" and "place ts s k' p t" and "key_name k = key_name k'"
  shows "k = k'"
proof -
  have "kind_name k = kind_name k'" using assms(1,3,4) named_inject by (auto simp: place_def)
  then show ?thesis using assms(2-5) by (cases k; cases k') (auto simp: place_def parent_def interfaces_ok_def)
qed

text \<open>What an object holds tells its name.\<close>

lemma holds_inject:
  assumes "holds ts s k c" and "holds ts s k' c" and "same_kind k k'" and "key_ok k" and "key_ok k'"
  shows "k = k'"
  using assms by (cases k; cases k') (auto simp: holds_def vd_of_string_def)

end

lemma key_attributes_shape:
  "(a, v) \<in> set (key_attributes ts k) \<Longrightarrow> vd_type v \<notin> {FLOAT, DOUBLE, INVALID}"
  by (cases k) (auto simp: vd_of_string_def)

context topology_frame
begin

definition attributes_set :: "'s \<Rightarrow> TopologyObjectId \<Rightarrow> (TopologyAttributeId \<times> TopologyVariable) list \<Rightarrow> 's \<Rightarrow> bool" where
  "attributes_set s i avs s' \<longleftrightarrow> valid s' \<and> free s' = free s \<and> topo_ext V s s' \<and>
     top_lookupRelation V s' = top_lookupRelation V s \<and> top_lookupTypeByName V s' = top_lookupTypeByName V s \<and>
     (\<forall>j a. j \<noteq> i \<or> a \<notin> fst ` set avs \<longrightarrow> top_getAttribute V s' j a = top_getAttribute V s j a) \<and>
     (\<forall>(a, v) \<in> set avs. \<exists>tv. top_getAttribute V s' i a = Some tv \<and> tv_value tv = v)"

lemma ts_set_attributes_spec:
  assumes "valid s" and "top_lookupObjectById V s i \<noteq> None" and "distinct (map fst avs)"
    and "\<forall>(a, v) \<in> set avs. vd_type v \<notin> {FLOAT, DOUBLE, INVALID}"
  shows "attributes_set s i avs (ts_set_attributes V i avs s)"
  using assms
proof (induction avs arbitrary: s)
  case Nil
  then show ?case by (simp add: attributes_set_def)
next
  case (Cons av avs)
  obtain a v where av: "av = (a, v)" by (cases av)
  obtain b s1 where set: "top_setAttribute V s i a v = (b, s1)" by fastforce
  note spec = setAttribute_spec [OF Cons.prems(1) set] and frame = setAttribute_frame [OF Cons.prems(1) set]
  obtain tv where tv: "top_getAttribute V s1 i a = Some tv" "tv_value tv = v \<or> vd_eq (tv_value tv) v" using spec Cons.prems(2) by blast
  then have v: "tv_value tv = v" using vd_eq_exact [of v "tv_value tv"] Cons.prems(4) by (auto simp: av vd_eq_sym)
  have "top_lookupObjectById V s1 i \<noteq> None" using spec Cons.prems(2) by (auto dest: topo_extD(3))
  then have rest: "attributes_set s1 i avs (ts_set_attributes V i avs s1)" using Cons spec by (intro Cons.IH) (auto simp: av)
  then have "top_getAttribute V (ts_set_attributes V i avs s1) i a = Some tv"
    using tv(1) Cons.prems(3) by (auto simp: attributes_set_def av)
  then show ?case using rest spec frame set v Cons.prems(3) unfolding attributes_set_def
    by (auto simp: av intro: topo_ext_trans)
qed

lemma key_attributes_distinct: "wired ts s \<Longrightarrow> distinct (map fst (key_attributes ts k))"
  by (cases k) (auto simp: wired_def)

text \<open>The heart of a registration: the object is registered at its place and described.\<close>

lemma bind_step:
  assumes inv: "ts_inv_at ts s" and free: "0 < free s" and place: "place ts s k p t" and ok: "key_ok k"
    and parent: "p = 0 \<or> top_lookupObjectById V s p \<noteq> None"
  obtains x s1 s2 where "top_registerObject V s p t (key_name k) t = Inr (Some x, s1)"
    "s2 = ts_set_attributes V (to_id x) (key_attributes ts k) s1" "ts_inv_at ts s2" "free s \<le> Suc (free s2)"
    "topo_ext V s s2" "bound ts s2 k (to_id x)" "\<And>k' c. bound ts s k' c \<Longrightarrow> bound ts s2 k' c"
proof -
  note I = ts_inv_atD [OF inv]
  have entry: "(\<exists>t. named s (kind_name k') t \<and> typed s c t) \<and> holds ts s k' c \<and> key_ok k'" if "bound ts s k' c" for k' c
    using I(4) that by (simp add: entries_ok_def)
  obtain r s1 where reg: "top_registerObject V s p t (key_name k) t = Inr (r, s1)" and step: "topo_step V valid free s s1"
    and res: "case r of Some x \<Rightarrow> to_type x = t \<and> top_lookupObjectById V s1 (to_id x) = Some x \<and>
         (\<exists>rel. top_lookupRelation V s1 p t (key_name k) = Some rel \<and> tr_child rel = to_id x)
       | None \<Rightarrow> (p \<noteq> 0 \<and> top_lookupObjectById V s p = None \<or>
         (\<exists>rel x. top_lookupRelation V s p t (key_name k) = Some rel \<and> top_lookupObjectById V s (tr_child rel) = Some x \<and> to_type x \<noteq> t))"
    using registerObject_spec [OF I(1) free, of p t "key_name k" t] by (fastforce split: option.splits)
  have "typed s c t" if "leads s p t (key_name k) c" for c
  proof -
    have "bound ts s k c" using that place by (auto simp: bound_def)
    then show ?thesis using entry [of k c] place by (auto simp: place_def dest: named_fun)
  qed
  then obtain x where x: "r = Some x" using res parent by (cases r) (auto simp: leads_def typed_def)
  define s2 where "s2 = ts_set_attributes V (to_id x) (key_attributes ts k) s1"
  note frame = registerObject_frame [OF I(1) free reg]
  have v1: "valid s1" "topo_ext V s s1" "free s \<le> Suc (free s1)" "top_getAttribute V s1 = top_getAttribute V s"
    using step by (simp_all add: topo_step_def)
  have at: "attributes_set s1 (to_id x) (key_attributes ts k) s2"
    unfolding s2_def by (rule ts_set_attributes_spec) (use v1 res x key_attributes_distinct [OF I(2)] key_attributes_shape [of _ _ ts k] in auto)
  then have ext: "topo_ext V s s2" using v1(2) by (auto simp: attributes_set_def intro: topo_ext_trans)
  have named: "named s2 = named s" using at frame by (auto simp: attributes_set_def named_def fun_eq_iff)
  have new: "leads s2 p t (key_name k) c \<longleftrightarrow> c = to_id x" for c using at res x by (auto simp: attributes_set_def leads_def)
  have old: "leads s2 p' t' n' = leads s p' t' n'" if "(p', t', n') \<noteq> (p, t, key_name k)" for p' t' n'
    using at frame that by (auto simp: attributes_set_def leads_def fun_eq_iff)
  have "ts_interfaceID ts \<noteq> t"
    using I(2) place named_inject [OF I(1), of "kind_name k" t "''Interface''"] by (auto simp: wired_def place_def)
  then have iface: "leads s2 p' (ts_interfaceID ts) = leads s p' (ts_interfaceID ts)" for p' using old by (auto simp: fun_eq_iff)
  have place2: "place ts s2 = place ts s"
    by (simp add: fun_eq_iff place_def parent_def named iface split: si_key.split)
  have bound2: "bound ts s2 k' c \<longleftrightarrow> (if k' = k then c = to_id x else bound ts s k' c)" for k' c
  proof (cases "k' = k")
    case True
    have "bound ts s2 k c \<longleftrightarrow> leads s2 p t (key_name k) c"
      unfolding bound_def place2 using place place_fun [OF place] by blast
    then show ?thesis using True new by simp
  next
    case False
    then have "leads s2 p' t' (key_name k') c = leads s p' t' (key_name k') c" if "place ts s k' p' t'" for p' t'
      using place_inject [OF I(1,3) _ place, of k'] that old [of p' t' "key_name k'"] by (metis prod.inject)
    then show ?thesis using False unfolding bound_def place2 by simp blast
  qed
  have apart: "c \<noteq> to_id x" if "bound ts s k' c" "k' \<noteq> k" for k' c
  proof
    assume c: "c = to_id x"
    have "top_lookupObjectById V s c \<noteq> None" using entry [OF that(1)] by (auto simp: typed_def)
    then obtain rel where "top_lookupRelation V s p t (key_name k) = Some rel" using frame x c by (cases "top_lookupRelation V s p t (key_name k)") auto
    then have lead: "leads s p t (key_name k) (tr_child rel)" by (simp add: leads_def)
    then have "tr_child rel = c" using ext_mono(1) [OF ext lead] new c by simp
    then have b: "bound ts s k c" using place lead unfolding bound_def by blast
    have "kind_name k' = kind_name k"
      using entry [OF that(1)] entry [OF b] named_inject [OF I(1)] by (auto simp: typed_def)
    then have "k' = k" using holds_inject [OF _ _ kind_name_same] entry [OF that(1)] entry [OF b] by metis
    then show False using that(2) by simp
  qed
  have "interfaces_ok ts s2" using I(3) iface ext_mono(3) [OF ext] unfolding interfaces_ok_def by metis
  moreover have "entries_ok ts s2"
  proof -
    have "typed s2 (to_id x) t" using at res x by (auto simp: attributes_set_def typed_def dest: topo_extD(3))
    moreover have "holds ts s2 k (to_id x)" using at unfolding attributes_set_def holds_def by (elim conjE)
    ultimately have this_key: "(\<exists>t. named s2 (kind_name k) t \<and> typed s2 (to_id x) t) \<and> holds ts s2 k (to_id x) \<and> key_ok k"
      using ok place unfolding named place_def by blast
    have other: "(\<exists>t. named s2 (kind_name k') t \<and> typed s2 c t) \<and> holds ts s2 k' c \<and> key_ok k'" if b: "bound ts s k' c" "k' \<noteq> k" for k' c
    proof -
      have "top_getAttribute V s2 c = top_getAttribute V s c" using at v1(4) apart [OF b] by (auto simp: attributes_set_def)
      then show ?thesis using entry [OF b(1)] ext_mono(3) [OF ext] unfolding holds_def named by auto
    qed
    show ?thesis unfolding entries_ok_def
    proof (intro allI impI)
      fix k' c
      assume "bound ts s2 k' c"
      then show "(\<exists>t. named s2 (kind_name k') t \<and> typed s2 c t) \<and> holds ts s2 k' c \<and> key_ok k'"
        using this_key other [of k' c] bound2 [of k' c] by (cases "k' = k") simp_all
    qed
  qed
  moreover have "types_known s2"
  proof -
    have "top_lookupTypeById V s t' \<noteq> None" if rel: "top_lookupRelation V s2 p' t' n' = Some rel" for p' t' n' rel
    proof (cases "(p', t', n') = (p, t, key_name k)")
      case True
      then show ?thesis using named_type_known [OF I(1)] place by (auto simp: place_def)
    next
      case False
      then have "leads s p' t' n' (tr_child rel)" using old [OF False] rel by (auto simp: leads_def fun_eq_iff)
      then show ?thesis using I(5) unfolding leads_def types_known_def by blast
    qed
    then show ?thesis unfolding types_known_def using topo_extD(2) [OF ext] by fastforce
  qed
  ultimately have "ts_inv_at ts s2" using at ext_mono(4) [OF ext I(2)] by (simp add: ts_inv_at_def attributes_set_def)
  moreover have "free s \<le> Suc (free s2)" using at v1(3) by (simp add: attributes_set_def)
  moreover have "bound ts s2 k (to_id x)" by (simp add: bound2)
  ultimately show thesis using that [OF reg [unfolded x] s2_def _ _ ext] bound_mono [OF ext] by blast
qed

end

context topology_frame
begin

text \<open>Steps that enter no name: what is bound and described stays.\<close>

lemma inv_unbound_step:
  assumes inv: "ts_inv_at ts s" and v: "valid s'" and ext: "topo_ext V s s'" and att: "top_getAttribute V s' = top_getAttribute V s"
    and bound: "\<And>k c. bound ts s' k c \<Longrightarrow> bound ts s k c" and iface: "interfaces_ok ts s'" and types: "types_known s'"
  shows "ts_inv_at ts s'"
proof -
  note I = ts_inv_atD [OF inv]
  have "(\<exists>t. named s' (kind_name k) t \<and> typed s' c t) \<and> holds ts s' k c \<and> key_ok k" if "bound ts s' k c" for k c
    using entries_okD [OF I(4) bound [OF that]] ext_mono(2,3) [OF ext] unfolding holds_def att by blast
  then show ?thesis using v iface types ext_mono(4) [OF ext I(2)] by (simp add: ts_inv_at_def entries_ok_def)
qed

lemma implementation_type_step:
  assumes inv: "ts_inv_at ts s" and free: "0 < free s"
  obtains ty s' where "top_registerType V s ''Implementation'' = (Some ty, s')" "ts_inv_at ts s'" "free s \<le> Suc (free s')"
    "topo_ext V s s'" "named s' ''Implementation'' (tt_id ty)" "\<And>k c. bound ts s k c \<Longrightarrow> bound ts s' k c"
    "\<And>p t n c. leads s' p t n c = leads s p t n c"
proof -
  note I = ts_inv_atD [OF inv]
  obtain r s' where reg: "top_registerType V s ''Implementation'' = (r, s')" by fastforce
  obtain ty where ty: "r = Some ty" "top_lookupTypeByName V s' ''Implementation'' = Some ty" and step: "topo_step V valid free s s'"
    using registerType_spec [OF I(1) free reg] by blast
  note frame = registerType_frame [OF I(1) free reg]
  have v: "valid s'" "topo_ext V s s'" "free s \<le> Suc (free s')" "top_getAttribute V s' = top_getAttribute V s"
    using step by (simp_all add: topo_step_def)
  have leads: "leads s' = leads s" using frame by (simp add: leads_def fun_eq_iff)
  have named: "named s' n t \<Longrightarrow> named s n t" if "n \<noteq> ''Implementation''" for n t using frame that by (simp add: named_def)
  have new: "named s ''Implementation'' (tt_id ty)" if "leads s p (tt_id ty) n c" for p n c
  proof -
    obtain u where u: "top_lookupTypeById V s (tt_id ty) = Some u" using types_knownD [OF I(5) \<open>leads s p (tt_id ty) n c\<close>] by blast
    then have "top_lookupTypeByName V s (tt_name u) = Some u" "tt_id u = tt_id ty" using typeById [OF I(1)] by auto
    moreover from this have "tt_name u = ''Implementation''" using typeByName_inject [OF v(1) _ ty(2)] topo_extD(1) [OF v(2)] by blast
    ultimately show ?thesis by (auto simp: named_def)
  qed
  have was_bound: "bound ts s k c" if b: "bound ts s' k c" for k c
  proof -
    obtain p t where pt: "parent ts s' k p" "named s' (kind_name k) t" "leads s p t (key_name k) c"
      using b by (auto simp: bound_def place_def leads)
    have "named s (kind_name k) t"
    proof (cases "kind_name k = ''Implementation''")
      case True
      then have "t = tt_id ty" using pt(2) ty(2) by (simp add: named_def)
      then show ?thesis using new pt(3) True by simp
    qed (use named pt(2) in blast)
    moreover have "parent ts s k p" using pt(1) by (simp add: parent_def leads split: si_key.splits)
    ultimately show ?thesis using pt(3) by (auto simp: bound_def place_def)
  qed
  have "interfaces_ok ts s'" using I(3) ext_mono(3) [OF v(2)] by (auto simp: interfaces_ok_def leads)
  moreover have "types_known s'" using I(5) frame topo_extD(2) [OF v(2)] unfolding types_known_def by fastforce
  ultimately have "ts_inv_at ts s'" using inv_unbound_step [OF inv v(1,2,4) was_bound] by blast
  then show thesis using that [of ty s'] reg ty v leads bound_mono [OF v(2)] by (auto simp: named_def)
qed

lemma interface_object_step:
  assumes inv: "ts_inv_at ts s" and free: "0 < free s"
  obtains x s' where "top_registerObject V s (ts_pluginTopoObjectID ts) (ts_interfaceID ts) a (ts_interfaceID ts) = Inr (Some x, s')"
    "ts_inv_at ts s'" "free s \<le> Suc (free s')" "topo_ext V s s'" "top_lookupObjectById V s' (to_id x) = Some x"
    "leads s' (ts_pluginTopoObjectID ts) (ts_interfaceID ts) a (to_id x)" "\<And>k c. bound ts s k c \<Longrightarrow> bound ts s' k c"
proof (cases "top_lookupRelation V s (ts_pluginTopoObjectID ts) (ts_interfaceID ts) a")
  case (Some rel)
  note I = ts_inv_atD [OF inv]
  have lead: "leads s (ts_pluginTopoObjectID ts) (ts_interfaceID ts) a (tr_child rel)" using Some by (simp add: leads_def)
  then obtain x where x: "top_lookupObjectById V s (tr_child rel) = Some x" "to_type x = ts_interfaceID ts"
    using interfaces_okD(1) [OF I(3) lead] by blast
  then have "to_id x = tr_child rel" using objectById [OF I(1)] by blast
  then show thesis using that [of x s] registerObject_again [OF I(1) Some x(1)] x inv lead by auto
next
  case None
  note I = ts_inv_atD [OF inv]
  let ?P = "ts_pluginTopoObjectID ts" and ?i = "ts_interfaceID ts"
  obtain r s' where reg: "top_registerObject V s ?P ?i a ?i = Inr (r, s')" and step: "topo_step V valid free s s'"
    and res: "case r of Some x \<Rightarrow> to_type x = ?i \<and> top_lookupObjectById V s' (to_id x) = Some x \<and>
         (\<exists>rel. top_lookupRelation V s' ?P ?i a = Some rel \<and> tr_child rel = to_id x)
       | None \<Rightarrow> False"
    using registerObject_spec [OF I(1) free, of ?P ?i a ?i] I(2) None by (fastforce simp: wired_def split: option.splits)
  then obtain x where x: "r = Some x" "to_type x = ?i" "top_lookupObjectById V s' (to_id x) = Some x" "leads s' ?P ?i a (to_id x)"
    by (auto simp: leads_def split: option.splits)
  note frame = registerObject_frame [OF I(1) free reg]
  have v: "valid s'" "topo_ext V s s'" "free s \<le> Suc (free s')" "top_getAttribute V s' = top_getAttribute V s"
    using step by (simp_all add: topo_step_def)
  have fresh: "top_lookupObjectById V s (to_id x) = None" using frame None x(1) by blast
  have old: "leads s' p t n c = leads s p t n c" if "(p, t, n) \<noteq> (?P, ?i, a)" for p t n c using frame that by (simp add: leads_def)
  have only: "c = to_id x" if "leads s' ?P ?i a c" for c using that x(4) by (auto simp: leads_def)
  have named: "named s' = named s" using frame by (simp add: named_def fun_eq_iff)
  have noparent: "\<not> leads s (to_id x) t n c" for t n c
    using relation_parent [OF I(1)] fresh objectById [OF v(1) x(3)] by (fastforce simp: leads_def)
  have was_bound: "bound ts s k c" if b: "bound ts s' k c" for k c
  proof -
    obtain p t where pt: "parent ts s' k p" "named s (kind_name k) t" "leads s' p t (key_name k) c"
      using b by (auto simp: bound_def place_def named)
    have "t \<noteq> ?i" using pt(2) I(2) named_inject [OF I(1), of "kind_name k" t "''Interface''"] by (auto simp: wired_def)
    then have lead: "leads s p t (key_name k) c" using pt(3) old by simp
    have "parent ts s k p"
    proof (cases "\<exists>b. k = InterfaceKey a b")
      case True
      then show ?thesis using pt(1) only noparent lead by (auto simp: parent_def)
    next
      case False
      then show ?thesis using pt(1) old by (auto simp: parent_def split: si_key.splits)
    qed
    then show ?thesis using pt(2) lead by (auto simp: bound_def place_def)
  qed
  have "typed s' c ?i" if "leads s' ?P ?i b c" for b c
  proof (cases "b = a")
    case True
    then show ?thesis using that only x by (auto simp: typed_def)
  next
    case False
    then have "leads s ?P ?i b c" using that old [of ?P ?i b c] by simp
    then show ?thesis using interfaces_okD(1) [OF I(3)] ext_mono(3) [OF v(2)] by (auto simp: typed_def)
  qed
  moreover have "b = b'" if "leads s' ?P ?i b c" "leads s' ?P ?i b' c" for b b' c
  proof -
    have "c \<noteq> to_id x" if "leads s ?P ?i n c" for n using interfaces_okD(1) [OF I(3) that] fresh by auto
    then show ?thesis using that only I(3) old [of ?P ?i _ c] unfolding interfaces_ok_def by (metis prod.inject)
  qed
  ultimately have "interfaces_ok ts s'" by (auto simp: interfaces_ok_def)
  moreover have "types_known s'"
  proof -
    have "top_lookupTypeById V s t \<noteq> None" if rel: "top_lookupRelation V s' p t n = Some rel" for p t n rel
    proof (cases "(p, t, n) = (?P, ?i, a)")
      case True
      then show ?thesis using named_type_known [OF I(1)] I(2) by (auto simp: wired_def)
    next
      case False
      then show ?thesis using frame rel I(5) unfolding types_known_def by metis
    qed
    then show ?thesis unfolding types_known_def using topo_extD(2) [OF v(2)] by fastforce
  qed
  ultimately have "ts_inv_at ts s'" using inv_unbound_step [OF inv v(1,2,4) was_bound] by blast
  then show thesis using that [of x s'] reg x v bound_mono [OF v(2)] by blast
qed

end

section \<open>The contract\<close>

context topology_frame
begin

definition ts_inv :: "'s TopologySystemInformation \<Rightarrow> bool" where
  "ts_inv ts \<longleftrightarrow> ts_inv_at ts (ts_topology ts)"

definition ts_free :: "'s TopologySystemInformation \<Rightarrow> nat" where
  "ts_free ts = free (ts_topology ts)"

text \<open>What a name refers to: a device to its node, an activity to its interface.\<close>

definition ts_ready :: "'s TopologySystemInformation \<Rightarrow> si_key \<Rightarrow> bool" where
  "ts_ready ts k \<longleftrightarrow> key_ok k \<and> (case k of
     DeviceKey n _ \<Rightarrow> n = 0 \<or> top_lookupObjectById V (ts_topology ts) n \<noteq> None
   | ActivityKey u _ \<Rightarrow> u = 0 \<or> top_lookupObjectById V (ts_topology ts) u \<noteq> None
   | _ \<Rightarrow> True)"

lemma key_attributes_topology [simp]: "key_attributes (ts \<lparr>ts_topology := s\<rparr>) k = key_attributes ts k"
  by (cases k) simp_all

lemma place_topology [simp]: "place (ts \<lparr>ts_topology := s\<rparr>) s' k p t = place ts s' k p t"
  by (simp add: place_def parent_def split: si_key.split)

lemma bound_topology [simp]: "bound (ts \<lparr>ts_topology := s\<rparr>) s' k c = bound ts s' k c"
  by (simp add: bound_def)

lemma ts_inv_at_topology [simp]: "ts_inv_at (ts \<lparr>ts_topology := s\<rparr>) s' = ts_inv_at ts s'"
  by (simp add: ts_inv_at_def wired_def interfaces_ok_def entries_ok_def holds_def)

lemma ts_child_leads: "ts_child V ts p t n = Inr c \<longleftrightarrow> leads (ts_topology ts) p t n c"
  by (simp add: ts_child_def leads_def split: option.splits)

lemma place_of_kind:
  assumes "wired ts s"
  shows "place ts s (HostKey h) p t \<longleftrightarrow> p = ts_pluginTopoObjectID ts \<and> t = ts_hostID ts"
    and "place ts s (DeviceKey n l) p t \<longleftrightarrow> p = n \<and> t = ts_deviceID ts"
    and "place ts s (FilesystemKey g) p t \<longleftrightarrow> p = ts_pluginTopoObjectID ts \<and> t = ts_fsID ts"
    and "place ts s (ActivityKey u a) p t \<longleftrightarrow> p = u \<and> t = ts_activityID ts"
  using assms unfolding wired_def place_def parent_def by (auto dest: named_fun)

lemma ts_look_bound:
  assumes "ts_inv ts"
  shows "ts_look V ts k = Inr c \<longleftrightarrow> bound ts (ts_topology ts) k c"
proof -
  let ?s = "ts_topology ts"
  note I = ts_inv_atD [OF assms [unfolded ts_inv_def]]
  note P = place_of_kind [OF I(2)]
  show ?thesis
  proof (cases k)
    case (InterfaceKey a b)
    have iface: "top_lookupTypeByName V ?s ''Interface'' = Some ty \<Longrightarrow> tt_id ty = ts_interfaceID ts" for ty
      using I(2) by (auto simp: wired_def named_def)
    obtain ty where ty: "top_lookupTypeByName V ?s ''Interface'' = Some ty" using I(2) by (auto simp: wired_def named_def)
    have obj: "(\<exists>x. top_lookupObjectById V ?s (tr_child rel) = Some x \<and> to_id x = c) \<longleftrightarrow> tr_child rel = c"
      if "top_lookupRelation V ?s p t n = Some rel" for p t n rel
      using relation [OF I(1) that] objectById [OF I(1)] by fastforce
    have "ts_look V ts k = Inr c \<longleftrightarrow>
        (\<exists>x. lookupObjectByPath_vec V ?s [ope ''Interface'' a, ope ''Implementation'' b] (ts_pluginTopoObjectID ts) = Some x \<and> to_id x = c)"
      by (auto simp: InterfaceKey ts_lookup_interfaceID_def split: option.splits)
    also have "\<dots> \<longleftrightarrow> (\<exists>rel t rel2. top_lookupRelation V ?s (ts_pluginTopoObjectID ts) (ts_interfaceID ts) a = Some rel \<and>
        top_lookupTypeByName V ?s ''Implementation'' = Some t \<and> top_lookupRelation V ?s (tr_child rel) (tt_id t) b = Some rel2 \<and>
        (\<exists>x. top_lookupObjectById V ?s (tr_child rel2) = Some x \<and> to_id x = c))"
      unfolding lookupObjectByPath_vec_Cons using ty iface [OF ty] by (auto simp: ope_def)
    also have "\<dots> \<longleftrightarrow> bound ts ?s k c"
      unfolding bound_def place_def parent_def leads_def named_def InterfaceKey using obj by (simp (no_asm_simp)) blast
    finally show ?thesis .
  qed (simp_all add: bound_def P ts_lookup_nodeID_def ts_lookup_deviceID_def ts_lookup_filesystemID_def ts_lookup_activityID_def ts_child_leads)
qed

lemma ts_describes_bound:
  assumes "ts_inv ts" and "bound ts (ts_topology ts) k c"
  shows "c \<noteq> 0 \<and> ts_describes V ts c k"
proof -
  let ?s = "ts_topology ts"
  note I = ts_inv_atD [OF assms(1) [unfolded ts_inv_def]]
  note E = entries_okD [OF I(4) assms(2)]
  obtain x where x: "top_lookupObjectById V ?s c = Some x" using E(1) by (auto simp: typed_def)
  then have c: "c \<noteq> 0" "to_id x = c" using objectById [OF I(1)] by auto
  have str: "ts_string V ts i a = Inr n" if "top_getAttribute V ?s i a = Some tv" "tv_value tv = vd_of_string n" "no_nul n" for i a n tv
    using that by (simp add: ts_string_def vd_of_string_def)
  have u32: "ts_uint32 V ts i a = Inr n" if "top_getAttribute V ?s i a = Some tv" "tv_value tv = VUint32 n" for i a n tv
    using that by (simp add: ts_uint32_def)
  show ?thesis using E(2,3) c x
    by (cases k) (auto simp: holds_def ts_lookup_node_hostname_def ts_lookup_device_local_name_def ts_lookup_node_of_device_def
      ts_lookup_filesystem_name_def ts_lookup_interface_name_def ts_lookup_interface_implementation_def ts_lookup_activity_name_def
      ts_lookup_interface_of_activity_def intro: str u32)
qed

end

context topology_frame
begin

text \<open>What a successful registration leaves behind.\<close>

definition ts_entered :: "'s TopologySystemInformation \<Rightarrow> si_key \<Rightarrow> u32 \<Rightarrow> 's TopologySystemInformation \<Rightarrow> bool" where
  "ts_entered ts k i ts' \<longleftrightarrow> (\<exists>s'. ts' = ts \<lparr>ts_topology := s'\<rparr> \<and> ts_inv_at ts s' \<and> free (ts_topology ts) \<le> free s' + 3 \<and>
     topo_ext V (ts_topology ts) s' \<and> bound ts s' k i)"

lemma register_at_place:
  assumes "ts_inv_at ts s" and "0 < free s" and "place ts s k p t" and "key_ok k" and "p = 0 \<or> top_lookupObjectById V s p \<noteq> None"
    and "topo_ext V (ts_topology ts) s" and "free (ts_topology ts) \<le> free s + 2"
  shows "\<exists>i ts'. ts_finish V msg (key_attributes ts k) (top_registerObject V s p t (key_name k) t) ts = (Inr i, ts') \<and> ts_entered ts k i ts'"
proof -
  obtain x s1 s2 where b: "top_registerObject V s p t (key_name k) t = Inr (Some x, s1)"
      "s2 = ts_set_attributes V (to_id x) (key_attributes ts k) s1" "ts_inv_at ts s2" "free s \<le> Suc (free s2)"
      "topo_ext V s s2" "bound ts s2 k (to_id x)"
    by (rule bind_step [OF assms(1-5)]) blast
  then show ?thesis using assms(6,7) topo_ext_trans [OF assms(6) b(5)]
    by (intro exI [of _ "to_id x"] exI [of _ "ts \<lparr>ts_topology := s2\<rparr>"]) (auto simp: ts_finish_def ts_entered_def)
qed

lemma register_interface:
  assumes inv: "ts_inv ts" and free: "3 \<le> ts_free ts" and ok: "key_ok (InterfaceKey a b)"
  shows "\<exists>i ts'. ts_register_interfaceID V a b ts = (Inr i, ts') \<and> ts_entered ts (InterfaceKey a b) i ts'"
proof -
  let ?s = "ts_topology ts" and ?P = "ts_pluginTopoObjectID ts"
  note I = ts_inv_atD [OF inv [unfolded ts_inv_def]]
  obtain iface where ty: "top_lookupTypeByName V ?s ''Interface'' = Some iface" "tt_id iface = ts_interfaceID ts"
    using I(2) by (auto simp: wired_def named_def)
  have free1: "0 < free ?s" using free by (simp add: ts_free_def)
  obtain x s1 where x: "top_registerObject V ?s ?P (ts_interfaceID ts) a (ts_interfaceID ts) = Inr (Some x, s1)"
      "ts_inv_at ts s1" "free ?s \<le> Suc (free s1)" "topo_ext V ?s s1" "top_lookupObjectById V s1 (to_id x) = Some x"
      "leads s1 ?P (ts_interfaceID ts) a (to_id x)"
    using interface_object_step [OF inv [unfolded ts_inv_def] free1] by metis
  have free2: "0 < free s1" using x(3) free by (simp add: ts_free_def)
  obtain im s2 where im: "top_registerType V s1 ''Implementation'' = (Some im, s2)" "ts_inv_at ts s2" "free s1 \<le> Suc (free s2)"
      "topo_ext V s1 s2" "named s2 ''Implementation'' (tt_id im)" "\<And>p t n c. leads s2 p t n c = leads s1 p t n c"
    using implementation_type_step [OF x(2) free2] by metis
  have v2: "valid s2" using im(2) by (simp add: ts_inv_at_def)
  obtain im' where im': "top_lookupTypeByName V s2 ''Implementation'' = Some im'" "tt_id im' = tt_id im" using im(5) by (auto simp: named_def)
  have path: "registerObjectByPath_vec V ?s [cope ''Interface'' a ''Interface'', cope ''Implementation'' b ''Implementation''] ?P =
      top_registerObject V s2 (to_id x) (tt_id im) b (tt_id im)"
    using registerType_again [OF I(1) ty(1)] registerType_again [OF v2 im'(1)] x(1) im(1) ty(2) im'(2)
    by (simp add: registerObjectByPath_vec_def cope_def bindr_def split: sum.split option.split)
  have "place ts s2 (InterfaceKey a b) (to_id x) (tt_id im)" using im(5,6) x(6) by (simp add: place_def parent_def)
  moreover have "top_lookupObjectById V s2 (to_id x) \<noteq> None" using x(5) topo_extD(3) [OF im(4)] by fastforce
  ultimately have "\<exists>i ts'. ts_finish V (''Could not register interface: '' @ a @ '' '' @ b) (key_attributes ts (InterfaceKey a b))
      (top_registerObject V s2 (to_id x) (tt_id im) (key_name (InterfaceKey a b)) (tt_id im)) ts = (Inr i, ts') \<and> ts_entered ts (InterfaceKey a b) i ts'"
    using x(3) im(3) free ok topo_ext_trans [OF x(4) im(4)] by (intro register_at_place [OF im(2)]) (auto simp: ts_free_def)
  then show ?thesis by (simp add: ts_register_interfaceID_def path)
qed

lemma ts_register_entered:
  assumes inv: "ts_inv ts" and free: "3 \<le> ts_free ts" and ready: "ts_ready ts k"
  shows "\<exists>i ts'. ts_register V ts k = (Inr i, ts') \<and> ts_entered ts k i ts'"
proof -
  let ?s = "ts_topology ts"
  have I: "ts_inv_at ts ?s" and wired: "wired ts ?s" using inv by (simp_all add: ts_inv_def ts_inv_at_def)
  have free1: "0 < free ?s" using free by (simp add: ts_free_def)
  have P: "top_lookupObjectById V ?s (ts_pluginTopoObjectID ts) \<noteq> None" using wired by (simp add: wired_def)
  note R = register_at_place [OF I free1]
  show ?thesis
  proof (cases k)
    case (InterfaceKey a b)
    then show ?thesis using register_interface [OF inv free] ready by (simp add: ts_ready_def)
  next
    case (HostKey h)
    then show ?thesis using R [of k "ts_pluginTopoObjectID ts" "ts_hostID ts"] ready P
      by (simp add: ts_ready_def place_of_kind [OF wired] ts_register_nodeID_def)
  next
    case (DeviceKey n l)
    then show ?thesis using R [of k n "ts_deviceID ts"] ready by (simp add: ts_ready_def place_of_kind [OF wired] ts_register_deviceID_def)
  next
    case (FilesystemKey g)
    then show ?thesis using R [of k "ts_pluginTopoObjectID ts" "ts_fsID ts"] ready P
      by (simp add: ts_ready_def place_of_kind [OF wired] ts_register_filesystemID_def)
  next
    case (ActivityKey u n)
    then show ?thesis using R [of k u "ts_activityID ts"] ready by (simp add: ts_ready_def place_of_kind [OF wired] ts_register_activityID_def)
  qed
qed

end

sublocale topology_frame \<subseteq> info: system_information "ts_register V" "ts_look V" "ts_describes V" ts_inv ts_free 3 ts_ready
proof (unfold_locales, goal_cases)
  case (1 ts k)
  obtain i ts' where r: "ts_register V ts k = (Inr i, ts')" "ts_entered ts k i ts'" using ts_register_entered [OF 1] by blast
  then obtain s' where s': "ts' = ts \<lparr>ts_topology := s'\<rparr>" "ts_inv_at ts s'" "free (ts_topology ts) \<le> free s' + 3"
      "topo_ext V (ts_topology ts) s'" "bound ts s' k i" by (auto simp: ts_entered_def)
  have inv': "ts_inv ts'" using s' by (simp add: ts_inv_def)
  have look: "ts_look V ts' k' = Inr j" if "ts_look V ts k' = Inr j" for k' j
    using that bound_mono [OF s'(4), of ts k' j] ts_look_bound [OF 1(1)] ts_look_bound [OF inv'] s'(1) by simp
  have "ts_ready ts' k'" if "ts_ready ts k'" for k'
    using that topo_extD(3) [OF s'(4)] s'(1) by (fastforce simp: ts_ready_def split: si_key.splits)
  then show ?case using r(1) inv' s' look ts_look_bound [OF inv'] by (auto simp: ts_free_def)
next
  case (2 ts k i)
  then show ?case using ts_describes_bound ts_look_bound by blast
next
  case (3 ts i k k')
  then show ?case by (cases k; cases k') simp_all
qed

section \<open>Initialisation of an empty topology\<close>

context topology_frame
begin

definition quiet_step :: "'s \<Rightarrow> 's \<Rightarrow> bool" where
  "quiet_step s s' \<longleftrightarrow> valid s' \<and> topo_ext V s s' \<and> top_lookupRelation V s' = top_lookupRelation V s"

lemma quiet_step_refl: "valid s \<Longrightarrow> quiet_step s s"
  by (simp add: quiet_step_def)

lemma quiet_step_trans: "quiet_step s s' \<Longrightarrow> quiet_step s' s'' \<Longrightarrow> quiet_step s s''"
  by (auto simp: quiet_step_def intro: topo_ext_trans)

lemma ts_register_types_spec:
  assumes "valid s" and "length ns \<le> free s" and "ts_register_types V ns s = Inr (is, s')"
  shows "quiet_step s s' \<and> free s \<le> free s' + length ns \<and> length is = length ns \<and> (\<forall>j < length ns. named s' (ns ! j) (is ! j))"
  using assms
proof (induction ns arbitrary: s "is")
  case Nil
  then show ?case by (simp add: quiet_step_def)
next
  case (Cons n ns)
  obtain r s1 where reg: "top_registerType V s n = (r, s1)" by fastforce
  have free: "0 < free s" using Cons.prems(2) by simp
  obtain ty where ty: "r = Some ty" "top_lookupTypeByName V s1 n = Some ty" "topo_step V valid free s s1"
    using registerType_spec [OF Cons.prems(1) free reg] by blast
  then have q: "quiet_step s s1" "free s \<le> Suc (free s1)"
    using registerType_frame [OF Cons.prems(1) free reg] by (simp_all add: quiet_step_def topo_step_def)
  obtain js where js: "ts_register_types V ns s1 = Inr (js, s')" "is = tt_id ty # js"
    using Cons.prems(3) reg ty(1) by (auto simp: bindr_Inr_iff)
  have v1: "valid s1" "length ns \<le> free s1" using q Cons.prems(2) by (simp_all add: quiet_step_def)
  note rest = Cons.IH [OF v1 js(1)]
  have "named s1 n (tt_id ty)" using ty(2) by (auto simp: named_def)
  then have "named s' n (tt_id ty)" using rest ext_mono(2) by (auto simp: quiet_step_def)
  then have "named s' ((n # ns) ! j) (is ! j)" if "j < length (n # ns)" for j using that rest js(2) by (cases j) auto
  then show ?case using rest q js(2) quiet_step_trans [OF q(1)] by auto
qed

lemma ts_register_attributes_spec:
  assumes "valid s" and "length as \<le> free s" and "ts_register_attributes V d as s = Inr (is, s')"
  shows "quiet_step s s' \<and> free s \<le> free s' + length as \<and> length is = length as \<and>
    (\<forall>j < length as. \<exists>a. top_lookupAttributeByName V s' d (fst (as ! j)) = Some a \<and> ta_id a = is ! j)"
  using assms
proof (induction as arbitrary: s "is")
  case Nil
  then show ?case by (simp add: quiet_step_def)
next
  case (Cons nt as)
  obtain n t where nt: "nt = (n, t)" by (cases nt)
  obtain r s1 where reg: "top_registerAttribute V s d n t = (r, s1)" by fastforce
  have free: "0 < free s" using Cons.prems(2) by simp
  obtain a js where js: "r = Some a" "ts_register_attributes V d as s1 = Inr (js, s')" "is = ta_id a # js"
    using Cons.prems(3) reg by (cases r) (auto simp: nt bindr_Inr_iff)
  have a: "top_lookupAttributeByName V s1 d n = Some a" "topo_step V valid free s s1"
    using registerAttribute_spec [OF Cons.prems(1) free reg] js(1) by simp_all
  then have q: "quiet_step s s1" "free s \<le> Suc (free s1)"
    using registerAttribute_frame [OF Cons.prems(1) free reg] by (simp_all add: quiet_step_def topo_step_def)
  have v1: "valid s1" "length as \<le> free s1" using q Cons.prems(2) by (simp_all add: quiet_step_def)
  note rest = Cons.IH [OF v1 js(2)]
  have "top_lookupAttributeByName V s' d n = Some a" using rest a(1) by (auto simp: quiet_step_def dest: topo_extD)
  then have "\<exists>a. top_lookupAttributeByName V s' d (fst ((nt # as) ! j)) = Some a \<and> ta_id a = is ! j" if "j < length (nt # as)" for j
    using that rest js(3) nt by (cases j) auto
  then show ?case using rest q js(3) quiet_step_trans [OF q(1)] by auto
qed

lemma ts_init_inv:
  assumes v: "valid s" and room: "16 \<le> free s" and empty: "\<And>p t n. top_lookupRelation V s p t n = None" and init: "ts_init V s = Inr ts"
  shows "ts_inv ts" and "free s \<le> ts_free ts + 16"
proof -
  obtain t1 s1 t2 s2 r s3 where one: "top_registerType V s ''ModuleName'' = (Some t1, s1)" "top_registerType V s1 ''Module'' = (Some t2, s2)"
      "top_registerObject V s2 0 (tt_id t1) ''SystemInformationIDManager'' (tt_id t2) = Inr (r, s3)"
      "valid s3" "free s \<le> free s3 + 3" "topo_ext V s s3"
      "\<forall>x. r = Some x \<longrightarrow> registered s3 0 ''ModuleName'' ''SystemInformationIDManager'' ''Module'' x"
    by (rule register_one [OF v, of "''ModuleName''" "''Module''" 0 "''SystemInformationIDManager''"]) (use room in auto)
  have f1: "0 < free s" using room by simp
  have v1: "valid s1" "free s \<le> Suc (free s1)" "top_lookupRelation V s1 = top_lookupRelation V s"
    using registerType_spec [OF v f1 one(1)] registerType_frame [OF v f1 one(1)] by (simp_all add: topo_step_def)
  have f2: "0 < free s1" using room v1 by simp
  have v2: "valid s2" "free s1 \<le> Suc (free s2)" "top_lookupRelation V s2 = top_lookupRelation V s"
    using registerType_spec [OF v1(1) f2 one(2)] registerType_frame [OF v1(1) f2 one(2)] v1(3) by (simp_all add: topo_step_def)
  have f3: "0 < free s2" using room v1 v2 by simp
  have rel3: "t = tt_id t1" if "leads s3 p t n c" for p t n c
    using that registerObject_frame [OF v2(1) f3 one(3)] v2(3) empty by (auto simp: leads_def) (metis option.distinct(1))
  obtain x ty s4 at s5 where parts: "r = Some x" "ts_register_types V ts_type_names s3 = Inr (ty, s4)"
      "ts_register_attributes V (ty ! 0) ts_attribute_names s4 = Inr (at, s5)" and ts: "ts = \<lparr>ts_topology = s5, ts_pluginTopoObjectID = to_id x, ts_hostID = ty ! 1, ts_deviceID = ty ! 2, ts_fsID = ty ! 3,
          ts_interfaceID = ty ! 4, ts_activityID = ty ! 5, ts_attrNameID = at ! 0, ts_attrInterfaceNameID = at ! 1, ts_attrUNIDID = at ! 4,
          ts_attrImplementationNameID = at ! 2, ts_attrNodeID = at ! 3, ts_attrDeviceNameID = at ! 5, ts_attrFSNameID = at ! 6\<rparr>"
    using init one(1-3) unfolding ts_init_def by (cases r) (auto simp: bindr_Inr_iff registerObjectByPath_vec_def cope_def)
  have types: "quiet_step s3 s4" "free s3 \<le> free s4 + 6" "\<forall>j < 6. named s4 (ts_type_names ! j) (ty ! j)"
    using ts_register_types_spec [OF one(4) _ parts(2)] one(5) room by (simp_all add: ts_type_names_def)
  have v4: "valid s4" "length ts_attribute_names \<le> free s4" using types one(5) room by (simp_all add: quiet_step_def ts_attribute_names_def)
  note atts = ts_register_attributes_spec [OF v4 parts(3)]
  have q: "quiet_step s3 s5" using quiet_step_trans types(1) atts by blast
  then have v5: "valid s5" "topo_ext V s3 s5" "leads s5 = leads s3" by (auto simp: quiet_step_def leads_def fun_eq_iff)
  have names: "named s5 (ts_type_names ! j) (ty ! j)" if "j < 6" for j using types(3) that atts ext_mono(2) by (auto simp: quiet_step_def)
  have len7: "length ts_attribute_names = 7" by (simp add: ts_attribute_names_def)
  have attr: "at ! i \<noteq> at ! j" if ij: "i < 7" "j < 7" "i \<noteq> j" for i j
  proof -
    obtain a b where "top_lookupAttributeByName V s5 (ty ! 0) (fst (ts_attribute_names ! i)) = Some a" "ta_id a = at ! i"
        "top_lookupAttributeByName V s5 (ty ! 0) (fst (ts_attribute_names ! j)) = Some b" "ta_id b = at ! j"
      using atts ij unfolding len7 by blast
    moreover have "distinct (map fst ts_attribute_names)" "length ts_attribute_names = 7" by (simp_all add: ts_attribute_names_def)
    then have "fst (ts_attribute_names ! i) \<noteq> fst (ts_attribute_names ! j)" using ij by (metis length_map nth_eq_iff_index_eq nth_map)
    ultimately show ?thesis using attributeByName_inject [OF v5(1)] by metis
  qed
  have x: "top_lookupObjectById V s5 (to_id x) = Some x" "named s5 ''ModuleName'' (tt_id t1)"
  proof -
    have "registered s5 0 ''ModuleName'' ''SystemInformationIDManager'' ''Module'' x" using one(7) parts(1) registered_ext [OF _ v5(2)] by blast
    then obtain u rel where obj: "top_lookupObjectById V s5 (to_id x) = Some x" and u: "top_lookupTypeByName V s5 ''ModuleName'' = Some u"
        "leads s5 0 (tt_id u) ''SystemInformationIDManager'' (to_id x)" by (auto simp: registered_def leads_def)
    then have "tt_id u = tt_id t1" using rel3 unfolding v5(3) by blast
    then show "top_lookupObjectById V s5 (to_id x) = Some x" "named s5 ''ModuleName'' (tt_id t1)" using obj u by (auto simp: named_def)
  qed
  have "wired ts s5" using names [of 1] names [of 2] names [of 3] names [of 4] names [of 5] x(1) attr
    by (simp add: wired_def ts ts_type_names_def)
  moreover have none: "n = ''ModuleName''" if "named s5 n t" "leads s5 p t m c" for n t p m c
    using that rel3 v5(3) named_inject [OF v5(1) _ x(2)] by metis
  then have "\<not> leads s5 p (ts_interfaceID ts) m c" for p m c using names [of 4] by (fastforce simp: ts ts_type_names_def)
  then have "interfaces_ok ts s5" by (simp add: interfaces_ok_def)
  moreover have "\<not> bound ts s5 k c" for k c
  proof
    assume "bound ts s5 k c"
    then have "kind_name k = ''ModuleName''" using none by (auto simp: bound_def place_def)
    then show False by (cases k) simp_all
  qed
  then have "entries_ok ts s5" by (simp add: entries_ok_def)
  moreover have "types_known s5"
    using named_type_known [OF v5(1) x(2)] rel3 v5(3) unfolding types_known_def leads_def fun_eq_iff by metis
  ultimately show "ts_inv ts" using v5(1) by (simp add: ts_inv_def ts_inv_at_def ts)
  show "free s \<le> ts_free ts + 16" using one(5) types(2) atts len7 by (simp add: ts_free_def ts)
qed

end

section \<open>Any sequence of registrations\<close>

context topology_frame
begin

lemma bound_inject:
  assumes "ts_inv ts" and "bound ts (ts_topology ts) k c" and "bound ts (ts_topology ts) k' c"
  shows "k = k'"
proof -
  note I = ts_inv_atD [OF assms(1) [unfolded ts_inv_def]]
  note E = entries_okD [OF I(4) assms(2)] and E' = entries_okD [OF I(4) assms(3)]
  have "kind_name k = kind_name k'" using E(1) E'(1) named_inject [OF I(1)] by (auto simp: typed_def)
  then show ?thesis using holds_inject [OF E(2) E'(2) kind_name_same] E(3) E'(3) by blast
qed

text \<open>A device of an unknown node and an activity of an unknown interface are refused.\<close>

lemma ts_register_refused:
  assumes "ts_inv ts" and "3 \<le> ts_free ts" and "key_ok k" and "\<not> ts_ready ts k"
  shows "\<exists>m. ts_register V ts k = (Inl (IllegalStateError m), ts)"
proof -
  let ?s = "ts_topology ts"
  have v: "valid ?s" "0 < free ?s" using assms(1,2) by (simp_all add: ts_inv_def ts_inv_at_def ts_free_def)
  show ?thesis using assms(3,4) registerObject_null [OF v(1)]
    by (cases k) (auto simp: ts_ready_def ts_register_deviceID_def ts_register_activityID_def ts_finish_def)
qed

lemma ts_register_any:
  assumes inv: "ts_inv ts" and free: "3 \<le> ts_free ts" and ok: "key_ok k"
  shows "\<exists>r ts'. ts_register V ts k = (r, ts') \<and> ts_inv ts' \<and> ts_free ts \<le> ts_free ts' + 3 \<and>
    (\<forall>k' c. ts_look V ts k' = Inr c \<longrightarrow> ts_look V ts' k' = Inr c) \<and>
    (case r of Inr i \<Rightarrow> ts_look V ts' k = Inr i | Inl e \<Rightarrow> \<exists>m. e = IllegalStateError m)"
proof (cases "ts_ready ts k")
  case True
  from info.reg_spec [OF inv free True] show ?thesis by auto
next
  case False
  then show ?thesis using ts_register_refused [OF inv free ok] inv by fastforce
qed

lemma ts_register_all_any:
  assumes "ts_inv ts" and "3 * length ks \<le> ts_free ts" and "list_all key_ok ks"
  shows "\<exists>rs ts'. register_all (ts_register V) ts ks = (rs, ts') \<and> ts_inv ts' \<and> length rs = length ks \<and>
    (\<forall>k c. ts_look V ts k = Inr c \<longrightarrow> ts_look V ts' k = Inr c) \<and>
    (\<forall>j < length ks. case rs ! j of Inr i \<Rightarrow> ts_look V ts' (ks ! j) = Inr i | Inl e \<Rightarrow> \<exists>m. e = IllegalStateError m)"
  using assms
proof (induction ks arbitrary: ts)
  case Nil
  then show ?case by simp
next
  case (Cons k ks)
  obtain r ts1 where r: "ts_register V ts k = (r, ts1)" "ts_inv ts1" "ts_free ts \<le> ts_free ts1 + 3"
      "\<forall>k' c. ts_look V ts k' = Inr c \<longrightarrow> ts_look V ts1 k' = Inr c"
      "case r of Inr i \<Rightarrow> ts_look V ts1 k = Inr i | Inl e \<Rightarrow> \<exists>m. e = IllegalStateError m"
    using ts_register_any [OF Cons.prems(1), of k] Cons.prems(2,3) by auto
  obtain rs ts' where rest: "register_all (ts_register V) ts1 ks = (rs, ts')" "ts_inv ts'" "length rs = length ks"
      "\<forall>k c. ts_look V ts1 k = Inr c \<longrightarrow> ts_look V ts' k = Inr c"
      "\<forall>j < length ks. case rs ! j of Inr i \<Rightarrow> ts_look V ts' (ks ! j) = Inr i | Inl e \<Rightarrow> \<exists>m. e = IllegalStateError m"
    using Cons.IH [OF r(2)] r(3) Cons.prems(2,3) by auto
  have "case (r # rs) ! j of Inr i \<Rightarrow> ts_look V ts' ((k # ks) ! j) = Inr i | Inl e \<Rightarrow> \<exists>m. e = IllegalStateError m"
    if "j < length (k # ks)" for j
    using that r(5) rest(4,5) by (cases j) (auto split: sum.splits)
  then show ?case using r(1,4) rest by (intro exI [of _ "r # rs"] exI [of _ ts']) auto
qed

end

section \<open>The RAM topology\<close>

interpretation ram_frame: topology_frame ram_ops ram_inv ram_free
proof (unfold_locales, unfold ram_ops_sel, goal_cases)
  case (1 s n rty s')
  then show ?case
    by (auto simp: registerType_def add_type_def Let_def lookupTypeByName_def lookupRelation_def childMap_of_def fun_eq_iff split: option.splits)
next
  case (2 s p t n ot ro s')
  note rt = 2(1)
  show ?case
  proof (cases "vec_get (childMapsById s) p")
    case None
    then show ?thesis using 2(3) by (simp add: registerObject_def ram_lookups [OF rt])
  next
    case (Some cm)
    show ?thesis
    proof (cases "map_of cm (n, t)")
      case None
      obtain rel x rt' where add: "add_object s p cm t n ot = (rel, x, rt')" by (metis prod_cases3)
      have len: "length (objectsById s) < 4294967296" using ram_free_length(2) [OF 2(2)] .
      define new :: u32 where "new = of_nat (length (objectsById s))"
      have un: "unat new = length (objectsById s)" using len by (simp add: new_def)
      note st = add_object_state [OF rt len Some new_def add]
      have inv: "ram_inv rt'" by (rule add_object_inv [OF rt len Some None add])
      have out: "vec_get (objectsById s) new = None" "vec_get (childMapsById s) new = None" using objects_shapeD [OF rt] un by auto
      have s': "s' = rt'" "ro = Some x" using 2(3) Some None add by (simp_all add: registerObject_def ram_lookups [OF rt])
      show ?thesis unfolding s' lookupTypeByName_def lookupRelation_def ram_lookups [OF rt] ram_lookups [OF inv] st(3,4,8)
        using out Some st(2) by (auto simp: update_conv' split: option.splits)
    next
      case rel: (Some rel)
      then have "s' = s" using 2(3) Some by (auto simp: registerObject_def ram_lookups [OF rt] bindr_Inr_iff)
      then show ?thesis using rel Some by (simp add: lookupRelation_def ram_lookups [OF rt])
    qed
  qed
next
  case (3 s p t n ot)
  then have "childMap_of s p = None" using objects_shapeD(6,7) [OF 3(1), of p] by (simp add: ram_lookups [OF 3(1)])
  then show ?case by (simp add: registerObject_def)
next
  case (4 s d n dt ra s')
  then show ?case by (auto simp: registerAttribute_def add_attribute_def Let_def lookupRelation_def childMap_of_def fun_eq_iff split: option.splits)
next
  case (5 s i k v b s')
  then show ?case
    by (auto simp: setAttribute_def lookupRelation_def lookupTypeByName_def childMap_of_def fun_eq_iff split: option.splits if_splits)
next
  case (6 s p t n rel)
  then have "vec_get (childMapsById s) p \<noteq> None" by (auto simp: lookupRelation_def ram_lookups [OF 6(1)] split: option.splits)
  then show ?case using objects_shapeD(6,7) [OF 6(1), of p] by (auto simp: ram_lookups [OF 6(1)])
qed

section \<open>Properties\<close>



end
