(* ===== verification/Cache_Topology.thy ===== *)
theory Cache_Topology
  imports Topology_System_Information
begin

text \<open>
  The topology that answers from a cache and forwards what it does not know to another topology,
  \<open>monitoring/topology/cacheTopology\<close>. The other topology is the record \<open>V\<close> of operations. Locks are not modelled: every operation is one step.
  The keys of the table of relations hold references to the strings of the callers; the model takes the text they had when they were entered.
  \<open>atof\<close> is the function of the C library.
\<close>

section \<open>The cache\<close>

record CompareRelation =
  cr_parent :: TopologyObjectId
  cr_relationType :: TopologyTypeId
  cr_childName :: string

definition CompareRelation_eq :: "CompareRelation \<Rightarrow> CompareRelation \<Rightarrow> bool" where
  "CompareRelation_eq a b \<longleftrightarrow> cr_parent a = cr_parent b \<and> cr_relationType a = cr_relationType b \<and> cr_childName a = cr_childName b"

definition CompareRelation_less :: "CompareRelation \<Rightarrow> CompareRelation \<Rightarrow> bool" where
  "CompareRelation_less a b = strcmp_lt (cr_childName a) (cr_childName b)"

text \<open>\<open>at\<close> and \<open>operator[]\<close> of \<open>std::map\<close> find a key that is neither less nor greater.\<close>

definition equivalent :: "CompareRelation \<Rightarrow> CompareRelation \<Rightarrow> bool" where
  "equivalent a b \<longleftrightarrow> \<not> CompareRelation_less a b \<and> \<not> CompareRelation_less b a"

fun relation_at :: "(CompareRelation \<times> 'a) list \<Rightarrow> CompareRelation \<Rightarrow> 'a option" where
  "relation_at [] k = None"
| "relation_at ((l, v) # m) k = (if equivalent k l then Some v else relation_at m k)"

record CacheHelper =
  ch_typesByName :: "string \<rightharpoonup> TopologyType"
  ch_typesById :: "TopologyTypeId \<rightharpoonup> TopologyType"
  ch_objectsById :: "TopologyObjectId \<rightharpoonup> TopologyObject"
  ch_relationsByStruct :: "(CompareRelation \<times> TopologyRelation) list"
  ch_attributesByName :: "TopologyTypeId \<times> string \<rightharpoonup> TopologyAttribute"
  ch_attributesById :: "TopologyAttributeId \<rightharpoonup> TopologyAttribute"
  ch_valuesByPair :: "TopologyObjectId \<times> TopologyAttributeId \<rightharpoonup> TopologyValue"

definition CacheHelper_new :: CacheHelper where
  "CacheHelper_new = \<lparr>ch_typesByName = Map.empty, ch_typesById = Map.empty, ch_objectsById = Map.empty, ch_relationsByStruct = [],
     ch_attributesByName = Map.empty, ch_attributesById = Map.empty, ch_valuesByPair = Map.empty\<rparr>"

definition ch_registerType :: "CacheHelper \<Rightarrow> string \<Rightarrow> TopologyTypeId \<Rightarrow> CacheHelper" where
  "ch_registerType ch name anId =
     (case ch_typesByName ch name of
        Some result \<Rightarrow> ch
      | None \<Rightarrow>
          let newType = \<lparr>tt_name = name, tt_id = anId\<rparr>
          in ch \<lparr>ch_typesByName := (ch_typesByName ch)(name \<mapsto> newType), ch_typesById := (ch_typesById ch)(anId \<mapsto> newType)\<rparr>)"

definition ch_registerObject :: "CacheHelper \<Rightarrow> TopologyTypeId \<Rightarrow> TopologyObjectId \<Rightarrow> CacheHelper" where
  "ch_registerObject ch objectType anId =
     (case ch_objectsById ch anId of
        Some result \<Rightarrow> ch
      | None \<Rightarrow> ch \<lparr>ch_objectsById := (ch_objectsById ch)(anId \<mapsto> \<lparr>to_id = anId, to_type = objectType\<rparr>)\<rparr>)"

definition ch_lookupRelation :: "CacheHelper \<Rightarrow> TopologyObjectId \<Rightarrow> TopologyTypeId \<Rightarrow> string \<Rightarrow> TopologyRelation option" where
  "ch_lookupRelation ch parent relationType childName =
     relation_at (ch_relationsByStruct ch) \<lparr>cr_parent = parent, cr_relationType = relationType, cr_childName = childName\<rparr>"

definition ch_registerRelation ::
  "CacheHelper \<Rightarrow> TopologyObjectId \<Rightarrow> TopologyTypeId \<Rightarrow> string \<Rightarrow> TopologyObjectId \<Rightarrow> CacheHelper" where
  "ch_registerRelation ch parent relationType childName child =
     (let key = \<lparr>cr_parent = parent, cr_relationType = relationType, cr_childName = childName\<rparr>
      in case relation_at (ch_relationsByStruct ch) key of
           Some tmpRelation \<Rightarrow> ch
         | None \<Rightarrow>
             ch \<lparr>ch_relationsByStruct := (key, \<lparr>tr_childName = childName, tr_parent = parent, tr_child = child, tr_type = relationType\<rparr>) #
                   ch_relationsByStruct ch\<rparr>)"

definition ch_registerAttribute ::
  "CacheHelper \<Rightarrow> TopologyTypeId \<Rightarrow> string \<Rightarrow> Type \<Rightarrow> TopologyAttributeId \<Rightarrow> CacheHelper" where
  "ch_registerAttribute ch domain name datatype attrId =
     (case ch_attributesByName ch (domain, name) of
        Some result \<Rightarrow> ch
      | None \<Rightarrow>
          let newAttribute = \<lparr>ta_name = name, ta_id = attrId, ta_domain = domain, ta_dataType = datatype\<rparr>
          in ch \<lparr>ch_attributesByName := (ch_attributesByName ch)((domain, name) \<mapsto> newAttribute),
                 ch_attributesById := (ch_attributesById ch)(attrId \<mapsto> newAttribute)\<rparr>)"

definition ch_registerValue :: "CacheHelper \<Rightarrow> TopologyObjectId \<Rightarrow> TopologyAttributeId \<Rightarrow> TopologyVariable \<Rightarrow> CacheHelper" where
  "ch_registerValue ch object attribute myData =
     ch \<lparr>ch_valuesByPair := (ch_valuesByPair ch)((object, attribute) \<mapsto> \<lparr>tv_value = myData, tv_object = object, tv_attribute = attribute\<rparr>)\<rparr>"

section \<open>The topology in front of it\<close>

record 's CacheTopology =
  ct_ramCache :: "CacheHelper option"
  ct_topologyBackend :: 's

definition CacheTopology_start :: "'s CacheTopology \<Rightarrow> 's CacheTopology" where
  "CacheTopology_start ct = ct \<lparr>ct_ramCache := Some CacheHelper_new\<rparr>"

definition CacheTopology_stop :: "'s CacheTopology \<Rightarrow> 's CacheTopology" where
  "CacheTopology_stop ct = ct \<lparr>ct_ramCache := None\<rparr>"

text \<open>An operation on the cache and the topology behind it; the pointer to the cache is null after \<open>stop\<close>.\<close>

definition with_cache :: "(CacheHelper \<Rightarrow> 's \<Rightarrow> ('a \<times> CacheHelper \<times> 's) outcome) \<Rightarrow> 's CacheTopology \<Rightarrow> ('a \<times> 's CacheTopology) outcome" where
  "with_cache f ct =
     (case ct_ramCache ct of
        None \<Rightarrow> Inl (Undefined ''ramCache'')
      | Some ch \<Rightarrow> bindr (f ch (ct_topologyBackend ct)) (\<lambda>(r, ch', s'). Inr (r, ct \<lparr>ct_ramCache := Some ch', ct_topologyBackend := s'\<rparr>)))"

definition ct_registerType :: "'s topology_ops \<Rightarrow> 's CacheTopology \<Rightarrow> string \<Rightarrow> (TopologyType option \<times> 's CacheTopology) outcome" where
  "ct_registerType V ct name = with_cache (\<lambda>ch s.
     case ch_typesByName ch name of
       Some tmpType \<Rightarrow> Inr (Some tmpType, ch, s)
     | None \<Rightarrow> (case top_registerType V s name of
           (None, s1) \<Rightarrow> Inr (None, ch, s1)
         | (Some tmpType, s1) \<Rightarrow> Inr (Some tmpType, ch_registerType ch name (tt_id tmpType), s1))) ct"

definition ct_lookupTypeByName :: "'s topology_ops \<Rightarrow> 's CacheTopology \<Rightarrow> string \<Rightarrow> (TopologyType option \<times> 's CacheTopology) outcome" where
  "ct_lookupTypeByName V ct name = with_cache (\<lambda>ch s.
     case ch_typesByName ch name of
       Some tmpType \<Rightarrow> Inr (Some tmpType, ch, s)
     | None \<Rightarrow> (case top_lookupTypeByName V s name of
           None \<Rightarrow> Inr (None, ch, s)
         | Some tmpType \<Rightarrow> Inr (Some tmpType, ch_registerType ch name (tt_id tmpType), s))) ct"

definition ct_lookupTypeById :: "'s topology_ops \<Rightarrow> 's CacheTopology \<Rightarrow> TopologyTypeId \<Rightarrow> (TopologyType option \<times> 's CacheTopology) outcome" where
  "ct_lookupTypeById V ct anId = with_cache (\<lambda>ch s.
     case ch_typesById ch anId of
       Some tmpType \<Rightarrow> Inr (Some tmpType, ch, s)
     | None \<Rightarrow> (case top_lookupTypeById V s anId of
           None \<Rightarrow> Inr (None, ch, s)
         | Some tmpType \<Rightarrow> Inr (Some tmpType, ch_registerType ch (tt_name tmpType) anId, s))) ct"

definition ct_registerObject ::
  "'s topology_ops \<Rightarrow> 's CacheTopology \<Rightarrow> TopologyObjectId \<Rightarrow> TopologyTypeId \<Rightarrow> string \<Rightarrow> TopologyTypeId \<Rightarrow>
   (TopologyObject option \<times> 's CacheTopology) outcome" where
  "ct_registerObject V ct parentId relationType childName objectType = with_cache (\<lambda>ch s.
     case ch_lookupRelation ch parentId relationType childName of
       None \<Rightarrow> bindr (top_registerObject V s parentId relationType childName objectType) (\<lambda>(r, s1).
         case r of
           None \<Rightarrow> Inr (None, ch, s1)
         | Some tmpObject \<Rightarrow>
             Inr (Some tmpObject,
               ch_registerRelation (ch_registerObject ch (to_type tmpObject) (to_id tmpObject)) parentId relationType childName (to_id tmpObject), s1))
     | Some tmpRelation \<Rightarrow>
         (case ch_objectsById ch (tr_child tmpRelation) of
            Some tmpObject \<Rightarrow> Inr (Some tmpObject, ch, s)
          | None \<Rightarrow> bindr (top_registerObject V s parentId relationType childName objectType) (\<lambda>(r, s1). Inr (r, ch, s1)))) ct"

definition ct_lookupObjectById :: "'s topology_ops \<Rightarrow> 's CacheTopology \<Rightarrow> TopologyObjectId \<Rightarrow> (TopologyObject option \<times> 's CacheTopology) outcome" where
  "ct_lookupObjectById V ct anId = with_cache (\<lambda>ch s.
     case ch_objectsById ch anId of
       Some tmpObject \<Rightarrow> Inr (Some tmpObject, ch, s)
     | None \<Rightarrow> (case top_lookupObjectById V s anId of
           None \<Rightarrow> Inr (None, ch, s)
         | Some tmpObject \<Rightarrow> Inr (Some tmpObject, ch_registerObject ch (to_type tmpObject) (to_id tmpObject), s))) ct"

definition ct_registerRelation ::
  "'s topology_ops \<Rightarrow> 's CacheTopology \<Rightarrow> TopologyObjectId \<Rightarrow> TopologyTypeId \<Rightarrow> string \<Rightarrow> TopologyObjectId \<Rightarrow>
   (TopologyRelation option \<times> 's CacheTopology) outcome" where
  "ct_registerRelation V ct parent relationType childName child = with_cache (\<lambda>ch s.
     case ch_lookupRelation ch parent relationType childName of
       Some tmpRelation \<Rightarrow> Inr (Some tmpRelation, ch, s)
     | None \<Rightarrow> (case top_registerRelation V s parent relationType childName child of
           (None, s1) \<Rightarrow> Inr (None, ch, s1)
         | (Some tmpRelation, s1) \<Rightarrow> Inr (Some tmpRelation, ch_registerRelation ch parent relationType childName child, s1))) ct"

definition ct_lookupRelation ::
  "'s topology_ops \<Rightarrow> 's CacheTopology \<Rightarrow> TopologyObjectId \<Rightarrow> TopologyTypeId \<Rightarrow> string \<Rightarrow>
   (TopologyRelation option \<times> 's CacheTopology) outcome" where
  "ct_lookupRelation V ct parent relationType childName = with_cache (\<lambda>ch s.
     case ch_lookupRelation ch parent relationType childName of
       Some tmpRelation \<Rightarrow> Inr (Some tmpRelation, ch, s)
     | None \<Rightarrow> (case top_lookupRelation V s parent relationType childName of
           None \<Rightarrow> Inr (None, ch, s)
         | Some tmpRelation \<Rightarrow> Inr (Some tmpRelation, ch_registerRelation ch parent relationType childName (tr_child tmpRelation), s))) ct"

definition ct_enumerateChildren :: "'s topology_ops \<Rightarrow> 's CacheTopology \<Rightarrow> TopologyObjectId \<Rightarrow> TopologyTypeId \<Rightarrow> TopologyRelation list" where
  "ct_enumerateChildren V ct parent relationType = top_enumerateChildren V (ct_topologyBackend ct) parent relationType"

definition ct_enumerateParents :: "'s topology_ops \<Rightarrow> 's CacheTopology \<Rightarrow> TopologyObjectId \<Rightarrow> TopologyTypeId \<Rightarrow> TopologyRelation list" where
  "ct_enumerateParents V ct child relationType = top_enumerateParents V (ct_topologyBackend ct) child relationType"

definition ct_registerAttribute ::
  "'s topology_ops \<Rightarrow> 's CacheTopology \<Rightarrow> TopologyTypeId \<Rightarrow> string \<Rightarrow> Type \<Rightarrow> (TopologyAttribute option \<times> 's CacheTopology) outcome" where
  "ct_registerAttribute V ct domain name datatype = with_cache (\<lambda>ch s.
     case ch_attributesByName ch (domain, name) of
       Some tmpAttribute \<Rightarrow> Inr (Some tmpAttribute, ch, s)
     | None \<Rightarrow> (case top_registerAttribute V s domain name datatype of
           (None, s1) \<Rightarrow> Inr (None, ch, s1)
         | (Some tmpAttribute, s1) \<Rightarrow> Inr (Some tmpAttribute, ch_registerAttribute ch domain name datatype (ta_id tmpAttribute), s1))) ct"

definition ct_lookupAttributeByName ::
  "'s topology_ops \<Rightarrow> 's CacheTopology \<Rightarrow> TopologyTypeId \<Rightarrow> string \<Rightarrow> (TopologyAttribute option \<times> 's CacheTopology) outcome" where
  "ct_lookupAttributeByName V ct domain name = with_cache (\<lambda>ch s.
     case ch_attributesByName ch (domain, name) of
       Some tmpAttribute \<Rightarrow> Inr (Some tmpAttribute, ch, s)
     | None \<Rightarrow> (case top_lookupAttributeByName V s domain name of
           None \<Rightarrow> Inr (None, ch, s)
         | Some tmpAttribute \<Rightarrow>
             Inr (Some tmpAttribute, ch_registerAttribute ch domain name (ta_dataType tmpAttribute) (ta_id tmpAttribute), s))) ct"

definition ct_lookupAttributeById ::
  "'s topology_ops \<Rightarrow> 's CacheTopology \<Rightarrow> TopologyAttributeId \<Rightarrow> (TopologyAttribute option \<times> 's CacheTopology) outcome" where
  "ct_lookupAttributeById V ct attributeId = with_cache (\<lambda>ch s.
     case ch_attributesById ch attributeId of
       Some tmpAttribute \<Rightarrow> Inr (Some tmpAttribute, ch, s)
     | None \<Rightarrow> (case top_lookupAttributeById V s attributeId of
           None \<Rightarrow> Inr (None, ch, s)
         | Some tmpAttribute \<Rightarrow>
             Inr (Some tmpAttribute,
               ch_registerAttribute ch (ta_domain tmpAttribute) (ta_name tmpAttribute) (ta_dataType tmpAttribute) attributeId, s))) ct"

text \<open>A value is copied by printing it and reading the text.\<close>

definition converted_value :: "(string \<Rightarrow> float64) \<Rightarrow> TopologyVariable \<Rightarrow> TopologyVariable outcome" where
  "converted_value atof value = bindr (vd_toStr value) (vd_from_string atof (vd_type value))"

definition ct_setAttribute ::
  "(string \<Rightarrow> float64) \<Rightarrow> 's topology_ops \<Rightarrow> 's CacheTopology \<Rightarrow> TopologyObjectId \<Rightarrow> TopologyAttributeId \<Rightarrow> TopologyVariable \<Rightarrow>
   (bool \<times> 's CacheTopology) outcome" where
  "ct_setAttribute atof V ct objectId attributeId value =
     bindr (converted_value atof value) (\<lambda>convertedValue.
     with_cache (\<lambda>ch s.
       if (case ch_valuesByPair ch (objectId, attributeId) of None \<Rightarrow> False | Some oldValue \<Rightarrow> vd_eq (tv_value oldValue) value)
       then Inr (True, ch, s)
       else case top_setAttribute V s objectId attributeId value of
         (ok, s1) \<Rightarrow> Inr (ok, if ok then ch_registerValue ch objectId attributeId convertedValue else ch, s1)) ct)"

definition ct_getAttribute ::
  "(string \<Rightarrow> float64) \<Rightarrow> 's topology_ops \<Rightarrow> 's CacheTopology \<Rightarrow> TopologyObjectId \<Rightarrow> TopologyAttributeId \<Rightarrow>
   (TopologyValue option \<times> 's CacheTopology) outcome" where
  "ct_getAttribute atof V ct object attribute = with_cache (\<lambda>ch s.
     case ch_valuesByPair ch (object, attribute) of
       Some value \<Rightarrow> Inr (Some value, ch, s)
     | None \<Rightarrow> (case top_getAttribute V s object attribute of
           None \<Rightarrow> Inr (None, ch, s)
         | Some value \<Rightarrow> bindr (converted_value atof (tv_value value)) (\<lambda>convertedValue.
             Inr (Some value, ch_registerValue ch object attribute convertedValue, s)))) ct"

definition ct_enumerateAttributes :: "'s topology_ops \<Rightarrow> 's CacheTopology \<Rightarrow> TopologyObjectId \<Rightarrow> TopologyValue list" where
  "ct_enumerateAttributes V ct object = top_enumerateAttributes V (ct_topologyBackend ct) object"

section \<open>All operations\<close>

datatype topology_op =
  ORegisterType string | OTypeByName string | OTypeById TopologyTypeId
| ORegisterObject TopologyObjectId TopologyTypeId string TopologyTypeId | OObjectById TopologyObjectId
| ORegisterRelation TopologyObjectId TopologyTypeId string TopologyObjectId | OLookupRelation TopologyObjectId TopologyTypeId string
| OChildren TopologyObjectId TopologyTypeId | OParents TopologyObjectId TopologyTypeId
| ORegisterAttribute TopologyTypeId string Type | OAttributeByName TopologyTypeId string | OAttributeById TopologyAttributeId
| OSetAttribute TopologyObjectId TopologyAttributeId TopologyVariable | OGetAttribute TopologyObjectId TopologyAttributeId
| OAttributes TopologyObjectId

datatype topology_reply =
  RType "TopologyType option" | RObject "TopologyObject option" | RRelation "TopologyRelation option" | RRelations "TopologyRelation list"
| RAttribute "TopologyAttribute option" | RDone bool | RValue "TopologyValue option" | RValues "TopologyValue list"

fun direct :: "'s topology_ops \<Rightarrow> 's \<Rightarrow> topology_op \<Rightarrow> (topology_reply \<times> 's) outcome" where
  "direct V s (ORegisterType n) = Inr (apfst RType (top_registerType V s n))"
| "direct V s (OTypeByName n) = Inr (RType (top_lookupTypeByName V s n), s)"
| "direct V s (OTypeById i) = Inr (RType (top_lookupTypeById V s i), s)"
| "direct V s (ORegisterObject p t n ot) = bindr (top_registerObject V s p t n ot) (\<lambda>r. Inr (apfst RObject r))"
| "direct V s (OObjectById i) = Inr (RObject (top_lookupObjectById V s i), s)"
| "direct V s (ORegisterRelation p t n c) = Inr (apfst RRelation (top_registerRelation V s p t n c))"
| "direct V s (OLookupRelation p t n) = Inr (RRelation (top_lookupRelation V s p t n), s)"
| "direct V s (OChildren p t) = Inr (RRelations (top_enumerateChildren V s p t), s)"
| "direct V s (OParents c t) = Inr (RRelations (top_enumerateParents V s c t), s)"
| "direct V s (ORegisterAttribute d n dt) = Inr (apfst RAttribute (top_registerAttribute V s d n dt))"
| "direct V s (OAttributeByName d n) = Inr (RAttribute (top_lookupAttributeByName V s d n), s)"
| "direct V s (OAttributeById i) = Inr (RAttribute (top_lookupAttributeById V s i), s)"
| "direct V s (OSetAttribute i a v) = Inr (apfst RDone (top_setAttribute V s i a v))"
| "direct V s (OGetAttribute i a) = Inr (RValue (top_getAttribute V s i a), s)"
| "direct V s (OAttributes i) = Inr (RValues (top_enumerateAttributes V s i), s)"

definition reply :: "('a \<Rightarrow> topology_reply) \<Rightarrow> ('a \<times> 's) outcome \<Rightarrow> (topology_reply \<times> 's) outcome" where
  "reply f x = bindr x (\<lambda>r. Inr (apfst f r))"

fun cached ::
  "(string \<Rightarrow> float64) \<Rightarrow> 's topology_ops \<Rightarrow> 's CacheTopology \<Rightarrow> topology_op \<Rightarrow> (topology_reply \<times> 's CacheTopology) outcome" where
  "cached atof V ct (ORegisterType n) = reply RType (ct_registerType V ct n)"
| "cached atof V ct (OTypeByName n) = reply RType (ct_lookupTypeByName V ct n)"
| "cached atof V ct (OTypeById i) = reply RType (ct_lookupTypeById V ct i)"
| "cached atof V ct (ORegisterObject p t n ot) = reply RObject (ct_registerObject V ct p t n ot)"
| "cached atof V ct (OObjectById i) = reply RObject (ct_lookupObjectById V ct i)"
| "cached atof V ct (ORegisterRelation p t n c) = reply RRelation (ct_registerRelation V ct p t n c)"
| "cached atof V ct (OLookupRelation p t n) = reply RRelation (ct_lookupRelation V ct p t n)"
| "cached atof V ct (OChildren p t) = Inr (RRelations (ct_enumerateChildren V ct p t), ct)"
| "cached atof V ct (OParents c t) = Inr (RRelations (ct_enumerateParents V ct c t), ct)"
| "cached atof V ct (ORegisterAttribute d n dt) = reply RAttribute (ct_registerAttribute V ct d n dt)"
| "cached atof V ct (OAttributeByName d n) = reply RAttribute (ct_lookupAttributeByName V ct d n)"
| "cached atof V ct (OAttributeById i) = reply RAttribute (ct_lookupAttributeById V ct i)"
| "cached atof V ct (OSetAttribute i a v) = reply RDone (ct_setAttribute atof V ct i a v)"
| "cached atof V ct (OGetAttribute i a) = reply RValue (ct_getAttribute atof V ct i a)"
| "cached atof V ct (OAttributes i) = Inr (RValues (ct_enumerateAttributes V ct i), ct)"

fun run_ops :: "('s \<Rightarrow> 'o \<Rightarrow> ('r \<times> 's) outcome) \<Rightarrow> 's \<Rightarrow> 'o list \<Rightarrow> ('r list \<times> 's) outcome" where
  "run_ops step s [] = Inr ([], s)"
| "run_ops step s (x # xs) = bindr (step s x) (\<lambda>(r, s1). bindr (run_ops step s1 xs) (\<lambda>(rs, s2). Inr (r # rs, s2)))"

section \<open>Coherence\<close>

text \<open>Values that the copy through text does not change.\<close>

definition printable :: "TopologyVariable \<Rightarrow> bool" where
  "printable v \<longleftrightarrow> vd_wf v \<and> vd_type v \<notin> {FLOAT, DOUBLE, INVALID} \<and> (\<forall>u. v = VUint64 u \<longrightarrow> unat u < 2 ^ 63)"

lemma converted_printable: "printable v \<Longrightarrow> converted_value atof v = Inr v"
proof -
  assume v: "printable v"
  then obtain s where s: "vd_toStr v = Inr s" by (cases v) (simp_all add: printable_def)
  then have "vd_from_string atof (vd_type v) s = Inr v" using v by (intro vd_text_roundtrip) (auto simp: printable_def)
  then show ?thesis using s by (simp add: converted_value_def)
qed

text \<open>
  The requests under which the cache cannot be told from the topology behind it: a child name is used at one place
  only, and what is registered again is registered as it was.
\<close>

fun fits :: "'s topology_ops \<Rightarrow> 's \<Rightarrow> topology_op \<Rightarrow> bool" where
  "fits V s (ORegisterObject p t n ot) \<longleftrightarrow> (\<forall>p' t' rel. top_lookupRelation V s p' t' n = Some rel \<longrightarrow> p' = p \<and> t' = t \<and>
     (\<forall>x. top_lookupObjectById V s (tr_child rel) = Some x \<longrightarrow> to_type x = ot))"
| "fits V s (ORegisterRelation p t n c) \<longleftrightarrow> (\<forall>p' t' rel. top_lookupRelation V s p' t' n = Some rel \<longrightarrow> p' = p \<and> t' = t \<and> tr_child rel = c)"
| "fits V s (OLookupRelation p t n) \<longleftrightarrow> (\<forall>p' t' rel. top_lookupRelation V s p' t' n = Some rel \<longrightarrow> p' = p \<and> t' = t)"
| "fits V s (ORegisterAttribute d n dt) \<longleftrightarrow> (\<forall>a. top_lookupAttributeByName V s d n = Some a \<longrightarrow> ta_dataType a = dt)"
| "fits V s (OSetAttribute i a v) \<longleftrightarrow> printable v"
| "fits V s (OGetAttribute i a) \<longleftrightarrow> (\<forall>tv. top_getAttribute V s i a = Some tv \<longrightarrow> printable (tv_value tv))"
| "fits V s _ \<longleftrightarrow> True"

fun fits_run :: "'s topology_ops \<Rightarrow> 's \<Rightarrow> topology_op list \<Rightarrow> bool" where
  "fits_run V s [] \<longleftrightarrow> True"
| "fits_run V s (x # xs) \<longleftrightarrow> fits V s x \<and> (\<forall>r s'. direct V s x = Inr (r, s') \<longrightarrow> fits_run V s' xs)"

definition coherent :: "'s topology_ops \<Rightarrow> CacheHelper \<Rightarrow> 's \<Rightarrow> bool" where
  "coherent V ch s \<longleftrightarrow>
     (\<forall>n ty. ch_typesByName ch n = Some ty \<longrightarrow> top_lookupTypeByName V s n = Some ty) \<and>
     (\<forall>i ty. ch_typesById ch i = Some ty \<longrightarrow> top_lookupTypeById V s i = Some ty) \<and>
     (\<forall>i x. ch_objectsById ch i = Some x \<longrightarrow> top_lookupObjectById V s i = Some x) \<and>
     (\<forall>(k, rel) \<in> set (ch_relationsByStruct ch). cr_childName k = tr_childName rel \<and>
        top_lookupRelation V s (tr_parent rel) (tr_type rel) (tr_childName rel) = Some rel) \<and>
     (\<forall>k a. ch_attributesByName ch k = Some a \<longrightarrow> top_lookupAttributeByName V s (fst k) (snd k) = Some a) \<and>
     (\<forall>i a. ch_attributesById ch i = Some a \<longrightarrow> top_lookupAttributeById V s i = Some a) \<and>
     (\<forall>k tv. ch_valuesByPair ch k = Some tv \<longrightarrow> top_getAttribute V s (fst k) (snd k) = Some tv)"

lemma coherent_new [simp]: "coherent V CacheHelper_new s"
  by (simp add: coherent_def CacheHelper_new_def)

lemma coherentD:
  assumes "coherent V ch s"
  shows "ch_typesByName ch n = Some ty \<Longrightarrow> top_lookupTypeByName V s n = Some ty"
    and "ch_typesById ch i = Some ty \<Longrightarrow> top_lookupTypeById V s i = Some ty"
    and "ch_objectsById ch i = Some x \<Longrightarrow> top_lookupObjectById V s i = Some x"
    and "ch_attributesByName ch (d, n) = Some a \<Longrightarrow> top_lookupAttributeByName V s d n = Some a"
    and "ch_attributesById ch i = Some a \<Longrightarrow> top_lookupAttributeById V s i = Some a"
    and "ch_valuesByPair ch (i, k) = Some tv \<Longrightarrow> top_getAttribute V s i k = Some tv"
  using assms by (auto simp: coherent_def)

lemma equivalent_iff: "equivalent a b \<longleftrightarrow> cr_childName a = cr_childName b"
  using strcmp_trichotomy by (auto simp: equivalent_def CompareRelation_less_def)

lemma relation_at_Some: "relation_at m k = Some rel \<Longrightarrow> \<exists>l. (l, rel) \<in> set m \<and> cr_childName l = cr_childName k"
  by (induction m k rule: relation_at.induct) (auto simp: equivalent_iff split: if_splits)

lemma coherent_relation:
  assumes "coherent V ch s" and "ch_lookupRelation ch p t n = Some rel"
  shows "tr_childName rel = n \<and> top_lookupRelation V s (tr_parent rel) (tr_type rel) n = Some rel"
  using assms relation_at_Some unfolding coherent_def ch_lookupRelation_def by fastforce

lemma coherent_ext:
  assumes "coherent V ch s" and "topo_ext V s s'" and "top_getAttribute V s' = top_getAttribute V s"
  shows "coherent V ch s'"
  using assms(1) topo_extD [OF assms(2)] assms(3) unfolding coherent_def by (simp add: split_beta)

lemma coherent_registerType:
  assumes "coherent V ch s" and "top_lookupTypeByName V s n = Some \<lparr>tt_name = n, tt_id = i\<rparr>" and "top_lookupTypeById V s i = Some \<lparr>tt_name = n, tt_id = i\<rparr>"
  shows "coherent V (ch_registerType ch n i) s"
  using assms by (auto simp: coherent_def ch_registerType_def Let_def split: option.splits)

lemma coherent_registerObject:
  assumes "coherent V ch s" and "top_lookupObjectById V s i = Some \<lparr>to_id = i, to_type = t\<rparr>"
  shows "coherent V (ch_registerObject ch t i) s"
  using assms by (auto simp: coherent_def ch_registerObject_def split: option.splits)

lemma coherent_registerRelation:
  assumes "coherent V ch s" and "top_lookupRelation V s p t n = Some \<lparr>tr_childName = n, tr_parent = p, tr_child = c, tr_type = t\<rparr>"
  shows "coherent V (ch_registerRelation ch p t n c) s"
  using assms by (auto simp: coherent_def ch_registerRelation_def Let_def split: option.splits)

lemma coherent_registerAttribute:
  assumes "coherent V ch s" and "top_lookupAttributeByName V s d n = Some \<lparr>ta_name = n, ta_id = i, ta_domain = d, ta_dataType = dt\<rparr>"
    and "top_lookupAttributeById V s i = Some \<lparr>ta_name = n, ta_id = i, ta_domain = d, ta_dataType = dt\<rparr>"
  shows "coherent V (ch_registerAttribute ch d n dt i) s"
  using assms by (auto simp: coherent_def ch_registerAttribute_def Let_def split: option.splits)

lemma coherent_registerValue:
  assumes "coherent V ch s" and "top_getAttribute V s i a = Some \<lparr>tv_value = v, tv_object = i, tv_attribute = a\<rparr>"
  shows "coherent V (ch_registerValue ch i a v) s"
  using assms by (auto simp: coherent_def ch_registerValue_def)

section \<open>The simulation\<close>

text \<open>What is registered or set again as it is changes nothing.\<close>

locale topology_repeat = topology V valid free for V :: "'s topology_ops" and valid and free +
  assumes registerRelation_again: "valid s \<Longrightarrow> top_lookupRelation V s p t n = Some rel \<Longrightarrow>
      top_registerRelation V s p t n (tr_child rel) = (Some rel, s)"
    and setAttribute_again: "valid s \<Longrightarrow> top_getAttribute V s i a = Some tv \<Longrightarrow> vd_eq (tv_value tv) v \<Longrightarrow> top_setAttribute V s i a v = (True, s)"
begin

definition simulates :: "(string \<Rightarrow> float64) \<Rightarrow> CacheHelper \<Rightarrow> 's \<Rightarrow> topology_op \<Rightarrow> bool" where
  "simulates atof ch s op \<longleftrightarrow> (\<exists>r s' ch'. direct V s op = Inr (r, s') \<and>
     cached atof V \<lparr>ct_ramCache = Some ch, ct_topologyBackend = s\<rparr> op = Inr (r, \<lparr>ct_ramCache = Some ch', ct_topologyBackend = s'\<rparr>) \<and>
     coherent V ch' s' \<and> valid s' \<and> free s \<le> Suc (free s'))"

lemma simulatesI:
  assumes "direct V s op = Inr (r, s')"
    and "cached atof V \<lparr>ct_ramCache = Some ch, ct_topologyBackend = s\<rparr> op = Inr (r, \<lparr>ct_ramCache = Some ch', ct_topologyBackend = s'\<rparr>)"
    and "coherent V ch' s'" and "valid s'" and "free s \<le> Suc (free s')"
  shows "simulates atof ch s op"
  using assms unfolding simulates_def by blast

lemma type_known:
  assumes "valid s" and "top_lookupTypeByName V s n = Some ty"
  shows "ty = \<lparr>tt_name = n, tt_id = tt_id ty\<rparr>" and "top_lookupTypeById V s (tt_id ty) = Some ty"
  using typeByName [OF assms] by (cases ty; simp)+

lemma attribute_known:
  assumes "valid s" and "top_lookupAttributeByName V s d n = Some a"
  shows "a = \<lparr>ta_name = n, ta_id = ta_id a, ta_domain = d, ta_dataType = ta_dataType a\<rparr>" and "top_lookupAttributeById V s (ta_id a) = Some a"
  using attributeByName [OF assms] by (cases a; simp)+

lemma object_known:
  assumes "valid s" and "top_lookupObjectById V s i = Some x"
  shows "x = \<lparr>to_id = i, to_type = to_type x\<rparr>" and "to_id x = i"
  using objectById [OF assms] by (cases x; simp)+

lemma relation_known:
  assumes "valid s" and "top_lookupRelation V s p t n = Some rel"
  shows "rel = \<lparr>tr_childName = n, tr_parent = p, tr_child = tr_child rel, tr_type = t\<rparr>"
  using relation [OF assms] by (cases rel; simp)

lemma value_known:
  assumes "valid s" and "top_getAttribute V s i a = Some tv"
  shows "tv = \<lparr>tv_value = tv_value tv, tv_object = i, tv_attribute = a\<rparr>"
  using attribute_value [OF assms] by (cases tv; simp)

lemma enter_type:
  assumes "valid s" and "coherent V ch s" and "top_lookupTypeByName V s n = Some ty"
  shows "coherent V (ch_registerType ch n (tt_id ty)) s"
  using coherent_registerType [OF assms(2)] type_known [OF assms(1,3)] assms(3) by metis

lemma enter_attribute:
  assumes "valid s" and "coherent V ch s" and "top_lookupAttributeByName V s d n = Some a"
  shows "coherent V (ch_registerAttribute ch d n (ta_dataType a) (ta_id a)) s"
  using coherent_registerAttribute [OF assms(2)] attribute_known [OF assms(1,3)] assms(3) by metis

lemma enter_object:
  assumes "valid s" and "coherent V ch s" and "top_lookupObjectById V s i = Some x"
  shows "coherent V (ch_registerObject ch (to_type x) i) s"
  using coherent_registerObject [OF assms(2)] object_known [OF assms(1,3)] assms(3) by metis

lemma enter_relation:
  assumes "valid s" and "coherent V ch s" and "top_lookupRelation V s p t n = Some rel"
  shows "coherent V (ch_registerRelation ch p t n (tr_child rel)) s"
  using coherent_registerRelation [OF assms(2)] relation_known [OF assms(1,3)] assms(3) by metis

lemma enter_value:
  assumes "valid s" and "coherent V ch s" and "top_getAttribute V s i a = Some tv"
  shows "coherent V (ch_registerValue ch i a (tv_value tv)) s"
  using coherent_registerValue [OF assms(2)] value_known [OF assms(1,3)] assms(3) by metis

lemma simulates_types:
  assumes v: "valid s" and c: "coherent V ch s" and free: "0 < free s"
  shows "simulates atof ch s (ORegisterType n)" and "simulates atof ch s (OTypeByName n)" and "simulates atof ch s (OTypeById i)"
proof -
  show "simulates atof ch s (ORegisterType n)"
  proof (cases "ch_typesByName ch n")
    case (Some ty)
    note again = registerType_again [OF v coherentD(1) [OF c Some]]
    show ?thesis by (rule simulatesI [of s _ "RType (Some ty)" s atof ch ch]) (use Some again v c in \<open>simp_all add: ct_registerType_def with_cache_def reply_def\<close>)
  next
    case None
    obtain r s' where reg: "top_registerType V s n = (r, s')" by fastforce
    obtain ty where ty: "r = Some ty" "top_lookupTypeByName V s' n = Some ty" "topo_step V valid free s s'"
      using registerType_spec [OF v free reg] by blast
    then have st: "valid s'" "coherent V ch s'" "free s \<le> Suc (free s')" using coherent_ext [OF c] by (simp_all add: topo_step_def)
    show ?thesis
      by (rule simulatesI [of s _ "RType r" s' atof ch "ch_registerType ch n (tt_id ty)"])
         (use None reg ty st enter_type [OF st(1,2) ty(2)] in \<open>simp_all add: ct_registerType_def with_cache_def reply_def\<close>)
  qed
  show "simulates atof ch s (OTypeByName n)"
  proof (cases "ch_typesByName ch n")
    case (Some ty)
    then show ?thesis by (intro simulatesI [of s _ "RType (Some ty)" s atof ch ch])
      (use Some v c coherentD(1) [OF c Some] in \<open>simp_all add: ct_lookupTypeByName_def with_cache_def reply_def\<close>)
  next
    case None
    show ?thesis
    proof (cases "top_lookupTypeByName V s n")
      case (Some ty)
      show ?thesis by (rule simulatesI [of s _ "RType (Some ty)" s atof ch "ch_registerType ch n (tt_id ty)"])
        (use None Some v enter_type [OF v c Some] in \<open>simp_all add: ct_lookupTypeByName_def with_cache_def reply_def\<close>)
    qed (use None v c in \<open>simp add: simulates_def ct_lookupTypeByName_def with_cache_def reply_def\<close>)
  qed
  show "simulates atof ch s (OTypeById i)"
  proof (cases "ch_typesById ch i")
    case (Some ty)
    then show ?thesis by (intro simulatesI [of s _ "RType (Some ty)" s atof ch ch])
      (use Some v c coherentD(2) [OF c Some] in \<open>simp_all add: ct_lookupTypeById_def with_cache_def reply_def\<close>)
  next
    case None
    show ?thesis
    proof (cases "top_lookupTypeById V s i")
      case (Some ty)
      have "coherent V (ch_registerType ch (tt_name ty) i) s" using enter_type [OF v c, of "tt_name ty" ty] typeById [OF v Some] by simp
      then show ?thesis by (intro simulatesI [of s _ "RType (Some ty)" s atof ch "ch_registerType ch (tt_name ty) i"])
        (use None Some v in \<open>simp_all add: ct_lookupTypeById_def with_cache_def reply_def\<close>)
    qed (use None v c in \<open>simp add: simulates_def ct_lookupTypeById_def with_cache_def reply_def\<close>)
  qed
qed

end

context topology_repeat
begin

lemma simulates_attributes:
  assumes v: "valid s" and c: "coherent V ch s" and free: "0 < free s"
  shows "fits V s (ORegisterAttribute d n dt) \<Longrightarrow> simulates atof ch s (ORegisterAttribute d n dt)"
    and "simulates atof ch s (OAttributeByName d n)" and "simulates atof ch s (OAttributeById i)"
proof -
  assume fit: "fits V s (ORegisterAttribute d n dt)"
  show "simulates atof ch s (ORegisterAttribute d n dt)"
  proof (cases "ch_attributesByName ch (d, n)")
    case (Some a)
    note known = coherentD(4) [OF c Some]
    have "top_registerAttribute V s d n dt = (Some a, s)" using registerAttribute_again [OF v known] fit known by simp
    then show ?thesis by (intro simulatesI [of s _ "RAttribute (Some a)" s atof ch ch])
      (use Some v c in \<open>simp_all add: ct_registerAttribute_def with_cache_def reply_def\<close>)
  next
    case None
    obtain r s' where reg: "top_registerAttribute V s d n dt = (r, s')" by fastforce
    note spec = registerAttribute_spec [OF v free reg]
    then have st: "valid s'" "coherent V ch s'" "free s \<le> Suc (free s')" using coherent_ext [OF c] by (simp_all add: topo_step_def)
    show ?thesis
    proof (cases r)
      case (Some a)
      then have "coherent V (ch_registerAttribute ch d n dt (ta_id a)) s'" using enter_attribute [OF st(1,2), of d n a] spec by simp
      then show ?thesis by (intro simulatesI [of s _ "RAttribute r" s' atof ch "ch_registerAttribute ch d n dt (ta_id a)"])
        (use None Some reg st in \<open>simp_all add: ct_registerAttribute_def with_cache_def reply_def\<close>)
    next
      case none: None
      then show ?thesis by (intro simulatesI [of s _ "RAttribute r" s' atof ch ch])
        (use None reg st in \<open>simp_all add: ct_registerAttribute_def with_cache_def reply_def\<close>)
    qed
  qed
next
  show "simulates atof ch s (OAttributeByName d n)"
  proof (cases "ch_attributesByName ch (d, n)")
    case (Some a)
    then show ?thesis by (intro simulatesI [of s _ "RAttribute (Some a)" s atof ch ch])
      (use Some v c coherentD(4) [OF c Some] in \<open>simp_all add: ct_lookupAttributeByName_def with_cache_def reply_def\<close>)
  next
    case None
    show ?thesis
    proof (cases "top_lookupAttributeByName V s d n")
      case (Some a)
      show ?thesis by (rule simulatesI [of s _ "RAttribute (Some a)" s atof ch "ch_registerAttribute ch d n (ta_dataType a) (ta_id a)"])
        (use None Some v enter_attribute [OF v c Some] in \<open>simp_all add: ct_lookupAttributeByName_def with_cache_def reply_def\<close>)
    qed (use None v c in \<open>simp add: simulates_def ct_lookupAttributeByName_def with_cache_def reply_def\<close>)
  qed
next
  show "simulates atof ch s (OAttributeById i)"
  proof (cases "ch_attributesById ch i")
    case (Some a)
    then show ?thesis by (intro simulatesI [of s _ "RAttribute (Some a)" s atof ch ch])
      (use Some v c coherentD(5) [OF c Some] in \<open>simp_all add: ct_lookupAttributeById_def with_cache_def reply_def\<close>)
  next
    case None
    show ?thesis
    proof (cases "top_lookupAttributeById V s i")
      case (Some a)
      have "coherent V (ch_registerAttribute ch (ta_domain a) (ta_name a) (ta_dataType a) i) s"
        using enter_attribute [OF v c, of "ta_domain a" "ta_name a" a] attributeById [OF v Some] by simp
      then show ?thesis by (intro simulatesI [of s _ "RAttribute (Some a)" s atof ch "ch_registerAttribute ch (ta_domain a) (ta_name a) (ta_dataType a) i"])
        (use None Some v in \<open>simp_all add: ct_lookupAttributeById_def with_cache_def reply_def\<close>)
    qed (use None v c in \<open>simp add: simulates_def ct_lookupAttributeById_def with_cache_def reply_def\<close>)
  qed
qed

lemma simulates_objects:
  assumes v: "valid s" and c: "coherent V ch s" and free: "0 < free s"
  shows "fits V s (ORegisterObject p t n ot) \<Longrightarrow> simulates atof ch s (ORegisterObject p t n ot)"
    and "simulates atof ch s (OObjectById i)"
proof -
  assume fit: "fits V s (ORegisterObject p t n ot)"
  obtain r s' where reg: "top_registerObject V s p t n ot = Inr (r, s')" and step: "topo_step V valid free s s'"
    and res: "case r of Some x \<Rightarrow> top_lookupObjectById V s' (to_id x) = Some x \<and>
        (\<exists>rel. top_lookupRelation V s' p t n = Some rel \<and> tr_child rel = to_id x) | None \<Rightarrow> True"
    using registerObject_spec [OF v free, of p t n ot] by (fastforce split: option.splits)
  have st: "valid s'" "coherent V ch s'" "free s \<le> Suc (free s')" using step coherent_ext [OF c] by (simp_all add: topo_step_def)
  show "simulates atof ch s (ORegisterObject p t n ot)"
  proof (cases "ch_lookupRelation ch p t n")
    case None
    show ?thesis
    proof (cases r)
      case (Some x)
      then obtain rel where rel: "top_lookupRelation V s' p t n = Some rel" "tr_child rel = to_id x" and x: "top_lookupObjectById V s' (to_id x) = Some x"
        using res by auto
      have "coherent V (ch_registerRelation (ch_registerObject ch (to_type x) (to_id x)) p t n (to_id x)) s'"
        using enter_relation [OF st(1) enter_object [OF st(1,2) x] rel(1)] rel(2) by simp
      then show ?thesis
        by (intro simulatesI [of s _ "RObject r" s' atof ch "ch_registerRelation (ch_registerObject ch (to_type x) (to_id x)) p t n (to_id x)"])
           (use None Some reg st in \<open>simp_all add: ct_registerObject_def with_cache_def reply_def\<close>)
    next
      case none: None
      then show ?thesis by (intro simulatesI [of s _ "RObject r" s' atof ch ch])
        (use None reg st in \<open>simp_all add: ct_registerObject_def with_cache_def reply_def\<close>)
    qed
  next
    case (Some rel)
    note R = coherent_relation [OF c Some]
    then have place: "top_lookupRelation V s p t n = Some rel" using fit by (metis fits.simps(1))
    show ?thesis
    proof (cases "ch_objectsById ch (tr_child rel)")
      case obj: (Some x)
      note x = coherentD(3) [OF c obj]
      then have "to_type x = ot" using fit place by simp
      then have "top_registerObject V s p t n ot = Inr (Some x, s)" using registerObject_again [OF v place x] by simp
      then show ?thesis by (intro simulatesI [of s _ "RObject (Some x)" s atof ch ch])
        (use Some obj v c in \<open>simp_all add: ct_registerObject_def with_cache_def reply_def\<close>)
    next
      case None
      then show ?thesis by (intro simulatesI [of s _ "RObject r" s' atof ch ch])
        (use Some reg st in \<open>simp_all add: ct_registerObject_def with_cache_def reply_def\<close>)
    qed
  qed
next
  show "simulates atof ch s (OObjectById i)"
  proof (cases "ch_objectsById ch i")
    case (Some x)
    then show ?thesis by (intro simulatesI [of s _ "RObject (Some x)" s atof ch ch])
      (use Some v c coherentD(3) [OF c Some] in \<open>simp_all add: ct_lookupObjectById_def with_cache_def reply_def\<close>)
  next
    case None
    show ?thesis
    proof (cases "top_lookupObjectById V s i")
      case (Some x)
      have "coherent V (ch_registerObject ch (to_type x) (to_id x)) s" using enter_object [OF v c Some] object_known(2) [OF v Some] by simp
      then show ?thesis by (intro simulatesI [of s _ "RObject (Some x)" s atof ch "ch_registerObject ch (to_type x) (to_id x)"])
        (use None Some v in \<open>simp_all add: ct_lookupObjectById_def with_cache_def reply_def\<close>)
    qed (use None v c in \<open>simp add: simulates_def ct_lookupObjectById_def with_cache_def reply_def\<close>)
  qed
qed

lemma simulates_relations:
  assumes v: "valid s" and c: "coherent V ch s"
  shows "fits V s (ORegisterRelation p t n k) \<Longrightarrow> simulates atof ch s (ORegisterRelation p t n k)"
    and "fits V s (OLookupRelation p t n) \<Longrightarrow> simulates atof ch s (OLookupRelation p t n)"
proof -
  assume fit: "fits V s (ORegisterRelation p t n k)"
  show "simulates atof ch s (ORegisterRelation p t n k)"
  proof (cases "ch_lookupRelation ch p t n")
    case (Some rel)
    have R: "top_lookupRelation V s p t n = Some rel" "tr_child rel = k"
      using fit coherent_relation [OF c Some] by (metis fits.simps(2))+
    then show ?thesis by (intro simulatesI [of s _ "RRelation (Some rel)" s atof ch ch])
      (use Some v c registerRelation_again [OF v R(1)] in \<open>simp_all add: ct_registerRelation_def with_cache_def reply_def\<close>)
  next
    case None
    obtain r s' where reg: "top_registerRelation V s p t n k = (r, s')" by fastforce
    note spec = registerRelation_spec [OF v reg]
    then have st: "valid s'" "coherent V ch s'" "free s \<le> Suc (free s')" using coherent_ext [OF c] by (simp_all add: topo_step_def)
    show ?thesis
    proof (cases r)
      case (Some rel)
      have "coherent V (ch_registerRelation ch p t n k) s'" using spec Some enter_relation [OF st(1,2), of p t n rel] by simp
      then show ?thesis by (intro simulatesI [of s _ "RRelation r" s' atof ch "ch_registerRelation ch p t n k"])
        (use None Some reg st in \<open>simp_all add: ct_registerRelation_def with_cache_def reply_def\<close>)
    next
      case none: None
      then show ?thesis by (intro simulatesI [of s _ "RRelation r" s' atof ch ch])
        (use None reg st in \<open>simp_all add: ct_registerRelation_def with_cache_def reply_def\<close>)
    qed
  qed
next
  assume fit: "fits V s (OLookupRelation p t n)"
  show "simulates atof ch s (OLookupRelation p t n)"
  proof (cases "ch_lookupRelation ch p t n")
    case (Some rel)
    have "top_lookupRelation V s p t n = Some rel" using fit coherent_relation [OF c Some] by (metis fits.simps(3))
    then show ?thesis by (intro simulatesI [of s _ "RRelation (Some rel)" s atof ch ch])
      (use Some v c in \<open>simp_all add: ct_lookupRelation_def with_cache_def reply_def\<close>)
  next
    case None
    show ?thesis
    proof (cases "top_lookupRelation V s p t n")
      case (Some rel)
      show ?thesis by (rule simulatesI [of s _ "RRelation (Some rel)" s atof ch "ch_registerRelation ch p t n (tr_child rel)"])
        (use None Some v enter_relation [OF v c Some] in \<open>simp_all add: ct_lookupRelation_def with_cache_def reply_def\<close>)
    qed (use None v c in \<open>simp add: simulates_def ct_lookupRelation_def with_cache_def reply_def\<close>)
  qed
qed

end

lemma coherent_set:
  assumes "coherent V ch s" and "topo_ext V s s'" and "\<And>j l. (j, l) \<noteq> (i, a) \<Longrightarrow> top_getAttribute V s' j l = top_getAttribute V s j l"
    and "top_getAttribute V s' i a = Some \<lparr>tv_value = v, tv_object = i, tv_attribute = a\<rparr>"
  shows "coherent V (ch_registerValue ch i a v) s'"
  using assms(1,3,4) topo_extD [OF assms(2)] unfolding coherent_def ch_registerValue_def by (auto simp: split_beta)

context topology_repeat
begin

lemma simulates_values:
  assumes v: "valid s" and c: "coherent V ch s"
  shows "fits V s (OSetAttribute i a w) \<Longrightarrow> simulates atof ch s (OSetAttribute i a w)"
    and "fits V s (OGetAttribute i a) \<Longrightarrow> simulates atof ch s (OGetAttribute i a)"
proof -
  assume "fits V s (OSetAttribute i a w)"
  then have w: "printable w" by simp
  note conv = converted_printable [OF w, of atof]
  show "simulates atof ch s (OSetAttribute i a w)"
  proof (cases "case ch_valuesByPair ch (i, a) of None \<Rightarrow> False | Some oldValue \<Rightarrow> vd_eq (tv_value oldValue) w")
    case True
    then obtain tv where tv: "ch_valuesByPair ch (i, a) = Some tv" "vd_eq (tv_value tv) w" by (auto split: option.splits)
    show ?thesis by (rule simulatesI [of s _ "RDone True" s atof ch ch])
      (use tv v c conv setAttribute_again [OF v coherentD(6) [OF c tv(1)] tv(2)] in \<open>simp_all add: ct_setAttribute_def with_cache_def reply_def\<close>)
  next
    case False
    obtain ok s' where set: "top_setAttribute V s i a w = (ok, s')" by fastforce
    note spec = setAttribute_spec [OF v set]
    show ?thesis
    proof (cases ok)
      case True
      then obtain tv where tv: "top_getAttribute V s' i a = Some tv" "tv_value tv = w \<or> vd_eq (tv_value tv) w" using spec by blast
      then have "tv_value tv = w" using vd_eq_exact [of w "tv_value tv"] w by (auto simp: vd_eq_sym printable_def)
      then have "coherent V (ch_registerValue ch i a w) s'"
        using coherent_set [OF c, of s' i a w] spec tv(1) value_known [of s' i a tv] by metis
      then show ?thesis by (intro simulatesI [of s _ "RDone ok" s' atof ch "ch_registerValue ch i a w"])
        (use False True set spec conv in \<open>simp_all add: ct_setAttribute_def with_cache_def reply_def\<close>)
    next
      case no: False
      then have "coherent V ch s'" using coherent_ext [OF c] spec by (simp add: fun_eq_iff)
      then show ?thesis by (intro simulatesI [of s _ "RDone ok" s' atof ch ch])
        (use False no set spec conv in \<open>simp_all add: ct_setAttribute_def with_cache_def reply_def\<close>)
    qed
  qed
next
  assume fit: "fits V s (OGetAttribute i a)"
  show "simulates atof ch s (OGetAttribute i a)"
  proof (cases "ch_valuesByPair ch (i, a)")
    case (Some tv)
    show ?thesis by (rule simulatesI [of s _ "RValue (Some tv)" s atof ch ch])
      (use Some v c coherentD(6) [OF c Some] in \<open>simp_all add: ct_getAttribute_def with_cache_def reply_def\<close>)
  next
    case None
    show ?thesis
    proof (cases "top_getAttribute V s i a")
      case (Some tv)
      then have "converted_value atof (tv_value tv) = Inr (tv_value tv)" using fit converted_printable by simp
      then show ?thesis by (intro simulatesI [of s _ "RValue (Some tv)" s atof ch "ch_registerValue ch i a (tv_value tv)"])
        (use None Some v enter_value [OF v c Some] in \<open>simp_all add: ct_getAttribute_def with_cache_def reply_def\<close>)
    qed (use None v c in \<open>simp add: simulates_def ct_getAttribute_def with_cache_def reply_def\<close>)
  qed
qed

lemma cache_step:
  assumes "valid s" and "coherent V ch s" and "0 < free s" and "fits V s op"
  shows "simulates atof ch s op"
proof (cases op)
  case (OChildren p t)
  then show ?thesis using assms by (simp add: simulates_def ct_enumerateChildren_def)
next
  case (OParents p t)
  then show ?thesis using assms by (simp add: simulates_def ct_enumerateParents_def)
next
  case (OAttributes i)
  then show ?thesis using assms by (simp add: simulates_def ct_enumerateAttributes_def)
qed (use assms simulates_types [OF assms(1-3)] simulates_attributes [OF assms(1-3)] simulates_objects [OF assms(1-3)]
      simulates_relations [OF assms(1,2)] simulates_values [OF assms(1,2)] in \<open>simp_all del: fits.simps\<close>)

lemma cache_run:
  assumes "valid s" and "coherent V ch s" and "length ops \<le> free s" and "fits_run V s ops"
  shows "\<exists>rs s' ch'. run_ops (direct V) s ops = Inr (rs, s') \<and>
    run_ops (cached atof V) \<lparr>ct_ramCache = Some ch, ct_topologyBackend = s\<rparr> ops = Inr (rs, \<lparr>ct_ramCache = Some ch', ct_topologyBackend = s'\<rparr>) \<and>
    valid s' \<and> coherent V ch' s'"
  using assms
proof (induction ops arbitrary: s ch)
  case Nil
  then show ?case by simp
next
  case (Cons op ops)
  have "simulates atof ch s op" using Cons.prems by (intro cache_step) simp_all
  then obtain r s1 ch1 where step: "direct V s op = Inr (r, s1)"
      "cached atof V \<lparr>ct_ramCache = Some ch, ct_topologyBackend = s\<rparr> op = Inr (r, \<lparr>ct_ramCache = Some ch1, ct_topologyBackend = s1\<rparr>)"
      "coherent V ch1 s1" "valid s1" "free s \<le> Suc (free s1)"
    by (auto simp: simulates_def)
  have "length ops \<le> free s1" "fits_run V s1 ops" using Cons.prems(3,4) step(1,5) by auto
  from Cons.IH [OF step(4,3) this] obtain rs s' ch' where "run_ops (direct V) s1 ops = Inr (rs, s')"
    "run_ops (cached atof V) \<lparr>ct_ramCache = Some ch1, ct_topologyBackend = s1\<rparr> ops = Inr (rs, \<lparr>ct_ramCache = Some ch', ct_topologyBackend = s'\<rparr>)"
    "valid s'" "coherent V ch' s'" by blast
  then show ?case using step(1,2) by simp
qed

end

interpretation ram_repeat: topology_repeat ram_ops ram_inv ram_free
proof (unfold_locales, unfold ram_ops_sel, goal_cases)
  case (1 s p t n rel)
  obtain cm where cm: "childMap_of s p = Some cm" "map_of cm (n, t) = Some rel" using 1(2) by (auto simp: lookupRelation_def split: option.splits)
  note g = lookupRelation_graph [OF 1]
  then obtain x where x: "lookupObjectById s (tr_child rel) = Some x" by blast
  then have "tr_child rel \<noteq> 0" "parentVector_of s (tr_child rel) \<noteq> None"
    using objects_shapeD(6,8) [OF 1(1), of "tr_child rel"] by (auto simp: ram_lookups [OF 1(1)])
  then show ?case using cm g by (auto simp: registerRelation_def)
next
  case (2 s i a tv v)
  then obtain am where "attributeMap_of s i = Some am" "map_of am a = Some tv" by (auto simp: getAttribute_def split: option.splits)
  then show ?case using 2(3) by (simp add: setAttribute_def vd_ne_def)
qed

section \<open>Properties\<close>


text \<open>
  The cache confuses relations of the same name. The order of its keys compares the child names only: after an object was
  registered under a new name, a lookup of that name under any other parent and relation type returns the relation of the first one, and the
  registration of an object under that name, anywhere and of any type, returns the first object and registers nothing.
\<close>

theorem cache_confuses_places:
  assumes "ct_ramCache ct = Some ch" and "ch_lookupRelation ch p t n = None" and "ct_registerObject V ct p t n ot = Inr (Some x, ct1)"
    and "ch_objectsById ch (to_id x) = None"
  shows "ct_lookupRelation V ct1 p' t' n = Inr (Some \<lparr>tr_childName = n, tr_parent = p, tr_child = to_id x, tr_type = t\<rparr>, ct1) \<and>
    (\<exists>y. ct_registerObject V ct1 p' t' n ot' = Inr (Some y, ct1) \<and> to_id y = to_id x)"
proof -
  obtain s1 where ct1: "ct1 = ct \<lparr>ct_ramCache := Some (ch_registerRelation (ch_registerObject ch (to_type x) (to_id x)) p t n (to_id x)), ct_topologyBackend := s1\<rparr>"
    using assms(1-3) by (auto simp: ct_registerObject_def with_cache_def bindr_Inr_iff split: option.splits)
  have look: "ch_lookupRelation ch' q u n = ch_lookupRelation ch' p t n" for ch' q u
  proof -
    have "relation_at m \<lparr>cr_parent = q, cr_relationType = u, cr_childName = n\<rparr> = relation_at m \<lparr>cr_parent = p, cr_relationType = t, cr_childName = n\<rparr>"
      for m :: "(CompareRelation \<times> TopologyRelation) list" by (induction m) (auto simp: equivalent_iff)
    then show ?thesis by (simp add: ch_lookupRelation_def)
  qed
  have rel: "ch_lookupRelation (ch_registerRelation (ch_registerObject ch (to_type x) (to_id x)) p t n (to_id x)) p t n =
      Some \<lparr>tr_childName = n, tr_parent = p, tr_child = to_id x, tr_type = t\<rparr>"
    using assms(2) by (simp add: ch_lookupRelation_def ch_registerRelation_def ch_registerObject_def equivalent_iff Let_def split: option.split)
  have obj: "ch_objectsById (ch_registerRelation (ch_registerObject ch (to_type x) (to_id x)) p t n (to_id x)) (to_id x) =
      Some \<lparr>to_id = to_id x, to_type = to_type x\<rparr>"
    using assms(4) by (simp add: ch_registerRelation_def ch_registerObject_def Let_def split: option.split)
  show ?thesis using rel obj unfolding ct_lookupRelation_def ct_registerObject_def with_cache_def ct1 by (simp add: look [of _ p'])
qed

text \<open>
  A number of 2^63 or more cannot be set through the cache: the copy of the value is read by a function for signed numbers.
\<close>

theorem cache_big_numbers_undefined:
  assumes "2 ^ 63 \<le> unat u"
  shows "\<exists>f. ct_setAttribute atof V ct i a (VUint64 u) = Inl f"
proof -
  have "int (2 ^ 63) \<le> int (unat u)" using assms by (rule iffD2 [OF of_nat_le_iff])
  then have "\<not> fits_signed 64 (int (unat u))" by (simp add: fits_signed_def)
  then show ?thesis by (simp add: ct_setAttribute_def converted_value_def vd_from_string_def c_ato_dec_nat del: of_nat_unat)
qed

definition demo_cache_ops :: "topology_op list" where
  "demo_cache_ops = [ORegisterType ''Node'', ORegisterObject 0 1 ''west'' 1, OObjectById 1, OLookupRelation 0 1 ''west'', ORegisterType ''Node'']"

definition demo_ram1 :: RamTopology where
  "demo_ram1 = snd (registerType RamTopology_new ''Node'')"

definition demo_ram2 :: RamTopology where
  "demo_ram2 = (case registerObject demo_ram1 0 1 ''west'' 1 of Inl f \<Rightarrow> demo_ram1 | Inr (r, s) \<Rightarrow> s)"

lemma demo_ram_childMaps:
  "objectsById demo_ram1 = [None] \<and> childMapsById demo_ram1 = [Some []]"
  "length (objectsById demo_ram2) = 2 \<and>
   childMapsById demo_ram2 = [Some [((''west'', 1), \<lparr>tr_childName = ''west'', tr_parent = 0, tr_child = 1, tr_type = 1\<rparr>)], Some []]"
  by code_simp+

lemma demo_ram_relations:
  "lookupRelation demo_ram1 p t n = None"
  "lookupRelation demo_ram2 p t n = Some rel \<Longrightarrow> p = 0 \<and> t = 1"
  using demo_ram_childMaps
  by (auto simp: lookupRelation_def childMap_of_def nth_Cons unat_eq_0 split: if_splits option.splits nat.splits)

lemma demo_cache_direct:
  "\<exists>r. registerType RamTopology_new ''Node'' = (r, demo_ram1)" "\<exists>r. registerObject demo_ram1 0 1 ''west'' 1 = Inr (r, demo_ram2)"
proof -
  show "\<exists>r. registerType RamTopology_new ''Node'' = (r, demo_ram1)" by (metis demo_ram1_def prod.collapse)
  have "case registerObject demo_ram1 0 1 ''west'' 1 of Inl f \<Rightarrow> False | Inr r \<Rightarrow> True" by code_simp
  then show "\<exists>r. registerObject demo_ram1 0 1 ''west'' 1 = Inr (r, demo_ram2)" by (auto simp: demo_ram2_def split: sum.splits)
qed


theorem cache_confuses_places_witness:
  "\<exists>x ct1. ct_registerObject ram_ops \<lparr>ct_ramCache = Some CacheHelper_new, ct_topologyBackend = demo_ram1\<rparr> 0 1 ''data'' 1 = Inr (Some x, ct1) \<and>
     (\<exists>rel. ct_lookupRelation ram_ops ct1 7 3 ''data'' = Inr (Some rel, ct1) \<and> tr_parent rel = 0)"
proof -
  let ?ct = "\<lparr>ct_ramCache = Some CacheHelper_new, ct_topologyBackend = demo_ram1\<rparr>"
  have "case ct_registerObject ram_ops ?ct 0 1 ''data'' 1 of Inl f \<Rightarrow> False | Inr (r, ct1) \<Rightarrow> r \<noteq> None" by code_simp
  then obtain x ct1 where r: "ct_registerObject ram_ops ?ct 0 1 ''data'' 1 = Inr (Some x, ct1)" by (auto split: sum.splits)
  have "ch_lookupRelation CacheHelper_new 0 1 ''data'' = None" "ch_objectsById CacheHelper_new (to_id x) = None"
    by (simp_all add: CacheHelper_new_def ch_lookupRelation_def)
  from cache_confuses_places [OF _ this(1) r this(2), of 7 3 1] r show ?thesis by simp
qed

theorem cache_big_numbers_undefined_witness:
  "\<exists>f. ct_setAttribute (\<lambda>_. 0) ram_ops \<lparr>ct_ramCache = Some CacheHelper_new, ct_topologyBackend = RamTopology_new\<rparr> 1 1 (VUint64 9223372036854775808) = Inl f"
  by (rule cache_big_numbers_undefined) simp

end
