(* ===== verification/Message_Service.thy ===== *)
theory Message_Service
  imports Binary_Serializer
begin

text \<open>
  Messages between modules: the interfaces of \<^verbatim>\<open>include/core/comm\<close>, the service that shares one connection
  between message types (\<^verbatim>\<open>core/hcomm/MultiMessageTypeService.cpp\<close>) and the transport within a process
  (\<^verbatim>\<open>core/comm/modules/in-memory/CommInMemory.cpp\<close>).

  A callback object is a record of its virtual functions. A callback of the application answers with the
  list of events it records, which go to the trace of the state; the callback for received messages
  answers with the list of things it does, so that it may respond at once. A callback of the
  type service reads the message type and passes the call on. A call through a null pointer is undefined.
  Objects have numbers as addresses; a deleted object is absent from its map, and
  its use is undefined. Buffers from \<open>malloc\<close> are zero here: the contracts of the serializers make sure
  that every byte is written. The field \<open>user_ptr\<close> of a message is never read and left out.
\<close>

section \<open>Messages and callbacks\<close>

datatype CommunicationError = SUCCESS | CONNECTION_LOST | SERVER_NOT_ACCESSABLE | MESSAGE_TYPE_NOT_AVAILABLE
  | MESSAGE_INCOMPATIBLE | MESSAGE_DAMAGED | INVALID_ADDRESS | UNKNOWN_ERROR | Unnamed u8

record BareMessage =
  bm_size :: nat
  bm_payload :: buffer

record ('o, 'e) MessageCallback =
  cb_messageSend :: "BareMessage \<Rightarrow> 'e list outcome"
  cb_messageResponse :: "BareMessage \<Rightarrow> buffer \<Rightarrow> 'e list outcome"
  cb_messageTransferError :: "BareMessage \<Rightarrow> CommunicationError \<Rightarrow> 'e list outcome"
  cb_serializeMessageLen :: "'o \<Rightarrow> nat"
  cb_serializeMessage :: "'o \<Rightarrow> buffer \<Rightarrow> nat \<Rightarrow> (buffer \<times> nat) outcome"

datatype ('r, 'e) server_act = Note 'e | SendResponse 'r | SendErrorResponse CommunicationError

record ('r, 'e) ServerCallback =
  cb_messageReceived :: "BareMessage \<Rightarrow> buffer \<Rightarrow> ('r, 'e) server_act list outcome"
  cb_responseSend :: "BareMessage \<Rightarrow> 'e list outcome"
  cb_serializeResponseLen :: "BareMessage \<Rightarrow> 'r \<Rightarrow> nat outcome"
  cb_serializeResponse :: "BareMessage \<Rightarrow> 'r \<Rightarrow> buffer \<Rightarrow> nat \<Rightarrow> (buffer \<times> nat) outcome"

definition message_new :: "buffer \<Rightarrow> nat \<Rightarrow> BareMessage" where
  "message_new payload msg_size = \<lparr>bm_size = msg_size, bm_payload = payload\<rparr>"

text \<open>\<open>ServiceClient::isend(object)\<close>: a header of the transport, then the object.\<close>

definition object_message :: "nat \<Rightarrow> (buffer \<Rightarrow> nat \<Rightarrow> nat \<Rightarrow> (buffer \<times> nat) outcome) \<Rightarrow> ('o, 'e) MessageCallback \<Rightarrow> 'o
    \<Rightarrow> BareMessage outcome" where
  "object_message headerSize serializeHeader cb obj =
     (let msg_size = headerSize + cb_serializeMessageLen cb obj in
      bindr (serializeHeader (replicate msg_size 0) 0 msg_size) (\<lambda>(b, p).
        if headerSize \<noteq> p then Inl (Abort ''headerSize() == pos'') else
        bindr (cb_serializeMessage cb obj b p) (\<lambda>(b, p).
          if p \<noteq> msg_size then Inl (Abort ''pos == msg_size'') else Inr (message_new b msg_size))))"

section \<open>One connection for many message types\<close>

definition headerLen :: nat where
  "headerLen = serializeLen_word (0 :: u32)"

definition getType :: "nat \<Rightarrow> BareMessage \<Rightarrow> u32 outcome" where
  "getType headerSize msg =
     bindr (deserialize_word (bm_payload msg) headerSize (bm_size msg)) (\<lambda>(mtype, _). Inr mtype)"

definition getClientMessageType :: "nat \<Rightarrow> BareMessage \<Rightarrow> u32 outcome" where
  "getClientMessageType headerSizeClientMessage msg =
     bindr (deserialize_word (bm_payload msg) headerSizeClientMessage (bm_size msg)) (\<lambda>(mtype, _). Inr mtype)"

text \<open>\<open>callbacks[mtype]->...\<close>: the map gives a null pointer for a type that is not registered.\<close>

definition callee :: "(u32 \<rightharpoonup> 'c) \<Rightarrow> u32 \<Rightarrow> 'c outcome" where
  "callee callbacks mtype =
     (case callbacks mtype of None \<Rightarrow> Inl (Undefined ''call through a null pointer'') | Some cb \<Rightarrow> Inr cb)"

text \<open>\<open>buffer + headerLen(), buffer_size - headerLen()\<close>: the length wraps around when the buffer is shorter.\<close>

definition behind_type :: "buffer \<Rightarrow> buffer outcome" where
  "behind_type buf = (if headerLen \<le> length buf then Inr (drop headerLen buf) else Inl (Undefined ''length wraps around''))"

definition mm_message :: "nat \<Rightarrow> (buffer \<Rightarrow> nat \<Rightarrow> nat \<Rightarrow> (buffer \<times> nat) outcome) \<Rightarrow> (u32 \<rightharpoonup> ('o, 'e) MessageCallback)
    \<Rightarrow> u32 \<Rightarrow> 'o \<Rightarrow> BareMessage outcome" where
  "mm_message headerSize serializeHeader callbacks mtype obj =
     (case callbacks mtype of
        None \<Rightarrow> Inl (Abort ''callbacks.find(mtype) != callbacks.end()'')
      | Some cb \<Rightarrow>
          let msg_size = headerLen + headerSize + cb_serializeMessageLen cb obj in
          bindr (serializeHeader (replicate msg_size 0) 0 msg_size) (\<lambda>(b, p).
          bindr (serialize_word mtype b p) (\<lambda>(b, p).
          bindr (cb_serializeMessage cb obj b p) (\<lambda>(b, p). Inr (message_new b msg_size)))))"

definition MultiMessageClientCallback :: "nat \<Rightarrow> (u32 \<rightharpoonup> ('o, 'e) MessageCallback) \<Rightarrow> ('o, 'e) MessageCallback" where
  "MultiMessageClientCallback headerSize callbacks =
     \<lparr>cb_messageSend = (\<lambda>msg. bindr (getType headerSize msg) (\<lambda>mtype. bindr (callee callbacks mtype) (\<lambda>cb.
        cb_messageSend cb msg))),
      cb_messageResponse = (\<lambda>msg buf. bindr (getType headerSize msg) (\<lambda>mtype. bindr (callee callbacks mtype) (\<lambda>cb.
        bindr (behind_type buf) (cb_messageResponse cb msg)))),
      cb_messageTransferError = (\<lambda>msg error. bindr (getType headerSize msg) (\<lambda>mtype. bindr (callee callbacks mtype) (\<lambda>cb.
        cb_messageTransferError cb msg error))),
      cb_serializeMessageLen = (\<lambda>_. 0),
      cb_serializeMessage = (\<lambda>_ buf pos. Inr (buf, pos))\<rparr>"

definition MultiMessageServerCallback :: "nat \<Rightarrow> (u32 \<rightharpoonup> ('r, 'e) ServerCallback) \<Rightarrow> ('r, 'e) ServerCallback" where
  "MultiMessageServerCallback headerSize callbacks =
     \<lparr>cb_messageReceived = (\<lambda>msg data. bindr (getClientMessageType headerSize msg) (\<lambda>mtype.
        case callbacks mtype of
          None \<Rightarrow> Inr [SendErrorResponse MESSAGE_TYPE_NOT_AVAILABLE]
        | Some cb \<Rightarrow> bindr (behind_type data) (cb_messageReceived cb msg))),
      cb_responseSend = (\<lambda>response. bindr (getClientMessageType headerSize response) (\<lambda>mtype.
        bindr (callee callbacks mtype) (\<lambda>cb. cb_responseSend cb response))),
      cb_serializeResponseLen = (\<lambda>msg r. bindr (getClientMessageType headerSize msg) (\<lambda>mtype.
        case callbacks mtype of
          None \<Rightarrow> Inl (Abort ''server->callbacks.find(mtype) != server->callbacks.end()'')
        | Some cb \<Rightarrow> bindr (cb_serializeResponseLen cb msg r) (\<lambda>n. Inr (n + headerLen)))),
      cb_serializeResponse = (\<lambda>msg r buf pos. bindr (getClientMessageType headerSize msg) (\<lambda>mtype.
        bindr (serialize_word mtype buf pos) (\<lambda>(b, p).
        bindr (callee callbacks mtype) (\<lambda>cb. cb_serializeResponse cb msg r b p))))\<rparr>"

section \<open>The transport within a process\<close>

record ServerObject =
  so_available :: bool
  so_address :: string

record ClientObject =
  co_address :: string
  co_available :: bool
  co_connected :: bool

text \<open>A message as the server has it: a copy of the bytes, and pointers to the original, the client and the server.\<close>

record ServerClientMessage =
  sm_copy :: BareMessage
  sm_msg :: nat
  sm_client :: nat
  sm_server :: nat

text \<open>The callback records of the objects are kept beside them; those of the type service are made from the tables
  of the registered types, so that a later registration is seen by an existing connection.\<close>

record ('o, 'r, 'e) im_state =
  im_servers :: "string \<rightharpoonup> nat option"
  im_server :: "nat \<rightharpoonup> ServerObject"
  im_client :: "nat \<rightharpoonup> ClientObject"
  im_server_types :: "nat \<Rightarrow> u32 \<rightharpoonup> ('r, 'e) ServerCallback"
  im_client_types :: "nat \<Rightarrow> u32 \<rightharpoonup> ('o, 'e) MessageCallback"
  im_connection_cb :: "nat \<Rightarrow> CommunicationError \<Rightarrow> 'e list"
  im_msgs :: "nat \<rightharpoonup> BareMessage"
  im_received :: "nat \<rightharpoonup> ServerClientMessage"
  im_fresh :: nat
  im_trace :: "'e list"

definition im_new :: "('o, 'r, 'e) im_state" where
  "im_new = \<lparr>im_servers = Map.empty, im_server = Map.empty, im_client = Map.empty, im_server_types = (\<lambda>_. Map.empty),
     im_client_types = (\<lambda>_. Map.empty), im_connection_cb = (\<lambda>_ _. []), im_msgs = Map.empty, im_received = Map.empty,
     im_fresh = 0, im_trace = []\<rparr>"

definition im_headerSize :: nat where
  "im_headerSize = 0"

definition im_serializeHeader :: "buffer \<Rightarrow> nat \<Rightarrow> nat \<Rightarrow> (buffer \<times> nat) outcome" where
  "im_serializeHeader buf pos msg_size = Inr (buf, pos)"

definition im_client_cb :: "nat \<Rightarrow> ('o, 'r, 'e) im_state \<Rightarrow> ('o, 'e) MessageCallback" where
  "im_client_cb c st = MultiMessageClientCallback im_headerSize (im_client_types st c)"

definition im_server_cb :: "nat \<Rightarrow> ('o, 'r, 'e) im_state \<Rightarrow> ('r, 'e) ServerCallback" where
  "im_server_cb s st = MultiMessageServerCallback im_headerSize (im_server_types st s)"

definition im_log :: "'e list \<Rightarrow> ('o, 'r, 'e) im_state \<Rightarrow> ('o, 'r, 'e) im_state" where
  "im_log es st = st \<lparr>im_trace := im_trace st @ es\<rparr>"

text \<open>\<open>servers[address]\<close> inserts a null pointer when the address is absent.\<close>

definition im_server_at :: "string \<Rightarrow> ('o, 'r, 'e) im_state \<Rightarrow> nat option \<times> ('o, 'r, 'e) im_state" where
  "im_server_at address st =
     (case im_servers st address of
        None \<Rightarrow> (None, st \<lparr>im_servers := (im_servers st)(address \<mapsto> None)\<rparr>)
      | Some s \<Rightarrow> (s, st))"

text \<open>The start of a service: the exception carries its message.\<close>

definition im_startServer :: "string \<Rightarrow> ('o, 'r, 'e) im_state \<Rightarrow> string + (nat \<times> ('o, 'r, 'e) im_state)" where
  "im_startServer address st =
     (if im_servers st address \<noteq> None then Inl (''The address \"'' @ address @ ''\" is already occupied!'')
      else let s = im_fresh st in
        Inr (s, st \<lparr>im_servers := (im_servers st)(address \<mapsto> Some s),
          im_server := (im_server st)(s \<mapsto> \<lparr>so_available = True, so_address = address\<rparr>),
          im_server_types := (im_server_types st)(s := Map.empty), im_fresh := Suc s\<rparr>))"

definition im_deleteServer :: "nat \<Rightarrow> ('o, 'r, 'e) im_state \<Rightarrow> ('o, 'r, 'e) im_state outcome" where
  "im_deleteServer s st =
     (case im_server st s of
        None \<Rightarrow> Inl (Undefined ''deleted twice'')
      | Some so \<Rightarrow> if im_servers st (so_address so) = None then Inl (Undefined ''erase(end())'')
          else Inr (st \<lparr>im_servers := (im_servers st)(so_address so := None), im_server := (im_server st)(s := None)\<rparr>))"

text \<open>The connection callback gets \<open>SUCCESS\<close> for a call of \<open>connectionSuccessfullCB\<close>.\<close>

definition im_ireconnect :: "nat \<Rightarrow> ('o, 'r, 'e) im_state \<Rightarrow> ('o, 'r, 'e) im_state outcome" where
  "im_ireconnect c st =
     (case im_client st c of
        None \<Rightarrow> Inl (Undefined ''deleted client'')
      | Some co \<Rightarrow>
          (case im_server_at (co_address co) st of (s, st') \<Rightarrow>
             let st2 = st' \<lparr>im_client := (im_client st')(c \<mapsto> co \<lparr>co_connected := (s \<noteq> None)\<rparr>)\<rparr> in
             Inr (im_log (im_connection_cb st c (if s = None then SERVER_NOT_ACCESSABLE else SUCCESS)) st2)))"

definition im_startClient :: "string \<Rightarrow> (CommunicationError \<Rightarrow> 'e list) \<Rightarrow> ('o, 'r, 'e) im_state
    \<Rightarrow> (nat \<times> ('o, 'r, 'e) im_state) outcome" where
  "im_startClient address ccb st =
     (let c = im_fresh st;
          st1 = st \<lparr>im_client := (im_client st)(c \<mapsto> \<lparr>co_address = address, co_available = True, co_connected = False\<rparr>),
            im_client_types := (im_client_types st)(c := Map.empty), im_connection_cb := (im_connection_cb st)(c := ccb),
            im_fresh := Suc c\<rparr> in
      bindr (im_ireconnect c st1) (\<lambda>st2. Inr (c, st2)))"

definition im_registerServerType :: "nat \<Rightarrow> u32 \<Rightarrow> ('r, 'e) ServerCallback \<Rightarrow> ('o, 'r, 'e) im_state \<Rightarrow> ('o, 'r, 'e) im_state" where
  "im_registerServerType s mtype cb st =
     st \<lparr>im_server_types := (im_server_types st)(s := (im_server_types st s)(mtype \<mapsto> cb))\<rparr>"

definition im_registerClientType :: "nat \<Rightarrow> u32 \<Rightarrow> ('o, 'e) MessageCallback \<Rightarrow> ('o, 'r, 'e) im_state \<Rightarrow> ('o, 'r, 'e) im_state" where
  "im_registerClientType c mtype cb st =
     st \<lparr>im_client_types := (im_client_types st)(c := (im_client_types st c)(mtype \<mapsto> cb))\<rparr>"

subsection \<open>Sending and responding\<close>

definition im_isendResponse :: "nat \<Rightarrow> 'r \<Rightarrow> ('o, 'r, 'e) im_state \<Rightarrow> ('o, 'r, 'e) im_state outcome" where
  "im_isendResponse i r st =
     (case im_received st i of
        None \<Rightarrow> Inl (Undefined ''no such message'')
      | Some sm \<Rightarrow>
          if im_server st (sm_server sm) = None then Inl (Undefined ''deleted server'')
          else let scb = im_server_cb (sm_server sm) st in
            bindr (cb_serializeResponseLen scb (sm_copy sm) r) (\<lambda>len.
            bindr (cb_serializeResponse scb (sm_copy sm) r (replicate len 0) 0) (\<lambda>(payload, pos).
              if len \<noteq> pos then Inl (Abort ''len == pos'')
              else case im_client st (sm_client sm) of
                None \<Rightarrow> Inl (Undefined ''deleted client'')
              | Some co \<Rightarrow>
                  if \<not> co_available co then Inr st
                  else bindr (cb_responseSend scb (message_new payload len)) (\<lambda>e1.
                    case im_msgs st (sm_msg sm) of
                      None \<Rightarrow> Inl (Undefined ''deleted message'')
                    | Some msg \<Rightarrow> bindr (cb_messageResponse (im_client_cb (sm_client sm) st) msg payload)
                        (\<lambda>e2. Inr (im_log (e1 @ e2) st))))))"

definition im_isendErrorResponse :: "nat \<Rightarrow> CommunicationError \<Rightarrow> ('o, 'r, 'e) im_state \<Rightarrow> ('o, 'r, 'e) im_state outcome" where
  "im_isendErrorResponse i error st =
     (case im_received st i of
        None \<Rightarrow> Inl (Undefined ''no such message'')
      | Some sm \<Rightarrow>
          (case (im_client st (sm_client sm), im_msgs st (sm_msg sm)) of
             (Some co, Some msg) \<Rightarrow>
               bindr (if co_available co then cb_messageTransferError (im_client_cb (sm_client sm) st) msg error else Inr [])
                 (\<lambda>es. Inr ((im_log es st) \<lparr>im_msgs := (im_msgs st)(sm_msg sm := None)\<rparr>))
           | _ \<Rightarrow> Inl (Undefined ''deleted client or message'')))"

fun im_act :: "nat \<Rightarrow> ('r, 'e) server_act \<Rightarrow> ('o, 'r, 'e) im_state \<Rightarrow> ('o, 'r, 'e) im_state outcome" where
  "im_act i (Note e) st = Inr (im_log [e] st)"
| "im_act i (SendResponse r) st = im_isendResponse i r st"
| "im_act i (SendErrorResponse err) st = im_isendErrorResponse i err st"

text \<open>\<open>InMemoryServiceClient::isend(BareMessage *)\<close>. A server is in the table only while it exists.\<close>

definition im_isend :: "nat \<Rightarrow> nat \<Rightarrow> ('o, 'r, 'e) im_state \<Rightarrow> ('o, 'r, 'e) im_state outcome" where
  "im_isend c ref st =
     (case (im_client st c, im_msgs st ref) of
        (Some co, Some msg) \<Rightarrow>
          (case im_server_at (co_address co) st of
             (None, st1) \<Rightarrow>
               bindr (cb_messageTransferError (im_client_cb c st) msg SERVER_NOT_ACCESSABLE) (\<lambda>es. Inr (im_log es st1))
           | (Some s, st1) \<Rightarrow>
               (case im_server st1 s of
                  None \<Rightarrow> Inl (Undefined ''deleted server'')
                | Some so \<Rightarrow>
                    if \<not> so_available so
                    then bindr (cb_messageTransferError (im_client_cb c st) msg CONNECTION_LOST) (\<lambda>es. Inr (im_log es st1))
                    else bindr (cb_messageSend (im_client_cb c st) msg) (\<lambda>es.
                      let i = im_fresh st1;
                          st2 = (im_log es st1) \<lparr>im_received := (im_received st1)(i \<mapsto>
                            \<lparr>sm_copy = msg, sm_msg = ref, sm_client = c, sm_server = s\<rparr>), im_fresh := Suc i\<rparr> in
                      bindr (cb_messageReceived (im_server_cb s st2) msg (bm_payload msg)) (\<lambda>acts.
                        fold_outcome (im_act i) acts st2))))
      | _ \<Rightarrow> Inl (Undefined ''deleted client or message''))"

text \<open>\<open>MultiMessageTypeServiceClient::isend\<close> on this transport: the address of the message is returned.\<close>

definition mm_isend :: "nat \<Rightarrow> u32 \<Rightarrow> 'o \<Rightarrow> ('o, 'r, 'e) im_state \<Rightarrow> (nat \<times> ('o, 'r, 'e) im_state) outcome" where
  "mm_isend c mtype obj st =
     bindr (mm_message im_headerSize im_serializeHeader (im_client_types st c) mtype obj) (\<lambda>msg.
       let ref = im_fresh st; st1 = st \<lparr>im_msgs := (im_msgs st)(ref \<mapsto> msg), im_fresh := Suc ref\<rparr> in
       bindr (im_isend c ref st1) (\<lambda>st2. Inr (ref, st2)))"

section \<open>The frame of a message\<close>

text \<open>
  What the service needs of a transport: its header has a fixed size and is written at the start of the buffer.
  Then the bytes of a message are the header, the type and the object, and the type is found again.
\<close>

definition writes_message :: "('o, 'e) MessageCallback \<Rightarrow> 'o \<Rightarrow> buffer \<Rightarrow> bool" where
  "writes_message cb obj data \<longleftrightarrow> cb_serializeMessageLen cb obj = length data \<and>
     (\<forall>buf pos. cb_serializeMessage cb obj buf pos = put_bytes data buf pos)"

definition writes_response :: "('r, 'e) ServerCallback \<Rightarrow> BareMessage \<Rightarrow> 'r \<Rightarrow> buffer \<Rightarrow> bool" where
  "writes_response cb msg r data \<longleftrightarrow> cb_serializeResponseLen cb msg r = Inr (length data) \<and>
     (\<forall>buf pos. cb_serializeResponse cb msg r buf pos = put_bytes data buf pos)"

lemma put_bytes_fill:
  "length bs \<le> n \<Longrightarrow> put_bytes bs (xs @ replicate n z) (length xs) =
    Inr (xs @ bs @ replicate (n - length bs) z, length xs + length bs)"
  by (simp add: put_bytes_def)

lemmas put_bytes_fill_0 = put_bytes_fill [of _ _ "[]", simplified]

lemma headerLen [simp]: "headerLen = 4"
  by (simp add: headerLen_def serializeLen_word_def)

lemma word_enc_len32 [simp]: "length (word_enc (t :: u32)) = 4"
  by (simp add: word_enc_def)

lemma serialize_u32: "serialize_word (t :: u32) buf pos = put_bytes (word_enc t) buf pos"
  by (simp add: serialize_word_def word_enc_def)

lemma type_behind:
  assumes "length h = n"
  shows "getType n (message_new (h @ word_enc t @ data) (n + 4 + length data)) = Inr t"
    and "getClientMessageType n (message_new (h @ word_enc t @ data) (n + 4 + length data)) = Inr t"
proof -
  have "deserialize_word (h @ word_enc t @ data) n (n + 4 + length data) = Inr (t, n + 4)"
    using u32_codec.deser_enc [of t n "h @ word_enc t @ data" "n + 4 + length data"] assms
    by (simp add: serializeLen_word_def)
  then show "getType n (message_new (h @ word_enc t @ data) (n + 4 + length data)) = Inr t"
    and "getClientMessageType n (message_new (h @ word_enc t @ data) (n + 4 + length data)) = Inr t"
    by (simp_all add: getType_def getClientMessageType_def message_new_def)
qed

locale framing =
  fixes headerSize :: nat
    and serializeHeader :: "buffer \<Rightarrow> nat \<Rightarrow> nat \<Rightarrow> (buffer \<times> nat) outcome"
    and header :: "nat \<Rightarrow> buffer"
  assumes header_length: "length (header n) = headerSize"
    and header_written: "serializeHeader buf 0 n = put_bytes (header n) buf 0"
begin

lemma typed_message_bytes:
  assumes "callbacks t = Some cb" and "writes_message cb obj data" and n: "n = headerSize + 4 + length data"
  shows "mm_message headerSize serializeHeader callbacks t obj = Inr (message_new (header n @ word_enc t @ data) n)"
proof -
  have h: "serializeHeader (replicate n 0) 0 n = Inr (header n @ replicate (4 + length data) 0, headerSize)"
    using put_bytes_fill_0 [of "header n" n 0] by (simp add: header_written header_length n)
  have t: "serialize_word t (header n @ replicate (4 + length data) 0) headerSize =
      Inr (header n @ word_enc t @ replicate (length data) 0, headerSize + 4)"
    using put_bytes_fill [of "word_enc t" "4 + length data" "header n" 0] by (simp add: serialize_u32 header_length)
  have d: "put_bytes data (header n @ word_enc t @ replicate (length data) 0) (headerSize + 4) =
      Inr (header n @ word_enc t @ data, n)"
    using put_bytes_fill [of data "length data" "header n @ word_enc t" 0] by (simp add: header_length n)
  have sz: "headerLen + headerSize + cb_serializeMessageLen cb obj = n"
    using assms by (simp add: writes_message_def)
  have "cb_serializeMessage cb obj b p = put_bytes data b p" for b p
    using assms by (simp add: writes_message_def)
  with assms(1) h t d show ?thesis
    by (simp add: mm_message_def sz del: headerLen)
qed

lemma object_message_bytes:
  assumes "writes_message cb obj data" and n: "n = headerSize + length data"
  shows "object_message headerSize serializeHeader cb obj = Inr (message_new (header n @ data) n)"
proof -
  have h: "serializeHeader (replicate n 0) 0 n = Inr (header n @ replicate (length data) 0, headerSize)"
    using put_bytes_fill_0 [of "header n" n 0] by (simp add: header_written header_length n)
  have d: "put_bytes data (header n @ replicate (length data) 0) headerSize = Inr (header n @ data, n)"
    using put_bytes_fill [of data "length data" "header n" 0] by (simp add: header_length n)
  have sz: "headerSize + cb_serializeMessageLen cb obj = n"
    using assms by (simp add: writes_message_def)
  have "cb_serializeMessage cb obj b p = put_bytes data b p" for b p
    using assms by (simp add: writes_message_def)
  with h d show ?thesis
    by (simp add: object_message_def sz)
qed

end

interpretation im_framing: framing im_headerSize im_serializeHeader "\<lambda>_. []"
  by unfold_locales (simp_all add: im_headerSize_def im_serializeHeader_def put_bytes_def)

section \<open>Dispatch by type\<close>

definition typed_message :: "u32 \<Rightarrow> buffer \<Rightarrow> BareMessage" where
  "typed_message t data = message_new (word_enc t @ data) (4 + length data)"

lemma typed_message_type [simp]:
  "getType im_headerSize (typed_message t data) = Inr t"
  "getClientMessageType im_headerSize (typed_message t data) = Inr t"
  using type_behind [of "[]" 0 t data] by (simp_all add: typed_message_def im_headerSize_def)

lemma typed_message_payload [simp]: "bm_payload (typed_message t data) = word_enc t @ data"
  by (simp add: typed_message_def message_new_def)

lemma behind_type [simp]: "behind_type (word_enc (t :: u32) @ data) = Inr data"
  by (simp add: behind_type_def)

lemma im_log_simps [simp]:
  "im_servers (im_log es st) = im_servers st" "im_server (im_log es st) = im_server st"
  "im_client (im_log es st) = im_client st" "im_server_types (im_log es st) = im_server_types st"
  "im_client_types (im_log es st) = im_client_types st" "im_msgs (im_log es st) = im_msgs st"
  "im_received (im_log es st) = im_received st" "im_trace (im_log es st) = im_trace st @ es"
  "im_fresh (im_log es st) = im_fresh st" "im_log fs (im_log es st) = im_log (es @ fs) st" "im_log [] st = st"
  by (simp_all add: im_log_def)

lemma client_dispatch:
  assumes "im_client_types st c t = Some cb"
  shows "cb_messageSend (im_client_cb c st) (typed_message t data) = cb_messageSend cb (typed_message t data)"
    and "cb_messageResponse (im_client_cb c st) (typed_message t data) (word_enc (u :: u32) @ rdata) =
      cb_messageResponse cb (typed_message t data) rdata"
    and "cb_messageTransferError (im_client_cb c st) (typed_message t data) err =
      cb_messageTransferError cb (typed_message t data) err"
  using assms by (simp_all add: im_client_cb_def MultiMessageClientCallback_def callee_def)

lemma server_dispatch:
  assumes "im_server_types st s t = Some scb"
  shows "cb_messageReceived (im_server_cb s st) (typed_message t data) (word_enc t @ data) =
      cb_messageReceived scb (typed_message t data) data"
    and "cb_responseSend (im_server_cb s st) (typed_message t data) = cb_responseSend scb (typed_message t data)"
  using assms by (simp_all add: im_server_cb_def MultiMessageServerCallback_def callee_def)

lemma server_dispatch_none:
  "im_server_types st s t = None \<Longrightarrow> cb_messageReceived (im_server_cb s st) (typed_message t data) d =
    Inr [SendErrorResponse MESSAGE_TYPE_NOT_AVAILABLE]"
  by (simp add: im_server_cb_def MultiMessageServerCallback_def)

lemma server_dispatch_response:
  assumes "im_server_types st s t = Some scb" and "writes_response scb (typed_message t data) r rdata"
  shows "cb_serializeResponseLen (im_server_cb s st) (typed_message t data) r = Inr (4 + length rdata)"
    and "cb_serializeResponse (im_server_cb s st) (typed_message t data) r (replicate (4 + length rdata) 0) 0 =
      Inr (word_enc t @ rdata, 4 + length rdata)"
proof -
  show "cb_serializeResponseLen (im_server_cb s st) (typed_message t data) r = Inr (4 + length rdata)"
    using assms by (simp add: im_server_cb_def MultiMessageServerCallback_def writes_response_def)
  have "serialize_word t (replicate (4 + length rdata) 0) 0 = Inr (word_enc t @ replicate (length rdata) 0, 4)"
    using put_bytes_fill_0 [of "word_enc t" "4 + length rdata" 0] by (simp add: serialize_u32)
  moreover have "put_bytes rdata (word_enc t @ replicate (length rdata) 0) 4 = Inr (word_enc t @ rdata, 4 + length rdata)"
    using put_bytes_fill [of rdata "length rdata" "word_enc t" 0] by simp
  ultimately show "cb_serializeResponse (im_server_cb s st) (typed_message t data) r (replicate (4 + length rdata) 0) 0 =
      Inr (word_enc t @ rdata, 4 + length rdata)"
    using assms by (simp add: im_server_cb_def MultiMessageServerCallback_def writes_response_def callee_def)
qed

lemma notes_recorded: "fold_outcome (im_act i) (map Note es) st = Inr (im_log es st)"
  by (induction es arbitrary: st) (simp_all add: im_log_def)

text \<open>A client whose server exists and listens.\<close>

definition linked :: "nat \<Rightarrow> nat \<Rightarrow> ('o, 'r, 'e) im_state \<Rightarrow> bool" where
  "linked c s st \<longleftrightarrow> (\<exists>co so. im_client st c = Some co \<and> co_available co \<and>
     im_servers st (co_address co) = Some (Some s) \<and> im_server st s = Some so \<and> so_available so)"

text \<open>The state in which the server gets a message: it has been stored, sent and copied.\<close>

definition arrived :: "nat \<Rightarrow> nat \<Rightarrow> BareMessage \<Rightarrow> 'e list \<Rightarrow> ('o, 'r, 'e) im_state \<Rightarrow> ('o, 'r, 'e) im_state" where
  "arrived c s msg es st =
     (let ref = im_fresh st; i = Suc ref in
      (im_log es (st \<lparr>im_msgs := (im_msgs st)(ref \<mapsto> msg), im_fresh := Suc ref\<rparr>)) \<lparr>
        im_received := (im_received st)(i \<mapsto> \<lparr>sm_copy = msg, sm_msg = ref, sm_client = c, sm_server = s\<rparr>),
        im_fresh := Suc i\<rparr>)"

lemma arrived_simps [simp]:
  "im_client (arrived c s msg es st) = im_client st" "im_server (arrived c s msg es st) = im_server st"
  "im_client_types (arrived c s msg es st) = im_client_types st"
  "im_server_types (arrived c s msg es st) = im_server_types st"
  "im_msgs (arrived c s msg es st) = (im_msgs st)(im_fresh st \<mapsto> msg)"
  "im_received (arrived c s msg es st) (Suc (im_fresh st)) =
     Some \<lparr>sm_copy = msg, sm_msg = im_fresh st, sm_client = c, sm_server = s\<rparr>"
  "im_trace (arrived c s msg es st) = im_trace st @ es"
  by (simp_all add: arrived_def Let_def)

lemma mm_isend_arrives:
  assumes l: "linked c s st" and t: "im_client_types st c t = Some cb" and w: "writes_message cb obj data"
    and e: "cb_messageSend cb (typed_message t data) = Inr e1"
  shows "mm_isend c t obj st =
    (let st2 = arrived c s (typed_message t data) e1 st in
     bindr (cb_messageReceived (im_server_cb s st2) (typed_message t data) (word_enc t @ data)) (\<lambda>acts.
       bindr (fold_outcome (im_act (Suc (im_fresh st))) acts st2) (\<lambda>st3. Inr (im_fresh st, st3))))"
proof -
  have msg: "mm_message im_headerSize im_serializeHeader (im_client_types st c) t obj = Inr (typed_message t data)"
    using im_framing.typed_message_bytes [of "im_client_types st c" t cb obj data, OF t w refl]
    by (simp add: typed_message_def im_headerSize_def)
  have cb: "im_client_cb c (st \<lparr>im_msgs := ms, im_fresh := n\<rparr>) = im_client_cb c st" for ms n
    by (simp add: im_client_cb_def)
  show ?thesis
    using l e unfolding linked_def mm_isend_def msg
    by (auto simp: im_isend_def im_server_at_def cb client_dispatch [OF t] arrived_def im_log_def Let_def bindr_def
        split: sum.splits)
qed

section \<open>Properties\<close>

lemma bindr_cases_Inr: "bindr (Inr x) f = f x" "bindr m Inr = m"
  by (simp_all add: bindr_def split: sum.splits)

lemma response_delivered:
  assumes "im_received st i = Some \<lparr>sm_copy = typed_message t data, sm_msg = ref, sm_client = c, sm_server = s\<rparr>"
    and "im_server st s \<noteq> None" and "im_client st c = Some co" and "co_available co"
    and "im_msgs st ref = Some (typed_message t data)"
    and "im_client_types st c t = Some cb" and "im_server_types st s t = Some scb"
    and "writes_response scb (typed_message t data) r rdata"
    and "cb_responseSend scb (typed_message t rdata) = Inr e2"
    and "cb_messageResponse cb (typed_message t data) rdata = Inr e3"
  shows "im_isendResponse i r st = Inr (im_log (e2 @ e3) st)"
  using assms server_dispatch_response [of st s t scb data r rdata] server_dispatch(2) [of st s t scb rdata]
  by (simp add: im_isendResponse_def Let_def client_dispatch [of st c t cb] typed_message_def [of t rdata])

text \<open>
  C17 (functional): A typed message reaches its callback and the response comes back: when the client and its server
  have callbacks for a type, \<open>isend\<close> hands the bytes of the object to the server's callback of this type and
  no other, and the bytes of a response that the server gives go to the client's callback of
  the type; the callbacks run in the order send, receive, response sent, response received. The message stays
  with the caller.
\<close>

theorem typed_message_exchange:
  assumes l: "linked c s st" and t: "im_client_types st c t = Some cb" "im_server_types st s t = Some scb"
    and w: "writes_message cb obj data" "writes_response scb (typed_message t data) r rdata"
    and received: "cb_messageReceived scb (typed_message t data) data = Inr (map Note es @ [SendResponse r])"
    and calls: "cb_messageSend cb (typed_message t data) = Inr e1" "cb_responseSend scb (typed_message t rdata) = Inr e2"
      "cb_messageResponse cb (typed_message t data) rdata = Inr e3"
  shows "\<exists>st'. mm_isend c t obj st = Inr (im_fresh st, st') \<and> im_trace st' = im_trace st @ e1 @ es @ e2 @ e3 \<and>
    im_msgs st' = (im_msgs st)(im_fresh st \<mapsto> typed_message t data)"
proof -
  from l obtain co where co: "im_client st c = Some co" "co_available co" "im_server st s \<noteq> None"
    by (auto simp: linked_def)
  show ?thesis
    using received co response_delivered [of _ _ t data _ c s co cb scb r rdata e2 e3, OF _ _ _ _ _ _ _ w(2) calls(2,3)] t
    by (simp add: mm_isend_arrives [OF l t(1) w(1) calls(1)] server_dispatch fold_outcome_append notes_recorded bindr_cases_Inr)
qed

text \<open>
  A message whose type is not registered at the server is answered by the error
  \<open>MESSAGE_TYPE_NOT_AVAILABLE\<close>, which the client's callback gets after the notice that the message was sent.
  The transport then deletes the message, so that the pointer \<open>isend\<close> returns is dangling.
\<close>

theorem unregistered_type_rejected:
  assumes l: "linked c s st" and t: "im_client_types st c t = Some cb" "im_server_types st s t = None"
    and w: "writes_message cb obj data" and calls: "cb_messageSend cb (typed_message t data) = Inr e1"
      "cb_messageTransferError cb (typed_message t data) MESSAGE_TYPE_NOT_AVAILABLE = Inr e2"
  shows "\<exists>st'. mm_isend c t obj st = Inr (im_fresh st, st') \<and> im_trace st' = im_trace st @ e1 @ e2 \<and>
    im_msgs st' (im_fresh st) = None"
proof -
  from l obtain co where co: "im_client st c = Some co" "co_available co"
    by (auto simp: linked_def)
  with calls t show ?thesis
    by (simp add: mm_isend_arrives [OF l t(1) w calls(1)] server_dispatch_none im_isendErrorResponse_def
        client_dispatch [of _ c t cb] Let_def)
qed

subsection \<open>Sequences of operations\<close>

inductive im_step :: "('o, 'r, 'e) im_state \<Rightarrow> ('o, 'r, 'e) im_state \<Rightarrow> bool" where
  step_startServer: "im_startServer a st = Inr (s, st') \<Longrightarrow> im_step st st'"
| step_deleteServer: "im_deleteServer s st = Inr st' \<Longrightarrow> im_step st st'"
| step_startClient: "im_startClient a ccb st = Inr (c, st') \<Longrightarrow> im_step st st'"
| step_ireconnect: "im_ireconnect c st = Inr st' \<Longrightarrow> im_step st st'"
| step_registerServerType: "im_step st (im_registerServerType s t scb st)"
| step_registerClientType: "im_step st (im_registerClientType c t cb st)"
| step_isend: "mm_isend c t obj st = Inr (ref, st') \<Longrightarrow> im_step st st'"
| step_isendResponse: "im_isendResponse i r st = Inr st' \<Longrightarrow> im_step st st'"
| step_isendErrorResponse: "im_isendErrorResponse i err st = Inr st' \<Longrightarrow> im_step st st'"

text \<open>The table and the servers: an address leads to the server that has it, or to a null pointer.\<close>

definition im_ok :: "('o, 'r, 'e) im_state \<Rightarrow> bool" where
  "im_ok st \<longleftrightarrow> (\<forall>a s. im_servers st a = Some (Some s) \<longrightarrow> (\<exists>so. im_server st s = Some so \<and> so_address so = a)) \<and>
     (\<forall>s so. im_server st s = Some so \<longrightarrow> im_servers st (so_address so) = Some (Some s) \<and> s < im_fresh st)"

text \<open>Everything but start and end of a server leaves the servers alone and at most adds null pointers.\<close>

definition servers_kept :: "('o, 'r, 'e) im_state \<Rightarrow> ('o, 'r, 'e) im_state \<Rightarrow> bool" where
  "servers_kept st st' \<longleftrightarrow> im_server st' = im_server st \<and> im_fresh st \<le> im_fresh st' \<and>
     (\<forall>a. im_servers st' a = im_servers st a \<or> im_servers st a = None \<and> im_servers st' a = Some None)"

lemma kept_refl: "im_server st' = im_server st \<Longrightarrow> im_servers st' = im_servers st \<Longrightarrow> im_fresh st \<le> im_fresh st'
    \<Longrightarrow> servers_kept st st'"
  by (simp add: servers_kept_def)

lemma kept_updates [simp]:
  "servers_kept st st"
  "servers_kept st (im_log es st') = servers_kept st st'"
  "servers_kept st (st' \<lparr>im_msgs := ms\<rparr>) = servers_kept st st'"
  "servers_kept st (st' \<lparr>im_client := cs\<rparr>) = servers_kept st st'"
  "servers_kept st (st' \<lparr>im_server_types := sts\<rparr>) = servers_kept st st'"
  "servers_kept st (st' \<lparr>im_client_types := cts\<rparr>) = servers_kept st st'"
  by (auto simp: servers_kept_def)

lemma kept_created:
  "servers_kept (st \<lparr>im_client := cs, im_client_types := ct, im_connection_cb := cc, im_fresh := Suc (im_fresh st)\<rparr>) st'
    \<Longrightarrow> servers_kept st st'"
  by (auto simp: servers_kept_def)

lemma kept_trans: "servers_kept st st1 \<Longrightarrow> servers_kept st1 st2 \<Longrightarrow> servers_kept st st2"
  unfolding servers_kept_def by (metis order.trans option.distinct(1))

lemma kept_some: "servers_kept st st' \<Longrightarrow> im_servers st' a = Some (Some s) \<longleftrightarrow> im_servers st a = Some (Some s)"
  unfolding servers_kept_def by (metis option.distinct(1) option.inject)

lemma kept_ok: "servers_kept st st' \<Longrightarrow> im_ok st \<Longrightarrow> im_ok st'"
  using kept_some [of st st'] unfolding im_ok_def by (fastforce simp: servers_kept_def)

lemma kept_server_at: "im_server_at a st = (s, st') \<Longrightarrow> servers_kept st st'"
  by (auto simp: im_server_at_def servers_kept_def split: option.splits if_splits)

lemma bindrE: "bindr m f = Inr y \<Longrightarrow> (\<And>x. m = Inr x \<Longrightarrow> f x = Inr y \<Longrightarrow> P) \<Longrightarrow> P"
  by (auto simp: bindr_Inr_iff)

lemma kept_isendResponse: "im_isendResponse i r st = Inr st' \<Longrightarrow> servers_kept st st'"
  by (auto simp: im_isendResponse_def Let_def elim!: bindrE split: option.splits if_splits)

lemma kept_isendErrorResponse: "im_isendErrorResponse i err st = Inr st' \<Longrightarrow> servers_kept st st'"
  by (auto simp: im_isendErrorResponse_def elim!: bindrE split: option.splits if_splits)

lemma kept_acts: "fold_outcome (im_act i) acts st = Inr st' \<Longrightarrow> servers_kept st st'"
proof (induction acts arbitrary: st)
  case (Cons act acts)
  then obtain st1 where st1: "im_act i act st = Inr st1" "servers_kept st1 st'"
    by (auto elim: bindrE)
  then have "servers_kept st st1"
    by (cases act) (auto intro: kept_isendResponse kept_isendErrorResponse)
  with st1 show ?case by (blast intro: kept_trans)
qed simp

lemma kept_arrival:
  "servers_kept (im_log es st \<lparr>im_received := rs, im_fresh := Suc (im_fresh st)\<rparr>) st' \<Longrightarrow> servers_kept st st'"
  by (auto simp: servers_kept_def)

lemma kept_isend: "im_isend c ref st = Inr st' \<Longrightarrow> servers_kept st st'"
  by (auto simp: im_isend_def Let_def elim!: bindrE split: option.splits prod.splits if_splits
      dest!: kept_server_at kept_acts kept_arrival intro: kept_trans)

lemma kept_mm_isend: "mm_isend c t obj st = Inr (ref, st') \<Longrightarrow> servers_kept st st'"
  by (auto simp: mm_isend_def Let_def elim!: bindrE dest!: kept_isend
      intro!: kept_trans [OF kept_refl, of "st \<lparr>im_msgs := ms, im_fresh := Suc (im_fresh st)\<rparr>" st for ms])

lemma kept_ireconnect: "im_ireconnect c st = Inr st' \<Longrightarrow> servers_kept st st'"
  by (auto simp: im_ireconnect_def Let_def split: option.splits prod.splits if_splits dest!: kept_server_at)

lemma kept_startClient: "im_startClient a ccb st = Inr (c, st') \<Longrightarrow> servers_kept st st'"
  by (auto simp: im_startClient_def Let_def elim!: bindrE dest!: kept_ireconnect kept_created)

lemma startServer_ok: "im_startServer a st = Inr (s, st') \<Longrightarrow> im_ok st \<Longrightarrow> im_ok st'"
  unfolding im_ok_def im_startServer_def Let_def
  by (auto split: if_splits) (metis less_irrefl less_SucI option.distinct(1))+

lemma deleteServer_ok: "im_deleteServer s st = Inr st' \<Longrightarrow> im_ok st \<Longrightarrow> im_ok st'"
  unfolding im_ok_def im_deleteServer_def
  by (auto split: if_splits option.splits) (metis option.inject)+

lemma step_cases:
  assumes "im_step st st'"
  obtains (start) a s where "im_startServer a st = Inr (s, st')"
    | (delete) s where "im_deleteServer s st = Inr st'"
    | (kept) "servers_kept st st'"
  using assms
  by cases (auto dest: kept_startClient kept_ireconnect kept_mm_isend kept_isendResponse kept_isendErrorResponse
      simp: im_registerServerType_def im_registerClientType_def)

lemma step_ok: "im_step st st' \<Longrightarrow> im_ok st \<Longrightarrow> im_ok st'"
  by (auto elim!: step_cases intro: startServer_ok deleteServer_ok kept_ok)

lemma step_keeps_null:
  assumes "im_step st st'" and "im_ok st" and "im_servers st a = Some None"
  shows "im_servers st' a = Some None"
  using assms(1)
proof (cases rule: step_cases)
  case (start b s)
  with assms(3) show ?thesis by (auto simp: im_startServer_def Let_def split: if_splits)
next
  case (delete s)
  with assms(2,3) show ?thesis by (auto simp: im_deleteServer_def im_ok_def split: if_splits option.splits)
next
  case kept
  with assms(3) show ?thesis unfolding servers_kept_def by (metis option.distinct(1))
qed

lemma reachable_ok: "im_step\<^sup>*\<^sup>* im_new st \<Longrightarrow> im_ok st"
proof (induction rule: rtranclp_induct)
  case base
  show ?case by (simp add: im_ok_def im_new_def)
qed (rule step_ok)

lemma steps_keep_null:
  assumes "im_step\<^sup>*\<^sup>* st st'" and "im_ok st" and "im_servers st a = Some None"
  shows "im_ok st' \<and> im_servers st' a = Some None"
  using assms by (induction rule: rtranclp_induct) (auto intro: step_ok step_keeps_null)

text \<open>
  A client that is started before its server blocks the address for ever: the attempt to connect
  enters a null pointer into the table of servers, no sequence of operations removes it, and every
  start of a server at the address fails because the address is taken for occupied.
\<close>

theorem early_client_blocks_address:
  assumes "im_step\<^sup>*\<^sup>* im_new st" and "im_servers st a = None" and "im_startClient a ccb st = Inr (c, st1)"
    and "im_step\<^sup>*\<^sup>* st1 st2"
  shows "im_startServer a st2 = Inl (''The address \"'' @ a @ ''\" is already occupied!'')"
proof -
  have "im_ok st1"
    using assms(1,3) by (metis kept_ok kept_startClient reachable_ok)
  moreover have "im_servers st1 a = Some None"
    using assms(2,3) by (auto simp: im_startClient_def im_ireconnect_def im_server_at_def Let_def elim!: bindrE)
  ultimately show ?thesis
    using steps_keep_null [OF assms(4)] by (simp add: im_startServer_def)
qed

subsection \<open>Examples\<close>

text \<open>A client and a server that exchange strings under type 7; events are names with the bytes that were seen.\<close>

definition text_client :: "(string, string \<times> buffer) MessageCallback" where
  "text_client = \<lparr>cb_messageSend = (\<lambda>m. Inr [(''sent'', [])]), cb_messageResponse = (\<lambda>m buf. Inr [(''response'', buf)]),
     cb_messageTransferError = (\<lambda>m err. Inr [(if err = MESSAGE_TYPE_NOT_AVAILABLE then ''no such type'' else ''error'', [])]),
     cb_serializeMessageLen = serializeLen_string, cb_serializeMessage = serialize_string\<rparr>"

definition text_server :: "(string, string \<times> buffer) ServerCallback" where
  "text_server = \<lparr>cb_messageReceived = (\<lambda>m buf. Inr [Note (''received'', buf), SendResponse ''ok'']),
     cb_responseSend = (\<lambda>m. Inr [(''response sent'', [])]), cb_serializeResponseLen = (\<lambda>m r. Inr (serializeLen_string r)),
     cb_serializeResponse = (\<lambda>m. serialize_string)\<rparr>"

definition text_link :: "(string, string, string \<times> buffer) im_state" where
  "text_link = im_registerClientType 1 7 text_client (im_registerClientType 1 8 text_client (im_registerServerType 0 7 text_server
     (im_new \<lparr>im_servers := [''a'' \<mapsto> Some 0], im_server := [0 \<mapsto> \<lparr>so_available = True, so_address = ''a''\<rparr>],
       im_client := [1 \<mapsto> \<lparr>co_address = ''a'', co_available = True, co_connected = True\<rparr>], im_fresh := 2\<rparr>)))"

lemmas text_defs = text_link_def im_registerClientType_def im_registerServerType_def im_new_def

lemma text_writes: "fits32 x \<Longrightarrow> writes_message text_client x (blob_enc x)"
    "fits32 y \<Longrightarrow> writes_response text_server m y (blob_enc y)"
  by (simp_all add: writes_message_def writes_response_def text_client_def text_server_def serializeLen_string_def
      serialize_string_enc)

lemma text_linked: "linked 1 0 text_link"
  by (simp add: linked_def text_defs)

theorem typed_message_exchange_witness:
  "\<exists>st'. mm_isend 1 7 ''hi'' text_link = Inr (2, st') \<and> im_trace st' =
    [(''sent'', []), (''received'', blob_enc ''hi''), (''response sent'', []), (''response'', blob_enc ''ok'')]"
proof -
  have "im_fresh text_link = 2" "im_trace text_link = []" "im_client_types text_link 1 7 = Some text_client"
      "im_server_types text_link 0 7 = Some text_server"
    by (simp_all add: text_defs)
  with typed_message_exchange [OF text_linked, of 7 text_client text_server "''hi''" "blob_enc ''hi''" "''ok''" "blob_enc ''ok''"
      "[(''received'', blob_enc ''hi'')]" "[(''sent'', [])]" "[(''response sent'', [])]" "[(''response'', blob_enc ''ok'')]"]
  show ?thesis
    by (simp add: text_writes fits32_def) (auto simp: text_client_def text_server_def)
qed

theorem unregistered_type_rejected_witness:
  "\<exists>st'. mm_isend 1 8 ''hi'' text_link = Inr (2, st') \<and> im_trace st' = [(''sent'', []), (''no such type'', [])] \<and>
    im_msgs st' 2 = None"
proof -
  have "im_fresh text_link = 2" "im_trace text_link = []" "im_server_types text_link 0 8 = None"
      "im_client_types text_link 1 8 = Some text_client"
    by (simp_all add: text_defs)
  with unregistered_type_rejected [OF text_linked, of 8 text_client "''hi''" "blob_enc ''hi''" "[(''sent'', [])]"
      "[(''no such type'', [])]"]
  show ?thesis by (simp add: text_writes fits32_def) (simp add: text_client_def)
qed

theorem early_client_blocks_address_witness:
  "\<exists>c st1. im_startClient ''a'' (\<lambda>_. []) (im_new :: (string, string, nat) im_state) = Inr (c, st1) \<and>
    (\<exists>m. im_startServer ''a'' st1 = Inl m)"
proof -
  obtain c st1 where st1: "im_startClient ''a'' (\<lambda>_. []) (im_new :: (string, string, nat) im_state) = Inr (c, st1)"
    by (simp add: im_startClient_def im_ireconnect_def im_server_at_def Let_def im_new_def)
  from early_client_blocks_address [OF rtranclp.rtrancl_refl _ this rtranclp.rtrancl_refl] st1 show ?thesis
    by (simp add: im_new_def)
qed

end
