(* ===== verification/Job_Processor.thy ===== *)
theory Job_Processor
  imports Siox_Prelude "HOL-Library.Multiset" "HOL-Library.Sublist"
begin

text \<open>
  Jobs that are done by another thread: \<^verbatim>\<open>util/JobProcessor\<close> and \<^verbatim>\<open>util/JobProcessors\<close>. The abstract class
  \<open>ProcessorQueue\<close> is a record of operations with the locale \<open>processor_queue\<close> as its contract; both queues
  of the source satisfy it. The class \<open>SingleThreadedJobProcessor\<close> is a state with one function per
  member function and one per step of its thread between two points at which other threads run; the
  mutex makes each of them atomic. Jobs (\<open>void *\<close>) are values of a type variable. Counters of type \<open>int\<close> are
  integers.
\<close>

section \<open>Queues\<close>

record ('q, 'j) ProcessorQueue =
  mayEnqueue :: "'q \<Rightarrow> bool"
  enqueueFront :: "'j \<Rightarrow> 'q \<Rightarrow> 'q"
  enqueueJob :: "'j \<Rightarrow> 'q \<Rightarrow> 'q"
  queue_empty :: "'q \<Rightarrow> bool"
  pollNextJob :: "'q \<Rightarrow> ('j \<times> 'q) outcome"
  removeJob :: "'j \<Rightarrow> 'q \<Rightarrow> bool \<times> 'q"

subsection \<open>FIFOProcessorQueue\<close>

definition fifo_enqueueJob :: "'j \<Rightarrow> 'j list \<Rightarrow> 'j list" where
  "fifo_enqueueJob job pendingJobs = pendingJobs @ [job]"

definition fifo_enqueueFront :: "'j \<Rightarrow> 'j list \<Rightarrow> 'j list" where
  "fifo_enqueueFront job pendingJobs = job # pendingJobs"

definition fifo_empty :: "'j list \<Rightarrow> bool" where
  "fifo_empty pendingJobs \<longleftrightarrow> pendingJobs = []"

definition fifo_pollNextJob :: "'j list \<Rightarrow> ('j \<times> 'j list) outcome" where
  "fifo_pollNextJob pendingJobs =
     (case pendingJobs of [] \<Rightarrow> Inl (Abort ''! pendingJobs.empty()'') | job # rest \<Rightarrow> Inr (job, rest))"

definition fifo_removeJob :: "'j \<Rightarrow> 'j list \<Rightarrow> bool \<times> 'j list" where
  "fifo_removeJob job pendingJobs =
     (let rest = removeAll job pendingJobs in (length pendingJobs \<noteq> length rest, rest))"

definition FIFOProcessorQueue :: "('j list, 'j) ProcessorQueue" where
  "FIFOProcessorQueue = \<lparr>mayEnqueue = (\<lambda>_. True), enqueueFront = fifo_enqueueFront, enqueueJob = fifo_enqueueJob,
     queue_empty = fifo_empty, pollNextJob = fifo_pollNextJob, removeJob = fifo_removeJob\<rparr>"

subsection \<open>ProcessorQueueDiscardWrapper\<close>

record 'q DiscardWrapper =
  maxPendingJobs :: int
  currentJobs :: int
  wrapped :: 'q

definition DiscardWrapper_new :: "int \<Rightarrow> 'q \<Rightarrow> 'q DiscardWrapper" where
  "DiscardWrapper_new m q = \<lparr>maxPendingJobs = m, currentJobs = 0, wrapped = q\<rparr>"

definition wrap_mayEnqueue :: "'q DiscardWrapper \<Rightarrow> bool" where
  "wrap_mayEnqueue w \<longleftrightarrow> currentJobs w < maxPendingJobs w"

definition wrap_enqueueJob :: "('q, 'j) ProcessorQueue \<Rightarrow> 'j \<Rightarrow> 'q DiscardWrapper \<Rightarrow> 'q DiscardWrapper" where
  "wrap_enqueueJob Q job w = w \<lparr>currentJobs := currentJobs w + 1, wrapped := enqueueJob Q job (wrapped w)\<rparr>"

definition wrap_enqueueFront :: "('q, 'j) ProcessorQueue \<Rightarrow> 'j \<Rightarrow> 'q DiscardWrapper \<Rightarrow> 'q DiscardWrapper" where
  "wrap_enqueueFront Q job w = w \<lparr>currentJobs := currentJobs w + 1, wrapped := enqueueFront Q job (wrapped w)\<rparr>"

definition wrap_empty :: "'q DiscardWrapper \<Rightarrow> bool" where
  "wrap_empty w \<longleftrightarrow> currentJobs w = 0"

definition wrap_pollNextJob :: "('q, 'j) ProcessorQueue \<Rightarrow> 'q DiscardWrapper \<Rightarrow> ('j \<times> 'q DiscardWrapper) outcome" where
  "wrap_pollNextJob Q w =
     (if currentJobs w > 0
      then bindr (pollNextJob Q (wrapped w))
             (\<lambda>(job, q). Inr (job, w \<lparr>currentJobs := currentJobs w - 1, wrapped := q\<rparr>))
      else Inl (Abort ''currentJobs > 0''))"

definition wrap_removeJob :: "('q, 'j) ProcessorQueue \<Rightarrow> 'j \<Rightarrow> 'q DiscardWrapper \<Rightarrow> bool \<times> 'q DiscardWrapper" where
  "wrap_removeJob Q job w =
     (case removeJob Q job (wrapped w) of (ret, q) \<Rightarrow>
       (ret, w \<lparr>currentJobs := (if ret then currentJobs w - 1 else currentJobs w), wrapped := q\<rparr>))"

definition ProcessorQueueDiscardWrapper :: "('q, 'j) ProcessorQueue \<Rightarrow> ('q DiscardWrapper, 'j) ProcessorQueue" where
  "ProcessorQueueDiscardWrapper Q = \<lparr>mayEnqueue = wrap_mayEnqueue, enqueueFront = wrap_enqueueFront Q,
     enqueueJob = wrap_enqueueJob Q, queue_empty = wrap_empty, pollNextJob = wrap_pollNextJob Q,
     removeJob = wrap_removeJob Q\<rparr>"

section \<open>The processor\<close>

datatype OperationalStatus = OPERATIONAL | SHUTTING_DOWN | STOPPING

text \<open>Where the thread is: before the test of \<open>status\<close>, in the section that waits for a job, in
  \<open>processJob\<close>, or returned from \<open>process\<close>.\<close>

datatype 'j process_point = AtTest | Waiting | Processing 'j | Returned

text \<open>What the derived class sees: calls of its \<open>processJob\<close> and \<open>jobAborted\<close>.\<close>

datatype 'j job_call = ProcessJob 'j | JobAborted 'j

record ('q, 'j) JobProcessor =
  jp_queue :: 'q
  jp_status :: OperationalStatus
  jp_thread :: "'j process_point option"
  jp_calls :: "'j job_call list"

definition JobProcessor_new :: "'q \<Rightarrow> ('q, 'j) JobProcessor" where
  "JobProcessor_new q = \<lparr>jp_queue = q, jp_status = OPERATIONAL, jp_thread = None, jp_calls = []\<rparr>"

definition iStartJob :: "('q, 'j) ProcessorQueue \<Rightarrow> 'j \<Rightarrow> ('q, 'j) JobProcessor \<Rightarrow> ('q, 'j) JobProcessor" where
  "iStartJob Q job p =
     (if mayEnqueue Q (jp_queue p) then p \<lparr>jp_queue := enqueueJob Q job (jp_queue p)\<rparr>
      else p \<lparr>jp_calls := jp_calls p @ [JobAborted job]\<rparr>)"

definition iCancelJob :: "('q, 'j) ProcessorQueue \<Rightarrow> 'j \<Rightarrow> ('q, 'j) JobProcessor \<Rightarrow> ('q, 'j) JobProcessor" where
  "iCancelJob Q job p = p \<lparr>jp_queue := snd (removeJob Q job (jp_queue p))\<rparr>"

definition startProcessing :: "('q, 'j) JobProcessor \<Rightarrow> ('q, 'j) JobProcessor" where
  "startProcessing p =
     (if jp_thread p \<noteq> None then p else p \<lparr>jp_status := OPERATIONAL, jp_thread := Some AtTest\<rparr>)"

definition stopProcessing :: "('q, 'j) JobProcessor \<Rightarrow> ('q, 'j) JobProcessor" where
  "stopProcessing p = p \<lparr>jp_status := STOPPING\<rparr>"

text \<open>The loop of \<open>abortPendingJobs\<close> ends when the queue says so; \<open>None\<close> is a loop that does not.\<close>

partial_function (option) abortPendingJobs ::
  "('q, 'j) ProcessorQueue \<Rightarrow> 'q \<Rightarrow> 'j job_call list \<Rightarrow> ('q \<times> 'j job_call list) outcome option" where
  "abortPendingJobs Q q calls =
     (if queue_empty Q q then Some (Inr (q, calls))
      else case pollNextJob Q q of
             Inl e \<Rightarrow> Some (Inl e)
           | Inr (job, q') \<Rightarrow> abortPendingJobs Q q' (calls @ [JobAborted job]))"

text \<open>The part of \<open>shutdown\<close> that holds the lock, and the join with the thread.\<close>

definition shutdown_begin :: "('q, 'j) ProcessorQueue \<Rightarrow> bool \<Rightarrow> ('q, 'j) JobProcessor \<Rightarrow> ('q, 'j) JobProcessor outcome option" where
  "shutdown_begin Q terminate p =
     (if terminate
      then map_option (map_sum id (\<lambda>(q, calls). p \<lparr>jp_status := SHUTTING_DOWN, jp_queue := q, jp_calls := calls\<rparr>))
             (abortPendingJobs Q (jp_queue p) (jp_calls p))
      else Some (Inr (p \<lparr>jp_status := SHUTTING_DOWN\<rparr>)))"

definition may_join :: "('q, 'j) JobProcessor \<Rightarrow> bool" where
  "may_join p \<longleftrightarrow> jp_thread p = None \<or> jp_thread p = Some Returned"

definition shutdown_join :: "('q, 'j) JobProcessor \<Rightarrow> ('q, 'j) JobProcessor" where
  "shutdown_join p = p \<lparr>jp_thread := None\<rparr>"

text \<open>The next step of the thread; a thread that waits for its condition variable stays where it is.\<close>

definition process_step :: "('q, 'j) ProcessorQueue \<Rightarrow> ('q, 'j) JobProcessor \<Rightarrow> ('q, 'j) JobProcessor outcome" where
  "process_step Q p =
     (case jp_thread p of
        Some AtTest \<Rightarrow> Inr (p \<lparr>jp_thread := Some (if jp_status p \<noteq> STOPPING then Waiting else Returned)\<rparr>)
      | Some Waiting \<Rightarrow>
          if queue_empty Q (jp_queue p)
          then Inr (if jp_status p = SHUTTING_DOWN then p \<lparr>jp_thread := Some Returned\<rparr> else p)
          else bindr (pollNextJob Q (jp_queue p))
                 (\<lambda>(job, q). Inr (p \<lparr>jp_queue := q, jp_thread := Some (Processing job)\<rparr>))
      | Some (Processing job) \<Rightarrow> Inr (p \<lparr>jp_calls := jp_calls p @ [ProcessJob job], jp_thread := Some AtTest\<rparr>)
      | Some Returned \<Rightarrow> Inr p
      | None \<Rightarrow> Inr p)"

datatype 'j jp_action = StartJob 'j | CancelJob 'j | StartProcessing | StopProcessing | Shutdown bool | Join | Thread

inductive jp_step :: "('q, 'j) ProcessorQueue \<Rightarrow> ('q, 'j) JobProcessor \<Rightarrow> 'j jp_action \<Rightarrow> ('q, 'j) JobProcessor \<Rightarrow> bool"
  for Q where
  jp_start_job: "jp_step Q p (StartJob j) (iStartJob Q j p)"
| jp_cancel_job: "jp_step Q p (CancelJob j) (iCancelJob Q j p)"
| jp_start: "jp_step Q p StartProcessing (startProcessing p)"
| jp_stop: "jp_step Q p StopProcessing (stopProcessing p)"
| jp_shutdown: "shutdown_begin Q t p = Some (Inr p') \<Longrightarrow> jp_step Q p (Shutdown t) p'"
| jp_join: "may_join p \<Longrightarrow> jp_step Q p Join (shutdown_join p)"
| jp_thread: "process_step Q p = Inr p' \<Longrightarrow> jp_step Q p Thread p'"

inductive_cases jp_stepE: "jp_step Q p a p'"

inductive jp_run :: "('q, 'j) ProcessorQueue \<Rightarrow> ('q, 'j) JobProcessor \<Rightarrow> 'j jp_action list \<Rightarrow> ('q, 'j) JobProcessor \<Rightarrow> bool"
  for Q where
  jp_run_start: "jp_run Q p [] p"
| jp_run_step: "jp_run Q p as p' \<Longrightarrow> jp_step Q p' a p'' \<Longrightarrow> jp_run Q p (as @ [a]) p''"

section \<open>The contract of a queue\<close>

fun processed :: "'j job_call list \<Rightarrow> 'j list" where
  "processed [] = []"
| "processed (ProcessJob j # cs) = j # processed cs"
| "processed (JobAborted j # cs) = processed cs"

fun aborted :: "'j job_call list \<Rightarrow> 'j list" where
  "aborted [] = []"
| "aborted (ProcessJob j # cs) = aborted cs"
| "aborted (JobAborted j # cs) = j # aborted cs"

fun started :: "'j jp_action list \<Rightarrow> 'j list" where
  "started [] = []"
| "started (StartJob j # as) = j # started as"
| "started (_ # as) = started as"

definition in_work :: "('q, 'j) JobProcessor \<Rightarrow> 'j list" where
  "in_work p = (case jp_thread p of Some (Processing j) \<Rightarrow> [j] | _ \<Rightarrow> [])"

lemma processed_append [simp]: "processed (as @ bs) = processed as @ processed bs"
  by (induction as rule: processed.induct) auto

lemma aborted_append [simp]: "aborted (as @ bs) = aborted as @ aborted bs"
  by (induction as rule: aborted.induct) auto

lemma started_append [simp]: "started (as @ bs) = started as @ started bs"
  by (induction as rule: started.induct) auto

lemma calls_of_aborts [simp]: "processed (map JobAborted js) = []" "aborted (map JobAborted js) = js"
  and calls_of_process [simp]: "processed (map ProcessJob js) = js" "aborted (map ProcessJob js) = []"
  by (induction js) auto

lemma subseq_removeAll: "subseq (removeAll x xs) xs"
  by (simp add: removeAll_filter_not_eq)

text \<open>Where the started jobs are: kept in their order, dropped, or taken back.\<close>

definition acct :: "'j list \<Rightarrow> 'j list \<Rightarrow> 'j list \<Rightarrow> 'j set \<Rightarrow> bool" where
  "acct kept out st taken \<longleftrightarrow> subseq kept st \<and> mset kept + mset out \<subseteq># mset st \<and> set st \<subseteq> set kept \<union> set out \<union> taken"

lemma acct_start: "acct k out st t \<Longrightarrow> acct (k @ [j]) out (st @ [j]) t"
  by (auto simp: acct_def list_emb_append_mono)

lemma acct_reject: "acct k out st t \<Longrightarrow> acct k (out @ [j]) (st @ [j]) t"
  by (auto simp: acct_def list_emb_prefix)

lemma acct_abort: "acct (k @ l) out st t \<Longrightarrow> acct k (out @ l) st t"
  using subseq_order.trans [of k "k @ l" st] by (auto simp: acct_def ac_simps)

lemma acct_cancel:
  assumes "acct (k @ l) out st t"
  shows "acct (k @ removeAll j l) out st (insert j t)"
proof -
  have "subseq (k @ removeAll j l) (k @ l)"
    by (rule list_emb_append_mono) (simp_all add: subseq_removeAll)
  moreover have "mset (removeAll j l) \<subseteq># mset l"
    by (simp add: removeAll_filter_not_eq mset_filter multiset_filter_subset)
  then have "mset (k @ removeAll j l) + mset out \<subseteq># mset (k @ l) + mset out"
    by simp
  ultimately show ?thesis
    using assms subset_mset.order_trans [of "mset (k @ removeAll j l) + mset out" "mset (k @ l) + mset out" "mset st"]
    by (auto simp: acct_def intro: subseq_order.trans)
qed

lemma taken_append: "{j. j = i \<or> P j} = insert i {j. P j}"
  by auto

lemma acct_distinct: "acct k out st t \<Longrightarrow> distinct st \<Longrightarrow> distinct (k @ out)"
  unfolding acct_def mset_append [symmetric] distinct_count_atmost_1
  by (metis (no_types, lifting) count_greater_zero_iff le_zero_eq less_one mset_subset_eq_count not_gr_zero
      order_le_less set_mset_mset)

text \<open>The thread alone, for a number of steps.\<close>

fun thread_run :: "('q, 'j) ProcessorQueue \<Rightarrow> nat \<Rightarrow> ('q, 'j) JobProcessor \<Rightarrow> ('q, 'j) JobProcessor outcome" where
  "thread_run Q 0 p = Inr p"
| "thread_run Q (Suc n) p = bindr (process_step Q p) (thread_run Q n)"

fun steps_left :: "'j process_point \<Rightarrow> nat" where
  "steps_left (Processing j) = 3"
| "steps_left AtTest = 2"
| "steps_left Waiting = 1"
| "steps_left Returned = 0"

lemma thread_run_returned: "jp_thread p = Some Returned \<Longrightarrow> thread_run Q n p = Inr p"
  by (induction n) (simp_all add: process_step_def)

locale processor_queue =
  fixes Q :: "('q, 'j) ProcessorQueue"
    and jobs :: "'q \<Rightarrow> 'j list"
    and valid :: "'q \<Rightarrow> bool"
  assumes enqueueJob_law: "valid q \<Longrightarrow> valid (enqueueJob Q j q) \<and> jobs (enqueueJob Q j q) = jobs q @ [j]"
    and enqueueFront_law: "valid q \<Longrightarrow> valid (enqueueFront Q j q) \<and> jobs (enqueueFront Q j q) = j # jobs q"
    and empty_law: "valid q \<Longrightarrow> queue_empty Q q \<longleftrightarrow> jobs q = []"
    and poll_law: "valid q \<Longrightarrow> jobs q = j # js \<Longrightarrow> \<exists>q'. pollNextJob Q q = Inr (j, q') \<and> valid q' \<and> jobs q' = js"
    and remove_law: "valid q \<Longrightarrow> distinct (jobs q) \<Longrightarrow> valid (snd (removeJob Q j q)) \<and>
      jobs (snd (removeJob Q j q)) = removeAll j (jobs q) \<and> (fst (removeJob Q j q) \<longleftrightarrow> j \<in> set (jobs q))"
begin

lemma abort_all:
  "valid q \<Longrightarrow> \<exists>q'. abortPendingJobs Q q cs = Some (Inr (q', cs @ map JobAborted (jobs q))) \<and> valid q' \<and> jobs q' = []"
proof (induction "jobs q" arbitrary: q cs)
  case Nil
  then show ?case by (subst abortPendingJobs.simps) (simp add: empty_law)
next
  case (Cons j js)
  from poll_law [OF Cons.prems Cons.hyps(2) [symmetric]] obtain q' where
    q': "pollNextJob Q q = Inr (j, q')" "valid q'" "jobs q' = js" by blast
  from Cons.hyps(1) [of q' "cs @ [JobAborted j]"] q' show ?case
    by (subst abortPendingJobs.simps) (simp add: empty_law Cons.prems Cons.hyps(2) [symmetric])
qed

definition accounted :: "('q, 'j) JobProcessor \<Rightarrow> 'j jp_action list \<Rightarrow> bool" where
  "accounted p as \<longleftrightarrow> valid (jp_queue p) \<and>
     acct (processed (jp_calls p) @ in_work p @ jobs (jp_queue p)) (aborted (jp_calls p)) (started as) {j. CancelJob j \<in> set as}"

lemma step_accounted:
  assumes s: "jp_step Q p a p'" and acc: "accounted p as" and d: "distinct (started as)"
  shows "accounted p' (as @ [a])"
  using s
proof cases
  case (jp_start_job j)
  then show ?thesis using acc enqueueJob_law [of "jp_queue p" j] acct_start [of "_ @ _ @ _" _ _ _ j]
    by (auto simp: accounted_def iStartJob_def in_work_def intro: acct_reject)
next
  case (jp_cancel_job j)
  then have "distinct (jobs (jp_queue p))"
    using acct_distinct acc d unfolding accounted_def by (metis distinct_append)
  with jp_cancel_job show ?thesis
    using acc remove_law [of "jp_queue p" j] acct_cancel [of "processed (jp_calls p) @ in_work p" "jobs (jp_queue p)" _ _ _ j]
    by (simp add: accounted_def iCancelJob_def in_work_def taken_append)
next
  case jp_start
  then show ?thesis using acc
    by (auto simp: accounted_def startProcessing_def in_work_def)
next
  case jp_stop
  then show ?thesis using acc by (auto simp: accounted_def stopProcessing_def in_work_def)
next
  case (jp_shutdown t)
  then show ?thesis
    using acc abort_all [of "jp_queue p" "jp_calls p"]
      acct_abort [of "processed (jp_calls p) @ in_work p" "jobs (jp_queue p)"]
    by (auto simp: accounted_def shutdown_begin_def in_work_def split: if_splits)
next
  case jp_join
  then show ?thesis using acc
    by (auto simp: accounted_def shutdown_join_def may_join_def in_work_def)
next
  case jp_thread
  have v: "valid (jp_queue p)" using acc by (simp add: accounted_def)
  show ?thesis
  proof (cases "jp_thread p = Some Waiting \<and> jobs (jp_queue p) \<noteq> []")
    case True
    then obtain j js where "jobs (jp_queue p) = j # js" by (auto simp: neq_Nil_conv)
    with True jp_thread acc poll_law [OF v this] show ?thesis
      by (auto simp: accounted_def process_step_def in_work_def empty_law [OF v])
  next
    case False
    then show ?thesis using jp_thread acc
      by (auto simp: accounted_def process_step_def in_work_def empty_law [OF v]
          split: option.splits process_point.splits if_splits)
  qed
qed

lemma run_accounted:
  assumes "jp_run Q p0 as p" and "p0 = JobProcessor_new q" and "valid q" and "jobs q = []" and "distinct (started as)"
  shows "accounted p as"
  using assms
proof (induction rule: jp_run.induct)
  case jp_run_start
  then show ?case by (simp add: accounted_def JobProcessor_new_def in_work_def acct_def)
next
  case (jp_run_step as p' a p'')
  then show ?case using step_accounted by auto
qed

lemma thread_drains:
  assumes "valid (jp_queue p)" and "jp_status p = SHUTTING_DOWN" and "jp_thread p = Some pc" and "pc \<noteq> Returned"
    and "steps_left pc + 3 * length (jobs (jp_queue p)) \<le> n"
  shows "\<exists>p'. thread_run Q n p = Inr p' \<and> may_join p' \<and> valid (jp_queue p') \<and> jobs (jp_queue p') = [] \<and>
    jp_calls p' = jp_calls p @ map ProcessJob (in_work p @ jobs (jp_queue p))"
  using assms
proof (induction n arbitrary: p pc)
  case 0
  then show ?case by (cases pc) simp_all
next
  case (Suc n)
  show ?case
  proof (cases pc)
    case AtTest
    with Suc.prems Suc.IH [of "p \<lparr>jp_thread := Some Waiting\<rparr>" Waiting] show ?thesis
      by (simp add: process_step_def in_work_def)
  next
    case (Processing j)
    with Suc.prems Suc.IH [of "p \<lparr>jp_calls := jp_calls p @ [ProcessJob j], jp_thread := Some AtTest\<rparr>" AtTest]
    show ?thesis by (simp add: process_step_def in_work_def)
  next
    case Waiting
    show ?thesis
    proof (cases "jobs (jp_queue p)")
      case Nil
      with Waiting Suc.prems show ?thesis
        by (simp add: process_step_def empty_law thread_run_returned in_work_def may_join_def)
    next
      case (Cons j js)
      then obtain q where q: "pollNextJob Q (jp_queue p) = Inr (j, q)" "valid q" "jobs q = js"
        using poll_law Suc.prems(1) by blast
      with Waiting Cons Suc.prems Suc.IH [of "p \<lparr>jp_queue := q, jp_thread := Some (Processing j)\<rparr>" "Processing j"]
      show ?thesis by (simp add: process_step_def empty_law in_work_def)
    qed
  qed (use Suc.prems in simp)
qed

end

subsection \<open>Both queues satisfy it\<close>

lemma removed_iff: "length q \<noteq> length (removeAll j q) \<longleftrightarrow> j \<in> set q"
  by (metis length_removeAll_less less_irrefl removeAll_id)

lemma int_length_remove1: "j \<in> set l \<Longrightarrow> int (length (remove1 j l)) = int (length l) - 1"
  by (induction l) auto

interpretation fifo: processor_queue FIFOProcessorQueue "\<lambda>q. q" "\<lambda>_. True"
  by unfold_locales
    (auto simp: FIFOProcessorQueue_def fifo_enqueueJob_def fifo_enqueueFront_def fifo_empty_def fifo_pollNextJob_def
      fifo_removeJob_def Let_def removed_iff simp del: length_removeAll)

lemma wrapper_contract:
  assumes "processor_queue Q jobs valid"
  shows "processor_queue (ProcessorQueueDiscardWrapper Q) (\<lambda>w. jobs (wrapped w))
    (\<lambda>w. valid (wrapped w) \<and> currentJobs w = int (length (jobs (wrapped w))))"
proof -
  note laws = processor_queue.enqueueJob_law [OF assms] processor_queue.enqueueFront_law [OF assms]
  show ?thesis
  proof (unfold_locales, goal_cases)
    case (4 w j js)
    then show ?case using processor_queue.poll_law [OF assms, of "wrapped w" j js]
      by (auto simp: ProcessorQueueDiscardWrapper_def wrap_pollNextJob_def)
  next
    case (5 w j)
    then show ?case using processor_queue.remove_law [OF assms, of "wrapped w" j]
      by (auto simp: ProcessorQueueDiscardWrapper_def wrap_removeJob_def distinct_remove1_removeAll [symmetric]
          int_length_remove1 remove1_idem simp del: length_remove1 split: prod.splits)
  qed (auto simp: ProcessorQueueDiscardWrapper_def wrap_enqueueJob_def wrap_enqueueFront_def wrap_empty_def laws)
qed

interpretation discarding: processor_queue "ProcessorQueueDiscardWrapper FIFOProcessorQueue" wrapped
  "\<lambda>w. True \<and> currentJobs w = int (length (wrapped w))"
  by (rule wrapper_contract [OF fifo.processor_queue_axioms])

section \<open>Properties\<close>


text \<open>The jobs 1 and 2 are started, 2 is taken back, 1 is processed; 3 is aborted at the end.\<close>

lemma map_sum_Inr: "map_sum id f z = Inr y \<longleftrightarrow> (\<exists>x. z = Inr x \<and> y = f x)"
  by (cases z) auto

lemma abort_keeps_processed:
  assumes "abortPendingJobs Q q cs = Some (Inr (q', cs'))"
  shows "processed cs' = processed cs"
proof -
  have "\<forall>q' cs'. y = Inr (q', cs') \<longrightarrow> processed cs' = processed cs" if "abortPendingJobs Q q cs = Some y" for y
  proof (rule abortPendingJobs.raw_induct [OF _ that], goal_cases)
    case (1 abort Q q cs y)
    then show ?case
      by (fastforce split: if_splits sum.splits prod.splits)
  qed
  with assms show ?thesis by blast
qed

lemma jp_run_Cons: "jp_run Q p' as p'' \<Longrightarrow> jp_step Q p a p' \<Longrightarrow> jp_run Q p (a # as) p''"
proof (induction rule: jp_run.induct)
  case (jp_run_start p')
  then show ?case using jp_run_step [OF jp_run.jp_run_start, of Q p a p'] by simp
next
  case (jp_run_step p' as p1 b p2)
  then show ?case using jp_run.jp_run_step [of Q p "a # as" p1 b p2] by simp
qed

lemmas fifo_ops = FIFOProcessorQueue_def fifo_enqueueJob_def fifo_enqueueFront_def fifo_empty_def fifo_pollNextJob_def
  fifo_removeJob_def Let_def
lemmas jp_ops = JobProcessor_new_def iStartJob_def iCancelJob_def startProcessing_def stopProcessing_def shutdown_begin_def
  shutdown_join_def may_join_def process_step_def in_work_def

lemma jobs_in_order_run:
  "jp_run FIFOProcessorQueue (JobProcessor_new [])
     [StartJob (1::nat), StartJob 2, CancelJob 2, StartProcessing, Thread, Thread, Thread, StartJob 3, Shutdown True]
     \<lparr>jp_queue = [], jp_status = SHUTTING_DOWN, jp_thread = Some AtTest, jp_calls = [ProcessJob 1, JobAborted 3]\<rparr>"
  by (rule jp_run_Cons, rule jp_run_Cons, rule jp_run_Cons, rule jp_run_Cons, rule jp_run_Cons, rule jp_run_Cons,
      rule jp_run_Cons, rule jp_run_Cons, rule jp_run_Cons, rule jp_run_start, rule jp_shutdown, unfold fifo_ops)
   (auto intro!: jp_step.intros simp: jp_ops abortPendingJobs.simps)




text \<open>
  A processor whose thread has left its loop after \<open>stopProcessing\<close> processes no further job, whatever is
  called short of a complete shutdown: \<open>startProcessing\<close>, which is documented to restart the internal
  processing, does nothing while the pointer to the finished thread is kept.
\<close>

theorem stopped_processor_stays_stopped:
  assumes "jp_run Q p as p'" and "jp_thread p = Some Returned" and "Join \<notin> set as"
  shows "jp_thread p' = Some Returned \<and> processed (jp_calls p') = processed (jp_calls p)"
  using assms
proof (induction rule: jp_run.induct)
  case (jp_run_step p as p1 a p2)
  then show ?case
    by (auto elim!: jp_stepE simp: jp_ops map_sum_Inr split: if_splits dest!: abort_keeps_processed)
qed simp

theorem stopped_processor_stays_stopped_witness:
  "jp_thread (iStartJob FIFOProcessorQueue 7 (startProcessing
      \<lparr>jp_queue = [], jp_status = STOPPING, jp_thread = Some Returned, jp_calls = [] :: nat job_call list\<rparr>)) = Some Returned"
proof -
  have "jp_run FIFOProcessorQueue p [StartProcessing, StartJob 7] (iStartJob FIFOProcessorQueue 7 (startProcessing p))"
    for p :: "(nat list, nat) JobProcessor"
    by (rule jp_run_Cons, rule jp_run_Cons, rule jp_run_start) (rule jp_start_job, rule jp_start)
  from stopped_processor_stays_stopped [OF this] show ?thesis by simp
qed

end
