(* ===== verification/Gio_Transport.thy ===== *)
theory Gio_Transport
  imports Message_Service Job_Processor
begin

text \<open>
  The socket transport \<^verbatim>\<open>core/comm/modules/gio\<close>: the header of a message, reading a message from a stream, the
  client with its table of messages that wait for a response and its sending thread, the server, and the
  attempts to connect. GIO and the sockets are not part of the sources: a stream is the list of the
  bytes that arrive before the connection ends, and \<open>g_input_stream_read_all\<close> delivers the requested
  number of bytes or, when the stream ends before, the rest.

  The threads of a connection (application, sender, receiver, server) interleave as a step relation on one
  state, with one function for each piece of code between two points at which another thread can run. Calls of the
  application's callbacks are events of a trace. A deleted message is absent from the map of messages.
\<close>

section \<open>Frames\<close>

definition MAGIC_KEY :: u32 where
  "MAGIC_KEY = 14099"

definition MAGIC_ERROR_KEY :: u32 where
  "MAGIC_ERROR_KEY = 16962"

fun error_code :: "CommunicationError \<Rightarrow> u8" where
  "error_code SUCCESS = 0"
| "error_code CONNECTION_LOST = 1"
| "error_code SERVER_NOT_ACCESSABLE = 2"
| "error_code MESSAGE_TYPE_NOT_AVAILABLE = 3"
| "error_code MESSAGE_INCOMPATIBLE = 4"
| "error_code MESSAGE_DAMAGED = 5"
| "error_code INVALID_ADDRESS = 6"
| "error_code UNKNOWN_ERROR = 255"
| "error_code (Unnamed c) = c"

definition error_of_code :: "u8 \<Rightarrow> CommunicationError" where
  "error_of_code c =
     (if c = 0 then SUCCESS else if c = 1 then CONNECTION_LOST else if c = 2 then SERVER_NOT_ACCESSABLE
      else if c = 3 then MESSAGE_TYPE_NOT_AVAILABLE else if c = 4 then MESSAGE_INCOMPATIBLE
      else if c = 5 then MESSAGE_DAMAGED else if c = 6 then INVALID_ADDRESS else if c = 255 then UNKNOWN_ERROR
      else Unnamed c)"

definition clientMsgHeaderLen :: nat where
  "clientMsgHeaderLen = serializeLen_word (0 :: u32) + serializeLen_word (0 :: u32) + serializeLen_word (0 :: u64)"

definition serializeMsgHeader :: "buffer \<Rightarrow> nat \<Rightarrow> u64 \<Rightarrow> u32 \<Rightarrow> u32 \<Rightarrow> (buffer \<times> nat) outcome" where
  "serializeMsgHeader buf pos msg_size magicKey clientSidedID =
     (if pos \<noteq> 0 then Inl (Abort ''pos == 0'')
      else bindr (serialize_word clientSidedID buf pos) (\<lambda>(b, p).
           bindr (serialize_word magicKey b p) (\<lambda>(b, p). serialize_word msg_size b p)))"

definition deserializeMsgHeader :: "buffer \<Rightarrow> nat \<Rightarrow> nat \<Rightarrow> ((u64 \<times> u32 \<times> u32) \<times> nat) outcome" where
  "deserializeMsgHeader buf pos len =
     (if pos \<noteq> 0 then Inl (Abort ''pos == 0'')
      else bindr (deserialize_word buf pos len) (\<lambda>(clientSidedID :: u32, p).
           bindr (deserialize_word buf p len) (\<lambda>(magicKey :: u32, p).
           bindr (deserialize_word buf p len) (\<lambda>(msg_size :: u64, p). Inr ((msg_size, magicKey, clientSidedID), p)))))"

text \<open>The reference parameters and the result of \<open>readSocketMessage\<close>.\<close>

record socket_message =
  rm_payload :: "buffer option"
  rm_length :: u64
  rm_id :: u32
  rm_error :: CommunicationError

text \<open>
  With a length below that of the header the code shrinks its buffer and then reads almost \<open>2 ^ 64\<close> bytes
  behind it.
\<close>

definition readSocketMessage :: "buffer \<Rightarrow> (socket_message \<times> buffer) outcome" where
  "readSocketMessage input =
     (let hd = take clientMsgHeaderLen input; rest = drop clientMsgHeaderLen input in
      if length hd \<noteq> clientMsgHeaderLen
      then Inr (\<lparr>rm_payload = None, rm_length = of_nat (length hd), rm_id = 0, rm_error = MESSAGE_DAMAGED\<rparr>, rest)
      else bindr (deserializeMsgHeader hd 0 clientMsgHeaderLen) (\<lambda>((msgLength, magicKey, clientSidedID), _).
        if magicKey \<noteq> MAGIC_KEY
        then Inr (\<lparr>rm_payload = None, rm_length = msgLength, rm_id = clientSidedID,
               rm_error = (if magicKey = MAGIC_ERROR_KEY then error_of_code (ucast msgLength) else MESSAGE_DAMAGED)\<rparr>, rest)
        else if unat msgLength < clientMsgHeaderLen then Inl (Undefined ''write past the end of the buffer'')
        else let toRead = unat msgLength - clientMsgHeaderLen; body = take toRead rest in
          Inr (if length body \<noteq> toRead
               then \<lparr>rm_payload = None, rm_length = msgLength, rm_id = clientSidedID, rm_error = MESSAGE_DAMAGED\<rparr>
               else \<lparr>rm_payload = Some (hd @ body), rm_length = msgLength, rm_id = clientSidedID, rm_error = SUCCESS\<rparr>,
             drop toRead rest)))"

section \<open>A connection and its threads\<close>

datatype gio_event = Posted nat buffer | MessageSent nat | Response nat buffer | TransferError nat CommunicationError
  | Received nat buffer | Responded nat buffer | ErrorResponded nat CommunicationError | InvalidMessage CommunicationError
  | ResponseSent

text \<open>
  \<open>lastMessageID\<close> is used modulo \<open>2 ^ 32\<close> only. Of the server, the messages it got (with their client-sided id) and the queue of
  its sending thread; \<open>gc_written\<close> is set between the write and the callback of the client's sending thread.
\<close>

record gio_state =
  gc_lastMessageID :: u32
  gc_pendingResponses :: "u32 \<rightharpoonup> nat"
  gc_msgs :: "nat \<rightharpoonup> BareMessage"
  gc_fresh :: nat
  gc_sender :: "(nat list, nat) JobProcessor"
  gc_written :: bool
  gio_up :: buffer
  gio_down :: buffer
  gs_received :: "(u32 \<times> buffer) list"
  gs_queue :: "BareMessage list"
  gio_trace :: "gio_event list"

definition gio_new :: gio_state where
  "gio_new = \<lparr>gc_lastMessageID = 1, gc_pendingResponses = Map.empty, gc_msgs = Map.empty, gc_fresh = 0,
     gc_sender = startProcessing (JobProcessor_new []), gc_written = False, gio_up = [], gio_down = [], gs_received = [],
     gs_queue = [], gio_trace = []\<rparr>"

definition gio_log :: "gio_event list \<Rightarrow> gio_state \<Rightarrow> gio_state" where
  "gio_log es st = st \<lparr>gio_trace := gio_trace st @ es\<rparr>"

subsection \<open>The client sends\<close>

definition gio_serializeHeader :: "u32 \<Rightarrow> buffer \<Rightarrow> nat \<Rightarrow> nat \<Rightarrow> (buffer \<times> nat) outcome" where
  "gio_serializeHeader clientSidedID buf pos msg_size =
     serializeMsgHeader buf pos (of_nat msg_size) MAGIC_KEY clientSidedID"

definition gio_isend :: "nat \<Rightarrow> gio_state \<Rightarrow> gio_state outcome" where
  "gio_isend ref st =
     (case gc_msgs st ref of
        None \<Rightarrow> Inl (Undefined ''deleted message'')
      | Some msg \<Rightarrow> bindr (deserialize_word (bm_payload msg) 0 (bm_size msg)) (\<lambda>(clientSidedID :: u32, _).
          if clientSidedID = 0 then Inl (Abort ''clientSidedID != 0'')
          else Inr (st \<lparr>gc_pendingResponses := (gc_pendingResponses st)(clientSidedID \<mapsto> ref),
                     gc_sender := iStartJob FIFOProcessorQueue ref (gc_sender st)\<rparr>)))"

text \<open>\<open>ServiceClient::isend\<close> of an object; the number is drawn when the header is written.\<close>

definition gio_send_object :: "('o, 'e) MessageCallback \<Rightarrow> 'o \<Rightarrow> gio_state \<Rightarrow> gio_state outcome" where
  "gio_send_object cb obj st =
     bindr (object_message clientMsgHeaderLen (gio_serializeHeader (gc_lastMessageID st)) cb obj) (\<lambda>msg.
       let ref = gc_fresh st in
       gio_isend ref (gio_log [Posted ref (drop clientMsgHeaderLen (bm_payload msg))]
         (st \<lparr>gc_lastMessageID := gc_lastMessageID st + 1, gc_msgs := (gc_msgs st)(ref \<mapsto> msg), gc_fresh := Suc ref\<rparr>)))"

text \<open>\<open>MessageSendProcessor::processJob\<close>: the write, and the callback when it succeeded.\<close>

definition gio_sender_step :: "gio_state \<Rightarrow> gio_state outcome" where
  "gio_sender_step st = bindr (process_step FIFOProcessorQueue (gc_sender st)) (\<lambda>p. Inr (st \<lparr>gc_sender := p\<rparr>))"

definition gio_write :: "nat \<Rightarrow> gio_state \<Rightarrow> gio_state outcome" where
  "gio_write ref st =
     (case gc_msgs st ref of
        None \<Rightarrow> Inl (Undefined ''deleted message'')
      | Some msg \<Rightarrow> Inr (st \<lparr>gio_up := gio_up st @ bm_payload msg, gc_written := True\<rparr>))"

definition gio_write_fails :: "nat \<Rightarrow> gio_state \<Rightarrow> gio_state" where
  "gio_write_fails ref st =
     (let p = stopProcessing (gc_sender st) in
      st \<lparr>gc_sender := p \<lparr>jp_queue := fifo_enqueueFront ref (jp_queue p), jp_thread := Some AtTest\<rparr>\<rparr>)"

definition gio_notify :: "nat \<Rightarrow> gio_state \<Rightarrow> gio_state outcome" where
  "gio_notify ref st =
     (case gc_msgs st ref of
        None \<Rightarrow> Inl (Undefined ''deleted message'')
      | Some msg \<Rightarrow> gio_sender_step ((gio_log [MessageSent ref] st) \<lparr>gc_written := False\<rparr>))"

text \<open>\<open>dropPendingMessages\<close>: the jobs that wait are aborted, which reports an error and deletes each message.\<close>

definition gio_dropPendingMessages :: "gio_state \<Rightarrow> gio_state outcome option" where
  "gio_dropPendingMessages st =
     map_option (map_sum id (\<lambda>p.
         let refs = jp_queue (gc_sender st) in
         (gio_log (map (\<lambda>ref. TransferError ref UNKNOWN_ERROR) refs) st)
           \<lparr>gc_sender := p, gc_msgs := (gc_msgs st) |` (- set refs)\<rparr>))
       (shutdown_begin FIFOProcessorQueue True (gc_sender st))"

subsection \<open>The server\<close>

definition gio_error_message :: "u32 \<Rightarrow> CommunicationError \<Rightarrow> BareMessage outcome" where
  "gio_error_message clientSidedID error =
     bindr (serializeMsgHeader (replicate clientMsgHeaderLen 0) 0 (ucast (error_code error)) MAGIC_ERROR_KEY clientSidedID)
       (\<lambda>(payload, _). Inr (message_new payload clientMsgHeaderLen))"

definition gio_response_message :: "('r, 'e) ServerCallback \<Rightarrow> u32 \<Rightarrow> BareMessage \<Rightarrow> 'r \<Rightarrow> BareMessage outcome" where
  "gio_response_message scb clientSidedID msg obj =
     bindr (cb_serializeResponseLen scb msg obj) (\<lambda>n.
       let msg_size = clientMsgHeaderLen + n in
       bindr (serializeMsgHeader (replicate msg_size 0) 0 (of_nat msg_size) MAGIC_KEY clientSidedID) (\<lambda>(b, p).
       bindr (cb_serializeResponse scb msg obj b p) (\<lambda>(b, _). Inr (message_new b msg_size))))"

text \<open>One round of the loop of \<open>acceptThreadFunc\<close>; the first component says whether the loop goes on.\<close>

definition gio_server_read :: "gio_state \<Rightarrow> (bool \<times> gio_state) outcome" where
  "gio_server_read st =
     bindr (readSocketMessage (gio_up st)) (\<lambda>(m, rest).
       let st1 = st \<lparr>gio_up := rest\<rparr> in
       case rm_payload m of
         None \<Rightarrow>
           if rm_length m > 0
           then bindr (gio_error_message (rm_id m) (rm_error m)) (\<lambda>err.
             Inr (False, (gio_log [InvalidMessage (rm_error m)] st1) \<lparr>gs_queue := gs_queue st1 @ [err]\<rparr>))
           else Inr (False, st1)
       | Some payload \<Rightarrow>
           Inr (True, (gio_log [Received (length (gs_received st1)) (drop clientMsgHeaderLen payload)] st1)
             \<lparr>gs_received := gs_received st1 @ [(rm_id m, payload)]\<rparr>))"

definition gio_isendResponse :: "('r, 'e) ServerCallback \<Rightarrow> nat \<Rightarrow> 'r \<Rightarrow> gio_state \<Rightarrow> gio_state outcome" where
  "gio_isendResponse scb i obj st =
     (if i < length (gs_received st)
      then case gs_received st ! i of (clientSidedID, payload) \<Rightarrow>
        bindr (gio_response_message scb clientSidedID (message_new payload (length payload)) obj) (\<lambda>msg.
          Inr ((gio_log [Responded i (drop clientMsgHeaderLen (bm_payload msg))] st) \<lparr>gs_queue := gs_queue st @ [msg]\<rparr>))
      else Inl (Undefined ''no such message''))"

definition gio_isendErrorResponse :: "nat \<Rightarrow> CommunicationError \<Rightarrow> gio_state \<Rightarrow> gio_state outcome" where
  "gio_isendErrorResponse i error st =
     (if i < length (gs_received st)
      then bindr (gio_error_message (fst (gs_received st ! i)) error) (\<lambda>msg.
        Inr ((gio_log [ErrorResponded i error] st) \<lparr>gs_queue := gs_queue st @ [msg]\<rparr>))
      else Inl (Undefined ''no such message''))"

definition gio_server_write :: "gio_state \<Rightarrow> gio_state" where
  "gio_server_write st =
     (case gs_queue st of
        [] \<Rightarrow> st
      | msg # rest \<Rightarrow> (gio_log [ResponseSent] st) \<lparr>gs_queue := rest, gio_down := gio_down st @ bm_payload msg\<rparr>)"

subsection \<open>The client receives\<close>

text \<open>One round of the loop of \<open>connectionThreadFunc\<close>.\<close>

definition gio_client_read :: "gio_state \<Rightarrow> (bool \<times> gio_state) outcome" where
  "gio_client_read st =
     bindr (readSocketMessage (gio_down st)) (\<lambda>(m, rest).
       let st1 = st \<lparr>gio_down := rest\<rparr> in
       if rm_length m = 0 then Inr (False, st1)
       else case gc_pendingResponses st1 (rm_id m) of
         None \<Rightarrow> Inr (True, st1)
       | Some ref \<Rightarrow>
           let st2 = st1 \<lparr>gc_pendingResponses := (gc_pendingResponses st1)(rm_id m := None)\<rparr> in
           if gc_msgs st2 ref = None then Inl (Undefined ''deleted message'')
           else let st3 = st2 \<lparr>gc_msgs := (gc_msgs st2)(ref := None)\<rparr> in
             if rm_error m = SUCCESS
             then case rm_payload m of
               None \<Rightarrow> Inl (Abort ''payload'')
             | Some payload \<Rightarrow> Inr (True, gio_log [Response ref (drop clientMsgHeaderLen payload)] st3)
             else Inr (rm_error m \<noteq> MESSAGE_DAMAGED, gio_log [TransferError ref (rm_error m)] st3))"

section \<open>Frames are read back\<close>

definition gio_header :: "u64 \<Rightarrow> u32 \<Rightarrow> u32 \<Rightarrow> buffer" where
  "gio_header msg_size magicKey clientSidedID = word_enc clientSidedID @ word_enc magicKey @ word_enc msg_size"

definition data_frame :: "u32 \<Rightarrow> buffer \<Rightarrow> buffer" where
  "data_frame clientSidedID data = gio_header (of_nat (16 + length data)) MAGIC_KEY clientSidedID @ data"

definition error_frame :: "u32 \<Rightarrow> CommunicationError \<Rightarrow> buffer" where
  "error_frame clientSidedID err = gio_header (ucast (error_code err)) MAGIC_ERROR_KEY clientSidedID"

lemma clientMsgHeaderLen [simp]: "clientMsgHeaderLen = 16"
  by (simp add: clientMsgHeaderLen_def serializeLen_word_def)

lemma word_enc_len64 [simp]: "length (word_enc (w :: u64)) = 8"
  by (simp add: word_enc_def)

lemma gio_header_length [simp]: "length (gio_header n key i) = 16"
  by (simp add: gio_header_def word_enc_def)

lemma serializeMsgHeader_put: "serializeMsgHeader buf 0 n key i = put_bytes (gio_header n key i) buf 0"
proof -
  have "serialize_word w buf pos = put_bytes (word_enc w) buf pos" for w :: u64 and buf pos
    by (simp add: serialize_word_def word_enc_def)
  then show ?thesis
    using put_bytes_append [of "word_enc i" buf 0 "word_enc key @ word_enc n"]
      put_bytes_append [of "word_enc key" _ _ "word_enc n"]
    by (simp add: serializeMsgHeader_def gio_header_def serialize_u32 case_prod_beta')
qed

lemma deserializeMsgHeader_header:
  "deserializeMsgHeader (gio_header n key i) 0 16 = Inr ((n, key, i), 16)"
proof -
  have a: "deserialize_word (gio_header n key i) 0 16 = Inr (i, 4)"
    using u32_codec.deser_enc [of i 0 "gio_header n key i" 16] by (simp add: gio_header_def serializeLen_word_def)
  have b: "deserialize_word (gio_header n key i) 4 16 = Inr (key, 8)"
    using u32_codec.deser_enc [of key 4 "gio_header n key i" 16] by (simp add: gio_header_def serializeLen_word_def)
  have c: "deserialize_word (gio_header n key i) 8 16 = Inr (n, 16)"
    using u64_codec.deser_enc [of n 8 "gio_header n key i" 16]
    by (simp add: gio_header_def serializeLen_word_def word_enc_def)
  from a b c show ?thesis by (simp add: deserializeMsgHeader_def)
qed

interpretation gio_framing: framing clientMsgHeaderLen "gio_serializeHeader i" "\<lambda>n. gio_header (of_nat n) MAGIC_KEY i" for i
  by unfold_locales (simp_all add: gio_serializeHeader_def serializeMsgHeader_put)

lemma read_data_frame:
  assumes "16 + length data < 2 ^ 64"
  shows "readSocketMessage (data_frame i data @ rest) =
    Inr (\<lparr>rm_payload = Some (data_frame i data), rm_length = of_nat (16 + length data), rm_id = i, rm_error = SUCCESS\<rparr>, rest)"
proof -
  have "unat (of_nat (16 + length data) :: u64) = 16 + length data"
    using assms by (simp add: unat_of_nat take_bit_nat_eq_self del: of_nat_add)
  then show ?thesis
    by (simp add: readSocketMessage_def data_frame_def deserializeMsgHeader_header Let_def del: of_nat_add)
qed

lemma error_of_code_ucast:
  "error_of_code (ucast (ucast c :: u64)) = error_of_code c"
  by (simp add: unsigned_ucast_eq take_bit_word_eq_self)

lemma read_error_frame:
  "readSocketMessage (error_frame i err @ rest) =
    Inr (\<lparr>rm_payload = None, rm_length = ucast (error_code err), rm_id = i, rm_error = error_of_code (error_code err)\<rparr>, rest)"
  by (simp add: readSocketMessage_def error_frame_def deserializeMsgHeader_header Let_def MAGIC_KEY_def MAGIC_ERROR_KEY_def
      error_of_code_ucast)

lemma drop_data_frame [simp]: "drop 16 (data_frame i data) = data"
  by (simp add: data_frame_def)

lemma data_frame_nonempty [simp]: "data_frame i data \<noteq> []" "error_frame i err \<noteq> []"
  by (simp_all add: data_frame_def error_frame_def flip: length_greater_0_conv)

lemma id_of_frame: "deserialize_word (data_frame i data) 0 (16 + length data) = Inr (i, 4)"
  using u32_codec.deser_enc [of i 0 "data_frame i data" "16 + length data"]
  by (simp add: data_frame_def gio_header_def serializeLen_word_def word_enc_def)

lemma gio_error_message_frame: "gio_error_message i err = Inr (message_new (error_frame i err) 16)"
  using put_bytes_fill_0 [of "gio_header (ucast (error_code err)) MAGIC_ERROR_KEY i" 16 0]
  by (simp add: gio_error_message_def serializeMsgHeader_put error_frame_def)

lemma gio_response_frame:
  assumes "writes_response scb msg obj data"
  shows "gio_response_message scb i msg obj = Inr (message_new (data_frame i data) (16 + length data))"
proof -
  let ?h = "gio_header (of_nat (16 + length data)) MAGIC_KEY i"
  have "put_bytes ?h (replicate (16 + length data) 0) 0 = Inr (?h @ replicate (length data) 0, 16)"
    using put_bytes_fill_0 [of ?h "16 + length data" 0] by (simp del: of_nat_add)
  moreover have "put_bytes data (?h @ replicate (length data) 0) 16 = Inr (?h @ data, 16 + length data)"
    using put_bytes_fill [of data "length data" ?h 0] by (simp del: of_nat_add)
  ultimately show ?thesis
    using assms by (simp add: gio_response_message_def writes_response_def Let_def serializeMsgHeader_put data_frame_def
        del: of_nat_add)
qed

lemma gio_object_frame:
  assumes "writes_message cb obj data"
  shows "object_message clientMsgHeaderLen (gio_serializeHeader i) cb obj = Inr (message_new (data_frame i data) (16 + length data))"
  using gio_framing.object_message_bytes [OF assms refl] by (simp add: data_frame_def del: of_nat_add)

section \<open>Interleavings\<close>

text \<open>
  The steps of a connection in operation. A read blocks while no byte has arrived. The serializers of the application keep
  their contract, and no buffer is as large as the address space.
\<close>

inductive gio_step :: "('o, 'e) MessageCallback \<Rightarrow> ('r, 'f) ServerCallback \<Rightarrow> gio_state \<Rightarrow> gio_state \<Rightarrow> bool"
  for cb :: "('o, 'e) MessageCallback" and scb :: "('r, 'f) ServerCallback" where
  gio_post: "writes_message cb obj data \<Longrightarrow> 16 + length data < 2 ^ 64 \<Longrightarrow> gio_send_object cb obj st = Inr st'
    \<Longrightarrow> gio_step cb scb st st'"
| gio_sending: "\<forall>ref. jp_thread (gc_sender st) \<noteq> Some (Processing ref) \<Longrightarrow> gio_sender_step st = Inr st'
    \<Longrightarrow> gio_step cb scb st st'"
| gio_writing: "jp_thread (gc_sender st) = Some (Processing ref) \<Longrightarrow> \<not> gc_written st \<Longrightarrow> gio_write ref st = Inr st'
    \<Longrightarrow> gio_step cb scb st st'"
| gio_write_failing: "jp_thread (gc_sender st) = Some (Processing ref) \<Longrightarrow> \<not> gc_written st
    \<Longrightarrow> gio_step cb scb st (gio_write_fails ref st)"
| gio_notifying: "jp_thread (gc_sender st) = Some (Processing ref) \<Longrightarrow> gc_written st \<Longrightarrow> gio_notify ref st = Inr st'
    \<Longrightarrow> gio_step cb scb st st'"
| gio_server_reading: "gio_up st \<noteq> [] \<Longrightarrow> gio_server_read st = Inr (go_on, st') \<Longrightarrow> gio_step cb scb st st'"
| gio_responding: "i < length (gs_received st) \<Longrightarrow>
    writes_response scb (message_new (snd (gs_received st ! i)) (length (snd (gs_received st ! i)))) obj data \<Longrightarrow>
    16 + length data < 2 ^ 64 \<Longrightarrow> gio_isendResponse scb i obj st = Inr st' \<Longrightarrow> gio_step cb scb st st'"
| gio_error_responding: "gio_isendErrorResponse i err st = Inr st' \<Longrightarrow> gio_step cb scb st st'"
| gio_server_writing: "gio_step cb scb st (gio_server_write st)"
| gio_client_reading: "gio_down st \<noteq> [] \<Longrightarrow> gio_client_read st = Inr (go_on, st') \<Longrightarrow> gio_step cb scb st st'"

inductive_cases gio_stepE: "gio_step cb scb st st'"

subsection \<open>The invariant\<close>

definition id_of :: "nat \<Rightarrow> u32" where
  "id_of ref = of_nat (Suc ref)"

definition posted :: "gio_state \<Rightarrow> nat \<Rightarrow> buffer \<Rightarrow> bool" where
  "posted st ref d \<longleftrightarrow> ref < gc_fresh st \<and> Posted ref d \<in> set (gio_trace st) \<and> 16 + length d < 2 ^ 64"

text \<open>The message the server has under a number is the one the client posted.\<close>

definition got :: "gio_state \<Rightarrow> nat \<Rightarrow> nat \<Rightarrow> buffer \<Rightarrow> bool" where
  "got st i ref d \<longleftrightarrow> i < length (gs_received st) \<and> gs_received st ! i = (id_of ref, data_frame (id_of ref) d) \<and>
     posted st ref d \<and> Received i d \<in> set (gio_trace st)"

datatype response = Data_Response nat nat buffer | Error_Response nat nat CommunicationError

fun response_frame :: "response \<Rightarrow> buffer" where
  "response_frame (Data_Response i ref d) = data_frame (id_of ref) d"
| "response_frame (Error_Response i ref e) = error_frame (id_of ref) e"

fun response_ok :: "gio_state \<Rightarrow> response \<Rightarrow> bool" where
  "response_ok st (Data_Response i ref d) \<longleftrightarrow> (\<exists>q. got st i ref q) \<and> Responded i d \<in> set (gio_trace st) \<and> 16 + length d < 2 ^ 64"
| "response_ok st (Error_Response i ref e) \<longleftrightarrow> (\<exists>q. got st i ref q) \<and> ErrorResponded i e \<in> set (gio_trace st)"

definition answered :: "gio_state \<Rightarrow> nat \<Rightarrow> buffer \<Rightarrow> bool" where
  "answered st ref d \<longleftrightarrow> (\<exists>i q. got st i ref q \<and> Responded i d \<in> set (gio_trace st))"

fun completes :: "nat \<Rightarrow> gio_event \<Rightarrow> bool" where
  "completes ref (Response r d) \<longleftrightarrow> r = ref"
| "completes ref (TransferError r e) \<longleftrightarrow> r = ref"
| "completes ref _ \<longleftrightarrow> False"

definition completions :: "nat \<Rightarrow> gio_state \<Rightarrow> nat" where
  "completions ref st = length (filter (completes ref) (gio_trace st))"

definition client_inv :: "gio_state \<Rightarrow> bool" where
  "client_inv st \<longleftrightarrow> gc_fresh st < 2 ^ 32 \<and> gc_lastMessageID st = id_of (gc_fresh st) \<and>
     (\<forall>i ref. gc_pendingResponses st i = Some ref \<longrightarrow> i = id_of ref \<and> ref < gc_fresh st \<and> gc_msgs st ref \<noteq> None \<and>
        completions ref st = 0) \<and>
     (\<forall>ref. completions ref st \<le> 1) \<and> (\<forall>ref \<ge> gc_fresh st. completions ref st = 0)"

definition msgs_inv :: "gio_state \<Rightarrow> bool" where
  "msgs_inv st \<longleftrightarrow> (\<forall>ref m. gc_msgs st ref = Some m \<longrightarrow>
     (\<exists>d. posted st ref d \<and> m = message_new (data_frame (id_of ref) d) (16 + length d)))"

definition up_inv :: "gio_state \<Rightarrow> bool" where
  "up_inv st \<longleftrightarrow> (\<exists>ms. gio_up st = concat (map (\<lambda>(ref, d). data_frame (id_of ref) d) ms) \<and>
     (\<forall>(ref, d) \<in> set ms. posted st ref d)) \<and> (\<forall>i < length (gs_received st). \<exists>ref d. got st i ref d)"

definition down_inv :: "gio_state \<Rightarrow> bool" where
  "down_inv st \<longleftrightarrow> (\<exists>ds qs. gio_down st = concat (map response_frame ds) \<and> map bm_payload (gs_queue st) = map response_frame qs \<and>
     (\<forall>r \<in> set ds \<union> set qs. response_ok st r)) \<and>
     (\<forall>ref d. Response ref d \<in> set (gio_trace st) \<longrightarrow> answered st ref d)"

definition extends :: "gio_state \<Rightarrow> gio_state \<Rightarrow> bool" where
  "extends st st' \<longleftrightarrow> set (gio_trace st) \<subseteq> set (gio_trace st') \<and> gc_fresh st \<le> gc_fresh st' \<and>
     (\<exists>xs. gs_received st' = gs_received st @ xs)"

lemma posted_ext: "posted st ref d \<Longrightarrow> extends st st' \<Longrightarrow> posted st' ref d"
  by (auto simp: posted_def extends_def)

lemma got_ext: "got st i ref d \<Longrightarrow> extends st st' \<Longrightarrow> got st' i ref d"
  using posted_ext [of st ref d st'] by (auto simp: got_def extends_def nth_append)

lemma response_ok_ext: "response_ok st r \<Longrightarrow> extends st st' \<Longrightarrow> response_ok st' r"
  by (cases r) (auto dest: got_ext, auto simp: extends_def)

lemma answered_ext: "answered st ref d \<Longrightarrow> extends st st' \<Longrightarrow> answered st' ref d"
  unfolding answered_def by (metis extends_def got_ext subsetD)

lemma msgs_ext: "msgs_inv st \<Longrightarrow> extends st st' \<Longrightarrow> gc_msgs st' \<subseteq>\<^sub>m gc_msgs st \<Longrightarrow> msgs_inv st'"
  unfolding msgs_inv_def by (metis domI map_le_def posted_ext)

lemma up_ext:
  assumes "up_inv st" and "extends st st'" and "gio_up st' = gio_up st" and "gs_received st' = gs_received st"
  shows "up_inv st'"
proof -
  from assms(1) obtain ms where ms: "gio_up st = concat (map (\<lambda>(ref, d). data_frame (id_of ref) d) ms)"
    and "\<forall>(ref, d) \<in> set ms. posted st ref d" by (auto simp: up_inv_def)
  then have "\<forall>(ref, d) \<in> set ms. posted st' ref d"
    using assms(2) by (auto intro: posted_ext)
  moreover have "\<exists>ref d. got st' i ref d" if "i < length (gs_received st)" for i
    using assms(1,2) that unfolding up_inv_def by (meson got_ext)
  ultimately show ?thesis
    unfolding up_inv_def assms(3,4) ms by blast
qed

lemma down_ext:
  assumes "down_inv st" and "extends st st'" and "gio_down st' = gio_down st" and "gs_queue st' = gs_queue st"
    and "\<And>ref d. Response ref d \<in> set (gio_trace st') \<Longrightarrow> Response ref d \<in> set (gio_trace st) \<or> answered st' ref d"
  shows "down_inv st'"
  using assms response_ok_ext [OF _ assms(2)] answered_ext [OF _ assms(2)] unfolding down_inv_def by metis

definition gio_inv :: "gio_state \<Rightarrow> bool" where
  "gio_inv st \<longleftrightarrow> client_inv st \<and> msgs_inv st \<and> up_inv st \<and> down_inv st"

lemma gio_inv_new: "gio_inv gio_new"
  unfolding gio_inv_def client_inv_def msgs_inv_def up_inv_def down_inv_def
  by (intro conjI exI [of _ "[]"]) (simp_all add: gio_new_def completions_def id_of_def)

lemma gio_log_simps [simp]:
  "gc_lastMessageID (gio_log es st) = gc_lastMessageID st" "gc_pendingResponses (gio_log es st) = gc_pendingResponses st"
  "gc_msgs (gio_log es st) = gc_msgs st" "gc_fresh (gio_log es st) = gc_fresh st" "gio_up (gio_log es st) = gio_up st"
  "gio_down (gio_log es st) = gio_down st" "gs_received (gio_log es st) = gs_received st"
  "gs_queue (gio_log es st) = gs_queue st" "gio_trace (gio_log es st) = gio_trace st @ es"
  "gc_sender (gio_log es st) = gc_sender st" "gc_written (gio_log es st) = gc_written st"
  by (simp_all add: gio_log_def)

text \<open>Steps that touch neither the streams nor the client's tables.\<close>

lemma quiet_step:
  assumes "gio_inv st" and "gio_trace st' = gio_trace st @ es" and "\<forall>e \<in> set es. \<not> (\<exists>ref. completes ref e)"
    and "gc_lastMessageID st' = gc_lastMessageID st" "gc_pendingResponses st' = gc_pendingResponses st"
      "gc_msgs st' = gc_msgs st" "gc_fresh st' = gc_fresh st" "gio_up st' = gio_up st" "gs_received st' = gs_received st"
      "gio_down st' = gio_down st" "gs_queue st' = gs_queue st"
  shows "gio_inv st'"
proof -
  have ext: "extends st st'" using assms by (simp add: extends_def)
  have comp: "completions ref st' = completions ref st" for ref
    using assms(2,3) by (auto simp: completions_def filter_empty_conv)
  have down: "down_inv st'"
  proof (rule down_ext [OF _ ext])
    show "Response ref d \<in> set (gio_trace st) \<or> answered st' ref d" if "Response ref d \<in> set (gio_trace st')" for ref d
      using that assms(2,3) by fastforce
  qed (use assms in \<open>simp_all add: gio_inv_def\<close>)
  from assms ext show ?thesis
    unfolding gio_inv_def using msgs_ext [of st st'] up_ext [of st st'] down
    by (simp add: client_inv_def comp)
qed

lemma unat_id_of: "Suc ref < 2 ^ 32 \<Longrightarrow> unat (id_of ref) = Suc ref"
  unfolding id_of_def by (simp add: unat_of_nat take_bit_nat_eq_self del: of_nat_Suc)

lemma id_of_inj: "id_of a = id_of b \<Longrightarrow> Suc a < 2 ^ 32 \<Longrightarrow> Suc b < 2 ^ 32 \<Longrightarrow> a = b"
  by (metis Suc_inject unat_id_of)

lemma id_of_zero: "Suc ref = 2 ^ 32 \<Longrightarrow> id_of ref = 0"
  by (simp add: id_of_def del: of_nat_Suc)

lemma live_posted:
  assumes "gio_inv st" and "gc_msgs st ref = Some m"
  obtains d where "posted st ref d" and "m = message_new (data_frame (id_of ref) d) (16 + length d)"
  using assms unfolding gio_inv_def msgs_inv_def by blast

lemma received_got:
  assumes "gio_inv st" and "i < length (gs_received st)"
  obtains ref d where "got st i ref d"
  using assms unfolding gio_inv_def up_inv_def by blast

lemma post_step:
  assumes inv: "gio_inv st" and w: "writes_message cb obj data" and len: "16 + length data < 2 ^ 64"
    and s: "gio_send_object cb obj st = Inr st'"
  shows "gio_inv st'"
proof -
  let ?ref = "gc_fresh st"
  have last: "gc_lastMessageID st = id_of ?ref" and lt: "?ref < 2 ^ 32"
    using inv by (simp_all add: gio_inv_def client_inv_def)
  from s have nz: "id_of ?ref \<noteq> 0" and st': "st' = (gio_log [Posted ?ref data]
      (st \<lparr>gc_lastMessageID := id_of ?ref + 1, gc_msgs := (gc_msgs st)(?ref \<mapsto> message_new (data_frame (id_of ?ref) data) (16 + length data)),
        gc_fresh := Suc ?ref\<rparr>)) \<lparr>gc_pendingResponses := (gc_pendingResponses st)(id_of ?ref \<mapsto> ?ref),
        gc_sender := iStartJob FIFOProcessorQueue ?ref (gc_sender st)\<rparr>"
    using id_of_frame [of "id_of ?ref" data]
    by (auto simp: gio_send_object_def gio_object_frame [OF w, simplified] gio_isend_def Let_def last message_new_def
        split: if_splits)
  have ext: "extends st st'" by (auto simp: extends_def st')
  have comp: "completions ref st' = completions ref st" for ref
    by (simp add: completions_def st')
  have "Suc ?ref < 2 ^ 32"
    using nz lt id_of_zero [of ?ref] by (metis Suc_lessI)
  then have "client_inv st'"
    using inv unfolding gio_inv_def client_inv_def comp by (auto simp: st' id_of_def intro: less_SucI)
  moreover have "msgs_inv st'"
    unfolding msgs_inv_def
  proof (intro allI impI)
    fix ref m
    assume m: "gc_msgs st' ref = Some m"
    show "\<exists>d. posted st' ref d \<and> m = message_new (data_frame (id_of ref) d) (16 + length d)"
    proof (cases "ref = ?ref")
      case True
      with m len show ?thesis by (auto simp: st' posted_def)
    next
      case False
      with m have "gc_msgs st ref = Some m" by (simp add: st')
      from live_posted [OF inv this] ext show ?thesis by (metis posted_ext)
    qed
  qed
  moreover have "up_inv st'"
    using inv ext by (auto simp: gio_inv_def st' elim: up_ext)
  moreover have "down_inv st'"
    using inv by (auto simp: gio_inv_def intro!: down_ext [OF _ ext]) (auto simp: st')
  ultimately show ?thesis by (simp add: gio_inv_def)
qed

lemma write_step:
  assumes inv: "gio_inv st" and s: "gio_write ref st = Inr st'"
  shows "gio_inv st'"
proof -
  from s obtain m where m: "gc_msgs st ref = Some m" and st': "st' = st \<lparr>gio_up := gio_up st @ bm_payload m, gc_written := True\<rparr>"
    by (auto simp: gio_write_def split: option.splits)
  have ext: "extends st st'" by (simp add: extends_def st')
  obtain d where d: "posted st ref d" "bm_payload m = data_frame (id_of ref) d"
    using live_posted [OF inv m] by (metis BareMessage.select_convs(2) message_new_def)
  have "up_inv st'"
  proof -
    from inv obtain ms where ms: "gio_up st = concat (map (\<lambda>(ref, d). data_frame (id_of ref) d) ms)"
      and ok: "\<forall>(ref, d) \<in> set ms. posted st ref d" by (auto simp: gio_inv_def up_inv_def)
    have "gio_up st' = concat (map (\<lambda>(ref, d). data_frame (id_of ref) d) (ms @ [(ref, d)]))"
      by (simp add: st' ms d)
    moreover have "\<forall>(ref, d) \<in> set (ms @ [(ref, d)]). posted st' ref d"
      using ok d ext by (auto intro: posted_ext)
    moreover have "\<exists>ref d. got st' i ref d" if "i < length (gs_received st')" for i
    proof -
      have "i < length (gs_received st)" using that by (simp add: st')
      from received_got [OF inv this] ext show ?thesis by (metis got_ext)
    qed
    ultimately show ?thesis unfolding up_inv_def by blast
  qed
  moreover have "down_inv st'"
    using inv by (auto simp: gio_inv_def intro!: down_ext [OF _ ext]) (auto simp: st')
  moreover have "msgs_inv st'"
    using inv msgs_ext [OF _ ext] by (simp add: gio_inv_def st')
  ultimately show ?thesis
    using inv by (simp add: gio_inv_def client_inv_def completions_def st')
qed

lemma server_read_step:
  assumes inv: "gio_inv st" and ne: "gio_up st \<noteq> []" and s: "gio_server_read st = Inr (go_on, st')"
  shows "gio_inv st'"
proof -
  from inv obtain ms where ms: "gio_up st = concat (map (\<lambda>(ref, d). data_frame (id_of ref) d) ms)"
    and ok: "\<forall>(ref, d) \<in> set ms. posted st ref d" by (auto simp: gio_inv_def up_inv_def)
  with ne obtain ref d ms' where split: "ms = (ref, d) # ms'" by (cases ms) auto
  have p: "posted st ref d" using ok split by simp
  let ?up = "concat (map (\<lambda>(ref, d). data_frame (id_of ref) d) ms')"
  have st': "st' = (gio_log [Received (length (gs_received st)) d] (st \<lparr>gio_up := ?up\<rparr>))
      \<lparr>gs_received := gs_received st @ [(id_of ref, data_frame (id_of ref) d)]\<rparr>"
    using s read_data_frame [of d "id_of ref" ?up] p by (simp add: gio_server_read_def ms split Let_def posted_def del: of_nat_add)
  have ext: "extends st st'" by (auto simp: extends_def st')
  have "got st' (length (gs_received st)) ref d"
    using posted_ext [OF p ext] by (simp add: got_def st')
  moreover have "length (gs_received st') = Suc (length (gs_received st))" by (simp add: st')
  ultimately have "\<exists>ref d. got st' i ref d" if "i < length (gs_received st')" for i
    using received_got [OF inv, of i] ext that by (metis got_ext less_SucE)
  moreover have "\<forall>(ref, d) \<in> set ms'. posted st' ref d"
    using ok split ext by (auto intro: posted_ext)
  moreover have "gio_up st' = ?up" by (simp add: st')
  ultimately have "up_inv st'" unfolding up_inv_def by blast
  moreover have "down_inv st'"
    using inv by (auto simp: gio_inv_def intro!: down_ext [OF _ ext]) (auto simp: st')
  moreover have "msgs_inv st'"
    using inv msgs_ext [OF _ ext] by (simp add: gio_inv_def st')
  moreover have "client_inv st'"
    using inv by (simp add: gio_inv_def client_inv_def completions_def st')
  ultimately show ?thesis by (simp add: gio_inv_def)
qed

lemma down_intro:
  assumes "gio_down st = concat (map response_frame ds)" and "map bm_payload (gs_queue st) = map response_frame qs"
    and "\<forall>r \<in> set ds \<union> set qs. response_ok st r"
    and "\<And>ref d. Response ref d \<in> set (gio_trace st) \<Longrightarrow> answered st ref d"
  shows "down_inv st"
  using assms unfolding down_inv_def by blast

lemma down_elim:
  assumes "gio_inv st"
  obtains ds qs where "gio_down st = concat (map response_frame ds)" and "map bm_payload (gs_queue st) = map response_frame qs"
    and "\<forall>r \<in> set ds \<union> set qs. response_ok st r" and "\<forall>ref d. Response ref d \<in> set (gio_trace st) \<longrightarrow> answered st ref d"
  using assms unfolding gio_inv_def down_inv_def by blast

text \<open>Steps of the server that change only its queue and the stream to the client.\<close>

lemma server_step:
  assumes inv: "gio_inv st" and tr: "gio_trace st' = gio_trace st @ es" "\<forall>e \<in> set es. \<not> (\<exists>ref. completes ref e)"
    and same: "gc_lastMessageID st' = gc_lastMessageID st" "gc_pendingResponses st' = gc_pendingResponses st"
      "gc_msgs st' = gc_msgs st" "gc_fresh st' = gc_fresh st" "gio_up st' = gio_up st" "gs_received st' = gs_received st"
    and frames: "\<And>ds qs. gio_down st = concat (map response_frame ds) \<Longrightarrow> map bm_payload (gs_queue st) = map response_frame qs
      \<Longrightarrow> \<forall>r \<in> set ds \<union> set qs. response_ok st r \<Longrightarrow> \<exists>ds' qs'. gio_down st' = concat (map response_frame ds') \<and>
        map bm_payload (gs_queue st') = map response_frame qs' \<and> (\<forall>r \<in> set ds' \<union> set qs'. response_ok st' r)"
  shows "gio_inv st'"
proof -
  have ext: "extends st st'" using tr same by (simp add: extends_def)
  have comp: "completions ref st' = completions ref st" for ref
    using tr by (auto simp: completions_def filter_empty_conv)
  have "answered st' ref d" if "Response ref d \<in> set (gio_trace st')" for ref d
  proof -
    have "Response ref d \<in> set (gio_trace st)" using that tr by fastforce
    with down_elim [OF inv] ext show ?thesis by (metis answered_ext)
  qed
  with down_elim [OF inv] frames have "down_inv st'" by (metis down_intro)
  with inv same ext show ?thesis
    unfolding gio_inv_def using msgs_ext [of st st'] up_ext [of st st'] by (simp add: client_inv_def comp)
qed

lemma enqueue_step:
  assumes inv: "gio_inv st" and st': "st' = (gio_log [e] st) \<lparr>gs_queue := gs_queue st @ [msg]\<rparr>"
    and e: "\<And>ref. \<not> completes ref e" and r: "response_ok st' r" "bm_payload msg = response_frame r"
  shows "gio_inv st'"
proof (rule server_step [OF inv, where es = "[e]"])
  have ext: "extends st st'" by (auto simp: extends_def st')
  fix ds qs
  assume *: "gio_down st = concat (map response_frame ds)" "map bm_payload (gs_queue st) = map response_frame qs"
    "\<forall>r \<in> set ds \<union> set qs. response_ok st r"
  then have "\<forall>r \<in> set ds \<union> set (qs @ [r]). response_ok st' r"
    using r ext by (auto intro: response_ok_ext)
  then show "\<exists>ds' qs'. gio_down st' = concat (map response_frame ds') \<and>
      map bm_payload (gs_queue st') = map response_frame qs' \<and> (\<forall>r \<in> set ds' \<union> set qs'. response_ok st' r)"
    using * r(2) by (intro exI [of _ ds] exI [of _ "qs @ [r]"]) (simp add: st')
qed (use e in \<open>simp_all add: st'\<close>)

lemma respond_step:
  assumes inv: "gio_inv st" and i: "i < length (gs_received st)"
    and w: "writes_response scb (message_new (snd (gs_received st ! i)) (length (snd (gs_received st ! i)))) obj data"
    and len: "16 + length data < 2 ^ 64" and s: "gio_isendResponse scb i obj st = Inr st'"
  shows "gio_inv st'"
proof -
  obtain ref d where g: "got st i ref d" using received_got [OF inv i] .
  then have st': "st' = (gio_log [Responded i data] st) \<lparr>gs_queue := gs_queue st @ [message_new (data_frame (id_of ref) data) (16 + length data)]\<rparr>"
    using s w i by (simp add: gio_isendResponse_def got_def gio_response_frame) (simp add: message_new_def)
  have "extends st st'" by (auto simp: extends_def st')
  with g len have ok: "response_ok st' (Data_Response i ref data)"
    by (auto simp: st' dest: got_ext)
  show ?thesis
    by (rule enqueue_step [OF inv st' _ ok]) (simp_all add: message_new_def)
qed

lemma error_respond_step:
  assumes inv: "gio_inv st" and s: "gio_isendErrorResponse i err st = Inr st'"
  shows "gio_inv st'"
proof -
  have i: "i < length (gs_received st)" using s by (simp add: gio_isendErrorResponse_def split: if_splits)
  obtain ref d where g: "got st i ref d" using received_got [OF inv i] .
  then have st': "st' = (gio_log [ErrorResponded i err] st) \<lparr>gs_queue := gs_queue st @ [message_new (error_frame (id_of ref) err) 16]\<rparr>"
    using s i by (simp add: gio_isendErrorResponse_def got_def gio_error_message_frame)
  have "extends st st'" by (auto simp: extends_def st')
  with g have ok: "response_ok st' (Error_Response i ref err)"
    by (auto simp: st' dest: got_ext)
  show ?thesis
    by (rule enqueue_step [OF inv st' _ ok]) (simp_all add: message_new_def)
qed

lemma server_write_step:
  assumes inv: "gio_inv st"
  shows "gio_inv (gio_server_write st)"
proof (cases "gs_queue st")
  case (Cons msg rest)
  let ?st' = "gio_server_write st"
  have ext: "extends st ?st'" by (auto simp: extends_def gio_server_write_def Cons)
  show ?thesis
  proof (rule server_step [OF inv, where es = "[ResponseSent]"])
    fix ds qs
    assume *: "gio_down st = concat (map response_frame ds)" "map bm_payload (gs_queue st) = map response_frame qs"
      "\<forall>r \<in> set ds \<union> set qs. response_ok st r"
    then obtain q qs' where "qs = q # qs'" using Cons by (cases qs) auto
    with * ext Cons show "\<exists>ds' qs'. gio_down ?st' = concat (map response_frame ds') \<and>
        map bm_payload (gs_queue ?st') = map response_frame qs' \<and> (\<forall>r \<in> set ds' \<union> set qs'. response_ok ?st' r)"
      by (intro exI [of _ "ds @ [q]"] exI [of _ qs']) (auto simp: gio_server_write_def intro: response_ok_ext)
  qed (simp_all add: gio_server_write_def Cons)
qed (simp add: gio_server_write_def inv)

lemma read_response_frame:
  assumes "response_ok st r"
  obtains m where "readSocketMessage (response_frame r @ rest) = Inr (m, rest)"
    and "\<exists>i ref q. got st i ref q \<and> rm_id m = id_of ref \<and> (\<forall>d. rm_payload m = Some d \<longrightarrow> Responded i (drop 16 d) \<in> set (gio_trace st))"
proof (cases r)
  case (Data_Response i ref d)
  with assms read_data_frame [of d "id_of ref" rest] that show thesis by (auto simp del: of_nat_add)
next
  case (Error_Response i ref e)
  with assms read_error_frame [of "id_of ref" e rest] that show thesis by auto
qed

lemma completing_event:
  assumes inv: "client_inv st" and pend: "gc_pendingResponses st i = Some ref"
    and st': "st' = gio_log [ev] (st \<lparr>gio_down := rest, gc_pendingResponses := (gc_pendingResponses st)(i := None),
        gc_msgs := (gc_msgs st)(ref := None)\<rparr>)"
    and ev: "\<And>r. completes r ev \<longleftrightarrow> r = ref"
  shows "client_inv st'"
proof -
  have comp: "completions r st' = completions r st + (if r = ref then 1 else 0)" for r
    by (simp add: completions_def st' ev)
  have i: "i = id_of ref" "ref < gc_fresh st" "completions ref st = 0"
    using inv pend by (auto simp: client_inv_def)
  show ?thesis
    unfolding client_inv_def comp
  proof (intro conjI allI impI)
    fix j r
    assume "gc_pendingResponses st' j = Some r"
    then have "gc_pendingResponses st j = Some r" "j \<noteq> i" by (auto simp: st' split: if_splits)
    with inv i show "j = id_of r" "r < gc_fresh st'" "gc_msgs st' r \<noteq> None"
      "completions r st + (if r = ref then 1 else 0) = 0" by (auto simp: client_inv_def st')
  qed (use inv i in \<open>auto simp: client_inv_def st'\<close>)
qed

lemma client_read_step:
  assumes inv: "gio_inv st" and ne: "gio_down st \<noteq> []" and s: "gio_client_read st = Inr (go_on, st')"
  shows "gio_inv st'"
proof -
  obtain ds qs where ds: "gio_down st = concat (map response_frame ds)" and qs: "map bm_payload (gs_queue st) = map response_frame qs"
    and ok: "\<forall>r \<in> set ds \<union> set qs. response_ok st r" and ans: "\<forall>ref d. Response ref d \<in> set (gio_trace st) \<longrightarrow> answered st ref d"
    by (rule down_elim [OF inv])
  from ds ne obtain r ds' where split: "ds = r # ds'" by (cases ds) auto
  let ?rest = "concat (map response_frame ds')"
  obtain m where m: "readSocketMessage (gio_down st) = Inr (m, ?rest)" and
    resp: "\<exists>i ref q. got st i ref q \<and> rm_id m = id_of ref \<and> (\<forall>d. rm_payload m = Some d \<longrightarrow> Responded i (drop 16 d) \<in> set (gio_trace st))"
  proof -
    have r: "response_ok st r" and frames: "gio_down st = response_frame r @ ?rest"
      using ok by (simp_all add: ds split)
    show thesis by (rule read_response_frame [OF r, of ?rest]) (use that frames in simp)
  qed
  have down: "down_inv st'" if "extends st st'" "gio_down st' = ?rest" "gs_queue st' = gs_queue st"
    "\<And>ref d. Response ref d \<in> set (gio_trace st') \<Longrightarrow> Response ref d \<in> set (gio_trace st) \<or> answered st ref d" for st'
  proof (rule down_intro [of st' ds' qs])
    show "\<forall>r \<in> set ds' \<union> set qs. response_ok st' r"
      using ok split that(1) by (auto intro: response_ok_ext)
    show "answered st' ref d" if "Response ref d \<in> set (gio_trace st')" for ref d
      using that \<open>extends st st'\<close> ans \<open>\<And>ref d. Response ref d \<in> set (gio_trace st') \<Longrightarrow> _\<close> by (meson answered_ext)
  qed (use that qs in simp_all)
  show ?thesis
  proof (cases "rm_length m = 0 \<or> gc_pendingResponses st (rm_id m) = None")
    case True
    then have st': "st' = st \<lparr>gio_down := ?rest\<rparr>"
      using s m by (auto simp: gio_client_read_def Let_def split: if_splits)
    have ext: "extends st st'" by (simp add: extends_def st')
    from inv ext down [OF ext] show ?thesis
      unfolding gio_inv_def using msgs_ext [of st st'] up_ext [of st st']
      by (simp add: st' client_inv_def completions_def)
  next
    case False
    then obtain ref where pend: "gc_pendingResponses st (rm_id m) = Some ref" and "rm_length m \<noteq> 0" by auto
    with s m obtain ev where st': "st' = gio_log [ev] (st \<lparr>gio_down := ?rest,
        gc_pendingResponses := (gc_pendingResponses st)(rm_id m := None), gc_msgs := (gc_msgs st)(ref := None)\<rparr>)"
      and ev: "(\<exists>d. rm_payload m = Some d \<and> ev = Response ref (drop 16 d)) \<or> (\<exists>e. ev = TransferError ref e)"
      by (auto simp: gio_client_read_def Let_def split: if_splits option.splits)
    have ext: "extends st st'" by (auto simp: extends_def st')
    from resp obtain i rref q where g: "got st i rref q" "rm_id m = id_of rref"
      "\<forall>d. rm_payload m = Some d \<longrightarrow> Responded i (drop 16 d) \<in> set (gio_trace st)" by blast
    have "id_of ref = id_of rref" "ref < gc_fresh st" "rref < gc_fresh st" "gc_fresh st < 2 ^ 32"
      using inv pend g by (auto simp: gio_inv_def client_inv_def got_def posted_def)
    then have "rref = ref"
      using id_of_inj [of rref ref] by simp
    then have a: "answered st ref' d" if "ev = Response ref' d" for ref' d
      using that ev g unfolding answered_def by auto
    have "down_inv st'"
      using a by (intro down [OF ext]) (auto simp: st')
    moreover have "client_inv st'"
      using inv ev by (intro completing_event [OF _ pend st']) (auto simp: gio_inv_def)
    moreover have "msgs_inv st'"
      using inv ext by (auto simp: gio_inv_def st' map_le_def intro!: msgs_ext [of st])
    moreover have "up_inv st'"
      using inv ext by (auto simp: gio_inv_def st' intro!: up_ext [of st])
    ultimately show ?thesis by (simp add: gio_inv_def)
  qed
qed

lemma step_inv:
  assumes "gio_step cb scb st st'" and inv: "gio_inv st"
  shows "gio_inv st'"
  using assms(1)
proof cases
  case gio_sending
  then show ?thesis
    by (auto simp: gio_sender_step_def elim!: bindrE intro!: quiet_step [OF inv, where es = "[]"])
next
  case (gio_write_failing ref)
  then show ?thesis
    by (auto simp: gio_write_fails_def Let_def intro!: quiet_step [OF inv, where es = "[]"])
next
  case (gio_notifying ref)
  then show ?thesis
    by (auto simp: gio_notify_def gio_sender_step_def elim!: bindrE intro!: quiet_step [OF inv, where es = "[MessageSent ref]"]
        split: option.splits)
next
  case (gio_responding i obj data)
  with inv show ?thesis by (blast intro: respond_step)
qed (use inv post_step write_step server_read_step error_respond_step server_write_step client_read_step in metis)+

lemma reachable_gio_inv: "(gio_step cb scb)\<^sup>*\<^sup>* gio_new st \<Longrightarrow> gio_inv st"
  by (induction rule: rtranclp_induct) (auto intro: gio_inv_new step_inv)

section \<open>Attempts to connect\<close>

text \<open>The flags that \<open>ireconnect\<close> tests, and the number of connection threads that were created.\<close>

record gio_connection =
  connection_ongoing :: bool
  connection_established :: bool
  shutdown_cancelled :: bool
  connection_threads :: nat

definition gio_ireconnect :: "gio_connection \<Rightarrow> gio_connection" where
  "gio_ireconnect c =
     (if connection_ongoing c \<or> connection_established c \<or> shutdown_cancelled c then c
      else c \<lparr>connection_ongoing := True, connection_threads := Suc (connection_threads c)\<rparr>)"

text \<open>The thread has an answer from the socket: \<open>False\<close> when the server is not accessible.\<close>

definition gio_connect_result :: "bool \<Rightarrow> gio_connection \<Rightarrow> gio_connection" where
  "gio_connect_result ok c =
     c \<lparr>connection_ongoing := False, connection_established := connection_established c \<or> ok\<rparr>"

text \<open>The loop that receives responses has ended; no flag is written on the way to \<open>connectionErrorCB\<close>.\<close>

definition gio_connection_lost :: "gio_connection \<Rightarrow> gio_connection" where
  "gio_connection_lost c = c"

definition gio_client_close :: "gio_connection \<Rightarrow> gio_connection" where
  "gio_client_close c = c \<lparr>shutdown_cancelled := True\<rparr>"

datatype connection_op = Reconnect | ConnectResult bool | ConnectionLost | CloseClient

fun connection_do :: "connection_op \<Rightarrow> gio_connection \<Rightarrow> gio_connection" where
  "connection_do Reconnect c = gio_ireconnect c"
| "connection_do (ConnectResult ok) c = gio_connect_result ok c"
| "connection_do ConnectionLost c = gio_connection_lost c"
| "connection_do CloseClient c = gio_client_close c"

section \<open>Properties\<close>

text \<open>
  C10 (safety): Under every interleaving of the application, the sender, the server and the receiver, a response that
  is delivered for a message is one the server gave to that very message, and a message is completed at
  most once, by a response or by an error. Numbers of messages are not used again: the program stops at an
  assertion before the counter of 32 bits starts over.
\<close>

theorem gio_responses_match:
  assumes "(gio_step cb scb)\<^sup>*\<^sup>* gio_new st"
  shows "(\<forall>ref d. Response ref d \<in> set (gio_trace st) \<longrightarrow> (\<exists>i q. i < length (gs_received st) \<and>
      gs_received st ! i = (id_of ref, data_frame (id_of ref) q) \<and> Posted ref q \<in> set (gio_trace st) \<and>
      Received i q \<in> set (gio_trace st) \<and> Responded i d \<in> set (gio_trace st))) \<and>
    (\<forall>ref. completions ref st \<le> 1)"
  using reachable_gio_inv [OF assms]
  by (simp add: gio_inv_def client_inv_def down_inv_def answered_def got_def posted_def) blast

subsection \<open>A response that overtakes the sender\<close>

definition overtaken :: "buffer \<Rightarrow> buffer \<Rightarrow> gio_state" where
  "overtaken q d =
     \<lparr>gc_lastMessageID = 2, gc_pendingResponses = Map.empty, gc_msgs = Map.empty, gc_fresh = 1,
      gc_sender = \<lparr>jp_queue = [], jp_status = OPERATIONAL, jp_thread = Some (Processing 0), jp_calls = []\<rparr>,
      gc_written = True, gio_up = [], gio_down = [], gs_received = [(1, data_frame 1 q)], gs_queue = [],
      gio_trace = [Posted 0 q, Received 0 q, Responded 0 d, ResponseSent, Response 0 d]\<rparr>"

lemma overtaken_reachable:
  assumes w: "writes_message cb obj q" "16 + length q < 2 ^ 64"
    and r: "writes_response scb (message_new (data_frame 1 q) (16 + length q)) robj d" "16 + length d < 2 ^ 64"
  shows "(gio_step cb scb)\<^sup>*\<^sup>* gio_new (overtaken q d)"
proof -
  define sender where "sender = (\<lambda>js pc. \<lparr>jp_queue = js, jp_status = OPERATIONAL, jp_thread = Some pc, jp_calls = []\<rparr> :: (nat list, nat) JobProcessor)"
  define s1 where "s1 = gio_new \<lparr>gc_lastMessageID := 2, gc_pendingResponses := [1 \<mapsto> 0],
    gc_msgs := [0 \<mapsto> message_new (data_frame 1 q) (16 + length q)], gc_fresh := 1, gc_sender := sender [0] AtTest, gio_trace := [Posted 0 q]\<rparr>"
  define s3 where "s3 = s1 \<lparr>gc_sender := sender [] (Processing 0)\<rparr>"
  define s5 where "s5 = s3 \<lparr>gc_written := True, gs_received := [(1, data_frame 1 q)], gio_trace := [Posted 0 q, Received 0 q]\<rparr>"
  define s6 where "s6 = s5 \<lparr>gio_trace := [Posted 0 q, Received 0 q, Responded 0 d]\<rparr>"
  define s7 where "s7 = s6 \<lparr>gio_trace := [Posted 0 q, Received 0 q, Responded 0 d, ResponseSent], gio_down := data_frame 1 d\<rparr>"
  note defs = s1_def s3_def s5_def s6_def s7_def gio_new_def gio_log_def sender_def message_new_def Let_def
  have len: "length (data_frame 1 q) = 16 + length q"
    by (simp add: data_frame_def)
  have "unat (of_nat (16 + length d) :: u64) = 16 + length d"
    using r(2) by (simp add: unat_of_nat take_bit_nat_eq_self del: of_nat_add)
  then have nz: "16 + of_nat (length d) \<noteq> (0 :: u64)"
    by (metis add_is_0 of_nat_add of_nat_numeral unat_0 zero_neq_numeral)
  have "gio_step cb scb gio_new s1"
    using id_of_frame [of 1 q] gio_object_frame [OF w(1), of 1]
    by (intro gio_post [OF w]) (simp add: gio_send_object_def gio_isend_def iStartJob_def startProcessing_def
        JobProcessor_new_def fifo_ops defs)
  moreover have "gio_step cb scb s1 (s1 \<lparr>gc_sender := sender [0] Waiting\<rparr>)"
    by (intro gio_sending) (simp_all add: gio_sender_step_def process_step_def fifo_ops defs)
  moreover have "gio_step cb scb (s1 \<lparr>gc_sender := sender [0] Waiting\<rparr>) s3"
    by (intro gio_sending) (simp_all add: gio_sender_step_def process_step_def fifo_ops defs)
  moreover have "gio_step cb scb s3 (s3 \<lparr>gio_up := data_frame 1 q, gc_written := True\<rparr>)"
    by (intro gio_writing [of _ 0]) (simp_all add: gio_write_def defs)
  moreover have "gio_step cb scb (s3 \<lparr>gio_up := data_frame 1 q, gc_written := True\<rparr>) s5"
    using read_data_frame [OF w(2), of 1 "[]"] by (intro gio_server_reading [where go_on = True]) (simp_all add: gio_server_read_def defs)
  moreover have "gio_step cb scb s5 (s6 \<lparr>gs_queue := [message_new (data_frame 1 d) (16 + length d)]\<rparr>)"
    using gio_response_frame [OF r(1), of 1] r len
    by (intro gio_responding [of 0 _ _ robj d]) (simp_all add: gio_isendResponse_def defs)
  moreover have "gio_step cb scb (s6 \<lparr>gs_queue := [message_new (data_frame 1 d) (16 + length d)]\<rparr>) s7"
    using gio_server_writing [of cb scb "s6 \<lparr>gs_queue := [message_new (data_frame 1 d) (16 + length d)]\<rparr>"]
    by (simp add: gio_server_write_def defs)
  moreover have "gio_step cb scb s7 (overtaken q d)"
    using read_data_frame [OF r(2), of 1 "[]"] nz
    by (intro gio_client_reading [where go_on = True]) (simp_all add: gio_client_read_def overtaken_def defs)
  ultimately show ?thesis
    by (meson converse_rtranclp_into_rtranclp rtranclp.rtrancl_refl)
qed

text \<open>Applications that send bytes as they are.\<close>

definition raw_client :: "(buffer, unit) MessageCallback" where
  "raw_client = \<lparr>cb_messageSend = (\<lambda>_. Inr []), cb_messageResponse = (\<lambda>_ _. Inr []), cb_messageTransferError = (\<lambda>_ _. Inr []),
     cb_serializeMessageLen = length, cb_serializeMessage = put_bytes\<rparr>"

definition raw_server :: "(buffer, unit) ServerCallback" where
  "raw_server = \<lparr>cb_messageReceived = (\<lambda>_ _. Inr []), cb_responseSend = (\<lambda>_. Inr []),
     cb_serializeResponseLen = (\<lambda>_ r. Inr (length r)), cb_serializeResponse = (\<lambda>_. put_bytes)\<rparr>"

lemma raw_writes: "writes_message raw_client d d" "writes_response raw_server m d d"
  by (simp_all add: writes_message_def writes_response_def raw_client_def raw_server_def)

theorem gio_responses_match_witness:
  "(gio_step raw_client raw_server)\<^sup>*\<^sup>* gio_new (overtaken [7] [9]) \<and> Response 0 [9] \<in> set (gio_trace (overtaken [7] [9])) \<and>
    (\<exists>i q. Posted 0 q \<in> set (gio_trace (overtaken [7] [9])) \<and> Received i q \<in> set (gio_trace (overtaken [7] [9])) \<and>
      Responded i [9] \<in> set (gio_trace (overtaken [7] [9])))"
proof -
  have reach: "(gio_step raw_client raw_server)\<^sup>*\<^sup>* gio_new (overtaken [7] [9])"
    by (rule overtaken_reachable [of raw_client "[7]" _ raw_server "[9]"]) (simp_all add: raw_writes)
  have "Response 0 [9] \<in> set (gio_trace (overtaken [7] [9]))"
    by (simp add: overtaken_def)
  with gio_responses_match [OF reach] reach show ?thesis by blast
qed

text \<open>
  C39 (error): The thread that sends may call back on a deleted message: when the response arrives before the thread has
  come from the write to its callback, the receiving thread has deleted the message, and
  \<open>messageSendCB\<close> gets a dangling pointer. This happens for every message and response.
\<close>

theorem gio_send_callback_after_delete:
  assumes "writes_message cb obj q" "16 + length q < 2 ^ 64"
    and "writes_response scb (message_new (data_frame 1 q) (16 + length q)) robj d" "16 + length d < 2 ^ 64"
  shows "\<exists>st. (gio_step cb scb)\<^sup>*\<^sup>* gio_new st \<and> jp_thread (gc_sender st) = Some (Processing 0) \<and> gc_written st \<and>
    Response 0 d \<in> set (gio_trace st) \<and> gio_notify 0 st = Inl (Undefined ''deleted message'')"
  using overtaken_reachable [OF assms] by (intro exI [of _ "overtaken q d"]) (simp add: overtaken_def gio_notify_def)

theorem gio_send_callback_after_delete_witness:
  "\<exists>st. (gio_step raw_client raw_server)\<^sup>*\<^sup>* gio_new st \<and> jp_thread (gc_sender st) = Some (Processing 0) \<and> gc_written st \<and>
    Response 0 [9] \<in> set (gio_trace st) \<and> gio_notify 0 st = Inl (Undefined ''deleted message'')"
  by (rule gio_send_callback_after_delete [of _ "[7]" "[7]" _ "[9]"]) (simp_all add: raw_writes)



text \<open>The table of pending responses keeps the pointers to the messages that are dropped.\<close>

theorem gio_dropped_stays_pending:
  assumes "gc_pendingResponses st i = Some ref" and "ref \<in> set (jp_queue (gc_sender st))"
  shows "\<exists>st'. gio_dropPendingMessages st = Some (Inr st') \<and> TransferError ref UNKNOWN_ERROR \<in> set (gio_trace st') \<and>
    gc_pendingResponses st' i = Some ref \<and> gc_msgs st' ref = None"
proof -
  obtain q where "abortPendingJobs FIFOProcessorQueue (jp_queue (gc_sender st)) (jp_calls (gc_sender st)) =
      Some (Inr (q, jp_calls (gc_sender st) @ map JobAborted (jp_queue (gc_sender st))))"
    using fifo.abort_all [of "jp_queue (gc_sender st)" "jp_calls (gc_sender st)"] by auto
  with assms show ?thesis
    by (simp add: gio_dropPendingMessages_def shutdown_begin_def Let_def)
qed

theorem gio_dropped_stays_pending_witness:
  "\<exists>st'. gio_dropPendingMessages (gio_new \<lparr>gc_pendingResponses := [1 \<mapsto> 0], gc_sender := JobProcessor_new [0],
      gc_msgs := [0 \<mapsto> message_new [] 0]\<rparr>) = Some (Inr st') \<and> gc_pendingResponses st' 1 = Some 0 \<and> gc_msgs st' 0 = None"
  using gio_dropped_stays_pending [of "gio_new \<lparr>gc_pendingResponses := [1 \<mapsto> 0], gc_sender := JobProcessor_new [0],
      gc_msgs := [0 \<mapsto> message_new [] 0]\<rparr>" 1 0] by (auto simp: JobProcessor_new_def)

subsection \<open>Streams of messages\<close>

fun read_messages :: "nat \<Rightarrow> buffer \<Rightarrow> ((u32 \<times> buffer) list \<times> buffer) outcome" where
  "read_messages 0 input = Inr ([], input)"
| "read_messages (Suc n) input =
     bindr (readSocketMessage input) (\<lambda>(m, rest).
       case rm_payload m of
         None \<Rightarrow> Inr ([], rest)
       | Some payload \<Rightarrow> bindr (read_messages n rest) (\<lambda>(ms, rest'). Inr ((rm_id m, drop clientMsgHeaderLen payload) # ms, rest')))"

definition gio_bytes :: "('o, 'e) MessageCallback \<Rightarrow> u32 \<Rightarrow> 'o \<Rightarrow> buffer" where
  "gio_bytes cb i obj =
     (case object_message clientMsgHeaderLen (gio_serializeHeader i) cb obj of Inl _ \<Rightarrow> [] | Inr msg \<Rightarrow> bm_payload msg)"

lemma gio_bytes_frame: "writes_message cb obj d \<Longrightarrow> gio_bytes cb i obj = data_frame i d"
  using gio_object_frame [of cb obj d i] by (simp add: gio_bytes_def message_new_def)

text \<open>
  C21 (roundtrip): Messages written to a stream one after the other are read as they were sent: the reader
  gets the number and the bytes of the object of each message in order, and what follows in the stream is left.
\<close>

theorem gio_stream_roundtrip:
  assumes "\<forall>(i, obj, d) \<in> set xs. writes_message cb obj d \<and> 16 + length d < 2 ^ 64"
  shows "read_messages (length xs) (concat (map (\<lambda>(i, obj, d). gio_bytes cb i obj) xs) @ rest) =
    Inr (map (\<lambda>(i, obj, d). (i, d)) xs, rest)"
  using assms
proof (induction xs)
  case (Cons x xs)
  obtain i obj d where x: "x = (i, obj, d)" by (cases x)
  with Cons show ?case
    by (simp add: gio_bytes_frame [of cb obj d] read_data_frame del: of_nat_add)
qed simp

theorem gio_stream_roundtrip_witness:
  "read_messages (Suc (Suc 0)) (gio_bytes raw_client 1 [5, 6] @ gio_bytes raw_client 2 [] @ [99]) = Inr ([(1, [5, 6]), (2, [])], [99])"
  using gio_stream_roundtrip [of "[(1, [5, 6], [5, 6]), (2, [], [])]" raw_client "[99]"]
  by (simp add: raw_writes)

text \<open>A stream that ends within a message is recognised; a length below that of the header is not.\<close>

theorem gio_cut_stream_damaged:
  assumes "16 + length d < 2 ^ 64" and "n < 16 + length d"
  shows "\<exists>m rest. readSocketMessage (take n (data_frame i d)) = Inr (m, rest) \<and> rm_payload m = None \<and> rm_error m = MESSAGE_DAMAGED"
proof (cases "n < 16")
  case True
  then show ?thesis by (simp add: readSocketMessage_def Let_def data_frame_def)
next
  case False
  have "unat (of_nat (16 + length d) :: u64) = 16 + length d"
    using assms(1) by (simp add: unat_of_nat take_bit_nat_eq_self del: of_nat_add)
  with False assms(2) show ?thesis
    by (simp add: readSocketMessage_def Let_def data_frame_def deserializeMsgHeader_header min_def del: of_nat_add)
qed

theorem gio_cut_stream_damaged_witness:
  "\<exists>m rest. readSocketMessage (take 3 (data_frame 1 [8])) = Inr (m, rest) \<and> rm_payload m = None \<and> rm_error m = MESSAGE_DAMAGED"
  by (rule gio_cut_stream_damaged) simp_all

theorem gio_short_length_undefined:
  assumes "unat n < 16"
  shows "readSocketMessage (gio_header n MAGIC_KEY i @ rest) = Inl (Undefined ''write past the end of the buffer'')"
  using assms by (simp add: readSocketMessage_def Let_def deserializeMsgHeader_header)

theorem gio_short_length_undefined_witness:
  "readSocketMessage (gio_header 3 MAGIC_KEY 1) = Inl (Undefined ''write past the end of the buffer'')"
  using gio_short_length_undefined [of 3 1 "[]"] by simp

subsection \<open>The type service on sockets\<close>

text \<open>
  A client can stop a server that runs the type service on this transport: a message of a
  type that is not registered is answered by an error message, which is a header only, and when that is sent
  the service looks for a message type behind the header and fails its length assertion.
\<close>

theorem unregistered_type_aborts_gio_server:
  assumes "callbacks t = None"
    and "msg = message_new (data_frame i (word_enc t @ data)) (16 + (4 + length data))"
  shows "cb_messageReceived (MultiMessageServerCallback clientMsgHeaderLen callbacks) msg (word_enc t @ data) =
      Inr [SendErrorResponse MESSAGE_TYPE_NOT_AVAILABLE] \<and>
    (\<exists>e. gio_error_message i MESSAGE_TYPE_NOT_AVAILABLE = Inr e \<and>
      cb_responseSend (MultiMessageServerCallback clientMsgHeaderLen callbacks) e = Inl (Abort ''pos + COUNT <= length''))"
proof -
  have "getClientMessageType 16 msg = Inr t"
    using type_behind(2) [of "gio_header (of_nat (16 + (4 + length data))) MAGIC_KEY i" 16 t data]
    by (simp add: assms(2) data_frame_def ac_simps)
  moreover have "getClientMessageType 16 (message_new (error_frame i err) 16) = Inl (Abort ''pos + COUNT <= length'')" for err
    by (simp add: getClientMessageType_def message_new_def deserialize_word_def get_bytes_short)
  ultimately show ?thesis
    using assms(1) by (simp add: MultiMessageServerCallback_def gio_error_message_frame)
qed

theorem unregistered_type_aborts_gio_server_witness:
  "\<exists>e. gio_error_message 1 MESSAGE_TYPE_NOT_AVAILABLE = Inr e \<and>
    cb_responseSend (MultiMessageServerCallback clientMsgHeaderLen [7 \<mapsto> text_server]) e = Inl (Abort ''pos + COUNT <= length'')"
  using unregistered_type_aborts_gio_server [of "[7 \<mapsto> text_server]" 8 _ 1 "[]"] by simp

section \<open>Addresses\<close>

datatype SocketType = TCP | SCTP | IPC

definition SIOX_IPC_PATH :: string where
  "SIOX_IPC_PATH = ''/tmp/''"

text \<open>
  What the regular expression \<^verbatim>\<open>(?:(ipc|tcp|sctp)://)?(?:([^:]*):?)?([0-9]+)?\<close> matches: an optional scheme, a host up to the first
  colon or the end, and digits behind the colon. The first group is greedy, so digits without a colon belong
  to the host; with the scheme skipped a second reading would have slashes behind its colon.
\<close>

definition match_scheme :: "string \<Rightarrow> SocketType \<times> string" where
  "match_scheme a =
     (if take 6 a = ''ipc://'' then (IPC, drop 6 a) else if take 6 a = ''tcp://'' then (TCP, drop 6 a)
      else if take 7 a = ''sctp://'' then (SCTP, drop 7 a) else (TCP, a))"

definition match_address :: "string \<Rightarrow> (SocketType \<times> string \<times> string) option" where
  "match_address a =
     (case match_scheme a of (type, b) \<Rightarrow>
       let hostname = takeWhile (\<lambda>c. c \<noteq> CHR '':'') b; digits = drop (Suc (length hostname)) b in
       if list_all is_digit_char digits then Some (type, hostname, digits) else None)"

text \<open>The exception carries its message; \<open>atoi\<close> is undefined when the number is not an \<open>int\<close>.\<close>

definition splitAddressParts :: "string \<Rightarrow> (string + (SocketType \<times> string \<times> u16 \<times> string)) outcome" where
  "splitAddressParts address =
     (case match_address (c_str address) of
        None \<Rightarrow> Inr (Inl (''Invalid address '' @ address))
      | Some (type, hostname, digits) \<Rightarrow>
          if digits \<noteq> [] \<and> 2 ^ 31 \<le> undec digits then Inl (Undefined ''atoi'')
          else let port = (if digits \<noteq> [] then of_nat (undec digits) else 4711) in
            if type = IPC
            then if hostname = [] then Inr (Inl (''Invalid IPC address '' @ SIOX_IPC_PATH))
                 else Inr (Inr (type, hostname, port, SIOX_IPC_PATH @ hostname @ ''.socket''))
            else Inr (Inr (type, hostname, port, [])))"

fun scheme_text :: "SocketType \<Rightarrow> string" where
  "scheme_text TCP = ''tcp://''"
| "scheme_text SCTP = ''sctp://''"
| "scheme_text IPC = ''ipc://''"

lemma match_scheme_text [simp]: "match_scheme (scheme_text t @ b) = (t, b)"
  by (cases t) (simp_all add: match_scheme_def)

text \<open>A host and a port that are written down are read back, for every protocol.\<close>

theorem address_roundtrip:
  assumes "CHR '':'' \<notin> set host" and "no_nul host" and "host \<noteq> []" and "port < 2 ^ 16"
  shows "splitAddressParts (scheme_text t @ host @ '':'' @ dec_nat port) =
    Inr (Inr (t, host, of_nat port, if t = IPC then SIOX_IPC_PATH @ host @ ''.socket'' else []))"
proof -
  have "no_nul (scheme_text t @ host @ '':'' @ dec_nat port)"
    using assms(2) dec_nat_no_sep [of "CHR 0x00" port] by (cases t) (auto simp: no_nul_def is_digit_char_def)
  then have c: "c_str (scheme_text t @ host @ '':'' @ dec_nat port) = scheme_text t @ host @ '':'' @ dec_nat port"
    by (auto simp: c_str_def no_nul_def takeWhile_eq_all_conv)
  have "takeWhile (\<lambda>c. c \<noteq> CHR '':'') (host @ '':'' @ dec_nat port) = host"
    using assms(1) by (subst takeWhile_append2) auto
  then have "match_address (scheme_text t @ host @ '':'' @ dec_nat port) = Some (t, host, dec_nat port)"
    using dec_nat_digits [of _ port] by (simp add: match_address_def Let_def list_all_iff)
  then show ?thesis
    using assms(3,4) unfolding splitAddressParts_def c by (auto simp: Let_def)
qed

theorem address_roundtrip_witness:
  "splitAddressParts (scheme_text TCP @ ''localhost'' @ '':'' @ dec_nat 80) = Inr (Inr (TCP, ''localhost'', 80, []))"
  using address_roundtrip [of "''localhost''" 80 TCP] by (simp add: no_nul_def)

end
