(* ===== verification/Fadvise_Read_Ahead.thy ===== *)
theory Fadvise_Read_Ahead
  imports Activity_Builder Ontology_Interface System_Information
begin

text \<open>
  The plugin \<^verbatim>\<open>activity_multiplexer/plugins/fadviseReadAhead\<close>: it watches the POSIX calls of a process, predicts for every
  file where the next read will be and asks the operating system to fetch that region. Offsets and counters are
  64-bit words that wrap around. The answers of \<open>lseek\<close> and \<open>posix_fadvise\<close> are arguments of the handlers; the requests to the
  operating system are part of the result. The attribute ids have no initial value in the source: \<open>None\<close> stands for a
  member that was not written, and reading it is undefined. Reports are output only and left out.
\<close>

record FileStatistics =
  fs_filename :: string
  fs_correctPredictions :: u64
  fs_missPredictions :: u64
  fs_prefetchesConducted :: u64
  fs_prefetchedData :: u64
  fs_correctPredictionInARow :: u64
  fs_nextPredictionSize :: u64
  fs_nextPredictionOffset :: u64
  fs_lastReadOffset :: u64
  fs_lastReadSize :: u64

definition FileStatistics_new :: "string \<Rightarrow> FileStatistics" where
  "FileStatistics_new filename = \<lparr>fs_filename = filename, fs_correctPredictions = 0, fs_missPredictions = 0, fs_prefetchesConducted = 0,
     fs_prefetchedData = 0, fs_correctPredictionInARow = 0, fs_nextPredictionSize = 0, fs_nextPredictionOffset = 0,
     fs_lastReadOffset = 0, fs_lastReadSize = 0\<rparr>"

datatype posix_handler = HandleOpen | HandleClose | HandleWrite | HandleRead

record FadviseReadAheadPlugin =
  fp_statistics :: "ActivityID \<rightharpoonup> FileStatistics"
  fp_statisticsUnnamedFiles :: "u32 \<rightharpoonup> FileStatistics"
  fp_activityHandlers :: "UniqueComponentActivityID \<rightharpoonup> posix_handler"
  fp_fhID :: "OntologyAttributeID option"
  fp_fname :: "OntologyAttributeID option"
  fp_bytesReadID :: "OntologyAttributeID option"
  fp_positionID :: "OntologyAttributeID option"
  fp_bytesWrittenID :: "OntologyAttributeID option"
  fp_registered :: bool

definition FadviseReadAheadPlugin_new :: FadviseReadAheadPlugin where
  "FadviseReadAheadPlugin_new = \<lparr>fp_statistics = Map.empty, fp_statisticsUnnamedFiles = Map.empty, fp_activityHandlers = Map.empty,
     fp_fhID = None, fp_fname = None, fp_bytesReadID = None, fp_positionID = None, fp_bytesWrittenID = None, fp_registered = False\<rparr>"

section \<open>Attributes of an activity\<close>

definition INVALID_UINT64 :: u64 where
  "INVALID_UINT64 = - 1"

definition known_id :: "OntologyAttributeID option \<Rightarrow> OntologyAttributeID outcome" where
  "known_id x = (case x of None \<Rightarrow> Inl (Undefined ''uninitialised attribute id'') | Some i \<Rightarrow> Inr i)"

fun first_attribute :: "OntologyAttributeID \<Rightarrow> Attribute list \<Rightarrow> VariableDatatype option" where
  "first_attribute oaid [] = None"
| "first_attribute oaid (x # xs) = (if attr_id x = oaid then Some (attr_value x) else first_attribute oaid xs)"

definition findUINT32AttributeByID :: "Activity \<Rightarrow> OntologyAttributeID option \<Rightarrow> u32 outcome" where
  "findUINT32AttributeByID a x = bindr (known_id x) (\<lambda>oaid.
     case first_attribute oaid (a_attributeArray a) of None \<Rightarrow> Inr (- 1) | Some v \<Rightarrow> vd_uint32 v)"

definition findUINT64AttributeByID :: "Activity \<Rightarrow> OntologyAttributeID option \<Rightarrow> u64 outcome" where
  "findUINT64AttributeByID a x = bindr (known_id x) (\<lambda>oaid.
     case first_attribute oaid (a_attributeArray a) of None \<Rightarrow> Inr INVALID_UINT64 | Some v \<Rightarrow> vd_uint64 v)"

definition findStrAttributeByID :: "Activity \<Rightarrow> OntologyAttributeID option \<Rightarrow> string outcome" where
  "findStrAttributeByID a x = bindr (known_id x) (\<lambda>oaid.
     case first_attribute oaid (a_attributeArray a) of None \<Rightarrow> Inr ''unknown'' | Some v \<Rightarrow> vd_str v)"

section \<open>The file of an activity\<close>

datatype file_key = Opened ActivityID | Descriptor u32

definition file_statistics :: "file_key \<Rightarrow> FadviseReadAheadPlugin \<Rightarrow> FileStatistics option" where
  "file_statistics k p =
     (case k of Opened aid \<Rightarrow> fp_statistics p aid | Descriptor fh \<Rightarrow> fp_statisticsUnnamedFiles p fh)"

definition set_statistics :: "file_key \<Rightarrow> FileStatistics \<Rightarrow> FadviseReadAheadPlugin \<Rightarrow> FadviseReadAheadPlugin" where
  "set_statistics k fs p =
     (case k of
        Opened aid \<Rightarrow> p \<lparr>fp_statistics := (fp_statistics p)(aid \<mapsto> fs)\<rparr>
      | Descriptor fh \<Rightarrow> p \<lparr>fp_statisticsUnnamedFiles := (fp_statisticsUnnamedFiles p)(fh \<mapsto> fs)\<rparr>)"

definition findParentFile :: "Activity \<Rightarrow> FadviseReadAheadPlugin \<Rightarrow> file_key option" where
  "findParentFile a p = map_option Opened (find (\<lambda>aid. fp_statistics p aid \<noteq> None) (a_parentArray a))"

text \<open>The file, its statistics, and the plugin, in which a dummy was entered when the file was not known.\<close>

definition findParentFileByFh :: "Activity \<Rightarrow> FadviseReadAheadPlugin
    \<Rightarrow> (file_key \<times> FileStatistics \<times> FadviseReadAheadPlugin) outcome" where
  "findParentFileByFh a p =
     (case findParentFile a p of
        Some k \<Rightarrow> (case file_statistics k p of Some fs \<Rightarrow> Inr (k, fs, p) | None \<Rightarrow> Inl (Abort ''unreachable''))
      | None \<Rightarrow>
          bindr (findUINT32AttributeByID a (fp_fhID p)) (\<lambda>fh.
            case fp_statisticsUnnamedFiles p fh of
              Some fs \<Rightarrow> Inr (Descriptor fh, fs, p)
            | None \<Rightarrow> let fs = FileStatistics_new (dec_nat (unat fh)) in
                Inr (Descriptor fh, fs, set_statistics (Descriptor fh) fs p)))"

section \<open>The handlers\<close>

type_synonym prefetch = "u32 \<times> u64 \<times> u64"

definition handlePOSIXOpen :: "Activity \<Rightarrow> FadviseReadAheadPlugin \<Rightarrow> FadviseReadAheadPlugin outcome" where
  "handlePOSIXOpen a p =
     bindr (findStrAttributeByID a (fp_fname p)) (\<lambda>name.
       Inr (set_statistics (Opened (a_aid a)) (FileStatistics_new name) p))"

definition handlePOSIXClose :: "Activity \<Rightarrow> FadviseReadAheadPlugin \<Rightarrow> FadviseReadAheadPlugin outcome" where
  "handlePOSIXClose a p = bindr (findParentFileByFh a p) (\<lambda>(_, _, p'). Inr p')"

definition overlaps_prediction :: "u64 \<Rightarrow> u64 \<Rightarrow> FileStatistics \<Rightarrow> bool" where
  "overlaps_prediction realPosition bytes fs \<longleftrightarrow> realPosition + bytes > fs_nextPredictionOffset fs \<and>
     realPosition < fs_nextPredictionSize fs + fs_nextPredictionOffset fs"

definition handlePOSIXWrite :: "u64 \<Rightarrow> Activity \<Rightarrow> FadviseReadAheadPlugin \<Rightarrow> FadviseReadAheadPlugin outcome" where
  "handlePOSIXWrite seek a p =
     bindr (findUINT64AttributeByID a (fp_bytesWrittenID p)) (\<lambda>bytes.
     bindr (findUINT64AttributeByID a (fp_positionID p)) (\<lambda>position.
     bindr (findParentFileByFh a p) (\<lambda>(k, fs, p1).
     bindr (if position = INVALID_UINT64 then bindr (findUINT32AttributeByID a (fp_fhID p)) (\<lambda>_. Inr seek) else Inr position)
       (\<lambda>realPosition.
         Inr (if overlaps_prediction realPosition bytes fs then set_statistics k (fs \<lparr>fs_correctPredictionInARow := 0\<rparr>) p1 else p1)))))"

text \<open>The update of the statistics by a read, with the region to prefetch; \<open>ret\<close> is the answer of \<open>posix_fadvise\<close>.\<close>

definition record_read :: "int \<Rightarrow> u32 \<Rightarrow> u64 \<Rightarrow> u64 \<Rightarrow> FileStatistics \<Rightarrow> FileStatistics \<times> prefetch list" where
  "record_read ret fh realPosition bytes fs =
     (let fs1 = (if realPosition = fs_nextPredictionOffset fs \<and> bytes = fs_nextPredictionSize fs
                 then fs \<lparr>fs_correctPredictionInARow := fs_correctPredictionInARow fs + 1,
                          fs_correctPredictions := fs_correctPredictions fs + 1\<rparr>
                 else fs \<lparr>fs_correctPredictionInARow := 0, fs_missPredictions := fs_missPredictions fs + 1\<rparr>);
          next = realPosition + (realPosition - fs_lastReadOffset fs);
          fs2 = fs1 \<lparr>fs_nextPredictionSize := bytes, fs_nextPredictionOffset := next\<rparr>;
          fetch = fs_correctPredictionInARow fs2 > 4;
          fs3 = (if fetch \<and> ret = 0
                 then fs2 \<lparr>fs_prefetchesConducted := fs_prefetchesConducted fs2 + 1,
                           fs_prefetchedData := fs_prefetchedData fs2 + bytes\<rparr> else fs2) in
      (fs3 \<lparr>fs_lastReadOffset := realPosition, fs_lastReadSize := bytes\<rparr>, if fetch then [(fh, next, bytes)] else []))"

definition handlePOSIXRead :: "u64 \<Rightarrow> int \<Rightarrow> Activity \<Rightarrow> FadviseReadAheadPlugin \<Rightarrow> (FadviseReadAheadPlugin \<times> prefetch list) outcome" where
  "handlePOSIXRead seek ret a p =
     bindr (findUINT64AttributeByID a (fp_bytesReadID p)) (\<lambda>bytes.
     bindr (findUINT32AttributeByID a (fp_fhID p)) (\<lambda>fh.
     bindr (findUINT64AttributeByID a (fp_positionID p)) (\<lambda>position.
     bindr (findParentFileByFh a p) (\<lambda>(k, fs, p1).
       let realPosition = (if position = INVALID_UINT64 then seek else position) in
       case record_read ret fh realPosition bytes fs of (fs', fetches) \<Rightarrow> Inr (set_statistics k fs' p1, fetches)))))"

definition readahead_Notify :: "u64 \<Rightarrow> int \<Rightarrow> Activity \<Rightarrow> FadviseReadAheadPlugin \<Rightarrow> (FadviseReadAheadPlugin \<times> prefetch list) outcome" where
  "readahead_Notify seek ret a p =
     (case fp_activityHandlers p (a_ucaid a) of
        None \<Rightarrow> Inr (p, [])
      | Some HandleOpen \<Rightarrow> bindr (handlePOSIXOpen a p) (\<lambda>p'. Inr (p', []))
      | Some HandleClose \<Rightarrow> bindr (handlePOSIXClose a p) (\<lambda>p'. Inr (p', []))
      | Some HandleWrite \<Rightarrow> bindr (handlePOSIXWrite seek a p) (\<lambda>p'. Inr (p', []))
      | Some HandleRead \<Rightarrow> handlePOSIXRead seek ret a p)"

section \<open>Initialisation\<close>

record read_ahead_env =
  re_lookup_interfaceID :: "string \<Rightarrow> string \<Rightarrow> UniqueInterfaceID result"
  re_lookup_activityID :: "UniqueInterfaceID \<Rightarrow> string \<Rightarrow> UniqueComponentActivityID result"
  re_lookup_attribute_by_name :: "string \<Rightarrow> string \<Rightarrow> OntologyAttribute result"

definition addActivityHandler :: "read_ahead_env \<Rightarrow> string \<Rightarrow> posix_handler \<Rightarrow> FadviseReadAheadPlugin
    \<Rightarrow> FadviseReadAheadPlugin result" where
  "addActivityHandler E name h p =
     bindr (re_lookup_interfaceID E ''POSIX'' '''') (\<lambda>uiid.
       case re_lookup_activityID E uiid name of
         Inr ucaid \<Rightarrow> Inr (p \<lparr>fp_activityHandlers := (fp_activityHandlers p)(ucaid \<mapsto> h)\<rparr>)
       | Inl (NotFoundError m) \<Rightarrow> Inr p
       | Inl e \<Rightarrow> Inl e)"

text \<open>A block of statements that stops at an exception and keeps what was done.\<close>

fun until_exception :: "('p \<Rightarrow> 'p result) list \<Rightarrow> 'p \<Rightarrow> siox_error option \<times> 'p" where
  "until_exception [] p = (None, p)"
| "until_exception (f # fs) p = (case f p of Inl e \<Rightarrow> (Some e, p) | Inr p' \<Rightarrow> until_exception fs p')"

definition posix_attribute :: "read_ahead_env \<Rightarrow> string \<Rightarrow> (OntologyAttributeID \<Rightarrow> 'p \<Rightarrow> 'p) \<Rightarrow> 'p \<Rightarrow> 'p result" where
  "posix_attribute E name store p = bindr (re_lookup_attribute_by_name E ''POSIX'' name) (\<lambda>a. Inr (store (oa_aID a) p))"

definition init_block :: "read_ahead_env \<Rightarrow> (FadviseReadAheadPlugin \<Rightarrow> FadviseReadAheadPlugin result) list" where
  "init_block E =
     [addActivityHandler E ''open'' HandleOpen, addActivityHandler E ''creat'' HandleOpen, addActivityHandler E ''close'' HandleClose,
      addActivityHandler E ''write'' HandleWrite, addActivityHandler E ''read'' HandleRead, addActivityHandler E ''pwrite'' HandleWrite,
      addActivityHandler E ''pread'' HandleRead, addActivityHandler E ''writev'' HandleWrite, addActivityHandler E ''readv'' HandleRead,
      posix_attribute E ''descriptor/filehandle'' (\<lambda>i p. p \<lparr>fp_fhID := Some i\<rparr>),
      posix_attribute E ''descriptor/filename'' (\<lambda>i p. p \<lparr>fp_fname := Some i\<rparr>),
      posix_attribute E ''file/position'' (\<lambda>i p. p \<lparr>fp_positionID := Some i\<rparr>),
      posix_attribute E ''quantity/BytesRead'' (\<lambda>i p. p \<lparr>fp_bytesReadID := Some i\<rparr>),
      posix_attribute E ''quantity/BytesWritten'' (\<lambda>i p. p \<lparr>fp_bytesWrittenID := Some i\<rparr>)]"

text \<open>An exception other than \<open>NotFoundError\<close> leaves \<open>initPlugin\<close>; after that one the plugin is registered all the same.\<close>

definition readahead_init :: "read_ahead_env \<Rightarrow> FadviseReadAheadPlugin result" where
  "readahead_init E =
     (case until_exception (init_block E) FadviseReadAheadPlugin_new of
        (None, p) \<Rightarrow> Inr (p \<lparr>fp_registered := True\<rparr>)
      | (Some (NotFoundError m), p) \<Rightarrow> Inr (p \<lparr>fp_registered := True\<rparr>)
      | (Some e, p) \<Rightarrow> Inl e)"

section \<open>Sequences of calls\<close>

fun readahead_run :: "(u64 \<times> int \<times> Activity) list \<Rightarrow> FadviseReadAheadPlugin \<Rightarrow> (FadviseReadAheadPlugin \<times> prefetch list) outcome" where
  "readahead_run [] p = Inr (p, [])"
| "readahead_run ((seek, ret, a) # es) p =
     bindr (readahead_Notify seek ret a p) (\<lambda>(p1, c1). bindr (readahead_run es p1) (\<lambda>(p2, c2). Inr (p2, c1 @ c2)))"

text \<open>A read of a file that was opened, at a position that the activity or \<open>lseek\<close> gives.\<close>

definition is_read_of :: "ActivityID \<Rightarrow> u32 \<Rightarrow> u64 \<Rightarrow> FadviseReadAheadPlugin \<Rightarrow> u64 \<Rightarrow> u64 \<Rightarrow> Activity \<Rightarrow> bool" where
  "is_read_of aid fh n p pos seek a \<longleftrightarrow> fp_activityHandlers p (a_ucaid a) = Some HandleRead \<and> findParentFile a p = Some (Opened aid) \<and>
     findUINT64AttributeByID a (fp_bytesReadID p) = Inr n \<and> findUINT32AttributeByID a (fp_fhID p) = Inr fh \<and>
     (\<exists>q. findUINT64AttributeByID a (fp_positionID p) = Inr q \<and> (if q = INVALID_UINT64 then seek else q) = pos)"

lemma read_of_opened:
  assumes "is_read_of aid fh n p pos seek a" and "fp_statistics p aid \<noteq> None"
  shows "readahead_Notify seek ret a (set_statistics (Opened aid) fs p) =
    (case record_read ret fh pos n fs of (fs', c) \<Rightarrow> Inr (set_statistics (Opened aid) fs' p, c))"
proof -
  have "findParentFile a (set_statistics (Opened aid) fs p) = findParentFile a p"
    using assms(2) by (auto simp: findParentFile_def set_statistics_def intro!: arg_cong [where f = "\<lambda>P. map_option Opened (find P _)"])
  with assms show ?thesis
    by (auto simp: is_read_of_def readahead_Notify_def handlePOSIXRead_def findParentFileByFh_def set_statistics_def
        file_statistics_def Let_def split: prod.splits)
qed

text \<open>The statistics after \<open>k\<close> reads of \<open>n\<close> bytes with a constant stride.\<close>

definition stride_stats :: "string \<Rightarrow> u64 \<Rightarrow> u64 \<Rightarrow> u64 \<Rightarrow> nat \<Rightarrow> FileStatistics" where
  "stride_stats name s d n k =
     (if k = 0 then FileStatistics_new name
      else \<lparr>fs_filename = name, fs_correctPredictions = of_nat (k - 2), fs_missPredictions = of_nat (min k 2),
        fs_prefetchesConducted = of_nat (k - 6), fs_prefetchedData = of_nat (k - 6) * n,
        fs_correctPredictionInARow = of_nat (k - 2), fs_nextPredictionSize = n,
        fs_nextPredictionOffset = (if k = 1 then s + s else s + of_nat k * d), fs_lastReadOffset = s + of_nat (k - 1) * d,
        fs_lastReadSize = n\<rparr>)"

lemma more_than_four: "j < 2 ^ 64 \<Longrightarrow> (of_nat j :: u64) > 4 \<longleftrightarrow> j > 4"
  by (simp add: word_less_nat_alt unat_of_nat take_bit_nat_eq_self)

lemma stride_step:
  assumes "n \<noteq> 0" and "d \<noteq> s" and "k < 2 ^ 64"
  shows "record_read 0 fh (s + of_nat k * d) n (stride_stats name s d n k) =
    (stride_stats name s d n (Suc k), if 6 \<le> k then [(fh, s + of_nat (Suc k) * d, n)] else [])"
proof -
  consider "k = 0" | "k = 1" | "2 \<le> k" by linarith
  then show ?thesis
  proof cases
    case 1
    with assms show ?thesis by (simp add: record_read_def stride_stats_def FileStatistics_new_def Let_def)
  next
    case 2
    with assms show ?thesis by (simp add: record_read_def stride_stats_def Let_def algebra_simps)
  next
    case 3
    then obtain j where k: "k = Suc (Suc j)" by (metis add_2_eq_Suc le_Suc_ex)
    have c: "(of_nat j :: u64) + 1 > 4 \<longleftrightarrow> j \<ge> 4"
      using more_than_four [of "Suc j"] assms(3) k by (simp add: add.commute less_Suc_eq_le Suc_le_eq)
    have e: "Suc (Suc (Suc j)) - 6 = Suc (Suc (Suc j) - 6)" if "j \<ge> 4" using that by simp
    show ?thesis
      using c e by (auto simp: record_read_def stride_stats_def Let_def k algebra_simps)
  qed
qed

lemma stride_counters:
  "fs_correctPredictions (stride_stats name s d n k) = of_nat (k - 2)"
  "fs_missPredictions (stride_stats name s d n k) = of_nat (min k 2)"
  "fs_prefetchesConducted (stride_stats name s d n k) = of_nat (k - 6)"
  by (simp_all add: stride_stats_def FileStatistics_new_def)

lemma fetches_Cons:
  "k < m \<Longrightarrow> (if 6 \<le> k then [f k] else []) @ map f [max 6 (Suc k)..<m] = map f [max 6 k..<m]"
  by (cases "6 \<le> k") (auto simp: max_def upt_conv_Cons not_less_eq_eq)

lemma stride_run:
  assumes n: "n \<noteq> 0" and d: "d \<noteq> s" and op: "fp_statistics p aid \<noteq> None" and "k + length es \<le> 2 ^ 64"
    and "\<forall>i < length es. \<exists>seek a. es ! i = (seek, 0, a) \<and> is_read_of aid fh n p (s + of_nat (k + i) * d) seek a"
  shows "readahead_run es (set_statistics (Opened aid) (stride_stats name s d n k) p) =
    Inr (set_statistics (Opened aid) (stride_stats name s d n (k + length es)) p,
      map (\<lambda>i. (fh, s + of_nat (Suc i) * d, n)) [max 6 k..<k + length es])"
  using assms(4,5)
proof (induction es arbitrary: k)
  case (Cons e es)
  obtain seek a where e: "e = (seek, 0, a)" and r: "is_read_of aid fh n p (s + of_nat k * d) seek a"
    using Cons.prems(2) by fastforce
  have k: "k < 2 ^ 64" using Cons.prems(1) by simp
  have "readahead_Notify seek 0 a (set_statistics (Opened aid) (stride_stats name s d n k) p) =
      Inr (set_statistics (Opened aid) (stride_stats name s d n (Suc k)) p, if 6 \<le> k then [(fh, s + of_nat (Suc k) * d, n)] else [])"
    by (simp add: read_of_opened [OF r op] stride_step [OF n d k] del: of_nat_Suc)
  moreover have "readahead_run es (set_statistics (Opened aid) (stride_stats name s d n (Suc k)) p) =
      Inr (set_statistics (Opened aid) (stride_stats name s d n (Suc k + length es)) p,
        map (\<lambda>i. (fh, s + of_nat (Suc i) * d, n)) [max 6 (Suc k)..<Suc k + length es])"
  proof (rule Cons.IH)
    show "\<forall>i < length es. \<exists>seek a. es ! i = (seek, 0, a) \<and> is_read_of aid fh n p (s + of_nat (Suc k + i) * d) seek a"
      using Cons.prems(2) by (metis Suc_less_eq add_Suc_shift length_Cons nth_Cons_Suc)
  qed (use Cons.prems(1) in simp)
  moreover note fetches_Cons [of k "k + length (e # es)" "\<lambda>i. (fh, s + of_nat (Suc i) * d, n)"]
  ultimately show ?case
    by (simp add: e del: of_nat_Suc upt_Suc)
qed (simp add: max_def)


text \<open>Eight reads of 10 bytes, each 50 bytes before the last one.\<close>

definition example_aid :: ActivityID where
  "example_aid = ActivityID (ComponentID (ProcessID 1 2 3) 4) 5 6"

definition example_read :: "u64 \<Rightarrow> Activity" where
  "example_read pos = \<lparr>a_ucaid = 3, a_time_start = 0, a_time_stop = 0, a_aid = ActivityID (ComponentID (ProcessID 1 2 3) 4) 6 6,
     a_parentArray = [example_aid], a_remoteCallsArray = [],
     a_attributeArray = [Attribute 1 (VUint32 5), Attribute 2 (VUint64 pos), Attribute 4 (VUint64 10)],
     a_remoteInvoker = None, a_errorValue = 0\<rparr>"

definition example_plugin :: FadviseReadAheadPlugin where
  "example_plugin = FadviseReadAheadPlugin_new \<lparr>fp_statistics := [example_aid \<mapsto> FileStatistics_new ''f''],
     fp_activityHandlers := [3 \<mapsto> HandleRead], fp_fhID := Some 1, fp_positionID := Some 2, fp_bytesReadID := Some 4\<rparr>"

lemma example_read_of:
  "is_read_of example_aid 5 10 example_plugin (if pos = INVALID_UINT64 then 0 else pos) 0 (example_read pos)"
  by (simp add: is_read_of_def example_plugin_def example_read_def FadviseReadAheadPlugin_new_def findParentFile_def
      findUINT64AttributeByID_def findUINT32AttributeByID_def known_id_def)


text \<open>
  A plugin that could not find its attributes is not switched off, although it says so: it is registered for all
  activities, its handlers are in place, and a read of a file uses an attribute id that was never written.
\<close>

theorem missing_attribute_leaves_handlers:
  assumes "re_lookup_interfaceID E ''POSIX'' [] = Inr u" and "\<forall>name. \<exists>c. re_lookup_activityID E u name = Inr c"
    and "re_lookup_activityID E u ''readv'' = Inr c"
    and "re_lookup_attribute_by_name E ''POSIX'' ''descriptor/filehandle'' = Inl (NotFoundError m)"
  shows "\<exists>p. readahead_init E = Inr p \<and> fp_registered p \<and>
    (a_ucaid a = c \<longrightarrow> readahead_Notify seek ret a p = Inl (Undefined ''uninitialised attribute id''))"
proof -
  obtain g where g: "re_lookup_activityID E u name = Inr (g name)" for name
    using assms(2) by metis
  have add: "addActivityHandler E name h p = Inr (p \<lparr>fp_activityHandlers := (fp_activityHandlers p)(g name \<mapsto> h)\<rparr>)" for name h p
    using assms(1) by (simp add: addActivityHandler_def g)
  have c: "g ''readv'' = c" using assms(3) g by simp
  obtain hs where hs: "until_exception (init_block E) FadviseReadAheadPlugin_new =
      (Some (NotFoundError m), FadviseReadAheadPlugin_new \<lparr>fp_activityHandlers := hs(c \<mapsto> HandleRead)\<rparr>)"
    by (simp add: init_block_def add posix_attribute_def assms(4) c)
  have none: "fp_bytesReadID FadviseReadAheadPlugin_new = None"
    by (simp add: FadviseReadAheadPlugin_new_def)
  show ?thesis
    by (auto simp: readahead_init_def hs readahead_Notify_def handlePOSIXRead_def findUINT64AttributeByID_def known_id_def none)
qed

theorem missing_attribute_leaves_handlers_witness:
  "\<exists>p. readahead_init \<lparr>re_lookup_interfaceID = (\<lambda>_ _. Inr 1), re_lookup_activityID = (\<lambda>_ _. Inr 3),
      re_lookup_attribute_by_name = (\<lambda>_ _. Inl (NotFoundError []))\<rparr> = Inr p \<and>
    readahead_Notify 0 0 (example_read 7) p = Inl (Undefined ''uninitialised attribute id'')"
  using missing_attribute_leaves_handlers [of "\<lparr>re_lookup_interfaceID = (\<lambda>_ _. Inr 1), re_lookup_activityID = (\<lambda>_ _. Inr 3),
      re_lookup_attribute_by_name = (\<lambda>_ _. Inl (NotFoundError []))\<rparr>" 1 3 "[]" "example_read 7" 0 0]
  by (auto simp: example_read_def)

end
