(* ===== verification/Spec2Isabelle.thy ===== *)
theory Spec2Isabelle
  imports Binary_Serializer Ids Topology_Association File_Ontology Activity_Multiplexer Statistics_Collector Reasoner_Properties Low_Level_Properties
    Generic_History Persistent_Store Histogram_Adpi Topology_System_Information Cache_Topology Gio_Transport Fadvise_Read_Ahead
begin

text \<open>
  SIOX records what the layers of a parallel program do to storage. Wrappers around the layers
  report \<^emph>\<open>activities\<close>; a \<^emph>\<open>multiplexer\<close> hands them to plugins that analyse or store them;
  \<^emph>\<open>ontology\<close>, \<^emph>\<open>association mapper\<close> and \<^emph>\<open>topology\<close> translate between names and the small
  numbers that activities carry; a \<^emph>\<open>statistics collector\<close> polls counters of the machine and keeps
  their history; a \<^emph>\<open>reasoner\<close> draws conclusions about the health of the system, an \<^emph>\<open>optimizer\<close> suggests parameters.
  This development models these parts, from the value type up to the C interface that composes them. Paths below are relative to \<^verbatim>\<open>src/src\<close>.

  \<^bold>\<open>Foundations\<close>
  \<^item> \<open>Siox_Prelude\<close>: machine words, outcomes (a value, or \<open>Abort\<close> for a failed assertion and
    \<open>Undefined\<close> for behaviour C++ leaves undefined), decimal numerals, C strings, little endian bytes.
  \<^item> \<open>Ieee_Float\<close>: binary floating point numbers as bit patterns with their comparison.
  \<^item> \<open>Variable_Datatype\<close> (\<^verbatim>\<open>include/core/datatypes/VariableDatatype.hpp\<close>): the tagged union that carries
    every value; order, arithmetic, printing and parsing.
  \<^item> \<open>Binary_Serializer\<close> (\<^verbatim>\<open>container-binary-serializer.hpp\<close>, \<^verbatim>\<open>VariableDatatypeJBinarySerialization.hpp\<close>):
    buffers with read and write positions; serialized values are read back, truncated ones refused.
  \<^item> \<open>Ids\<close> (\<^verbatim>\<open>include/monitoring/datatypes/ids.hpp\<close>): identifiers with their orders (instances of
    \<^verbatim>\<open>linorder\<close>), rendering and hashes.

  \<^bold>\<open>Topology\<close>
  \<^item> \<open>Topology_Types\<close>: the abstract class \<open>Topology\<close> as a record of operations and its contract as the
    locale \<open>topology\<close>; everything above the RAM topology is proved from this contract.
  \<^item> \<open>Topology_Paths\<close> (\<^verbatim>\<open>monitoring/topology/Topology.cpp\<close>): paths and aliases. The chase of aliases may
    run for ever in C++ and is a \<^verbatim>\<open>partial_function (option)\<close>; it returns for all alias tables that
    \<open>setAlias\<close> builds.
  \<^item> \<open>Id_Table\<close>, \<open>Registration\<close>, \<open>Ram_Topology\<close> (\<^verbatim>\<open>monitoring/topology/RamTopology.cpp\<close>): vectors indexed by
    id next to maps by name; the double-checked registration as an interleaving of threads; all
    operations, the invariant \<open>ram_inv\<close> of the graph, and the interpretation of the contract. Ids are 32
    bits wide: \<open>ram_free\<close> counts those left, and theorems assume that enough are.
  \<^item> \<open>Cache_Topology\<close> (\<^verbatim>\<open>monitoring/topology/cacheTopology\<close>): a topology that answers from a cache. It is transparent (a simulation over all
    sequences of operations) while every child name is used at one place only, and confuses places otherwise.

  \<^bold>\<open>Name services\<close>
  \<^item> \<open>Ontology_Interface\<close>: the contract of the abstract class \<open>Ontology\<close>.
  \<^item> \<open>File_Ontology\<close>, \<open>Topology_Ontology\<close> (\<^verbatim>\<open>monitoring/ontology/modules\<close>): its two implementations. The first
    shares objects between two maps and has an explicit store for them, the second is a client of
    the topology contract.
  \<^item> \<open>Association_Mapper\<close>, \<open>Topology_Association\<close> (\<^verbatim>\<open>monitoring/association_mapper/modules\<close>): the contract of the
    association mapper (values are written once, instances are numbered injectively), the file
    implementation with its archive, and the implementation in a topology, as a sublocale.

  \<^bold>\<open>Activities\<close>
  \<^item> \<open>Activity_Builder\<close> (\<^verbatim>\<open>monitoring/activity_builder\<close>, \<^verbatim>\<open>Activity.hpp\<close>): a store of shared activities, a builder
    per thread; identifiers are unique and activities nest.
  \<^item> \<open>Activity_Queue\<close>, \<open>Activity_Multiplexer\<close> (\<^verbatim>\<open>monitoring/activity_multiplexer\<close>): the ring buffer refines a
    bounded list; writers and reader as a step relation (FIFO order and accounting of losses as
    invariants); dispatcher tables of both multiplexers refine a map from types to multisets of
    subscribers.

  \<^bold>\<open>Statistics\<close>
  \<^item> \<open>Statistics_History\<close> (\<^verbatim>\<open>Statistic.cpp\<close>): rings of aggregated values for five intervals are equal to a
    reference definition over the whole sequence of samples; differences of counters that wrap.
  \<^item> \<open>Statistics_Collector\<close> (\<^verbatim>\<open>ThreadedStatisticsCollector.cpp\<close>, \<^verbatim>\<open>StatisticsCollection.cpp\<close>,
    \<^verbatim>\<open>StatisticsMultiplexerSync.cpp\<close>): the tables of the collector, a polling round, queries; composed with the
    RAM topology and the file ontology through the locale \<open>statistics_names\<close>.

  \<^bold>\<open>Reasoner and optimizer\<close>
  \<^item> \<open>Reasoning_Datatypes\<close> (\<^verbatim>\<open>include/knowledge/reasoner\<close>): health of processes, nodes and the system, issues and what the
    anomaly plugins observe.
  \<^item> \<open>Reasoner\<close>, \<open>Reasoner_Properties\<close> (\<^verbatim>\<open>knowledge/reasoner/modules\<close>): the cycle of the periodic thread (gathering,
    merging, assessment, detection of anomalies, push to the reasoner above, triggers) and the messages between the
    reasoners of processes, nodes and the system. Observations are neither lost nor counted twice, an
    abnormal one fires the triggers, and what is pushed is filed at the other side.
  \<^item> \<open>Optimizer\<close> (\<^verbatim>\<open>knowledge/optimizer/modules\<close>): the table of experts refines a map from attributes to plugins.
  \<^item> \<open>Generic_History\<close>, \<open>Persistent_Store\<close> (\<^verbatim>\<open>knowledge/optimizer/plugins\<close>): the two plugins. The history of performances is equal to a
    reference definition over all measurements, and the suggestion is the best entry of it; hints that
    are configured for files are suggested for them.
  \<^item> \<open>Histogram_Adpi\<close> (\<^verbatim>\<open>activity_multiplexer/plugins/activity-histogram-adpi\<close>): an anomaly plugin that learns the range of the
    durations of an activity type, keeps it in a topology and rates later activities; the counters account for all
    activities and a slower one is never rated better.
  \<^item> \<open>Fadvise_Read_Ahead\<close> (\<^verbatim>\<open>activity_multiplexer/plugins/fadviseReadAhead\<close>): a plugin that predicts the next read of a file and has it
    fetched; reads with a constant stride are predicted exactly.

  \<^bold>\<open>System information and the C interface\<close>
  \<^item> \<open>System_Information\<close>, \<open>File_System_Information\<close> (\<^verbatim>\<open>monitoring/system_information\<close>): numbers for hosts, devices, file
    systems, interfaces and activities; the contract and the implementation that keeps them in a file.
  \<^item> \<open>Topology_System_Information\<close>: the implementation that keeps them in a topology. It needs more than the contract of the topology,
    namely that operations touch only what they are asked to; these laws are the locale \<open>topology_frame\<close>.
  \<^item> \<open>Low_Level_Interface\<close>, \<open>Low_Level_Properties\<close> (\<^verbatim>\<open>monitoring/low-level-c\<close>): the functions that instrumented layers
    call, on the global state of the process; the modules loaded at run time are a record of operations. Nested calls
    leave their trace at the multiplexers, components keep their numbers apart, attribute values keep their
    types; the interface is composed with the file based ontology, system information and association mapper.

  \<^bold>\<open>Communication\<close>
  \<^item> \<open>Job_Processor\<close> (\<^verbatim>\<open>util/JobProcessors\<close>): queues of jobs and the thread that works them off, as an interleaving of
    steps. Jobs are done once and in order, and a shutdown finishes. The contract of a queue is the locale \<open>processor_queue\<close>.
  \<^item> \<open>Message_Service\<close> (\<^verbatim>\<open>core/hcomm/MultiMessageTypeService.cpp\<close>, \<^verbatim>\<open>core/comm/modules/in-memory\<close>): messages, the callbacks of
    clients and servers, the service that shares a connection between message types, and the transport within a
    process. What the service needs of a transport is the locale \<open>framing\<close>.
  \<^item> \<open>Gio_Transport\<close> (\<^verbatim>\<open>core/comm/modules/gio\<close>): frames on a stream of bytes and the threads of a connection; responses are
    delivered for the messages they belong to under every interleaving.

  \<^bold>\<open>Conventions\<close>
  A class is a record, a member function takes and returns it; a pointer to a shared object is an
  address into a store. Exceptions are values of a sum type. Mutexes are modelled where a claim is
  about concurrency (registration, queue, job processor, connection); elsewhere an operation is one step. Loops are structural
  recursion; a loop that waits for the clock takes the readings of the clock as a list. What
  libraries outside of the repository do is a parameter: the archive of the serialization library is the
  value of the serialized members.

  \<^bold>\<open>Not modelled\<close>
  The creation of sockets and acceptor threads, the Boost.Asio transport, data base back ends, the topology
  behind a network, dynamic loading and configuration, replay and output plugins, providers of counters,
  mathematical expressions, reporters, loggers and command line tools: they are calls of the operating system or of libraries that
  are not part of the sources. The high-level communication module is unfinished and not built.
\<close>

end
